(* ===== verification/Prelude.thy ===== *)
theory Prelude
  imports Main "HOL-Library.Char_ord" "HOL-Library.List_Lexorder" "HOL-Library.Product_Lexorder"
begin

text \<open>
  Shared vocabulary of the development: the errors the program throws (\<^verbatim>\<open>src/Errors.h\<close>) as a
  datatype with the results as sums, the C character classes in the "C"/UTF-8 locale, C's
  truncating integer division and conversion to 32-bit \<open>int\<close>, decimal output (\<open>%d\<close>, \<open>%02d\<close>), and
  generic lemmas about lists and strings.  A \<open>std::string\<close> is a list of bytes (\<open>string\<close>); its
  \<open>operator<\<close> is the lexicographic order on unsigned bytes, which is the order of
  \<open>List_Lexorder\<close> over \<open>Char_ord\<close>.
\<close>

named_theorems result_simps \<open>inversion of the result combinators\<close>
named_theorems char_simps \<open>membership in the C character classes\<close>

section \<open>Errors and results\<close>

text \<open>The exception classes of Errors.h that the modelled code throws, each with its message,
  plus the standard library's \<open>std::logic_error\<close> and \<open>std::runtime_error\<close>.\<close>

datatype err =
    SyntaxError string
  | ConfigError string
  | CommandError string
  | BadStore string
  | UnavailableStore string
  | FatalStoreError string
  | InvalidDate string
  | InvalidPruneList string
  | SystemError string
  | IOError string int
  | DatabaseBusy string
  | DatabaseError string
  | LogicError string
  | RuntimeError string
  | SubprocessFailed string int
  | AssertionFailed
  | UndefinedBehaviour

type_synonym 'a result = "err + 'a"

definition rbind :: "'a result \<Rightarrow> ('a \<Rightarrow> 'b result) \<Rightarrow> 'b result" where
  "rbind m f = (case m of Inl e \<Rightarrow> Inl e | Inr x \<Rightarrow> f x)"

definition rguard :: "bool \<Rightarrow> err \<Rightarrow> unit result" where
  "rguard b e = (if b then Inr () else Inl e)"

lemma rbind_simps [simp]:
  "rbind (Inl e) f = Inl e"
  "rbind (Inr x) f = f x"
  by (simp_all add: rbind_def)

lemma rbind_Inr_iff [result_simps]: "rbind m f = Inr y \<longleftrightarrow> (\<exists>x. m = Inr x \<and> f x = Inr y)"
  by (cases m) auto

lemma rbind_Inl_iff [result_simps]:
  "rbind m f = Inl e \<longleftrightarrow> m = Inl e \<or> (\<exists>x. m = Inr x \<and> f x = Inl e)"
  by (cases m) auto

lemma rguard_iff [result_simps, simp]:
  "rguard b e = Inr u \<longleftrightarrow> b"
  "rguard b e = Inl e' \<longleftrightarrow> \<not> b \<and> e' = e"
  by (auto simp: rguard_def)

lemma rguard_simps [simp]:
  "rguard True e = Inr ()"
  "rguard False e = Inl e"
  by (simp_all add: rguard_def)

text \<open>A loop over a list whose body can throw.\<close>

fun fold_result :: "('s \<Rightarrow> 'a \<Rightarrow> 's result) \<Rightarrow> 's \<Rightarrow> 'a list \<Rightarrow> 's result" where
  "fold_result f s [] = Inr s"
| "fold_result f s (x # xs) = rbind (f s x) (\<lambda>s'. fold_result f s' xs)"

lemma fold_result_append:
  "fold_result f s (xs @ ys) = rbind (fold_result f s xs) (\<lambda>s'. fold_result f s' ys)"
  by (induction xs arbitrary: s) (simp_all add: rbind_def split: sum.splits)

lemma fold_result_snoc [result_simps]:
  "fold_result f s (xs @ [x]) = Inr t \<longleftrightarrow> (\<exists>u. fold_result f s xs = Inr u \<and> f u x = Inr t)"
  by (auto simp: fold_result_append rbind_Inr_iff)

text \<open>Folds that return, and what they keep.\<close>

lemma isl_rbind: "isl (rbind r f) \<longleftrightarrow> isl r \<or> (\<exists>x. r = Inr x \<and> isl (f x))"
  by (cases r) (simp_all add: rbind_def)

lemma fold_result_returns: "(\<And>s x. x \<in> set xs \<Longrightarrow> \<not> isl (f s x)) \<Longrightarrow> \<not> isl (fold_result f s xs)"
proof (induction xs arbitrary: s)
  case (Cons x xs)
  have "\<not> isl (f s x)" using Cons.prems by simp
  then show ?case using Cons by (cases "f s x") (simp_all add: rbind_def)
qed simp

lemma fold_keeps: "(\<And>s x s'. f s x = Inr s' \<Longrightarrow> P s \<Longrightarrow> P s') \<Longrightarrow> fold_result f s xs = Inr s' \<Longrightarrow> P s \<Longrightarrow> P s'"
  by (induction xs arbitrary: s) (auto simp: rbind_def split: sum.splits)

text \<open>An invariant that relates the part of the list already seen to the state.\<close>

lemma fold_result_invariant:
  assumes "fold_result f s xs = Inr t" "P [] s"
    "\<And>ys x zs u v. xs = ys @ x # zs \<Longrightarrow> P ys u \<Longrightarrow> f u x = Inr v \<Longrightarrow> P (ys @ [x]) v"
  shows "P xs t"
  using assms
proof (induction xs arbitrary: t rule: rev_induct)
  case (snoc x xs)
  from snoc.prems(1) obtain u where u: "fold_result f s xs = Inr u" "f u x = Inr t"
    by (auto simp: result_simps)
  have "P xs u"
  proof (rule snoc.IH [OF u(1) snoc.prems(2)])
    fix ys y zs u v assume "xs = ys @ y # zs" "P ys u" "f u y = Inr v"
    then show "P (ys @ [y]) v" by (intro snoc.prems(3) [of ys y "zs @ [x]"]) auto
  qed
  with u(2) show ?case using snoc.prems(3) [of xs x "[]"] by simp
qed simp

section \<open>C characters\<close>

text \<open>\<open>char\<close> is signed on the platforms the program targets: bytes from 128 on are negative.\<close>

definition schar :: "char \<Rightarrow> int" where
  "schar c = (let n = of_char c :: nat in if n < 128 then int n else int n - 256)"

definition c_isdigit :: "char \<Rightarrow> bool" where
  "c_isdigit c \<longleftrightarrow> CHR ''0'' \<le> c \<and> c \<le> CHR ''9''"

definition c_isupper :: "char \<Rightarrow> bool" where
  "c_isupper c \<longleftrightarrow> CHR ''A'' \<le> c \<and> c \<le> CHR ''Z''"

definition c_islower :: "char \<Rightarrow> bool" where
  "c_islower c \<longleftrightarrow> CHR ''a'' \<le> c \<and> c \<le> CHR ''z''"

definition c_isalpha :: "char \<Rightarrow> bool" where
  "c_isalpha c \<longleftrightarrow> c_isupper c \<or> c_islower c"

definition c_isalnum :: "char \<Rightarrow> bool" where
  "c_isalnum c \<longleftrightarrow> c_isalpha c \<or> c_isdigit c"

definition c_tolower :: "char \<Rightarrow> char" where
  "c_tolower c = (if c_isupper c then char_of (of_char c + 32 :: nat) else c)"

text \<open>\<open>isspace\<close>: space, tab, newline, vertical tab, form feed, carriage return.\<close>

definition c_isspace :: "char \<Rightarrow> bool" where
  "c_isspace c \<longleftrightarrow> c \<in> {CHR '' '', CHR 0x09, CHR 0x0A, CHR 0x0B, CHR 0x0C, CHR 0x0D}"

lemma c_isdigit_zero [simp]: "c_isdigit CHR ''0''"
  by (simp add: c_isdigit_def)

lemma c_isdigit_iff [char_simps]: "c_isdigit c \<longleftrightarrow> of_char c \<in> {48..57::nat}"
  by (auto simp: c_isdigit_def less_eq_char_def)

lemma c_isalpha_iff [char_simps]:
  "c_isalpha c \<longleftrightarrow> of_char c \<in> {65..90::nat} \<union> {97..122}"
  by (auto simp: c_isalpha_def c_isupper_def c_islower_def less_eq_char_def)

lemma c_isdigit_not_alpha: "c_isdigit c \<Longrightarrow> \<not> c_isalpha c"
  by (auto simp: char_simps)

lemma c_isspace_not_alnum: "c_isspace c \<Longrightarrow> \<not> c_isalnum c"
  by (auto simp: c_isspace_def c_isalnum_def char_simps)

lemma schar_inject [simp]: "schar a = schar b \<longleftrightarrow> a = b"
proof
  assume h: "schar a = schar b"
  define n m where nm: "n = (of_char a :: nat)" "m = (of_char b :: nat)"
  then have "n < 256" "m < 256" by simp_all
  with h have "n = m"
    by (simp add: schar_def Let_def flip: nm split: if_splits)
  then show "a = b" by (simp add: nm)
qed simp

section \<open>C integers\<close>

text \<open>Division and remainder truncate towards zero; the remainder has the dividend's sign.\<close>

definition cdiv :: "int \<Rightarrow> int \<Rightarrow> int" where
  "cdiv a b = sgn a * sgn b * (\<bar>a\<bar> div \<bar>b\<bar>)"

definition cmod :: "int \<Rightarrow> int \<Rightarrow> int" where
  "cmod a b = a - b * cdiv a b"

lemma cdiv_nonneg [simp]: "0 \<le> a \<Longrightarrow> 0 < b \<Longrightarrow> cdiv a b = a div b"
  by (cases "a = 0") (auto simp: cdiv_def)

lemma cmod_nonneg [simp]: "0 \<le> a \<Longrightarrow> 0 < b \<Longrightarrow> cmod a b = a mod b"
  by (simp add: cmod_def minus_mult_div_eq_mod)

definition INT_MIN :: int where "INT_MIN = - 2147483648"
definition INT_MAX :: int where "INT_MAX = 2147483647"
definition LLONG_MIN :: int where "LLONG_MIN = - 9223372036854775808"
definition LLONG_MAX :: int where "LLONG_MAX = 9223372036854775807"

lemmas limits = INT_MIN_def INT_MAX_def LLONG_MIN_def LLONG_MAX_def

text \<open>Conversion of a wider integer to a 32-bit \<open>int\<close>: reduction modulo \<open>2 ^ 32\<close>.\<close>

definition to_int32 :: "int \<Rightarrow> int" where
  "to_int32 x = (x + 2147483648) mod 4294967296 - 2147483648"

lemma to_int32_id [simp]: "INT_MIN \<le> x \<Longrightarrow> x \<le> INT_MAX \<Longrightarrow> to_int32 x = x"
  by (simp add: to_int32_def limits)

lemma to_int32_range: "INT_MIN \<le> to_int32 x \<and> to_int32 x \<le> INT_MAX"
  by (simp add: to_int32_def limits)

section \<open>Decimal output\<close>

text \<open>\<open>quoted s\<close> is \<open>s\<close> between single quotes, as in the program's messages.\<close>

definition quoted :: "string \<Rightarrow> string" where
  "quoted s = [CHR 0x27] @ s @ [CHR 0x27]"

definition digit_char :: "nat \<Rightarrow> char" where
  "digit_char d = char_of (48 + d)"

fun show_nat :: "nat \<Rightarrow> string" where
  "show_nat n = (if n < 10 then [digit_char n] else show_nat (n div 10) @ [digit_char (n mod 10)])"

declare show_nat.simps [simp del]

text \<open>\<open>printf\<close> with \<open>%d\<close> (or \<open>%lld\<close>) and with \<open>%0wd\<close>.\<close>

definition show_int :: "int \<Rightarrow> string" where
  "show_int n = (if n < 0 then CHR ''-'' # show_nat (nat (- n)) else show_nat (nat n))"

definition show_pad :: "nat \<Rightarrow> int \<Rightarrow> string" where
  "show_pad w n =
     (if n < 0
      then let s = show_nat (nat (- n)) in CHR ''-'' # replicate (w - 1 - length s) CHR ''0'' @ s
      else let s = show_nat (nat n) in replicate (w - length s) CHR ''0'' @ s)"

lemma of_char_digit_char [simp]: "d < 10 \<Longrightarrow> of_char (digit_char d) = (48 + d :: nat)"
  by (simp add: digit_char_def)

lemma c_isdigit_digit_char [simp]: "d < 10 \<Longrightarrow> c_isdigit (digit_char d)"
  by (simp add: char_simps)

lemma show_nat_digits: "c \<in> set (show_nat n) \<Longrightarrow> c_isdigit c"
proof (induction n rule: show_nat.induct)
  case (1 n)
  then show ?case by (cases "n < 10") (auto simp: show_nat.simps [of n])
qed

lemma show_nat_Nil [simp]: "show_nat n \<noteq> []"
  by (subst show_nat.simps) simp

lemma hd_show_nat_digit: "c_isdigit (hd (show_nat n))"
  by (rule show_nat_digits [OF hd_in_set]) simp

lemma show_int_Nil [simp]: "show_int n \<noteq> []"
  by (simp add: show_int_def)

lemma show_int_chars: "c \<in> set (show_int n) \<Longrightarrow> c_isdigit c \<or> c = CHR ''-''"
  by (auto simp: show_int_def dest: show_nat_digits split: if_splits)

lemma digit_char_inject: "d < 10 \<Longrightarrow> e < 10 \<Longrightarrow> digit_char d = digit_char e \<longleftrightarrow> d = e"
  by (metis add_left_cancel of_char_digit_char)

lemma show_nat_hd_zero: "0 < n \<Longrightarrow> hd (show_nat n) \<noteq> CHR ''0''"
proof (induction n rule: show_nat.induct)
  case (1 n)
  show ?case
  proof (cases "n < 10")
    case True
    then have "(of_char (hd (show_nat n)) :: nat) = 48 + n"
      by (simp add: show_nat.simps [of n])
    with 1 show ?thesis by auto
  next
    case False
    with 1 show ?thesis by (simp add: show_nat.simps [of n] hd_append)
  qed
qed

lemma not_digit_neq: "c_isdigit c \<Longrightarrow> \<not> c_isdigit d \<Longrightarrow> c \<noteq> d"
  by auto


lemma digit_char_0 [simp]: "digit_char 0 = CHR ''0''"
  by code_simp

section \<open>Searching strings\<close>

text \<open>\<open>find(c)\<close> splits a string around the first \<open>c\<close>.\<close>

lemma takeWhile_neq_append [simp]:
  "c \<notin> set xs \<Longrightarrow> takeWhile (\<lambda>x. x \<noteq> c) (xs @ c # ys) = xs"
  "c \<notin> set xs \<Longrightarrow> dropWhile (\<lambda>x. x \<noteq> c) (xs @ c # ys) = c # ys"
  by (induction xs) auto

lemma takeWhile_neq_all [simp]:
  "c \<notin> set xs \<Longrightarrow> takeWhile (\<lambda>x. x \<noteq> c) xs = xs"
  "c \<notin> set xs \<Longrightarrow> dropWhile (\<lambda>x. x \<noteq> c) xs = []"
  by (induction xs) auto

lemma not_in_takeWhile_neq [simp]: "c \<notin> set (takeWhile (\<lambda>x. x \<noteq> c) xs)"
  by (auto dest: set_takeWhileD)

end
