(* ===== verification/Names.thy ===== *)
theory Names
  imports Prelude
begin

text \<open>
  \<^verbatim>\<open>src/namelt.cc\<close>: the comparison of host, volume, store and device names, which
  \<^verbatim>\<open>src/Conf.h\<close> and \<^verbatim>\<open>src/Host.h\<close> use as the order of their \<open>std::map\<close>s.  The loop walks both
  strings; the arguments of \<open>namelt_loop\<close> are the rests from \<open>apos\<close> and \<open>bpos\<close>.
\<close>

section \<open>namelt\<close>

text \<open>\<open>a.compare(...)\<close> on two substrings compares them as unsigned bytes.\<close>

function namelt_loop :: "string \<Rightarrow> string \<Rightarrow> string \<Rightarrow> string \<Rightarrow> bool" where
  "namelt_loop a b as bs =
     (case (as, bs) of
        (x # xs, y # ys) \<Rightarrow>
          if c_isdigit x \<and> c_isdigit y then
            (let as' = dropWhile (\<lambda>c. c = CHR ''0'') as; bs' = dropWhile (\<lambda>c. c = CHR ''0'') bs;
                 an = takeWhile c_isdigit as'; bn = takeWhile c_isdigit bs'
             in if length an < length bn then True
                else if length bn < length an then False
                else if an < bn then True
                else if bn < an then False
                else namelt_loop a b (dropWhile c_isdigit as') (dropWhile c_isdigit bs'))
          else if c_isdigit x then True
          else if c_isdigit y then False
          else if schar x < schar y then True
          else if schar y < schar x then False
          else namelt_loop a b xs ys
      | _ \<Rightarrow> a < b)"
  by pat_completeness auto
termination
proof (relation "measure (\<lambda>(a, b, as, bs). length as)", goal_cases)
  case (2 a b as bs p q x xs y ys as' bs' an bn)
  have "length (dropWhile c_isdigit (dropWhile (\<lambda>c. c = CHR ''0'') (x # xs))) \<le> length xs"
  proof (cases "x = CHR ''0''")
    case True
    then show ?thesis
      by (simp add: le_trans [OF length_dropWhile_le length_dropWhile_le])
  next
    case False
    moreover have "c_isdigit x" using 2(4) by simp
    ultimately show ?thesis by (simp add: length_dropWhile_le)
  qed
  with 2 show ?case by auto
qed auto

definition namelt :: "string \<Rightarrow> string \<Rightarrow> bool" where
  "namelt a b = namelt_loop a b a b"

declare namelt_loop.simps [simp del]

lemma namelt_loop_Nil [simp]:
  "namelt_loop a b [] bs \<longleftrightarrow> a < b"
  "namelt_loop a b as [] \<longleftrightarrow> a < b"
  by (simp_all add: namelt_loop.simps [of a b] split: list.splits)

section \<open>Names without leading zeros: a total order\<close>

text \<open>No run of digits starts with a zero, except the run \<open>0\<close> itself.\<close>

function canonical_name :: "string \<Rightarrow> bool" where
  "canonical_name s =
     (case s of [] \<Rightarrow> True
      | x # xs \<Rightarrow>
          if c_isdigit x
          then (x = CHR ''0'' \<longrightarrow> xs = [] \<or> \<not> c_isdigit (hd xs)) \<and> canonical_name (dropWhile c_isdigit xs)
          else canonical_name xs)"
  by pat_completeness auto
termination
  by (relation "measure length") (auto intro: le_less_trans [OF length_dropWhile_le])

text \<open>A name as a list of digit runs (length and digits) and other characters.\<close>

function name_tokens :: "string \<Rightarrow> (nat \<times> int \<times> string) list" where
  "name_tokens s =
     (case s of [] \<Rightarrow> []
      | x # xs \<Rightarrow>
          if c_isdigit x
          then let n = (if x = CHR ''0'' then [] else takeWhile c_isdigit s)
               in (0, int (length n), n) # name_tokens (dropWhile c_isdigit xs)
          else (1, schar x, []) # name_tokens xs)"
  by pat_completeness auto
termination
  by (relation "measure length") (auto intro: le_less_trans [OF length_dropWhile_le])

declare canonical_name.simps [simp del] name_tokens.simps [simp del]

lemma canonical_name_simps [simp]:
  "canonical_name []"
  "c_isdigit x \<Longrightarrow> canonical_name (x # xs) \<longleftrightarrow>
     (x = CHR ''0'' \<longrightarrow> xs = [] \<or> \<not> c_isdigit (hd xs)) \<and> canonical_name (dropWhile c_isdigit xs)"
  "\<not> c_isdigit x \<Longrightarrow> canonical_name (x # xs) \<longleftrightarrow> canonical_name xs"
  by (simp_all add: canonical_name.simps)

lemma name_tokens_simps [simp]:
  "name_tokens [] = []"
  "c_isdigit x \<Longrightarrow> name_tokens (x # xs) =
     (let n = (if x = CHR ''0'' then [] else takeWhile c_isdigit (x # xs))
      in (0, int (length n), n) # name_tokens (dropWhile c_isdigit xs))"
  "\<not> c_isdigit x \<Longrightarrow> name_tokens (x # xs) = (1, schar x, []) # name_tokens xs"
  by (simp_all add: name_tokens.simps)

text \<open>Skipping zeros in a canonical name skips at most the run \<open>0\<close>.\<close>

lemma canonical_skip_zeros:
  assumes "c_isdigit x" "canonical_name (x # xs)"
  shows "takeWhile c_isdigit (dropWhile (\<lambda>c. c = CHR ''0'') (x # xs)) =
           (if x = CHR ''0'' then [] else takeWhile c_isdigit (x # xs))"
    and "dropWhile c_isdigit (dropWhile (\<lambda>c. c = CHR ''0'') (x # xs)) = dropWhile c_isdigit xs"
proof -
  have "dropWhile (\<lambda>c. c = CHR ''0'') xs = xs \<and> takeWhile c_isdigit xs = [] \<and> dropWhile c_isdigit xs = xs"
    if "x = CHR ''0''"
    using assms that by (cases xs) auto
  then show "takeWhile c_isdigit (dropWhile (\<lambda>c. c = CHR ''0'') (x # xs)) =
           (if x = CHR ''0'' then [] else takeWhile c_isdigit (x # xs))"
    and "dropWhile c_isdigit (dropWhile (\<lambda>c. c = CHR ''0'') (x # xs)) = dropWhile c_isdigit xs"
    using assms by auto
qed

lemma canonical_same_run:
  assumes "c_isdigit x" "canonical_name (x # xs)" "c_isdigit y" "canonical_name (y # ys)"
    and "(if x = CHR ''0'' then [] else takeWhile c_isdigit (x # xs)) =
         (if y = CHR ''0'' then [] else takeWhile c_isdigit (y # ys))"
  shows "takeWhile c_isdigit (x # xs) = takeWhile c_isdigit (y # ys)"
proof (cases "x = CHR ''0''")
  case True
  with assms have "y = CHR ''0''" by (auto split: if_splits)
  moreover have "takeWhile c_isdigit xs = []" "takeWhile c_isdigit ys = []"
    using assms True \<open>y = CHR ''0''\<close> by (cases xs; cases ys; auto)+
  ultimately show ?thesis using True by simp
next
  case False
  with assms show ?thesis by (auto split: if_splits)
qed

lemma append_less_same [simp]: "(p @ xs < p @ ys) \<longleftrightarrow> xs < (ys :: 'a::linorder list)"
  by (induction p) auto

lemma name_tokens_Nil_iff [simp]: "name_tokens s = [] \<longleftrightarrow> s = []"
  by (cases s; cases "c_isdigit (hd s)") (simp_all add: Let_def)

lemma Nil_less_iff [simp]: "([] < xs) \<longleftrightarrow> xs \<noteq> []" for xs :: "'a::linorder list"
  by (cases xs) auto

lemma append_less_prefix [simp]: "(p < p @ xs) \<longleftrightarrow> xs \<noteq> []" "\<not> p @ xs < (p :: 'a::linorder list)"
  using append_less_same [of p "[]" xs] append_less_same [of p xs "[]"] by auto

text \<open>On canonical names the comparison is the lexicographic order of the tokens.\<close>

lemma namelt_loop_tokens:
  assumes "canonical_name as" "canonical_name bs" "a = p @ as" "b = p @ bs"
  shows "namelt_loop a b as bs \<longleftrightarrow> name_tokens as < name_tokens bs"
  using assms
proof (induction "length as" arbitrary: p as bs rule: less_induct)
  case less
  show ?case
  proof (cases "as = [] \<or> bs = []")
    case True
    then show ?thesis using less(4,5) by auto
  next
    case False
    then obtain x xs y ys where xy: "as = x # xs" "bs = y # ys" by (meson neq_Nil_conv)
    show ?thesis
    proof (cases "c_isdigit x \<and> c_isdigit y")
      case False
      have "namelt_loop a b xs ys \<longleftrightarrow> name_tokens xs < name_tokens ys" if "x = y"
        using less(1) [of xs ys "p @ [x]"] less(2-5) False that xy by auto
      then show ?thesis
        using False
        by (cases "c_isdigit x"; cases "c_isdigit y")
          (auto simp: namelt_loop.simps [of a b "x # xs"] xy Let_def)
    next
      case True
      define an where "an = (if x = CHR ''0'' then [] else takeWhile c_isdigit (x # xs))"
      define bn where "bn = (if y = CHR ''0'' then [] else takeWhile c_isdigit (y # ys))"
      let ?xs = "dropWhile c_isdigit xs" and ?ys = "dropWhile c_isdigit ys"
      have "namelt_loop a b ?xs ?ys \<longleftrightarrow> name_tokens ?xs < name_tokens ?ys" if "an = bn"
      proof (rule less(1) [where p = "p @ takeWhile c_isdigit (x # xs)"])
        have same: "takeWhile c_isdigit (x # xs) = takeWhile c_isdigit (y # ys)"
          using canonical_same_run [of x xs y ys] that less(2,3) True xy by (simp add: an_def bn_def)
        show "a = (p @ takeWhile c_isdigit (x # xs)) @ ?xs" using less(4) xy True by simp
        show "b = (p @ takeWhile c_isdigit (x # xs)) @ ?ys"
          unfolding same using less(5) xy True by simp
      qed (use less(2,3) xy True in \<open>auto simp: length_dropWhile_le less_Suc_eq_le\<close>)
      moreover have "namelt_loop a b as bs \<longleftrightarrow>
          (if length an < length bn then True else if length bn < length an then False
           else if an < bn then True else if bn < an then False else namelt_loop a b ?xs ?ys)"
        using True canonical_skip_zeros [of x xs] canonical_skip_zeros [of y ys] less(2,3)
        unfolding xy namelt_loop.simps [of a b "x # xs" "y # ys"] an_def bn_def
        by (simp only: list.case prod.case Let_def if_True simp_thms)
      moreover have "name_tokens as = (0, int (length an), an) # name_tokens ?xs"
        "name_tokens bs = (0, int (length bn), bn) # name_tokens ?ys"
        using True xy by (simp_all add: an_def bn_def Let_def)
      ultimately show ?thesis by auto
    qed
  qed
qed

lemma namelt_tokens:
  assumes "canonical_name a" "canonical_name b"
  shows "namelt a b \<longleftrightarrow> name_tokens a < name_tokens b"
  unfolding namelt_def using namelt_loop_tokens [of a b a "[]" b] assms by simp

lemma name_tokens_inject:
  assumes "canonical_name a" "canonical_name b" "name_tokens a = name_tokens b"
  shows "a = b"
  using assms
proof (induction "length a" arbitrary: a b rule: less_induct)
  case less
  show ?case
  proof (cases "a = [] \<or> b = []")
    case True
    then show ?thesis using less(4) by (metis name_tokens_Nil_iff)
  next
    case False
    then obtain x xs y ys where xy: "a = x # xs" "b = y # ys" by (meson neq_Nil_conv)
    show ?thesis
    proof (cases "c_isdigit x \<and> c_isdigit y")
      case False
      then have "x = y \<and> name_tokens xs = name_tokens ys \<and> \<not> c_isdigit x \<and> \<not> c_isdigit y"
        using less(4) by (cases "c_isdigit x"; cases "c_isdigit y") (auto simp: xy Let_def)
      moreover have "xs = ys" using calculation less(1) [of xs ys] less(2,3) xy by auto
      ultimately show ?thesis using xy by simp
    next
      case True
      let ?xs = "dropWhile c_isdigit xs" and ?ys = "dropWhile c_isdigit ys"
      have "(if x = CHR ''0'' then [] else takeWhile c_isdigit (x # xs)) =
            (if y = CHR ''0'' then [] else takeWhile c_isdigit (y # ys))"
        and tok: "name_tokens ?xs = name_tokens ?ys"
        using less(4) True unfolding xy by (simp_all only: name_tokens_simps Let_def list.inject prod.inject)
      then have "takeWhile c_isdigit a = takeWhile c_isdigit b"
        using canonical_same_run [of x xs y ys] less(2,3) True xy by simp
      moreover have "?xs = ?ys"
        using less(1) [of ?xs ?ys] tok less(2,3) True xy
        by (auto simp: length_dropWhile_le less_Suc_eq_le)
      ultimately show ?thesis
        using takeWhile_dropWhile_id [of c_isdigit a] takeWhile_dropWhile_id [of c_isdigit b] True xy
        by (metis dropWhile.simps(2))
    qed
  qed
qed

definition digit_run :: "string \<Rightarrow> nat \<times> string" where
  "digit_run s = (let n = takeWhile c_isdigit (dropWhile (\<lambda>c. c = CHR ''0'') s) in (length n, n))"

definition after_run :: "string \<Rightarrow> string" where
  "after_run s = dropWhile c_isdigit (dropWhile (\<lambda>c. c = CHR ''0'') s)"

lemma after_run_shorter: "c_isdigit x \<Longrightarrow> length (after_run (x # xs)) \<le> length xs"
  by (auto simp: after_run_def length_dropWhile_le
      intro: le_trans [OF length_dropWhile_le length_dropWhile_le])

lemma compare_runs:
  "(if length A < length B then True else if length B < length A then False
    else if A < B then True else if B < A then False else X) \<longleftrightarrow>
   (length A, A) < (length B, B) \<or> (length A, A) = (length B, B) \<and> X" for A B :: string
  by (cases "length A" "length B" rule: linorder_cases; cases A B rule: linorder_cases) auto

lemma namelt_loop_digits:
  assumes "c_isdigit x" "c_isdigit y"
  shows "namelt_loop a b (x # xs) (y # ys) \<longleftrightarrow>
     digit_run (x # xs) < digit_run (y # ys) \<or>
     digit_run (x # xs) = digit_run (y # ys) \<and>
       namelt_loop a b (after_run (x # xs)) (after_run (y # ys))"
  unfolding namelt_loop.simps [of a b "x # xs" "y # ys"] digit_run_def after_run_def Let_def
    list.case prod.case
  using assms by (simp only: compare_runs simp_thms if_True)

lemma namelt_loop_irrefl: "\<not> namelt_loop a a s s"
proof (induction "length s" arbitrary: s rule: less_induct)
  case less
  show ?case
  proof (cases s)
    case (Cons x xs)
    show ?thesis
    proof (cases "c_isdigit x")
      case True
      then have "\<not> namelt_loop a a (after_run (x # xs)) (after_run (x # xs))"
        using less Cons after_run_shorter [of x xs] by simp
      then show ?thesis using True Cons by (simp add: namelt_loop_digits)
    qed (use less Cons in \<open>simp add: namelt_loop.simps [of a a "x # xs"]\<close>)
  qed simp
qed

lemma namelt_loop_total:
  "a \<noteq> b \<Longrightarrow> namelt_loop b a bs as \<longleftrightarrow> \<not> namelt_loop a b as bs"
proof (induction "length as" arbitrary: as bs rule: less_induct)
  case less
  show ?case
  proof (cases "as = [] \<or> bs = []")
    case True
    then show ?thesis using less(2) by auto
  next
    case False
    then obtain x xs y ys where xy: "as = x # xs" "bs = y # ys" by (meson neq_Nil_conv)
    show ?thesis
    proof (cases "c_isdigit x \<and> c_isdigit y")
      case True
      then have "namelt_loop b a (after_run bs) (after_run as) \<longleftrightarrow> \<not> namelt_loop a b (after_run as) (after_run bs)"
        using less(1) [of "after_run as" "after_run bs"] less(2) after_run_shorter [of x xs] xy by simp
      then show ?thesis
        using True namelt_loop_digits [of x y a b xs ys] namelt_loop_digits [of y x b a ys xs] xy
        by (cases "digit_run as" "digit_run bs" rule: linorder_cases) auto
    next
      case False
      then show ?thesis
        using less(1) [of xs ys] less(2) xy
        by (cases "c_isdigit x"; cases "c_isdigit y")
          (auto simp: namelt_loop.simps [of a b "x # xs"] namelt_loop.simps [of b a "y # ys"])
    qed
  qed
qed

lemma namelt_irrefl [simp]: "\<not> namelt a a"
  by (simp add: namelt_def namelt_loop_irrefl)

lemma namelt_not_less: "a \<noteq> b \<Longrightarrow> namelt b a \<longleftrightarrow> \<not> namelt a b"
  unfolding namelt_def by (rule namelt_loop_total)

lemma namelt_trans:
  assumes "canonical_name a" "canonical_name b" "canonical_name c" "namelt a b" "namelt b c"
  shows "namelt a c"
  using assms by (auto simp: namelt_tokens)

text \<open>The order that the maps' keys are checked with where they are used.\<close>

lemma namelt_total: "a \<noteq> b \<Longrightarrow> namelt a b \<or> namelt b a"
  using namelt_not_less by blast

lemma namelt_asym: "namelt a b \<Longrightarrow> \<not> namelt b a"
  using namelt_not_less [of a b] by (cases "a = b") auto

text \<open>Numbers compare numerically: the decimal form is ordered by length, then lexicographically.\<close>

lemma append_less_same_length:
  "length xs = length ys \<Longrightarrow> xs @ us < ys @ vs \<longleftrightarrow> xs < ys \<or> xs = ys \<and> us < (vs :: 'a::linorder list)"
  by (induction xs ys rule: list_induct2) auto

lemma digit_char_less: "d < 10 \<Longrightarrow> e < 10 \<Longrightarrow> digit_char d < digit_char e \<longleftrightarrow> d < e"
  by (simp add: less_char_def)

lemma show_nat_mono: "m < n \<Longrightarrow> (length (show_nat m), show_nat m) < (length (show_nat n), show_nat n)"
proof (induction n arbitrary: m rule: show_nat.induct)
  case (1 n)
  show ?case
  proof (cases "m < 10")
    case True
    have l: "0 < length (show_nat k)" for k by simp
    show ?thesis
      using True 1(2) l [of "n div 10"]
      by (auto simp: show_nat.simps [of m] show_nat.simps [of n] digit_char_less)
  next
    case False
    then have n10: "\<not> n < 10" and "m div 10 \<le> n div 10" using 1(2) by (simp_all add: div_le_mono)
    then consider "m div 10 < n div 10" | "m div 10 = n div 10" "m mod 10 < n mod 10"
      using 1(2) by (metis div_less_mono le_neq_implies_less mod_less_divisor
          mult_div_mod_eq nat_add_left_cancel_less)
    then show ?thesis
      using 1(1) [of "m div 10"] False n10
      by cases (auto simp: show_nat.simps [of m] show_nat.simps [of n] digit_char_less append_less_same_length)
  qed
qed

lemma digit_run_show_nat:
  assumes "q = [] \<or> \<not> c_isdigit (hd q)"
  shows "digit_run (show_nat n @ q) = (if n = 0 then (0, []) else (length (show_nat n), show_nat n))"
proof -
  have q: "takeWhile c_isdigit q = []" using assms by (cases q) auto
  have all: "takeWhile c_isdigit (show_nat n @ q) = show_nat n"
    using q by (simp add: takeWhile_append2 show_nat_digits)
  show ?thesis
  proof (cases "n = 0")
    case True
    moreover have "dropWhile (\<lambda>c. c = CHR ''0'') q = q" using assms by (cases q) auto
    ultimately show ?thesis using q by (simp add: digit_run_def Let_def show_nat.simps [of 0])
  next
    case False
    obtain c cs where c: "show_nat n = c # cs" by (meson show_nat_Nil neq_Nil_conv)
    then have "c \<noteq> CHR ''0''" using show_nat_hd_zero [of n] False by auto
    then have "dropWhile (\<lambda>c. c = CHR ''0'') (show_nat n @ q) = show_nat n @ q" using c by simp
    then show ?thesis using all False by (simp add: digit_run_def Let_def)
  qed
qed

lemma digit_run_less:
  assumes "m < n" "q = [] \<or> \<not> c_isdigit (hd q)" "r = [] \<or> \<not> c_isdigit (hd r)"
  shows "digit_run (show_nat m @ q) < digit_run (show_nat n @ r)"
  using assms show_nat_mono [OF assms(1)] by (auto simp: digit_run_show_nat)

text \<open>A common prefix that does not end in a digit is skipped.\<close>

lemma dropWhile_last:
  "p \<noteq> [] \<Longrightarrow> \<not> P (last p) \<Longrightarrow> takeWhile P (p @ s) = takeWhile P p \<and> dropWhile P (p @ s) = dropWhile P p @ s
     \<and> dropWhile P p \<noteq> [] \<and> last (dropWhile P p) = last p"
  by (induction p) (auto split: if_splits)

lemma run_append:
  assumes "p \<noteq> []" "\<not> c_isdigit (last p)"
  shows "digit_run (p @ s) = digit_run p \<and> after_run (p @ s) = after_run p @ s
    \<and> after_run p \<noteq> [] \<and> last (after_run p) = last p"
proof -
  have "last p \<noteq> CHR ''0''" using assms by auto
  then have 1: "dropWhile (\<lambda>c. c = CHR ''0'') (p @ s) = dropWhile (\<lambda>c. c = CHR ''0'') p @ s"
    "dropWhile (\<lambda>c. c = CHR ''0'') p \<noteq> []" "last (dropWhile (\<lambda>c. c = CHR ''0'') p) = last p"
    using dropWhile_last [OF assms(1), of "\<lambda>c. c = CHR ''0''" s] by auto
  show ?thesis
    using dropWhile_last [OF 1(2), of c_isdigit s] assms(2) unfolding 1(3)
    by (simp add: digit_run_def after_run_def 1 Let_def)
qed

lemma namelt_loop_prefix:
  "p = [] \<or> \<not> c_isdigit (last p) \<Longrightarrow> namelt_loop a b (p @ s) (p @ t) \<longleftrightarrow> namelt_loop a b s t"
proof (induction "length p" arbitrary: p rule: less_induct)
  case less
  show ?case
  proof (cases p)
    case (Cons x p')
    show ?thesis
    proof (cases "c_isdigit x")
      case True
      have d: "digit_run (p @ s) = digit_run p" "after_run (p @ s) = after_run p @ s" "after_run p \<noteq> []"
        "last (after_run p) = last p" for s
        using run_append [of p s] less(2) Cons by simp_all
      have "length (after_run p) < length p" using after_run_shorter [OF True, of p'] Cons by simp
      then have "namelt_loop a b (after_run p @ s) (after_run p @ t) \<longleftrightarrow> namelt_loop a b s t"
        using less(1) [of "after_run p"] d(3,4) less(2) Cons by simp
      then show ?thesis
        using namelt_loop_digits [of x x a b "p' @ s" "p' @ t"] True d(1,2) [of s] d(1,2) [of t] Cons
        by simp
    next
      case False
      have "namelt_loop a b (p' @ s) (p' @ t) \<longleftrightarrow> namelt_loop a b s t"
        using less(1) [of p'] less(2) Cons by (auto split: if_splits)
      then show ?thesis using False Cons by (simp add: namelt_loop.simps [of a b "x # p' @ s"])
    qed
  qed simp
qed

section \<open>What the maps rely on\<close>

text \<open>
  C37: \<open>namelt\<close>, the comparison of the program's maps of hosts, volumes, stores and devices, is a
  strict total order on the names whose runs of digits have no leading zero: it is irreflexive,
  orders any two different names one way round, and is transitive.
\<close>

theorem namelt_strict_total_order:
  assumes "canonical_name a" "canonical_name b" "canonical_name c"
  shows "\<not> namelt a a \<and> (namelt a b \<longleftrightarrow> a \<noteq> b \<and> \<not> namelt b a) \<and>
    (namelt a b \<longrightarrow> namelt b c \<longrightarrow> namelt a c)"
  using namelt_trans [OF assms] namelt_not_less [of a b] by (cases "a = b") auto

theorem namelt_strict_total_order_witness:
  "\<not> namelt ''h2'' ''h2'' \<and> (namelt ''h2'' ''h10'' \<longleftrightarrow> ''h2'' \<noteq> ''h10'' \<and> \<not> namelt ''h10'' ''h2'') \<and>
    namelt ''h2'' ''h10x''"
proof -
  have "canonical_name ''h2''" "canonical_name ''h10''" "canonical_name ''h10x''" by code_simp+
  note t = namelt_strict_total_order [OF this]
  moreover have "namelt ''h2'' ''h10''" "namelt ''h10'' ''h10x''" by code_simp+
  ultimately show ?thesis by blast
qed

text \<open>
  Numbers inside names are ordered numerically: after the same prefix (not ending in a digit),
  the name with the smaller decimal number is the smaller one, whatever follows the numbers.
\<close>

theorem namelt_numeric:
  assumes "m < n" "p = [] \<or> \<not> c_isdigit (last p)"
    "q = [] \<or> \<not> c_isdigit (hd q)" "r = [] \<or> \<not> c_isdigit (hd r)"
  shows "namelt (p @ show_nat m @ q) (p @ show_nat n @ r)"
proof -
  obtain x xs y ys where xy: "show_nat m @ q = x # xs" "show_nat n @ r = y # ys"
    by (metis append_is_Nil_conv neq_Nil_conv show_nat_Nil)
  then have "c_isdigit x" "c_isdigit y"
    using hd_show_nat_digit [of m] hd_show_nat_digit [of n] by (metis hd_append2 list.sel(1) show_nat_Nil)+
  then show ?thesis
    using namelt_loop_digits [of x y] digit_run_less [OF assms(1,3,4)]
    unfolding namelt_def namelt_loop_prefix [OF assms(2)] xy by blast
qed

theorem namelt_numeric_witness:
  "namelt (''backup'' @ show_nat 9 @ ''b'') (''backup'' @ show_nat 10 @ ''a'')"
  by (rule namelt_numeric) (code_simp)+

text \<open>
  With leading zeros \<open>namelt\<close> is not a strict weak ordering, which \<open>std::map\<close> requires of its
  comparison: \<open>a1\<close>, \<open>a1b\<close> and \<open>a01c\<close> are three host names ordered in a cycle.
\<close>

theorem namelt_cycle:
  "namelt ''a1'' ''a1b'' \<and> namelt ''a1b'' ''a01c'' \<and> namelt ''a01c'' ''a1''"
  by code_simp

end
