(* ===== verification/Numbers.thy ===== *)
theory Numbers
  imports Prelude
begin

text \<open>
  The number and time parsers: \<^verbatim>\<open>src/parseInteger.cc\<close>, \<^verbatim>\<open>src/parseTimeInterval.cc\<close> and
  \<^verbatim>\<open>src/parseTime.cc\<close>, with the C library's \<open>strtoll\<close> they call written out (base detection,
  sign, saturation with \<open>ERANGE\<close>).  The lemmas show the range of every accepted value and that
  what the formatters print is read back unchanged.
\<close>

section \<open>strtoll\<close>

definition digit_value :: "char \<Rightarrow> nat option" where
  "digit_value c =
     (if c_isdigit c then Some (of_char c - 48)
      else if c_islower c then Some (of_char c - 87)
      else if c_isupper c then Some (of_char c - 55)
      else None)"

definition is_radix_digit :: "nat \<Rightarrow> char \<Rightarrow> bool" where
  "is_radix_digit r c = (case digit_value c of None \<Rightarrow> False | Some d \<Rightarrow> d < r)"

fun scan_digits :: "nat \<Rightarrow> nat \<Rightarrow> string \<Rightarrow> nat \<times> string" where
  "scan_digits r acc [] = (acc, [])"
| "scan_digits r acc (c # cs) =
     (if is_radix_digit r c then scan_digits r (acc * r + the (digit_value c)) cs
      else (acc, c # cs))"

definition split_sign :: "string \<Rightarrow> bool \<times> string" where
  "split_sign s =
     (case s of [] \<Rightarrow> (False, [])
      | c # cs \<Rightarrow> if c = CHR ''-'' then (True, cs) else if c = CHR ''+'' then (False, cs)
                 else (False, s))"

definition hex_prefixed :: "string \<Rightarrow> bool" where
  "hex_prefixed s =
     (case s of a # b # c # _ \<Rightarrow> a = CHR ''0'' \<and> b \<in> {CHR ''x'', CHR ''X''} \<and> is_radix_digit 16 c
      | _ \<Rightarrow> False)"

definition split_radix :: "nat \<Rightarrow> string \<Rightarrow> nat \<times> string" where
  "split_radix radix s =
     (if (radix = 0 \<or> radix = 16) \<and> hex_prefixed s then (16, drop 2 s)
      else if radix = 0 then (if s \<noteq> [] \<and> hd s = CHR ''0'' then 8 else 10, s)
      else (radix, s))"

text \<open>The value, what is left after the number, and whether \<open>errno\<close> is \<open>ERANGE\<close>.\<close>

definition strtoll :: "string \<Rightarrow> nat \<Rightarrow> int \<times> string \<times> bool" where
  "strtoll s radix =
     (let (neg, s2) = split_sign (dropWhile c_isspace s);
          (r, s3) = split_radix radix s2
      in if s3 = [] \<or> \<not> is_radix_digit r (hd s3) then (0, s, False)
         else let (v, rest) = scan_digits r 0 s3;
                  n = (if neg then - int v else int v)
              in if LLONG_MAX < n then (LLONG_MAX, rest, True)
                 else if n < LLONG_MIN then (LLONG_MIN, rest, True)
                 else (n, rest, False))"

definition ERANGE_text :: string where
  "ERANGE_text = ''Numerical result out of range''"

section \<open>parseInteger\<close>

definition parseInteger :: "string \<Rightarrow> int \<Rightarrow> int \<Rightarrow> nat \<Rightarrow> int result" where
  "parseInteger s mn mx radix =
     (if s \<noteq> [] \<and> \<not> ((CHR ''0'' \<le> hd s \<and> hd s \<le> CHR ''9'') \<or> hd s = CHR ''-'')
      then Inl (SyntaxError (''invalid integer '' @ quoted s))
      else let sc = takeWhile (\<lambda>c. c \<noteq> CHR 0x00) s;
               (n, e, erange) = strtoll sc radix
           in if erange then Inl (SyntaxError (''invalid integer '' @ quoted s @ '': '' @ ERANGE_text))
              else if e \<noteq> [] \<or> e = sc then Inl (SyntaxError (''invalid integer '' @ quoted s))
              else if mx < n \<or> n < mn
              then Inl (SyntaxError (''integer '' @ quoted s @ '' out of range''))
              else Inr n)"

lemma parseInteger_range: "parseInteger s mn mx r = Inr n \<Longrightarrow> mn \<le> n \<and> n \<le> mx"
  by (auto simp: parseInteger_def Let_def split: if_splits prod.splits)

lemma parseInteger_error:
  "parseInteger s mn mx r = Inl e \<Longrightarrow> \<exists>m. e = SyntaxError m"
  by (auto simp: parseInteger_def Let_def split: if_splits prod.splits)

lemma parseInteger_llong: "parseInteger s mn mx r = Inr n \<Longrightarrow> LLONG_MIN \<le> n \<and> n \<le> LLONG_MAX"
  by (auto simp: parseInteger_def strtoll_def Let_def limits split: if_splits prod.splits)

lemma digit_value_digit_char [simp]: "d < 10 \<Longrightarrow> digit_value (digit_char d) = Some d"
  by (simp add: digit_value_def)

lemma is_radix_digit_isdigit [simp]: "c_isdigit c \<Longrightarrow> is_radix_digit 10 c"
  by (auto simp: is_radix_digit_def digit_value_def char_simps)

lemma scan_digits_append:
  assumes "\<forall>c \<in> set xs. is_radix_digit r c"
  shows "scan_digits r acc (xs @ ys) = scan_digits r (fst (scan_digits r acc xs)) ys"
  using assms by (induction xs arbitrary: acc) auto

lemma scan_digits_stop:
  assumes "ys \<noteq> [] \<Longrightarrow> \<not> is_radix_digit r (hd ys)"
  shows "scan_digits r acc ys = (acc, ys)"
  using assms by (cases ys) auto

lemma scan_show_nat: "fst (scan_digits 10 0 (show_nat n)) = n"
proof (induction n rule: show_nat.induct)
  case (1 n)
  show ?case
  proof (cases "n < 10")
    case True
    then show ?thesis by (simp add: show_nat.simps [of n])
  next
    case False
    have "\<forall>c \<in> set (show_nat (n div 10)). is_radix_digit 10 c"
      by (simp add: show_nat_digits)
    with False 1 show ?thesis
      by (simp add: show_nat.simps [of n] scan_digits_append)
  qed
qed

lemma scan_digits_all:
  "\<forall>c \<in> set xs. is_radix_digit r c \<Longrightarrow> snd (scan_digits r acc xs) = []"
  by (induction xs arbitrary: acc) auto

lemma scan_show_nat_all: "scan_digits 10 0 (show_nat n) = (n, [])"
  using scan_show_nat [of n] scan_digits_all [of "show_nat n" 10 0]
  by (metis is_radix_digit_isdigit prod.collapse show_nat_digits)


lemma digits_no_nul: "(\<And>c. c \<in> set s \<Longrightarrow> c_isdigit c \<or> c = CHR ''-'') \<Longrightarrow>
    takeWhile (\<lambda>c. c \<noteq> CHR 0x00) s = s"
  by (force simp: takeWhile_eq_all_conv char_simps)

lemma digit_not_sign:
  assumes "c_isdigit c"
  shows "c \<noteq> CHR ''-''" "c \<noteq> CHR ''+''" "\<not> c_isspace c"
  using assms by (auto simp: char_simps c_isspace_def)

lemma strtoll_digits:
  assumes s: "s \<noteq> []" "\<forall>c \<in> set s. c_isdigit c" and r: "radix = 10 \<or> radix = 0 \<and> hd s \<noteq> CHR ''0''"
    and v: "scan_digits 10 0 s = (n, [])" and n: "int n \<le> LLONG_MAX"
  shows "strtoll s radix = (int n, [], False)"
    and "strtoll (CHR ''-'' # s) radix = (- int n, [], False)"
proof -
  from s have d: "c_isdigit (hd s)" by simp
  have nohex: "\<not> hex_prefixed s"
    using s r by (auto simp: hex_prefixed_def char_simps split: list.splits)
  have rad: "split_radix radix s = (10, s)"
    using r nohex by (auto simp: split_radix_def)
  have sign: "split_sign (dropWhile c_isspace s) = (False, s)"
    using s(1) digit_not_sign [OF d] by (cases s) (auto simp: split_sign_def)
  have sign': "split_sign (dropWhile c_isspace (CHR ''-'' # s)) = (True, s)"
    by (simp add: split_sign_def c_isspace_def)
  show "strtoll s radix = (int n, [], False)"
    using s(1) d n by (simp add: strtoll_def sign rad v limits)
  show "strtoll (CHR ''-'' # s) radix = (- int n, [], False)"
    using s(1) d n unfolding strtoll_def sign' by (simp add: rad v limits)
qed

lemma strtoll_zero: "strtoll ''0'' 0 = (0, [], False)"
  by code_simp

lemma strtoll_show_int:
  assumes "LLONG_MIN < n" "n \<le> LLONG_MAX" "radix = 10 \<or> radix = 0"
  shows "strtoll (show_int n) radix = (n, [], False)"
proof (cases "n = 0 \<and> radix = 0")
  case True
  have "show_int 0 = ''0''" by code_simp
  with True show ?thesis by (simp add: strtoll_zero)
next
  case False
  let ?k = "nat \<bar>n\<bar>"
  have "hd (show_nat ?k) \<noteq> CHR ''0''" if "radix = 0"
    using False that by (intro show_nat_hd_zero) simp
  moreover have "int ?k \<le> LLONG_MAX" using assms by (simp add: limits)
  ultimately have
    "strtoll (show_nat ?k) radix = (int ?k, [], False)"
    "strtoll (CHR ''-'' # show_nat ?k) radix = (- int ?k, [], False)"
    using assms(3)
    by (intro strtoll_digits; auto simp: show_nat_digits scan_show_nat_all)+
  then show ?thesis by (auto simp: show_int_def)
qed

lemma show_int_hd: "(CHR ''0'' \<le> hd (show_int n) \<and> hd (show_int n) \<le> CHR ''9'') \<or> hd (show_int n) = CHR ''-''"
  using hd_show_nat_digit by (auto simp: show_int_def c_isdigit_def)

lemma parseInteger_show_int:
  assumes "mn \<le> n" "n \<le> mx" "LLONG_MIN < n" "n \<le> LLONG_MAX" "radix = 10 \<or> radix = 0"
  shows "parseInteger (show_int n) mn mx radix = Inr n"
proof -
  have nul: "takeWhile (\<lambda>c. c \<noteq> CHR 0x00) (show_int n) = show_int n"
    by (rule digits_no_nul) (rule show_int_chars)
  have st: "strtoll (show_int n) radix = (n, [], False)"
    by (rule strtoll_show_int) (use assms in auto)
  show ?thesis
    unfolding parseInteger_def nul
    using assms show_int_hd [of n] by (auto simp: st Let_def show_int_Nil [symmetric])
qed

section \<open>Time intervals\<close>

definition time_units :: "(char \<times> int) list" where
  "time_units = [(CHR ''d'', 86400), (CHR ''h'', 3600), (CHR ''m'', 60), (CHR ''s'', 1)]"

definition time_interval_unit :: "string \<Rightarrow> (int \<times> string) result" where
  "time_interval_unit s =
     (if s \<noteq> [] \<and> c_isalpha (last s)
      then (case map_of time_units (c_tolower (last s)) of
              Some u \<Rightarrow> Inr (u, butlast s)
            | None \<Rightarrow> Inl (SyntaxError ''unrecognized time unit''))
      else Inr (0, s))"

definition parseTimeInterval :: "string \<Rightarrow> int \<Rightarrow> int result" where
  "parseTimeInterval s mx =
     rbind (time_interval_unit s) (\<lambda>(unit, s').
       if unit = 0 then Inl (SyntaxError ''time interval must have a unit'')
       else rbind (parseInteger s' 0 LLONG_MAX 0) (\<lambda>n.
         if cdiv mx unit < n then Inl (SyntaxError ''time interval too large to represent'')
         else Inr (n * unit)))"

text \<open>The \<open>assert(ch)\<close> after the loop cannot fail, since every number is a multiple of one
  second; \<open>[]\<close> stands for it here.\<close>

definition formatTimeInterval :: "int \<Rightarrow> string" where
  "formatTimeInterval n =
     (case find (\<lambda>(ch, seconds). cmod n seconds = 0) time_units of
        Some (ch, seconds) \<Rightarrow> show_int (cdiv n seconds) @ [ch]
      | None \<Rightarrow> [])"

fun compact_units :: "(char \<times> int) list \<Rightarrow> int \<Rightarrow> string" where
  "compact_units [] n = []"
| "compact_units ((ch, seconds) # us) n =
     (if seconds \<le> n then show_int (cdiv n seconds) @ [ch] @ compact_units us (cmod n seconds)
      else compact_units us n)"

definition drop_seconds :: "int \<Rightarrow> int" where
  "drop_seconds n =
     (if 5 * 60 \<le> n
      then let seconds = cmod n 60; n' = n - seconds in if 30 \<le> seconds then n' + 60 else n'
      else n)"

definition drop_minutes :: "int \<Rightarrow> int" where
  "drop_minutes n =
     (if 5 * 3600 \<le> n
      then let minutes = cmod (cdiv n 60) 60; n' = n - 60 * minutes
           in if 30 \<le> minutes then n' + 3600 else n'
      else n)"

definition formatTimeIntervalCompact :: "int \<Rightarrow> string" where
  "formatTimeIntervalCompact n =
     (if n = 0 then ''0s'' else compact_units time_units (drop_minutes (drop_seconds n)))"


text \<open>\<open>formatTimeInterval\<close> writes a multiple of the unit it picks.\<close>

lemma formatTimeInterval_unit:
  assumes "0 \<le> n"
  obtains ch u where "(ch, u) \<in> set time_units" "0 < u" "n = u * (n div u)"
    "formatTimeInterval n = show_int (n div u) @ [ch]"
proof -
  consider "n mod 86400 = 0" | "n mod 86400 \<noteq> 0" "n mod 3600 = 0"
    | "n mod 86400 \<noteq> 0" "n mod 3600 \<noteq> 0" "n mod 60 = 0"
    | "n mod 86400 \<noteq> 0" "n mod 3600 \<noteq> 0" "n mod 60 \<noteq> 0" by blast
  then show thesis
  proof cases
    case 1
    with assms show thesis by (intro that [of "CHR ''d''" 86400]) (auto simp: formatTimeInterval_def time_units_def)
  next
    case 2
    with assms show thesis by (intro that [of "CHR ''h''" 3600]) (auto simp: formatTimeInterval_def time_units_def)
  next
    case 3
    with assms show thesis by (intro that [of "CHR ''m''" 60]) (auto simp: formatTimeInterval_def time_units_def)
  next
    case 4
    with assms show thesis by (intro that [of "CHR ''s''" 1]) (auto simp: formatTimeInterval_def time_units_def)
  qed
qed

lemma time_unit_suffix:
  "(ch, u) \<in> set time_units \<Longrightarrow> time_interval_unit (s @ [ch]) = Inr (u, s)"
  by (auto simp: time_interval_unit_def time_units_def c_isalpha_def c_islower_def c_isupper_def
      c_tolower_def)

lemma parseTimeInterval_range:
  "parseTimeInterval s mx = Inr n \<Longrightarrow> 0 \<le> mx \<Longrightarrow> 0 \<le> n \<and> n \<le> mx"
proof -
  assume h: "parseTimeInterval s mx = Inr n" and mx: "0 \<le> mx"
  then obtain u s' k where u: "time_interval_unit s = Inr (u, s')" "u \<noteq> 0"
    and k: "parseInteger s' 0 LLONG_MAX 0 = Inr k" "k \<le> cdiv mx u" "n = k * u"
    by (auto simp: parseTimeInterval_def result_simps not_less split: if_splits)
  from u have "0 < u"
    by (auto simp: time_interval_unit_def time_units_def split: if_splits option.splits)
  from k have k0: "0 \<le> k" by (auto dest: parseInteger_range)
  have "k \<le> mx div u" using k \<open>0 < u\<close> mx by simp
  then have "k * u \<le> mx div u * u" using \<open>0 < u\<close> by (simp add: mult_right_mono)
  also have "\<dots> = mx - mx mod u" by (rule minus_mod_eq_div_mult [symmetric])
  also have "\<dots> \<le> mx" using \<open>0 < u\<close> by simp
  finally have "k * u \<le> mx" .
  with k k0 \<open>0 < u\<close> show "0 \<le> n \<and> n \<le> mx" by simp
qed


lemma parseTimeInterval_format:
  assumes "0 \<le> n" "n \<le> mx" "mx \<le> LLONG_MAX"
  shows "parseTimeInterval (formatTimeInterval n) mx = Inr n"
proof -
  obtain ch u where u: "(ch, u) \<in> set time_units" "0 < u" and nu: "n = u * (n div u)"
    and f: "formatTimeInterval n = show_int (n div u) @ [ch]"
    using formatTimeInterval_unit [OF assms(1)] by metis
  define k where "k = n div u"
  have k: "0 \<le> k" "k \<le> mx div u"
    using u assms by (auto simp: k_def pos_imp_zdiv_nonneg_iff intro: zdiv_mono1)
  have nk: "k * u = n" using nu by (simp add: k_def mult.commute)
  have "k \<le> n" unfolding nk [symmetric] using k(1) u(2) by (simp add: mult_le_cancel_left1)
  with assms have "k \<le> LLONG_MAX" by simp
  then have p: "parseInteger (show_int k) 0 LLONG_MAX 0 = Inr k"
    using k(1) by (intro parseInteger_show_int) (auto simp: limits)
  have "cdiv mx u = mx div u" using assms u(2) by simp
  then show ?thesis
    using u k(2) nk p by (simp add: parseTimeInterval_def f k_def [symmetric] time_unit_suffix)
qed

section \<open>Time of day\<close>

text \<open>The loop over \<open>s.find(':', pos)\<close>: the argument is the rest of the string from \<open>pos\<close>.\<close>

function colon_bits :: "string \<Rightarrow> string list" where
  "colon_bits s =
     (if s = [] then []
      else takeWhile (\<lambda>c. c \<noteq> CHR '':'') s
           # colon_bits (drop 1 (dropWhile (\<lambda>c. c \<noteq> CHR '':'') s)))"
  by pat_completeness auto
termination
proof (relation "measure length")
  show "wf (measure length)" by simp
next
  fix s :: string
  assume "s \<noteq> []"
  have "length (dropWhile (\<lambda>c. c \<noteq> CHR '':'') s) \<le> length s" by (rule length_dropWhile_le)
  with \<open>s \<noteq> []\<close> show "(drop 1 (dropWhile (\<lambda>c. c \<noteq> CHR '':'') s), s) \<in> measure length"
    by (cases s) auto
qed

declare colon_bits.simps [simp del]

definition parseTimeOfDay :: "string \<Rightarrow> int result" where
  "parseTimeOfDay s =
     (let bits = colon_bits s in
      if length bits < 2 \<or> 3 < length bits
      then Inl (SyntaxError (''time of day '' @ s @ '' malformed''))
      else rbind (parseInteger (bits ! 0) 0 24 10) (\<lambda>hour.
           rbind (parseInteger (bits ! 1) 0 59 10) (\<lambda>minute.
           rbind (if 2 < length bits then parseInteger (bits ! 2) 0 59 10 else Inr 0) (\<lambda>second.
             if hour = 24 \<and> (minute \<noteq> 0 \<or> second \<noteq> 0)
             then Inl (SyntaxError (''time of day '' @ s @ '' out of range''))
             else Inr (to_int32 (hour * 3600 + minute * 60 + second))))))"

definition formatTimeOfDay :: "int \<Rightarrow> string" where
  "formatTimeOfDay t =
     show_int (cdiv t 3600) @ '':'' @ show_pad 2 (cmod (cdiv t 60) 60) @ '':'' @ show_pad 2 (cmod t 60)"

lemma colon_bits_append:
  "CHR '':'' \<notin> set xs \<Longrightarrow> colon_bits (xs @ CHR '':'' # ys) = xs # colon_bits ys"
  by (subst colon_bits.simps) simp

lemma colon_bits_last: "CHR '':'' \<notin> set xs \<Longrightarrow> xs \<noteq> [] \<Longrightarrow> colon_bits xs = [xs]"
  by (subst colon_bits.simps) (simp add: colon_bits.simps [of "[]"])

lemma parseTimeOfDay_range: "parseTimeOfDay s = Inr t \<Longrightarrow> 0 \<le> t \<and> t \<le> 86400"
proof -
  assume "parseTimeOfDay s = Inr t"
  then obtain h m sec where
    "parseInteger (colon_bits s ! 0) 0 24 10 = Inr h" "parseInteger (colon_bits s ! 1) 0 59 10 = Inr m"
    "(if 2 < length (colon_bits s) then parseInteger (colon_bits s ! 2) 0 59 10 else Inr 0) = Inr sec"
    "h = 24 \<longrightarrow> m = 0 \<and> sec = 0" "t = to_int32 (h * 3600 + m * 60 + sec)"
    by (auto simp: parseTimeOfDay_def Let_def result_simps split: if_splits)
  moreover from this have "0 \<le> h" "h \<le> 24" "0 \<le> m" "m \<le> 59" "0 \<le> sec" "sec \<le> 59"
    by (auto dest!: parseInteger_range split: if_splits)
  ultimately show "0 \<le> t \<and> t \<le> 86400"
    by (auto simp: limits)
qed

text \<open>Two-digit output, read back in radix 10.\<close>

lemma show_pad2: "0 \<le> n \<Longrightarrow> n < 100 \<Longrightarrow>
    show_pad 2 n = [digit_char (nat n div 10), digit_char (nat n mod 10)]"
  by (auto simp: show_pad_def Let_def show_nat.simps [of "nat n"] show_nat.simps [of "nat n div 10"]
      numeral_2_eq_2)

lemma scan_pad2:
  assumes "n < 100"
  shows "scan_digits 10 0 [digit_char (n div 10), digit_char (n mod 10)] = (n, [])"
  using assms by (simp add: less_mult_imp_div_less)

lemma parseInteger_pad2:
  assumes "0 \<le> n" "n \<le> 59"
  shows "parseInteger (show_pad 2 n) 0 59 10 = Inr n"
proof -
  let ?s = "[digit_char (nat n div 10), digit_char (nat n mod 10)]"
  have p: "show_pad 2 n = ?s" using assms by (intro show_pad2) auto
  have dig: "\<forall>c \<in> set ?s. c_isdigit c" using assms by auto
  have st: "strtoll ?s 10 = (int (nat n), [], False)"
    by (rule strtoll_digits) (use assms dig in \<open>auto simp: limits scan_pad2 simp del: scan_digits.simps\<close>)
  have nul: "takeWhile (\<lambda>c. c \<noteq> CHR 0x00) ?s = ?s"
    by (rule digits_no_nul) (use dig in blast)
  have hd: "CHR ''0'' \<le> hd ?s \<and> hd ?s \<le> CHR ''9''"
    using dig by (auto simp: c_isdigit_def)
  show ?thesis unfolding p parseInteger_def nul using assms hd by (simp add: st Let_def)
qed

lemma no_colon_show_int: "CHR '':'' \<notin> set (show_int n)"
  using show_int_chars [of "CHR '':''" n] by (auto simp: c_isdigit_def)

lemma no_colon_pad2: "0 \<le> n \<Longrightarrow> n < 100 \<Longrightarrow> CHR '':'' \<notin> set (show_pad 2 n) \<and> show_pad 2 n \<noteq> []"
proof -
  assume "0 \<le> n" "n < 100"
  then have "c_isdigit (digit_char (nat n div 10))" "c_isdigit (digit_char (nat n mod 10))"
    by auto
  moreover have "\<not> c_isdigit CHR '':''" by (simp add: c_isdigit_def)
  ultimately show ?thesis using show_pad2 [OF \<open>0 \<le> n\<close> \<open>n < 100\<close>] by auto
qed

lemma mod60_range: "0 \<le> (x::int) mod 60" "x mod 60 \<le> 59" "x mod 60 < 100"
  using pos_mod_bound [of 60 x] by simp_all

lemma hms_sum: "(t div 3600) * 3600 + (t div 60 mod 60) * 60 + t mod 60 = (t::int)"
proof -
  have "t div 3600 = t div 60 div 60" using zdiv_zmult2_eq [of 60 t 60] by simp
  with div_mult_mod_eq [of t 60] div_mult_mod_eq [of "t div 60" 60] show ?thesis by linarith
qed

lemma colon_bits_format:
  assumes "0 \<le> t"
  shows "colon_bits (formatTimeOfDay t) =
    [show_int (t div 3600), show_pad 2 ((t div 60) mod 60), show_pad 2 (t mod 60)]"
proof -
  have "CHR '':'' \<notin> set (show_pad 2 ((t div 60) mod 60))"
    "CHR '':'' \<notin> set (show_pad 2 (t mod 60))" "show_pad 2 (t mod 60) \<noteq> []"
    using no_colon_pad2 [OF mod60_range(1,3)] by blast+
  then show ?thesis
    using assms
    by (simp add: formatTimeOfDay_def pos_imp_zdiv_nonneg_iff colon_bits_append no_colon_show_int
        colon_bits_last)
qed

lemma parseTimeOfDay_format:
  assumes "0 \<le> t" "t \<le> 86400"
  shows "parseTimeOfDay (formatTimeOfDay t) = Inr t"
proof -
  have h: "parseInteger (show_int (t div 3600)) 0 24 10 = Inr (t div 3600)"
    by (rule parseInteger_show_int) (use assms in \<open>auto simp: limits\<close>)
  have m: "parseInteger (show_pad 2 ((t div 60) mod 60)) 0 59 10 = Inr ((t div 60) mod 60)"
    and s: "parseInteger (show_pad 2 (t mod 60)) 0 59 10 = Inr (t mod 60)"
    by (rule parseInteger_pad2 [OF mod60_range(1,2)])+
  have "t = 86400" if "t div 3600 = 24"
    using that assms div_mult_mod_eq [of t 3600] pos_mod_sign [of 3600 t] by linarith
  then have "t div 3600 = 24 \<Longrightarrow> t div 60 mod 60 = 0 \<and> t mod 60 = 0" by auto
  then show ?thesis
    using assms
    by (simp add: parseTimeOfDay_def colon_bits_format h m s hms_sum limits)
qed

text \<open>The compact form never shows seconds from five minutes up, nor minutes from five hours up.\<close>

lemma round_unit:
  fixes n :: int
  assumes "n = u * q + m" "0 \<le> m" "m < u" "u = 2 * h"
  shows "u dvd (if h \<le> m then u * (q + 1) else u * q)"
    and "\<bar>(if h \<le> m then u * (q + 1) else u * q) - n\<bar> \<le> h"
  using assms by (auto simp: algebra_simps)

lemma drop_seconds_multiple: "300 \<le> n \<Longrightarrow> 60 dvd drop_seconds n \<and> \<bar>drop_seconds n - n\<bar> \<le> 30"
proof -
  assume n: "300 \<le> n"
  have b: "n = 60 * (n div 60) + n mod 60" by simp
  have eq: "drop_seconds n = (if 30 \<le> n mod 60 then 60 * (n div 60 + 1) else 60 * (n div 60))"
    using n by (simp add: drop_seconds_def Let_def) (use b in linarith)
  show ?thesis unfolding eq by (intro conjI round_unit [OF b]) simp_all
qed

lemma drop_minutes_multiple:
  "18000 \<le> n \<Longrightarrow> 60 dvd n \<Longrightarrow> 3600 dvd drop_minutes n \<and> \<bar>drop_minutes n - n\<bar> \<le> 1800"
proof -
  assume n: "18000 \<le> n" "60 dvd n"
  then obtain k where k: "n = 60 * k" by blast
  have b: "n = 3600 * (k div 60) + 60 * (k mod 60)"
    using k div_mult_mod_eq [of k 60] by linarith
  have eq: "drop_minutes n = (if 1800 \<le> 60 * (k mod 60) then 3600 * (k div 60 + 1) else 3600 * (k div 60))"
    using n k by (simp add: drop_minutes_def Let_def) (use b in linarith)
  show ?thesis unfolding eq by (intro conjI round_unit [OF b]) simp_all
qed

end
