(* ===== verification/Dates.thy ===== *)
theory Dates
  imports Numbers
begin

text \<open>
  \<^verbatim>\<open>src/Date.h\<close> and \<^verbatim>\<open>src/Date.cc\<close>: calendar dates, which the prune policies and the reports
  compute ages with.  \<open>localtime_r\<close>, \<open>mktime\<close>, \<open>strptime\<close>, \<open>timegm\<close>, \<open>time\<close> and \<open>getenv\<close> are
  arguments of the definitions that call them.  \<open>int\<close> and \<open>long\<close> arithmetic is done on \<open>int\<close>;
  \<open>toNumber_int_range\<close> gives the years for which it cannot overflow.
\<close>

section \<open>Calendar\<close>

record date =
  date_y :: int
  date_m :: int
  date_d :: int

definition Date :: "int \<Rightarrow> int \<Rightarrow> int \<Rightarrow> date" where
  "Date y m d = \<lparr>date_y = y, date_m = m, date_d = d\<rparr>"

lemma Date_simps [simp]:
  "date_y (Date y m d) = y" "date_m (Date y m d) = m" "date_d (Date y m d) = d"
  by (simp_all add: Date_def)

lemma date_eq_iff: "a = b \<longleftrightarrow> date_y a = date_y b \<and> date_m a = date_m b \<and> date_d a = date_d b"
  for a b :: date by (cases a; cases b) simp

definition mday :: "int list" where
  "mday = [0, 0, 31, 31 + 28, 31 + 28 + 31, 31 + 28 + 31 + 30, 31 + 28 + 31 + 30 + 31,
     31 + 28 + 31 + 30 + 31 + 30, 31 + 28 + 31 + 30 + 31 + 30 + 31,
     31 + 28 + 31 + 30 + 31 + 30 + 31 + 31, 31 + 28 + 31 + 30 + 31 + 30 + 31 + 31 + 30,
     31 + 28 + 31 + 30 + 31 + 30 + 31 + 31 + 30 + 31,
     31 + 28 + 31 + 30 + 31 + 30 + 31 + 31 + 30 + 31 + 30,
     31 + 28 + 31 + 30 + 31 + 30 + 31 + 31 + 30 + 31 + 30 + 31]"

definition isLeapYear :: "int \<Rightarrow> bool" where
  "isLeapYear y \<longleftrightarrow> cmod y 4 = 0 \<and> (cmod y 100 \<noteq> 0 \<or> cmod y 400 = 0)"

text \<open>For months 1 to 12; the code indexes \<open>mday\<close> with no test, so other months have no meaning.\<close>

definition monthLength :: "int \<Rightarrow> int \<Rightarrow> int" where
  "monthLength y m =
     (let len = mday ! nat (m + 1) - mday ! nat m
      in if m = 2 \<and> isLeapYear y then len + 1 else len)"

definition valid_date :: "date \<Rightarrow> bool" where
  "valid_date t \<longleftrightarrow> 1 \<le> date_y t \<and> date_y t \<le> INT_MAX \<and> 1 \<le> date_m t \<and> date_m t \<le> 12 \<and>
     1 \<le> date_d t \<and> date_d t \<le> monthLength (date_y t) (date_m t)"

section \<open>Reading and printing\<close>

definition invalid_date :: "string \<Rightarrow> string \<Rightarrow> err" where
  "invalid_date s why = InvalidDate (''invalid date string '' @ quoted s @ why)"

text \<open>The loop that fills \<open>bits\<close>: \<open>n\<close> is the number of the field, \<open>s\<close> the rest of the string.\<close>

fun date_bits :: "string \<Rightarrow> nat \<Rightarrow> nat \<Rightarrow> string \<Rightarrow> (int list \<times> string) result" where
  "date_bits ds n 0 s = Inr ([], s)"
| "date_bits ds n (Suc k) s =
     (if 0 < n \<and> (s = [] \<or> hd s \<noteq> CHR ''-'') then Inl (invalid_date ds [])
      else let s = (if 0 < n then tl s else s)
           in if s = [] \<or> \<not> c_isdigit (hd s) then Inl (invalid_date ds [])
              else let (v, e, erange) = strtoll s 10
                   in if erange then Inl (invalid_date ds ('' - '' @ ERANGE_text))
                      else rbind (date_bits ds (Suc n) k e) (\<lambda>(vs, rest). Inr (v # vs, rest)))"

definition parseDate :: "string \<Rightarrow> date result" where
  "parseDate ds =
     rbind (date_bits ds 0 3 (takeWhile (\<lambda>c. c \<noteq> CHR 0x00) ds)) (\<lambda>(bits, s).
       if s \<noteq> [] then Inl (invalid_date ds [])
       else if bits ! 0 < 1 \<or> INT_MAX < bits ! 0 then Inl (invalid_date ds '' - year too small'')
       else if bits ! 1 < 1 \<or> 12 < bits ! 1 then Inl (invalid_date ds '' - month out of range'')
       else if bits ! 2 < 1 \<or> monthLength (bits ! 0) (bits ! 1) < bits ! 2
       then Inl (invalid_date ds '' - day out of range'')
       else Inr (Date (bits ! 0) (bits ! 1) (bits ! 2)))"

definition date_toString :: "date \<Rightarrow> string" where
  "date_toString t = show_pad 4 (date_y t) @ ''-'' @ show_pad 2 (date_m t) @ ''-'' @ show_pad 2 (date_d t)"

section \<open>Arithmetic\<close>

definition date_incr :: "date \<Rightarrow> date" where
  "date_incr t =
     (if date_d t < monthLength (date_y t) (date_m t) then t\<lparr>date_d := date_d t + 1\<rparr>
      else let t = t\<lparr>date_d := 1, date_m := date_m t + 1\<rparr>
           in if 12 < date_m t then t\<lparr>date_m := date_m t - 12, date_y := date_y t + 1\<rparr> else t)"

definition addMonth :: "date \<Rightarrow> date" where
  "addMonth t =
     (let t = t\<lparr>date_m := date_m t + 1\<rparr>;
          t = (if 12 < date_m t then t\<lparr>date_m := date_m t - 12, date_y := date_y t + 1\<rparr> else t)
      in t\<lparr>date_d := min (date_d t) (monthLength (date_y t) (date_m t))\<rparr>)"

definition date_toNumber :: "date \<Rightarrow> int" where
  "date_toNumber t =
     (let y = date_y t; m = date_m t;
          dayno = 365 * y + cdiv y 4 - cdiv y 100 + cdiv y 400;
          dayno = dayno + (mday ! nat m + (if 2 < m \<and> isLeapYear y then 1 else 0))
      in dayno + (date_d t - 1))"

definition date_less :: "date \<Rightarrow> date \<Rightarrow> bool" where
  "date_less a b =
     (if date_y a - date_y b \<noteq> 0 then date_y a - date_y b < 0
      else if date_m a - date_m b \<noteq> 0 then date_m a - date_m b < 0
      else if date_d a - date_d b \<noteq> 0 then date_d a - date_d b < 0
      else False)"

definition date_minus :: "date \<Rightarrow> date \<Rightarrow> int" where
  "date_minus a b = date_toNumber a - date_toNumber b"

section \<open>The clock\<close>

definition date_of_time :: "(int \<Rightarrow> date option) \<Rightarrow> int \<Rightarrow> date result" where
  "date_of_time localtime when =
     (case localtime when of
        None \<Rightarrow> Inl (InvalidDate (''invalid time_t: '' @ show_int when))
      | Some t \<Rightarrow> Inr t)"

text \<open>\<open>mktime\<close> returns \<open>-1\<close> on failure (and for the second before the epoch).\<close>

definition date_toTime :: "(date \<Rightarrow> int) \<Rightarrow> date \<Rightarrow> int result" where
  "date_toTime mktime t = (if mktime t = -1 then Inl (SystemError ''mktime failed'') else Inr (mktime t))"

definition bad_time_override :: "string \<Rightarrow> err" where
  "bad_time_override s = RuntimeError (''cannot parse RSBACKUP_TIME value: '' @ s)"

text \<open>
  \<open>strptime\<close> gives the rest of the string and the time \<open>timegm\<close> makes of the fields, or fails.  An
  empty or missing override is 0, which \<open>now\<close> takes for "use the clock".
\<close>

definition override_time ::
    "(string \<Rightarrow> string option) \<Rightarrow> (string \<Rightarrow> (string \<times> int) option) \<Rightarrow> string \<Rightarrow> int result" where
  "override_time env strptime context =
     (let v = (case env (''RSBACKUP_TIME_'' @ context) of None \<Rightarrow> env ''RSBACKUP_TIME'' | Some s \<Rightarrow> Some s)
      in case v of
           None \<Rightarrow> Inr 0
         | Some s \<Rightarrow>
             if s = [] then Inr 0
             else case strptime s of
                    Some (rest, t) \<Rightarrow> if rest = [] then Inr t else Inl (bad_time_override s)
                  | None \<Rightarrow>
                      let (n, rest, erange) = strtoll s 0
                      in if rest \<noteq> [] then Inl (bad_time_override s) else Inr n)"

definition date_now ::
    "(string \<Rightarrow> string option) \<Rightarrow> (string \<Rightarrow> (string \<times> int) option) \<Rightarrow> int \<Rightarrow> string \<Rightarrow> int result" where
  "date_now env strptime clock context =
     rbind (override_time env strptime context) (\<lambda>when. Inr (if when = 0 then clock else when))"

definition date_today ::
    "(int \<Rightarrow> date option) \<Rightarrow> (string \<Rightarrow> string option) \<Rightarrow> (string \<Rightarrow> (string \<times> int) option) \<Rightarrow> int \<Rightarrow>
     string \<Rightarrow> date result" where
  "date_today localtime env strptime clock context =
     rbind (date_now env strptime clock context) (date_of_time localtime)"

text \<open>The parts of the machine the clock functions ask, for the definitions that use several.\<close>

record machine =
  localtime :: "int \<Rightarrow> date option"
  getenv :: "string \<Rightarrow> string option"
  strptime :: "string \<Rightarrow> (string \<times> int) option"
  clock :: int

definition today :: "machine \<Rightarrow> string \<Rightarrow> date result" where
  "today m context = date_today (localtime m) (getenv m) (strptime m) (clock m) context"

definition now :: "machine \<Rightarrow> string \<Rightarrow> int result" where
  "now m context = date_now (getenv m) (strptime m) (clock m) context"

definition date_at :: "machine \<Rightarrow> int \<Rightarrow> date result" where
  "date_at m when = date_of_time (localtime m) when"

section \<open>Validity\<close>

lemma month_cases:
  assumes "1 \<le> m" "m \<le> (12 :: int)"
  obtains "m = 1" | "m = 2" | "m = 3" | "m = 4" | "m = 5" | "m = 6" | "m = 7" | "m = 8" | "m = 9"
    | "m = 10" | "m = 11" | "m = 12"
proof -
  have "m = 1 \<or> m = 2 \<or> m = 3 \<or> m = 4 \<or> m = 5 \<or> m = 6 \<or> m = 7 \<or> m = 8 \<or> m = 9 \<or> m = 10
    \<or> m = 11 \<or> m = 12" using assms by presburger
  then show thesis using that by blast
qed

lemma mday_simps [simp]:
  "mday ! 0 = 0" "mday ! Suc 0 = 0" "mday ! 1 = 0" "mday ! 2 = 31" "mday ! 3 = 59" "mday ! 4 = 90" "mday ! 5 = 120"
  "mday ! 6 = 151" "mday ! 7 = 181" "mday ! 8 = 212" "mday ! 9 = 243" "mday ! 10 = 273"
  "mday ! 11 = 304" "mday ! 12 = 334" "mday ! 13 = 365"
  by (simp_all add: mday_def)

lemma monthLength_simps [simp]:
  "monthLength y 1 = 31" "monthLength y 2 = (if isLeapYear y then 29 else 28)" "monthLength y 3 = 31"
  "monthLength y 4 = 30" "monthLength y 5 = 31" "monthLength y 6 = 30" "monthLength y 7 = 31"
  "monthLength y 8 = 31" "monthLength y 9 = 30" "monthLength y 10 = 31" "monthLength y 11 = 30"
  "monthLength y 12 = 31"
  by (simp_all add: monthLength_def Let_def)

lemma monthLength_bounds: "1 \<le> m \<Longrightarrow> m \<le> 12 \<Longrightarrow> 28 \<le> monthLength y m \<and> monthLength y m \<le> 31"
  by (erule month_cases, assumption) auto

lemma parseDate_valid: "parseDate s = Inr t \<Longrightarrow> valid_date t"
  by (auto simp: parseDate_def valid_date_def result_simps split: if_splits)

lemma valid_addMonth: "valid_date t \<Longrightarrow> date_y t < INT_MAX \<Longrightarrow> valid_date (addMonth t)"
  using monthLength_bounds [of "date_m t + 1" "date_y t"]
  by (auto simp: valid_date_def addMonth_def Let_def)

lemma valid_date_incr: "valid_date t \<Longrightarrow> date_y t < INT_MAX \<Longrightarrow> valid_date (date_incr t)"
  using monthLength_bounds [of "date_m t + 1" "date_y t"]
  by (auto simp: valid_date_def date_incr_def Let_def)

section \<open>The true day count\<close>

definition days_before_year :: "int \<Rightarrow> int" where
  "days_before_year y = 365 * (y - 1) + (y - 1) div 4 - (y - 1) div 100 + (y - 1) div 400"

definition days_before_month :: "int \<Rightarrow> int \<Rightarrow> int" where
  "days_before_month y m = (\<Sum>k \<leftarrow> [1..m - 1]. monthLength y k)"

definition day_count :: "date \<Rightarrow> int" where
  "day_count t = days_before_year (date_y t) + days_before_month (date_y t) (date_m t) + (date_d t - 1)"

lemma isLeapYear_pos: "0 \<le> y \<Longrightarrow> isLeapYear y \<longleftrightarrow> 4 dvd y \<and> (\<not> 100 dvd y \<or> 400 dvd y)"
  by (simp add: isLeapYear_def dvd_eq_mod_eq_0)

lemma div_step: "0 < k \<Longrightarrow> (y :: int) div k = (y - 1) div k + (if k dvd y then 1 else 0)"
proof -
  assume k: "0 < k"
  show ?thesis
  proof (cases "k dvd y")
    case True
    then obtain q where "y = k * q" by blast
    moreover have "(k * q - 1) div k = q - 1"
      using k by (intro int_div_pos_eq [where r = "k - 1"]) (auto simp: algebra_simps)
    ultimately show ?thesis using k by simp
  next
    case False
    have "0 < y mod k" using False k by (metis dvd_eq_mod_eq_0 order_le_less pos_mod_sign)
    moreover have "y - 1 = k * (y div k) + (y mod k - 1)" by simp
    ultimately have "(y - 1) div k = y div k"
      using k pos_mod_bound [of k y] by (intro int_div_pos_eq [where r = "y mod k - 1"]) linarith+
    with False show ?thesis by simp
  qed
qed

lemma leap_dvd: "(400 :: int) dvd y \<Longrightarrow> 100 dvd y" "(100 :: int) dvd y \<Longrightarrow> 4 dvd y"
  using dvd_trans [of 100 400 y] dvd_trans [of 4 100 y] by simp_all

lemma leap_arith:
  "a = a' + (if p then 1 else 0) \<Longrightarrow> b = b' + (if q then 1 else 0) \<Longrightarrow> c = c' + (if r then 1 else 0) \<Longrightarrow>
   r \<longrightarrow> q \<Longrightarrow> q \<longrightarrow> p \<Longrightarrow>
   365 * y + a - b + c = 365 * (y - 1) + a' - b' + c' + (if p \<and> (\<not> q \<or> r) then 366 else 365)"
  for a :: int by (cases p; cases q; cases r) auto

lemma days_before_year_Suc:
  assumes "0 \<le> y"
  shows "days_before_year (y + 1) = days_before_year y + (if isLeapYear y then 366 else 365)"
proof -
  have "y div 4 = (y - 1) div 4 + (if 4 dvd y then 1 else 0)"
    "y div 100 = (y - 1) div 100 + (if 100 dvd y then 1 else 0)"
    "y div 400 = (y - 1) div 400 + (if 400 dvd y then 1 else 0)"
    using div_step [of 4 y] div_step [of 100 y] div_step [of 400 y] by (simp_all only: zero_less_numeral simp_thms)
  moreover have "400 dvd y \<longrightarrow> 100 dvd y" "100 dvd y \<longrightarrow> 4 dvd y" using leap_dvd [of y] by blast+
  ultimately show ?thesis
    unfolding days_before_year_def isLeapYear_pos [OF assms] add_diff_cancel_right'
    by (rule leap_arith)
qed

lemma upto_months [simp]:
  "[1..0::int] = []" "[1..1::int] = [1]" "[1..2::int] = [1,2]" "[1..3::int] = [1,2,3]" "[1..4::int] = [1,2,3,4]"
  "[1..5::int] = [1,2,3,4,5]" "[1..6::int] = [1,2,3,4,5,6]" "[1..7::int] = [1,2,3,4,5,6,7]"
  "[1..8::int] = [1,2,3,4,5,6,7,8]" "[1..9::int] = [1,2,3,4,5,6,7,8,9]"
  "[1..10::int] = [1,2,3,4,5,6,7,8,9,10]" "[1..11::int] = [1,2,3,4,5,6,7,8,9,10,11]"
  by (simp_all add: upto.simps)

lemma days_before_month:
  "1 \<le> m \<Longrightarrow> m \<le> 12 \<Longrightarrow> days_before_month y m = mday ! nat m + (if 2 < m \<and> isLeapYear y then 1 else 0)"
  by (erule month_cases, assumption) (simp_all add: days_before_month_def)

lemma days_before_month_Suc:
  "1 \<le> m \<Longrightarrow> m < 12 \<Longrightarrow> days_before_month y (m + 1) = days_before_month y m + monthLength y m"
  by (simp add: days_before_month_def upto_rec2 [of 1 m])

lemma days_before_month_year:
  "days_before_month y 1 = 0"
  "days_before_month y 12 + monthLength y 12 = (if isLeapYear y then 366 else 365)"
  by (simp_all add: days_before_month_def)

text \<open>The count advances by one from each date to the next, so it counts days.\<close>

lemma day_count_incr: "valid_date t \<Longrightarrow> day_count (date_incr t) = day_count t + 1"
  using days_before_month_Suc [of "date_m t" "date_y t"] days_before_year_Suc [of "date_y t"]
    days_before_month_year [of "date_y t"] days_before_month_year [of "date_y t + 1"]
  by (cases "date_m t = 12") (auto simp: day_count_def valid_date_def date_incr_def Let_def)

lemma date_toNumber_eq:
  assumes "valid_date t"
  shows "date_toNumber t = day_count t + 365 + (if isLeapYear (date_y t) then 1 else 0)"
proof -
  let ?y = "date_y t" and ?m = "date_m t"
  have v: "0 \<le> ?y" "1 \<le> ?m" "?m \<le> 12" using assms by (simp_all add: valid_date_def)
  have "date_toNumber t = days_before_year (?y + 1) + days_before_month ?y ?m + (date_d t - 1)"
    using v by (simp only: date_toNumber_def Let_def cdiv_nonneg zero_less_numeral days_before_month
        days_before_year_def add_diff_cancel_right' conj_commute)
  then show ?thesis using days_before_year_Suc [OF v(1)] by (simp add: day_count_def)
qed

lemma monthLength_nonneg:
  "x \<in> set (map (monthLength y) [a..b]) \<Longrightarrow> 1 \<le> a \<Longrightarrow> b \<le> 12 \<Longrightarrow> 0 \<le> x"
proof -
  assume "x \<in> set (map (monthLength y) [a..b])" "1 \<le> a" "b \<le> 12"
  then obtain k where "x = monthLength y k" "1 \<le> k" "k \<le> 12" by auto
  then show "0 \<le> x" using monthLength_bounds [of k y] by simp
qed

lemma days_before_month_mono:
  assumes "1 \<le> m" "m < n" "n \<le> 12"
  shows "days_before_month y m + monthLength y m \<le> days_before_month y n"
proof -
  have "(\<Sum>k \<leftarrow> [1..m]. monthLength y k) \<le> (\<Sum>k \<leftarrow> [1..n - 1]. monthLength y k)"
  proof -
    have "[1..n - 1] = [1..m] @ [m + 1..n - 1]" using assms by (intro upto_split2) auto
    moreover have "0 \<le> (\<Sum>k \<leftarrow> [m + 1..n - 1]. monthLength y k)"
      by (rule sum_list_nonneg) (rule monthLength_nonneg, use assms in auto)
    ultimately show ?thesis by simp
  qed
  then show ?thesis using assms(1) by (simp add: days_before_month_def upto_rec2 [of 1 m])
qed

lemma days_before_year_mono:
  assumes "0 \<le> y" "y < z"
  shows "days_before_year y + (if isLeapYear y then 366 else 365) \<le> days_before_year z"
  using assms(2)
proof (induction z rule: int_gr_induct)
  case base
  then show ?case using assms(1) by (simp add: days_before_year_Suc)
next
  case (step z)
  then show ?case using days_before_year_Suc [of z] assms(1) by auto
qed

lemma day_in_year:
  assumes "valid_date t"
  shows "0 \<le> days_before_month (date_y t) (date_m t)"
    "days_before_month (date_y t) (date_m t) + date_d t \<le> (if isLeapYear (date_y t) then 366 else 365)"
proof -
  show "0 \<le> days_before_month (date_y t) (date_m t)"
    unfolding days_before_month_def
    by (rule sum_list_nonneg) (rule monthLength_nonneg, use assms in \<open>auto simp: valid_date_def\<close>)
  show "days_before_month (date_y t) (date_m t) + date_d t \<le> (if isLeapYear (date_y t) then 366 else 365)"
    using assms days_before_month_mono [of "date_m t" 12 "date_y t"] days_before_month_year(2) [of "date_y t"]
      monthLength_bounds [of 12 "date_y t"]
    by (cases "date_m t = 12") (auto simp: valid_date_def)
qed

lemma date_less_day_count:
  assumes "valid_date a" "valid_date b" "date_less a b"
  shows "day_count a < day_count b"
proof -
  consider "date_y a < date_y b" | "date_y a = date_y b" "date_m a < date_m b"
    | "date_y a = date_y b" "date_m a = date_m b" "date_d a < date_d b"
    using assms(3) by (auto simp: date_less_def split: if_splits)
  then show ?thesis
  proof cases
    case 1
    then show ?thesis
      using days_before_year_mono [of "date_y a" "date_y b"] day_in_year [OF assms(1)] day_in_year [OF assms(2)] assms(1,2)
      by (simp add: day_count_def valid_date_def)
  next
    case 2
    then show ?thesis
      using days_before_month_mono [of "date_m a" "date_m b" "date_y a"] assms(1,2)
      by (simp add: day_count_def valid_date_def)
  qed (simp add: day_count_def)
qed

lemma date_less_total: "a \<noteq> b \<Longrightarrow> date_less a b \<or> date_less b a"
  by (auto simp: date_less_def date_eq_iff)

lemma date_less_irrefl [simp]: "\<not> date_less a a"
  by (simp add: date_less_def)

lemma date_less_trans: "date_less a b \<Longrightarrow> date_less b c \<Longrightarrow> date_less a c"
  by (auto simp: date_less_def split: if_splits)

lemma date_toNumber_int_range:
  assumes "valid_date t" "date_y t \<le> 5000000"
  shows "0 \<le> date_toNumber t \<and> date_toNumber t \<le> INT_MAX"
proof -
  have y: "1 \<le> date_y t" using assms by (simp add: valid_date_def)
  have "0 \<le> (date_y t - 1) div k \<and> (date_y t - 1) div k \<le> date_y t - 1" if "1 \<le> k" for k
    using zdiv_mono2 [of "date_y t - 1" 1 k] y that by (simp add: pos_imp_zdiv_nonneg_iff)
  from this [of 4] this [of 100] this [of 400]
  show ?thesis
    using y assms(2) day_in_year [OF assms(1)] date_toNumber_eq [OF assms(1)] assms(1)
    unfolding day_count_def days_before_year_def valid_date_def INT_MAX_def by (auto split: if_splits)
qed

section \<open>Round trip\<close>

lemma scan_zeros: "scan_digits 10 0 (replicate k CHR ''0'' @ s) = scan_digits 10 0 s"
proof (induction k)
  case (Suc k)
  have "the (digit_value CHR ''0'') = 0 \<and> is_radix_digit 10 CHR ''0''" by code_simp
  with Suc show ?case by simp
qed simp

lemma strtoll_padded:
  assumes "0 \<le> n" "n \<le> INT_MAX" "rest = [] \<or> \<not> is_radix_digit 10 (hd rest)"
  shows "strtoll (show_pad w n @ rest) 10 = (n, rest, False)"
proof -
  let ?s = "show_pad w n"
  have s: "?s = replicate (w - length (show_nat (nat n))) CHR ''0'' @ show_nat (nat n)"
    using assms(1) by (simp add: show_pad_def Let_def)
  have ne: "?s \<noteq> []" by (simp add: s)
  have d: "\<forall>c \<in> set ?s. c_isdigit c" by (auto simp: s show_nat_digits)
  have "c_isdigit (hd (?s @ rest))" using ne d by (simp add: hd_append)
  note ns = digit_not_sign [OF this]
  have drop: "dropWhile c_isspace (?s @ rest) = ?s @ rest" "split_sign (?s @ rest) = (False, ?s @ rest)"
    using ne ns by (cases "?s @ rest"; simp add: split_sign_def)+
  have "scan_digits 10 0 (?s @ rest) = scan_digits 10 (nat n) rest"
    using d by (simp add: scan_digits_append scan_zeros s scan_show_nat)
  also have "\<dots> = (nat n, rest)" using assms(3) by (intro scan_digits_stop) auto
  finally have scan: "scan_digits 10 0 (?s @ rest) = (nat n, rest)" .
  show ?thesis
    using assms(1,2) ne d
    by (simp add: strtoll_def drop split_radix_def scan hd_append limits)
qed

lemma show_pad_not_Nil [simp]: "show_pad w n \<noteq> []"
  by (simp add: show_pad_def Let_def)

lemma hd_show_pad: "0 \<le> n \<Longrightarrow> c_isdigit (hd (show_pad w n))"
  by (simp add: show_pad_def Let_def hd_append hd_show_nat_digit)

lemma show_pad_no_nul: "0 \<le> n \<Longrightarrow> CHR 0x00 \<notin> set (show_pad w n)"
  by (auto simp: show_pad_def Let_def dest!: show_nat_digits) (auto simp: c_isdigit_def)

lemma parseDate_toString: "valid_date t \<Longrightarrow> parseDate (date_toString t) = Inr t"
proof -
  assume v: "valid_date t"
  then have y: "0 \<le> date_y t" "date_y t \<le> INT_MAX" and m: "0 \<le> date_m t" "date_m t \<le> INT_MAX"
    and d: "0 \<le> date_d t" "date_d t \<le> INT_MAX"
    using monthLength_bounds [of "date_m t" "date_y t"] by (auto simp: valid_date_def limits)
  have minus: "\<not> is_radix_digit 10 CHR ''-''" by code_simp
  have nul: "takeWhile (\<lambda>c. c \<noteq> CHR 0x00) (date_toString t) = date_toString t"
    using show_pad_no_nul y(1) m(1) d(1) by (auto simp: date_toString_def takeWhile_eq_all_conv)
  have "date_bits ds 0 3 (date_toString t) = Inr ([date_y t, date_m t, date_d t], [])" for ds
    using y m d minus strtoll_padded [OF d, of "[]"]
    by (simp add: date_toString_def numeral_3_eq_3 strtoll_padded hd_show_pad hd_append)
  then show ?thesis using v by (simp add: parseDate_def nul valid_date_def date_eq_iff)
qed

section \<open>What the callers rely on\<close>

text \<open>
  Every date that the program reads is a date of the calendar, and printing a date and reading
  it back gives the same date.
\<close>

theorem date_round_trip:
  "(\<forall>s t. parseDate s = Inr t \<longrightarrow> valid_date t) \<and> (\<forall>t. valid_date t \<longrightarrow> parseDate (date_toString t) = Inr t)"
  using parseDate_valid parseDate_toString by blast

theorem date_round_trip_witness:
  "valid_date (Date 2016 2 29) \<and> parseDate (date_toString (Date 2016 2 29)) = Inr (Date 2016 2 29)"
proof -
  have "valid_date (Date 2016 2 29)" by code_simp
  with date_round_trip show ?thesis by blast
qed

text \<open>
  \<open>operator++\<close> and \<open>addMonth\<close> keep a date valid, \<open>operator++\<close> gives the next day of the
  calendar, and \<open>operator<\<close> orders dates by the day they stand for.
\<close>

theorem date_next_day:
  assumes "valid_date a" "valid_date b" "date_y a < INT_MAX"
  shows "valid_date (date_incr a) \<and> day_count (date_incr a) = day_count a + 1 \<and> valid_date (addMonth a) \<and>
    (date_less a b \<longleftrightarrow> day_count a < day_count b)"
  using valid_date_incr [OF assms(1,3)] day_count_incr [OF assms(1)] valid_addMonth [OF assms(1,3)]
    date_less_day_count [OF assms(1,2)] date_less_day_count [OF assms(2,1)] date_less_total [of a b]
  by (metis order_less_asym)

theorem date_next_day_witness:
  "valid_date (date_incr (Date 1995 12 31)) \<and>
   day_count (date_incr (Date 1995 12 31)) = day_count (Date 1995 12 31) + 1 \<and>
   valid_date (addMonth (Date 1995 12 31)) \<and>
   (date_less (Date 1995 12 31) (Date 1996 2 29) \<longleftrightarrow> day_count (Date 1995 12 31) < day_count (Date 1996 2 29))"
  by (rule date_next_day; code_simp)

text \<open>
  The difference of two dates is the number of days between them when both years are leap years
  or neither is; it is one too high (low) when only the first (second) year is a leap year.
\<close>

theorem date_minus_days:
  assumes "valid_date a" "valid_date b"
  shows "date_minus a b = day_count a - day_count b
    + (if isLeapYear (date_y a) then 1 else 0) - (if isLeapYear (date_y b) then 1 else 0)"
  using date_toNumber_eq [OF assms(1)] date_toNumber_eq [OF assms(2)] by (simp add: date_minus_def)

theorem date_minus_days_witness:
  "date_minus (Date 2016 2 1) (Date 2016 1 1) = 31 \<and>
   date_minus (Date 2000 1 1) (Date 1999 12 31) = 2 \<and> date_minus (Date 2001 1 1) (Date 2000 12 31) = 0"
proof -
  have v: "valid_date (Date 2016 2 1)" "valid_date (Date 2016 1 1)" "valid_date (Date 2000 1 1)"
    "valid_date (Date 1999 12 31)" "valid_date (Date 2001 1 1)" "valid_date (Date 2000 12 31)"
    by code_simp+
  show ?thesis
    unfolding date_minus_days [OF v(1,2)] date_minus_days [OF v(3,4)] date_minus_days [OF v(5,6)]
    by code_simp
qed

end
