(* ===== verification/OrdMap.thy ===== *)
theory OrdMap
  imports Names Dates
begin

text \<open>
  The program's ordered containers: \<open>std::map<K, V, Compare>\<close> as a list of pairs in the order of
  \<open>Compare\<close> (\<open>om_find\<close>, \<open>om_put\<close>, \<open>om_erase\<close>), \<open>std::set<T, Compare>\<close> as such a list of elements
  (\<open>os_insert\<close>, \<open>os_member\<close>).  They search by the comparison alone, as the standard library does, so
  what they promise rests on the laws of the comparison: the locale \<open>key_order\<close> states the laws on
  a carrier of keys and proves the contract of the containers from them.  Its interpretations are
  the comparisons the program uses: \<open>namelt\<close> on names without leading zeros and \<open>operator<\<close> on
  strings (\<open>std::less\<close>).
\<close>

section \<open>The containers\<close>

fun om_find :: "('k \<Rightarrow> 'k \<Rightarrow> bool) \<Rightarrow> 'k \<Rightarrow> ('k \<times> 'v) list \<Rightarrow> 'v option" where
  "om_find lt k [] = None"
| "om_find lt k ((k', v) # m) =
     (if lt k' k then om_find lt k m else if lt k k' then None else Some v)"

text \<open>\<open>m[k] = v\<close>; an equivalent key that is present stays.\<close>

fun om_put :: "('k \<Rightarrow> 'k \<Rightarrow> bool) \<Rightarrow> 'k \<Rightarrow> 'v \<Rightarrow> ('k \<times> 'v) list \<Rightarrow> ('k \<times> 'v) list" where
  "om_put lt k v [] = [(k, v)]"
| "om_put lt k v ((k', v') # m) =
     (if lt k' k then (k', v') # om_put lt k v m
      else if lt k k' then (k, v) # (k', v') # m
      else (k', v) # m)"

text \<open>\<open>erase(k)\<close>.\<close>

fun om_erase :: "('k \<Rightarrow> 'k \<Rightarrow> bool) \<Rightarrow> 'k \<Rightarrow> ('k \<times> 'v) list \<Rightarrow> ('k \<times> 'v) list" where
  "om_erase lt k [] = []"
| "om_erase lt k ((k', v) # m) =
     (if lt k' k then (k', v) # om_erase lt k m else if lt k k' then (k', v) # m else m)"

text \<open>\<open>insert(x)\<close> with the flag \<open>second\<close>: an equivalent element that is present stays.\<close>

fun os_insert :: "('a \<Rightarrow> 'a \<Rightarrow> bool) \<Rightarrow> 'a \<Rightarrow> 'a list \<Rightarrow> 'a list \<times> bool" where
  "os_insert lt x [] = ([x], True)"
| "os_insert lt x (y # ys) =
     (if lt y x then (let (zs, b) = os_insert lt x ys in (y # zs, b))
      else if lt x y then (x # y # ys, True)
      else (y # ys, False))"

fun os_member :: "('a \<Rightarrow> 'a \<Rightarrow> bool) \<Rightarrow> 'a \<Rightarrow> 'a list \<Rightarrow> bool" where
  "os_member lt x [] = False"
| "os_member lt x (y # ys) = (if lt y x then os_member lt x ys else \<not> lt x y)"

lemma om_put_last: "\<forall>k' \<in> set (map fst m). lt k' k \<Longrightarrow> om_put lt k v m = m @ [(k, v)] \<and> om_find lt k m = None"
  by (induction m) auto

lemma os_insert_unchanged: "\<not> snd (os_insert lt x xs) \<Longrightarrow> fst (os_insert lt x xs) = xs"
  by (induction xs) (auto simp: split_beta split: if_splits)

section \<open>What they promise over a strict total order\<close>

locale key_order =
  fixes lt :: "'k \<Rightarrow> 'k \<Rightarrow> bool" and ok :: "'k \<Rightarrow> bool"
  assumes lt_irrefl: "ok a \<Longrightarrow> \<not> lt a a"
    and lt_trans: "ok a \<Longrightarrow> ok b \<Longrightarrow> ok c \<Longrightarrow> lt a b \<Longrightarrow> lt b c \<Longrightarrow> lt a c"
    and lt_total: "ok a \<Longrightarrow> ok b \<Longrightarrow> a \<noteq> b \<Longrightarrow> lt a b \<or> lt b a"
begin

definition sorted_keys :: "('k \<times> 'v) list \<Rightarrow> bool" where
  "sorted_keys m \<longleftrightarrow> sorted_wrt lt (map fst m) \<and> list_all ok (map fst m)"

definition sorted_set :: "'k list \<Rightarrow> bool" where
  "sorted_set xs \<longleftrightarrow> sorted_wrt lt xs \<and> list_all ok xs"

lemma lt_asym: "ok a \<Longrightarrow> ok b \<Longrightarrow> lt a b \<Longrightarrow> \<not> lt b a"
  using lt_trans lt_irrefl by blast

lemma sorted_keys_simps [simp]:
  "sorted_keys []"
  "sorted_keys ((k, v) # m) \<longleftrightarrow> ok k \<and> (\<forall>(k', _) \<in> set m. lt k k') \<and> sorted_keys m"
  by (auto simp: sorted_keys_def)

lemma sorted_set_simps [simp]:
  "sorted_set []"
  "sorted_set (x # xs) \<longleftrightarrow> ok x \<and> (\<forall>y \<in> set xs. lt x y) \<and> sorted_set xs"
  by (auto simp: sorted_set_def)

lemma sorted_keys_ok: "sorted_keys m \<Longrightarrow> (k, v) \<in> set m \<Longrightarrow> ok k"
  by (force simp: sorted_keys_def list_all_iff)

lemma sorted_set_ok: "sorted_set xs \<Longrightarrow> x \<in> set xs \<Longrightarrow> ok x"
  by (auto simp: sorted_set_def list_all_iff)

lemma key_cases [consumes 2, case_names less equal greater]:
  assumes "ok a" "ok b"
  obtains (less) "lt a b" "\<not> lt b a" "a \<noteq> b" | (equal) "a = b" "\<not> lt a b" "\<not> lt b a"
    | (greater) "lt b a" "\<not> lt a b" "a \<noteq> b"
  using assms lt_total lt_asym lt_irrefl by metis

lemma below_all:
  assumes "ok k" "ok k'" "lt k k'" "sorted_keys ((k', v) # m)"
  shows "\<forall>(j, _) \<in> set ((k', v) # m). lt k j" "k \<notin> fst ` set ((k', v) # m)"
proof -
  show 1: "\<forall>(j, _) \<in> set ((k', v) # m). lt k j"
  proof clarify
    fix j w assume j: "(j, w) \<in> set ((k', v) # m)"
    show "lt k j"
    proof (cases "(j, w) \<in> set m")
      case True
      then have "lt k' j" "ok j" using assms(4) sorted_keys_ok [of m j w] by auto
      then show ?thesis using lt_trans assms by blast
    qed (use j assms(3) in auto)
  qed
  show "k \<notin> fst ` set ((k', v) # m)" using 1 lt_irrefl [OF assms(1)] by fastforce
qed

lemma head_not_in_tail: "sorted_keys ((k, v) # m) \<Longrightarrow> k \<notin> fst ` set m"
  using lt_irrefl by fastforce

lemma om_find_map_of: "sorted_keys m \<Longrightarrow> ok k \<Longrightarrow> om_find lt k m = map_of m k"
proof (induction m)
  case (Cons p m)
  obtain k' v where p: "p = (k', v)" by force
  with Cons.prems have k': "ok k'" by simp
  show ?case using \<open>ok k\<close> k'
  proof (cases rule: key_cases)
    case less
    then have "map_of (p # m) k = None"
      using below_all(2) [of k k' v m] Cons.prems k' unfolding p by (simp only: map_of_eq_None_iff) simp
    then show ?thesis using less by (simp add: p)
  qed (use Cons p in auto)
qed simp

lemma set_om_put:
  "sorted_keys m \<Longrightarrow> ok k \<Longrightarrow> fst ` set (om_put lt k v m) = insert k (fst ` set m)"
proof (induction m)
  case (Cons p m)
  obtain k' v' where p: "p = (k', v')" by force
  with Cons.prems have k': "ok k'" by simp
  show ?case using \<open>ok k\<close> k' by (cases rule: key_cases) (use Cons p in auto)
qed simp

lemma sorted_om_put: "sorted_keys m \<Longrightarrow> ok k \<Longrightarrow> sorted_keys (om_put lt k v m)"
proof (induction m)
  case (Cons p m)
  obtain k' v' where p: "p = (k', v')" by force
  with Cons.prems have k': "ok k'" by simp
  show ?case using \<open>ok k\<close> k'
  proof (cases rule: key_cases)
    case less
    then show ?thesis using below_all(1) [of k k' v' m] Cons.prems k' by (simp add: p)
  next
    case greater
    have "lt k' j" if "(j, w) \<in> set (om_put lt k v m)" for j w
    proof -
      have "j \<in> insert k (fst ` set m)"
        using set_om_put [of m k v] Cons.prems that image_eqI [of j fst "(j, w)"] by (auto simp: p)
      then show ?thesis using Cons.prems greater by (auto simp: p)
    qed
    then show ?thesis using greater Cons by (auto simp: p)
  qed (use Cons p in auto)
qed simp

lemma map_of_om_put: "sorted_keys m \<Longrightarrow> ok k \<Longrightarrow> map_of (om_put lt k v m) = (map_of m)(k \<mapsto> v)"
proof (induction m)
  case (Cons p m)
  obtain k' v' where p: "p = (k', v')" by force
  with Cons.prems have k': "ok k'" by simp
  show ?case using \<open>ok k\<close> k' by (cases rule: key_cases) (use Cons p in \<open>auto simp: fun_eq_iff\<close>)
qed simp

lemma om_find_put:
  "sorted_keys m \<Longrightarrow> ok k \<Longrightarrow> ok j \<Longrightarrow>
   om_find lt j (om_put lt k v m) = (if j = k then Some v else om_find lt j m)"
  by (simp add: om_find_map_of sorted_om_put map_of_om_put)

lemma om_erase_subset: "set (om_erase lt k m) \<subseteq> set m"
  by (induction m) (auto split: if_splits)

lemma sorted_om_erase: "sorted_keys m \<Longrightarrow> sorted_keys (om_erase lt k m)"
proof (induction m)
  case (Cons p m)
  obtain k' v' where p: "p = (k', v')" by force
  show ?case using Cons om_erase_subset [of k m] by (auto simp: p)
qed simp

lemma map_of_om_erase: "sorted_keys m \<Longrightarrow> ok k \<Longrightarrow> map_of (om_erase lt k m) = (map_of m)(k := None)"
proof (induction m)
  case (Cons p m)
  obtain k' v' where p: "p = (k', v')" by force
  with Cons.prems have k': "ok k'" by simp
  show ?case using \<open>ok k\<close> k'
  proof (cases rule: key_cases)
    case less
    then have "map_of m k = None" "k \<noteq> k'"
      using below_all(2) [of k k' v' m] Cons.prems k' p by (simp_all add: map_of_eq_None_iff)
    then show ?thesis using less by (auto simp: p)
  next
    case equal
    then have "map_of m k' = None"
      using head_not_in_tail [of k' v' m] Cons.prems by (simp add: p map_of_eq_None_iff)
    then show ?thesis using equal by (auto simp: p)
  qed (use Cons p in auto)
qed simp

lemma om_find_erase:
  "sorted_keys m \<Longrightarrow> ok k \<Longrightarrow> ok j \<Longrightarrow>
   om_find lt j (om_erase lt k m) = (if j = k then None else om_find lt j m)"
  by (simp add: om_find_map_of sorted_om_erase map_of_om_erase)

text \<open>Elements of a set: the same facts, with the elements as their own keys.\<close>

lemma below_all_set:
  assumes "ok x" "lt x y" "sorted_set (y # ys)"
  shows "\<forall>z \<in> set (y # ys). lt x z" "x \<notin> set (y # ys)"
proof -
  show 1: "\<forall>z \<in> set (y # ys). lt x z"
    using assms lt_trans [of x y] sorted_set_ok [of ys] by auto
  show "x \<notin> set (y # ys)" using 1 lt_irrefl [OF assms(1)] by blast
qed

lemma os_insert_set:
  "sorted_set xs \<Longrightarrow> ok x \<Longrightarrow> set (fst (os_insert lt x xs)) = insert x (set xs)"
proof (induction xs)
  case (Cons y ys)
  then have y: "ok y" by simp
  show ?case using \<open>ok x\<close> y by (cases rule: key_cases) (use Cons in \<open>auto simp: split_beta\<close>)
qed simp

lemma os_insert_sorted: "sorted_set xs \<Longrightarrow> ok x \<Longrightarrow> sorted_set (fst (os_insert lt x xs))"
proof (induction xs)
  case (Cons y ys)
  then have y: "ok y" by simp
  show ?case using \<open>ok x\<close> y
  proof (cases rule: key_cases)
    case less
    then show ?thesis using below_all_set(1) [of x y ys] Cons.prems by simp
  qed (use Cons os_insert_set [of ys x] in \<open>auto simp: split_beta\<close>)
qed simp

lemma os_insert_flag: "sorted_set xs \<Longrightarrow> ok x \<Longrightarrow> snd (os_insert lt x xs) \<longleftrightarrow> x \<notin> set xs"
proof (induction xs)
  case (Cons y ys)
  then have y: "ok y" by simp
  show ?case using \<open>ok x\<close> y
  proof (cases rule: key_cases)
    case less
    then show ?thesis using below_all_set(2) [of x y ys] Cons.prems by simp
  qed (use Cons in \<open>auto simp: split_beta\<close>)
qed simp

lemma os_insert_present: "sorted_set xs \<Longrightarrow> x \<in> set xs \<Longrightarrow> fst (os_insert lt x xs) = xs"
proof (induction xs)
  case (Cons y ys)
  then have x: "ok x" and y: "ok y" using sorted_set_ok by auto
  show ?case using x y
  proof (cases rule: key_cases)
    case less
    then show ?thesis using below_all_set(2) [of x y ys] Cons.prems x by blast
  qed (use Cons in \<open>auto simp: split_beta\<close>)
qed simp

lemma os_member_iff: "sorted_set xs \<Longrightarrow> ok x \<Longrightarrow> os_member lt x xs \<longleftrightarrow> x \<in> set xs"
proof (induction xs)
  case (Cons y ys)
  then have y: "ok y" by simp
  show ?case using \<open>ok x\<close> y
  proof (cases rule: key_cases)
    case less
    then show ?thesis using below_all_set(2) [of x y ys] Cons.prems by simp
  qed (use Cons in auto)
qed simp

end

section \<open>Sets ordered by a key of their elements\<close>

text \<open>
  A set whose comparison looks at a part of the elements only, the key: at most one element of each
  key is in the set, and \<open>insert\<close> keeps the one that was there first.
\<close>

locale keyed_set = key_order lt ok for lt :: "'k \<Rightarrow> 'k \<Rightarrow> bool" and ok :: "'k \<Rightarrow> bool" +
  fixes less :: "'a \<Rightarrow> 'a \<Rightarrow> bool" and key :: "'a \<Rightarrow> 'k"
  assumes less_key: "ok (key x) \<Longrightarrow> ok (key y) \<Longrightarrow> less x y \<longleftrightarrow> lt (key x) (key y)"
begin

definition by_key :: "'a list \<Rightarrow> bool" where
  "by_key xs \<longleftrightarrow> sorted_set (map key xs)"

lemma by_key_simps [simp]:
  "by_key []"
  "by_key (x # xs) \<longleftrightarrow> ok (key x) \<and> (\<forall>y \<in> set xs. lt (key x) (key y)) \<and> by_key xs"
  by (auto simp: by_key_def)

lemma by_key_ok: "by_key xs \<Longrightarrow> x \<in> set xs \<Longrightarrow> ok (key x)"
  unfolding by_key_def by (rule sorted_set_ok) auto

lemma by_key_distinct: "by_key xs \<Longrightarrow> distinct (map key xs)"
  by (induction xs) (use lt_irrefl in force)+

lemma by_key_filter: "by_key xs \<Longrightarrow> by_key (filter P xs)"
  by (induction xs) auto

lemma by_key_map: "(\<And>x. key (f x) = key x) \<Longrightarrow> by_key (map f xs) \<longleftrightarrow> by_key xs"
  by (simp add: by_key_def comp_def)

lemma map_key_insert:
  "by_key xs \<Longrightarrow> ok (key x) \<Longrightarrow>
   map key (fst (os_insert less x xs)) = fst (os_insert lt (key x) (map key xs)) \<and>
   snd (os_insert less x xs) = snd (os_insert lt (key x) (map key xs))"
  by (induction xs) (auto simp: less_key split_beta)

lemma insert_by_key: "by_key xs \<Longrightarrow> ok (key x) \<Longrightarrow> by_key (fst (os_insert less x xs))"
  using map_key_insert [of xs x] os_insert_sorted [of "map key xs" "key x"] by (simp add: by_key_def)

lemma insert_flag:
  "by_key xs \<Longrightarrow> ok (key x) \<Longrightarrow> snd (os_insert less x xs) \<longleftrightarrow> key x \<notin> key ` set xs"
  using map_key_insert [of xs x] os_insert_flag [of "map key xs" "key x"] by (simp add: by_key_def)

lemma insert_elements:
  "by_key xs \<Longrightarrow> ok (key x) \<Longrightarrow>
   set (fst (os_insert less x xs)) = (if key x \<in> key ` set xs then set xs else insert x (set xs))"
proof (induction xs)
  case (Cons y ys)
  then have y: "ok (key y)" by simp
  show ?case using \<open>ok (key x)\<close> y
  proof (cases rule: key_cases)
    case less
    then have "key x \<notin> key ` set (y # ys)"
      using below_all_set(2) [of "key x" "key y" "map key ys"] Cons.prems by (simp add: by_key_def)
    then show ?thesis using less Cons.prems y by (auto simp: less_key)
  qed (use Cons in \<open>auto simp: less_key split_beta\<close>)
qed simp

text \<open>The element the loops over a set keep when they look for the last one.\<close>

definition last_where :: "('a \<Rightarrow> bool) \<Rightarrow> 'a list \<Rightarrow> 'a option" where
  "last_where P xs =
     foldl (\<lambda>r x. if P x then (case r of None \<Rightarrow> Some x | Some y \<Rightarrow> if less y x then Some x else r) else r)
       None xs"

lemma last_where_filter:
  assumes "by_key xs"
  shows "last_where P xs = (if filter P xs = [] then None else Some (last (filter P xs)))"
  using assms
proof (induction xs rule: rev_induct)
  case (snoc x xs)
  have k: "by_key xs" "ok (key x)" "\<forall>y \<in> set xs. lt (key y) (key x)"
    using snoc.prems by (auto simp: by_key_def sorted_set_def sorted_wrt_append)
  have "less (last (filter P xs)) x" if "filter P xs \<noteq> []"
    using that k less_key by_key_ok last_in_set [OF that] by auto
  then show ?case using snoc.IH [OF k(1)] by (auto simp: last_where_def)
qed (simp add: last_where_def)

lemma last_where_greatest:
  assumes "by_key xs" "last_where P xs = Some x"
  shows "x \<in> set xs \<and> P x \<and> (\<forall>y \<in> set xs. P y \<longrightarrow> \<not> less x y)"
proof -
  from last_where_filter [OF assms(1), of P] assms(2)
  have f: "filter P xs \<noteq> []" "x = last (filter P xs)" by (auto split: if_splits)
  then obtain ys where ys: "filter P xs = ys @ [x]" by (metis append_butlast_last_id)
  have k: "by_key (ys @ [x])" using by_key_filter [OF assms(1), of P] ys by simp
  have "\<not> less x y" if "y \<in> set (ys @ [x])" for y
  proof -
    have "lt (key y) (key x) \<or> y = x" "ok (key x)" "ok (key y)"
      using k that by (auto simp: by_key_def sorted_set_def sorted_wrt_append list_all_iff)
    then show ?thesis using less_key lt_asym lt_irrefl by metis
  qed
  moreover have "set (filter P xs) = set (ys @ [x])" using ys by simp
  ultimately show ?thesis by auto
qed

end

section \<open>The program's comparisons\<close>

interpretation name_order: key_order namelt canonical_name
  by unfold_locales (auto dest: namelt_total intro: namelt_trans)

interpretation string_order: key_order "(<) :: string \<Rightarrow> string \<Rightarrow> bool" "\<lambda>_. True"
  by unfold_locales auto

interpretation date_order: key_order date_less "\<lambda>_. True"
  by unfold_locales (auto dest: date_less_total intro: date_less_trans)

section \<open>Updating through an ordered map\<close>

text \<open>\<open>for(auto &p : m) f(p.second)\<close> and an update of the value at a key that is present.\<close>

definition om_map_values :: "('v \<Rightarrow> 'w) \<Rightarrow> ('k \<times> 'v) list \<Rightarrow> ('k \<times> 'w) list" where
  "om_map_values f m = map (\<lambda>(k, v). (k, f v)) m"

definition om_update :: "('k \<Rightarrow> 'k \<Rightarrow> bool) \<Rightarrow> 'k \<Rightarrow> ('v \<Rightarrow> 'v) \<Rightarrow> ('k \<times> 'v) list \<Rightarrow> ('k \<times> 'v) list" where
  "om_update lt k f m = (case om_find lt k m of None \<Rightarrow> m | Some v \<Rightarrow> om_put lt k (f v) m)"

lemma fst_om_map_values [simp]: "map fst (om_map_values f m) = map fst m"
  by (simp add: om_map_values_def split_beta comp_def)

lemma om_find_map_values [simp]: "om_find lt k (om_map_values f m) = map_option f (om_find lt k m)"
  by (induction m) (auto simp: om_map_values_def)

end
