(* ===== verification/ConfText.thy ===== *)
theory ConfText
  imports Prelude
begin

text \<open>
  The text layer of the configuration: \<^verbatim>\<open>src/split.cc\<close> (a line into words), the quoting of
  \<^verbatim>\<open>src/ConfBase.cc\<close> (words into a line), \<^verbatim>\<open>src/toLines.cc\<close> and \<^verbatim>\<open>src/substitute.cc\<close>.  \<open>split\<close> may
  not return, so its result is an option; the lemmas show when it returns, when it does not, and
  that it reads back every line the writer quotes.
\<close>

section \<open>split\<close>

abbreviation SP :: char where "SP \<equiv> CHR '' ''"
abbreviation TAB :: char where "TAB \<equiv> CHR 0x09"
abbreviation LF :: char where "LF \<equiv> CHR 0x0A"
abbreviation VT :: char where "VT \<equiv> CHR 0x0B"
abbreviation FF :: char where "FF \<equiv> CHR 0x0C"
abbreviation CR :: char where "CR \<equiv> CHR 0x0D"
abbreviation DQUOTE :: char where "DQUOTE \<equiv> CHR 0x22"
abbreviation BACKSLASH :: char where "BACKSLASH \<equiv> CHR 0x5C"

text \<open>Leading white space: a space is one column, a tab goes to the next multiple of eight.\<close>

fun scan_indent :: "nat \<Rightarrow> string \<Rightarrow> nat \<times> string" where
  "scan_indent i [] = (i, [])"
| "scan_indent i (c # cs) =
     (if c = SP then scan_indent (i + 1) cs
      else if c = TAB then scan_indent ((i + 8) div 8 * 8) cs
      else (i, c # cs))"

text \<open>The inside of a quoted word, and what follows the closing quote.\<close>

fun quoted_word :: "string \<Rightarrow> (string \<times> string) result" where
  "quoted_word [] = Inl (SyntaxError ''unterminated string'')"
| "quoted_word (c # cs) =
     (if c = DQUOTE then Inr ([], cs)
      else if c = BACKSLASH then
        (case cs of
           [] \<Rightarrow> Inl (SyntaxError ''unterminated string'')
         | d # ds \<Rightarrow> rbind (quoted_word ds) (\<lambda>(w, r). Inr (d # w, r)))
      else rbind (quoted_word cs) (\<lambda>(w, r). Inr (c # w, r)))"

definition plain_char :: "char \<Rightarrow> bool" where
  "plain_char c \<longleftrightarrow> \<not> c_isspace c \<and> c \<noteq> DQUOTE \<and> c \<noteq> BACKSLASH"

text \<open>The main loop, on the rest of the line and the words so far.  \<open>None\<close> is a loop that does
  not end.\<close>

partial_function (option) split_words :: "string \<Rightarrow> string list \<Rightarrow> string list result option" where
  "split_words s bits =
     (case s of
        [] \<Rightarrow> Some (Inr bits)
      | c # cs \<Rightarrow>
          if c \<in> {SP, TAB, CR, FF} then split_words cs bits
          else if c = CHR ''#'' then Some (Inr bits)
          else if c = DQUOTE then
            (case quoted_word cs of
               Inl e \<Rightarrow> Some (Inl e)
             | Inr (w, rest) \<Rightarrow> split_words rest (bits @ [w]))
          else if c = BACKSLASH then Some (Inl (SyntaxError ''unquoted backslash''))
          else split_words (dropWhile plain_char s) (bits @ [takeWhile plain_char s]))"

definition split :: "string \<Rightarrow> (nat \<times> string list result) option" where
  "split line =
     (let (i, s) = scan_indent 0 line in map_option (Pair i) (split_words s []))"

declare split_words.simps [code]

lemmas split_words_unfold = split_words.simps

lemma split_words_simps [simp]:
  "split_words [] bits = Some (Inr bits)"
  "c \<in> {SP, TAB, CR, FF} \<Longrightarrow> split_words (c # cs) bits = split_words cs bits"
  "split_words (CHR ''#'' # cs) bits = Some (Inr bits)"
  "split_words (DQUOTE # cs) bits =
     (case quoted_word cs of Inl e \<Rightarrow> Some (Inl e) | Inr (w, rest) \<Rightarrow> split_words rest (bits @ [w]))"
  "split_words (BACKSLASH # cs) bits = Some (Inl (SyntaxError ''unquoted backslash''))"
  by (subst split_words_unfold; auto)+

lemma split_words_plain:
  assumes "c \<notin> {SP, TAB, CR, FF, CHR ''#'', DQUOTE, BACKSLASH}"
  shows "split_words (c # cs) bits =
    split_words (dropWhile plain_char (c # cs)) (bits @ [takeWhile plain_char (c # cs)])"
  using assms by (subst split_words_unfold) simp

lemma plain_char_simps [simp]:
  "\<not> plain_char SP" "\<not> plain_char TAB" "\<not> plain_char CR" "\<not> plain_char FF"
  "\<not> plain_char LF" "\<not> plain_char VT" "\<not> plain_char DQUOTE" "\<not> plain_char BACKSLASH"
  by (simp_all add: plain_char_def c_isspace_def)

lemma quoted_word_rest:
  "quoted_word s = Inr (w, r) \<Longrightarrow> length r < length s \<and> set r \<subseteq> set s"
proof (induction s arbitrary: w rule: quoted_word.induct)
  case 1
  then show ?case by simp
next
  case (2 c cs)
  then show ?case
    by (fastforce simp: result_simps split: if_splits list.splits)
qed

lemma c_isspace_plain: "\<not> c_isspace c \<longleftrightarrow> c \<notin> {SP, TAB, LF, VT, FF, CR}"
  by (auto simp: c_isspace_def)

text \<open>Without newline and vertical tab the loop ends: every turn consumes a character.\<close>

lemma split_words_returns:
  "LF \<notin> set s \<Longrightarrow> VT \<notin> set s \<Longrightarrow> \<exists>r. split_words s bits = Some r"
proof (induction s arbitrary: bits rule: length_induct)
  case (1 s)
  show ?case
  proof (cases s)
    case Nil
    then show ?thesis by simp
  next
    case (Cons c cs)
    consider "c \<in> {SP, TAB, CR, FF}" | "c = CHR ''#''" | "c = DQUOTE" | "c = BACKSLASH"
      | (word) "c \<notin> {SP, TAB, CR, FF, CHR ''#'', DQUOTE, BACKSLASH}" by blast
    then show ?thesis
    proof cases
      case 3
      with 1 Cons show ?thesis
        by (auto split: sum.splits dest!: quoted_word_rest) (meson less_SucI subsetD)
    next
      case word
      then have pc: "plain_char c"
        using 1 Cons by (auto simp: plain_char_def c_isspace_def)
      have "length (dropWhile plain_char s) < length s"
        using pc Cons length_dropWhile_le [of plain_char cs] by simp
      moreover have "set (dropWhile plain_char s) \<subseteq> set s" by (auto dest: set_dropWhileD)
      ultimately have "\<exists>r. split_words (dropWhile plain_char s) b = Some r" for b
        using 1 by blast
      then show ?thesis unfolding Cons split_words_plain [OF word] by simp
    qed (use 1 Cons in \<open>auto\<close>)
  qed
qed

text \<open>On a newline or a vertical tab outside quotes the default branch consumes nothing.\<close>

lemma split_words_stuck:
  assumes ret: "split_words s bits = Some r"
  shows "s = [] \<or> hd s \<notin> {LF, VT}"
proof (rule split_words.raw_induct [where P = "\<lambda>s bits r. s = [] \<or> hd s \<notin> {LF, VT}", OF _ ret])
  fix f s bits r
  assume IH: "\<And>s bits r. f s bits = Some r \<Longrightarrow> s = [] \<or> hd s \<notin> {LF, VT}"
    and eq: "(case s of [] \<Rightarrow> Some (Inr bits)
       | c # cs \<Rightarrow> if c \<in> {SP, TAB, CR, FF} then f cs bits
          else if c = CHR ''#'' then Some (Inr bits)
          else if c = DQUOTE then
            (case quoted_word cs of Inl e \<Rightarrow> Some (Inl e) | Inr (w, rest) \<Rightarrow> f rest (bits @ [w]))
          else if c = BACKSLASH then Some (Inl (SyntaxError ''unquoted backslash''))
          else f (dropWhile plain_char s) (bits @ [takeWhile plain_char s])) = Some r"
  show "s = [] \<or> hd s \<notin> {LF, VT}"
  proof (rule ccontr)
    assume "\<not> ?thesis"
    then obtain c cs where s: "s = c # cs" "c = LF \<or> c = VT" by (cases s) auto
    with eq have "f s (bits @ [[]]) = Some r" by auto
    with IH s show False by fastforce
  qed
qed

lemma split_words_diverges: "c \<in> {LF, VT} \<Longrightarrow> split_words (c # cs) bits = None"
  using split_words_stuck [of "c # cs" bits] by (cases "split_words (c # cs) bits") auto

section \<open>Quoting\<close>

definition need_quote :: "string \<Rightarrow> bool" where
  "need_quote s \<longleftrightarrow>
     (if s = [] then True
      else if hd s = CHR ''#'' then True
      else list_ex (\<lambda>c. c_isspace c \<or> c = BACKSLASH \<or> c = DQUOTE) s)"

definition escape_chars :: "string \<Rightarrow> string" where
  "escape_chars s =
     concat (map (\<lambda>c. if c = BACKSLASH \<or> c = DQUOTE then [BACKSLASH, c] else [c]) s)"

definition quote :: "string \<Rightarrow> string" where
  "quote s = (if need_quote s then [DQUOTE] @ escape_chars s @ [DQUOTE] else s)"

fun quote_list :: "string list \<Rightarrow> string" where
  "quote_list [] = []"
| "quote_list [v] = quote v"
| "quote_list (v # vs) = quote v @ [SP] @ quote_list vs"

definition indent :: "nat \<Rightarrow> string" where
  "indent step = replicate step SP"

lemma quoted_word_escape: "quoted_word (escape_chars s @ DQUOTE # rest) = Inr (s, rest)"
  by (induction s) (auto simp: escape_chars_def)

lemma not_need_quote_plain:
  assumes "\<not> need_quote s"
  shows "s \<noteq> []" "hd s \<noteq> CHR ''#''" "\<forall>c \<in> set s. plain_char c"
  using assms by (auto simp: need_quote_def list_ex_iff plain_char_def split: if_splits)

lemma split_words_plain_word:
  assumes w: "w \<noteq> []" "hd w \<noteq> CHR ''#''" "\<forall>c \<in> set w. plain_char c"
    and rest: "rest = [] \<or> hd rest = SP"
  shows "split_words (w @ rest) bits = split_words rest (bits @ [w])"
proof -
  obtain c cs where c: "w = c # cs" using w(1) by (cases w) auto
  then have "c \<notin> {SP, TAB, CR, FF, CHR ''#'', DQUOTE, BACKSLASH}"
    using w plain_char_simps by auto
  moreover have "takeWhile plain_char (w @ rest) = w" "dropWhile plain_char (w @ rest) = rest"
    using w(3) rest by (cases rest; auto simp: takeWhile_append)+
  ultimately show ?thesis
    using split_words_plain [of c "cs @ rest" bits] c by simp
qed

lemma split_words_quote:
  assumes "rest = [] \<or> hd rest = SP"
  shows "split_words (quote w @ rest) bits = split_words rest (bits @ [w])"
proof (cases "need_quote w")
  case True
  then show ?thesis by (simp add: quote_def quoted_word_escape)
next
  case False
  then show ?thesis
    using not_need_quote_plain [OF False] assms by (simp add: quote_def split_words_plain_word)
qed

lemma split_words_quote_list:
  "split_words (quote_list vs) bits = Some (Inr (bits @ vs))"
proof (induction vs arbitrary: bits rule: quote_list.induct)
  case (2 v)
  then show ?case using split_words_quote [of "[]" v bits] by simp
next
  case (3 v w ws)
  then show ?case using split_words_quote [of "SP # quote_list (w # ws)" v bits] by simp
qed simp

lemma scan_indent_spaces:
  "s = [] \<or> hd s \<notin> {SP, TAB} \<Longrightarrow> scan_indent i (replicate n SP @ s) = (i + n, s)"
  by (induction n arbitrary: i) (cases s; auto)+

lemma quote_hd: "quote w \<noteq> [] \<and> hd (quote w) \<notin> {SP, TAB}"
proof (cases "need_quote w")
  case False
  from not_need_quote_plain [OF False] have "plain_char (hd w)" "w \<noteq> []" by auto
  with False show ?thesis by (auto simp: quote_def)
qed (simp add: quote_def)

text \<open>A directive written with its indentation is read back, words and indentation.\<close>

lemma split_written_line:
  "split (indent n @ quote_list (w # ws)) = Some (n, Inr (w # ws))"
proof -
  have "quote_list (w # ws) \<noteq> [] \<and> hd (quote_list (w # ws)) \<notin> {SP, TAB}"
    using quote_hd [of w] by (cases ws) (auto simp: hd_append)
  then have "scan_indent 0 (indent n @ quote_list (w # ws)) = (n, quote_list (w # ws))"
    using scan_indent_spaces [of "quote_list (w # ws)" 0 n] by (simp add: indent_def)
  then show ?thesis
    using split_words_quote_list [of "w # ws" "[]"] by (simp add: split_def)
qed

section \<open>toLines\<close>

text \<open>The loop over \<open>s.find('\n', pos)\<close>, on the rest of the string from \<open>pos\<close>.\<close>

function toLines :: "string \<Rightarrow> string list" where
  "toLines s =
     (if s = [] then []
      else if LF \<in> set s then takeWhile (\<lambda>c. c \<noteq> LF) s # toLines (drop 1 (dropWhile (\<lambda>c. c \<noteq> LF) s))
      else [s])"
  by pat_completeness auto
termination
  by (relation "measure length")
    (auto simp: less_Suc_eq_le intro: diff_less le_trans [OF diff_le_self length_dropWhile_le] dest: length_pos_if_in_set
      intro!: less_le_trans [OF diff_less length_dropWhile_le])

declare toLines.simps [simp del]

lemma toLines_Nil [simp]: "toLines [] = []"
  by (simp add: toLines.simps)

lemma toLines_line: "LF \<notin> set l \<Longrightarrow> toLines (l @ LF # s) = l # toLines s"
  by (subst toLines.simps) simp

lemma toLines_last: "LF \<notin> set l \<Longrightarrow> l \<noteq> [] \<Longrightarrow> toLines l = [l]"
  by (subst toLines.simps) simp

lemma toLines_unlines:
  "\<forall>l \<in> set ls. LF \<notin> set l \<Longrightarrow> toLines (concat (map (\<lambda>l. l @ [LF]) ls)) = ls"
  by (induction ls) (auto simp: toLines_line)

lemma toLines_no_newline: "l \<in> set (toLines s) \<Longrightarrow> LF \<notin> set l"
proof (induction s rule: toLines.induct)
  case (1 s)
  then show ?case by (auto simp: toLines.simps [of s] split: if_splits)
qed

lemma unlines_toLines:
  "concat (map (\<lambda>l. l @ [LF]) (toLines s)) = (if s = [] \<or> last s = LF then s else s @ [LF])"
proof (induction s rule: toLines.induct)
  case (1 s)
  consider "s = []" | "s \<noteq> []" "LF \<notin> set s" | (line) l r where "s = l @ LF # r" "LF \<notin> set l"
    by (metis split_list_first)
  then show ?case
  proof cases
    case 2
    then have "last s \<noteq> LF" by (metis last_in_set)
    with 2 show ?thesis by (simp add: toLines_last)
  next
    case line
    with 1 show ?thesis by (simp add: toLines_line)
  qed simp
qed

section \<open>substitute\<close>

text \<open>
  \<open>getenv\<close> is the parameter \<open>env\<close>; a name is cut at its first NUL by \<open>c_str\<close>.  The argument is
  the rest of the substring \<open>[pos, pos + n)\<close>, so a closing brace past its end is not found, which
  is the code's test \<open>e < l\<close>.
\<close>

definition c_str :: "string \<Rightarrow> string" where
  "c_str s = takeWhile (\<lambda>c. c \<noteq> CHR 0x00) s"

function subst_env :: "(string \<Rightarrow> string option) \<Rightarrow> string \<Rightarrow> string" where
  "subst_env env [] = []"
| "subst_env env (c # cs) =
     (if c = BACKSLASH then
        (case cs of [] \<Rightarrow> [c] | d # ds \<Rightarrow> d # subst_env env ds)
      else if c = CHR ''$'' \<and> cs \<noteq> [] \<and> hd cs = CHR ''{'' \<and> CHR ''}'' \<in> set cs then
        (case env (c_str (takeWhile (\<lambda>x. x \<noteq> CHR ''}'') (tl cs))) of
           Some v \<Rightarrow> v @ subst_env env (drop 1 (dropWhile (\<lambda>x. x \<noteq> CHR ''}'') cs))
         | None \<Rightarrow> c # subst_env env cs)
      else c # subst_env env cs)"
  by pat_completeness auto
termination
  by (relation "measure (\<lambda>(env, s). length s)")
    (auto intro: le_less_trans [OF diff_le_self] le_less_trans [OF length_dropWhile_le])

definition substitute :: "(string \<Rightarrow> string option) \<Rightarrow> string \<Rightarrow> nat \<Rightarrow> nat \<Rightarrow> string" where
  "substitute env s pos n =
     (let pos' = min (length s) pos; n' = min n (length s - pos')
      in subst_env env (take n' (drop pos' s)))"

text \<open>Escaping every backslash and dollar sign protects a text from substitution.\<close>

definition escape_subst :: "string \<Rightarrow> string" where
  "escape_subst s =
     concat (map (\<lambda>c. if c = BACKSLASH \<or> c = CHR ''$'' then [BACKSLASH, c] else [c]) s)"

lemma subst_env_escape: "subst_env env (escape_subst s @ rest) = s @ subst_env env rest"
  by (induction s) (auto simp: escape_subst_def)

lemma subst_env_variable:
  assumes "CHR ''}'' \<notin> set name" "CHR 0x00 \<notin> set name"
  shows "subst_env env (''${'' @ name @ ''}'' @ rest) =
    (case env name of Some v \<Rightarrow> v @ subst_env env rest
     | None \<Rightarrow> CHR ''$'' # subst_env env (''{'' @ name @ ''}'' @ rest))"
proof -
  have "takeWhile (\<lambda>x. x \<noteq> CHR ''}'') (name @ CHR ''}'' # rest) = name"
    "dropWhile (\<lambda>x. x \<noteq> CHR ''}'') (name @ CHR ''}'' # rest) = CHR ''}'' # rest"
    using assms(1) by simp_all
  then show ?thesis
    using assms(2) by (simp add: c_str_def split: option.splits)
qed

lemma subst_env_plain: "\<forall>c \<in> set s. c \<noteq> BACKSLASH \<and> c \<noteq> CHR ''$'' \<Longrightarrow> subst_env env s = s"
  by (induction s) auto

end
