(* ===== verification/ConfTypes.thy ===== *)
theory ConfTypes
  imports OrdMap ConfText Complex_Main
begin

text \<open>
  The program's data: \<^verbatim>\<open>src/Location.h\<close>, \<^verbatim>\<open>src/ConfBase.h\<close> (\<open>PolicyParameter\<close>, \<open>ConfBase\<close>),
  \<^verbatim>\<open>src/Backup.h\<close>, \<^verbatim>\<open>src/Volume.h\<close>, \<^verbatim>\<open>src/Host.h\<close>, \<^verbatim>\<open>src/Device.h\<close>, \<^verbatim>\<open>src/Store.h\<close>,
  \<^verbatim>\<open>src/Color.h\<close> and \<^verbatim>\<open>src/Conf.h\<close>, with the lookups and the inheriting constructors.

  The objects the code links by pointers form a tree here: a configuration holds its hosts, a host
  its volumes, a volume its backups, each in the order of the code's container.  A parent pointer is
  the enclosing value, passed where it is used; a \<open>Backup *\<close> is the backup's address \<open>b_addr\<close>; the
  pointers between a device and its store are names and paths.  A \<open>double\<close> is a real number.
\<close>

section \<open>Locations, policy parameters and inherited settings\<close>

record location =
  loc_path :: string
  loc_line :: int

definition no_location :: location where
  "no_location = \<lparr>loc_path = [], loc_line = -1\<rparr>"

record policy_parameter =
  pp_value :: string
  pp_location :: location

type_synonym parameters = "(string \<times> policy_parameter) list"

abbreviation str_less :: "string \<Rightarrow> string \<Rightarrow> bool" where
  "str_less \<equiv> (<)"

record conf_base =
  maxAge :: int
  backupPolicy :: string
  backupParameters :: parameters
  prunePolicy :: string
  pruneParameters :: parameters
  preVolume :: "string list"
  postVolume :: "string list"
  backupJobTimeout :: int
  rsyncIOTimeout :: int
  rsyncCommand :: string
  rsyncBaseOptions :: "string list"
  rsyncExtraOptions :: "string list"
  rsyncRemote :: string
  rsyncLinkDest :: bool
  sshTimeout :: int
  hookTimeout :: int
  hostCheck :: "string list"
  devicePattern :: string
  earliest :: int
  latest :: int
  group :: string

text \<open>The member initialisers, and \<open>Conf::Conf\<close> for \<open>hostCheck\<close>.\<close>

definition conf_base_default :: conf_base where
  "conf_base_default =
     \<lparr>maxAge = 3 * 86400, backupPolicy = ''daily'', backupParameters = [], prunePolicy = ''age'',
      pruneParameters = [], preVolume = [], postVolume = [], backupJobTimeout = 0, rsyncIOTimeout = 0,
      rsyncCommand = ''rsync'',
      rsyncBaseOptions = [''--archive'', ''--sparse'', ''--numeric-ids'', ''--compress'', ''--fuzzy'',
        ''--hard-links'', ''--delete'', ''--stats'', ''--no-human-readable''],
      rsyncExtraOptions = [''--xattrs'', ''--acls'', ''--open-noatime''],
      rsyncRemote = [], rsyncLinkDest = True, sshTimeout = 60, hookTimeout = 0, hostCheck = [],
      devicePattern = ''*'', earliest = 0, latest = 86400, group = []\<rparr>"

text \<open>The constructor from a parent copies every setting.\<close>

definition conf_base_inherit :: "'a conf_base_scheme \<Rightarrow> conf_base" where
  "conf_base_inherit parent =
     \<lparr>maxAge = maxAge parent, backupPolicy = backupPolicy parent,
      backupParameters = backupParameters parent, prunePolicy = prunePolicy parent,
      pruneParameters = pruneParameters parent, preVolume = preVolume parent,
      postVolume = postVolume parent, backupJobTimeout = backupJobTimeout parent,
      rsyncIOTimeout = rsyncIOTimeout parent, rsyncCommand = rsyncCommand parent,
      rsyncBaseOptions = rsyncBaseOptions parent, rsyncExtraOptions = rsyncExtraOptions parent,
      rsyncRemote = rsyncRemote parent, rsyncLinkDest = rsyncLinkDest parent,
      sshTimeout = sshTimeout parent, hookTimeout = hookTimeout parent, hostCheck = hostCheck parent,
      devicePattern = devicePattern parent, earliest = earliest parent, latest = latest parent,
      group = group parent\<rparr>"

section \<open>Backups\<close>

datatype backup_status = UNKNOWN | UNDERWAY | COMPLETE | FAILED | PRUNING | PRUNED

definition backup_status_name :: "backup_status \<Rightarrow> string" where
  "backup_status_name s =
     (case s of UNKNOWN \<Rightarrow> ''unknown'' | UNDERWAY \<Rightarrow> ''underway'' | COMPLETE \<Rightarrow> ''complete''
      | FAILED \<Rightarrow> ''failed'' | PRUNING \<Rightarrow> ''pruning'' | PRUNED \<Rightarrow> ''pruned'')"

definition status_number :: "backup_status \<Rightarrow> int" where
  "status_number s =
     (case s of UNKNOWN \<Rightarrow> 0 | UNDERWAY \<Rightarrow> 1 | COMPLETE \<Rightarrow> 2 | FAILED \<Rightarrow> 3 | PRUNING \<Rightarrow> 4 | PRUNED \<Rightarrow> 5)"

record backup =
  b_addr :: nat
  b_status :: backup_status
  b_waitStatus :: int
  b_id :: string
  b_time :: int
  b_finishTime :: int
  b_pruned :: int
  b_deviceName :: string
  b_contents :: string

text \<open>\<open>Backup::operator<\<close>: the difference of the two \<open>time_t\<close>s is stored in an \<open>int\<close>.\<close>

definition backup_less :: "backup \<Rightarrow> backup \<Rightarrow> bool" where
  "backup_less a b =
     (let c = to_int32 (b_time a - b_time b)
      in if c \<noteq> 0 then c < 0
         else if b_deviceName a \<noteq> b_deviceName b then b_deviceName a < b_deviceName b
         else False)"

section \<open>Volumes and hosts\<close>

record per_device =
  pd_count :: int
  pd_oldest :: int
  pd_newest :: int
  pd_size :: int

datatype selection_purpose = PurposeBackup | PurposePrune | PurposeGraph

record volume = conf_base +
  v_name :: string
  v_path :: string
  v_exclude :: "string list"
  v_traverse :: bool
  v_checkFile :: string
  v_checkMounted :: bool
  v_backups :: "backup list"
  v_completed :: int
  v_oldest :: int
  v_newest :: int
  v_perDevice :: "(string \<times> per_device) list"
  v_selected :: "selection_purpose list"

record host = conf_base +
  h_name :: string
  h_volumes :: "(string \<times> volume) list"
  h_user :: string
  h_hostname :: string
  h_priority :: int
  h_unknownVolumes :: "(string \<times> string) list"

definition valid_name :: "char list \<Rightarrow> string \<Rightarrow> bool" where
  "valid_name extra name \<longleftrightarrow>
     name \<noteq> [] \<and> hd name \<noteq> CHR ''-'' \<and> list_all (\<lambda>c. c_isalnum c \<or> c \<in> set extra) name"

definition volume_valid :: "string \<Rightarrow> bool" where
  "volume_valid = valid_name ''_.''"

definition host_valid :: "string \<Rightarrow> bool" where
  "host_valid = valid_name ''.-''"

definition device_valid :: "string \<Rightarrow> bool" where
  "device_valid = valid_name ''_.''"

definition new_volume :: "host \<Rightarrow> string \<Rightarrow> string \<Rightarrow> volume" where
  "new_volume h name path =
     conf_base.extend (conf_base_inherit h)
       \<lparr>v_name = name, v_path = path, v_exclude = [], v_traverse = False, v_checkFile = [],
        v_checkMounted = False, v_backups = [], v_completed = 0, v_oldest = 0, v_newest = 0,
        v_perDevice = [], v_selected = []\<rparr>"

definition volume_selected :: "volume \<Rightarrow> selection_purpose \<Rightarrow> bool" where
  "volume_selected v p \<longleftrightarrow> p \<in> set (v_selected v)"

definition volume_select :: "selection_purpose \<Rightarrow> bool \<Rightarrow> volume \<Rightarrow> volume" where
  "volume_select p sense v =
     v\<lparr>v_selected := (if sense then List.insert p (v_selected v) else removeAll p (v_selected v))\<rparr>"

definition addVolume :: "volume \<Rightarrow> host \<Rightarrow> host" where
  "addVolume v h = h\<lparr>h_volumes := om_put namelt (v_name v) v (h_volumes h)\<rparr>"

definition host_findVolume :: "string \<Rightarrow> host \<Rightarrow> volume option" where
  "host_findVolume n h = om_find namelt n (h_volumes h)"

definition host_selected :: "host \<Rightarrow> selection_purpose \<Rightarrow> bool" where
  "host_selected h p \<longleftrightarrow> list_ex (\<lambda>(_, v). volume_selected v p) (h_volumes h)"

definition userAndHost :: "host \<Rightarrow> string" where
  "userAndHost h = (if h_user h \<noteq> [] then h_user h @ ''@'' @ h_hostname h else h_hostname h)"

definition sshPrefix :: "host \<Rightarrow> string" where
  "sshPrefix h = (let s = userAndHost h in if s = ''localhost'' then [] else s @ '':'')"

section \<open>Devices and stores\<close>

record device =
  d_name :: string
  d_store :: "string option"

datatype store_state = Disabled | Enabled

record store =
  s_path :: string
  s_mounted :: bool
  s_device :: "string option"
  s_state :: store_state

definition new_device :: "string \<Rightarrow> device" where
  "new_device n = \<lparr>d_name = n, d_store = None\<rparr>"

definition new_store :: "string \<Rightarrow> bool \<Rightarrow> store" where
  "new_store path mounted = \<lparr>s_path = path, s_mounted = mounted, s_device = None, s_state = Enabled\<rparr>"

section \<open>Colours\<close>

record color =
  red :: real
  green :: real
  blue :: real

definition Color :: "real \<Rightarrow> real \<Rightarrow> real \<Rightarrow> color" where
  "Color r g b = \<lparr>red = r, green = g, blue = b\<rparr>"

definition color_component :: "int \<Rightarrow> nat \<Rightarrow> real" where
  "color_component n shift = of_int (n div 2 ^ shift mod 256) / 255"

definition color_of_rgb :: "int \<Rightarrow> color" where
  "color_of_rgb rgb = Color (color_component rgb 16) (color_component rgb 8) (color_component rgb 0)"

datatype color_strategy =
    EquidistantHue real real real
  | EquidistantValue real real real real

section \<open>The configuration\<close>

record conf = conf_base +
  c_hosts :: "(string \<times> host) list"
  c_stores :: "(string \<times> store) list"
  c_devices :: "(string \<times> device) list"
  c_maxUsage :: int
  c_maxFileUsage :: int
  c_publicStores :: bool
  c_logs :: string
  c_database :: string
  c_lock :: string
  c_keepPruneLogs :: int
  c_pruneTimeout :: int
  c_sendmail :: string
  c_rm :: string
  c_preDevice :: "string list"
  c_postDevice :: "string list"
  c_stylesheet :: string
  c_colorGood :: color
  c_colorBad :: color
  c_colorGraphForeground :: color
  c_colorGraphBackground :: color
  c_colorMonthGuide :: color
  c_colorHostGuide :: color
  c_colorVolumeGuide :: color
  c_horizontalPadding :: real
  c_verticalPadding :: real
  c_backupIndicatorWidth :: real
  c_backupIndicatorHeight :: real
  c_graphTargetWidth :: real
  c_backupIndicatorKeyWidth :: real
  c_deviceColorStrategy :: color_strategy
  c_hostNameFont :: string
  c_volumeNameFont :: string
  c_deviceNameFont :: string
  c_timeLabelFont :: string
  c_report :: "string list"
  c_graphLayout :: "string list"
  c_unknownDevices :: "string list"
  c_unknownHosts :: "(string \<times> string) list"
  c_unknownObjects :: int
  c_logsRead :: bool
  c_devicesIdentified :: "store_state list"

text \<open>\<open>sendmail_path\<close> is \<open>_PATH_SENDMAIL\<close> of the system's \<open>paths.h\<close>.\<close>

definition new_conf :: "string \<Rightarrow> conf" where
  "new_conf sendmail_path =
     conf_base.extend (conf_base_default\<lparr>hostCheck := [''ssh'']\<rparr>)
       \<lparr>c_hosts = [], c_stores = [], c_devices = [], c_maxUsage = 80, c_maxFileUsage = 80,
        c_publicStores = False, c_logs = ''/var/log/backup'', c_database = [], c_lock = [],
        c_keepPruneLogs = 31 * 86400, c_pruneTimeout = 0, c_sendmail = sendmail_path, c_rm = ''rm'',
        c_preDevice = [], c_postDevice = [], c_stylesheet = [],
        c_colorGood = color_of_rgb 0xE0FFE0, c_colorBad = color_of_rgb 0xFF4040,
        c_colorGraphForeground = Color 0 0 0, c_colorGraphBackground = Color 1 1 1,
        c_colorMonthGuide = Color (31/32) (31/32) (31/32), c_colorHostGuide = Color (7/8) (7/8) (7/8),
        c_colorVolumeGuide = Color (15/16) (15/16) (15/16),
        c_horizontalPadding = 8, c_verticalPadding = 2, c_backupIndicatorWidth = 4,
        c_backupIndicatorHeight = 2, c_graphTargetWidth = 0, c_backupIndicatorKeyWidth = 16,
        c_deviceColorStrategy = EquidistantValue 120 (3/4) 0 1,
        c_hostNameFont = ''Normal'', c_volumeNameFont = ''Normal'', c_deviceNameFont = ''Normal'',
        c_timeLabelFont = ''Normal'',
        c_report = [''title:Backup report (${RSBACKUP_DATE})'', ''h1:Backup report (${RSBACKUP_DATE})'',
          ''h2:Warnings?warnings'', ''warnings'', ''h2:Summary'', ''summary'', ''history-graph'',
          ''h2:Logfiles'', ''logs'', ''h3:Pruning logs'', ''prune-logs'', ''p:Generated ${RSBACKUP_CTIME}''],
        c_graphLayout = [''host-labels:0,0'', ''volume-labels:1,0'', ''content:2,0'', ''time-labels:2,1'',
          ''device-key:2,3:RC''],
        c_unknownDevices = [], c_unknownHosts = [], c_unknownObjects = 0, c_logsRead = False,
        c_devicesIdentified = []\<rparr>"

definition new_host :: "conf \<Rightarrow> string \<Rightarrow> host" where
  "new_host c name =
     conf_base.extend ((conf_base_inherit c)\<lparr>group := name\<rparr>)
       \<lparr>h_name = name, h_volumes = [], h_user = [], h_hostname = name, h_priority = 0,
        h_unknownVolumes = []\<rparr>"

definition addHost :: "host \<Rightarrow> conf \<Rightarrow> conf" where
  "addHost h c = c\<lparr>c_hosts := om_put namelt (h_name h) h (c_hosts c)\<rparr>"

definition findHost :: "string \<Rightarrow> conf \<Rightarrow> host option" where
  "findHost n c = om_find namelt n (c_hosts c)"

definition findVolume :: "string \<Rightarrow> string \<Rightarrow> conf \<Rightarrow> volume option" where
  "findVolume hn vn c = (case findHost hn c of None \<Rightarrow> None | Some h \<Rightarrow> host_findVolume vn h)"

definition findDevice :: "string \<Rightarrow> conf \<Rightarrow> device option" where
  "findDevice n c = om_find namelt n (c_devices c)"

definition findStore :: "string \<Rightarrow> conf \<Rightarrow> store option" where
  "findStore p c = om_find namelt p (c_stores c)"

text \<open>Updating a host, or a volume, in place.\<close>

definition update_host :: "string \<Rightarrow> (host \<Rightarrow> host) \<Rightarrow> conf \<Rightarrow> conf" where
  "update_host n f c = c\<lparr>c_hosts := om_update namelt n f (c_hosts c)\<rparr>"

definition update_volume :: "string \<Rightarrow> string \<Rightarrow> (volume \<Rightarrow> volume) \<Rightarrow> conf \<Rightarrow> conf" where
  "update_volume hn vn f =
     update_host hn (\<lambda>h. h\<lparr>h_volumes := om_update namelt vn f (h_volumes h)\<rparr>)"

end
