(* ===== verification/Subproc.thy ===== *)
theory Subproc
  imports ConfTypes
begin

text \<open>
  What the program makes of a child process: the wait status (\<open>WIFEXITED\<close> and its relatives as
  Linux lays it out), \<^verbatim>\<open>src/Subprocess.cc\<close>'s checks on it and its search of \<open>PATH\<close>, and
  \<open>Host::invoke\<close> of \<^verbatim>\<open>src/Host.cc\<close>, which runs a command on a host.  Running a child is the
  argument \<open>run\<close>: from the command to the wait status and the captured output.
\<close>

section \<open>Wait statuses\<close>

definition WTERMSIG :: "int \<Rightarrow> int" where
  "WTERMSIG s = s mod 128"

definition WIFEXITED :: "int \<Rightarrow> bool" where
  "WIFEXITED s \<longleftrightarrow> WTERMSIG s = 0"

definition WEXITSTATUS :: "int \<Rightarrow> int" where
  "WEXITSTATUS s = s div 256 mod 256"

definition WIFSIGNALED :: "int \<Rightarrow> bool" where
  "WIFSIGNALED s \<longleftrightarrow> WTERMSIG s \<noteq> 0 \<and> WTERMSIG s \<noteq> 127"

definition SIGPIPE :: int where "SIGPIPE = 13"
definition SIGTERM :: int where "SIGTERM = 15"

datatype wait_behavior = THROW_ON_ERROR | THROW_ON_CRASH | THROW_ON_SIGPIPE

text \<open>\<open>Subprocess::wait\<close>, from the status that the event loop delivered.\<close>

definition subprocess_wait :: "wait_behavior list \<Rightarrow> string \<Rightarrow> int \<Rightarrow> int result" where
  "subprocess_wait behavior name status =
     (if THROW_ON_ERROR \<in> set behavior \<and> WIFEXITED status \<and> WEXITSTATUS status \<noteq> 0
      then Inl (SubprocessFailed name status)
      else if THROW_ON_CRASH \<in> set behavior \<and> WIFSIGNALED status \<and> WTERMSIG status \<noteq> SIGPIPE
      then Inl (SubprocessFailed name status)
      else if THROW_ON_SIGPIPE \<in> set behavior \<and> WIFSIGNALED status \<and> WTERMSIG status = SIGPIPE
      then Inl (SubprocessFailed name status)
      else Inr status)"

text \<open>
  \<open>pathSearch\<close>: \<open>executable\<close> is \<open>access(p, X_OK) == 0\<close>.  The list is the rest of \<open>PATH\<close> from \<open>pos\<close>; a
  trailing colon adds no entry, and an empty entry gives the root directory.
\<close>

function path_search_loop :: "(string \<Rightarrow> bool) \<Rightarrow> string \<Rightarrow> string \<Rightarrow> string" where
  "path_search_loop executable name path =
     (if path = [] then []
      else let e = takeWhile (\<lambda>c. c \<noteq> CHR '':'') path; p = e @ ''/'' @ name
           in if executable p then p
              else case dropWhile (\<lambda>c. c \<noteq> CHR '':'') path of
                     [] \<Rightarrow> []
                   | _ # rest \<Rightarrow> path_search_loop executable name rest)"
  by pat_completeness auto
termination
proof (relation "measure (\<lambda>(_, _, path). length path)", goal_cases)
  case (2 executable name path e p c rest)
  then have "length (dropWhile (\<lambda>c. c \<noteq> CHR '':'') path) = Suc (length rest)" by simp
  then show ?case using length_dropWhile_le [of "\<lambda>c. c \<noteq> CHR '':''" path] by simp
qed simp

definition pathSearch :: "(string \<Rightarrow> bool) \<Rightarrow> string \<Rightarrow> string \<Rightarrow> string" where
  "pathSearch executable path name =
     (if CHR ''/'' \<in> set name then name else path_search_loop executable name path)"

section \<open>Commands on a host\<close>

definition host_command :: "host \<Rightarrow> string list \<Rightarrow> string list" where
  "host_command h args =
     (if h_hostname h \<noteq> ''localhost''
      then [''ssh''] @ (if 0 < sshTimeout h then [''-oConnectTimeout='' @ show_int (sshTimeout h)] else [])
        @ [userAndHost h]
      else []) @ args"

definition host_invoke ::
    "(string list \<Rightarrow> int \<times> string) \<Rightarrow> bool \<Rightarrow> host \<Rightarrow> string list \<Rightarrow> (int \<times> string) result" where
  "host_invoke run capture h args =
     (let cmd = host_command h args; (status, out) = run cmd
      in if capture
         then rbind (subprocess_wait [THROW_ON_ERROR, THROW_ON_CRASH] (hd cmd) status) (\<lambda>s. Inr (s, out))
         else rbind (subprocess_wait [THROW_ON_CRASH] (hd cmd) status) (\<lambda>s. Inr (s, [])))"

text \<open>\<open>hostCheck.at(0)\<close> throws \<open>std::out_of_range\<close>, a \<open>std::logic_error\<close>, on an empty vector.\<close>

definition host_available :: "(string list \<Rightarrow> int \<times> string) \<Rightarrow> host \<Rightarrow> bool result" where
  "host_available run h =
     (if h_hostname h = ''localhost'' then Inr True
      else case hostCheck h of
             [] \<Rightarrow> Inl (LogicError ''vector'')
           | kind # args \<Rightarrow>
               if kind = ''always-up'' then Inr True
               else if kind = ''ssh''
               then rbind (host_invoke run False h [''true'']) (\<lambda>(s, _). Inr (s = 0))
               else if kind = ''command''
               then (let cmd = args @ [h_hostname h]
                     in rbind (subprocess_wait [THROW_ON_CRASH, THROW_ON_SIGPIPE] (hd cmd) (fst (run cmd)))
                          (\<lambda>s. Inr (s = 0)))
               else Inl (LogicError (''invalid host-check for '' @ h_name h)))"

lemma subprocess_wait_ok:
  "subprocess_wait b n s = Inr t \<Longrightarrow>
   t = s \<and> (THROW_ON_ERROR \<in> set b \<and> THROW_ON_CRASH \<in> set b \<and> 0 \<le> s \<and> s < 65536 \<longrightarrow>
     s = 0 \<or> WTERMSIG s = SIGPIPE \<or> WTERMSIG s = 127 \<or> WIFEXITED s \<and> WEXITSTATUS s = 0)"
  by (auto simp: subprocess_wait_def WIFEXITED_def WIFSIGNALED_def split: if_splits)

end
