(* ===== verification/Volumes.thy ===== *)
theory Volumes
  imports Subproc
begin

text \<open>
  The backups of a volume: the rest of \<^verbatim>\<open>src/Backup.cc\<close> (\<open>getSize\<close>, \<open>setStatus\<close>) and
  \<^verbatim>\<open>src/Volume.cc\<close> (\<open>calculate\<close>, \<open>addBackup\<close>, \<open>removeBackup\<close>, the searches, \<open>available\<close>).
  The invariant \<open>volume_ok\<close> says that the set is ordered with one backup per time and device, and
  that the cached totals are those of the set (\<open>stats_ok\<close>); every operation keeps it.
\<close>

section \<open>The size in a log\<close>

definition size_match :: "string \<Rightarrow> string option" where
  "size_match s =
     (let p = ''Total file size: ''; r = drop (length p) s;
          digits = takeWhile (\<lambda>c. c_isdigit c \<or> c = CHR '','') r;
          rest = dropWhile (\<lambda>c. c_isdigit c \<or> c = CHR '','') r
      in if take (length p) s = p \<and> digits \<noteq> [] \<and> take 6 rest = '' bytes'' then Some digits else None)"

fun size_search :: "string \<Rightarrow> string option" where
  "size_search [] = None"
| "size_search (c # cs) = (case size_match (c # cs) of Some d \<Rightarrow> Some d | None \<Rightarrow> size_search cs)"

definition getSize :: "backup \<Rightarrow> int" where
  "getSize b =
     (case size_search (b_contents b) of
        None \<Rightarrow> -1
      | Some d \<Rightarrow> (case parseInteger (filter c_isdigit d) 0 LLONG_MAX 0 of Inl _ \<Rightarrow> -1 | Inr n \<Rightarrow> n))"

section \<open>Totals\<close>

definition new_per_device :: per_device where
  "new_per_device = \<lparr>pd_count = 0, pd_oldest = 0, pd_newest = 0, pd_size = 0\<rparr>"

text \<open>One pass of the first loop of \<open>calculate\<close> for a complete backup: the device's figures.\<close>

definition count_on_device :: "backup \<Rightarrow> per_device \<Rightarrow> per_device" where
  "count_on_device b pd =
     (let pd = pd\<lparr>pd_count := pd_count pd + 1\<rparr>;
          pd = (if pd_count pd = 1 \<or> b_time b < pd_oldest pd then pd\<lparr>pd_oldest := b_time b\<rparr> else pd)
      in if pd_count pd = 1 \<or> pd_newest pd < b_time b
         then pd\<lparr>pd_newest := b_time b, pd_size := getSize b\<rparr> else pd)"

definition count_backup :: "volume \<Rightarrow> backup \<Rightarrow> volume" where
  "count_backup v b =
     (if b_status b = COMPLETE
      then let v = v\<lparr>v_completed := v_completed v + 1\<rparr>;
               v = (if v_completed v = 1 \<or> b_time b < v_oldest v then v\<lparr>v_oldest := b_time b\<rparr> else v);
               v = (if v_completed v = 1 \<or> v_newest v < b_time b then v\<lparr>v_newest := b_time b\<rparr> else v);
               pd = (case om_find str_less (b_deviceName b) (v_perDevice v) of
                       None \<Rightarrow> new_per_device | Some pd \<Rightarrow> pd)
           in v\<lparr>v_perDevice := om_put str_less (b_deviceName b) (count_on_device b pd) (v_perDevice v)\<rparr>
      else v)"

definition calculate :: "volume \<Rightarrow> volume" where
  "calculate v =
     (let v = v\<lparr>v_completed := 0, v_perDevice := om_map_values (\<lambda>pd. pd\<lparr>pd_count := 0\<rparr>) (v_perDevice v)\<rparr>;
          v = foldl count_backup v (v_backups v)
      in v\<lparr>v_perDevice := filter (\<lambda>(_, pd). pd_count pd \<noteq> 0) (v_perDevice v)\<rparr>)"

section \<open>Operations\<close>

definition addBackup :: "backup \<Rightarrow> volume \<Rightarrow> bool \<times> volume" where
  "addBackup b v =
     (let (bs, inserted) = os_insert backup_less b (v_backups v); v = v\<lparr>v_backups := bs\<rparr>
      in (inserted, if inserted then calculate v else v))"

fun erase_addr :: "nat \<Rightarrow> backup list \<Rightarrow> backup list option" where
  "erase_addr a [] = None"
| "erase_addr a (b # bs) = (if b_addr b = a then Some bs else map_option (Cons b) (erase_addr a bs))"

definition removeBackup :: "nat \<Rightarrow> volume \<Rightarrow> bool \<times> volume" where
  "removeBackup a v =
     (case erase_addr a (v_backups v) of
        None \<Rightarrow> (False, v)
      | Some bs \<Rightarrow> (True, calculate (v\<lparr>v_backups := bs\<rparr>)))"

text \<open>Changing a member of a backup through its pointer.\<close>

definition update_backup :: "nat \<Rightarrow> (backup \<Rightarrow> backup) \<Rightarrow> volume \<Rightarrow> volume" where
  "update_backup a f v = v\<lparr>v_backups := map (\<lambda>b. if b_addr b = a then f b else b) (v_backups v)\<rparr>"

definition setStatus :: "nat \<Rightarrow> backup_status \<Rightarrow> volume \<Rightarrow> volume" where
  "setStatus a n v =
     (if \<exists>b \<in> set (v_backups v). b_addr b = a \<and> b_status b \<noteq> n
      then calculate (update_backup a (\<lambda>b. b\<lparr>b_status := n\<rparr>) v)
      else v)"

text \<open>\<open>device\<close> is the name of the device, \<open>None\<close> for the null pointer; \<open>devices\<close> are the configured ones.\<close>

definition on_device :: "(string \<times> device) list \<Rightarrow> string option \<Rightarrow> backup \<Rightarrow> bool" where
  "on_device devices d b =
     (case d of None \<Rightarrow> True
      | Some n \<Rightarrow> b_deviceName b = n \<and> om_find namelt n devices \<noteq> None)"

definition later_backup :: "(backup \<Rightarrow> bool) \<Rightarrow> backup option \<Rightarrow> backup \<Rightarrow> backup option" where
  "later_backup P r b =
     (if P b then (case r of None \<Rightarrow> Some b | Some c \<Rightarrow> if backup_less c b then Some b else r) else r)"

definition mostRecentBackup :: "(string \<times> device) list \<Rightarrow> string option \<Rightarrow> volume \<Rightarrow> backup option" where
  "mostRecentBackup devices d v = foldl (later_backup (on_device devices d)) None (v_backups v)"

definition failed_status :: "backup_status \<Rightarrow> bool" where
  "failed_status s = (case s of COMPLETE \<Rightarrow> False | PRUNING \<Rightarrow> False | PRUNED \<Rightarrow> False | _ \<Rightarrow> True)"

definition mostRecentFailedBackup :: "(string \<times> device) list \<Rightarrow> string option \<Rightarrow> volume \<Rightarrow> backup option" where
  "mostRecentFailedBackup devices d v =
     foldl (later_backup (\<lambda>b. on_device devices d b \<and> failed_status (b_status b))) None (v_backups v)"

definition volume_available :: "(string list \<Rightarrow> int \<times> string) \<Rightarrow> host \<Rightarrow> volume \<Rightarrow> bool result" where
  "volume_available run h v =
     rbind
       (if v_checkMounted v
        then rbind (host_invoke run True h [''uname'', ''-s'']) (\<lambda>(s, os).
               if s \<noteq> 0 then Inr False
               else let opt = (if os = ''Darwin'' \<or> 3 \<le> length os \<and> drop (length os - 3) os = ''BSD''
                               then ''-f'' else ''-c'')
                    in rbind (host_invoke run True h
                         [''stat'', opt, ''%d'', v_path v, v_path v @ ''/..'']) (\<lambda>(s, stats).
                           if s \<noteq> 0 then Inr False
                           else let lines = toLines stats
                                in Inr (length lines = 2 \<and> lines ! 0 \<noteq> [] \<and> lines ! 1 \<noteq> [] \<and> lines ! 0 \<noteq> lines ! 1)))
        else Inr True)
       (\<lambda>mounted.
          if \<not> mounted then Inr False
          else if v_checkFile v \<noteq> []
          then let file = (if hd (v_checkFile v) = CHR ''/'' then v_checkFile v else v_path v @ ''/'' @ v_checkFile v)
               in rbind (host_invoke run False h [''test'', ''-e'', file]) (\<lambda>(s, _). Inr (s = 0))
          else Inr True)"

section \<open>The set of backups\<close>

definition backup_key :: "backup \<Rightarrow> int \<times> string" where
  "backup_key b = (b_time b, b_deviceName b)"

abbreviation time_ok :: "int \<times> string \<Rightarrow> bool" where
  "time_ok k \<equiv> 0 \<le> fst k \<and> fst k \<le> INT_MAX"

lemma backup_less_key:
  "time_ok (backup_key a) \<Longrightarrow> time_ok (backup_key b) \<Longrightarrow> backup_less a b \<longleftrightarrow> backup_key a < backup_key b"
  by (auto simp: backup_less_def backup_key_def Let_def limits)

interpretation backup_set: keyed_set "(<) :: int \<times> string \<Rightarrow> int \<times> string \<Rightarrow> bool" time_ok backup_less backup_key
proof unfold_locales
  show "\<And>a b. time_ok a \<Longrightarrow> time_ok b \<Longrightarrow> a \<noteq> b \<Longrightarrow> a < b \<or> b < a" by fastforce
qed (auto simp: backup_less_key)

definition backups_of :: "string \<Rightarrow> backup list \<Rightarrow> backup list" where
  "backups_of d bs = filter (\<lambda>b. b_status b = COMPLETE \<and> b_deviceName b = d) bs"

definition completed_backups :: "backup list \<Rightarrow> backup list" where
  "completed_backups bs = filter (\<lambda>b. b_status b = COMPLETE) bs"

text \<open>The figures of a device are those of the list of its complete backups.\<close>

definition device_figures :: "backup list \<Rightarrow> per_device \<Rightarrow> bool" where
  "device_figures xs pd \<longleftrightarrow> pd_count pd = int (length xs) \<and>
     (xs \<noteq> [] \<longrightarrow> pd_oldest pd = Min (b_time ` set xs) \<and> pd_newest pd = Max (b_time ` set xs) \<and>
       (\<exists>b \<in> set xs. b_time b = pd_newest pd \<and> pd_size pd = getSize b))"

definition stats_ok :: "volume \<Rightarrow> bool" where
  "stats_ok v \<longleftrightarrow>
     (let bs = v_backups v; done = completed_backups bs
      in v_completed v = int (length done) \<and>
         (done \<noteq> [] \<longrightarrow> v_oldest v = Min (b_time ` set done) \<and> v_newest v = Max (b_time ` set done)) \<and>
         string_order.sorted_keys (v_perDevice v) \<and>
         (\<forall>d. case om_find str_less d (v_perDevice v) of
                None \<Rightarrow> backups_of d bs = []
              | Some pd \<Rightarrow> backups_of d bs \<noteq> [] \<and> device_figures (backups_of d bs) pd))"

definition volume_ok :: "volume \<Rightarrow> bool" where
  "volume_ok v \<longleftrightarrow> backup_set.by_key (v_backups v) \<and> stats_ok v"

section \<open>The totals are those of the set\<close>

definition partial_stats :: "backup list \<Rightarrow> volume \<Rightarrow> bool" where
  "partial_stats bs v \<longleftrightarrow>
     v_completed v = int (length (completed_backups bs)) \<and>
     (completed_backups bs \<noteq> [] \<longrightarrow> v_oldest v = Min (b_time ` set (completed_backups bs)) \<and>
        v_newest v = Max (b_time ` set (completed_backups bs))) \<and>
     string_order.sorted_keys (v_perDevice v) \<and>
     (\<forall>d. device_figures (backups_of d bs)
            (case om_find str_less d (v_perDevice v) of None \<Rightarrow> new_per_device | Some pd \<Rightarrow> pd))"

lemma min_max_if: "min a b = (if a < b then a else b)" "max a b = (if b < a then a else b)"
  for a b :: "'a::linorder" by (auto simp: min_def max_def)

lemma Min_snoc:
  fixes f :: "'a \<Rightarrow> 'b::linorder"
  assumes "xs \<noteq> []"
  shows "Min (f ` set (xs @ [x])) = (if f x < Min (f ` set xs) then f x else Min (f ` set xs))"
    "Max (f ` set (xs @ [x])) = (if Max (f ` set xs) < f x then f x else Max (f ` set xs))"
proof -
  have "Min (f ` set (xs @ [x])) = min (f x) (Min (f ` set xs))"
    "Max (f ` set (xs @ [x])) = max (f x) (Max (f ` set xs))" using assms by simp_all
  then show "Min (f ` set (xs @ [x])) = (if f x < Min (f ` set xs) then f x else Min (f ` set xs))"
    "Max (f ` set (xs @ [x])) = (if Max (f ` set xs) < f x then f x else Max (f ` set xs))"
    by (simp_all only: min_max_if)
qed

lemma count_on_device_figures:
  assumes "device_figures xs pd"
  shows "device_figures (xs @ [b]) (count_on_device b pd)"
proof (cases "xs = []")
  case False
  with assms have pd: "pd_count pd = int (length xs)" "pd_oldest pd = Min (b_time ` set xs)"
    "pd_newest pd = Max (b_time ` set xs)" by (auto simp: device_figures_def)
  from assms False obtain c where c: "c \<in> set xs" "b_time c = pd_newest pd" "pd_size pd = getSize c"
    by (auto simp: device_figures_def)
  let ?pd = "count_on_device b pd"
  have n: "\<not> pd_count pd + 1 = 1" using pd(1) False by simp
  have "pd_count ?pd = pd_count pd + 1"
    "pd_oldest ?pd = (if b_time b < pd_oldest pd then b_time b else pd_oldest pd)"
    "pd_newest ?pd = (if pd_newest pd < b_time b then b_time b else pd_newest pd)"
    "pd_size ?pd = (if pd_newest pd < b_time b then getSize b else pd_size pd)"
    using n by (simp_all add: count_on_device_def Let_def)
  moreover from this have "\<exists>b \<in> set (xs @ [b]). b_time b = pd_newest ?pd \<and> pd_size ?pd = getSize b"
    using c by (cases "pd_newest pd < b_time b") auto
  ultimately show ?thesis
    unfolding device_figures_def Min_snoc [OF False] using pd by simp
qed (use assms in \<open>simp add: device_figures_def count_on_device_def Let_def\<close>)

lemma backups_of_snoc [simp]:
  "backups_of d (bs @ [b]) =
     (if b_status b = COMPLETE \<and> b_deviceName b = d then backups_of d bs @ [b] else backups_of d bs)"
  by (simp add: backups_of_def)

lemma completed_backups_snoc [simp]:
  "completed_backups (bs @ [b]) =
     (if b_status b = COMPLETE then completed_backups bs @ [b] else completed_backups bs)"
  by (simp add: completed_backups_def)

lemma count_backup_stats:
  assumes "partial_stats bs v"
  shows "partial_stats (bs @ [b]) (count_backup v b)"
proof (cases "b_status b = COMPLETE")
  case True
  let ?d = "b_deviceName b" and ?cs = "completed_backups bs"
  let ?pd = "case om_find str_less ?d (v_perDevice v) of None \<Rightarrow> new_per_device | Some pd \<Rightarrow> pd"
  have sorted: "string_order.sorted_keys (v_perDevice v)" using assms by (simp add: partial_stats_def)
  have figs: "device_figures (backups_of d bs)
      (case om_find str_less d (v_perDevice v) of None \<Rightarrow> new_per_device | Some pd \<Rightarrow> pd)" for d
    using assms by (simp add: partial_stats_def)
  have per: "v_perDevice (count_backup v b) = om_put str_less ?d (count_on_device b ?pd) (v_perDevice v)"
    and comp: "v_completed (count_backup v b) = v_completed v + 1"
    and old: "v_oldest (count_backup v b) = (if v_completed v = 0 \<or> b_time b < v_oldest v then b_time b else v_oldest v)"
    and new: "v_newest (count_backup v b) = (if v_completed v = 0 \<or> v_newest v < b_time b then b_time b else v_newest v)"
    using True by (simp_all add: count_backup_def Let_def)
  have "device_figures (backups_of d (bs @ [b]))
      (case om_find str_less d (v_perDevice (count_backup v b)) of None \<Rightarrow> new_per_device | Some pd \<Rightarrow> pd)" for d
    using figs [of d] count_on_device_figures [OF figs [of ?d], of b] True
    by (auto simp: per string_order.om_find_put [OF sorted])
  moreover have "string_order.sorted_keys (v_perDevice (count_backup v b))"
    by (simp add: per string_order.sorted_om_put [OF sorted])
  moreover have "v_oldest (count_backup v b) = Min (b_time ` set (?cs @ [b]))"
    "v_newest (count_backup v b) = Max (b_time ` set (?cs @ [b]))"
    unfolding old new using assms by (cases "?cs = []"; simp add: partial_stats_def Min_snoc del: set_append)+
  ultimately show ?thesis
    using True assms by (simp add: partial_stats_def comp)
qed (use assms in \<open>auto simp: count_backup_def partial_stats_def\<close>)

lemma count_backups_stats: "partial_stats [] v \<Longrightarrow> partial_stats bs (foldl count_backup v bs)"
  by (induction bs rule: rev_induct) (auto intro: count_backup_stats)

lemma count_backup_fields [simp]:
  "v_backups (count_backup v b) = v_backups v" "conf_base.truncate (count_backup v b) = conf_base.truncate v"
  "v_name (count_backup v b) = v_name v"
  by (simp_all add: count_backup_def Let_def conf_base.truncate_def)

lemma v_backups_count [simp]: "v_backups (foldl count_backup v bs) = v_backups v"
  by (induction bs arbitrary: v) auto

lemma v_backups_calculate [simp]: "v_backups (calculate v) = v_backups v"
  by (simp add: calculate_def Let_def)

lemma om_find_filter:
  assumes "string_order.sorted_keys m"
  shows "om_find str_less d (filter (\<lambda>(_, v). P v) m) =
    (case om_find str_less d m of None \<Rightarrow> None | Some v \<Rightarrow> if P v then Some v else None)"
    "string_order.sorted_keys (filter (\<lambda>(_, v). P v) m)"
proof -
  show 2: "string_order.sorted_keys (filter (\<lambda>(_, v). P v) m)"
    using assms by (induction m) auto
  have "distinct (map fst m)"
    using assms by (induction m) (auto simp: image_iff)
  then show "om_find str_less d (filter (\<lambda>(_, v). P v) m) =
    (case om_find str_less d m of None \<Rightarrow> None | Some v \<Rightarrow> if P v then Some v else None)"
    unfolding string_order.om_find_map_of [OF 2 TrueI] string_order.om_find_map_of [OF assms TrueI]
    by (induction m) (auto split: option.splits simp: map_of_eq_None_iff image_iff)
qed

lemma sorted_om_map_values [simp]:
  "string_order.sorted_keys (om_map_values f m) \<longleftrightarrow> string_order.sorted_keys m"
  by (simp add: string_order.sorted_keys_def)

lemma calculate_stats:
  assumes "string_order.sorted_keys (v_perDevice v)"
  shows "stats_ok (calculate v)"
proof -
  let ?init = "v\<lparr>v_completed := 0, v_perDevice := om_map_values (\<lambda>pd. pd\<lparr>pd_count := 0\<rparr>) (v_perDevice v)\<rparr>"
  let ?fin = "foldl count_backup ?init (v_backups v)"
  have "partial_stats [] ?init"
    using assms by (auto simp: partial_stats_def completed_backups_def backups_of_def device_figures_def
        new_per_device_def split: option.splits)
  then have p: "partial_stats (v_backups v) ?fin" by (rule count_backups_stats)
  then have s: "string_order.sorted_keys (v_perDevice ?fin)" by (simp add: partial_stats_def)
  have c: "calculate v = ?fin\<lparr>v_perDevice := filter (\<lambda>(_, pd). pd_count pd \<noteq> 0) (v_perDevice ?fin)\<rparr>"
    by (simp add: calculate_def Let_def)
  have "case om_find str_less d (v_perDevice (calculate v)) of
                None \<Rightarrow> backups_of d (v_backups v) = []
              | Some pd \<Rightarrow> backups_of d (v_backups v) \<noteq> [] \<and> device_figures (backups_of d (v_backups v)) pd" for d
  proof -
    have "device_figures (backups_of d (v_backups v))
        (case om_find str_less d (v_perDevice ?fin) of None \<Rightarrow> new_per_device | Some pd \<Rightarrow> pd)"
      using p by (simp add: partial_stats_def)
    then show ?thesis
      by (auto simp: c om_find_filter(1) [OF s, where P = "\<lambda>pd. pd_count pd \<noteq> 0"] device_figures_def new_per_device_def
          split: option.splits)
  qed
  then show ?thesis
    using p om_find_filter(2) [OF s, of "\<lambda>pd. pd_count pd \<noteq> 0"]
    unfolding stats_ok_def Let_def partial_stats_def v_backups_calculate by (simp add: c)
qed

section \<open>Every operation keeps the invariant\<close>

lemma calculate_ok:
  "backup_set.by_key (v_backups v) \<Longrightarrow> string_order.sorted_keys (v_perDevice v) \<Longrightarrow> volume_ok (calculate v)"
  by (simp add: volume_ok_def calculate_stats)

lemma volume_okD:
  assumes "volume_ok v"
  shows "backup_set.by_key (v_backups v)" "stats_ok v" "string_order.sorted_keys (v_perDevice v)"
  using assms by (simp_all add: volume_ok_def stats_ok_def Let_def)

lemma erase_addr_Some:
  "erase_addr a bs = Some bs' \<Longrightarrow> \<exists>xs b ys. bs = xs @ b # ys \<and> bs' = xs @ ys \<and> b_addr b = a"
proof (induction bs arbitrary: bs')
  case (Cons b bs)
  show ?case
  proof (cases "b_addr b = a")
    case False
    with Cons.prems obtain cs where cs: "erase_addr a bs = Some cs" "bs' = b # cs" by auto
    from Cons.IH [OF cs(1)] cs(2) show ?thesis by (metis append_Cons)
  qed (use Cons.prems in \<open>force intro: exI [of _ "[]"]\<close>)
qed simp

lemma volume_ok_addBackup:
  assumes "volume_ok v" "time_ok (backup_key b)"
  shows "volume_ok (snd (addBackup b v))"
    and "fst (addBackup b v) \<longleftrightarrow> backup_key b \<notin> backup_key ` set (v_backups v)"
    and "set (v_backups (snd (addBackup b v))) =
      (if backup_key b \<in> backup_key ` set (v_backups v) then set (v_backups v) else insert b (set (v_backups v)))"
proof -
  note k = volume_okD [OF assms(1)]
  note i = backup_set.insert_by_key [OF k(1) assms(2)] backup_set.insert_flag [OF k(1) assms(2)]
    backup_set.insert_elements [OF k(1) assms(2)]
  show "fst (addBackup b v) \<longleftrightarrow> backup_key b \<notin> backup_key ` set (v_backups v)"
    "set (v_backups (snd (addBackup b v))) =
      (if backup_key b \<in> backup_key ` set (v_backups v) then set (v_backups v) else insert b (set (v_backups v)))"
    using i by (simp_all add: addBackup_def split_beta Let_def)
  show "volume_ok (snd (addBackup b v))"
  proof (cases "snd (os_insert backup_less b (v_backups v))")
    case True
    then show ?thesis using i(1) k(3) by (simp add: addBackup_def split_beta calculate_ok Let_def)
  next
    case False
    then have "fst (os_insert backup_less b (v_backups v)) = v_backups v" by (rule os_insert_unchanged)
    then show ?thesis using False assms(1) by (simp add: addBackup_def split_beta Let_def)
  qed
qed

lemma volume_ok_removeBackup:
  assumes "volume_ok v"
  shows "volume_ok (snd (removeBackup a v))"
proof (cases "erase_addr a (v_backups v)")
  case (Some bs)
  then obtain xs b ys where "v_backups v = xs @ b # ys" "bs = xs @ ys" using erase_addr_Some by blast
  then have "backup_set.by_key bs"
    using volume_okD(1) [OF assms]
    by (auto simp: backup_set.by_key_def backup_set.sorted_set_def sorted_wrt_append)
  then show ?thesis using Some volume_okD(3) [OF assms] by (simp add: removeBackup_def calculate_ok)
qed (use assms in \<open>simp add: removeBackup_def\<close>)

lemma by_key_update_backup:
  "(\<And>b. backup_key (f b) = backup_key b) \<Longrightarrow>
   backup_set.by_key (v_backups (update_backup a f v)) \<longleftrightarrow> backup_set.by_key (v_backups v)"
  by (simp add: update_backup_def backup_set.by_key_map)

lemma volume_ok_setStatus: "volume_ok v \<Longrightarrow> volume_ok (setStatus a n v)"
  using volume_okD [of v] by_key_update_backup [of "\<lambda>b. b\<lparr>b_status := n\<rparr>" a v]
  by (auto simp: setStatus_def backup_key_def update_backup_def intro!: calculate_ok)

lemma mostRecentBackup_last:
  "mostRecentBackup devices d v = backup_set.last_where (on_device devices d) (v_backups v)"
  "mostRecentFailedBackup devices d v =
     backup_set.last_where (\<lambda>b. on_device devices d b \<and> failed_status (b_status b)) (v_backups v)"
  by (simp_all add: mostRecentBackup_def mostRecentFailedBackup_def backup_set.last_where_def
      later_backup_def [abs_def])

section \<open>What the callers rely on\<close>


definition sample_backup :: "nat \<Rightarrow> int \<Rightarrow> string \<Rightarrow> backup" where
  "sample_backup a t d = \<lparr>b_addr = a, b_status = COMPLETE, b_waitStatus = 0, b_id = ''x'', b_time = t,
     b_finishTime = t, b_pruned = 0, b_deviceName = d, b_contents = ''Total file size: 1,024 bytes''\<rparr>"

definition sample_volume :: volume where
  "sample_volume = new_volume (new_host (new_conf ''/usr/sbin/sendmail'') ''h'') ''v'' ''/v''"

lemma sample_volume_ok: "volume_ok sample_volume"
  by (simp add: volume_ok_def stats_ok_def sample_volume_def new_volume_def completed_backups_def
      backups_of_def conf_base.defs Let_def)


text \<open>
  \<open>addBackup\<close> reports whether the volume had no backup of that start time and device, adds the
  backup exactly then, and afterwards the volume holds one for that time and device.
\<close>

theorem addBackup_inserts:
  assumes "volume_ok v" "0 \<le> b_time b" "b_time b \<le> INT_MAX"
  shows "(fst (addBackup b v) \<longleftrightarrow>
       (\<forall>c \<in> set (v_backups v). b_time c \<noteq> b_time b \<or> b_deviceName c \<noteq> b_deviceName b)) \<and>
     set (v_backups (snd (addBackup b v))) =
       (if fst (addBackup b v) then insert b (set (v_backups v)) else set (v_backups v))"
  using volume_ok_addBackup(2,3) [OF assms(1)] assms(2,3) by (auto simp: backup_key_def image_iff)

theorem addBackup_inserts_witness:
  "(fst (addBackup (sample_backup 1 1000 ''dev'') sample_volume) \<longleftrightarrow>
      (\<forall>c \<in> set (v_backups sample_volume). b_time c \<noteq> 1000 \<or> b_deviceName c \<noteq> ''dev'')) \<and>
   set (v_backups (snd (addBackup (sample_backup 1 1000 ''dev'') sample_volume))) =
     (if fst (addBackup (sample_backup 1 1000 ''dev'') sample_volume)
      then insert (sample_backup 1 1000 ''dev'') (set (v_backups sample_volume))
      else set (v_backups sample_volume))"
  using addBackup_inserts [OF sample_volume_ok, of "sample_backup 1 1000 ''dev''"]
  by (simp add: sample_backup_def limits)

text \<open>
  \<open>mostRecentBackup\<close> finds a backup exactly when the volume has one on the device asked for, and
  it is the latest: no other such backup is later (or as late, on a device later in the alphabet).
\<close>

theorem mostRecentBackup_latest:
  assumes "volume_ok v"
  shows "(mostRecentBackup devices d v = None \<longleftrightarrow> (\<forall>b \<in> set (v_backups v). \<not> on_device devices d b)) \<and>
    (\<forall>b. mostRecentBackup devices d v = Some b \<longrightarrow> b \<in> set (v_backups v) \<and> on_device devices d b \<and>
       (\<forall>c \<in> set (v_backups v). on_device devices d c \<longrightarrow>
          (b_time c, b_deviceName c) \<le> (b_time b, b_deviceName b)))"
proof -
  note k = volume_okD(1) [OF assms]
  have le: "backup_key c \<le> backup_key b"
    if "b \<in> set (v_backups v)" "c \<in> set (v_backups v)" "\<not> backup_less b c" for b c
    using that(3) backup_less_key backup_set.by_key_ok [OF k that(1)] backup_set.by_key_ok [OF k that(2)]
    by (metis linorder_not_less)
  show ?thesis
  proof (intro conjI allI impI)
    show "mostRecentBackup devices d v = None \<longleftrightarrow> (\<forall>b \<in> set (v_backups v). \<not> on_device devices d b)"
      unfolding mostRecentBackup_last backup_set.last_where_filter [OF k] by (simp add: filter_empty_conv)
    fix b assume "mostRecentBackup devices d v = Some b"
    then have "backup_set.last_where (on_device devices d) (v_backups v) = Some b"
      by (simp only: mostRecentBackup_last)
    note g = backup_set.last_where_greatest [OF k this]
    from g show "b \<in> set (v_backups v)" "on_device devices d b" by blast+
    from g le [of b] show "\<forall>c \<in> set (v_backups v). on_device devices d c \<longrightarrow>
        (b_time c, b_deviceName c) \<le> (b_time b, b_deviceName b)"
      unfolding backup_key_def by blast
  qed
qed

theorem mostRecentBackup_latest_witness:
  "let v = snd (addBackup (sample_backup 1 1000 ''dev'') sample_volume)
   in (mostRecentBackup [] None v = None \<longleftrightarrow> (\<forall>b \<in> set (v_backups v). \<not> on_device [] None b)) \<and>
    (\<forall>b. mostRecentBackup [] None v = Some b \<longrightarrow> b \<in> set (v_backups v) \<and> on_device [] None b \<and>
       (\<forall>c \<in> set (v_backups v). on_device [] None c \<longrightarrow>
          (b_time c, b_deviceName c) \<le> (b_time b, b_deviceName b)))"
  unfolding Let_def
  by (rule mostRecentBackup_latest) (rule volume_ok_addBackup(1) [OF sample_volume_ok], code_simp)

text \<open>
  \<open>operator<\<close> on backups keeps only 32 bits of the difference of the times: for backups more than
  68 years apart the order turns round and is not transitive.
\<close>

theorem backup_less_wraps:
  "let a = sample_backup 1 0 ''d''; b = sample_backup 2 1500000000 ''d''; c = sample_backup 3 3000000000 ''d''
   in backup_less a b \<and> backup_less b c \<and> \<not> backup_less a c \<and> backup_less c a"
  by code_simp

text \<open>
  The check for a mount point picks the options of \<open>stat\<close> by the output of \<open>uname -s\<close>, but that
  output ends in a newline, so no system is recognised: \<open>stat -c\<close> is run on the BSDs and on Darwin.
\<close>

theorem available_uname_newline:
  assumes "v_checkMounted v" "run (host_command h [''uname'', ''-s'']) = (0, s @ [LF])"
    "run (host_command h [''stat'', ''-c'', ''%d'', v_path v, v_path v @ ''/..'']) = (256, [])"
  shows "volume_available run h v =
    Inl (SubprocessFailed (hd (host_command h [''stat''])) 256)"
proof -
  have "drop k (s @ [LF]) \<noteq> ''BSD''" for k
  proof
    assume d: "drop k (s @ [LF]) = ''BSD''"
    then have "k < length (s @ [LF])" by (metis drop_eq_Nil list.discI not_le_imp_less)
    then have "last (drop k (s @ [LF])) = LF" by simp
    with d show False by simp
  qed
  moreover have "s @ [LF] \<noteq> ''Darwin''"
  proof
    assume "s @ [LF] = ''Darwin''"
    then have "last (s @ [LF]) = last ''Darwin''" by (rule arg_cong)
    then show False by simp
  qed
  ultimately show ?thesis
    using assms by (auto simp: volume_available_def host_invoke_def subprocess_wait_def host_command_def
        WIFEXITED_def WEXITSTATUS_def WTERMSIG_def WIFSIGNALED_def Let_def)
qed

theorem available_uname_newline_witness:
  "let h = new_host (new_conf ''/usr/sbin/sendmail'') ''h''; v = sample_volume\<lparr>v_checkMounted := True\<rparr>;
       run = (\<lambda>cmd. if ''uname'' \<in> set cmd then (0, ''FreeBSD'' @ [LF]) else (256, []))
   in volume_available run h v = Inl (SubprocessFailed (hd (host_command h [''stat''])) 256)"
  unfolding Let_def by (rule available_uname_newline [where s = "''FreeBSD''"]) (code_simp)+

end
