(* ===== verification/Policies.thy ===== *)
theory Policies
  imports Volumes
begin

text \<open>
  When to back up and what to prune: \<^verbatim>\<open>src/BackupPolicy*.cc\<close> and \<^verbatim>\<open>src/PrunePolicy*.cc\<close>.
  A policy is found by name, validated against the parameters of a volume, and asked whether a volume
  needs a backup on a device, or which of the complete backups on one device are to be pruned (a map
  from backups, by address, to the reason).  \<open>strtod\<close> and \<open>fnmatch\<close> of the C library, \<open>access\<close> and
  running a child are arguments.
\<close>

section \<open>Parameters\<close>

definition get_parameter :: "string \<Rightarrow> parameters \<Rightarrow> string \<Rightarrow> policy_parameter result" where
  "get_parameter kind ps name =
     (case om_find str_less name ps of
        Some p \<Rightarrow> Inr p
      | None \<Rightarrow> Inl (ConfigError (''missing '' @ kind @ '' parameter '' @ quoted name)))"

definition get_parameter_default :: "parameters \<Rightarrow> string \<Rightarrow> string \<Rightarrow> policy_parameter" where
  "get_parameter_default ps name def =
     (case om_find str_less name ps of
        Some p \<Rightarrow> p | None \<Rightarrow> \<lparr>pp_value = def, pp_location = no_location\<rparr>)"

text \<open>\<open>ConfigError\<close> with a location puts the file and the line in front of the message.\<close>

definition config_error :: "location \<Rightarrow> string \<Rightarrow> err" where
  "config_error l msg = ConfigError (loc_path l @ '':'' @ show_int (loc_line l) @ '': '' @ msg)"

text \<open>\<open>catch(SyntaxError &e) { throw ConfigError(location, e.what()); }\<close>\<close>

definition located :: "location \<Rightarrow> 'a result \<Rightarrow> 'a result" where
  "located l r = (case r of Inl (SyntaxError msg) \<Rightarrow> Inl (config_error l msg) | _ \<Rightarrow> r)"

definition interval_at_least_1 :: "string \<Rightarrow> policy_parameter \<Rightarrow> unit result" where
  "interval_at_least_1 what p =
     located (pp_location p)
       (rbind (parseTimeInterval (pp_value p) INT_MAX) (\<lambda>n.
          if n < 1 then Inl (SyntaxError (what @ '' too small'')) else Inr ()))"

text \<open>\<open>parseFloat\<close>: \<open>strtod\<close> gives the value, what is left, and \<open>errno\<close>'s text if it set it.\<close>

type_synonym strtod_fun = "string \<Rightarrow> real \<times> string \<times> string option"

definition parseFloat :: "strtod_fun \<Rightarrow> string \<Rightarrow> (real \<Rightarrow> bool) \<Rightarrow> real result" where
  "parseFloat strtod s in_range =
     (if s \<noteq> [] \<and> \<not> ((CHR ''0'' \<le> hd s \<and> hd s \<le> CHR ''9'') \<or> hd s = CHR ''-'')
      then Inl (SyntaxError (''invalid integer '' @ quoted s))
      else let sc = c_str s; (n, e, errno) = strtod sc
           in case errno of
                Some msg \<Rightarrow> Inl (SyntaxError (''invalid number '' @ quoted s @ '': '' @ msg))
              | None \<Rightarrow>
                  if e \<noteq> [] \<or> e = sc then Inl (SyntaxError (''invalid number '' @ quoted s))
                  else if \<not> in_range n then Inl (SyntaxError (''number '' @ quoted s @ '' out of range''))
                  else Inr n)"

section \<open>Backup policies\<close>

datatype backup_policy = BackupAlways | BackupDaily | BackupInterval

definition find_backup_policy :: "string \<Rightarrow> backup_policy result" where
  "find_backup_policy name =
     (if name = ''always'' then Inr BackupAlways
      else if name = ''daily'' then Inr BackupDaily
      else if name = ''interval'' then Inr BackupInterval
      else Inl (ConfigError (''unrecognized backup policy '' @ quoted name)))"

definition validate_backup_policy :: "backup_policy \<Rightarrow> volume \<Rightarrow> unit result" where
  "validate_backup_policy p v =
     (case p of
        BackupAlways \<Rightarrow> Inr () | BackupDaily \<Rightarrow> Inr ()
      | BackupInterval \<Rightarrow>
          rbind (get_parameter ''backup'' (backupParameters v) ''min-interval'')
            (interval_at_least_1 ''min-interval''))"

fun daily_backup :: "machine \<Rightarrow> date \<Rightarrow> string \<Rightarrow> backup list \<Rightarrow> bool result" where
  "daily_backup m t dev [] = Inr True"
| "daily_backup m t dev (b # bs) =
     (if b_status b = COMPLETE
      then rbind (date_at m (b_time b)) (\<lambda>d.
             if d = t \<and> b_deviceName b = dev then Inr False else daily_backup m t dev bs)
      else daily_backup m t dev bs)"

definition policy_backup :: "machine \<Rightarrow> backup_policy \<Rightarrow> volume \<Rightarrow> string \<Rightarrow> bool result" where
  "policy_backup m p v dev =
     (case p of
        BackupAlways \<Rightarrow> Inr True
      | BackupDaily \<Rightarrow> rbind (today m ''BACKUP'') (\<lambda>t. daily_backup m t dev (v_backups v))
      | BackupInterval \<Rightarrow>
          rbind (now m ''BACKUP'') (\<lambda>n.
          rbind (get_parameter ''backup'' (backupParameters v) ''min-interval'') (\<lambda>pp.
          rbind (parseTimeInterval (pp_value pp) INT_MAX) (\<lambda>minInterval.
            Inr (\<not> list_ex (\<lambda>b. b_status b = COMPLETE \<and> n - b_time b < minInterval \<and> b_deviceName b = dev)
                   (v_backups v))))))"

datatype backup_requirement = AlreadyBackedUp | NotThisDevice | NotAvailable | BackupRequired

text \<open>\<open>Volume::needsBackup\<close>; \<open>fnmatch\<close> gives 0, \<open>FNM_NOMATCH\<close> (1), or an error, which counts as a match.\<close>

definition needsBackup ::
    "machine \<Rightarrow> (string \<Rightarrow> string \<Rightarrow> int) \<Rightarrow> (string list \<Rightarrow> int \<times> string) \<Rightarrow> host \<Rightarrow> volume \<Rightarrow> string \<Rightarrow>
     backup_requirement result" where
  "needsBackup m fnmatch run h v dev =
     (if fnmatch (devicePattern v) dev = 1 then Inr NotThisDevice
      else rbind (find_backup_policy (backupPolicy v)) (\<lambda>p.
           rbind (policy_backup m p v dev) (\<lambda>due.
             if \<not> due then Inr AlreadyBackedUp
             else rbind (volume_available run h v) (\<lambda>avail.
               Inr (if avail then BackupRequired else NotAvailable)))))"

section \<open>Prune policies\<close>

type_synonym prune_map = "(nat \<times> string) list"

abbreviation addr_less :: "nat \<Rightarrow> nat \<Rightarrow> bool" where
  "addr_less \<equiv> (<)"

definition prune_age_of :: "machine \<Rightarrow> backup \<Rightarrow> int result" where
  "prune_age_of m b =
     rbind (today m ''PRUNE'') (\<lambda>t. rbind (date_at m (b_time b)) (\<lambda>d. Inr (date_minus t d)))"

definition days_parameter :: "volume \<Rightarrow> string \<Rightarrow> string \<Rightarrow> int result" where
  "days_parameter v name def =
     rbind (parseTimeInterval (pp_value (get_parameter_default (pruneParameters v) name def)) INT_MAX)
       (\<lambda>n. Inr (cdiv n 86400))"

text \<open>The reasons the policies give.\<close>

definition age_reason :: "int \<Rightarrow> int \<Rightarrow> nat \<Rightarrow> int \<Rightarrow> string" where
  "age_reason age pruneAge n minBackups =
     ''age '' @ show_int age @ '' > '' @ show_int pruneAge @ '' and remaining '' @ show_nat n @ '' > ''
     @ show_int minBackups"

definition limit_reason :: "int \<Rightarrow> int \<Rightarrow> string" where
  "limit_reason age decayLimit =
     ''age '' @ show_int age @ '' > '' @ show_int decayLimit @ '' and other backups exist''"

definition bucket_reason :: "int \<Rightarrow> int \<Rightarrow> int \<Rightarrow> string" where
  "bucket_reason age decayStart bucket =
     ''age '' @ show_int age @ '' > '' @ show_int decayStart @ '' and oldest in bucket '' @ show_int bucket"

text \<open>The \<open>age\<close> policy: the state is \<open>left\<close> and the map; \<open>n\<close> is \<open>onDevice.size()\<close>.\<close>

definition age_step ::
    "machine \<Rightarrow> int \<Rightarrow> int \<Rightarrow> nat \<Rightarrow> nat \<times> prune_map \<Rightarrow> backup \<Rightarrow> (nat \<times> prune_map) result" where
  "age_step m pruneAge minBackups n s b =
     rbind (prune_age_of m b) (\<lambda>age.
       let (left, prune) = s
       in if age \<le> pruneAge then Inr (left, prune)
          else if left \<le> nat minBackups then Inr (left, prune)
          else Inr (left - 1,
                 om_put addr_less (b_addr b)
                   (age_reason age pruneAge n minBackups) prune))"

definition prune_age :: "machine \<Rightarrow> volume \<Rightarrow> backup list \<Rightarrow> prune_map \<Rightarrow> prune_map result" where
  "prune_age m v onDevice prune =
     rbind (days_parameter v ''prune-age'' ''366d'') (\<lambda>pruneAge.
     rbind (parseInteger (pp_value (get_parameter_default (pruneParameters v) ''min-backups'' ''1'')) 1 INT_MAX 0)
       (\<lambda>minBackups.
     rbind (fold_result (age_step m pruneAge minBackups (length onDevice)) (length onDevice, prune) onDevice)
       (\<lambda>(left, prune). Inr prune)))"

definition validate_age :: "volume \<Rightarrow> unit result" where
  "validate_age v =
     (let pruneAge = get_parameter_default (pruneParameters v) ''prune-age'' ''366d'';
          minBackups = get_parameter_default (pruneParameters v) ''min-backups'' ''1''
      in rbind (parseTimeInterval (pp_value pruneAge) INT_MAX) (\<lambda>n.
           if n < 86400 then Inl (config_error (pp_location pruneAge) ''prune-age is too small'')
           else located (pp_location minBackups)
                  (rbind (parseInteger (pp_value minBackups) 1 INT_MAX 0) (\<lambda>_. Inr ()))))"

text \<open>
  The \<open>decay\<close> policy.  \<open>logbase\<close> is computed on the reals, without the rounding of \<open>double\<close>; a zero
  window makes the \<open>double\<close> infinite, whose conversion to \<open>int\<close> is undefined.
\<close>

definition prune_decay_bucket :: "real \<Rightarrow> real \<Rightarrow> int \<Rightarrow> int result" where
  "prune_decay_bucket w s a =
     (if w = 0 then Inl UndefinedBehaviour
      else Inr (\<lceil>log 2 ((s - 1) * of_int a / w + 1) / log 2 s\<rceil> - 1))"

abbreviation int_less :: "int \<Rightarrow> int \<Rightarrow> bool" where
  "int_less \<equiv> (<)"

definition decay_scan_step ::
    "(int \<Rightarrow> int result) \<Rightarrow> machine \<Rightarrow> int \<Rightarrow> int \<Rightarrow> (int \<times> backup) list \<times> prune_map \<Rightarrow> backup \<Rightarrow>
     ((int \<times> backup) list \<times> prune_map) result" where
  "decay_scan_step bucket_of m decayStart decayLimit s b =
     rbind (prune_age_of m b) (\<lambda>age.
       let (oldest, prune) = s; a = age - decayStart
       in if a \<le> 0 then Inr s
          else if decayLimit < age
          then Inr (oldest, om_put addr_less (b_addr b)
                 (limit_reason age decayLimit) prune)
          else rbind (bucket_of a) (\<lambda>bucket.
                 case om_find int_less bucket oldest of
                   None \<Rightarrow> Inr (om_put int_less bucket b oldest, prune)
                 | Some c \<Rightarrow>
                     if b_time b < b_time c then Inr (om_put int_less bucket b oldest, prune) else Inr s))"

definition decay_prune_step ::
    "(int \<Rightarrow> int result) \<Rightarrow> machine \<Rightarrow> int \<Rightarrow> int \<Rightarrow> (int \<times> backup) list \<Rightarrow> prune_map \<Rightarrow> backup \<Rightarrow>
     prune_map result" where
  "decay_prune_step bucket_of m decayStart decayLimit oldest prune b =
     rbind (prune_age_of m b) (\<lambda>age.
       let a = age - decayStart
       in if a \<le> 0 \<or> decayLimit < age then Inr prune
          else rbind (bucket_of a) (\<lambda>bucket.
                 case om_find int_less bucket oldest of
                   None \<Rightarrow> Inl AssertionFailed
                 | Some c \<Rightarrow>
                     if b_addr b \<noteq> b_addr c
                     then Inr (om_put addr_less (b_addr b)
                            (bucket_reason age decayStart bucket) prune)
                     else Inr prune))"

definition prune_decay_with ::
    "(int \<Rightarrow> int result) \<Rightarrow> machine \<Rightarrow> int \<Rightarrow> int \<Rightarrow> backup list \<Rightarrow> prune_map \<Rightarrow> prune_map result" where
  "prune_decay_with bucket_of m decayStart decayLimit onDevice prune =
     (if length onDevice = 1 then Inr prune
      else rbind (fold_result (decay_scan_step bucket_of m decayStart decayLimit) ([], prune) onDevice)
             (\<lambda>(oldest, prune).
                fold_result (decay_prune_step bucket_of m decayStart decayLimit oldest) prune onDevice))"

definition decay_scale :: "strtod_fun \<Rightarrow> string \<Rightarrow> real result" where
  "decay_scale strtod s = parseFloat strtod s (\<lambda>n. 1 < n)"

definition prune_decay :: "strtod_fun \<Rightarrow> machine \<Rightarrow> volume \<Rightarrow> backup list \<Rightarrow> prune_map \<Rightarrow> prune_map result" where
  "prune_decay strtod m v onDevice prune =
     rbind (days_parameter v ''decay-start'' ''1d'') (\<lambda>decayStart.
     rbind (days_parameter v ''decay-window'' ''1d'') (\<lambda>decayWindow.
     rbind (decay_scale strtod (pp_value (get_parameter_default (pruneParameters v) ''decay-scale'' ''2''))) (\<lambda>scale.
     rbind (days_parameter v ''decay-limit'' ''366d'') (\<lambda>decayLimit.
       prune_decay_with (prune_decay_bucket (of_int decayWindow) scale) m decayStart decayLimit onDevice prune))))"

definition validate_decay :: "strtod_fun \<Rightarrow> volume \<Rightarrow> unit result" where
  "validate_decay strtod v =
     (let ps = pruneParameters v;
          decayScale = get_parameter_default ps ''decay-scale'' ''2''
      in rbind (interval_at_least_1 ''decay-start'' (get_parameter_default ps ''decay-start'' ''1d'')) (\<lambda>_.
         rbind (interval_at_least_1 ''decay-window'' (get_parameter_default ps ''decay-window'' ''1d'')) (\<lambda>_.
         rbind (located (pp_location decayScale) (decay_scale strtod (pp_value decayScale))) (\<lambda>_.
           interval_at_least_1 ''decay-limit'' (get_parameter_default ps ''decay-limit'' ''366d'')))))"

text \<open>The \<open>exec\<close> policy: what the program is given, and what is made of its output.\<close>

definition exec_env :: "string \<Rightarrow> volume \<Rightarrow> backup list \<Rightarrow> int \<Rightarrow> (string \<times> string) list" where
  "exec_env host v onDevice ntotal =
     (let env = foldl (\<lambda>e (n, p). om_put str_less (''PRUNE_'' @ n) (pp_value p) e) [] (pruneParameters v);
          times = concat (case map (\<lambda>b. show_int (b_time b)) onDevice of
                            [] \<Rightarrow> [] | t # ts \<Rightarrow> t # map (\<lambda>t. '' '' @ t) ts)
      in foldl (\<lambda>e (n, x). om_put str_less n x e) env
           [(''PRUNE_ONDEVICE'', times), (''PRUNE_TOTAL'', show_int ntotal), (''PRUNE_HOST'', host),
            (''PRUNE_VOLUME'', v_name v), (''PRUNE_DEVICE'', b_deviceName (hd onDevice))])"

fun exec_mark :: "int \<Rightarrow> string \<Rightarrow> backup list \<Rightarrow> prune_map \<Rightarrow> bool \<Rightarrow> (prune_map \<times> bool) result" where
  "exec_mark t reason [] prune found = Inr (prune, found)"
| "exec_mark t reason (b # bs) prune found =
     (if b_time b = t
      then if om_find addr_less (b_addr b) prune \<noteq> None
           then Inl (InvalidPruneList ''duplicate entry in prune list'')
           else exec_mark t reason bs (om_put addr_less (b_addr b) reason prune) True
      else exec_mark t reason bs prune found)"

lemma drop_line_shorter: "s \<noteq> [] \<Longrightarrow> length (drop 1 (dropWhile P s)) < length s"
  using length_dropWhile_le [of P s] by (cases s) auto

text \<open>The loop over the output from \<open>pos\<close>.  A colon after the end of the line does not count.\<close>

function exec_parse :: "backup list \<Rightarrow> prune_map \<Rightarrow> string \<Rightarrow> prune_map result" where
  "exec_parse onDevice prune s =
     (if s = [] then Inr prune
      else if LF \<notin> set s then Inl (InvalidPruneList ''missing newline'')
      else let line = takeWhile (\<lambda>c. c \<noteq> LF) s
           in if CHR '':'' \<notin> set line then Inl (InvalidPruneList ''no colon found'')
              else rbind (parseInteger (takeWhile (\<lambda>c. c \<noteq> CHR '':'') line) 0 LLONG_MAX 0) (\<lambda>t.
                   rbind (exec_mark t (drop 1 (dropWhile (\<lambda>c. c \<noteq> CHR '':'') line)) onDevice prune False)
                     (\<lambda>(prune, found).
                        if \<not> found then Inl (InvalidPruneList ''nonexistent entry in prune list'')
                        else exec_parse onDevice prune (drop 1 (dropWhile (\<lambda>c. c \<noteq> LF) s)))))"
  by pat_completeness auto

termination
  by (relation "measure (\<lambda>(_, _, s). length s)") (auto simp: drop_line_shorter simp del: length_drop One_nat_def)

definition prune_exec ::
    "((string \<times> string) list \<Rightarrow> string list \<Rightarrow> int \<times> string) \<Rightarrow> string \<Rightarrow> volume \<Rightarrow> backup list \<Rightarrow> prune_map \<Rightarrow>
     int \<Rightarrow> prune_map result" where
  "prune_exec run host v onDevice prune ntotal =
     rbind (get_parameter ''pruning'' (pruneParameters v) ''path'') (\<lambda>path.
       let command = [pp_value path]; (status, reasons) = run (exec_env host v onDevice ntotal) command
       in rbind (subprocess_wait [THROW_ON_ERROR, THROW_ON_CRASH] (hd command) status) (\<lambda>_.
            exec_parse onDevice prune reasons))"

definition validate_exec :: "(string \<Rightarrow> bool) \<Rightarrow> volume \<Rightarrow> unit result" where
  "validate_exec executable v =
     rbind (get_parameter ''pruning'' (pruneParameters v) ''path'') (\<lambda>path.
       if \<not> executable (pp_value path)
       then Inl (config_error (pp_location path) (''cannot execute pruning policy '' @ prunePolicy v))
       else case find (\<lambda>(n, p). list_ex (\<lambda>ch. ch \<noteq> CHR ''_'' \<and> \<not> c_isalnum ch) n) (pruneParameters v) of
              None \<Rightarrow> Inr ()
            | Some (n, p) \<Rightarrow>
                Inl (config_error (pp_location p)
                  (''invalid pruning parameter '' @ quoted n @ '' for executable policies'')))"

section \<open>Finding and using a prune policy\<close>

datatype prune_policy = PruneAge | PruneDecay | PruneExec | PruneNever

definition find_prune_policy :: "string \<Rightarrow> prune_policy result" where
  "find_prune_policy name =
     (if name = ''age'' then Inr PruneAge
      else if name = ''decay'' then Inr PruneDecay
      else if name = ''exec'' then Inr PruneExec
      else if name = ''never'' then Inr PruneNever
      else Inl (ConfigError (''unrecognized pruning policy '' @ quoted name)))"

definition validate_prune_policy :: "strtod_fun \<Rightarrow> (string \<Rightarrow> bool) \<Rightarrow> prune_policy \<Rightarrow> volume \<Rightarrow> unit result" where
  "validate_prune_policy strtod executable p v =
     (case p of PruneAge \<Rightarrow> validate_age v | PruneDecay \<Rightarrow> validate_decay strtod v
      | PruneExec \<Rightarrow> validate_exec executable v | PruneNever \<Rightarrow> Inr ())"

definition policy_prunable ::
    "strtod_fun \<Rightarrow> ((string \<times> string) list \<Rightarrow> string list \<Rightarrow> int \<times> string) \<Rightarrow> machine \<Rightarrow> string \<Rightarrow> prune_policy \<Rightarrow>
     volume \<Rightarrow> backup list \<Rightarrow> prune_map \<Rightarrow> int \<Rightarrow> prune_map result" where
  "policy_prunable strtod run m host p v onDevice prune ntotal =
     (if onDevice = [] then Inl (LogicError ''vector'')
      else case p of
             PruneAge \<Rightarrow> prune_age m v onDevice prune
           | PruneDecay \<Rightarrow> prune_decay strtod m v onDevice prune
           | PruneExec \<Rightarrow> prune_exec run host v onDevice prune ntotal
           | PruneNever \<Rightarrow> Inr prune)"

definition backupPrunable ::
    "strtod_fun \<Rightarrow> ((string \<times> string) list \<Rightarrow> string list \<Rightarrow> int \<times> string) \<Rightarrow> machine \<Rightarrow> string \<Rightarrow> volume \<Rightarrow>
     backup list \<Rightarrow> prune_map \<Rightarrow> int \<Rightarrow> prune_map result" where
  "backupPrunable strtod run m host v onDevice prune ntotal =
     (if onDevice = [] then Inr prune
      else rbind (find_prune_policy (prunePolicy v)) (\<lambda>p.
             policy_prunable strtod run m host p v onDevice prune ntotal))"

section \<open>The map of reasons\<close>

interpretation addr_order: key_order addr_less "\<lambda>_. True"
  by unfold_locales auto

interpretation int_order: key_order int_less "\<lambda>_. True"
  by unfold_locales auto

abbreviation pruned_addrs :: "prune_map \<Rightarrow> nat set" where
  "pruned_addrs p \<equiv> fst ` set p"

abbreviation addrs :: "backup list \<Rightarrow> nat set" where
  "addrs bs \<equiv> b_addr ` set bs"

lemma addrs_om_put [simp]:
  "addr_order.sorted_keys p \<Longrightarrow> pruned_addrs (om_put addr_less a r p) = insert a (pruned_addrs p)"
  "addr_order.sorted_keys p \<Longrightarrow> addr_order.sorted_keys (om_put addr_less a r p)"
  by (simp_all add: addr_order.set_om_put addr_order.sorted_om_put)

lemma sorted_card: "addr_order.sorted_keys p \<Longrightarrow> length p = card (pruned_addrs p)"
proof -
  assume "addr_order.sorted_keys p"
  then have "distinct (map fst p)" by (induction p) (auto simp: image_iff)
  then show ?thesis using distinct_card [of "map fst p"] by simp
qed

lemma find_in_addrs:
  "addr_order.sorted_keys p \<Longrightarrow> om_find addr_less a p \<noteq> None \<longleftrightarrow> a \<in> pruned_addrs p"
  by (simp add: addr_order.om_find_map_of map_of_eq_None_iff)

text \<open>What a policy chooses is on the device, in addition to what was chosen before.\<close>

definition chosen_from :: "backup list \<Rightarrow> prune_map \<Rightarrow> prune_map \<Rightarrow> bool" where
  "chosen_from bs p q \<longleftrightarrow> addr_order.sorted_keys q \<and> pruned_addrs p \<subseteq> pruned_addrs q \<and>
     pruned_addrs q \<subseteq> pruned_addrs p \<union> addrs bs"

lemma chosen_from_refl: "addr_order.sorted_keys p \<Longrightarrow> chosen_from bs p p"
  by (simp add: chosen_from_def)

lemma chosen_from_put: "chosen_from bs p q \<Longrightarrow> chosen_from (bs @ [b]) p (om_put addr_less (b_addr b) r q)"
  by (auto simp: chosen_from_def)

lemma chosen_from_skip: "chosen_from bs p q \<Longrightarrow> chosen_from (bs @ [b]) p q"
  by (auto simp: chosen_from_def)

lemma between_trans: "A \<subseteq> B \<Longrightarrow> B \<subseteq> A \<union> D \<Longrightarrow> B \<subseteq> C \<Longrightarrow> C \<subseteq> B \<union> D \<Longrightarrow> A \<subseteq> C \<and> C \<subseteq> A \<union> D"
  by blast

lemma chosen_from_trans: "chosen_from bs p q \<Longrightarrow> chosen_from bs q r \<Longrightarrow> chosen_from bs p r"
  using between_trans [of "pruned_addrs p" "pruned_addrs q" "addrs bs" "pruned_addrs r"]
  unfolding chosen_from_def by simp

lemmas chosen_from_intros = chosen_from_refl chosen_from_put chosen_from_skip

text \<open>The steps of the loops, when no date is out of range.\<close>

lemma age_step_Inr:
  "age_step m pa mb n (l, p) b = Inr t \<longleftrightarrow>
   (\<exists>age. prune_age_of m b = Inr age \<and>
      t = (if pa < age \<and> nat mb < l then (l - 1, om_put addr_less (b_addr b) (age_reason age pa n mb) p)
           else (l, p)))"
  by (cases "prune_age_of m b") (auto simp: age_step_def not_le)

lemma decay_scan_step_Inr:
  assumes "decay_scan_step bk m ds dl (old, p) b = Inr t"
  obtains (young) age where "prune_age_of m b = Inr age" "age \<le> ds" "t = (old, p)"
    | (too_old) age where "prune_age_of m b = Inr age" "ds < age" "dl < age"
        "t = (old, om_put addr_less (b_addr b) (limit_reason age dl) p)"
    | (bucket) age k where "prune_age_of m b = Inr age" "ds < age" "age \<le> dl" "bk (age - ds) = Inr k"
        "t = ((case om_find int_less k old of
                 None \<Rightarrow> om_put int_less k b old
               | Some c \<Rightarrow> if b_time b < b_time c then om_put int_less k b old else old), p)"
proof -
  from assms obtain age where age: "prune_age_of m b = Inr age"
    by (auto simp: decay_scan_step_def result_simps)
  show thesis
  proof (cases "age \<le> ds"; cases "dl < age")
    assume "\<not> age \<le> ds" "\<not> dl < age"
    moreover from this assms age obtain k where "bk (age - ds) = Inr k"
      by (auto simp: decay_scan_step_def result_simps)
    ultimately show thesis using assms age bucket
      by (auto simp: decay_scan_step_def split: option.splits if_splits)
  qed (use assms age young too_old in \<open>auto simp: decay_scan_step_def\<close>)
qed

lemma decay_prune_step_Inr:
  assumes "decay_prune_step bk m ds dl old p b = Inr q"
  obtains (keep) age where "prune_age_of m b = Inr age" "age \<le> ds \<or> dl < age" "q = p"
    | (bucket) age k c where "prune_age_of m b = Inr age" "ds < age" "age \<le> dl" "bk (age - ds) = Inr k"
        "om_find int_less k old = Some c"
        "q = (if b_addr b \<noteq> b_addr c then om_put addr_less (b_addr b) (bucket_reason age ds k) p else p)"
proof -
  from assms obtain age where age: "prune_age_of m b = Inr age"
    by (auto simp: decay_prune_step_def result_simps)
  show thesis
  proof (cases "age \<le> ds \<or> dl < age")
    case True
    then show thesis using assms age keep by (auto simp: decay_prune_step_def)
  next
    case False
    then have "rbind (bk (age - ds)) (\<lambda>k. case om_find int_less k old of
                   None \<Rightarrow> Inl AssertionFailed
                 | Some c \<Rightarrow> if b_addr b \<noteq> b_addr c
                     then Inr (om_put addr_less (b_addr b) (bucket_reason age ds k) p) else Inr p) = Inr q"
      using assms age by (simp add: decay_prune_step_def)
    then show thesis using False bucket [OF age] by (auto simp: result_simps split: option.splits if_splits)
  qed
qed

lemma age_chosen: "prune_age m v bs p = Inr q \<Longrightarrow> addr_order.sorted_keys p \<Longrightarrow> chosen_from bs p q"
proof -
  assume h: "prune_age m v bs p = Inr q" and p: "addr_order.sorted_keys p"
  then obtain pruneAge minBackups left
    where f: "fold_result (age_step m pruneAge minBackups (length bs)) (length bs, p) bs = Inr (left, q)"
    by (auto simp: prune_age_def result_simps)
  have "chosen_from bs p (snd (left, q))"
    using f by (rule fold_result_invariant [where P = "\<lambda>bs s. chosen_from bs p (snd s)"])
      (use p in \<open>auto simp: age_step_Inr intro: chosen_from_intros split: if_splits\<close>)
  then show ?thesis by simp
qed

lemma decay_with_chosen:
  assumes "prune_decay_with bk m ds dl bs p = Inr q" "addr_order.sorted_keys p"
  shows "chosen_from bs p q"
proof (cases "length bs = 1")
  case False
  then obtain oldest p' where f: "fold_result (decay_scan_step bk m ds dl) ([], p) bs = Inr (oldest, p')"
    and g: "fold_result (decay_prune_step bk m ds dl oldest) p' bs = Inr q"
    using assms(1) by (auto simp: prune_decay_with_def result_simps)
  have "chosen_from bs p (snd (oldest, p'))"
    using f
  proof (rule fold_result_invariant [where P = "\<lambda>bs s. chosen_from bs p (snd s)"])
    fix ys b u w assume "chosen_from ys p (snd u)" "decay_scan_step bk m ds dl u b = Inr w"
    then show "chosen_from (ys @ [b]) p (snd w)"
      by (cases u) (auto elim!: decay_scan_step_Inr intro: chosen_from_intros)
  qed (use assms(2) in \<open>simp add: chosen_from_refl\<close>)
  then have 1: "chosen_from bs p p'" by simp
  have "chosen_from bs p' q"
    using g
  proof (rule fold_result_invariant [where P = "\<lambda>bs s. chosen_from bs p' s"])
    fix ys b u w assume "chosen_from ys p' u" "decay_prune_step bk m ds dl oldest u b = Inr w"
    then show "chosen_from (ys @ [b]) p' w"
      by (auto elim!: decay_prune_step_Inr intro: chosen_from_intros)
  qed (use 1 in \<open>simp add: chosen_from_def\<close>)
  then show ?thesis using 1 chosen_from_trans by blast
qed (use assms in \<open>auto simp: prune_decay_with_def intro: chosen_from_refl\<close>)

lemma exec_mark_chosen:
  "exec_mark t r bs p found = Inr (q, found') \<Longrightarrow> addr_order.sorted_keys p \<Longrightarrow> chosen_from bs p q"
proof (induction t r bs p found rule: exec_mark.induct)
  case (2 t r b bs p found)
  show ?case
  proof (cases "b_time b = t")
    case True
    with 2(3) have n: "om_find addr_less (b_addr b) p = None"
      and e: "exec_mark t r bs (om_put addr_less (b_addr b) r p) True = Inr (q, found')"
      by (auto split: if_splits)
    have "chosen_from bs (om_put addr_less (b_addr b) r p) q" using 2(1) True n e 2(4) by simp
    then show ?thesis using 2(4) unfolding chosen_from_def by auto
  next
    case False
    then have "chosen_from bs p q" using 2 by simp
    then show ?thesis unfolding chosen_from_def by auto
  qed
qed (auto intro: chosen_from_refl)

lemma exec_parse_step:
  assumes "exec_parse bs p s = Inr q" "s \<noteq> []"
  obtains t r p' where "LF \<in> set s" "CHR '':'' \<in> set (takeWhile (\<lambda>c. c \<noteq> LF) s)"
      "parseInteger (takeWhile (\<lambda>c. c \<noteq> CHR '':'') (takeWhile (\<lambda>c. c \<noteq> LF) s)) 0 LLONG_MAX 0 = Inr t"
      "r = drop 1 (dropWhile (\<lambda>c. c \<noteq> CHR '':'') (takeWhile (\<lambda>c. c \<noteq> LF) s))"
      "exec_mark t r bs p False = Inr (p', True)"
      "exec_parse bs p' (drop 1 (dropWhile (\<lambda>c. c \<noteq> LF) s)) = Inr q"
  using assms that unfolding exec_parse.simps [of bs p s]
  by (auto simp: result_simps Let_def split: if_splits)

declare exec_parse.simps [simp del]

lemma exec_parse_chosen: "exec_parse bs p s = Inr q \<Longrightarrow> addr_order.sorted_keys p \<Longrightarrow> chosen_from bs p q"
proof (induction "length s" arbitrary: p s rule: less_induct)
  case less
  show ?case
  proof (cases "s = []")
    case False
    with less(2) obtain t r p' where s: "exec_mark t r bs p False = Inr (p', True)"
      "exec_parse bs p' (drop 1 (dropWhile (\<lambda>c. c \<noteq> LF) s)) = Inr q"
      by (rule exec_parse_step)
    have c: "chosen_from bs p p'" by (rule exec_mark_chosen [OF s(1) less(3)])
    then have "addr_order.sorted_keys p'" by (simp add: chosen_from_def)
    with less(1) [OF drop_line_shorter [OF False] s(2)] have "chosen_from bs p' q" .
    with c show ?thesis by (rule chosen_from_trans)
  qed (use less in \<open>auto simp: exec_parse.simps intro: chosen_from_refl\<close>)
qed

lemma backupPrunable_chosen:
  "backupPrunable strtod run m host v bs p n = Inr q \<Longrightarrow> addr_order.sorted_keys p \<Longrightarrow> chosen_from bs p q"
proof -
  assume h: "backupPrunable strtod run m host v bs p n = Inr q" and p: "addr_order.sorted_keys p"
  show ?thesis
  proof (cases "bs = []")
    case False
    with h obtain pol where "policy_prunable strtod run m host pol v bs p n = Inr q"
      by (auto simp: backupPrunable_def result_simps)
    then show ?thesis using False p
      by (cases pol) (auto simp: policy_prunable_def prune_decay_def prune_exec_def result_simps Let_def split_beta
        intro: chosen_from_refl age_chosen decay_with_chosen exec_parse_chosen)
  qed (use h p in \<open>auto simp: backupPrunable_def intro: chosen_from_refl\<close>)
qed

section \<open>What the policies guarantee\<close>

definition older_than :: "machine \<Rightarrow> int \<Rightarrow> backup \<Rightarrow> bool" where
  "older_than m n b \<longleftrightarrow> (case prune_age_of m b of Inl _ \<Rightarrow> False | Inr age \<Rightarrow> n < age)"

lemma older_than_Inr [simp]: "prune_age_of m b = Inr age \<Longrightarrow> older_than m n b \<longleftrightarrow> n < age"
  by (simp add: older_than_def)

lemma om_put_new_length:
  assumes "addr_order.sorted_keys p" "a \<notin> pruned_addrs p"
  shows "length (om_put addr_less a r p) = Suc (length p)"
  using assms sorted_card [of p] sorted_card [of "om_put addr_less a r p"] by simp

lemma age_loop:
  assumes "fold_result (age_step m pa mb n) (length bs, []) bs = Inr (left, q)" "distinct (map b_addr bs)"
  shows "addr_order.sorted_keys q \<and> pruned_addrs q \<subseteq> addrs bs \<and> left + length q = length bs \<and>
     min (nat mb) (length bs) \<le> left \<and>
     (\<forall>b \<in> set bs. b_addr b \<in> pruned_addrs q \<longrightarrow> older_than m pa b) \<and>
     (nat mb < left \<longrightarrow> (\<forall>b \<in> set bs. older_than m pa b \<longrightarrow> b_addr b \<in> pruned_addrs q))"
proof -
  define P where "P ys s \<longleftrightarrow> (case s of (left, q) \<Rightarrow>
     addr_order.sorted_keys q \<and> pruned_addrs q \<subseteq> addrs ys \<and> left + length q = length bs \<and>
     min (nat mb) (length bs) \<le> left \<and>
     (\<forall>b \<in> set ys. b_addr b \<in> pruned_addrs q \<longrightarrow> older_than m pa b) \<and>
     (nat mb < left \<longrightarrow> (\<forall>b \<in> set ys. older_than m pa b \<longrightarrow> b_addr b \<in> pruned_addrs q)))" for ys s
  have "P bs (left, q)"
    using assms(1)
  proof (rule fold_result_invariant [where P = P])
    show "P [] (length bs, [])" by (simp add: P_def)
    fix ys b zs u t
    assume bs: "bs = ys @ b # zs" and u: "P ys u" and t: "age_step m pa mb n u b = Inr t"
    obtain l q where lq: "u = (l, q)" by force
    from t obtain age where age: "prune_age_of m b = Inr age"
      and t: "t = (if pa < age \<and> nat mb < l then (l - 1, om_put addr_less (b_addr b) (age_reason age pa n mb) q)
           else (l, q))" by (auto simp: lq age_step_Inr)
    have q: "addr_order.sorted_keys q" "pruned_addrs q \<subseteq> addrs ys" using u by (auto simp: P_def lq)
    have new: "b_addr b \<notin> addrs ys" using assms(2) bs by auto
    with q(2) have "b_addr b \<notin> pruned_addrs q" by blast
    note len = om_put_new_length [OF q(1) this, of "age_reason age pa n mb"]
    have ne: "b_addr c \<noteq> b_addr b" if "c \<in> set ys" for c using new that by (metis imageI)
    have inv: "l + length q = length bs" "min (nat mb) (length bs) \<le> l"
      "\<forall>c \<in> set ys. b_addr c \<in> pruned_addrs q \<longrightarrow> older_than m pa c"
      "nat mb < l \<longrightarrow> (\<forall>c \<in> set ys. older_than m pa c \<longrightarrow> b_addr c \<in> pruned_addrs q)"
      using u by (simp_all add: P_def lq)
    have nb: "b_addr b \<notin> pruned_addrs q" by fact
    show "P (ys @ [b]) t"
    proof (cases "pa < age \<and> nat mb < l")
      case True
      let ?q = "om_put addr_less (b_addr b) (age_reason age pa n mb) q"
      have q': "pruned_addrs ?q = insert (b_addr b) (pruned_addrs q)" "addr_order.sorted_keys ?q"
        using q(1) by simp_all
      have "l - 1 + length ?q = length bs" "min (nat mb) (length bs) \<le> l - 1"
        using inv(1,2) len True by linarith+
      moreover have "\<forall>c \<in> set (ys @ [b]). b_addr c \<in> pruned_addrs ?q \<longrightarrow> older_than m pa c"
        "nat mb < l - 1 \<longrightarrow> (\<forall>c \<in> set (ys @ [b]). older_than m pa c \<longrightarrow> b_addr c \<in> pruned_addrs ?q)"
        unfolding q' using inv(3,4) ne age True by simp_all
      moreover have "pruned_addrs ?q \<subseteq> addrs (ys @ [b])" unfolding q' using q(2) by (simp add: subset_insertI2)
      ultimately show ?thesis using True q'(2) unfolding P_def t by (simp only: if_True prod.case simp_thms)
    next
      case False
      have "\<forall>c \<in> set (ys @ [b]). b_addr c \<in> pruned_addrs q \<longrightarrow> older_than m pa c"
        "nat mb < l \<longrightarrow> (\<forall>c \<in> set (ys @ [b]). older_than m pa c \<longrightarrow> b_addr c \<in> pruned_addrs q)"
        using inv(3,4) nb age False by auto
      moreover have "pruned_addrs q \<subseteq> addrs (ys @ [b])" using q(2) by (simp add: subset_insertI2)
      ultimately show ?thesis
        using False q(1) inv(1,2) unfolding P_def t by (simp only: if_False prod.case simp_thms)
    qed
  qed
  then show ?thesis unfolding P_def by simp
qed

text \<open>What the two loops of the decay policy look at.\<close>

definition in_bucket :: "(int \<Rightarrow> int result) \<Rightarrow> machine \<Rightarrow> int \<Rightarrow> int \<Rightarrow> int \<Rightarrow> backup \<Rightarrow> bool" where
  "in_bucket bk m ds dl k b \<longleftrightarrow>
     (case prune_age_of m b of Inl _ \<Rightarrow> False
      | Inr age \<Rightarrow> ds < age \<and> age \<le> dl \<and> bk (age - ds) = Inr k)"

definition oldest_of :: "(backup \<Rightarrow> bool) \<Rightarrow> backup list \<Rightarrow> backup \<Rightarrow> bool" where
  "oldest_of P bs b \<longleftrightarrow> b \<in> set bs \<and> P b \<and> (\<forall>c \<in> set bs. P c \<longrightarrow> b_time b \<le> b_time c)"

definition scan_ok ::
    "(int \<Rightarrow> int result) \<Rightarrow> machine \<Rightarrow> int \<Rightarrow> int \<Rightarrow> backup list \<Rightarrow> (int \<times> backup) list \<times> prune_map \<Rightarrow> bool" where
  "scan_ok bk m ds dl ys s \<longleftrightarrow>
     (case s of (old, p) \<Rightarrow>
        int_order.sorted_keys old \<and> addr_order.sorted_keys p \<and>
        (\<forall>k. case om_find int_less k old of
               None \<Rightarrow> \<forall>y \<in> set ys. \<not> in_bucket bk m ds dl k y
             | Some c \<Rightarrow> oldest_of (in_bucket bk m ds dl k) ys c) \<and>
        pruned_addrs p = b_addr ` {y \<in> set ys. older_than m ds y \<and> older_than m dl y})"

lemma scan_ok_loop:
  assumes "fold_result (decay_scan_step bk m ds dl) ([], []) bs = Inr s"
  shows "scan_ok bk m ds dl bs s"
  using assms
proof (rule fold_result_invariant [where P = "scan_ok bk m ds dl"])
  show "scan_ok bk m ds dl [] ([], [])" by (simp add: scan_ok_def)
  fix ys b u t
  assume u: "scan_ok bk m ds dl ys u" and t: "decay_scan_step bk m ds dl u b = Inr t"
  obtain old p where op: "u = (old, p)" by force
  have so: "int_order.sorted_keys old" "addr_order.sorted_keys p" using u by (auto simp: scan_ok_def op)
  have old: "case om_find int_less j old of None \<Rightarrow> \<forall>y \<in> set ys. \<not> in_bucket bk m ds dl j y
             | Some c \<Rightarrow> oldest_of (in_bucket bk m ds dl j) ys c" for j
    using u by (auto simp: scan_ok_def op)
  have p: "pruned_addrs p = b_addr ` {y \<in> set ys. older_than m ds y \<and> older_than m dl y}"
    using u by (simp add: scan_ok_def op)
  have same: "case om_find int_less j old of None \<Rightarrow> \<forall>y \<in> set (ys @ [b]). \<not> in_bucket bk m ds dl j y
             | Some c \<Rightarrow> oldest_of (in_bucket bk m ds dl j) (ys @ [b]) c"
    if "\<not> in_bucket bk m ds dl j b" for j
    using old [of j] that by (auto simp: oldest_of_def split: option.splits)
  from t have "decay_scan_step bk m ds dl (old, p) b = Inr t" by (simp add: op)
  then show "scan_ok bk m ds dl (ys @ [b]) t"
  proof (cases rule: decay_scan_step_Inr)
    case (young age)
    then have "\<not> in_bucket bk m ds dl k b" "\<not> older_than m ds b" for k by (auto simp: in_bucket_def)
    then show ?thesis using same p so young(3)
      by (auto simp only: scan_ok_def prod.case) auto
  next
    case (too_old age)
    then have b: "\<not> in_bucket bk m ds dl k b" "older_than m ds b" "older_than m dl b" for k
      by (auto simp: in_bucket_def)
    have "{y \<in> set (ys @ [b]). older_than m ds y \<and> older_than m dl y} =
        insert b {y \<in> set ys. older_than m ds y \<and> older_than m dl y}" using b(2,3) by auto
    then show ?thesis using same [OF b(1)] p so too_old(4) by (simp add: scan_ok_def)
  next
    case (bucket age k)
    let ?old = "fst t"
    have b: "in_bucket bk m ds dl j b \<longleftrightarrow> j = k" "\<not> (older_than m ds b \<and> older_than m dl b)" for j
      using bucket by (auto simp: in_bucket_def)
    have "case om_find int_less j ?old of None \<Rightarrow> \<forall>y \<in> set (ys @ [b]). \<not> in_bucket bk m ds dl j y
             | Some c \<Rightarrow> oldest_of (in_bucket bk m ds dl j) (ys @ [b]) c" for j
      using same [of j] old [of k] b(1)
      by (cases "j = k")
        (auto simp: bucket(5) int_order.om_find_put [OF so(1)] oldest_of_def split: option.splits)
    moreover have "int_order.sorted_keys ?old"
      using so by (auto simp: bucket(5) int_order.sorted_om_put split: option.splits)
    moreover have "{y \<in> set (ys @ [b]). older_than m ds y \<and> older_than m dl y} =
        {y \<in> set ys. older_than m ds y \<and> older_than m dl y}" using b(2) by auto
    ultimately show ?thesis using p so by (simp add: scan_ok_def bucket(5))
  qed
qed

lemma prune_loop:
  assumes "fold_result (decay_prune_step bk m ds dl old) p bs = Inr q" "addr_order.sorted_keys p"
  shows "addr_order.sorted_keys q \<and> pruned_addrs q = pruned_addrs p \<union> b_addr `
    {y \<in> set bs. \<exists>k c. in_bucket bk m ds dl k y \<and> om_find int_less k old = Some c \<and> b_addr y \<noteq> b_addr c}"
proof -
  define Q where "Q y \<longleftrightarrow> (\<exists>k c. in_bucket bk m ds dl k y \<and> om_find int_less k old = Some c \<and> b_addr y \<noteq> b_addr c)"
    for y
  define P where "P ys q \<longleftrightarrow> addr_order.sorted_keys q \<and> pruned_addrs q = pruned_addrs p \<union> b_addr ` {y \<in> set ys. Q y}"
    for ys q
  have "P bs q"
    using assms(1)
  proof (rule fold_result_invariant [where P = P])
    show "P [] p" using assms(2) by (simp add: P_def)
    fix ys b u t
    assume u: "P ys u" and t: "decay_prune_step bk m ds dl old u b = Inr t"
    have ext: "{y \<in> set (ys @ [b]). Q y} = (if Q b then insert b {y \<in> set ys. Q y} else {y \<in> set ys. Q y})" by auto
    from t show "P (ys @ [b]) t"
    proof (cases rule: decay_prune_step_Inr)
      case (keep age)
      then have "\<not> Q b" by (auto simp: Q_def in_bucket_def)
      then show ?thesis using u keep(3) unfolding P_def ext by simp
    next
      case (bucket age k c)
      then have "in_bucket bk m ds dl j b \<longleftrightarrow> j = k" for j by (auto simp: in_bucket_def)
      then have Qb: "Q b \<longleftrightarrow> b_addr b \<noteq> b_addr c" using bucket(5) by (simp add: Q_def)
      show ?thesis using u unfolding P_def ext Qb bucket(6) by simp
    qed
  qed
  then show ?thesis by (simp add: P_def Q_def)
qed

lemma addr_image_iff: "distinct (map b_addr bs) \<Longrightarrow> b \<in> set bs \<Longrightarrow> b_addr b \<in> b_addr ` {y \<in> set bs. R y} \<longleftrightarrow> R b"
  by (auto simp: distinct_map dest: inj_onD)

lemma oldest_unique:
  assumes "distinct (map b_time bs)" "oldest_of P bs b" "oldest_of P bs c"
  shows "b = c"
proof -
  have o: "b \<in> set bs" "c \<in> set bs" "b_time b \<le> b_time c" "b_time c \<le> b_time b"
    using assms(2,3) unfolding oldest_of_def by blast+
  have "inj_on b_time (set bs)" using assms(1) by (simp add: distinct_map)
  then show ?thesis by (rule inj_onD) (use o in simp_all)
qed

lemma decay_outcome:
  assumes ok: "prune_decay_with bk m ds dl bs [] = Inr q" "length bs \<noteq> 1"
    and dist: "distinct (map b_addr bs)" "distinct (map b_time bs)" and b: "b \<in> set bs"
  shows "\<not> older_than m ds b \<Longrightarrow> b_addr b \<notin> pruned_addrs q"
    and "older_than m ds b \<Longrightarrow> older_than m dl b \<Longrightarrow> b_addr b \<in> pruned_addrs q"
    and "in_bucket bk m ds dl k b \<Longrightarrow>
      b_addr b \<in> pruned_addrs q \<longleftrightarrow> \<not> oldest_of (in_bucket bk m ds dl k) bs b"
proof -
  from ok obtain old p where f: "fold_result (decay_scan_step bk m ds dl) ([], []) bs = Inr (old, p)"
    and g: "fold_result (decay_prune_step bk m ds dl old) p bs = Inr q"
    by (auto simp: prune_decay_with_def result_simps)
  note sc = scan_ok_loop [OF f, unfolded scan_ok_def prod.case]
  have s: "addr_order.sorted_keys p"
    "pruned_addrs p = b_addr ` {y \<in> set bs. older_than m ds y \<and> older_than m dl y}"
    using sc by (rule conjunct1 [OF conjunct2], rule conjunct2 [OF conjunct2 [OF conjunct2]])
  have old: "case om_find int_less k old of None \<Rightarrow> \<forall>y \<in> set bs. \<not> in_bucket bk m ds dl k y
             | Some c \<Rightarrow> oldest_of (in_bucket bk m ds dl k) bs c" for k
    using sc by (rule conjunct1 [OF conjunct2 [OF conjunct2], THEN spec])
  define Q where "Q y \<longleftrightarrow> (\<exists>k c. in_bucket bk m ds dl k y \<and> om_find int_less k old = Some c \<and> b_addr y \<noteq> b_addr c)"
    for y
  have q: "b_addr b \<in> pruned_addrs q \<longleftrightarrow> (older_than m ds b \<and> older_than m dl b) \<or> Q b"
  proof -
    have "pruned_addrs q = b_addr ` {y \<in> set bs. older_than m ds y \<and> older_than m dl y} \<union> b_addr ` {y \<in> set bs. Q y}"
      using prune_loop [OF g s(1)] unfolding s(2) Q_def by (rule conjunct2)
    then show ?thesis by (simp only: Un_iff addr_image_iff [OF dist(1) b])
  qed
  have kinds: "in_bucket bk m ds dl k b \<Longrightarrow> older_than m ds b \<and> \<not> older_than m dl b" for k
    by (auto simp: in_bucket_def older_than_def split: sum.splits)
  show "\<not> older_than m ds b \<Longrightarrow> b_addr b \<notin> pruned_addrs q"
    "older_than m ds b \<Longrightarrow> older_than m dl b \<Longrightarrow> b_addr b \<in> pruned_addrs q"
    using q kinds unfolding Q_def by blast+
  assume k: "in_bucket bk m ds dl k b"
  with old [of k] b obtain c where c: "om_find int_less k old = Some c" "oldest_of (in_bucket bk m ds dl k) bs c"
    by (cases "om_find int_less k old") simp_all
  have "j = k" if "in_bucket bk m ds dl j b" for j
    using k that by (auto simp: in_bucket_def split: sum.splits)
  then have "Q b \<longleftrightarrow> b_addr b \<noteq> b_addr c" using k c(1) unfolding Q_def by (metis option.inject)
  also have "\<dots> \<longleftrightarrow> b \<noteq> c"
    using c(2) b dist(1) inj_onD [of b_addr "set bs" b c] unfolding oldest_of_def distinct_map by blast
  also have "\<dots> \<longleftrightarrow> \<not> oldest_of (in_bucket bk m ds dl k) bs b"
    using oldest_unique [OF dist(2) c(2)] c(2) by blast
  finally show "b_addr b \<in> pruned_addrs q \<longleftrightarrow> \<not> oldest_of (in_bucket bk m ds dl k) bs b"
    using q kinds [OF k] by blast
qed

text \<open>The buckets: number \<open>n\<close> takes the ages up to \<open>w * (s ^ (n + 1) - 1) / (s - 1)\<close>.\<close>

lemma bucket_bounds:
  assumes "0 < w" "1 < s" "0 < a"
  shows "prune_decay_bucket w s a = Inr (int n) \<longleftrightarrow>
    s ^ n < (s - 1) * of_int a / w + 1 \<and> (s - 1) * of_int a / w + 1 \<le> s ^ (n + 1)"
proof -
  define x where "x = (s - 1) * of_int a / w + 1"
  have x: "1 < x" using assms by (simp add: x_def)
  have l: "log 2 x / log 2 s = log s x" using log_base_change [of 2 s x] assms by simp
  have "prune_decay_bucket w s a = Inr (int n) \<longleftrightarrow> \<lceil>log s x\<rceil> = int n + 1"
    using assms(1) l by (simp add: prune_decay_bucket_def flip: x_def) linarith
  also have "\<dots> \<longleftrightarrow> real n < log s x \<and> log s x \<le> real (n + 1)"
    by (auto simp: ceiling_eq_iff)
  also have "\<dots> \<longleftrightarrow> s ^ n < x \<and> x \<le> s ^ (n + 1)"
    using assms(2) x by (simp add: less_log_iff log_le_iff powr_realpow powr_add)
  finally show ?thesis by (simp add: x_def)
qed

text \<open>The output of a pruning program that lists backups with reasons is read back.\<close>

lemma exec_mark_unique:
  assumes "distinct (map b_time bs)" "b \<in> set bs" "om_find addr_less (b_addr b) p = None"
  shows "exec_mark (b_time b) r bs p f = Inr (om_put addr_less (b_addr b) r p, True)"
proof -
  have skip: "exec_mark t r cs p f = Inr (p, f)" if "\<forall>c \<in> set cs. b_time c \<noteq> t" for t cs p f
    using that by (induction cs) auto
  show ?thesis
    using assms
  proof (induction bs)
    case (Cons c bs)
    show ?case
    proof (cases "c = b")
      case True
      then have "\<forall>d \<in> set bs. b_time d \<noteq> b_time b" using Cons.prems(1) by (auto simp: image_iff)
      then show ?thesis using True Cons.prems(3) by (simp add: skip)
    next
      case False
      then have "b_time c \<noteq> b_time b" using Cons.prems(1,2) by (auto simp: image_iff)
      then show ?thesis using False Cons by simp
    qed
  qed simp
qed

definition exec_line :: "backup \<times> string \<Rightarrow> string" where
  "exec_line e = show_int (b_time (fst e)) @ '':'' @ snd e @ [LF]"

lemma exec_parse_line:
  assumes "distinct (map b_time bs)" "b \<in> set bs" "0 \<le> b_time b" "b_time b \<le> LLONG_MAX" "LF \<notin> set r"
    "om_find addr_less (b_addr b) p = None"
  shows "exec_parse bs p (exec_line (b, r) @ rest) = exec_parse bs (om_put addr_less (b_addr b) r p) rest"
proof -
  let ?t = "show_int (b_time b)"
  have no: "LF \<notin> set ?t" "CHR '':'' \<notin> set ?t"
    using show_int_chars [of _ "b_time b"] by (force simp: c_isdigit_def)+
  have tw: "takeWhile (\<lambda>c. c \<noteq> LF) (exec_line (b, r) @ rest) = ?t @ CHR '':'' # r"
    "dropWhile (\<lambda>c. c \<noteq> LF) (exec_line (b, r) @ rest) = LF # rest"
    using takeWhile_neq_append [of LF "?t @ CHR '':'' # r" rest] no(1) assms(5)
    by (simp_all add: exec_line_def)
  have "parseInteger ?t 0 LLONG_MAX 0 = Inr (b_time b)"
    by (rule parseInteger_show_int) (use assms in \<open>auto simp: limits\<close>)
  then show ?thesis
    using no exec_mark_unique [OF assms(1,2,6), of r False]
    by (subst exec_parse.simps) (simp add: tw Let_def, simp add: exec_line_def)
qed

definition entry_ok :: "backup list \<Rightarrow> backup \<times> string \<Rightarrow> bool" where
  "entry_ok bs e \<longleftrightarrow> fst e \<in> set bs \<and> 0 \<le> b_time (fst e) \<and> b_time (fst e) \<le> LLONG_MAX \<and> LF \<notin> set (snd e)"

lemma exec_parse_lines:
  assumes "distinct (map b_time bs)"
    "addr_order.sorted_keys p" "distinct (map (b_addr \<circ> fst) es)"
    "\<forall>e \<in> set es. entry_ok bs e \<and> b_addr (fst e) \<notin> pruned_addrs p"
  shows "\<exists>q. exec_parse bs p (concat (map exec_line es)) = Inr q \<and> addr_order.sorted_keys q \<and>
    map_of q = map_of p ++ map_of (map (\<lambda>e. (b_addr (fst e), snd e)) es)"
  using assms(2-4)
proof (induction es arbitrary: p)
  case Nil
  then show ?case by (simp add: exec_parse.simps)
next
  case (Cons e es)
  let ?a = "b_addr (fst e)"
  let ?p = "om_put addr_less ?a (snd e) p"
  have ok: "entry_ok bs e" "?a \<notin> pruned_addrs p" using Cons.prems(3) by simp_all
  then have find: "om_find addr_less ?a p = None" using find_in_addrs [OF Cons.prems(1)] by blast
  have step: "exec_parse bs p (exec_line e @ rest) = exec_parse bs ?p rest" for rest
    using exec_parse_line [OF assms(1), of "fst e" "snd e" p rest] ok(1) find by (simp add: entry_ok_def)
  have a: "?a \<notin> (b_addr \<circ> fst) ` set es" using Cons.prems(2) by simp
  have p: "pruned_addrs ?p = insert ?a (pruned_addrs p)" "addr_order.sorted_keys ?p"
    using Cons.prems(1) by simp_all
  have "entry_ok bs f \<and> b_addr (fst f) \<notin> pruned_addrs ?p" if "f \<in> set es" for f
    unfolding p(1) using that a Cons.prems(3) by (metis (no_types, lifting) comp_apply imageI insert_iff list.set_intros(2))
  moreover have "distinct (map (b_addr \<circ> fst) es)" using Cons.prems(2) by (simp add: comp_def)
  ultimately obtain q where q: "exec_parse bs ?p (concat (map exec_line es)) = Inr q" "addr_order.sorted_keys q"
    "map_of q = map_of ?p ++ map_of (map (\<lambda>e. (b_addr (fst e), snd e)) es)"
    using Cons.IH [OF p(2)] by blast
  have "map_of (map (\<lambda>e. (b_addr (fst e), snd e)) es) ?a = None"
    using a by (simp add: map_of_eq_None_iff image_image)
  then have mq: "map_of q = map_of p ++ map_of (map (\<lambda>e. (b_addr (fst e), snd e)) (e # es))"
    unfolding q(3) addr_order.map_of_om_put [OF Cons.prems(1) TrueI] by (simp add: map_add_def fun_eq_iff split: option.splits)
  have "exec_parse bs p (concat (map exec_line (e # es))) = Inr q" using q(1) step by simp
  with q(2) mq show ?case by blast
qed

section \<open>What the callers rely on\<close>

text \<open>
  Whatever the policy of a volume, the backups it selects for pruning are among the complete
  backups on the device it was asked about.
\<close>

theorem prunable_on_device:
  assumes "backupPrunable strtod run m host v onDevice [] n = Inr prune"
  shows "fst ` set prune \<subseteq> b_addr ` set onDevice"
  using backupPrunable_chosen [OF assms] by (simp add: chosen_from_def)

text \<open>
  The \<open>age\<close> policy never leaves fewer than \<open>min-backups\<close> backups on a device (or all of them,
  when there are fewer), prunes only backups older than \<open>prune-age\<close> days, and stops pruning those
  only when \<open>min-backups\<close> are left.
\<close>

theorem prune_age_guarantees:
  assumes "prune_age m v onDevice [] = Inr prune" "distinct (map b_addr onDevice)"
    "days_parameter v ''prune-age'' ''366d'' = Inr pruneAge"
    "parseInteger (pp_value (get_parameter_default (pruneParameters v) ''min-backups'' ''1'')) 1 INT_MAX 0
       = Inr minBackups"
  shows "length prune + min (nat minBackups) (length onDevice) \<le> length onDevice \<and>
    (\<forall>b \<in> set onDevice. b_addr b \<in> fst ` set prune \<longrightarrow> older_than m pruneAge b) \<and>
    (nat minBackups < length onDevice - length prune \<longrightarrow>
       (\<forall>b \<in> set onDevice. older_than m pruneAge b \<longrightarrow> b_addr b \<in> fst ` set prune))"
proof -
  from assms(1,3,4) obtain left where
    "fold_result (age_step m pruneAge minBackups (length onDevice)) (length onDevice, []) onDevice = Inr (left, prune)"
    by (auto simp: prune_age_def result_simps)
  from age_loop [OF this assms(2)] show ?thesis by auto
qed


text \<open>
  So when every backup on a device with several is older than both limits, the \<open>decay\<close> policy
  prunes all of them: no backup of the volume is left there.
\<close>

theorem prune_decay_leaves_none:
  assumes "prune_decay_with bucket_of m decayStart decayLimit onDevice [] = Inr prune" "length onDevice \<noteq> 1"
    "distinct (map b_addr onDevice)" "distinct (map b_time onDevice)"
    "\<forall>b \<in> set onDevice. older_than m decayStart b \<and> older_than m decayLimit b"
  shows "b_addr ` set onDevice \<subseteq> fst ` set prune"
proof
  fix a assume "a \<in> b_addr ` set onDevice"
  then obtain b where b: "b \<in> set onDevice" "a = b_addr b" by blast
  show "a \<in> fst ` set prune"
    unfolding b(2) by (rule decay_outcome(2) [OF assms(1-4) b(1)]) (use assms(5) b(1) in blast)+
qed

text \<open>
  Decay bucket \<open>n\<close> holds the ages \<open>a\<close> (in days after \<open>decay-start\<close>) with
  \<open>s ^ n < (s - 1) * a / w + 1 \<le> s ^ (n + 1)\<close>: each bucket is \<open>s\<close> times as long as the one before, and
  the first is \<open>w\<close> days.
\<close>

theorem prune_decay_bucket_ages:
  assumes "0 < w" "1 < s" "0 < a"
  shows "prune_decay_bucket w s a = Inr (int n) \<longleftrightarrow>
    w * (s ^ n - 1) / (s - 1) < of_int a \<and> of_int a \<le> w * (s ^ (n + 1) - 1) / (s - 1)"
proof -
  have "s ^ k < (s - 1) * of_int a / w + 1 \<longleftrightarrow> w * (s ^ k - 1) / (s - 1) < of_int a" for k
    using assms by (simp add: field_simps)
  then show ?thesis using bucket_bounds [OF assms, of n] by (metis not_le)
qed

theorem prune_decay_bucket_ages_witness:
  "prune_decay_bucket 1 2 3 = Inr (int 1) \<longleftrightarrow>
     1 * (2 ^ 1 - 1) / (2 - 1) < real_of_int 3 \<and> real_of_int 3 \<le> 1 * (2 ^ (1 + 1) - 1) / (2 - 1)"
  by (rule prune_decay_bucket_ages) simp_all

text \<open>
  A pruning program that lists some of the device's backups, each with a reason, one per line,
  prunes exactly those, for those reasons.
\<close>

theorem exec_output_read_back:
  assumes "distinct (map b_time onDevice)" "distinct (map (b_addr \<circ> fst) es)" "\<forall>e \<in> set es. entry_ok onDevice e"
  shows "\<exists>prune. exec_parse onDevice [] (concat (map exec_line es)) = Inr prune \<and>
    map_of prune = map_of (map (\<lambda>e. (b_addr (fst e), snd e)) es)"
  using exec_parse_lines [OF assms(1) addr_order.sorted_keys_simps(1) assms(2)] assms(3) by auto

section \<open>Concrete policies\<close>

definition sample_machine :: machine where
  "sample_machine = \<lparr>localtime = (\<lambda>t. Some (Date (2019 + t div 31536000) 6 (1 + t mod 28))),
     getenv = (\<lambda>_. None), strptime = (\<lambda>_. None), clock = 10 * 31536000\<rparr>"

definition sample_on_device :: "backup list" where
  "sample_on_device = [sample_backup 1 5 ''d'', sample_backup 2 7 ''d'']"

lemma sample_ages:
  "prune_age_of sample_machine (sample_backup 1 5 ''d'') = Inr 3652"
  "prune_age_of sample_machine (sample_backup 2 7 ''d'') = Inr 3650"
  by code_simp+

lemma sample_parameters:
  "days_parameter sample_volume ''prune-age'' ''366d'' = Inr 366"
  "parseInteger (pp_value (get_parameter_default (pruneParameters sample_volume) ''min-backups'' ''1'')) 1 INT_MAX 0
     = Inr 1"
  by code_simp+

lemma sample_age: "prune_age sample_machine sample_volume sample_on_device [] = Inr [(1, age_reason 3652 366 2 1)]"
  by (simp add: prune_age_def sample_parameters sample_on_device_def age_step_def sample_ages Let_def del: One_nat_def)
    (simp add: sample_backup_def numeral_2_eq_2)

theorem prunable_on_device_witness:
  "\<exists>prune. backupPrunable (\<lambda>_. (2, [], None)) (\<lambda>_ _. (0, [])) sample_machine ''h'' sample_volume
      sample_on_device [] 2 = Inr prune \<and> fst ` set prune \<subseteq> b_addr ` set sample_on_device"
proof -
  have "prunePolicy sample_volume = ''age''" by code_simp
  then have "backupPrunable (\<lambda>_. (2, [], None)) (\<lambda>_ _. (0, [])) sample_machine ''h'' sample_volume
      sample_on_device [] 2 = Inr [(1, age_reason 3652 366 2 1)]"
    using sample_age
    by (simp add: backupPrunable_def find_prune_policy_def policy_prunable_def) (simp add: sample_on_device_def)
  from prunable_on_device [OF this] this show ?thesis by blast
qed

theorem prune_age_guarantees_witness:
  "length [(1::nat, age_reason 3652 366 2 1)] + min (nat 1) (length sample_on_device) \<le> length sample_on_device \<and>
    older_than sample_machine 366 (sample_backup 1 5 ''d'')"
proof -
  have "distinct (map b_addr sample_on_device)" by code_simp
  note w = prune_age_guarantees [OF sample_age this sample_parameters]
  have "sample_backup 1 5 ''d'' \<in> set sample_on_device" "b_addr (sample_backup 1 5 ''d'') = 1"
    by (simp_all add: sample_on_device_def sample_backup_def)
  with w show ?thesis by auto
qed

definition sample_bucket :: "int \<Rightarrow> int result" where
  "sample_bucket a = Inr (a div 1000)"

text \<open>Two backups in one bucket: the first, which is older, stays.\<close>

lemma sample_decay:
  "prune_decay_with sample_bucket sample_machine 1 4000 sample_on_device [] = Inr [(2, bucket_reason 3650 1 3)]"
  "prune_decay_with sample_bucket sample_machine 1 366 sample_on_device [] =
     Inr [(1, limit_reason 3652 366), (2, limit_reason 3650 366)]"
  by (simp_all add: prune_decay_with_def sample_on_device_def decay_scan_step_def decay_prune_step_def sample_ages
      sample_bucket_def Let_def del: One_nat_def) (simp_all add: sample_backup_def)

lemma sample_distinct:
  "length sample_on_device \<noteq> 1" "distinct (map b_addr sample_on_device)" "distinct (map b_time sample_on_device)"
  by code_simp+


theorem prune_decay_leaves_none_witness:
  "b_addr ` set sample_on_device \<subseteq> fst ` set [(1, limit_reason 3652 366), (2, limit_reason 3650 366)]"
  by (rule prune_decay_leaves_none [OF sample_decay(2) sample_distinct]) code_simp

theorem exec_output_read_back_witness:
  "\<exists>prune. exec_parse sample_on_device [] (concat (map exec_line [(sample_backup 2 7 ''d'', ''too old'')])) = Inr prune \<and>
    map_of prune = map_of (map (\<lambda>e. (b_addr (fst e), snd e)) [(sample_backup 2 7 ''d'', ''too old'')])"
  by (rule exec_output_read_back) code_simp+

text \<open>
  Validation accepts a \<open>decay-window\<close> of less than a day; the policy then rounds it to 0 days and
  divides by it.
\<close>

theorem prune_decay_window_zero:
  "let v = sample_volume\<lparr>pruneParameters := [(''decay-limit'', \<lparr>pp_value = ''4000d'', pp_location = no_location\<rparr>), (''decay-window'', \<lparr>pp_value = ''1h'', pp_location = no_location\<rparr>)]\<rparr>;
       strtod = (\<lambda>s. (2, [], None))
   in validate_decay strtod v = Inr () \<and>
      prune_decay strtod sample_machine v sample_on_device [] = Inl UndefinedBehaviour"
proof -
  let ?v = "sample_volume\<lparr>pruneParameters := [(''decay-limit'', \<lparr>pp_value = ''4000d'', pp_location = no_location\<rparr>), (''decay-window'', \<lparr>pp_value = ''1h'', pp_location = no_location\<rparr>)]\<rparr>"
   have p: "pruneParameters ?v = [(''decay-limit'', \<lparr>pp_value = ''4000d'', pp_location = no_location\<rparr>), (''decay-window'', \<lparr>pp_value = ''1h'', pp_location = no_location\<rparr>)]" by simp
  have w: "days_parameter ?v ''decay-start'' ''1d'' = Inr 1" "days_parameter ?v ''decay-window'' ''1d'' = Inr 0"
    "days_parameter ?v ''decay-limit'' ''366d'' = Inr 4000"
    by code_simp+
  have i: "interval_at_least_1 ''decay-start'' (get_parameter_default (pruneParameters ?v) ''decay-start'' ''1d'') = Inr ()"
    "interval_at_least_1 ''decay-window'' (get_parameter_default (pruneParameters ?v) ''decay-window'' ''1d'') = Inr ()"
    "interval_at_least_1 ''decay-limit'' (get_parameter_default (pruneParameters ?v) ''decay-limit'' ''366d'') = Inr ()"
    by code_simp+
  have s: "decay_scale (\<lambda>s. (2, [], None)) (pp_value (get_parameter_default (pruneParameters ?v) ''decay-scale'' ''2'')) = Inr 2"
    unfolding p by (simp add: get_parameter_default_def decay_scale_def parseFloat_def c_str_def)
  show ?thesis
    unfolding Let_def validate_decay_def prune_decay_def w i s
    by (simp add: located_def prune_decay_with_def sample_on_device_def decay_scan_step_def sample_ages
        prune_decay_bucket_def del: One_nat_def)
qed
end
