(* ===== verification/Actions.thy ===== *)
theory Actions
  imports OrdMap
begin

text \<open>
  The scheduler that runs removals concurrently: \<^verbatim>\<open>src/Action.h\<close> and \<^verbatim>\<open>src/Action.cc\<close>.
  An \<open>ActionList\<close> holds the actions that are not finished, the outcomes of those that are, and the
  resources in use.  \<open>go\<close> of an action runs a child, which finishes later by an event, or finishes at
  once: \<open>sync\<close> gives the outcome in the second case.  \<open>fnmatch\<close> (with \<open>FNM_PATHNAME\<close>) and the clock
  (\<open>expired\<close>: the time limit is over) are arguments; \<open>done\<close> does nothing unless overridden.

  \<open>completed\<close> calls \<open>trigger\<close>, which \<open>trigger\<close> can reach through an action that finishes at once;
  the inner call runs until nothing can start, so the outer one finds nothing more to do, and the
  model leaves it out.
\<close>

section \<open>The data\<close>

datatype action_state = Pending | Running | Succeeded | Failed

record action_status =
  as_name :: string
  as_succeeded :: bool
  as_glob :: bool

record action =
  a_name :: string
  a_resources :: "string list"
  a_predecessors :: "action_status list"
  a_state :: action_state
  a_priority :: int

record action_list =
  al_actions :: "(string \<times> action) list"
  al_states :: "(string \<times> action_state) list"
  al_resources :: "string list"

abbreviation sless :: "string \<Rightarrow> string \<Rightarrow> bool" where
  "sless \<equiv> (<)"

definition new_action :: "string \<Rightarrow> action" where
  "new_action n = \<lparr>a_name = n, a_resources = [], a_predecessors = [], a_state = Pending, a_priority = 0\<rparr>"

definition uses :: "string \<Rightarrow> action \<Rightarrow> action" where
  "uses r a = a\<lparr>a_resources := a_resources a @ [r]\<rparr>"

definition after :: "string \<Rightarrow> bool \<Rightarrow> bool \<Rightarrow> action \<Rightarrow> action" where
  "after n succeeded glob a =
     a\<lparr>a_predecessors := a_predecessors a @ [\<lparr>as_name = n, as_succeeded = succeeded, as_glob = glob\<rparr>]\<rparr>"

definition set_priority :: "int \<Rightarrow> action \<Rightarrow> action" where
  "set_priority p a = a\<lparr>a_priority := p\<rparr>"

definition new_action_list :: action_list where
  "new_action_list = \<lparr>al_actions = [], al_states = [], al_resources = []\<rparr>"

definition al_add :: "action \<Rightarrow> action_list \<Rightarrow> action_list result" where
  "al_add a al =
     (if om_find sless (a_name a) (al_actions al) \<noteq> None
      then Inl (LogicError (''duplicate action '' @ a_name a))
      else Inr (al\<lparr>al_actions := om_put sless (a_name a) a (al_actions al)\<rparr>))"

section \<open>What holds an action back\<close>

definition blocked_by_resource :: "action_list \<Rightarrow> action \<Rightarrow> bool" where
  "blocked_by_resource al a = list_ex (\<lambda>r. os_member sless r (al_resources al)) (a_resources a)"

definition al_find :: "(string \<Rightarrow> string \<Rightarrow> bool) \<Rightarrow> action_status \<Rightarrow> action_list \<Rightarrow> action option" where
  "al_find fnmatch p al =
     (if as_glob p then map_option snd (find (\<lambda>(n, _). fnmatch (as_name p) n) (al_actions al))
      else om_find sless (as_name p) (al_actions al))"

fun dependency_blocks ::
    "(string \<Rightarrow> string \<Rightarrow> bool) \<Rightarrow> action_list \<Rightarrow> string \<Rightarrow> action_status list \<Rightarrow> bool result" where
  "dependency_blocks fnmatch al name [] = Inr False"
| "dependency_blocks fnmatch al name (p # ps) =
     (if al_find fnmatch p al \<noteq> None then Inr True
      else if \<not> as_glob p \<and> om_find sless (as_name p) (al_states al) = None
      then Inl (LogicError (name @ '' follows unknown action '' @ as_name p))
      else dependency_blocks fnmatch al name ps)"

definition blocked_by_dependency :: "(string \<Rightarrow> string \<Rightarrow> bool) \<Rightarrow> action_list \<Rightarrow> action \<Rightarrow> bool result" where
  "blocked_by_dependency fnmatch al a = dependency_blocks fnmatch al (a_name a) (a_predecessors a)"

definition dependency_failed :: "(string \<Rightarrow> string \<Rightarrow> bool) \<Rightarrow> action_list \<Rightarrow> action_status \<Rightarrow> bool" where
  "dependency_failed fnmatch al p =
     (if as_glob p
      then list_ex (\<lambda>(n, s). fnmatch (as_name p) n \<and> s \<noteq> Succeeded) (al_states al)
      else (case om_find sless (as_name p) (al_states al) of
              None \<Rightarrow> False | Some s \<Rightarrow> as_succeeded p \<and> s \<noteq> Succeeded))"

definition failed_by_dependency :: "(string \<Rightarrow> string \<Rightarrow> bool) \<Rightarrow> action_list \<Rightarrow> action \<Rightarrow> bool" where
  "failed_by_dependency fnmatch al a = list_ex (dependency_failed fnmatch al) (a_predecessors a)"

section \<open>Finishing and starting\<close>

definition outcome :: "bool \<Rightarrow> action_state" where
  "outcome succeeded = (if succeeded then Succeeded else Failed)"

text \<open>\<open>cleanup\<close>, without the \<open>trigger\<close> at its end.\<close>

definition cleanup :: "action \<Rightarrow> bool \<Rightarrow> bool \<Rightarrow> action_list \<Rightarrow> action_list" where
  "cleanup a succeeded did_run al =
     al\<lparr>al_resources := (if did_run then filter (\<lambda>r. r \<notin> set (a_resources a)) (al_resources al) else al_resources al),
        al_actions := om_erase sless (a_name a) (al_actions al),
        al_states := om_put sless (a_name a) (outcome succeeded) (al_states al)\<rparr>"

definition start :: "action \<Rightarrow> action_list \<Rightarrow> action_list" where
  "start a al =
     al\<lparr>al_actions := om_put sless (a_name a) (a\<lparr>a_state := Running\<rparr>) (al_actions al),
        al_resources := foldl (\<lambda>rs r. fst (os_insert sless r rs)) (al_resources al) (a_resources a)\<rparr>"

text \<open>The loop that looks for an action to start: it stops at one whose dependency failed.\<close>

datatype scan_result = Doomed action | Chosen "action option"

fun scan_actions ::
    "(string \<Rightarrow> string \<Rightarrow> bool) \<Rightarrow> action_list \<Rightarrow> action option \<Rightarrow> action list \<Rightarrow> scan_result result" where
  "scan_actions fnmatch al chosen [] = Inr (Chosen chosen)"
| "scan_actions fnmatch al chosen (a # as) =
     (if a_state a \<noteq> Pending \<or> blocked_by_resource al a then scan_actions fnmatch al chosen as
      else rbind (blocked_by_dependency fnmatch al a) (\<lambda>blocked.
             if blocked then scan_actions fnmatch al chosen as
             else if failed_by_dependency fnmatch al a then Inr (Doomed a)
             else scan_actions fnmatch al
                    (case chosen of None \<Rightarrow> Some a
                     | Some c \<Rightarrow> if a_priority c < a_priority a then Some a else chosen) as))"

definition next_action :: "(string \<Rightarrow> string \<Rightarrow> bool) \<Rightarrow> action_list \<Rightarrow> scan_result result" where
  "next_action fnmatch al = scan_actions fnmatch al None (map snd (al_actions al))"

text \<open>One round of \<open>trigger\<close>: \<open>None\<close> when there is nothing left to start.\<close>

definition trigger_round ::
    "(string \<Rightarrow> string \<Rightarrow> bool) \<Rightarrow> (string \<Rightarrow> bool option) \<Rightarrow> action_list \<Rightarrow> action_list option result" where
  "trigger_round fnmatch sync al =
     rbind (next_action fnmatch al) (\<lambda>r.
       case r of
         Doomed a \<Rightarrow> Inr (Some (cleanup a False False al))
       | Chosen None \<Rightarrow> Inr None
       | Chosen (Some a) \<Rightarrow>
           (case sync (a_name a) of
              None \<Rightarrow> Inr (Some (start a al))
            | Some ok \<Rightarrow> Inr (Some (cleanup a ok True (start a al)))))"

definition pending :: "action_list \<Rightarrow> action list" where
  "pending al = filter (\<lambda>a. a_state a = Pending) (map snd (al_actions al))"

definition cancel_pending :: "action_list \<Rightarrow> action_list" where
  "cancel_pending al = foldl (\<lambda>al a. cleanup a False False al) al (pending al)"

section \<open>The invariant\<close>

definition running :: "action_list \<Rightarrow> action list" where
  "running al = filter (\<lambda>a. a_state a = Running) (map snd (al_actions al))"

text \<open>
  The map is ordered and keyed by the names; every action in it is pending or running; the resources
  in use are those of the running actions, and no resource is used by two of them.
\<close>

definition al_ok :: "action_list \<Rightarrow> bool" where
  "al_ok al \<longleftrightarrow>
     string_order.sorted_keys (al_actions al) \<and> string_order.sorted_keys (al_states al) \<and>
     string_order.sorted_set (al_resources al) \<and>
     (\<forall>(n, a) \<in> set (al_actions al). a_name a = n \<and> a_state a \<in> {Pending, Running}) \<and>
     set (al_resources al) = (\<Union>a \<in> set (running al). set (a_resources a)) \<and>
     (\<forall>a \<in> set (running al). \<forall>b \<in> set (running al). a \<noteq> b \<longrightarrow> set (a_resources a) \<inter> set (a_resources b) = {})"

text \<open>Nothing holds the action back.\<close>

definition ready :: "(string \<Rightarrow> string \<Rightarrow> bool) \<Rightarrow> action_list \<Rightarrow> action \<Rightarrow> bool" where
  "ready fnmatch al a \<longleftrightarrow> a_state a = Pending \<and> \<not> blocked_by_resource al a \<and>
     blocked_by_dependency fnmatch al a = Inr False"

lemma scan_actions_Cons:
  assumes "scan_actions fnmatch al chosen (a # as) = Inr r"
  obtains (skip) "\<not> ready fnmatch al a" "scan_actions fnmatch al chosen as = Inr r"
    | (doomed) "ready fnmatch al a" "failed_by_dependency fnmatch al a" "r = Doomed a"
    | (candidate) c where "ready fnmatch al a" "\<not> failed_by_dependency fnmatch al a"
        "c = (case chosen of None \<Rightarrow> a | Some c \<Rightarrow> if a_priority c < a_priority a then a else c)"
        "scan_actions fnmatch al (Some c) as = Inr r"
proof (cases "a_state a \<noteq> Pending \<or> blocked_by_resource al a")
  case True
  then show ?thesis using assms by (intro skip) (auto simp: ready_def)
next
  case False
  with assms obtain bl where bl: "blocked_by_dependency fnmatch al a = Inr bl" by (auto simp: rbind_Inr_iff)
  show ?thesis
  proof (cases bl)
    case True
    then show ?thesis using assms bl False by (intro skip) (simp_all add: ready_def)
  next
    case nb: False
    then have r: "ready fnmatch al a" using False bl by (simp add: ready_def)
    show ?thesis
    proof (cases "failed_by_dependency fnmatch al a")
      case True
      then show ?thesis using assms bl False nb r by (intro doomed) simp_all
    next
      case nf: False
      show ?thesis
        by (rule candidate [OF r nf refl]) (use assms bl False nb nf in \<open>cases chosen; simp split: if_splits\<close>)
    qed
  qed
qed

lemma scan_doomed:
  "scan_actions fnmatch al chosen as = Inr (Doomed a) \<Longrightarrow>
   a \<in> set as \<and> ready fnmatch al a \<and> failed_by_dependency fnmatch al a"
proof (induction as arbitrary: chosen)
  case (Cons b as)
  from Cons.prems show ?case by (cases rule: scan_actions_Cons) (use Cons.IH in auto)
qed simp

lemma scan_chosen:
  "scan_actions fnmatch al chosen as = Inr (Chosen (Some a)) \<Longrightarrow>
   (chosen = Some a \<or> a \<in> set as \<and> ready fnmatch al a \<and> \<not> failed_by_dependency fnmatch al a) \<and>
   (\<forall>c. chosen = Some c \<longrightarrow> a_priority c \<le> a_priority a) \<and>
   (\<forall>b \<in> set as. ready fnmatch al b \<longrightarrow> a_priority b \<le> a_priority a)"
proof (induction as arbitrary: chosen)
  case (Cons b as)
  from Cons.prems show ?case
  proof (cases rule: scan_actions_Cons)
    case skip
    with Cons.IH show ?thesis by auto
  next
    case (candidate c)
    from Cons.IH [OF candidate(4)] candidate(1-3) show ?thesis
      by (cases chosen) (auto split: if_splits)
  qed simp
qed simp

lemma scan_none:
  "scan_actions fnmatch al chosen as = Inr (Chosen None) \<Longrightarrow>
   chosen = None \<and> (\<forall>b \<in> set as. \<not> ready fnmatch al b)"
proof (induction as arbitrary: chosen)
  case (Cons b as)
  from Cons.prems show ?case by (cases rule: scan_actions_Cons) (use Cons.IH in auto)
qed simp

text \<open>Membership in the map of unfinished actions.\<close>

lemma al_okD:
  assumes "al_ok al"
  shows "string_order.sorted_keys (al_actions al)" "string_order.sorted_keys (al_states al)"
    "string_order.sorted_set (al_resources al)"
    "(n, a) \<in> set (al_actions al) \<Longrightarrow> a_name a = n"
    "(n, a) \<in> set (al_actions al) \<Longrightarrow> a_state a = Pending \<or> a_state a = Running"
    "set (al_resources al) = (\<Union>a \<in> set (running al). set (a_resources a))"
    "a \<in> set (running al) \<Longrightarrow> b \<in> set (running al) \<Longrightarrow> a \<noteq> b \<Longrightarrow> set (a_resources a) \<inter> set (a_resources b) = {}"
  using assms unfolding al_ok_def by auto

lemma om_find_in_set:
  assumes "string_order.sorted_keys m"
  shows "om_find sless k m = Some v \<longleftrightarrow> (k, v) \<in> set m"
proof -
  have "distinct (map fst m)" using assms by (induction m) (auto simp: image_iff)
  then show ?thesis using string_order.om_find_map_of [OF assms TrueI] by (simp add: map_of_eq_Some_iff)
qed

lemma om_put_set:
  assumes "string_order.sorted_keys m"
  shows "set (om_put sless k v m) = insert (k, v) {(j, w) \<in> set m. j \<noteq> k}"
proof -
  have s: "string_order.sorted_keys (om_put sless k v m)" by (rule string_order.sorted_om_put [OF assms TrueI])
  have "(j, w) \<in> set (om_put sless k v m) \<longleftrightarrow> (if j = k then w = v else (j, w) \<in> set m)" for j w
    unfolding om_find_in_set [OF s, symmetric] string_order.om_find_put [OF assms TrueI TrueI]
    by (auto simp: om_find_in_set [OF assms])
  then show ?thesis by (auto split: if_splits)
qed

lemma om_erase_set:
  assumes "string_order.sorted_keys m"
  shows "set (om_erase sless k m) = {(j, w) \<in> set m. j \<noteq> k}"
proof -
  have s: "string_order.sorted_keys (om_erase sless k m)" by (rule string_order.sorted_om_erase [OF assms])
  have "(j, w) \<in> set (om_erase sless k m) \<longleftrightarrow> j \<noteq> k \<and> (j, w) \<in> set m" for j w
    unfolding om_find_in_set [OF s, symmetric] string_order.om_find_erase [OF assms TrueI TrueI]
    by (auto simp: om_find_in_set [OF assms])
  then show ?thesis by auto
qed

lemma running_iff: "a \<in> set (running al) \<longleftrightarrow> a_state a = Running \<and> (\<exists>n. (n, a) \<in> set (al_actions al))"
  by (force simp: running_def)

lemma pending_iff: "a \<in> set (pending al) \<longleftrightarrow> a_state a = Pending \<and> (\<exists>n. (n, a) \<in> set (al_actions al))"
  by (force simp: pending_def)

lemma insert_resources:
  "string_order.sorted_set rs \<Longrightarrow>
   string_order.sorted_set (foldl (\<lambda>rs r. fst (os_insert sless r rs)) rs xs) \<and>
   set (foldl (\<lambda>rs r. fst (os_insert sless r rs)) rs xs) = set rs \<union> set xs"
  by (induction xs arbitrary: rs) (auto simp: string_order.os_insert_sorted string_order.os_insert_set)

lemma sorted_set_filter: "string_order.sorted_set xs \<Longrightarrow> string_order.sorted_set (filter P xs)"
  by (induction xs) auto

lemma al_ok_new: "al_ok new_action_list"
  by (simp add: al_ok_def new_action_list_def running_def)

text \<open>Adding, dropping, starting and finishing an action.\<close>

lemma al_okI:
  assumes "string_order.sorted_keys (al_actions al)" "string_order.sorted_keys (al_states al)"
    "string_order.sorted_set (al_resources al)"
    "\<And>n a. (n, a) \<in> set (al_actions al) \<Longrightarrow> a_name a = n \<and> (a_state a = Pending \<or> a_state a = Running)"
    "set (al_resources al) = (\<Union>a \<in> set (running al). set (a_resources a))"
    "\<And>a b. a \<in> set (running al) \<Longrightarrow> b \<in> set (running al) \<Longrightarrow> a \<noteq> b \<Longrightarrow>
       set (a_resources a) \<inter> set (a_resources b) = {}"
  shows "al_ok al"
  unfolding al_ok_def using assms by (auto simp: disjoint_iff)

lemma same_name:
  assumes "al_ok al" "(n, a) \<in> set (al_actions al)" "(k, b) \<in> set (al_actions al)" "a_name a = a_name b"
  shows "a = b \<and> n = k"
  using om_find_in_set [OF al_okD(1) [OF assms(1)]] al_okD(4) [OF assms(1)] assms(2-4)
  by (metis option.inject)

lemma al_ok_add:
  assumes "al_ok al" "al_add a al = Inr al'" "a_state a = Pending"
  shows "al_ok al'"
proof -
  note k = al_okD [OF assms(1)]
  from assms(2) have al': "al' = al\<lparr>al_actions := om_put sless (a_name a) a (al_actions al)\<rparr>"
    and new: "om_find sless (a_name a) (al_actions al) = None"
    by (auto simp: al_add_def split: if_splits)
  then have set': "set (al_actions al') = insert (a_name a, a) (set (al_actions al))"
    using om_put_set [OF k(1), of "a_name a" a] om_find_in_set [OF k(1), of "a_name a"] by auto
  have run: "set (running al') = set (running al)"
    using assms(3) by (auto simp: running_iff set')
  show ?thesis
  proof (rule al_okI)
    fix n b assume "(n, b) \<in> set (al_actions al')"
    then show "a_name b = n \<and> (a_state b = Pending \<or> a_state b = Running)"
      using k(4,5) assms(3) by (auto simp: set')
  qed (use k run in \<open>auto simp: al' string_order.sorted_om_put\<close>)
qed

lemma al_ok_drop:
  assumes "al_ok al" "(n, a) \<in> set (al_actions al)" "a_state a = Pending"
  shows "al_ok (cleanup a ok False al)"
proof -
  note k = al_okD [OF assms(1)]
  have n: "n = a_name a" using k(4) assms(2) by auto
  have set': "set (al_actions (cleanup a ok False al)) = {(j, b) \<in> set (al_actions al). j \<noteq> a_name a}"
    by (simp add: cleanup_def om_erase_set [OF k(1)])
  have run: "set (running (cleanup a ok False al)) = set (running al)"
    using same_name [OF assms(1,2)] assms(3) k(4) by (fastforce simp: running_iff set')
  show ?thesis
  proof (rule al_okI)
    fix m b assume "(m, b) \<in> set (al_actions (cleanup a ok False al))"
    then show "a_name b = m \<and> (a_state b = Pending \<or> a_state b = Running)" using k(4,5) by (auto simp: set')
  qed (use k run in \<open>auto simp: cleanup_def string_order.sorted_om_erase string_order.sorted_om_put\<close>)
qed

lemma al_ok_finish:
  assumes "al_ok al" "(n, a) \<in> set (al_actions al)" "a_state a = Running"
  shows "al_ok (cleanup a ok True al)"
proof -
  note k = al_okD [OF assms(1)]
  let ?al = "cleanup a ok True al"
  have n: "n = a_name a" using k(4) assms(2) by auto
  have set': "set (al_actions ?al) = {(j, b) \<in> set (al_actions al). j \<noteq> a_name a}"
    by (simp add: cleanup_def om_erase_set [OF k(1)])
  have run: "set (running ?al) = set (running al) - {a}"
  proof -
    have "j \<noteq> a_name a \<longleftrightarrow> b \<noteq> a" if "(j, b) \<in> set (al_actions al)" for j b
      using same_name [OF assms(1,2) that] k(4) [OF that] n by metis
    then show ?thesis unfolding set_eq_iff Diff_iff running_iff set' by auto
  qed
  have a: "a \<in> set (running al)" using assms(2,3) by (auto simp: running_iff)
  have "set (al_resources ?al) = set (al_resources al) - set (a_resources a)"
    by (auto simp: cleanup_def)
  also have "\<dots> = (\<Union>b \<in> set (running al) - {a}. set (a_resources b))"
    unfolding k(6) using k(7) [OF a] by blast
  finally have res: "set (al_resources ?al) = (\<Union>b \<in> set (running ?al). set (a_resources b))" by (simp add: run)
  show ?thesis
  proof (rule al_okI)
    fix m b assume "(m, b) \<in> set (al_actions ?al)"
    then have "(m, b) \<in> set (al_actions al)" by (simp add: set')
    then show "a_name b = m \<and> (a_state b = Pending \<or> a_state b = Running)" using k(4,5) by blast
  next
    show "string_order.sorted_set (al_resources ?al)" using k(3) by (simp add: cleanup_def sorted_set_filter)
    show "string_order.sorted_keys (al_actions ?al)" "string_order.sorted_keys (al_states ?al)"
      using k(1,2) by (simp_all add: cleanup_def string_order.sorted_om_erase string_order.sorted_om_put)
    show "set (al_resources ?al) = (\<Union>b \<in> set (running ?al). set (a_resources b))" by (rule res)
    fix b c assume "b \<in> set (running ?al)" "c \<in> set (running ?al)" "b \<noteq> c"
    then show "set (a_resources b) \<inter> set (a_resources c) = {}" using k(7) by (simp add: run)
  qed
qed

lemma al_ok_start:
  assumes "al_ok al" "(n, a) \<in> set (al_actions al)" "ready fnmatch al a"
  shows "al_ok (start a al)" "(a_name a, a\<lparr>a_state := Running\<rparr>) \<in> set (al_actions (start a al))"
    "set (al_actions (start a al)) =
       insert (a_name a, a\<lparr>a_state := Running\<rparr>) {(j, b) \<in> set (al_actions al). j \<noteq> a_name a}"
proof -
  note k = al_okD [OF assms(1)]
  let ?al = "start a al" and ?a = "a\<lparr>a_state := Running\<rparr>"
  have n: "n = a_name a" using k(4) assms(2) by auto
  show set': "set (al_actions ?al) = insert (a_name a, ?a) {(j, b) \<in> set (al_actions al). j \<noteq> a_name a}"
    by (simp add: start_def om_put_set [OF k(1)])
  then show "(a_name a, ?a) \<in> set (al_actions ?al)" by simp
  have nrun: "a_state a = Pending" using assms(3) by (simp add: ready_def)
  have "b \<noteq> a" if "b \<in> set (running al)" for b using that nrun by (auto simp: running_iff)
  then have run: "set (running ?al) = insert ?a (set (running al))"
    using same_name [OF assms(1,2)] k(4) n by (fastforce simp: running_iff set')
  have res: "set (al_resources ?al) = set (al_resources al) \<union> set (a_resources a)"
    "string_order.sorted_set (al_resources ?al)"
    using insert_resources [OF k(3)] by (simp_all add: start_def)
  have free: "set (a_resources a) \<inter> set (al_resources al) = {}"
    using assms(3) string_order.os_member_iff [OF k(3) TrueI]
    by (auto simp: ready_def blocked_by_resource_def list_ex_iff)
  show "al_ok ?al"
  proof (rule al_okI)
    fix m b assume "(m, b) \<in> set (al_actions ?al)"
    then show "a_name b = m \<and> (a_state b = Pending \<or> a_state b = Running)" using k(4,5) by (auto simp: set')
  next
    show "set (al_resources ?al) = (\<Union>a \<in> set (running ?al). set (a_resources a))"
      unfolding res run k(6) by auto
  next
    fix b c assume "b \<in> set (running ?al)" "c \<in> set (running ?al)" "b \<noteq> c"
    then show "set (a_resources b) \<inter> set (a_resources c) = {}"
      using free k(7) unfolding run k(6) by auto
  qed (use k res in \<open>auto simp: start_def string_order.sorted_om_put\<close>)
qed

section \<open>The scheduler's loop\<close>

partial_function (option) trigger ::
    "(string \<Rightarrow> string \<Rightarrow> bool) \<Rightarrow> (string \<Rightarrow> bool option) \<Rightarrow> action_list \<Rightarrow> action_list result option" where
  "trigger fnmatch sync al =
     (case trigger_round fnmatch sync al of
        Inl e \<Rightarrow> Some (Inl e)
      | Inr None \<Rightarrow> Some (Inr al)
      | Inr (Some al') \<Rightarrow> trigger fnmatch sync al')"

declare trigger.simps [code]

text \<open>\<open>ActionList::trigger\<close> with the test of the time limit in front.\<close>

definition trigger_limit ::
    "bool \<Rightarrow> (string \<Rightarrow> string \<Rightarrow> bool) \<Rightarrow> (string \<Rightarrow> bool option) \<Rightarrow> action_list \<Rightarrow> action_list result option" where
  "trigger_limit expired fnmatch sync al =
     (if expired then Some (Inr (cancel_pending al)) else trigger fnmatch sync al)"

text \<open>\<open>completed\<close>: called when the child of a running action ends.\<close>

definition al_completed ::
    "bool \<Rightarrow> (string \<Rightarrow> string \<Rightarrow> bool) \<Rightarrow> (string \<Rightarrow> bool option) \<Rightarrow> action \<Rightarrow> bool \<Rightarrow> action_list \<Rightarrow>
     action_list result option" where
  "al_completed expired fnmatch sync a succeeded al =
     trigger_limit expired fnmatch sync (cleanup a succeeded True al)"

text \<open>
  \<open>ActionList::go\<close>: until no action is left, \<open>trigger\<close> and wait for events; an event is the end of
  one running action.  The time limit may be over at any \<open>trigger\<close>.
\<close>

inductive al_step :: "(string \<Rightarrow> string \<Rightarrow> bool) \<Rightarrow> (string \<Rightarrow> bool option) \<Rightarrow> action_list \<Rightarrow> action_list \<Rightarrow> bool"
  for fnmatch sync where
  al_trigger: "al_actions al \<noteq> [] \<Longrightarrow> trigger_limit expired fnmatch sync al = Some (Inr al') \<Longrightarrow>
    al_step fnmatch sync al al'"
| al_event: "a \<in> set (running al) \<Longrightarrow> al_completed expired fnmatch sync a ok al = Some (Inr al') \<Longrightarrow>
    al_step fnmatch sync al al'"

lemma pending_drop:
  assumes "al_ok al" "(n, a) \<in> set (al_actions al)"
  shows "set (pending (cleanup a ok did_run al)) = set (pending al) - {a}"
proof -
  have set': "set (al_actions (cleanup a ok did_run al)) = {(j, b) \<in> set (al_actions al). j \<noteq> a_name a}"
    by (simp add: cleanup_def om_erase_set [OF al_okD(1) [OF assms(1)]])
  have "j \<noteq> a_name a \<longleftrightarrow> b \<noteq> a" if "(j, b) \<in> set (al_actions al)" for j b
    using same_name [OF assms that] al_okD(4) [OF assms(1)] that assms(2) by metis
  then show ?thesis unfolding set_eq_iff Diff_iff pending_iff set' by auto
qed

lemma pending_start:
  assumes "al_ok al" "(n, a) \<in> set (al_actions al)" "ready fnmatch al a"
  shows "set (pending (start a al)) = set (pending al) - {a}"
proof -
  have "j \<noteq> a_name a \<longleftrightarrow> b \<noteq> a" if "(j, b) \<in> set (al_actions al)" for j b
    using same_name [OF assms(1,2) that] al_okD(4) [OF assms(1)] that assms(2) by metis
  moreover have "a\<lparr>a_state := Running\<rparr> \<noteq> a"
  proof
    assume "a\<lparr>a_state := Running\<rparr> = a"
    then have "a_state (a\<lparr>a_state := Running\<rparr>) = a_state a" by (simp only:)
    then show False using assms(3) by (simp add: ready_def)
  qed
  ultimately show ?thesis
    unfolding set_eq_iff Diff_iff pending_iff al_ok_start(3) [OF assms] by auto
qed

text \<open>The cases of one round.\<close>

lemma trigger_round_Some:
  assumes "trigger_round fnmatch sync al = Inr (Some al')"
  obtains (dropped) n a where "(n, a) \<in> set (al_actions al)" "ready fnmatch al a"
      "failed_by_dependency fnmatch al a" "al' = cleanup a False False al"
    | (started) n a where "(n, a) \<in> set (al_actions al)" "ready fnmatch al a"
      "\<not> failed_by_dependency fnmatch al a" "al' = start a al"
    | (at_once) n a ok where "(n, a) \<in> set (al_actions al)" "ready fnmatch al a"
      "\<not> failed_by_dependency fnmatch al a" "al' = cleanup a ok True (start a al)"
proof -
  from assms obtain r where r: "next_action fnmatch al = Inr r"
    by (auto simp: trigger_round_def rbind_Inr_iff)
  show ?thesis
  proof (cases r)
    case (Doomed a)
    with r have "a \<in> snd ` set (al_actions al)" "ready fnmatch al a" "failed_by_dependency fnmatch al a"
      by (auto simp: next_action_def dest: scan_doomed)
    then show ?thesis using assms r Doomed dropped by (auto simp: trigger_round_def)
  next
    case (Chosen c)
    show ?thesis
    proof (cases c)
      case None
      then show ?thesis using assms r Chosen by (simp add: trigger_round_def)
    next
      case (Some a)
      with r Chosen have "a \<in> snd ` set (al_actions al)" "ready fnmatch al a" "\<not> failed_by_dependency fnmatch al a"
        by (auto simp: next_action_def dest: scan_chosen)
      then show ?thesis using assms r Chosen Some started at_once
        by (auto simp: trigger_round_def split: option.splits)
    qed
  qed
qed

lemma trigger_round_ok:
  assumes "al_ok al" "trigger_round fnmatch sync al = Inr (Some al')"
  shows "al_ok al'" "card (set (pending al')) < card (set (pending al))"
proof -
  have less: "card (set (pending al) - {a}) < card (set (pending al))"
    if "(n, a) \<in> set (al_actions al)" "ready fnmatch al a" for n a
  proof -
    have "a \<in> set (pending al)" using that by (auto simp: pending_iff ready_def)
    then show ?thesis by (rule card_Diff1_less [OF finite_set])
  qed
  from assms(2) have "al_ok al' \<and> card (set (pending al')) < card (set (pending al))"
  proof (cases rule: trigger_round_Some)
    case (dropped n a)
    then have "a_state a = Pending" by (simp add: ready_def)
    then show ?thesis
      unfolding dropped(4) pending_drop [OF assms(1) dropped(1)]
      using al_ok_drop [OF assms(1) dropped(1)] less [OF dropped(1,2)] by blast
  next
    case (started n a)
    show ?thesis
      unfolding started(4) pending_start [OF assms(1) started(1,2)]
      using al_ok_start(1) [OF assms(1) started(1,2)] less [OF started(1,2)] by blast
  next
    case (at_once n a ok)
    note s = al_ok_start [OF assms(1) at_once(1,2)]
    have f: "al' = cleanup (a\<lparr>a_state := Running\<rparr>) ok True (start a al)" unfolding at_once(4) by (simp add: cleanup_def)
    have "al_ok al'" unfolding f by (rule al_ok_finish [OF s(1,2)]) simp
    moreover have "set (pending al') = set (pending al) - {a} - {a\<lparr>a_state := Running\<rparr>}"
      unfolding f pending_drop [OF s(1,2)] pending_start [OF assms(1) at_once(1,2)] by (rule refl)
    ultimately show ?thesis
      using less [OF at_once(1,2)] card_Diff1_le [of "set (pending al) - {a}"] by (metis le_less_trans)
  qed
  then show "al_ok al'" "card (set (pending al')) < card (set (pending al))" by blast+
qed

lemma trigger_total:
  "al_ok al \<Longrightarrow> \<exists>r. trigger fnmatch sync al = Some r \<and>
     (\<forall>al'. r = Inr al' \<longrightarrow> al_ok al' \<and> trigger_round fnmatch sync al' = Inr None)"
proof (induction "card (set (pending al))" arbitrary: al rule: less_induct)
  case less
  show ?case
  proof (cases "trigger_round fnmatch sync al")
    case (Inl e)
    then show ?thesis by (simp add: trigger.simps [of _ _ al])
  next
    case (Inr o')
    show ?thesis
    proof (cases o')
      case None
      then show ?thesis using Inr less(2) by (simp add: trigger.simps [of _ _ al])
    next
      case (Some al')
      note t = trigger_round_ok [OF less(2), of fnmatch sync al']
      show ?thesis using less(1) [OF t(2) t(1)] Inr Some by (simp add: trigger.simps [of _ _ al])
    qed
  qed
qed

lemma trigger_ok: "al_ok al \<Longrightarrow> trigger fnmatch sync al = Some (Inr al') \<Longrightarrow> al_ok al'"
  using trigger_total [of al fnmatch sync] by auto

section \<open>Dependencies are respected\<close>

text \<open>
  Everything that matches a predecessor is finished, and it succeeded where that is asked for; for a
  pattern, the code asks for success whatever the flags say.
\<close>

definition predecessor_done :: "(string \<Rightarrow> string \<Rightarrow> bool) \<Rightarrow> action_list \<Rightarrow> action_status \<Rightarrow> bool" where
  "predecessor_done fnmatch al p \<longleftrightarrow>
     al_find fnmatch p al = None \<and>
     (if as_glob p then \<forall>(n, s) \<in> set (al_states al). fnmatch (as_name p) n \<longrightarrow> s = Succeeded
      else \<exists>s. (as_name p, s) \<in> set (al_states al) \<and> (as_succeeded p \<longrightarrow> s = Succeeded))"

definition dependencies_ok :: "(string \<Rightarrow> string \<Rightarrow> bool) \<Rightarrow> action_list \<Rightarrow> bool" where
  "dependencies_ok fnmatch al \<longleftrightarrow>
     (\<forall>a \<in> set (running al). \<forall>p \<in> set (a_predecessors a). predecessor_done fnmatch al p)"

lemma al_find_None:
  assumes "string_order.sorted_keys (al_actions al)"
  shows "al_find fnmatch p al = None \<longleftrightarrow>
    (\<forall>(n, a) \<in> set (al_actions al). if as_glob p then \<not> fnmatch (as_name p) n else n \<noteq> as_name p)"
proof -
  have "om_find sless k (al_actions al) = None \<longleftrightarrow> (\<forall>(n, a) \<in> set (al_actions al). n \<noteq> k)" for k
    using om_find_in_set [OF assms, of k] by (cases "om_find sless k (al_actions al)") force+
  then show ?thesis by (auto simp: al_find_def find_None_iff)
qed

lemma dependency_blocks_False:
  "dependency_blocks fnmatch al name ps = Inr False \<Longrightarrow> p \<in> set ps \<Longrightarrow>
   al_find fnmatch p al = None \<and> (as_glob p \<or> om_find sless (as_name p) (al_states al) \<noteq> None)"
  by (induction ps) (auto split: if_splits)

lemma ready_done:
  assumes "al_ok al" "ready fnmatch al a" "\<not> failed_by_dependency fnmatch al a" "p \<in> set (a_predecessors a)"
  shows "predecessor_done fnmatch al p"
proof -
  have b: "al_find fnmatch p al = None" "as_glob p \<or> om_find sless (as_name p) (al_states al) \<noteq> None"
    using dependency_blocks_False [of fnmatch al "a_name a"] assms(2,4)
    by (auto simp: ready_def blocked_by_dependency_def)
  have "\<not> dependency_failed fnmatch al p" using assms(3,4) by (auto simp: failed_by_dependency_def list_ex_iff)
  moreover have "(as_name p, s) \<in> set (al_states al)" if "om_find sless (as_name p) (al_states al) = Some s" for s
    using om_find_in_set [OF al_okD(2) [OF assms(1)]] that by blast
  ultimately show ?thesis
    using b by (cases "om_find sless (as_name p) (al_states al)")
      (auto simp: predecessor_done_def dependency_failed_def list_ex_iff split: if_splits)
qed

lemma done_cleanup:
  assumes "al_ok al" "(n, x) \<in> set (al_actions al)" "predecessor_done fnmatch al p"
  shows "predecessor_done fnmatch (cleanup x ok did_run al) p"
proof -
  note k = al_okD [OF assms(1)]
  let ?al = "cleanup x ok did_run al"
  have n: "n = a_name x" using k(4) assms(2) by auto
  have a': "set (al_actions ?al) = {(j, b) \<in> set (al_actions al). j \<noteq> a_name x}"
    "set (al_states ?al) = insert (a_name x, outcome ok) {(j, b) \<in> set (al_states al). j \<noteq> a_name x}"
    "string_order.sorted_keys (al_actions ?al)"
    using k(1,2) by (simp_all add: cleanup_def om_erase_set om_put_set string_order.sorted_om_erase)
  have "\<forall>(n, a) \<in> set (al_actions al). if as_glob p then \<not> fnmatch (as_name p) n else n \<noteq> as_name p"
    using assms(3) al_find_None [OF k(1), of fnmatch p] by (simp add: predecessor_done_def)
  with assms(2) n have x: "if as_glob p then \<not> fnmatch (as_name p) (a_name x) else a_name x \<noteq> as_name p"
    and f: "al_find fnmatch p ?al = None"
    unfolding al_find_None [OF a'(3)] a'(1) by auto
  show ?thesis
  proof (cases "as_glob p")
    case True
    then show ?thesis using assms(3) x f unfolding predecessor_done_def a'(2) by auto
  next
    case False
    then show ?thesis using assms(3) x f unfolding predecessor_done_def a'(2) by auto
  qed
qed

lemma done_start:
  assumes "al_ok al" "(n, x) \<in> set (al_actions al)" "ready fnmatch al x" "predecessor_done fnmatch al p"
  shows "predecessor_done fnmatch (start x al) p"
proof -
  note k = al_okD [OF assms(1)]
  note s = al_ok_start [OF assms(1-3)]
  have n: "n = a_name x" using k(4) assms(2) by auto
  have "\<forall>(n, a) \<in> set (al_actions al). if as_glob p then \<not> fnmatch (as_name p) n else n \<noteq> as_name p"
    using assms(4) al_find_None [OF k(1), of fnmatch p] by (simp add: predecessor_done_def)
  then have "al_find fnmatch p (start x al) = None"
    unfolding al_find_None [OF al_okD(1) [OF s(1)]] s(3) using assms(2) n by auto
  then show ?thesis using assms(4) by (simp add: predecessor_done_def start_def)
qed

lemma running_cleanup: "al_ok al \<Longrightarrow> set (running (cleanup x ok did_run al)) \<subseteq> set (running al)"
  by (auto simp: running_iff cleanup_def om_erase_set [OF al_okD(1)])

lemma dependencies_cleanup:
  assumes "al_ok al" "(n, x) \<in> set (al_actions al)" "dependencies_ok fnmatch al"
  shows "dependencies_ok fnmatch (cleanup x ok did_run al)"
  using assms(3) running_cleanup [OF assms(1)] done_cleanup [OF assms(1,2)] unfolding dependencies_ok_def by blast

lemma dependencies_start:
  assumes "al_ok al" "(n, x) \<in> set (al_actions al)" "ready fnmatch al x" "\<not> failed_by_dependency fnmatch al x"
    "dependencies_ok fnmatch al"
  shows "dependencies_ok fnmatch (start x al)"
proof -
  have "predecessor_done fnmatch al p"
    if b: "b \<in> set (running (start x al))" "p \<in> set (a_predecessors b)" for b p
  proof (cases "b \<in> set (running al)")
    case True
    then show ?thesis using assms(5) that by (auto simp: dependencies_ok_def)
  next
    case False
    with b(1) have "b = x\<lparr>a_state := Running\<rparr>"
      unfolding running_iff al_ok_start(3) [OF assms(1-3)] by auto
    then show ?thesis using ready_done [OF assms(1,3,4)] b(2) by simp
  qed
  then show ?thesis using done_start [OF assms(1-3)] by (simp add: dependencies_ok_def)
qed

definition scheduler_ok :: "(string \<Rightarrow> string \<Rightarrow> bool) \<Rightarrow> action_list \<Rightarrow> bool" where
  "scheduler_ok fnmatch al \<longleftrightarrow> al_ok al \<and> dependencies_ok fnmatch al"

lemma scheduler_round:
  assumes "scheduler_ok fnmatch al" "trigger_round fnmatch sync al = Inr (Some al')"
  shows "scheduler_ok fnmatch al'"
proof -
  have ok: "al_ok al" "dependencies_ok fnmatch al" using assms(1) by (simp_all add: scheduler_ok_def)
  from assms(2) have "dependencies_ok fnmatch al'"
  proof (cases rule: trigger_round_Some)
    case (dropped n a)
    then show ?thesis using dependencies_cleanup [OF ok(1) _ ok(2)] by blast
  next
    case (started n a)
    then show ?thesis using dependencies_start [OF ok(1) _ _ _ ok(2)] by blast
  next
    case (at_once n a ok')
    note s = al_ok_start [OF ok(1) at_once(1,2)]
    have f: "al' = cleanup (a\<lparr>a_state := Running\<rparr>) ok' True (start a al)" unfolding at_once(4) by (simp add: cleanup_def)
    show ?thesis
      unfolding f by (rule dependencies_cleanup [OF s(1,2) dependencies_start [OF ok(1) at_once(1-3) ok(2)]])
  qed
  then show ?thesis using trigger_round_ok(1) [OF ok(1) assms(2)] by (simp add: scheduler_ok_def)
qed

lemma scheduler_trigger:
  "scheduler_ok fnmatch al \<Longrightarrow> trigger fnmatch sync al = Some (Inr al') \<Longrightarrow> scheduler_ok fnmatch al'"
proof (induction "card (set (pending al))" arbitrary: al rule: less_induct)
  case less
  have ok: "al_ok al" using less(2) by (simp add: scheduler_ok_def)
  from less(3) have t: "(case trigger_round fnmatch sync al of Inl e \<Rightarrow> Some (Inl e) | Inr None \<Rightarrow> Some (Inr al)
      | Inr (Some al') \<Rightarrow> trigger fnmatch sync al') = Some (Inr al')"
    by (subst (asm) trigger.simps)
  show ?case
  proof (cases "trigger_round fnmatch sync al")
    case (Inr r)
    show ?thesis
    proof (cases r)
      case (Some al2)
      have r2: "trigger_round fnmatch sync al = Inr (Some al2)" using Inr Some by simp
      show ?thesis
        using less(1) [OF trigger_round_ok(2) [OF ok r2] scheduler_round [OF less(2) r2]] t r2 by simp
    qed (use Inr t less(2) in auto)
  qed (use t in simp)
qed

lemma distinct_pending: "al_ok al \<Longrightarrow> distinct (pending al)"
proof -
  assume ok: "al_ok al"
  have "(\<And>n a. (n, a) \<in> set xs \<Longrightarrow> a_name a = n) \<Longrightarrow> string_order.sorted_keys xs \<Longrightarrow> distinct (map snd xs)" for xs
  proof (induction xs)
    case (Cons p xs)
    obtain n b where p: "p = (n, b)" by force
    have "(m, b) \<notin> set xs" for m
    proof
      assume m: "(m, b) \<in> set xs"
      have "a_name b = m" by (rule Cons.prems(1)) (simp add: m)
      moreover have "a_name b = n" by (rule Cons.prems(1)) (simp add: p)
      moreover have "n < m" using Cons.prems(2) m by (auto simp: p)
      ultimately show False by simp
    qed
    then have "b \<notin> snd ` set xs" by force
    moreover have "distinct (map snd xs)"
      by (rule Cons.IH) (rule Cons.prems(1), simp, use Cons.prems(2) in \<open>simp add: p\<close>)
    ultimately show ?case by (simp add: p)
  qed simp
  from this [OF al_okD(4,1) [OF ok]] show ?thesis by (simp add: pending_def)
qed

lemma scheduler_cancel: "scheduler_ok fnmatch al \<Longrightarrow> scheduler_ok fnmatch (cancel_pending al)"
proof -
  assume ok: "scheduler_ok fnmatch al"
  have "scheduler_ok fnmatch (foldl (\<lambda>al a. cleanup a False False al) al as)"
    if "scheduler_ok fnmatch al" "set as \<subseteq> set (pending al)" "distinct as" for as al
    using that
  proof (induction as arbitrary: al)
    case (Cons a as)
    then obtain n where a: "(n, a) \<in> set (al_actions al)" "a_state a = Pending" by (auto simp: pending_iff)
    have al: "al_ok al" "dependencies_ok fnmatch al" using Cons.prems(1) by (simp_all add: scheduler_ok_def)
    have "scheduler_ok fnmatch (cleanup a False False al)"
      using al_ok_drop [OF al(1) a] dependencies_cleanup [OF al(1) a(1) al(2)] by (simp add: scheduler_ok_def)
    moreover have "set as \<subseteq> set (pending (cleanup a False False al))"
      using pending_drop [OF al(1) a(1)] Cons.prems(2,3) by auto
    ultimately show ?case using Cons.IH Cons.prems(3) by simp
  qed simp
  moreover have "distinct (pending al)" by (rule distinct_pending) (use ok in \<open>simp add: scheduler_ok_def\<close>)
  ultimately show ?thesis using ok by (simp add: cancel_pending_def)
qed

lemma scheduler_limit:
  "scheduler_ok fnmatch al \<Longrightarrow> trigger_limit expired fnmatch sync al = Some (Inr al') \<Longrightarrow> scheduler_ok fnmatch al'"
  by (auto simp: trigger_limit_def scheduler_trigger scheduler_cancel split: if_splits)

lemma scheduler_step:
  "al_step fnmatch sync al al' \<Longrightarrow> scheduler_ok fnmatch al \<Longrightarrow> scheduler_ok fnmatch al'"
proof (induction rule: al_step.induct)
  case (al_event a al expired ok al')
  then obtain n where a: "(n, a) \<in> set (al_actions al)" "a_state a = Running" by (auto simp: running_iff)
  have "scheduler_ok fnmatch (cleanup a ok True al)"
    using al_ok_finish [OF _ a] dependencies_cleanup [OF _ a(1)] al_event(3) by (simp add: scheduler_ok_def)
  then show ?case using al_event(2) by (auto simp: al_completed_def intro: scheduler_limit)
qed (auto intro: scheduler_limit)

lemma scheduler_reach:
  "(al_step fnmatch sync)\<^sup>*\<^sup>* al al' \<Longrightarrow> scheduler_ok fnmatch al \<Longrightarrow> scheduler_ok fnmatch al'"
  by (induction rule: rtranclp_induct) (auto intro: scheduler_step)

section \<open>Progress\<close>

lemma dependency_blocks_True:
  "dependency_blocks fnmatch al name ps = Inr True \<Longrightarrow> \<exists>p \<in> set ps. al_find fnmatch p al \<noteq> None"
  by (induction ps) (auto split: if_splits)

lemma scan_none_blocked:
  "scan_actions fnmatch al chosen as = Inr (Chosen None) \<Longrightarrow> a \<in> set as \<Longrightarrow> a_state a = Pending \<Longrightarrow>
   \<not> blocked_by_resource al a \<Longrightarrow> blocked_by_dependency fnmatch al a = Inr True"
proof (induction as arbitrary: chosen)
  case (Cons b as)
  show ?case
  proof (cases "a = b")
    case True
    with Cons.prems obtain bl where "blocked_by_dependency fnmatch al a = Inr bl" by (auto simp: rbind_Inr_iff)
    moreover have "\<not> ready fnmatch al a" using scan_none [OF Cons.prems(1)] True by simp
    ultimately show ?thesis using Cons.prems(3,4) by (cases bl) (auto simp: ready_def)
  next
    case False
    then have a: "a \<in> set as" using Cons.prems(2) by simp
    from Cons.prems(1) show ?thesis
    proof (cases rule: scan_actions_Cons)
      case skip
      then show ?thesis using Cons.IH a Cons.prems(3,4) by blast
    next
      case (candidate c)
      then show ?thesis using Cons.IH a Cons.prems(3,4) by blast
    qed simp
  qed
qed simp

text \<open>The dependencies among the unfinished actions have no cycle.\<close>

definition acyclic_by :: "(string \<Rightarrow> string \<Rightarrow> bool) \<Rightarrow> (string \<Rightarrow> nat) \<Rightarrow> action_list \<Rightarrow> bool" where
  "acyclic_by fnmatch rank al \<longleftrightarrow>
     (\<forall>(n, a) \<in> set (al_actions al). \<forall>p \<in> set (a_predecessors a). \<forall>(k, b) \<in> set (al_actions al).
        (if as_glob p then fnmatch (as_name p) k else k = as_name p) \<longrightarrow> rank k < rank n)"

lemma idle_means_finished:
  assumes "al_ok al" "trigger_round fnmatch sync al = Inr None" "running al = []" "acyclic_by fnmatch rank al"
  shows "al_actions al = []"
proof (rule ccontr)
  assume "al_actions al \<noteq> []"
  then have "hd (al_actions al) \<in> set (al_actions al)" by simp
  from ex_has_least_nat [where P = "\<lambda>q. q \<in> set (al_actions al)" and m = "\<lambda>q. rank (fst q)", OF this]
  obtain m where m: "m \<in> set (al_actions al)" "\<forall>q. q \<in> set (al_actions al) \<longrightarrow> rank (fst m) \<le> rank (fst q)"
    by blast
  obtain n a where na: "m = (n, a)" by force
  note k = al_okD [OF assms(1)]
  have "a \<notin> set (running al)" using assms(3) by simp
  then have pend: "a_state a = Pending" using k(5) m(1) na running_iff by blast
  have "al_resources al = []" using k(6) assms(3) by simp
  then have nres: "\<not> blocked_by_resource al a" by (simp add: blocked_by_resource_def list_ex_iff)
  have "scan_actions fnmatch al None (map snd (al_actions al)) = Inr (Chosen None)"
  proof -
    obtain r where r: "next_action fnmatch al = Inr r" using assms(2) by (auto simp: trigger_round_def rbind_Inr_iff)
    then have "r = Chosen None"
      using assms(2) by (auto simp: trigger_round_def split: scan_result.splits option.splits)
    then show ?thesis using r by (simp add: next_action_def)
  qed
  then have "blocked_by_dependency fnmatch al a = Inr True"
    by (rule scan_none_blocked) (use m(1) na pend nres in force)+
  then obtain p where p: "p \<in> set (a_predecessors a)" "al_find fnmatch p al \<noteq> None"
    using dependency_blocks_True unfolding blocked_by_dependency_def by blast
  then have "\<exists>q \<in> set (al_actions al). if as_glob p then fnmatch (as_name p) (fst q) else fst q = as_name p"
    unfolding al_find_None [OF k(1)] split_beta by (cases "as_glob p") simp_all
  then obtain q where "q \<in> set (al_actions al)" "if as_glob p then fnmatch (as_name p) (fst q) else fst q = as_name p" ..
  then obtain j b where jb: "(j, b) \<in> set (al_actions al)" "if as_glob p then fnmatch (as_name p) j else j = as_name p"
    by (metis prod.collapse)
  then have "rank j < rank n"
    using bspec [OF bspec [OF bspec [OF assms(4) [unfolded acyclic_by_def] m(1), unfolded na prod.case] p(1)] jb(1)] jb(2)
    by simp
  moreover have "rank n \<le> rank j" using m(2) jb(1) unfolding na by (metis fst_conv)
  ultimately show False by simp
qed

section \<open>What the callers rely on\<close>

text \<open>
  C6: However the events fall, no two actions that run at the same time use the same resource.
\<close>

theorem resources_exclusive:
  assumes "scheduler_ok fnmatch al0" "(al_step fnmatch sync)\<^sup>*\<^sup>* al0 al"
    "a \<in> set (running al)" "b \<in> set (running al)" "a \<noteq> b"
  shows "set (a_resources a) \<inter> set (a_resources b) = {}"
proof -
  have "al_ok al" using scheduler_reach [OF assms(2,1)] by (simp add: scheduler_ok_def)
  then show ?thesis using al_okD(7) assms(3-5) by blast
qed


text \<open>
  C28: \<open>trigger\<close> always returns, and if it returns with nothing running while the dependencies have no
  cycle, then every action is finished; so the loop of \<open>go\<close> never waits for an event that cannot come.
\<close>

theorem trigger_returns:
  assumes "al_ok al"
  shows "\<exists>r. trigger fnmatch sync al = Some r \<and>
    (\<forall>al' rank. r = Inr al' \<and> running al' = [] \<and> acyclic_by fnmatch rank al' \<longrightarrow> al_actions al' = [])"
  using trigger_total [OF assms, of fnmatch sync] idle_means_finished by blast

text \<open>
  The action that is started next has the highest priority among the pending actions that no
  resource and no dependency holds back.
\<close>

theorem next_action_priority:
  assumes "next_action fnmatch al = Inr (Chosen (Some a))"
  shows "a \<in> snd ` set (al_actions al) \<and> ready fnmatch al a \<and>
    (\<forall>b \<in> snd ` set (al_actions al). ready fnmatch al b \<longrightarrow> a_priority b \<le> a_priority a)"
  using scan_chosen [of fnmatch al None "map snd (al_actions al)" a] assms by (auto simp: next_action_def)

text \<open>Two removals on one device and a cleanup that follows both.\<close>

definition sample_actions :: "action_list" where
  "sample_actions =
     \<lparr>al_actions = [(''a'', uses ''disk'' (new_action ''a'')), (''b'', uses ''disk'' (new_action ''b'')),
        (''z'', after ''a'' True False (new_action ''z''))],
      al_states = [], al_resources = []\<rparr>"

definition sample_running :: "action_list" where
  "sample_running = start (uses ''disk'' (new_action ''a'')) sample_actions"

definition sample_finished :: "action_list" where
  "sample_finished = cleanup (uses ''disk'' (new_action ''a'')) True True sample_running"

definition sample_both :: "action_list" where
  "sample_both = start (after ''a'' True False (new_action ''z''))
     (start (uses ''disk'' (new_action ''b'')) sample_finished)"

lemma sample_scheduler_ok: "scheduler_ok fnmatch sample_actions"
  by (auto simp: scheduler_ok_def al_ok_def dependencies_ok_def sample_actions_def running_def new_action_def
      uses_def after_def)

lemma sample_trigger: "trigger (=) (\<lambda>_. None) sample_actions = Some (Inr sample_running)"
proof -
  have "trigger_round (=) (\<lambda>_. None) sample_actions = Inr (Some sample_running)"
    "trigger_round (=) (\<lambda>_. None) sample_running = Inr None" by code_simp+
  then show ?thesis by (simp add: trigger.simps [of _ _ sample_actions] trigger.simps [of _ _ sample_running])
qed

lemma sample_trigger2: "trigger (=) (\<lambda>_. None) sample_finished = Some (Inr sample_both)"
proof -
  let ?m = "start (uses ''disk'' (new_action ''b'')) sample_finished"
  have "trigger_round (=) (\<lambda>_. None) sample_finished = Inr (Some ?m)"
    "trigger_round (=) (\<lambda>_. None) ?m = Inr (Some sample_both)"
    "trigger_round (=) (\<lambda>_. None) sample_both = Inr None" by code_simp+
  then show ?thesis
    by (simp add: trigger.simps [of _ _ sample_finished] trigger.simps [of _ _ ?m] trigger.simps [of _ _ sample_both])
qed

lemma sample_reach: "(al_step (=) (\<lambda>_. None))\<^sup>*\<^sup>* sample_actions sample_both"
proof -
  let ?a = "(uses ''disk'' (new_action ''a''))\<lparr>a_state := Running\<rparr>"
  have "al_step (=) (\<lambda>_. None) sample_actions sample_running"
    by (rule al_trigger [where expired = False]) (simp_all add: trigger_limit_def sample_trigger, simp add: sample_actions_def)
  moreover have "al_step (=) (\<lambda>_. None) sample_running sample_both"
  proof (rule al_event [where a = ?a and ok = True and expired = False])
    show "?a \<in> set (running sample_running)" by code_simp
    have "cleanup ?a True True sample_running = sample_finished" by code_simp
    then show "al_completed False (=) (\<lambda>_. None) ?a True sample_running = Some (Inr sample_both)"
      by (simp add: al_completed_def trigger_limit_def sample_trigger2)
  qed
  ultimately show ?thesis by (meson r_into_rtranclp rtranclp_trans)
qed

theorem resources_exclusive_witness:
  "set (a_resources ((uses ''disk'' (new_action ''b''))\<lparr>a_state := Running\<rparr>)) \<inter>
   set (a_resources ((after ''a'' True False (new_action ''z''))\<lparr>a_state := Running\<rparr>)) = {}"
  by (rule resources_exclusive [OF sample_scheduler_ok sample_reach]; code_simp)


theorem trigger_returns_witness:
  "\<exists>r. trigger (=) (\<lambda>_. None) sample_actions = Some r \<and>
    (\<forall>al' rank. r = Inr al' \<and> running al' = [] \<and> acyclic_by (=) rank al' \<longrightarrow> al_actions al' = [])"
  by (rule trigger_returns) (use sample_scheduler_ok [of "(=)"] in \<open>simp add: scheduler_ok_def\<close>)

theorem next_action_priority_witness:
  "let a = uses ''disk'' (new_action ''a'')
   in a \<in> snd ` set (al_actions sample_actions) \<and> ready (=) sample_actions a \<and>
    (\<forall>b \<in> snd ` set (al_actions sample_actions). ready (=) sample_actions b \<longrightarrow> a_priority b \<le> a_priority a)"
  unfolding Let_def by (rule next_action_priority) code_simp

text \<open>
  An action that follows a pattern without asking for success is failed, unrun, when a match
  failed, although such a dependency is documented to control the order only.
\<close>

theorem glob_order_only_fails:
  "let al = \<lparr>al_actions = [(''z'', after ''p*'' False True (new_action ''z''))], al_states = [(''p1'', Failed)],
        al_resources = []\<rparr>;
       fnmatch = (\<lambda>p n. p = ''p*'' \<and> n = ''p1'')
   in trigger_round fnmatch (\<lambda>_. None) al =
      Inr (Some \<lparr>al_actions = [], al_states = [(''p1'', Failed), (''z'', Failed)], al_resources = []\<rparr>)"
  by code_simp

end
