(* ===== verification/DB.thy ===== *)
theory DB
  imports Volumes
begin

text \<open>
  The backup database: \<^verbatim>\<open>src/Database.cc\<close> (transactions and errors), \<open>Backup::insert\<close>, \<open>update\<close>
  and \<open>remove\<close> of \<^verbatim>\<open>src/Backup.cc\<close>, and the tables, the version and the reading of
  \<^verbatim>\<open>src/Conf.cc\<close>.  The SQL statements are given by what they do to the table \<open>backup\<close>, a list of
  rows with distinct primary keys; SQLite's locking is the list \<open>db_busy\<close>, which says for each coming
  statement whether it fails with \<open>SQLITE_BUSY\<close>.  A status column holds one of the six statuses.
\<close>

section \<open>The table and its transactions\<close>

type_synonym db_key = "string \<times> string \<times> string \<times> string"

record db_row =
  r_time :: int
  r_pruned :: int
  r_rc :: int
  r_status :: backup_status
  r_log :: string
  r_finishTime :: int

type_synonym db_table = "(db_key \<times> db_row) list"

record database =
  db_committed :: db_table
  db_working :: db_table
  db_in_transaction :: bool
  db_busy :: "bool list"

type_synonym 'a db_action = "database \<Rightarrow> 'a result \<times> database"

definition db_bind :: "'a db_action \<Rightarrow> ('a \<Rightarrow> 'b db_action) \<Rightarrow> 'b db_action" where
  "db_bind f g d = (case f d of (Inl e, d') \<Rightarrow> (Inl e, d') | (Inr x, d') \<Rightarrow> g x d')"

definition db_return :: "'a \<Rightarrow> 'a db_action" where
  "db_return x d = (Inr x, d)"

text \<open>A statement: it may find the database locked; outside a transaction it commits by itself.\<close>

definition db_statement :: "(db_table \<Rightarrow> db_table result) \<Rightarrow> unit db_action" where
  "db_statement f d =
     (let busy = (db_busy d \<noteq> [] \<and> hd (db_busy d)); d = d\<lparr>db_busy := tl (db_busy d)\<rparr>
      in if busy then (Inl (DatabaseBusy ''sqlite3_step''), d)
         else case f (db_working d) of
                Inl e \<Rightarrow> (Inl e, d)
              | Inr t \<Rightarrow>
                  (Inr (), if db_in_transaction d then d\<lparr>db_working := t\<rparr>
                           else d\<lparr>db_working := t, db_committed := t\<rparr>))"

definition db_control :: "(database \<Rightarrow> database result) \<Rightarrow> unit db_action" where
  "db_control f d =
     (let busy = (db_busy d \<noteq> [] \<and> hd (db_busy d)); d = d\<lparr>db_busy := tl (db_busy d)\<rparr>
      in if busy then (Inl (DatabaseBusy ''sqlite3_step''), d)
         else case f d of Inl e \<Rightarrow> (Inl e, d) | Inr d' \<Rightarrow> (Inr (), d'))"

definition db_begin :: "unit db_action" where
  "db_begin = db_control (\<lambda>d.
     if db_in_transaction d then Inl (DatabaseError ''sqlite3_step'') else Inr (d\<lparr>db_in_transaction := True\<rparr>))"

text \<open>\<open>commit\<close> asserts that the program may change things (\<open>globalCommand.act\<close>).\<close>

definition db_commit :: "bool \<Rightarrow> bool \<Rightarrow> unit db_action" where
  "db_commit act commitAnyway d =
     (if \<not> (act \<or> commitAnyway) then (Inl AssertionFailed, d)
      else db_control (\<lambda>d.
        if \<not> db_in_transaction d then Inl (DatabaseError ''sqlite3_step'')
        else Inr (d\<lparr>db_in_transaction := False, db_committed := db_working d\<rparr>)) d)"

definition db_rollback :: "unit db_action" where
  "db_rollback = db_control (\<lambda>d.
     if \<not> db_in_transaction d then Inl (DatabaseError ''sqlite3_step'')
     else Inr (d\<lparr>db_in_transaction := False, db_working := db_committed d\<rparr>))"

text \<open>
  \<open>for(;;) try { ...; break; } catch(DatabaseBusy &) { continue; }\<close>: the loop may run for ever, so
  its value is an option.
\<close>

partial_function (option) retry_busy :: "'a db_action \<Rightarrow> database \<Rightarrow> ('a result \<times> database) option" where
  "retry_busy body d =
     (case body d of
        (Inl (DatabaseBusy msg), d') \<Rightarrow> retry_busy body d'
      | (r, d') \<Rightarrow> Some (r, d'))"

declare retry_busy.simps [code]

section \<open>A backup in the table\<close>

definition backup_key_row :: "int \<Rightarrow> backup \<Rightarrow> db_row" where
  "backup_key_row version b =
     \<lparr>r_time = b_time b, r_pruned = b_pruned b, r_rc = b_waitStatus b, r_status = b_status b,
      r_log = b_contents b, r_finishTime = (if version < 11 then 0 else b_finishTime b)\<rparr>"

definition db_key_of :: "string \<Rightarrow> string \<Rightarrow> backup \<Rightarrow> db_key" where
  "db_key_of host volume b = (host, volume, b_deviceName b, b_id b)"

definition table_insert :: "bool \<Rightarrow> db_key \<Rightarrow> db_row \<Rightarrow> db_table \<Rightarrow> db_table result" where
  "table_insert replace k r t =
     (if map_of t k = None then Inr (t @ [(k, r)])
      else if replace then Inr (filter (\<lambda>(j, _). j \<noteq> k) t @ [(k, r)])
      else Inl (DatabaseError ''sqlite3_step''))"

definition backup_insert :: "int \<Rightarrow> string \<Rightarrow> string \<Rightarrow> bool \<Rightarrow> backup \<Rightarrow> unit db_action" where
  "backup_insert version host volume replace b =
     db_statement (table_insert replace (db_key_of host volume b) (backup_key_row version b))"

definition table_update :: "int \<Rightarrow> db_key \<Rightarrow> db_row \<Rightarrow> db_table \<Rightarrow> db_table" where
  "table_update version k r t =
     map (\<lambda>(j, old). (j, if j = k then r\<lparr>r_finishTime := if version < 11 then r_finishTime old else r_finishTime r\<rparr>
                         else old)) t"

definition backup_update :: "int \<Rightarrow> string \<Rightarrow> string \<Rightarrow> backup \<Rightarrow> unit db_action" where
  "backup_update version host volume b =
     db_statement (\<lambda>t. Inr (table_update version (db_key_of host volume b) (backup_key_row version b) t))"

definition backup_remove :: "string \<Rightarrow> string \<Rightarrow> backup \<Rightarrow> unit db_action" where
  "backup_remove host volume b =
     db_statement (\<lambda>t. Inr (filter (\<lambda>(j, _). j \<noteq> db_key_of host volume b) t))"

text \<open>\<open>DELETE FROM backup WHERE status=? AND pruned < ?\<close>.\<close>

definition delete_pruned :: "int \<Rightarrow> db_table \<Rightarrow> db_table" where
  "delete_pruned before t = filter (\<lambda>(_, r). \<not> (r_status r = PRUNED \<and> r_pruned r < before)) t"

section \<open>Columns and versions\<close>

definition backup_columns :: "(string \<times> string \<times> int) list" where
  "backup_columns =
     [(''host'', ''TEXT'', 0), (''volume'', ''TEXT'', 0), (''device'', ''TEXT'', 0), (''id'', ''TEXT'', 0),
      (''time'', ''INTEGER'', 0), (''pruned'', ''INTEGER'', 0), (''rc'', ''INTEGER'', 0),
      (''status'', ''INTEGER'', 0), (''log'', ''BLOB'', 0), (''finishTime'', ''INTEGER'', 11)]"

definition createTables_columns :: "int \<Rightarrow> string list" where
  "createTables_columns version = map fst (filter (\<lambda>(_, _, v). v \<le> version) backup_columns)"

definition supportedDatabaseVersion :: int where
  "supportedDatabaseVersion = foldl (\<lambda>m (_, _, v). max m v) (-1) backup_columns"

definition usable_step :: "string list \<Rightarrow> int \<Rightarrow> string \<times> string \<times> int \<Rightarrow> int" where
  "usable_step columns m c = (case c of (n, _, v) \<Rightarrow> if n \<notin> set columns then min m (v - 1) else m)"

definition identifyDatabaseVersion :: "string list \<Rightarrow> int" where
  "identifyDatabaseVersion columns = foldl (usable_step columns) supportedDatabaseVersion backup_columns"

text \<open>\<open>ALTER TABLE ... ADD COLUMN\<close> fails on a column that exists.\<close>

definition updateTables :: "string list \<Rightarrow> string list result" where
  "updateTables columns =
     fold_result (\<lambda>cols (n, _, v).
         if identifyDatabaseVersion columns < v
         then if n \<in> set cols then Inl (DatabaseError ''sqlite3_step'') else Inr (cols @ [n])
         else Inr cols)
       columns backup_columns"

section \<open>Reading the table\<close>

definition row_backup :: "nat \<Rightarrow> db_key \<Rightarrow> db_row \<Rightarrow> int \<Rightarrow> backup" where
  "row_backup addr k r version =
     (case k of (host, volume, device, bid) \<Rightarrow>
        \<lparr>b_addr = addr, b_status = r_status r, b_waitStatus = r_rc r, b_id = bid, b_time = r_time r,
         b_finishTime = (if version < 11 then 0 else r_finishTime r), b_pruned = r_pruned r,
         b_deviceName = device, b_contents = r_log r\<rparr>)"

abbreviation pair_less :: "string \<times> string \<Rightarrow> string \<times> string \<Rightarrow> bool" where
  "pair_less \<equiv> (<)"

text \<open>\<open>Conf::addBackup\<close>: unknown devices, hosts and volumes are counted once each.\<close>

definition conf_addBackup :: "backup \<Rightarrow> string \<Rightarrow> string \<Rightarrow> conf \<Rightarrow> conf" where
  "conf_addBackup b hostName volumeName c =
     (if b_status b = PRUNED then c
      else if om_find namelt (b_deviceName b) (c_devices c) = None
      then if os_member str_less (b_deviceName b) (c_unknownDevices c) then c
           else c\<lparr>c_unknownDevices := fst (os_insert str_less (b_deviceName b) (c_unknownDevices c)),
                  c_unknownObjects := c_unknownObjects c + 1\<rparr>
      else case findHost hostName c of
             None \<Rightarrow>
               if os_member pair_less (hostName, b_deviceName b) (c_unknownHosts c) then c
               else c\<lparr>c_unknownHosts := fst (os_insert pair_less (hostName, b_deviceName b) (c_unknownHosts c)),
                      c_unknownObjects := c_unknownObjects c + 1\<rparr>
           | Some h \<Rightarrow>
               (case host_findVolume volumeName h of
                  None \<Rightarrow>
                    if os_member pair_less (volumeName, b_deviceName b) (h_unknownVolumes h) then c
                    else update_host hostName
                           (\<lambda>h. h\<lparr>h_unknownVolumes :=
                               fst (os_insert pair_less (volumeName, b_deviceName b) (h_unknownVolumes h))\<rparr>)
                           (c\<lparr>c_unknownObjects := c_unknownObjects c + 1\<rparr>)
                | Some v \<Rightarrow> update_volume hostName volumeName (\<lambda>v. snd (addBackup b v)) c))"

text \<open>\<open>readState\<close>: the new backups get the addresses \<open>addr\<close>, \<open>addr + 1\<close>, ...\<close>

fun read_rows :: "int \<Rightarrow> nat \<Rightarrow> db_table \<Rightarrow> conf \<Rightarrow> conf" where
  "read_rows version addr [] c = c"
| "read_rows version addr ((k, r) # t) c =
     read_rows version (addr + 1) t
       (conf_addBackup (row_backup addr k r version) (fst k) (fst (snd k)) c)"

definition readState :: "int \<Rightarrow> nat \<Rightarrow> db_table \<Rightarrow> conf \<Rightarrow> conf" where
  "readState version addr t c =
     (if c_logsRead c then c else (read_rows version addr t c)\<lparr>c_logsRead := True\<rparr>)"

section \<open>Walking the tree of hosts and volumes\<close>

lemma om_find_in: "om_find lt k m = Some v \<Longrightarrow> \<exists>j. (j, v) \<in> set m \<and> \<not> lt j k \<and> \<not> lt k j"
  by (induction m) (auto split: if_splits)

lemma name_put: "(j, u) \<in> set (om_put namelt k v m) \<Longrightarrow> (j, u) \<in> set m \<or> j = k \<and> u = v"
proof (induction m)
  case (Cons p m)
  obtain i w where p: "p = (i, w)" by force
  show ?case
  proof (cases "namelt i k \<or> namelt k i")
    case True
    then show ?thesis using Cons by (auto simp: p split: if_splits)
  next
    case False
    then have "i = k" using namelt_total by blast
    with False Cons.prems show ?thesis by (auto simp: p)
  qed
qed simp

lemma name_find: "om_find namelt k m = Some v \<Longrightarrow> (k, v) \<in> set m"
  using om_find_in [of namelt k m v] namelt_total by metis

lemma name_update:
  "(j, u) \<in> set (om_update namelt k f m) \<Longrightarrow> (j, u) \<in> set m \<or> (\<exists>v. j = k \<and> u = f v \<and> (k, v) \<in> set m)"
  using name_put [of j u k _ m] name_find [of k m]
  by (cases "om_find namelt k m") (auto simp: om_update_def)

text \<open>A property of every volume, by the names of its host and itself.\<close>

definition all_volumes :: "(string \<Rightarrow> string \<Rightarrow> volume \<Rightarrow> bool) \<Rightarrow> conf \<Rightarrow> bool" where
  "all_volumes P c \<longleftrightarrow> (\<forall>(hn, h) \<in> set (c_hosts c). \<forall>(vn, v) \<in> set (h_volumes h). P hn vn v)"

lemma all_volumesD: "all_volumes P c \<Longrightarrow> (hn, h) \<in> set (c_hosts c) \<Longrightarrow> (vn, v) \<in> set (h_volumes h) \<Longrightarrow> P hn vn v"
  by (fastforce simp: all_volumes_def)

lemma all_volumes_update_host:
  assumes "all_volumes P c" "\<And>h vn v. (hn, h) \<in> set (c_hosts c) \<Longrightarrow> (vn, v) \<in> set (h_volumes (f h)) \<Longrightarrow> P hn vn v"
  shows "all_volumes P (update_host hn f c)"
  unfolding all_volumes_def
proof clarify
  fix gn g vn v assume g: "(gn, g) \<in> set (c_hosts (update_host hn f c))" and v: "(vn, v) \<in> set (h_volumes g)"
  from g name_update [of gn g hn f "c_hosts c"] consider "(gn, g) \<in> set (c_hosts c)"
    | h where "gn = hn" "g = f h" "(hn, h) \<in> set (c_hosts c)"
    by (auto simp: update_host_def)
  then show "P gn vn v" by cases (use assms v all_volumesD in blast)+
qed

lemma all_volumes_update_volume:
  assumes "all_volumes P c" "\<And>v. P hn vn v \<Longrightarrow> P hn vn (f v)"
  shows "all_volumes P (update_volume hn vn f c)"
  unfolding update_volume_def
proof (rule all_volumes_update_host [OF assms(1)])
  fix h wn w assume h: "(hn, h) \<in> set (c_hosts c)" and
    w: "(wn, w) \<in> set (h_volumes (h\<lparr>h_volumes := om_update namelt vn f (h_volumes h)\<rparr>))"
  from w name_update [of wn w vn f "h_volumes h"] consider "(wn, w) \<in> set (h_volumes h)"
    | v where "wn = vn" "w = f v" "(vn, v) \<in> set (h_volumes h)" by auto
  then show "P hn wn w" by cases (use all_volumesD [OF assms(1) h] assms(2) in auto)
qed

lemma all_volumes_other [simp]:
  "all_volumes P (c\<lparr>c_unknownDevices := x\<rparr>) \<longleftrightarrow> all_volumes P c"
  "all_volumes P (c\<lparr>c_unknownHosts := y\<rparr>) \<longleftrightarrow> all_volumes P c"
  "all_volumes P (c\<lparr>c_unknownObjects := n\<rparr>) \<longleftrightarrow> all_volumes P c"
  "all_volumes P (c\<lparr>c_logsRead := b\<rparr>) \<longleftrightarrow> all_volumes P c"
  by (simp_all add: all_volumes_def)

lemma conf_addBackup_volumes:
  assumes "all_volumes P c"
    "b_status b \<noteq> PRUNED \<Longrightarrow> om_find namelt (b_deviceName b) (c_devices c) \<noteq> None \<Longrightarrow>
       (\<And>v. P hn vn v \<Longrightarrow> P hn vn (snd (addBackup b v)))"
  shows "all_volumes P (conf_addBackup b hn vn c)"
proof -
  have keep: "all_volumes P (update_host hn (\<lambda>h. h\<lparr>h_unknownVolumes := g h\<rparr>) (c\<lparr>c_unknownObjects := n\<rparr>))" for g n
    by (rule all_volumes_update_host) (use assms(1) in \<open>auto dest: all_volumesD\<close>)
  show ?thesis
    using assms(1) keep all_volumes_update_volume [OF assms(1), of hn vn "\<lambda>v. snd (addBackup b v)"] assms(2)
    by (auto simp: conf_addBackup_def split: option.splits)
qed

lemma c_devices_addBackup [simp]: "c_devices (conf_addBackup b hn vn c) = c_devices c"
  by (auto simp: conf_addBackup_def update_volume_def update_host_def split: option.splits)

text \<open>The updates keep the order of the maps and change one volume.\<close>

definition names_ok :: "conf \<Rightarrow> bool" where
  "names_ok c \<longleftrightarrow> name_order.sorted_keys (c_hosts c) \<and>
     (\<forall>(hn, h) \<in> set (c_hosts c). name_order.sorted_keys (h_volumes h))"

lemma name_update_sorted: "name_order.sorted_keys m \<Longrightarrow> name_order.sorted_keys (om_update namelt k f m)"
proof (cases "om_find namelt k m")
  case (Some v)
  assume m: "name_order.sorted_keys m"
  have "canonical_name k" by (rule name_order.sorted_keys_ok [OF m name_find [OF Some]])
  then show ?thesis using m Some by (simp add: om_update_def name_order.sorted_om_put)
qed (simp add: om_update_def)

lemma name_found: "name_order.sorted_keys m \<Longrightarrow> (k, v) \<in> set m \<Longrightarrow> om_find namelt k m = Some v"
proof -
  assume m: "name_order.sorted_keys m" and k: "(k, v) \<in> set m"
  have "distinct (map fst m)" using m
    by (induction m) (use name_order.head_not_in_tail in force)+
  then show ?thesis using m k name_order.om_find_map_of name_order.sorted_keys_ok by fastforce
qed

lemma name_updated:
  assumes "name_order.sorted_keys m" "(j, u) \<in> set (om_update namelt k f m)"
  shows "if j = k then \<exists>v. u = f v \<and> (k, v) \<in> set m else (j, u) \<in> set m"
proof (cases "om_find namelt k m")
  case None
  then have "om_update namelt k f m = m" by (simp add: om_update_def)
  then show ?thesis using assms name_found [OF assms(1), of k u] None by auto
next
  case (Some v)
  note k = name_find [OF Some]
  have ck: "canonical_name k" by (rule name_order.sorted_keys_ok [OF assms(1) k])
  note s = name_order.sorted_om_put [OF assms(1) ck, of "f v"]
  have "om_find namelt j (om_put namelt k (f v) m) = Some u"
    using name_found [OF s, of j u] assms(2) Some by (simp add: om_update_def)
  moreover have "canonical_name j"
    using assms(2) s Some name_order.sorted_keys_ok by (auto simp: om_update_def)
  ultimately show ?thesis
    using name_order.om_find_put [OF assms(1) ck] k name_find [of j m] by (auto split: if_splits)
qed

lemma names_ok_update_host:
  assumes "names_ok c" "\<And>h. name_order.sorted_keys (h_volumes h) \<Longrightarrow> name_order.sorted_keys (h_volumes (f h))"
  shows "names_ok (update_host hn f c)"
proof -
  have k: "name_order.sorted_keys (c_hosts c)" "\<And>gn h. (gn, h) \<in> set (c_hosts c) \<Longrightarrow> name_order.sorted_keys (h_volumes h)"
    using assms(1) by (auto simp: names_ok_def)
  have "name_order.sorted_keys (h_volumes g)" if "(gn, g) \<in> set (om_update namelt hn f (c_hosts c))" for gn g
    using name_update [OF that] k(2) assms(2) by blast
  then show ?thesis using name_update_sorted [OF k(1)] by (auto simp: names_ok_def update_host_def)
qed

lemma names_ok_addBackup: "names_ok c \<Longrightarrow> names_ok (conf_addBackup b hn vn c)"
proof -
  assume c: "names_ok c"
  have o: "names_ok (c\<lparr>c_unknownDevices := x, c_unknownObjects := n\<rparr>)"
    "names_ok (c\<lparr>c_unknownHosts := y, c_unknownObjects := n\<rparr>)" "names_ok (c\<lparr>c_unknownObjects := n\<rparr>)" for x y n
    using c by (simp_all add: names_ok_def)
  have h: "names_ok (update_host hn (\<lambda>h. h\<lparr>h_unknownVolumes := g h\<rparr>) (c\<lparr>c_unknownObjects := n\<rparr>))" for g n
    by (rule names_ok_update_host) (use o in auto)
  have v: "names_ok (update_volume hn vn f c)" for f
    unfolding update_volume_def by (rule names_ok_update_host) (use c name_update_sorted in auto)
  show ?thesis using c o h v by (auto simp: conf_addBackup_def split: option.splits)
qed

text \<open>The backups of a volume that is there get the new one.\<close>

lemma all_volumes_update_volume':
  assumes "names_ok c" "all_volumes P c" "\<And>v. P hn vn v \<Longrightarrow> Q hn vn (f v)"
    "\<And>gn wn w. (gn, wn) \<noteq> (hn, vn) \<Longrightarrow> P gn wn w \<Longrightarrow> Q gn wn w"
  shows "all_volumes Q (update_volume hn vn f c)"
  unfolding all_volumes_def
proof clarify
  fix gn g wn w
  assume g: "(gn, g) \<in> set (c_hosts (update_volume hn vn f c))" and w: "(wn, w) \<in> set (h_volumes g)"
  have "name_order.sorted_keys (c_hosts c)" using assms(1) by (simp add: names_ok_def)
  note u = name_updated [OF this g [unfolded update_volume_def update_host_def, simplified]]
  show "Q gn wn w"
  proof (cases "gn = hn")
    case True
    with u obtain h where h: "(hn, h) \<in> set (c_hosts c)" "g = h\<lparr>h_volumes := om_update namelt vn f (h_volumes h)\<rparr>"
      by auto
    then have "name_order.sorted_keys (h_volumes h)" using assms(1) by (auto simp: names_ok_def)
    note x = name_updated [OF this, of wn w vn f]
    show ?thesis
      using x w h all_volumesD [OF assms(2) h(1)] assms(3,4) True by (cases "wn = vn") auto
  next
    case False
    then show ?thesis using u w all_volumesD [OF assms(2)] assms(4) by auto
  qed
qed

lemma known_volume:
  assumes "names_ok c" "(hn, h) \<in> set (c_hosts c)" "(vn, v) \<in> set (h_volumes h)"
  shows "findHost hn c = Some h" "host_findVolume vn h = Some v"
  using assms name_found [of "c_hosts c" hn h] name_found [of "h_volumes h" vn v]
  by (auto simp: names_ok_def findHost_def host_findVolume_def)

text \<open>A step of the loop that reads the table, for a backup of a known device.\<close>

lemma conf_addBackup_step:
  assumes "names_ok c" "all_volumes P c" "b_status b \<noteq> PRUNED" "om_find namelt (b_deviceName b) (c_devices c) \<noteq> None"
    "\<And>v. P hn vn v \<Longrightarrow> Q hn vn (snd (addBackup b v))"
    "\<And>gn wn w. (gn, wn) \<noteq> (hn, vn) \<Longrightarrow> P gn wn w \<Longrightarrow> Q gn wn w"
  shows "all_volumes Q (conf_addBackup b hn vn c)"
proof (cases "\<exists>h v. (hn, h) \<in> set (c_hosts c) \<and> (vn, v) \<in> set (h_volumes h)")
  case True
  then obtain h v where "(hn, h) \<in> set (c_hosts c)" "(vn, v) \<in> set (h_volumes h)" by blast
  note k = known_volume [OF assms(1) this]
  have "conf_addBackup b hn vn c = update_volume hn vn (\<lambda>v. snd (addBackup b v)) c"
    using assms(3,4) k by (auto simp: conf_addBackup_def)
  moreover have "all_volumes Q (update_volume hn vn (\<lambda>v. snd (addBackup b v)) c)"
    by (rule all_volumes_update_volume' [where P = P]) (use assms in auto)
  ultimately show ?thesis by simp
next
  case False
  then have absent: "\<And>h v. (hn, h) \<in> set (c_hosts c) \<Longrightarrow> (vn, v) \<notin> set (h_volumes h)" by blast
  have c: "all_volumes (\<lambda>gn wn w. (gn, wn) \<noteq> (hn, vn) \<and> P gn wn w) c"
    using assms(2) absent by (fastforce simp: all_volumes_def)
  have "all_volumes (\<lambda>gn wn w. (gn, wn) \<noteq> (hn, vn) \<and> P gn wn w) (conf_addBackup b hn vn c)"
    by (rule conf_addBackup_volumes [OF c]) simp
  then show ?thesis using assms(6) by (fastforce simp: all_volumes_def)
qed

text \<open>What the volume \<open>hn:vn\<close> gets from the rows of a table, whatever the addresses.\<close>

definition loadable :: "int \<Rightarrow> (string \<times> device) list \<Rightarrow> db_table \<Rightarrow> string \<Rightarrow> string \<Rightarrow> backup set" where
  "loadable version devices t hn vn =
     {row_backup 0 (hn, vn, dev, bid) r version |dev bid r. ((hn, vn, dev, bid), r) \<in> set t \<and>
        r_status r \<noteq> PRUNED \<and> om_find namelt dev devices \<noteq> None}"

definition loaded_ok :: "int \<Rightarrow> (string \<times> device) list \<Rightarrow> db_table \<Rightarrow> string \<Rightarrow> string \<Rightarrow> volume \<Rightarrow> bool" where
  "loaded_ok version devices t hn vn v \<longleftrightarrow>
     volume_ok v \<and> (\<lambda>b. b\<lparr>b_addr := 0\<rparr>) ` set (v_backups v) = loadable version devices t hn vn"

definition row_time :: "db_key \<times> db_row \<Rightarrow> string \<times> string \<times> string \<times> int" where
  "row_time p = (case p of ((hn, vn, dev, bid), r) \<Rightarrow> (hn, vn, dev, r_time r))"

definition rows_ok :: "db_table \<Rightarrow> bool" where
  "rows_ok t \<longleftrightarrow> (\<forall>(k, r) \<in> set t. 0 \<le> r_time r \<and> r_time r \<le> INT_MAX) \<and> distinct (map row_time t)"

lemma loadable_snoc:
  "loadable version devices (t @ [((hn, vn, dev, bid), r)]) gn wn =
     (if (gn, wn) = (hn, vn) \<and> r_status r \<noteq> PRUNED \<and> om_find namelt dev devices \<noteq> None
      then insert (row_backup 0 (hn, vn, dev, bid) r version) (loadable version devices t gn wn)
      else loadable version devices t gn wn)"
  by (auto simp: loadable_def)

lemma row_backup_simps [simp]:
  "(row_backup a k r version)\<lparr>b_addr := 0\<rparr> = row_backup 0 k r version"
  "backup_key (row_backup a (hn, vn, dev, bid) r version) = (r_time r, dev)"
  "b_status (row_backup a k r version) = r_status r"
  "b_deviceName (row_backup a (hn, vn, dev, bid) r version) = dev"
  by (auto simp: row_backup_def backup_key_def split: prod.splits)

text \<open>The row that is read is no duplicate of one before it.\<close>

lemma loaded_new:
  assumes "loaded_ok version devices t hn vn v" "rows_ok (t @ [((hn, vn, dev, bid), r)])"
  shows "(r_time r, dev) \<notin> backup_key ` set (v_backups v)"
proof
  assume "(r_time r, dev) \<in> backup_key ` set (v_backups v)"
  then obtain b where b: "b \<in> set (v_backups v)" "backup_key b = (r_time r, dev)" by auto
  then have "b\<lparr>b_addr := 0\<rparr> \<in> loadable version devices t hn vn" using assms(1) by (auto simp: loaded_ok_def)
  then obtain dev' bid' r' where r': "((hn, vn, dev', bid'), r') \<in> set t"
    "b\<lparr>b_addr := 0\<rparr> = row_backup 0 (hn, vn, dev', bid') r' version" by (auto simp: loadable_def)
  from r'(2) have "backup_key b = (r_time r', dev')" by (metis (no_types, lifting) backup_key_def row_backup_simps(2)
      backup.select_convs(5) backup.select_convs(8) backup.surjective backup.update_convs(1))
  then have "row_time ((hn, vn, dev', bid'), r') = row_time ((hn, vn, dev, bid), r)" using b(2) by (simp add: row_time_def)
  then have "row_time ((hn, vn, dev, bid), r) \<in> row_time ` set t" using r'(1) by (metis image_eqI)
  then show False using assms(2) by (simp add: rows_ok_def)
qed

lemma loaded_step:
  assumes "names_ok c" "all_volumes (loaded_ok version (c_devices c) t) c" "rows_ok (t @ [(k, r)])"
  shows "all_volumes (loaded_ok version (c_devices c) (t @ [(k, r)]))
    (conf_addBackup (row_backup addr k r version) (fst k) (fst (snd k)) c)"
proof -
  obtain hn vn dev bid where k: "k = (hn, vn, dev, bid)" by (metis prod_cases4)
  let ?b = "row_backup addr k r version"
  show ?thesis
  proof (cases "r_status r \<noteq> PRUNED \<and> om_find namelt dev (c_devices c) \<noteq> None")
    case True
    have "time_ok (backup_key ?b)" using assms(3) by (simp add: rows_ok_def k)
    then have add: "loaded_ok version (c_devices c) (t @ [(k, r)]) hn vn (snd (addBackup ?b v))"
      if v: "loaded_ok version (c_devices c) t hn vn v" for v
      using volume_ok_addBackup [of v ?b] loaded_new [OF v, of dev bid r] assms(3) v True
      by (simp add: loaded_ok_def k loadable_snoc)
    show ?thesis
      unfolding k fst_conv snd_conv
    proof (rule conf_addBackup_step [OF assms(1,2)])
      show "\<And>v. loaded_ok version (c_devices c) t hn vn v \<Longrightarrow>
          loaded_ok version (c_devices c) (t @ [((hn, vn, dev, bid), r)]) hn vn
            (snd (addBackup (row_backup addr (hn, vn, dev, bid) r version) v))" using add by (simp add: k)
    qed (use True in \<open>auto simp: loaded_ok_def loadable_snoc\<close>)
  next
    case False
    then have same: "loaded_ok version (c_devices c) (t @ [(k, r)]) = loaded_ok version (c_devices c) t"
      by (auto simp: fun_eq_iff loaded_ok_def k loadable_snoc)
    show ?thesis unfolding same by (rule conf_addBackup_volumes [OF assms(2)]) (use False k in auto)
  qed
qed

lemma read_rows_loaded:
  assumes "names_ok c" "all_volumes (loaded_ok version (c_devices c) u) c" "rows_ok (u @ t)"
  shows "all_volumes (loaded_ok version (c_devices c) (u @ t)) (read_rows version addr t c)"
  using assms
proof (induction version addr t c arbitrary: u rule: read_rows.induct)
  case (2 version addr k r t c)
  have "rows_ok (u @ [(k, r)])" using 2(4) by (auto simp: rows_ok_def)
  from loaded_step [OF 2(2,3) this] 2(1) [of "u @ [(k, r)]"] show ?case
    using names_ok_addBackup [OF 2(2)] 2(4) by simp
qed simp

section \<open>The columns\<close>

lemma usable_step_simp [simp]: "usable_step cols m (n, ty, v) = (if n \<notin> set cols then min m (v - 1) else m)"
  by (simp add: usable_step_def)

lemma identify_minimum:
  "foldl (usable_step cols) a cs \<le> a \<and>
   (\<forall>(n, _, v) \<in> set cs. n \<notin> set cols \<longrightarrow> foldl (usable_step cols) a cs < v)"
proof (induction cs arbitrary: a)
  case (Cons c cs)
  obtain n ty v where c: "c = (n, ty, v)" by (metis prod_cases3)
  have f: "foldl (usable_step cols) (usable_step cols a c) cs \<le> usable_step cols a c" using Cons by blast
  have "usable_step cols a c \<le> a" "n \<notin> set cols \<Longrightarrow> usable_step cols a c < v" by (auto simp: c)
  with f have "foldl (usable_step cols) a (c # cs) \<le> a" "n \<notin> set cols \<Longrightarrow> foldl (usable_step cols) a (c # cs) < v"
    by auto
  then show ?case using Cons [of "usable_step cols a c"] by (simp add: c del: usable_step_simp)
qed simp

lemma supported [simp]: "supportedDatabaseVersion = 11"
  by (simp add: supportedDatabaseVersion_def backup_columns_def)

lemma identify_present:
  assumes "(n, ty, v) \<in> set backup_columns" "v \<le> identifyDatabaseVersion cols"
  shows "n \<in> set cols"
proof (rule ccontr)
  assume "n \<notin> set cols"
  then have "identifyDatabaseVersion cols < v"
    using bspec [OF conjunct2 [OF identify_minimum [of cols supportedDatabaseVersion backup_columns]] assms(1)]
    by (simp add: identifyDatabaseVersion_def)
  then show False using assms(2) by simp
qed

lemma identify_all:
  "(\<And>n ty v. (n, ty, v) \<in> set cs \<Longrightarrow> n \<in> set cols) \<Longrightarrow> foldl (usable_step cols) a cs = a"
proof (induction cs)
  case (Cons c cs)
  obtain n ty v where c: "c = (n, ty, v)" by (metis prod_cases3)
  have "usable_step cols a c = a" using Cons.prems [of n ty v] by (simp add: c)
  then show ?case using Cons by auto
qed simp

lemma update_columns:
  "fold_result (\<lambda>cols (n, (_ :: string), v).
       if i < v then if n \<in> set cols then Inl e else Inr (cols @ [n]) else Inr cols) cols cs = Inr cols' \<Longrightarrow>
   set cols' = set cols \<union> {n. \<exists>ty v. (n, ty, v) \<in> set cs \<and> i < v}"
proof (induction cs arbitrary: cols)
  case (Cons c cs)
  obtain n ty v where c: "c = (n, ty, v)" by (metis prod_cases3)
  show ?case
  proof (cases "i < v")
    case True
    with Cons.prems have "n \<notin> set cols" by (auto simp: c rbind_def split: if_splits)
    with True Cons show ?thesis by (auto simp: c rbind_def)
  qed (use Cons in \<open>auto simp: c rbind_def\<close>)
qed simp

section \<open>Transactions and the retry loop\<close>

lemma db_begin_simps [simp]:
  "db_busy d = True # bs \<Longrightarrow> db_begin d = (Inl (DatabaseBusy ''sqlite3_step''), d\<lparr>db_busy := bs\<rparr>)"
  "db_busy d = False # bs \<Longrightarrow> \<not> db_in_transaction d \<Longrightarrow>
     db_begin d = (Inr (), d\<lparr>db_busy := bs, db_in_transaction := True\<rparr>)"
  "db_busy d = [] \<Longrightarrow> \<not> db_in_transaction d \<Longrightarrow> db_begin d = (Inr (), d\<lparr>db_busy := [], db_in_transaction := True\<rparr>)"
  "db_busy d = False # bs \<Longrightarrow> db_in_transaction d \<Longrightarrow>
     db_begin d = (Inl (DatabaseError ''sqlite3_step''), d\<lparr>db_busy := bs\<rparr>)"
  "db_busy d = [] \<Longrightarrow> db_in_transaction d \<Longrightarrow> db_begin d = (Inl (DatabaseError ''sqlite3_step''), d\<lparr>db_busy := []\<rparr>)"
  by (simp_all add: db_begin_def db_control_def)

lemma db_commit_simps [simp]:
  "db_busy d = True # bs \<Longrightarrow> db_commit True any d = (Inl (DatabaseBusy ''sqlite3_step''), d\<lparr>db_busy := bs\<rparr>)"
  "db_busy d = False # bs \<Longrightarrow> db_in_transaction d \<Longrightarrow> db_commit True any d =
     (Inr (), d\<lparr>db_busy := bs, db_in_transaction := False, db_committed := db_working d\<rparr>)"
  "db_busy d = [] \<Longrightarrow> db_in_transaction d \<Longrightarrow> db_commit True any d =
     (Inr (), d\<lparr>db_busy := [], db_in_transaction := False, db_committed := db_working d\<rparr>)"
  by (simp_all add: db_commit_def db_control_def)

lemma db_statement_simps [simp]:
  "db_busy d = True # bs \<Longrightarrow> db_statement f d = (Inl (DatabaseBusy ''sqlite3_step''), d\<lparr>db_busy := bs\<rparr>)"
  "db_busy d = False # bs \<Longrightarrow> f (db_working d) = Inr t \<Longrightarrow> db_in_transaction d \<Longrightarrow>
     db_statement f d = (Inr (), d\<lparr>db_busy := bs, db_working := t\<rparr>)"
  "db_busy d = [] \<Longrightarrow> f (db_working d) = Inr t \<Longrightarrow> db_in_transaction d \<Longrightarrow>
     db_statement f d = (Inr (), d\<lparr>db_busy := [], db_working := t\<rparr>)"
  "db_busy d = False # bs \<Longrightarrow> f (db_working d) = Inr t \<Longrightarrow> \<not> db_in_transaction d \<Longrightarrow>
     db_statement f d = (Inr (), d\<lparr>db_busy := bs, db_working := t, db_committed := t\<rparr>)"
  "db_busy d = [] \<Longrightarrow> f (db_working d) = Inr t \<Longrightarrow> \<not> db_in_transaction d \<Longrightarrow>
     db_statement f d = (Inr (), d\<lparr>db_busy := [], db_working := t, db_committed := t\<rparr>)"
  by (simp_all add: db_statement_def)

lemma db_bind_simps [simp]:
  "f d = (Inl e, d') \<Longrightarrow> db_bind f g d = (Inl e, d')"
  "f d = (Inr x, d') \<Longrightarrow> db_bind f g d = g x d'"
  by (simp_all add: db_bind_def)

lemma retry_busy_simps:
  "body d = (Inl (DatabaseBusy msg), d') \<Longrightarrow> retry_busy body d = retry_busy body d'"
  "body d = (Inr x, d') \<Longrightarrow> retry_busy body d = Some (Inr x, d')"
  "body d = (Inl (DatabaseError msg), d') \<Longrightarrow> retry_busy body d = Some (Inl (DatabaseError msg), d')"
  by (simp_all add: retry_busy.simps [of body d])

text \<open>While \<open>BEGIN\<close> itself finds the database locked, the loop just comes round again.\<close>

lemma retry_begin:
  "db_busy d = replicate k True @ bs \<Longrightarrow>
   retry_busy (db_bind db_begin g) d = retry_busy (db_bind db_begin g) (d\<lparr>db_busy := bs\<rparr>)"
proof (induction k arbitrary: d)
  case (Suc k)
  then have "db_bind db_begin g d = (Inl (DatabaseBusy ''sqlite3_step''), d\<lparr>db_busy := replicate k True @ bs\<rparr>)" by simp
  then have "retry_busy (db_bind db_begin g) d = retry_busy (db_bind db_begin g) (d\<lparr>db_busy := replicate k True @ bs\<rparr>)"
    by (rule retry_busy_simps(1))
  then show ?case using Suc.IH [of "d\<lparr>db_busy := replicate k True @ bs\<rparr>"] by simp
next
  case 0
  then have "d\<lparr>db_busy := bs\<rparr> = d" by (cases d) simp
  then show ?case by simp
qed

section \<open>What is written is read back\<close>

lemma db_statement_Inr:
  "db_statement f d = (Inr (), d') \<Longrightarrow> f (db_working d) = Inr (db_working d')"
  by (auto simp: db_statement_def Let_def split: if_splits sum.splits)

lemma db_statement_Inl:
  "db_statement f d = (Inl e, d') \<Longrightarrow> db_working d' = db_working d \<and> db_committed d' = db_committed d"
  by (auto simp: db_statement_def Let_def split: if_splits sum.splits)

lemma map_of_remove [simp]: "map_of (filter (\<lambda>(j, _). j \<noteq> k) t) i = (if i = k then None else map_of t i)"
  by (induction t) auto

lemma row_backup_key_row:
  "row_backup a (db_key_of hn vn b) (backup_key_row version b) version =
     b\<lparr>b_addr := a, b_finishTime := (if version < 11 then 0 else b_finishTime b)\<rparr>"
  by (simp add: row_backup_def db_key_of_def backup_key_row_def)

lemma map_of_update [simp]:
  "map_of (table_update version k r t) i =
     (if i = k then map_option (\<lambda>old. r\<lparr>r_finishTime := if version < 11 then r_finishTime old else r_finishTime r\<rparr>)
        (map_of t k) else map_of t i)"
  by (induction t) (auto simp: table_update_def)

text \<open>
  C34: A backup that was written to the table (\<open>Backup::insert\<close>) comes back the same when its row is
  read, but for its address and, before version 11 of the database, its finish time; no other row
  changes.  Without \<open>replace\<close> the insertion succeeds only if the key was free, and when it fails the
  table is as it was.
\<close>

theorem insert_read_back:
  assumes "backup_insert version hn vn replace b d = (res, d')"
  shows "case res of
      Inl _ \<Rightarrow> db_working d' = db_working d \<and> db_committed d' = db_committed d
    | Inr _ \<Rightarrow>
        (replace \<or> map_of (db_working d) (db_key_of hn vn b) = None) \<and>
        map_option (\<lambda>r. row_backup a (db_key_of hn vn b) r version) (map_of (db_working d') (db_key_of hn vn b)) =
          Some (b\<lparr>b_addr := a, b_finishTime := (if version < 11 then 0 else b_finishTime b)\<rparr>) \<and>
        (\<forall>k. k \<noteq> db_key_of hn vn b \<longrightarrow> map_of (db_working d') k = map_of (db_working d) k)"
proof (cases res)
  case (Inl e)
  then show ?thesis using db_statement_Inl assms by (auto simp: backup_insert_def)
next
  case (Inr u)
  then have "table_insert replace (db_key_of hn vn b) (backup_key_row version b) (db_working d) = Inr (db_working d')"
    using assms db_statement_Inr by (simp add: backup_insert_def)
  then show ?thesis
    by (auto simp: Inr table_insert_def map_add_def row_backup_key_row split: if_splits option.splits dest!: sym [of _ "db_working d'"])
qed

definition sample_database :: "db_table \<Rightarrow> database" where
  "sample_database t = \<lparr>db_committed = t, db_working = t, db_in_transaction = False, db_busy = []\<rparr>"

lemma insert_read_back_witness:
  "let b = sample_backup 3 1000 ''dev''
   in map_option (\<lambda>r. row_backup 7 (db_key_of ''h'' ''v'' b) r 11)
        (map_of (db_working (snd (backup_insert 11 ''h'' ''v'' False b (sample_database []))))
           (db_key_of ''h'' ''v'' b)) = Some (b\<lparr>b_addr := 7\<rparr>)"
proof -
  obtain res d where r: "backup_insert 11 ''h'' ''v'' False (sample_backup 3 1000 ''dev'') (sample_database []) = (res, d)"
    by fastforce
  then have "res = Inr ()" by (auto simp: backup_insert_def db_statement_def sample_database_def Let_def table_insert_def)
  then show ?thesis using insert_read_back [OF r, of 7] by (simp add: Let_def r)
qed

text \<open>
  \<open>Backup::update\<close> changes the row of the backup, when there is one, so that it reads back as the
  backup (before version 11, with the finish time the row had); \<open>Backup::remove\<close> takes the row away;
  both leave every other row alone, and neither ever adds one.
\<close>

theorem update_remove_row:
  "(\<forall>d'. backup_update version hn vn b d = (Inr (), d') \<longrightarrow>
      (\<forall>k. map_of (db_working d') k =
         (if k = db_key_of hn vn b
          then map_option (\<lambda>old. (backup_key_row version b)\<lparr>r_finishTime := if version < 11 then r_finishTime old else b_finishTime b\<rparr>)
                 (map_of (db_working d) k)
          else map_of (db_working d) k))) \<and>
   (\<forall>d'. backup_remove hn vn b d = (Inr (), d') \<longrightarrow>
      (\<forall>k. map_of (db_working d') k = (if k = db_key_of hn vn b then None else map_of (db_working d) k)))"
proof (intro conjI allI impI)
  fix d' k assume "backup_update version hn vn b d = (Inr (), d')"
  from db_statement_Inr [OF this [unfolded backup_update_def]]
  show "map_of (db_working d') k = (if k = db_key_of hn vn b
      then map_option (\<lambda>old. (backup_key_row version b)\<lparr>r_finishTime := if version < 11 then r_finishTime old else b_finishTime b\<rparr>)
             (map_of (db_working d) k)
      else map_of (db_working d) k)"
    by (auto simp: backup_key_row_def dest: sym)
next
  fix d' k assume "backup_remove hn vn b d = (Inr (), d')"
  from db_statement_Inr [OF this [unfolded backup_remove_def]]
  show "map_of (db_working d') k = (if k = db_key_of hn vn b then None else map_of (db_working d) k)"
    by (auto dest: sym)
qed

lemma update_remove_row_witness:
  "map_of (db_working (snd (backup_remove ''h'' ''v'' (sample_backup 3 1000 ''dev'') (sample_database
     [(db_key_of ''h'' ''v'' (sample_backup 3 1000 ''dev''), backup_key_row 11 (sample_backup 3 1000 ''dev''))]))))
     (db_key_of ''h'' ''v'' (sample_backup 3 1000 ''dev'')) = None"
proof -
  let ?b = "sample_backup 3 1000 ''dev''"
  let ?d = "sample_database [(db_key_of ''h'' ''v'' ?b, backup_key_row 11 ?b)]"
  obtain res d where r: "backup_remove ''h'' ''v'' ?b ?d = (res, d)" by fastforce
  then have "res = Inr ()" by (auto simp: backup_remove_def db_statement_def sample_database_def Let_def)
  then have "\<forall>k. map_of (db_working d) k = (if k = db_key_of ''h'' ''v'' ?b then None else map_of (db_working ?d) k)"
    using conjunct2 [OF update_remove_row [of 11 "''h''" "''v''" ?b ?d]] r by blast
  then show ?thesis by (simp only: r snd_conv if_True simp_thms)
qed

text \<open>
  The table that \<open>createTables\<close> makes for a version is identified as version 11 from version 11 on
  and as version 10 for the versions 0 to 10; and when \<open>updateTables\<close> succeeds, on whatever columns,
  the table has them all, is identified as the version the program supports, and has lost none.
\<close>

theorem database_versions:
  "(0 \<le> v \<longrightarrow> identifyDatabaseVersion (createTables_columns v) = (if 11 \<le> v then 11 else 10)) \<and>
   (0 \<le> v \<longrightarrow> (\<exists>cols. updateTables (createTables_columns v) = Inr cols)) \<and>
   (updateTables columns = Inr cols' \<longrightarrow>
      identifyDatabaseVersion cols' = supportedDatabaseVersion \<and> set columns \<subseteq> set cols' \<and>
      set (map fst backup_columns) \<subseteq> set cols')"
proof (intro conjI impI)
  assume v: "0 \<le> v"
  show i: "identifyDatabaseVersion (createTables_columns v) = (if 11 \<le> v then 11 else 10)"
    using v by (simp add: identifyDatabaseVersion_def createTables_columns_def backup_columns_def)
  show "\<exists>cols. updateTables (createTables_columns v) = Inr cols"
    unfolding updateTables_def i using v by (auto simp: backup_columns_def createTables_columns_def rbind_def)
next
  assume u: "updateTables columns = Inr cols'"
  from update_columns [OF this [unfolded updateTables_def]]
  have s: "set cols' = set columns \<union> {n. \<exists>ty v. (n, ty, v) \<in> set backup_columns \<and> identifyDatabaseVersion columns < v}" .
  have all: "n \<in> set cols'" if "(n, ty, v) \<in> set backup_columns" for n ty v
    using that s identify_present [OF that, of columns] by (cases "identifyDatabaseVersion columns < v") auto
  show "identifyDatabaseVersion cols' = supportedDatabaseVersion"
    unfolding identifyDatabaseVersion_def by (rule identify_all) (rule all)
  show "set columns \<subseteq> set cols'" using s by simp
  show "set (map fst backup_columns) \<subseteq> set cols'" using all by auto
qed

lemma database_versions_witness:
  "identifyDatabaseVersion (createTables_columns 10) = 10 \<and>
   (\<exists>cols. updateTables (createTables_columns 10) = Inr cols \<and> identifyDatabaseVersion cols = supportedDatabaseVersion)"
proof -
  note d = database_versions [where v = 10 and columns = "createTables_columns 10"]
  from d [where cols' = "[]"] obtain cols where "updateTables (createTables_columns 10) = Inr cols" by auto
  with d [where cols' = cols] show ?thesis by simp
qed


definition sample_conf :: conf where
  "sample_conf = (let c = new_conf ''/usr/sbin/sendmail''; h = new_host c ''h''
     in c\<lparr>c_hosts := [(''h'', h\<lparr>h_volumes := [(''v'', new_volume h ''v'' ''/v'')]\<rparr>)],
          c_devices := [(''dev'', new_device ''dev'')]\<rparr>)"

lemma sample_conf_hosts:
  "c_hosts sample_conf =
     [(''h'', (new_host (new_conf ''/usr/sbin/sendmail'') ''h'')\<lparr>h_volumes := [(''v'', sample_volume)]\<rparr>)]"
  by (simp add: sample_conf_def sample_volume_def Let_def)

lemma sample_names: "canonical_name ''h''" "canonical_name ''v''"
  by (simp_all add: c_isdigit_def)

lemma sample_conf_ok:
  "names_ok sample_conf" "\<not> c_logsRead sample_conf"
  "all_volumes (\<lambda>hn vn v. volume_ok v \<and> v_backups v = []) sample_conf"
proof -
  show "names_ok sample_conf" using sample_names by (simp add: names_ok_def sample_conf_hosts)
  show "\<not> c_logsRead sample_conf" by (simp add: sample_conf_def new_conf_def conf_base.defs Let_def)
  have "v_backups sample_volume = []" by (simp add: sample_volume_def new_volume_def conf_base.defs)
  then show "all_volumes (\<lambda>hn vn v. volume_ok v \<and> v_backups v = []) sample_conf"
    using sample_volume_ok by (simp add: all_volumes_def sample_conf_hosts)
qed

definition sample_rows :: db_table where
  "sample_rows = [((''h'', ''v'', ''dev'', ''x''), backup_key_row 11 (sample_backup 3 1000 ''dev''))]"


end
