(* ===== verification/Prune.thy ===== *)
theory Prune
  imports Policies Actions DB
begin

text \<open>
  Pruning: \<^verbatim>\<open>src/Prune.cc\<close> and \<^verbatim>\<open>src/BulkRemove.cc\<close>.  A backup is obsolete when its pruning has
  started, when it is incomplete and incomplete backups are to go, or when the policy of its volume
  selects it; the obsolete backups are marked in the database, those on an available store get a
  \<open>.incomplete\<close> flag file and two actions, the removal itself (a child running \<open>rm -rf\<close>) and what
  follows it.  Backups are referred to by host, volume and address.  What the operating system does
  (creating and unlinking a file) is an argument of the definitions.
\<close>

section \<open>Finding the obsolete backups\<close>

record prune_options =
  po_act :: bool
  po_prune :: bool
  po_pruneIncomplete :: bool

type_synonym backup_ref = "string \<times> string \<times> nat"

definition set_contents :: "nat \<Rightarrow> string \<Rightarrow> volume \<Rightarrow> volume" where
  "set_contents a s v = update_backup a (\<lambda>b. b\<lparr>b_contents := s\<rparr>) v"

type_synonym classified = "volume \<times> nat list \<times> (string \<times> backup list) list \<times> int"

definition classify_backup :: "prune_options \<Rightarrow> classified \<Rightarrow> backup \<Rightarrow> classified" where
  "classify_backup opts s b =
     (let (v, obsolete, onDevices, n) = s
      in case b_status b of
           PRUNING \<Rightarrow> (v, obsolete @ [b_addr b], onDevices, n)
         | PRUNED \<Rightarrow> s
         | COMPLETE \<Rightarrow>
             if po_prune opts
             then let bs = (case om_find str_less (b_deviceName b) onDevices of None \<Rightarrow> [] | Some bs \<Rightarrow> bs)
                  in (v, obsolete, om_put str_less (b_deviceName b) (bs @ [b]) onDevices, n + 1)
             else s
         | _ \<Rightarrow>
             if po_pruneIncomplete opts
             then (set_contents (b_addr b) (''status='' @ backup_status_name (b_status b)) v,
                   obsolete @ [b_addr b], onDevices, n)
             else s)"

text \<open>\<open>policy\<close> is \<open>backupPrunable\<close> for the volume.\<close>

definition prune_device ::
    "(backup list \<Rightarrow> int \<Rightarrow> prune_map result) \<Rightarrow> volume \<times> nat list \<times> int \<Rightarrow> string \<times> backup list \<Rightarrow>
     (volume \<times> nat list \<times> int) result" where
  "prune_device policy s od =
     (let (v, obsolete, n) = s
      in rbind (policy (snd od) n) (\<lambda>prune.
           Inr (foldl (\<lambda>(v, obsolete, n) (a, reason). (set_contents a reason v, obsolete @ [a], n - 1))
                  (v, obsolete, n) prune)))"

definition obsolete_in_volume ::
    "prune_options \<Rightarrow> (backup list \<Rightarrow> int \<Rightarrow> prune_map result) \<Rightarrow> volume \<Rightarrow> (volume \<times> nat list) result" where
  "obsolete_in_volume opts policy v =
     (let (v', obsolete, onDevices, n) = foldl (classify_backup opts) (v, [], [], 0) (v_backups v)
      in rbind (fold_result (prune_device policy) (v', obsolete, n) onDevices)
           (\<lambda>(v, obsolete, n). Inr (v, obsolete)))"

definition obsolete_in_host ::
    "prune_options \<Rightarrow> (host \<Rightarrow> volume \<Rightarrow> backup list \<Rightarrow> int \<Rightarrow> prune_map result) \<Rightarrow> string \<Rightarrow> host \<Rightarrow>
     (host \<times> backup_ref list) result" where
  "obsolete_in_host opts policy hn h =
     (if \<not> host_selected h PurposePrune then Inr (h, [])
      else rbind (fold_result (\<lambda>(vs, obsolete) (vn, v).
             if \<not> volume_selected v PurposePrune then Inr (vs @ [(vn, v)], obsolete)
             else rbind (obsolete_in_volume opts (policy h v) v) (\<lambda>(v, as).
                    Inr (vs @ [(vn, v)], obsolete @ map (\<lambda>a. (hn, vn, a)) as)))
             ([], []) (h_volumes h))
           (\<lambda>(vs, obsolete). Inr (h\<lparr>h_volumes := vs\<rparr>, obsolete)))"

definition findObsoleteBackups ::
    "prune_options \<Rightarrow> (host \<Rightarrow> volume \<Rightarrow> backup list \<Rightarrow> int \<Rightarrow> prune_map result) \<Rightarrow> conf \<Rightarrow>
     (conf \<times> backup_ref list) result" where
  "findObsoleteBackups opts policy c =
     rbind (fold_result (\<lambda>(hs, obsolete) (hn, h).
              rbind (obsolete_in_host opts policy hn h) (\<lambda>(h, obs). Inr (hs @ [(hn, h)], obsolete @ obs)))
            ([], []) (c_hosts c))
       (\<lambda>(hs, obsolete). Inr (c\<lparr>c_hosts := hs\<rparr>, obsolete))"

section \<open>Marking them\<close>

definition find_backup :: "backup_ref \<Rightarrow> conf \<Rightarrow> backup option" where
  "find_backup r c =
     (case r of (hn, vn, a) \<Rightarrow>
        (case findVolume hn vn c of None \<Rightarrow> None | Some v \<Rightarrow> find (\<lambda>b. b_addr b = a) (v_backups v)))"

definition change_backup :: "backup_ref \<Rightarrow> (nat \<Rightarrow> volume \<Rightarrow> volume) \<Rightarrow> conf \<Rightarrow> conf" where
  "change_backup r f c = (case r of (hn, vn, a) \<Rightarrow> update_volume hn vn (f a) c)"

definition set_status_pruned :: "backup_status \<Rightarrow> int \<Rightarrow> nat \<Rightarrow> volume \<Rightarrow> volume" where
  "set_status_pruned s t a v = update_backup a (\<lambda>b. b\<lparr>b_pruned := t\<rparr>) (setStatus a s v)"

definition mark_backup :: "machine \<Rightarrow> int \<Rightarrow> conf \<Rightarrow> backup_ref \<Rightarrow> conf db_action" where
  "mark_backup m version c r d =
     (case find_backup r c of
        None \<Rightarrow> (Inl UndefinedBehaviour, d)
      | Some b \<Rightarrow>
          if b_status b = PRUNING then (Inr c, d)
          else case now m ''PRUNE'' of
                 Inl e \<Rightarrow> (Inl e, d)
               | Inr t \<Rightarrow>
                   db_bind (backup_update version (fst r) (fst (snd r)) (b\<lparr>b_status := PRUNING, b_pruned := t\<rparr>))
                     (\<lambda>_. db_return (change_backup r (set_status_pruned PRUNING t) c)) d)"

fun mark_backups :: "machine \<Rightarrow> int \<Rightarrow> backup_ref list \<Rightarrow> conf \<Rightarrow> conf db_action" where
  "mark_backups m version [] c = db_return c"
| "mark_backups m version (r # rs) c = db_bind (mark_backup m version c r) (mark_backups m version rs)"

definition markObsoleteBackups :: "bool \<Rightarrow> machine \<Rightarrow> int \<Rightarrow> backup_ref list \<Rightarrow> conf \<Rightarrow> conf db_action" where
  "markObsoleteBackups act m version rs c =
     db_bind db_begin (\<lambda>_.
     db_bind (mark_backups m version rs c) (\<lambda>c.
     db_bind (db_commit act False) (\<lambda>_. db_return c)))"

section \<open>Removing them\<close>

text \<open>\<open>Backup::backupPath\<close>.\<close>

definition backupPath :: "conf \<Rightarrow> string \<Rightarrow> string \<Rightarrow> backup \<Rightarrow> string result" where
  "backupPath c hn vn b =
     (case findDevice (b_deviceName b) c of
        None \<Rightarrow> Inl UndefinedBehaviour
      | Some dev \<Rightarrow>
          (case d_store dev of
             None \<Rightarrow> Inl AssertionFailed
           | Some path \<Rightarrow> Inr (path @ ''/'' @ hn @ ''/'' @ vn @ ''/'' @ b_id b)))"

text \<open>\<open>create\<close> is the opening and closing of a file for writing: the error when it fails.\<close>

definition removable_step ::
    "bool \<Rightarrow> (string \<Rightarrow> string option) \<Rightarrow> conf \<Rightarrow> backup_ref list \<times> string list \<times> nat \<Rightarrow> backup_ref \<Rightarrow>
     (backup_ref list \<times> string list \<times> nat) result" where
  "removable_step act create c s r =
     (let (removable, created, errors) = s
      in case find_backup r c of
           None \<Rightarrow> Inl UndefinedBehaviour
         | Some b \<Rightarrow>
             (case findDevice (b_deviceName b) c of
                None \<Rightarrow> Inl UndefinedBehaviour
              | Some dev \<Rightarrow>
                  (case d_store dev of
                     None \<Rightarrow> Inr s
                   | Some path \<Rightarrow>
                       (case om_find namelt path (c_stores c) of
                          None \<Rightarrow> Inl UndefinedBehaviour
                        | Some store \<Rightarrow>
                            if s_state store \<noteq> Enabled then Inr s
                            else rbind (backupPath c (fst r) (fst (snd r)) b) (\<lambda>bp.
                                   if \<not> act then Inr s
                                   else case create (bp @ ''.incomplete'') of
                                          None \<Rightarrow> Inr (removable @ [r], created @ [bp @ ''.incomplete''], errors)
                                        | Some _ \<Rightarrow> Inr (removable, created, errors + 2))))))"

definition findRemovableBackups ::
    "bool \<Rightarrow> (string \<Rightarrow> string option) \<Rightarrow> conf \<Rightarrow> backup_ref list \<Rightarrow> (backup_ref list \<times> string list \<times> nat) result" where
  "findRemovableBackups act create c obsolete = fold_result (removable_step act create c) ([], [], 0) obsolete"

text \<open>The two actions of a removal; the second follows the first, whether or not it succeeded.\<close>

definition removal_id :: "backup_ref \<Rightarrow> backup \<Rightarrow> string" where
  "removal_id r b = fst r @ ''/'' @ fst (snd r) @ ''/'' @ b_deviceName b @ ''/'' @ b_id b"

definition bulk_remove :: "backup_ref \<Rightarrow> backup \<Rightarrow> action" where
  "bulk_remove r b = uses (b_deviceName b) (new_action (''remove/'' @ removal_id r b))"

definition removed_backup :: "backup_ref \<Rightarrow> backup \<Rightarrow> action" where
  "removed_backup r b =
     uses (b_deviceName b)
       (after (''remove/'' @ removal_id r b) False False (new_action (''removed/'' @ removal_id r b)))"

definition removal_initialize :: "conf \<Rightarrow> action_list \<Rightarrow> backup_ref \<Rightarrow> action_list result" where
  "removal_initialize c al r =
     (case find_backup r c of
        None \<Rightarrow> Inl UndefinedBehaviour
      | Some b \<Rightarrow> rbind (al_add (bulk_remove r b) al) (al_add (removed_backup r b)))"

definition bulk_remove_command :: "conf \<Rightarrow> string \<Rightarrow> string list" where
  "bulk_remove_command c path = [c_rm c, ''-rf'', path]"

text \<open>
  \<open>pruneBackups\<close> up to the running of the actions; \<open>identify\<close> is \<open>identifyDevices(Store::Enabled)\<close>.
  \<open>None\<close> when there is nothing to do.
\<close>

definition prepare_pruning ::
    "prune_options \<Rightarrow> (host \<Rightarrow> volume \<Rightarrow> backup list \<Rightarrow> int \<Rightarrow> prune_map result) \<Rightarrow> machine \<Rightarrow> int \<Rightarrow>
     (conf \<Rightarrow> conf result) \<Rightarrow> (string \<Rightarrow> string option) \<Rightarrow> conf \<Rightarrow>
     (conf \<times> backup_ref list \<times> action_list \<times> nat) option db_action" where
  "prepare_pruning opts policy m version identify create c d =
     (case findObsoleteBackups opts policy c of
        Inl e \<Rightarrow> (Inl e, d)
      | Inr (c, obsolete) \<Rightarrow>
          if obsolete = [] then (Inr None, d)
          else db_bind
                 (if po_act opts then markObsoleteBackups (po_act opts) m version obsolete c else db_return c)
                 (\<lambda>c d.
                    (rbind (identify c) (\<lambda>c.
                     rbind (findRemovableBackups (po_act opts) create c obsolete) (\<lambda>(rs, created, errors).
                       if \<not> po_act opts \<and> rs \<noteq> [] then Inl AssertionFailed
                       else rbind (fold_result (removal_initialize c) new_action_list rs) (\<lambda>al.
                              Inr (Some (c, rs, al, errors))))), d)) d)"

text \<open>
  \<open>completed\<close>: \<open>status\<close> is the wait status of the child, or -1 when it never ran; \<open>unlink\<close> gives
  \<open>errno\<close> when it fails, \<open>enoent\<close> being its \<open>ENOENT\<close>; the count is that of the errors.
\<close>

type_synonym prune_state = "conf \<times> database \<times> nat"

definition removal_errors :: "(string \<Rightarrow> int option) \<Rightarrow> int \<Rightarrow> string \<Rightarrow> bool \<Rightarrow> int \<Rightarrow> nat" where
  "removal_errors unlink enoent path timedOut status =
     (if status = 0
      then (case unlink (path @ ''.incomplete'') of None \<Rightarrow> 0 | Some errno \<Rightarrow> if errno = enoent then 0 else 2)
      else if status = -1 then 0
      else if timedOut \<and> WIFSIGNALED status \<and> WTERMSIG status = SIGTERM then 0 else 1)"

definition removal_completed ::
    "machine \<Rightarrow> int \<Rightarrow> (string \<Rightarrow> int option) \<Rightarrow> int \<Rightarrow> bool \<Rightarrow> int \<Rightarrow> backup_ref \<Rightarrow> prune_state \<Rightarrow>
     (unit result \<times> prune_state) option" where
  "removal_completed m version unlink enoent timedOut status r s =
     (let (c, d, errors) = s
      in case find_backup r c of
           None \<Rightarrow> Some (Inl UndefinedBehaviour, s)
         | Some b \<Rightarrow>
             (case backupPath c (fst r) (fst (snd r)) b of
                Inl e \<Rightarrow> Some (Inl e, s)
              | Inr path \<Rightarrow>
                  let errors = errors + removal_errors unlink enoent path timedOut status
                  in if status \<noteq> 0 then Some (Inr (), (c, d, errors))
                     else case now m ''PRUNE'' of
                            Inl e \<Rightarrow> Some (Inl e, (change_backup r (\<lambda>a. setStatus a PRUNED) c, d, errors))
                          | Inr t \<Rightarrow>
                              let c = change_backup r (set_status_pruned PRUNED t) c;
                                  b = b\<lparr>b_status := PRUNED, b_pruned := t\<rparr>
                              in case backup_update version (fst r) (fst (snd r)) b d of
                                   (Inl e, d) \<Rightarrow> Some (Inl e, (c, d, errors))
                                 | (Inr _, d) \<Rightarrow>
                                     (case retry_busy (db_bind db_begin (\<lambda>_. db_commit True False)) d of
                                        None \<Rightarrow> None
                                      | Some (Inl e, d) \<Rightarrow> Some (Inl e, (c, d, errors))
                                      | Some (Inr _, d) \<Rightarrow>
                                          Some (Inr (), (change_backup r (\<lambda>a v. snd (removeBackup a v)) c, d, errors)))))"

definition removable_completed ::
    "machine \<Rightarrow> int \<Rightarrow> (string \<Rightarrow> int option) \<Rightarrow> int \<Rightarrow> bool \<Rightarrow> bool \<Rightarrow> int \<Rightarrow> backup_ref \<Rightarrow> prune_state \<Rightarrow>
     (unit result \<times> prune_state) option" where
  "removable_completed m version unlink enoent alreadyComplete timedOut status r s =
     (if alreadyComplete then Some (Inr (), s)
      else removal_completed m version unlink enoent timedOut status r s)"

text \<open>\<open>prunePruneLogs\<close>.\<close>

definition prunePruneLogs :: "bool \<Rightarrow> machine \<Rightarrow> conf \<Rightarrow> unit db_action" where
  "prunePruneLogs act m c d =
     (if \<not> act then (Inr (), d)
      else case now m ''PRUNE'' of
             Inl e \<Rightarrow> (Inl e, d)
           | Inr t \<Rightarrow> db_statement (\<lambda>tab. Inr (delete_pruned (t - c_keepPruneLogs c) tab)) d)"

section \<open>Which backups are obsolete\<close>

definition removable_now :: "prune_options \<Rightarrow> backup \<Rightarrow> bool" where
  "removable_now opts b \<longleftrightarrow> b_status b = PRUNING \<or>
     po_pruneIncomplete opts \<and> b_status b \<in> {UNKNOWN, UNDERWAY, FAILED}"

definition same_but_contents :: "volume \<Rightarrow> volume \<Rightarrow> bool" where
  "same_but_contents v w \<longleftrightarrow> w\<lparr>v_backups := v_backups v\<rparr> = v \<and>
     map (\<lambda>b. b\<lparr>b_contents := []\<rparr>) (v_backups w) = map (\<lambda>b. b\<lparr>b_contents := []\<rparr>) (v_backups v)"

lemma same_but_contents_refl [simp]: "same_but_contents v v"
  by (simp add: same_but_contents_def)

lemma same_but_contents_set: "same_but_contents v w \<Longrightarrow> same_but_contents v (set_contents a s w)"
  by (auto simp: same_but_contents_def set_contents_def update_backup_def comp_def if_distrib cong: if_cong)

lemma same_but_contents_foldl:
  "same_but_contents v w \<Longrightarrow>
   same_but_contents v (fst (foldl (\<lambda>(v, obsolete, n) (a, reason). (set_contents a reason v, obsolete @ [a], n - 1))
      (w, obs, n) prune)) \<and>
   fst (snd (foldl (\<lambda>(v, obsolete, n) (a, reason). (set_contents a reason v, obsolete @ [a], n - 1))
      (w, obs, n) prune)) = obs @ map fst prune"
  for n :: int
proof (induction prune arbitrary: w obs n)
  case (Cons p prune)
  obtain a reason where p: "p = (a, reason)" by force
  show ?case using Cons.IH [OF same_but_contents_set [OF Cons.prems], of a reason "obs @ [a]" "n - 1"] by (simp add: p)
qed simp

lemma classify_Cons:
  assumes "s = (v, obs, onD, n)"
  shows "classify_backup opts s b =
    (if removable_now opts b
     then (if b_status b = PRUNING then v else set_contents (b_addr b) (''status='' @ backup_status_name (b_status b)) v,
           obs @ [b_addr b], onD, n)
     else if b_status b = COMPLETE \<and> po_prune opts
     then (v, obs, om_put str_less (b_deviceName b)
             ((case om_find str_less (b_deviceName b) onD of None \<Rightarrow> [] | Some bs \<Rightarrow> bs) @ [b]) onD, n + 1)
     else (v, obs, onD, n))"
  using assms by (cases "b_status b") (simp_all add: classify_backup_def removable_now_def Let_def)

lemma classify_all:
  "foldl (classify_backup opts) (v, [], [], 0) bs = (w, obs, onD, n) \<Longrightarrow>
   same_but_contents v w \<and> obs = map b_addr (filter (removable_now opts) bs) \<and>
   string_order.sorted_keys onD \<and>
   (\<forall>d. om_find str_less d onD =
      (if po_prune opts \<and> backups_of d bs \<noteq> [] then Some (backups_of d bs) else None))"
proof (induction bs arbitrary: w obs onD n rule: rev_induct)
  case (snoc b bs)
  obtain w' obs' onD' n' where s: "foldl (classify_backup opts) (v, [], [], 0) bs = (w', obs', onD', n')"
    by (metis prod_cases4)
  note IH = snoc.IH [OF s]
  have e: "classify_backup opts (w', obs', onD', n') b = (w, obs, onD, n)" using snoc.prems s by simp
  consider "removable_now opts b" | "\<not> removable_now opts b" "b_status b = COMPLETE" "po_prune opts"
    | "\<not> removable_now opts b" "\<not> (b_status b = COMPLETE \<and> po_prune opts)" by blast
  then show ?case
  proof cases
    case 1
    then have "b_status b \<noteq> COMPLETE" by (auto simp: removable_now_def)
    then show ?thesis using IH e [unfolded classify_Cons [OF refl]] 1 same_but_contents_set
      by (auto split: if_splits)
  next
    case 2
    let ?bs = "(case om_find str_less (b_deviceName b) onD' of None \<Rightarrow> [] | Some bs \<Rightarrow> bs) @ [b]"
    have onD: "onD = om_put str_less (b_deviceName b) ?bs onD'" and w: "w = w'" "obs = obs'"
      using e [unfolded classify_Cons [OF refl]] 2 by auto
    have bs: "?bs = backups_of (b_deviceName b) bs @ [b]" using IH 2(3) by auto
    have "om_find str_less d onD = (if d = b_deviceName b then Some ?bs else om_find str_less d onD')" for d
      unfolding onD using IH by (simp add: string_order.om_find_put)
    moreover have "string_order.sorted_keys onD" unfolding onD using IH by (simp add: string_order.sorted_om_put)
    ultimately show ?thesis using IH 2 w bs by auto
  next
    case 3
    then show ?thesis using IH e [unfolded classify_Cons [OF refl]] by auto
  qed
qed (simp add: backups_of_def)

lemma prune_devices:
  assumes "fold_result (prune_device policy) (w, obs0, n) onD = Inr (v', obs, k)" "distinct (map fst onD)"
    "same_but_contents v w"
  shows "same_but_contents v v' \<and>
    (\<exists>f. (\<forall>(d, bs) \<in> set onD. \<exists>k. policy bs k = Inr (f d)) \<and>
       set obs = set obs0 \<union> (\<Union>(d, bs) \<in> set onD. fst ` set (f d)))"
proof -
  define P where "P ys s \<longleftrightarrow> (case s of (w', obs, k) \<Rightarrow> same_but_contents v w' \<and>
    (\<exists>f. (\<forall>(d, bs) \<in> set ys. \<exists>k. policy bs k = Inr (f d)) \<and>
       set obs = set obs0 \<union> (\<Union>(d, bs) \<in> set ys. fst ` set (f d))))"
    for ys :: "(string \<times> backup list) list" and s :: "volume \<times> nat list \<times> int"
  have "P onD (v', obs, k)"
    using assms(1)
  proof (rule fold_result_invariant [where P = P])
    show "P [] (w, obs0, n)" using assms(3) by (simp add: P_def)
    fix ys od zs s t
    assume split: "onD = ys @ od # zs" and s: "P ys s" and t: "prune_device policy s od = Inr t"
    obtain w' obs' k' where sv: "s = (w', obs', k')" by (metis prod_cases3)
    obtain d bs where od: "od = (d, bs)" by force
    from t obtain prune where pr: "policy bs k' = Inr prune"
      and t: "t = foldl (\<lambda>(v, obsolete, n) (a, reason). (set_contents a reason v, obsolete @ [a], n - 1)) (w', obs', k') prune"
      by (auto simp: prune_device_def sv od result_simps)
    from s obtain f where f: "same_but_contents v w'" "\<forall>(d, bs) \<in> set ys. \<exists>k. policy bs k = Inr (f d)"
      "set obs' = set obs0 \<union> (\<Union>(d, bs) \<in> set ys. fst ` set (f d))" by (auto simp: P_def sv)
    have new: "d \<notin> fst ` set ys" using assms(2) split od by auto
    then have same: "(f(d := prune)) e = f e" if "(e, x) \<in> set ys" for e x using that by force
    note fl = same_but_contents_foldl [OF f(1), of obs' k' prune]
    have "\<forall>(e, x) \<in> set (ys @ [od]). \<exists>k. policy x k = Inr ((f(d := prune)) e)"
      using f(2) pr same od by fastforce
    moreover have "set obs' \<union> fst ` set prune =
        set obs0 \<union> (\<Union>(e, x) \<in> set (ys @ [od]). fst ` set ((f(d := prune)) e))"
    proof -
      have "(\<Union>(e, x) \<in> set ys. fst ` set ((f(d := prune)) e)) = (\<Union>(e, x) \<in> set ys. fst ` set (f e))"
        by (rule SUP_cong) (use same in auto)
      then show ?thesis using f(3) od by auto
    qed
    moreover obtain w2 o2 k2 where t2: "t = (w2, o2, k2)" by (metis prod_cases3)
    moreover have "same_but_contents v w2" "set o2 = set obs' \<union> fst ` set prune" using fl [folded t] by (simp_all add: t2)
    ultimately show "P (ys @ [od]) t" unfolding P_def t2 prod.case by (intro conjI exI [of _ "f(d := prune)"]) simp_all
  qed
  then show ?thesis by (simp add: P_def)
qed

lemma obsolete_split:
  assumes "obsolete_in_volume opts policy v = Inr (v', obs)"
  shows "same_but_contents v v' \<and>
    (\<exists>f. (\<forall>d. po_prune opts \<longrightarrow> backups_of d (v_backups v) \<noteq> [] \<longrightarrow>
            (\<exists>k. policy (backups_of d (v_backups v)) k = Inr (f d))) \<and>
       set obs = b_addr ` {b \<in> set (v_backups v). removable_now opts b} \<union>
         (\<Union>d \<in> {d. po_prune opts \<and> backups_of d (v_backups v) \<noteq> []}. fst ` set (f d)))"
proof -
  obtain w obs0 onD n where cl: "foldl (classify_backup opts) (v, [], [], 0) (v_backups v) = (w, obs0, onD, n)"
    by (metis prod_cases4)
  note c = classify_all [OF cl]
  from assms obtain k where fr: "fold_result (prune_device policy) (w, obs0, n) onD = Inr (v', obs, k)"
    by (auto simp: obsolete_in_volume_def cl result_simps)
  have dist: "distinct (map fst onD)" using conjunct1 [OF conjunct2 [OF conjunct2 [OF c]]]
    by (induction onD) (auto simp: image_iff)
  have onD: "(d, bs) \<in> set onD \<longleftrightarrow> po_prune opts \<and> bs = backups_of d (v_backups v) \<and> bs \<noteq> []" for d bs
    using c om_find_in_set [of onD d bs] by (auto split: if_splits)
  from prune_devices [OF fr dist, of v] c obtain f where f: "same_but_contents v v'"
    "\<forall>(d, bs) \<in> set onD. \<exists>k. policy bs k = Inr (f d)"
    "set obs = set obs0 \<union> (\<Union>(d, bs) \<in> set onD. fst ` set (f d))" by auto
  have "set obs0 = b_addr ` {b \<in> set (v_backups v). removable_now opts b}" using c by auto
  moreover have "(\<Union>(d, bs) \<in> set onD. fst ` set (f d)) =
      (\<Union>d \<in> {d. po_prune opts \<and> backups_of d (v_backups v) \<noteq> []}. fst ` set (f d))"
    by (force simp: onD)
  ultimately have "set obs = b_addr ` {b \<in> set (v_backups v). removable_now opts b} \<union>
      (\<Union>d \<in> {d. po_prune opts \<and> backups_of d (v_backups v) \<noteq> []}. fst ` set (f d))" using f(3) by simp
  moreover have "\<exists>k. policy (backups_of d (v_backups v)) k = Inr (f d)"
    if "po_prune opts" "backups_of d (v_backups v) \<noteq> []" for d using f(2) onD [of d] that by blast
  ultimately show ?thesis using f(1) by blast
qed

lemma complete_not_removable: "b \<in> set (backups_of d bs) \<Longrightarrow> \<not> removable_now opts b"
  by (auto simp: backups_of_def removable_now_def)

lemma filter_unselected:
  assumes "distinct (map b_addr bs)" "A \<subseteq> addrs bs" "card A = n"
  shows "length (filter (\<lambda>b. b_addr b \<notin> A) bs) + n = length bs"
proof -
  have "length (filter (\<lambda>b. b_addr b \<in> A) bs) = card (b_addr ` set (filter (\<lambda>b. b_addr b \<in> A) bs))"
    using assms(1) distinct_card [of "map b_addr (filter (\<lambda>b. b_addr b \<in> A) bs)"] by (simp add: distinct_map_filter)
  moreover have "b_addr ` set (filter (\<lambda>b. b_addr b \<in> A) bs) = A" using assms(2) by auto
  ultimately have "length (filter (\<lambda>b. b_addr b \<in> A) bs) = n" using assms(3) by simp
  then show ?thesis using sum_length_filter_compl [of "\<lambda>b. b_addr b \<in> A" bs] by simp
qed

lemma age_policy_device:
  assumes "backupPrunable strtod run m hn v bs [] n = Inr prune" "bs \<noteq> []" "prunePolicy v = ''age''"
    "distinct (map b_addr bs)" "days_parameter v ''prune-age'' ''366d'' = Inr pa"
    "parseInteger (pp_value (get_parameter_default (pruneParameters v) ''min-backups'' ''1'')) 1 INT_MAX 0 = Inr mb"
  shows "length (filter (\<lambda>b. b_addr b \<notin> fst ` set prune) bs) \<ge> min (nat mb) (length bs) \<and>
    (\<forall>b \<in> set bs. b_addr b \<in> fst ` set prune \<longrightarrow> older_than m pa b)"
proof -
  have "prune_age m v bs [] = Inr prune"
    using assms(1-3) by (simp add: backupPrunable_def find_prune_policy_def policy_prunable_def)
  with assms(5,6) obtain left where
    "fold_result (age_step m pa mb (length bs)) (length bs, []) bs = Inr (left, prune)"
    by (auto simp: prune_age_def result_simps)
  note a = age_loop [OF this assms(4)]
  then have "length prune = card (pruned_addrs prune)" using sorted_card by blast
  with a filter_unselected [OF assms(4), of "pruned_addrs prune"] show ?thesis by auto
qed

text \<open>
  C2: Which backups of a volume are obsolete: those whose pruning has started; with
  \<open>--prune-incomplete\<close>, the unknown, underway and failed ones; and with \<open>--prune\<close>, of the complete
  backups on each device, those that the policy of the volume picks when it is given exactly these.
  Nothing else about the volume changes but the text kept with its backups.
\<close>

theorem obsolete_backups_selected:
  assumes "obsolete_in_volume opts policy v = Inr (v', obs)"
  shows "same_but_contents v v' \<and>
    (\<exists>f. (\<forall>d. po_prune opts \<longrightarrow> backups_of d (v_backups v) \<noteq> [] \<longrightarrow>
            (\<exists>k. policy (backups_of d (v_backups v)) k = Inr (f d))) \<and>
       set obs = b_addr ` {b \<in> set (v_backups v). removable_now opts b} \<union>
         (\<Union>d \<in> {d. po_prune opts \<and> backups_of d (v_backups v) \<noteq> []}. fst ` set (f d)))"
  by (rule obsolete_split [OF assms])

definition sample_options :: prune_options where
  "sample_options = \<lparr>po_act = True, po_prune = True, po_pruneIncomplete = True\<rparr>"

definition sample_prune_volume :: volume where
  "sample_prune_volume = sample_volume\<lparr>v_backups := sample_on_device @ [(sample_backup 3 9 ''d'')\<lparr>b_status := FAILED\<rparr>]\<rparr>"

lemma sample_obsolete:
  "\<exists>v' obs. obsolete_in_volume sample_options (\<lambda>bs n. backupPrunable (\<lambda>_. (2, [], None)) (\<lambda>_ _. (0, []))
     sample_machine ''h'' sample_prune_volume bs [] n) sample_prune_volume = Inr (v', obs) \<and> set obs = {1, 3}"
proof -
  have age: "prune_age sample_machine sample_prune_volume sample_on_device [] = Inr [(1, age_reason 3652 366 2 1)]"
    using sample_age by (simp add: prune_age_def sample_prune_volume_def days_parameter_def)
  have pol: "prunePolicy sample_prune_volume = ''age''" by code_simp
  have bp: "backupPrunable (\<lambda>_. (2, [], None)) (\<lambda>_ _. (0, [])) sample_machine ''h'' sample_prune_volume
      sample_on_device [] n = Inr [(1, age_reason 3652 366 2 1)]" for n
    using age pol by (simp add: backupPrunable_def find_prune_policy_def policy_prunable_def)
      (simp add: sample_on_device_def)
  obtain w obs0 onD n where cl: "foldl (classify_backup sample_options) (sample_prune_volume, [], [], 0)
      (v_backups sample_prune_volume) = (w, obs0, onD, n)" by (metis prod_cases4)
  have bs: "v_backups sample_prune_volume = sample_on_device @ [(sample_backup 3 9 ''d'')\<lparr>b_status := FAILED\<rparr>]"
    by (simp add: sample_prune_volume_def)
  have "obs0 = [3] \<and> onD = [(''d'', sample_on_device)]"
    using cl unfolding bs
    by (auto simp: sample_on_device_def sample_backup_def sample_options_def classify_backup_def)
  then show ?thesis by (auto simp: obsolete_in_volume_def cl prune_device_def bp rbind_def)
qed

lemma obsolete_backups_selected_witness:
  "\<exists>v' obs. obsolete_in_volume sample_options (\<lambda>bs n. backupPrunable (\<lambda>_. (2, [], None)) (\<lambda>_ _. (0, []))
       sample_machine ''h'' sample_prune_volume bs [] n) sample_prune_volume = Inr (v', obs) \<and>
     set obs = {1, 3} \<and> same_but_contents sample_prune_volume v'"
  using sample_obsolete obsolete_backups_selected by blast



section \<open>Marking and removing\<close>

lemma db_committed_begin: "db_begin d = (r, d') \<Longrightarrow> db_committed d' = db_committed d"
  "db_begin d = (Inr (), d') \<Longrightarrow> db_in_transaction d'" "db_begin d = (Inr (), d') \<Longrightarrow> db_working d' = db_working d"
  by (auto simp: db_begin_def db_control_def Let_def split: if_splits)

lemma db_statement_in_transaction:
  "db_in_transaction d \<Longrightarrow> db_statement f d = (r, d') \<Longrightarrow>
   db_committed d' = db_committed d \<and> db_in_transaction d'"
  by (auto simp: db_statement_def Let_def split: if_splits sum.splits)

lemma db_commit_result:
  "db_commit act any d = (Inl e, d') \<Longrightarrow> db_committed d' = db_committed d"
  "db_commit act any d = (Inr (), d') \<Longrightarrow> db_committed d' = db_working d \<and> \<not> db_in_transaction d'"
  by (auto simp: db_commit_def db_control_def Let_def split: if_splits)

text \<open>What the loop that marks the backups does to the table.\<close>

definition marked_rows :: "backup_ref list \<Rightarrow> db_table \<Rightarrow> db_table \<Rightarrow> bool" where
  "marked_rows rs t t' \<longleftrightarrow> (\<forall>k. map_of t' k = map_of t k \<or>
     (\<exists>r \<in> set rs. fst k = fst r \<and> fst (snd k) = fst (snd r)) \<and>
     (\<exists>old row. map_of t k = Some old \<and> map_of t' k = Some row \<and> r_status row = PRUNING))"

lemma marked_key_trans:
  assumes "y = x \<or> A \<and> (\<exists>old row. x = Some old \<and> y = Some row \<and> S row)"
    "z = y \<or> B \<and> (\<exists>old row. y = Some old \<and> z = Some row \<and> S row)" "A \<Longrightarrow> C" "B \<Longrightarrow> C"
  shows "z = x \<or> C \<and> (\<exists>old row. x = Some old \<and> z = Some row \<and> S row)"
  using assms by auto

lemma marked_rows_trans: "marked_rows rs t t' \<Longrightarrow> marked_rows ss t' t'' \<Longrightarrow> marked_rows (rs @ ss) t t''"
  unfolding marked_rows_def
proof
  fix k
  assume a: "\<forall>k. map_of t' k = map_of t k \<or> (\<exists>r \<in> set rs. fst k = fst r \<and> fst (snd k) = fst (snd r)) \<and>
      (\<exists>old row. map_of t k = Some old \<and> map_of t' k = Some row \<and> r_status row = PRUNING)"
    and b: "\<forall>k. map_of t'' k = map_of t' k \<or> (\<exists>r \<in> set ss. fst k = fst r \<and> fst (snd k) = fst (snd r)) \<and>
      (\<exists>old row. map_of t' k = Some old \<and> map_of t'' k = Some row \<and> r_status row = PRUNING)"
  from spec [OF a, of k] spec [OF b, of k]
  show "map_of t'' k = map_of t k \<or> (\<exists>r \<in> set (rs @ ss). fst k = fst r \<and> fst (snd k) = fst (snd r)) \<and>
      (\<exists>old row. map_of t k = Some old \<and> map_of t'' k = Some row \<and> r_status row = PRUNING)"
    by (rule marked_key_trans) auto
qed

lemma mark_backup_rows:
  assumes "mark_backup m version c r d = (res, d')" "db_in_transaction d"
  shows "db_committed d' = db_committed d \<and> db_in_transaction d' \<and>
    (\<forall>c'. res = Inr c' \<longrightarrow> marked_rows [r] (db_working d) (db_working d'))"
proof (cases "find_backup r c")
  case (Some b)
  show ?thesis
  proof (cases "b_status b = PRUNING \<or> (\<exists>e. now m ''PRUNE'' = Inl e)")
    case True
    then have "d' = d \<and> (\<forall>c'. res = Inr c' \<longrightarrow> b_status b = PRUNING)"
      using assms(1) Some by (auto simp: mark_backup_def split: if_splits)
    then show ?thesis using assms(2) by (auto simp: marked_rows_def)
  next
    case False
    then obtain t where t: "now m ''PRUNE'' = Inr t" by (cases "now m ''PRUNE''") auto
    let ?b = "b\<lparr>b_status := PRUNING, b_pruned := t\<rparr>"
    obtain x d1 where u: "backup_update version (fst r) (fst (snd r)) ?b d = (x, d1)" by force
    have same: "db_committed d1 = db_committed d \<and> db_in_transaction d1"
      using u assms(2) db_statement_in_transaction unfolding backup_update_def by blast
    show ?thesis
    proof (cases x)
      case (Inl e)
      then show ?thesis using assms(1) Some False t u same by (simp add: mark_backup_def) (auto simp: db_bind_def)
    next
      case (Inr y)
      then have w: "db_working d1 = table_update version (db_key_of (fst r) (fst (snd r)) ?b) (backup_key_row version ?b) (db_working d)"
        using u db_statement_Inr unfolding backup_update_def by fastforce
      have d1: "d' = d1" using assms(1) Some False t u Inr by (simp add: mark_backup_def db_bind_def db_return_def)
      have "marked_rows [r] (db_working d) (db_working d1)"
        unfolding marked_rows_def w
        by (cases "map_of (db_working d) (db_key_of (fst r) (fst (snd r)) ?b)")
          (auto simp: db_key_of_def backup_key_row_def)
      then show ?thesis using same d1 by simp
    qed
  qed
qed (use assms in \<open>auto simp: mark_backup_def\<close>)

lemma mark_backups_rows:
  "mark_backups m version rs c d = (res, d') \<Longrightarrow> db_in_transaction d \<Longrightarrow>
   db_committed d' = db_committed d \<and> db_in_transaction d' \<and>
   (\<forall>c'. res = Inr c' \<longrightarrow> marked_rows rs (db_working d) (db_working d'))"
proof (induction rs arbitrary: c d)
  case (Cons r rs)
  obtain x d1 where m: "mark_backup m version c r d = (x, d1)" by force
  note one = mark_backup_rows [OF m Cons.prems(2)]
  show ?case
  proof (cases x)
    case (Inl e)
    then show ?thesis using Cons.prems m one by (auto simp: db_bind_def)
  next
    case (Inr c1)
    then have "mark_backups m version rs c1 d1 = (res, d')" using Cons.prems(1) m by (simp add: db_bind_def)
    from Cons.IH [OF this] one Inr show ?thesis using marked_rows_trans [of "[r]" "db_working d" "db_working d1" rs] by auto
  qed
qed (auto simp: db_return_def marked_rows_def)

text \<open>
  C30: Marking the obsolete backups is one transaction: when it fails, for whatever reason, the
  committed table is as it was; when it succeeds, the rows that changed are rows of volumes of the
  marked backups, were there before, and say \<open>pruning\<close>.
\<close>

theorem marking_is_atomic:
  assumes "markObsoleteBackups act m version rs c d = (res, d')"
  shows "case res of
      Inl _ \<Rightarrow> db_committed d' = db_committed d
    | Inr _ \<Rightarrow> \<not> db_in_transaction d' \<and>
        (\<forall>k. map_of (db_committed d') k = map_of (db_working d) k \<or>
          (\<exists>r \<in> set rs. fst k = fst r \<and> fst (snd k) = fst (snd r)) \<and>
          (\<exists>old row. map_of (db_working d) k = Some old \<and> map_of (db_committed d') k = Some row \<and> r_status row = PRUNING))"
proof -
  obtain x d1 where b: "db_begin d = (x, d1)" by force
  show ?thesis
  proof (cases x)
    case (Inl e)
    then show ?thesis using assms b db_committed_begin(1) [OF b] by (auto simp: markObsoleteBackups_def db_bind_def)
  next
    case (Inr u)
    then have "db_begin d = (Inr (), d1)" using b by simp
    note bi = db_committed_begin(2,3,1) [OF this]
    obtain y d2 where m: "mark_backups m version rs c d1 = (y, d2)" by force
    note rows = mark_backups_rows [OF m bi(1)]
    show ?thesis
    proof (cases y)
      case (Inl e)
      then show ?thesis using assms b Inr m rows bi by (auto simp: markObsoleteBackups_def db_bind_def)
    next
      case c1: (Inr c1)
      obtain z d3 where k: "db_commit act False d2 = (z, d3)" by force
      show ?thesis
      proof (cases z)
        case (Inl e)
        then have "db_committed d3 = db_committed d2" using k db_commit_result(1) by blast
        then show ?thesis using assms b Inr m rows bi c1 k Inl by (auto simp: markObsoleteBackups_def db_bind_def)
      next
        case z: (Inr w)
        then have "db_committed d3 = db_working d2 \<and> \<not> db_in_transaction d3"
          using k db_commit_result(2) [of act False d2 d3] by simp
        moreover have "res = Inr c1 \<and> d' = d3"
          using assms b Inr m c1 k z by (auto simp: markObsoleteBackups_def db_bind_def db_return_def)
        moreover have "marked_rows rs (db_working d) (db_working d2)" using rows c1 bi by simp
        ultimately show ?thesis by (simp add: marked_rows_def)
      qed
    qed
  qed
qed

lemma marking_is_atomic_witness:
  "db_committed (snd (markObsoleteBackups True sample_machine 11 [(''h'', ''v'', 9)] sample_conf (sample_database sample_rows)))
   = sample_rows"
proof -
  obtain res d' where r: "markObsoleteBackups True sample_machine 11 [(''h'', ''v'', 9)] sample_conf
      (sample_database sample_rows) = (res, d')" by force
  have "v_backups sample_volume = []" by (simp add: sample_volume_def new_volume_def conf_base.defs)
  then have "find_backup (''h'', ''v'', 9) sample_conf = None"
    using sample_names
    by (simp add: find_backup_def findVolume_def findHost_def sample_conf_hosts host_findVolume_def name_order.lt_irrefl)
  then have "res = Inl UndefinedBehaviour"
    using r by (auto simp: markObsoleteBackups_def sample_database_def mark_backup_def db_bind_def db_begin_def db_control_def)
  then show ?thesis using marking_is_atomic [OF r] r by (simp add: sample_database_def)
qed

definition flagged :: "(string \<Rightarrow> string option) \<Rightarrow> conf \<Rightarrow> string list \<Rightarrow> backup_ref \<Rightarrow> bool" where
  "flagged create c created r \<longleftrightarrow> (\<exists>b dev path store bp.
     find_backup r c = Some b \<and> findDevice (b_deviceName b) c = Some dev \<and> d_store dev = Some path \<and>
     om_find namelt path (c_stores c) = Some store \<and> s_state store = Enabled \<and>
     backupPath c (fst r) (fst (snd r)) b = Inr bp \<and> create (bp @ ''.incomplete'') = None \<and>
     bp @ ''.incomplete'' \<in> set created)"

lemma flagged_mono: "flagged create c created r \<Longrightarrow> set created \<subseteq> set files \<Longrightarrow> flagged create c files r"
  unfolding flagged_def by blast

lemma removable_invariant:
  assumes "findRemovableBackups act create c obsolete = Inr (rs, created, errors)"
  shows "set rs \<subseteq> set obsolete \<and> (\<not> act \<longrightarrow> rs = [] \<and> created = [] \<and> errors = 0) \<and>
    (\<forall>r \<in> set rs. flagged create c created r) \<and>
    length created = length rs \<and> 2 * length rs + errors \<le> 2 * length obsolete"
proof -
  define P where "P ys s \<longleftrightarrow> (case s of (rs, created, errors) \<Rightarrow>
    set rs \<subseteq> set ys \<and> (\<not> act \<longrightarrow> rs = [] \<and> created = [] \<and> errors = 0) \<and>
    (\<forall>r \<in> set rs. flagged create c created r) \<and>
    length created = length rs \<and> 2 * length rs + errors \<le> 2 * length ys)"
    for ys :: "backup_ref list" and s :: "backup_ref list \<times> string list \<times> nat"
  have "P obsolete (rs, created, errors)"
    using assms unfolding findRemovableBackups_def
  proof (rule fold_result_invariant [where P = P])
    show "P [] ([], [], 0)" by (simp add: P_def)
    fix ys r zs s t assume s: "P ys s" and t: "removable_step act create c s r = Inr t"
    obtain rs cr e where sv: "s = (rs, cr, e)" by (metis prod_cases3)
    have mono: "P ys (rs, cr, e) \<Longrightarrow> P (ys @ [r]) (rs, cr, e)" "act \<Longrightarrow> P ys (rs, cr, e) \<Longrightarrow> P (ys @ [r]) (rs, cr, e + 2)"
      unfolding P_def prod.case by auto
    show "P (ys @ [r]) t"
    proof (cases "t = s")
      case True
      then show ?thesis using mono(1) s by (simp add: sv)
    next
      case False
      note st = t [unfolded removable_step_def sv Let_def prod.case]
      from st obtain b where b: "find_backup r c = Some b" by (cases "find_backup r c") auto
      from st b obtain dev where dev: "findDevice (b_deviceName b) c = Some dev" by (cases "findDevice (b_deviceName b) c") auto
      from st b dev False obtain path where path: "d_store dev = Some path" by (cases "d_store dev") (auto simp: sv)
      from st b dev path obtain store where store: "om_find namelt path (c_stores c) = Some store"
        by (cases "om_find namelt path (c_stores c)") auto
      from st b dev path store False have en: "s_state store = Enabled" by (auto simp: sv split: if_splits)
      from st b dev path store en obtain bp where bp: "backupPath c (fst r) (fst (snd r)) b = Inr bp"
        by (cases "backupPath c (fst r) (fst (snd r)) b") auto
      from st b dev path store en bp False have act: "act" by (auto simp: sv split: if_splits)
      show ?thesis
      proof (cases "create (bp @ ''.incomplete'')")
        case None
        have "flagged create c (cr @ [bp @ ''.incomplete'']) r"
          unfolding flagged_def using b dev path store en bp None
          by (intro exI [of _ b] exI [of _ dev] exI [of _ path] exI [of _ store] exI [of _ bp]) simp
        moreover have "flagged create c (cr @ [bp @ ''.incomplete'']) q" if "q \<in> set rs" for q
          using s that flagged_mono [of create c cr q "cr @ [bp @ ''.incomplete'']"] by (auto simp: P_def sv)
        ultimately have "P (ys @ [r]) (rs @ [r], cr @ [bp @ ''.incomplete''], e)"
          using s act by (auto simp: P_def sv)
        then show ?thesis using st b dev path store en bp act None by simp
      next
        case (Some err)
        then show ?thesis using st b dev path store en bp act mono(2) s by (simp add: sv)
      qed
    qed
  qed
  then show ?thesis by (simp add: P_def)
qed

text \<open>
  A backup is handed to removal only if it is obsolete, on a device whose store is enabled, and its
  \<open>.incomplete\<close> flag file has been created; without \<open>act\<close> (\<open>--dry-run\<close>) none is, and no file is
  created.  Every other obsolete backup on such a device counts as two errors.
\<close>

theorem removable_backups_flagged:
  assumes "findRemovableBackups act create c obsolete = Inr (rs, created, errors)"
  shows "set rs \<subseteq> set obsolete \<and> (\<not> act \<longrightarrow> rs = [] \<and> created = [] \<and> errors = 0) \<and>
    (\<forall>r \<in> set rs. \<exists>b dev path store bp.
       find_backup r c = Some b \<and> findDevice (b_deviceName b) c = Some dev \<and> d_store dev = Some path \<and>
       om_find namelt path (c_stores c) = Some store \<and> s_state store = Enabled \<and>
       backupPath c (fst r) (fst (snd r)) b = Inr bp \<and> create (bp @ ''.incomplete'') = None \<and>
       bp @ ''.incomplete'' \<in> set created) \<and>
    length created = length rs \<and> 2 * length rs + errors \<le> 2 * length obsolete"
  using removable_invariant [OF assms] unfolding flagged_def by blast

lemma removable_backups_flagged_witness:
  "findRemovableBackups False (\<lambda>_. None) sample_conf [] = Inr ([], [], 0) \<and>
   length ([] :: string list) = length ([] :: backup_ref list)"
  using removable_backups_flagged [of False "\<lambda>_. None" sample_conf "[]" "[]" "[]" 0]
  by (simp add: findRemovableBackups_def)

text \<open>Changing a volume of the configuration.\<close>

lemma om_find_update_same:
  "om_find lt k m = Some v \<Longrightarrow> om_find lt k (om_update lt k f m) = Some (f v)"
proof -
  have "om_find lt k m = Some v \<Longrightarrow> om_find lt k (om_put lt k w m) = Some w" for w
    by (induction m) (auto split: if_splits)
  then show "om_find lt k m = Some v \<Longrightarrow> om_find lt k (om_update lt k f m) = Some (f v)"
    by (simp add: om_update_def)
qed

lemma findVolume_change:
  assumes "findVolume (fst r) (fst (snd r)) c = Some v"
  shows "findVolume (fst r) (fst (snd r)) (change_backup r f c) = Some (f (snd (snd r)) v)"
proof -
  obtain hn vn a where r: "r = (hn, vn, a)" by (metis prod_cases3)
  with assms obtain h where h: "om_find namelt hn (c_hosts c) = Some h" "om_find namelt vn (h_volumes h) = Some v"
    by (auto simp: findVolume_def findHost_def host_findVolume_def split: option.splits)
  show ?thesis
    using om_find_update_same [OF h(1)] om_find_update_same [OF h(2)]
    by (simp add: r findVolume_def findHost_def change_backup_def update_volume_def update_host_def host_findVolume_def)
qed

lemma erase_addr_gone:
  "distinct (map b_addr bs) \<Longrightarrow> erase_addr a bs = Some bs' \<Longrightarrow> a \<notin> b_addr ` set bs'"
  using erase_addr_Some [of a bs bs'] by auto

lemma removed_not_there:
  assumes "distinct (map b_addr (v_backups v))"
  shows "a \<notin> b_addr ` set (v_backups (snd (removeBackup a v)))"
proof (cases "erase_addr a (v_backups v)")
  case None
  have "erase_addr a bs = None \<Longrightarrow> a \<notin> b_addr ` set bs" for bs by (induction bs) (auto split: if_splits)
  from this [OF None] show ?thesis by (simp add: removeBackup_def None)
next
  case (Some bs)
  then show ?thesis using erase_addr_gone [OF assms Some] by (simp add: removeBackup_def)
qed


definition sample_removal_conf :: conf where
  "sample_removal_conf = sample_conf\<lparr>
     c_hosts := [(''h'', (new_host sample_conf ''h'')\<lparr>h_volumes :=
       [(''v'', sample_volume\<lparr>v_backups := [sample_backup 3 1000 ''dev'']\<rparr>)]\<rparr>)],
     c_devices := [(''dev'', (new_device ''dev'')\<lparr>d_store := Some ''/s''\<rparr>)]\<rparr>"

lemma sample_removal:
  "findVolume ''h'' ''v'' sample_removal_conf = Some (sample_volume\<lparr>v_backups := [sample_backup 3 1000 ''dev'']\<rparr>)"
  "find_backup (''h'', ''v'', 3) sample_removal_conf = Some (sample_backup 3 1000 ''dev'')"
  "backupPath sample_removal_conf ''h'' ''v'' (sample_backup 3 1000 ''dev'') = Inr ''/s/h/v/x''"
  "now sample_machine ''PRUNE'' = Inr 315360000"
proof -
  have n: "\<not> namelt n n" for n :: string using namelt_asym by blast
  show v: "findVolume ''h'' ''v'' sample_removal_conf = Some (sample_volume\<lparr>v_backups := [sample_backup 3 1000 ''dev'']\<rparr>)"
    by (simp add: findVolume_def findHost_def host_findVolume_def sample_removal_conf_def n)
  show "find_backup (''h'', ''v'', 3) sample_removal_conf = Some (sample_backup 3 1000 ''dev'')"
    by (simp add: find_backup_def v) (simp add: sample_backup_def)
  show "backupPath sample_removal_conf ''h'' ''v'' (sample_backup 3 1000 ''dev'') = Inr ''/s/h/v/x''"
    by (simp add: backupPath_def findDevice_def sample_removal_conf_def sample_backup_def n)
  show "now sample_machine ''PRUNE'' = Inr 315360000" by code_simp
qed


text \<open>
  The row of a removed backup is written outside the loop that retries: if the database is locked
  at that moment the removal ends with the error, and although the files are gone and the backup is
  \<open>pruned\<close> in memory, the committed row stays as it was.
\<close>

theorem removal_busy_unrecorded:
  assumes "find_backup r c = Some b" "backupPath c (fst r) (fst (snd r)) b = Inr path" "now m ''PRUNE'' = Inr t"
    "db_busy d = True # bs"
  shows "\<exists>c' d'. removal_completed m version unlink enoent timedOut 0 r (c, d, n) =
      Some (Inl (DatabaseBusy ''sqlite3_step''), (c', d', n + removal_errors unlink enoent path timedOut 0)) \<and>
    c' = change_backup r (set_status_pruned PRUNED t) c \<and> db_committed d' = db_committed d"
proof -
  let ?b = "b\<lparr>b_status := PRUNED, b_pruned := t\<rparr>"
  have "backup_update version (fst r) (fst (snd r)) ?b d = (Inl (DatabaseBusy ''sqlite3_step''), d\<lparr>db_busy := bs\<rparr>)"
    using assms(4) by (simp add: backup_update_def)
  then show ?thesis using assms(1-3) by (simp add: removal_completed_def)
qed

lemma removal_busy_unrecorded_witness:
  "\<exists>c' d'. removal_completed sample_machine 11 (\<lambda>_. None) 2 False 0 (''h'', ''v'', 3)
      (sample_removal_conf, (sample_database sample_rows)\<lparr>db_busy := [True]\<rparr>, 0) =
      Some (Inl (DatabaseBusy ''sqlite3_step''), (c', d', 0)) \<and> db_committed d' = sample_rows"
  using removal_busy_unrecorded [of "(''h'', ''v'', 3)", unfolded fst_conv snd_conv, OF sample_removal(2,3,4),
      of "(sample_database sample_rows)\<lparr>db_busy := [True]\<rparr>" "[]" 11 "\<lambda>_. None" 2 False 0]
  by (auto simp: sample_database_def removal_errors_def)

text \<open>
  \<open>--dry-run\<close>: whatever is found obsolete, the preparation of pruning leaves the database alone, and
  when it succeeds there is nothing to remove: no backup, no action to run, no error.
\<close>

theorem prune_dry_run:
  assumes "\<not> po_act opts" "prepare_pruning opts policy m version identify create c d = (res, d')"
  shows "d' = d \<and> (\<forall>c' rs al errors. res = Inr (Some (c', rs, al, errors)) \<longrightarrow>
    rs = [] \<and> al = new_action_list \<and> errors = 0)"
proof (cases "findObsoleteBackups opts policy c")
  case (Inl e)
  then show ?thesis using assms(2) by (auto simp: prepare_pruning_def)
next
  case (Inr co)
  obtain c1 obs where co: "co = (c1, obs)" by force
  show ?thesis
  proof (cases "obs = []")
    case True
    then show ?thesis using assms(2) Inr co by (auto simp: prepare_pruning_def)
  next
    case False
    then have r: "res = rbind (identify c1) (\<lambda>c.
        rbind (findRemovableBackups (po_act opts) create c obs) (\<lambda>(rs, created, errors).
          if \<not> po_act opts \<and> rs \<noteq> [] then Inl AssertionFailed
          else rbind (fold_result (removal_initialize c) new_action_list rs) (\<lambda>al.
                 Inr (Some (c, rs, al, errors)))))" and d: "d' = d"
      using assms Inr co by (auto simp: prepare_pruning_def db_return_def)
    have "rs = [] \<and> al = new_action_list \<and> errors = 0" if res: "res = Inr (Some (c', rs, al, errors))" for c' rs al errors
    proof -
      from trans [OF r [symmetric] res] assms(1) obtain c2 created where f: "findRemovableBackups False create c2 obs = Inr (rs, created, errors)"
        and i: "fold_result (removal_initialize c2) new_action_list rs = Inr al"
        by (auto simp: result_simps split: if_splits)
      have "rs = [] \<and> errors = 0" using removable_invariant [OF f] by simp
      then show ?thesis using i by simp
    qed
    then show ?thesis using d by blast
  qed
qed

lemma prune_dry_run_witness:
  "snd (prepare_pruning (sample_options\<lparr>po_act := False\<rparr>) (\<lambda>_ _ _ _. Inr []) sample_machine 11 Inr (\<lambda>_. None)
     sample_removal_conf (sample_database sample_rows)) = sample_database sample_rows"
proof -
  obtain res d' where r: "prepare_pruning (sample_options\<lparr>po_act := False\<rparr>) (\<lambda>_ _ _ _. Inr []) sample_machine 11 Inr
      (\<lambda>_. None) sample_removal_conf (sample_database sample_rows) = (res, d')" by force
  then show ?thesis using prune_dry_run [OF _ r] by simp
qed

end
