(* ===== verification/MakeBackup.thy ===== *)
theory MakeBackup
  imports Prune
begin

text \<open>
  Making a backup of one volume on one device: \<^verbatim>\<open>src/MakeBackup.cc\<close> up to \<open>maybeBackupVolumeToDevice\<close>.
  The operating system and the children are arguments: creating directories and files (the message of
  the exception, if there is one), removing files (\<open>errno\<close>), \<open>rsync\<close> and the hooks (from command and
  environment to wait status and output), \<open>timestamp\<close> (\<open>gmtime_r\<close> and \<open>strftime\<close>).
\<close>

section \<open>The children\<close>

definition RERR_VANISHED :: int where "RERR_VANISHED = 24"

text \<open>\<open>RsyncSubprocess::getActionStatus\<close>.\<close>

definition rsync_action_status :: "int \<Rightarrow> bool" where
  "rsync_action_status rc \<longleftrightarrow> WIFEXITED rc \<and> WEXITSTATUS rc = RERR_VANISHED \<or> rc = 0"

datatype pre_volume_hook_state = PVH_NOT_RUN | PVH_RUN | PVH_FAILED

type_synonym environment = "(string \<times> string) list"

definition set_env :: "string \<Rightarrow> string \<Rightarrow> environment \<Rightarrow> environment" where
  "set_env n x e = om_put str_less n x e"

definition setEnvironment :: "bool \<Rightarrow> host \<Rightarrow> volume \<Rightarrow> environment \<Rightarrow> environment" where
  "setEnvironment act h v e =
     foldl (\<lambda>e (n, x). set_env n x e) e
       [(''RSBACKUP_HOST'', h_name h), (''RSBACKUP_GROUP'', group v), (''RSBACKUP_SSH_HOSTNAME'', h_hostname h),
        (''RSBACKUP_SSH_USERNAME'', h_user h), (''RSBACKUP_SSH_TARGET'', userAndHost h),
        (''RSBACKUP_VOLUME'', v_name v), (''RSBACKUP_VOLUME_PATH'', v_path v),
        (''RSBACKUP_ACT'', if act then ''true'' else ''false'')]"

record system =
  create_directories :: "string \<Rightarrow> string option"
  create_file :: "string \<Rightarrow> string option"
  remove_file :: "string \<Rightarrow> (int \<times> string) option"
  file_exists :: "string \<Rightarrow> bool"
  run_child :: "environment \<Rightarrow> string list \<Rightarrow> int \<times> string \<times> string"
  timestamp :: "int \<Rightarrow> string option"
  enoent :: int

section \<open>One attempt\<close>

record make_backup =
  mb_startTime :: int
  mb_id :: string
  mb_volumePath :: string
  mb_backupPath :: string
  mb_incompletePath :: string
  mb_noLinkPath :: string

definition backupID :: "system \<Rightarrow> machine \<Rightarrow> string result" where
  "backupID sys m =
     rbind (now m ''BACKUP'') (\<lambda>n.
       case timestamp sys n of None \<Rightarrow> Inl (SystemError ''gmtime_r'') | Some s \<Rightarrow> Inr s)"

definition MakeBackup :: "system \<Rightarrow> machine \<Rightarrow> string \<Rightarrow> host \<Rightarrow> volume \<Rightarrow> make_backup result" where
  "MakeBackup sys m storePath h v =
     rbind (now m ''BACKUP'') (\<lambda>startTime.
     rbind (today m ''BACKUP'') (\<lambda>_.
     rbind (backupID sys m) (\<lambda>i.
       let volumePath = storePath @ ''/'' @ h_name h @ ''/'' @ v_name v;
           backupPath = volumePath @ ''/'' @ i
       in Inr \<lparr>mb_startTime = startTime, mb_id = i, mb_volumePath = volumePath, mb_backupPath = backupPath,
               mb_incompletePath = backupPath @ ''.incomplete'', mb_noLinkPath = volumePath @ ''.nolink''\<rparr>)))"

text \<open>\<open>getOldBackups\<close>: the loop over the reversed set, with the vector so far.\<close>

fun old_backups_loop :: "string \<Rightarrow> backup list \<Rightarrow> backup list \<Rightarrow> backup list" where
  "old_backups_loop dev old [] = old"
| "old_backups_loop dev old (b # bs) =
     (if b_deviceName b = dev
      then if b_status b = COMPLETE then old @ [b]
           else old_backups_loop dev (if old = [] then [b] else old) bs
      else old_backups_loop dev old bs)"

definition getOldBackups :: "string \<Rightarrow> volume \<Rightarrow> backup list" where
  "getOldBackups dev v = old_backups_loop dev [] (rev (v_backups v))"

text \<open>
  The command: \<open>link\<close> are the paths of the old backups; the source is read from the host.
\<close>

definition rsync_command :: "host \<Rightarrow> volume \<Rightarrow> string list \<Rightarrow> string \<Rightarrow> make_backup \<Rightarrow> string list" where
  "rsync_command h v link sourcePath mb =
     [rsyncCommand h] @ rsyncBaseOptions v @ rsyncExtraOptions v
     @ (if v_traverse v then [] else [''--one-file-system''])
     @ (if rsyncRemote v \<noteq> [] then [''--rsync-path'', rsyncRemote v] else [])
     @ map (\<lambda>x. ''--exclude='' @ x) (v_exclude v)
     @ map (\<lambda>p. ''--link-dest='' @ p) link
     @ (if rsyncIOTimeout v \<noteq> 0 then [''--timeout='' @ show_int (rsyncIOTimeout v)] else [])
     @ [sshPrefix h @ sourcePath @ ''/.'', mb_backupPath mb @ ''/.'']"

text \<open>The backups to link against: none when there is a \<open>.nolink\<close> file.\<close>

definition link_candidates :: "system \<Rightarrow> string \<Rightarrow> host \<Rightarrow> volume \<Rightarrow> string \<Rightarrow> make_backup \<Rightarrow> string list" where
  "link_candidates sys dev h v storePath mb =
     (if \<not> rsyncLinkDest v then []
      else let old = getOldBackups dev v
           in if old \<noteq> [] \<and> file_exists sys (mb_noLinkPath mb) then []
              else map (\<lambda>b. storePath @ ''/'' @ h_name h @ ''/'' @ v_name v @ ''/'' @ b_id b) old)"

text \<open>\<open>BeforeBackup::go\<close>: the text added to the log, and whether it succeeded.\<close>

definition before_backup :: "system \<Rightarrow> make_backup \<Rightarrow> string \<times> bool" where
  "before_backup sys mb =
     (case create_directories sys (mb_volumePath mb) of
        Some e \<Rightarrow> (''ERROR: '' @ e @ [LF], False)
      | None \<Rightarrow>
          (case create_file sys (mb_incompletePath mb) of
             Some e \<Rightarrow> (''ERROR: '' @ e @ [LF], False)
           | None \<Rightarrow>
               (case create_directories sys (mb_backupPath mb) of
                  Some e \<Rightarrow> (''ERROR: '' @ e @ [LF], False)
                | None \<Rightarrow> ([], True))))"

text \<open>
  \<open>rsyncBackup\<close>: the status and the log.  The two actions run one after the other, the second only if
  the first succeeded; a child that never ran has status -1.
\<close>

definition rsyncBackup ::
    "system \<Rightarrow> bool \<Rightarrow> string \<Rightarrow> host \<Rightarrow> volume \<Rightarrow> string \<Rightarrow> string \<Rightarrow> make_backup \<Rightarrow> int \<times> string" where
  "rsyncBackup sys act dev h v storePath sourcePath mb =
     (if \<not> act then (0, [])
      else let (log, ok) = before_backup sys mb;
               cmd = rsync_command h v (link_candidates sys dev h v storePath mb) sourcePath mb;
               (status, out, err) = run_child sys (setEnvironment act h v []) cmd;
               (rc, log) = (if ok then (status, log @ out) else (-1, log));
               rc = (if WIFEXITED rc \<and> WEXITSTATUS rc = RERR_VANISHED then 0 else rc)
           in if rc \<noteq> 0 then (rc, log)
              else case remove_file sys (mb_incompletePath mb) of
                     Some (errno, e) \<Rightarrow>
                       (255, log @ ''ERROR: removing '' @ mb_incompletePath mb @ '': '' @ e @ [LF])
                   | None \<Rightarrow>
                       (case remove_file sys (mb_noLinkPath mb) of
                          Some (errno, e) \<Rightarrow>
                            if errno \<noteq> enoent sys
                            then (255, log @ ''ERROR: removing '' @ mb_noLinkPath mb @ '': '' @ e @ [LF])
                            else (rc, log)
                        | None \<Rightarrow> (rc, log)))"

section \<open>The record of the attempt\<close>

definition underway_backup :: "nat \<Rightarrow> string \<Rightarrow> make_backup \<Rightarrow> backup" where
  "underway_backup addr dev mb =
     \<lparr>b_addr = addr, b_status = UNDERWAY, b_waitStatus = 0, b_id = mb_id mb, b_time = mb_startTime mb,
      b_finishTime = 0, b_pruned = 0, b_deviceName = dev, b_contents = []\<rparr>"

text \<open>
  The finish time, with the checks on the overridden clocks.  Of the warning about time travel only
  the conversion of the two times is kept.
\<close>

definition finish_time :: "machine \<Rightarrow> int \<Rightarrow> int result" where
  "finish_time m startTime =
     rbind (now m ''FINISH'') (\<lambda>f.
     rbind (override_time (getenv m) (strptime m) ''BACKUP'') (\<lambda>ob.
     rbind (override_time (getenv m) (strptime m) ''FINISH'') (\<lambda>fo.
       if ob \<noteq> 0 \<and> fo = 0 then Inl (RuntimeError ''incomplete time overrides'')
       else if f < startTime
       then rbind (date_at m startTime) (\<lambda>_. rbind (date_at m f) (\<lambda>_.
              if fo \<noteq> 0 then Inl (RuntimeError ''time traveling clock override'') else Inr f))
       else Inr f)))"

definition finished_backup :: "int \<Rightarrow> string \<Rightarrow> int \<Rightarrow> backup \<Rightarrow> backup" where
  "finished_backup rc output f b =
     b\<lparr>b_waitStatus := rc, b_finishTime := f,
       b_contents := (if output \<noteq> [] \<and> last output \<noteq> LF then output @ [LF] else output),
       b_status := (if rc \<noteq> 0 then FAILED else COMPLETE)\<rparr>"

definition record_underway :: "bool \<Rightarrow> int \<Rightarrow> string \<Rightarrow> string \<Rightarrow> backup \<Rightarrow> unit db_action" where
  "record_underway act version hn vn b =
     db_bind db_begin (\<lambda>_. db_bind (backup_insert version hn vn True b) (\<lambda>_. db_commit act False))"

definition record_outcome :: "int \<Rightarrow> string \<Rightarrow> string \<Rightarrow> backup \<Rightarrow> unit db_action" where
  "record_outcome version hn vn b =
     db_bind db_begin (\<lambda>_. db_bind (backup_update version hn vn b) (\<lambda>_. db_commit True False))"

type_synonym attempt_state = "volume \<times> database \<times> nat"

text \<open>
  \<open>performBackup\<close> in two parts: up to \<open>rsyncBackup\<close>, which releases the global lock, and from there on.
\<close>

definition performBackup_begin ::
    "bool \<Rightarrow> int \<Rightarrow> nat \<Rightarrow> string \<Rightarrow> host \<Rightarrow> make_backup \<Rightarrow> attempt_state \<Rightarrow> unit result \<times> attempt_state" where
  "performBackup_begin act version addr dev h mb s =
     (let (v, d, errors) = s; v = calculate v; b = underway_backup addr dev mb;
          (r, d) = (if act then record_underway act version (h_name h) (v_name v) b d else (Inr (), d))
      in (r, (v, d, errors)))"

definition performBackup_end ::
    "system \<Rightarrow> machine \<Rightarrow> bool \<Rightarrow> int \<Rightarrow> nat \<Rightarrow> string \<Rightarrow> string \<Rightarrow> host \<Rightarrow> string \<Rightarrow> make_backup \<Rightarrow> attempt_state \<Rightarrow>
     (unit result \<times> attempt_state) option" where
  "performBackup_end sys m act version addr dev storePath h sourcePath mb s =
     (let (v, d, errors) = s; b = underway_backup addr dev mb;
          (rc, log) = rsyncBackup sys act dev h v storePath sourcePath mb
      in if \<not> act then Some (Inr (), (v, d, errors))
         else case finish_time m (mb_startTime mb) of
                Inl e \<Rightarrow> Some (Inl e, (v, d, errors))
              | Inr f \<Rightarrow>
                  let b = finished_backup rc log f b; errors = (if rc \<noteq> 0 then errors + 1 else errors);
                      v = snd (addBackup b (calculate v))
                  in map_option (\<lambda>(r, d). (r, (v, d, errors)))
                       (retry_busy (record_outcome version (h_name h) (v_name v) b) d))"

definition performBackup ::
    "system \<Rightarrow> machine \<Rightarrow> bool \<Rightarrow> int \<Rightarrow> nat \<Rightarrow> string \<Rightarrow> string \<Rightarrow> host \<Rightarrow> string \<Rightarrow> make_backup \<Rightarrow> attempt_state \<Rightarrow>
     (unit result \<times> attempt_state) option" where
  "performBackup sys m act version addr dev storePath h sourcePath mb s =
     (case performBackup_begin act version addr dev h mb s of
        (Inl e, s) \<Rightarrow> Some (Inl e, s)
      | (Inr _, s) \<Rightarrow> performBackup_end sys m act version addr dev storePath h sourcePath mb s)"

lemmas performBackup_defs = performBackup_def performBackup_begin_def performBackup_end_def

section \<open>The hooks\<close>

definition EX_TEMPFAIL :: int where "EX_TEMPFAIL = 75"

definition strip_newline :: "string \<Rightarrow> string" where
  "strip_newline s = (if s \<noteq> [] \<and> last s = LF then butlast s else s)"

definition runPreVolumeHook ::
    "system \<Rightarrow> bool \<Rightarrow> host \<Rightarrow> volume \<Rightarrow> pre_volume_hook_state \<Rightarrow> nat \<Rightarrow> volume \<times> pre_volume_hook_state \<times> nat" where
  "runPreVolumeHook sys act h v pvh errors =
     (if pvh \<noteq> PVH_NOT_RUN then (v, pvh, errors)
      else if preVolume v = [] then (v, PVH_RUN, errors)
      else let (hookrc, output, hookLog) =
                 run_child sys (setEnvironment act h v (set_env ''RSBACKUP_HOOK'' ''pre-volume-hook'' [])) (preVolume v)
           in if WIFEXITED hookrc \<and> WEXITSTATUS hookrc = 0
              then (if output \<noteq> [] then v\<lparr>v_path := strip_newline output\<rparr> else v, PVH_RUN, errors)
              else (v, PVH_FAILED,
                    if WIFEXITED hookrc \<and> WEXITSTATUS hookrc = EX_TEMPFAIL then errors else errors + 1))"

text \<open>The environment and the command of the post-volume hook, when it runs.\<close>

definition runPostVolumeHook :: "bool \<Rightarrow> host \<Rightarrow> volume \<Rightarrow> pre_volume_hook_state \<Rightarrow> (environment \<times> string list) option" where
  "runPostVolumeHook act h v pvh =
     (if pvh = PVH_RUN \<and> postVolume v \<noteq> []
      then Some (setEnvironment act h v (set_env ''RSBACKUP_HOOK'' ''post-volume-hook'' []), postVolume v)
      else None)"

text \<open>
  The rest in two parts as well: what runs before the lock is released says that the attempt is over, or
  that it goes on in \<open>performBackup_end\<close> with this store path, source path and state (in a dry run
  the lock is not released, and there is nothing left to do).
\<close>

type_synonym begun = "(string \<times> string \<times> make_backup) option result \<times> pre_volume_hook_state \<times> attempt_state"

definition backupVolumeToDevice_begin ::
    "system \<Rightarrow> machine \<Rightarrow> bool \<Rightarrow> int \<Rightarrow> nat \<Rightarrow> string \<Rightarrow> string \<Rightarrow> host \<Rightarrow> pre_volume_hook_state \<Rightarrow> attempt_state \<Rightarrow> begun" where
  "backupVolumeToDevice_begin sys m act version addr dev storePath h pvh s =
     (let (v, d, errors) = s; (v, pvh, errors) = runPreVolumeHook sys act h v pvh errors
      in if pvh = PVH_FAILED then (Inr None, pvh, (v, d, errors))
         else case MakeBackup sys m storePath h v of
                Inl e \<Rightarrow> (Inl e, pvh, (v, d, errors))
              | Inr mb \<Rightarrow>
                  let (r, s) = performBackup_begin act version addr dev h mb (v, d, errors)
                  in (rbind r (\<lambda>_. Inr (if act then Some (storePath, v_path v, mb) else None)), pvh, s))"

text \<open>
  \<open>maybeBackupVolumeToDevice\<close>: \<open>store\<close> is the path and the state of the device's store after
  \<open>identifyDevices\<close>, and \<open>store_disabled\<close> the same when disabled stores are identified too (which is
  done for the sake of the warnings only); \<open>run\<close> and \<open>fnmatch\<close> are as for \<open>needsBackup\<close>.
\<close>

record backup_world =
  bw_system :: system
  bw_machine :: machine
  bw_fnmatch :: "string \<Rightarrow> string \<Rightarrow> int"
  bw_run :: "string list \<Rightarrow> int \<times> string"
  bw_act :: bool
  bw_force :: bool
  bw_warnStore :: bool
  bw_version :: int
  bw_store :: "string \<Rightarrow> (string \<times> store_state) option result"
  bw_storeDisabled :: "string \<Rightarrow> (string \<times> store_state) option result"

definition maybeBackup_begin ::
    "backup_world \<Rightarrow> nat \<Rightarrow> host \<Rightarrow> string \<Rightarrow> pre_volume_hook_state \<Rightarrow> attempt_state \<Rightarrow> begun" where
  "maybeBackup_begin w addr h dev pvh s =
     (case needsBackup (bw_machine w) (bw_fnmatch w) (bw_run w) h (fst s) dev of
        Inl e \<Rightarrow> (Inl e, pvh, s)
      | Inr br \<Rightarrow>
          if br = BackupRequired \<or> br = AlreadyBackedUp \<and> bw_force w
          then case bw_store w dev of
                 Inl e \<Rightarrow> (Inl e, pvh, s)
               | Inr st \<Rightarrow>
                   (case st of
                      Some (path, Enabled) \<Rightarrow>
                        backupVolumeToDevice_begin (bw_system w) (bw_machine w) (bw_act w) (bw_version w) addr dev path h pvh s
                    | _ \<Rightarrow>
                        if \<not> bw_warnStore w then (Inr None, pvh, s)
                        else case bw_storeDisabled w dev of
                               Inl e \<Rightarrow> (Inl e, pvh, s)
                             | Inr (Some (path, Enabled)) \<Rightarrow>
                                 (Inl (FatalStoreError (''device '' @ dev @ '' store '' @ path @ '' unexpected state 2'')), pvh, s)
                             | Inr _ \<Rightarrow> (Inr None, pvh, s))
          else (Inr None, pvh, s))"

definition maybeBackup_end ::
    "backup_world \<Rightarrow> nat \<Rightarrow> host \<Rightarrow> string \<Rightarrow> string \<times> string \<times> make_backup \<Rightarrow> attempt_state \<Rightarrow>
     (unit result \<times> attempt_state) option" where
  "maybeBackup_end w addr h dev tok s =
     (let (storePath, sourcePath, mb) = tok
      in performBackup_end (bw_system w) (bw_machine w) (bw_act w) (bw_version w) addr dev storePath h sourcePath mb s)"

definition maybeBackupVolumeToDevice ::
    "backup_world \<Rightarrow> nat \<Rightarrow> host \<Rightarrow> string \<Rightarrow> pre_volume_hook_state \<Rightarrow> attempt_state \<Rightarrow>
     (unit result \<times> pre_volume_hook_state \<times> attempt_state) option" where
  "maybeBackupVolumeToDevice w addr h dev pvh s =
     (case maybeBackup_begin w addr h dev pvh s of
        (Inl e, pvh, s) \<Rightarrow> Some (Inl e, pvh, s)
      | (Inr None, pvh, s) \<Rightarrow> Some (Inr (), pvh, s)
      | (Inr (Some tok), pvh, s) \<Rightarrow> map_option (\<lambda>(r, s). (r, pvh, s)) (maybeBackup_end w addr h dev tok s))"

section \<open>What an attempt leaves behind\<close>

lemma old_backups_one:
  "old_backups_loop dev [x] bs =
     x # (case filter (\<lambda>b. b_deviceName b = dev \<and> b_status b = COMPLETE) bs of [] \<Rightarrow> [] | c # _ \<Rightarrow> [c])"
  by (induction bs) (auto split: list.splits)

lemma old_backups_none:
  "old_backups_loop dev [] bs =
     (case filter (\<lambda>b. b_deviceName b = dev) bs of
        [] \<Rightarrow> []
      | x # xs \<Rightarrow> if b_status x = COMPLETE then [x]
                  else x # (case filter (\<lambda>b. b_deviceName b = dev \<and> b_status b = COMPLETE) bs of [] \<Rightarrow> [] | c # _ \<Rightarrow> [c]))"
  by (induction bs) (auto simp: old_backups_one split: list.splits)

lemma hd_filter_rev: "filter P (rev bs) = x # xs \<Longrightarrow> x = last (filter P bs) \<and> filter P bs \<noteq> []"
  by (metis hd_rev list.discI list.sel(1) rev_filter rev_is_Nil_conv)

lemma getOldBackups_last_where:
  assumes "backup_set.by_key (v_backups v)"
  shows "getOldBackups dev v =
    (case backup_set.last_where (\<lambda>b. b_deviceName b = dev) (v_backups v) of
       None \<Rightarrow> []
     | Some x \<Rightarrow>
         if b_status x = COMPLETE then [x]
         else x # (case backup_set.last_where (\<lambda>b. b_deviceName b = dev \<and> b_status b = COMPLETE) (v_backups v) of
                     None \<Rightarrow> [] | Some c \<Rightarrow> [c]))"
  unfolding getOldBackups_def old_backups_none backup_set.last_where_filter [OF assms]
  by (auto simp: rev_filter [symmetric] split: list.splits dest: hd_filter_rev simp flip: rev_filter)

text \<open>
  A new backup is linked against the latest backup of the volume on the device and, when that one is
  not complete, also against the latest complete one there, and against nothing else.
\<close>

theorem old_backups_latest:
  assumes "volume_ok v"
  shows "(getOldBackups dev v = [] \<longleftrightarrow> (\<forall>b \<in> set (v_backups v). b_deviceName b \<noteq> dev)) \<and>
    (\<forall>b \<in> set (getOldBackups dev v). b \<in> set (v_backups v) \<and> b_deviceName b = dev \<and>
       ((\<forall>c \<in> set (v_backups v). b_deviceName c = dev \<longrightarrow> \<not> backup_less b c) \<or>
        b_status b = COMPLETE \<and>
        (\<forall>c \<in> set (v_backups v). b_deviceName c = dev \<longrightarrow> b_status c = COMPLETE \<longrightarrow> \<not> backup_less b c))) \<and>
    ((\<exists>b \<in> set (v_backups v). b_deviceName b = dev \<and> b_status b = COMPLETE) \<longrightarrow>
       (\<exists>b \<in> set (getOldBackups dev v). b_status b = COMPLETE))"
proof -
  note k = volume_okD(1) [OF assms]
  let ?l = "backup_set.last_where (\<lambda>b. b_deviceName b = dev) (v_backups v)"
  let ?c = "backup_set.last_where (\<lambda>b. b_deviceName b = dev \<and> b_status b = COMPLETE) (v_backups v)"
  note old = getOldBackups_last_where [OF k, of dev]
  have l: "?l = None \<longleftrightarrow> (\<forall>b \<in> set (v_backups v). b_deviceName b \<noteq> dev)"
    "?c = None \<longleftrightarrow> (\<forall>b \<in> set (v_backups v). b_deviceName b = dev \<longrightarrow> b_status b \<noteq> COMPLETE)"
    by (auto simp: backup_set.last_where_filter [OF k] filter_empty_conv)
  show ?thesis
  proof (cases ?l)
    case None
    then show ?thesis using l(1) by (simp add: old)
  next
    case (Some x)
    note gx = backup_set.last_where_greatest [OF k Some]
    show ?thesis
    proof (cases ?c)
      case None
      then have "getOldBackups dev v = [x]" using Some by (simp add: old)
      then show ?thesis using gx l None Some by auto
    next
      case c: (Some y)
      note gy = backup_set.last_where_greatest [OF k c]
      have "getOldBackups dev v = (if b_status x = COMPLETE then [x] else [x, y])" using Some c by (simp add: old)
      then show ?thesis using gx gy l Some by auto
    qed
  qed
qed

lemma old_backups_latest_witness:
  "let v = snd (addBackup (sample_backup 1 1000 ''dev'') sample_volume)
   in (\<exists>b \<in> set (v_backups v). b_deviceName b = ''dev'' \<and> b_status b = COMPLETE) \<longrightarrow>
      (\<exists>b \<in> set (getOldBackups ''dev'' v). b_status b = COMPLETE)"
proof -
  have "volume_ok (snd (addBackup (sample_backup 1 1000 ''dev'') sample_volume))"
    by (rule volume_ok_addBackup(1) [OF sample_volume_ok]) code_simp
  from old_backups_latest [OF this, of "''dev''"] show ?thesis unfolding Let_def by blast
qed

text \<open>
  \<open>rsyncBackup\<close> reports success only if the directories and the flag file could be made, \<open>rsync\<close>
  exited with 0 or with the status that says that a source file vanished, and the \<open>.incomplete\<close>
  file is gone; and the \<open>.nolink\<close> file is gone as well, or was not there.
\<close>

theorem rsync_success:
  assumes "rsyncBackup sys True dev h v storePath sourcePath mb = (0, output)"
  shows "create_directories sys (mb_volumePath mb) = None \<and> create_file sys (mb_incompletePath mb) = None \<and>
    create_directories sys (mb_backupPath mb) = None \<and>
    rsync_action_status (fst (run_child sys (setEnvironment True h v [])
      (rsync_command h v (link_candidates sys dev h v storePath mb) sourcePath mb))) \<and>
    remove_file sys (mb_incompletePath mb) = None \<and>
    (case remove_file sys (mb_noLinkPath mb) of None \<Rightarrow> True | Some (errno, _) \<Rightarrow> errno = enoent sys)"
proof -
  obtain status out err where r: "run_child sys (setEnvironment True h v [])
      (rsync_command h v (link_candidates sys dev h v storePath mb) sourcePath mb) = (status, out, err)" by (metis prod_cases3)
  obtain lg ok where b: "before_backup sys mb = (lg, ok)" by force
  have ok: "ok" using assms r b by (auto simp: rsyncBackup_def WIFEXITED_def WTERMSIG_def split: if_splits)
  then have bb: "create_directories sys (mb_volumePath mb) = None" "create_file sys (mb_incompletePath mb) = None"
    "create_directories sys (mb_backupPath mb) = None"
    using b by (auto simp: before_backup_def split: option.splits)
  have st: "rsync_action_status status"
    using assms r b ok by (auto simp: rsyncBackup_def rsync_action_status_def split: if_splits)
  have "remove_file sys (mb_incompletePath mb) = None"
    using assms r b ok by (auto simp: rsyncBackup_def split: if_splits option.splits)
  moreover have "case remove_file sys (mb_noLinkPath mb) of None \<Rightarrow> True | Some (errno, _) \<Rightarrow> errno = enoent sys"
    using assms r b ok by (auto simp: rsyncBackup_def split: if_splits option.splits)
  ultimately show ?thesis using bb st r by simp
qed

definition sample_system :: "int \<Rightarrow> system" where
  "sample_system status =
     \<lparr>create_directories = (\<lambda>_. None), create_file = (\<lambda>_. None), remove_file = (\<lambda>_. None),
      file_exists = (\<lambda>_. False), run_child = (\<lambda>_ _. (status, ''done'', [])), timestamp = (\<lambda>_. Some ''T''), enoent = 2\<rparr>"

definition sample_host :: host where
  "sample_host = new_host (new_conf ''/usr/sbin/sendmail'') ''h''"

definition sample_attempt :: make_backup where
  "sample_attempt = \<lparr>mb_startTime = 1000, mb_id = ''T'', mb_volumePath = ''/s/h/v'', mb_backupPath = ''/s/h/v/T'',
     mb_incompletePath = ''/s/h/v/T.incomplete'', mb_noLinkPath = ''/s/h/v.nolink''\<rparr>"

lemma sample_rsync:
  "rsyncBackup (sample_system 6144) True ''dev'' sample_host v ''/s'' ''/v'' sample_attempt = (0, ''done'')"
  "rsyncBackup (sample_system 256) True ''dev'' sample_host v ''/s'' ''/v'' sample_attempt = (256, ''done'')"
  by (simp_all add: rsyncBackup_def sample_system_def before_backup_def WIFEXITED_def WTERMSIG_def WEXITSTATUS_def
      RERR_VANISHED_def)

lemma rsync_success_witness:
  "rsync_action_status (fst (run_child (sample_system 6144) (setEnvironment True sample_host sample_volume [])
      (rsync_command sample_host sample_volume (link_candidates (sample_system 6144) ''dev'' sample_host sample_volume ''/s''
         sample_attempt) ''/v'' sample_attempt)))"
  using rsync_success [OF sample_rsync(1)] by blast

lemma db_in_transaction_begin:
  "db_busy d = False # bs \<Longrightarrow> \<not> db_in_transaction d \<Longrightarrow> db_begin d = (Inr (), d\<lparr>db_busy := bs, db_in_transaction := True\<rparr>)"
  by simp

text \<open>A transaction of one statement, when the database is not locked.\<close>

lemma transaction_done:
  assumes "\<not> db_in_transaction d" "db_busy d = False # False # False # bs" "f (db_working d) = Inr t"
  shows "db_bind db_begin (\<lambda>_. db_bind (db_statement f) (\<lambda>_. db_commit True any)) d =
    (Inr (), d\<lparr>db_busy := bs, db_working := t, db_committed := t\<rparr>)"
  using assms by (cases d) simp

lemma table_insert_map:
  "table_insert True k r t = Inr t' \<Longrightarrow> map_of t' = (map_of t)(k \<mapsto> r)"
  by (auto simp: table_insert_def fun_eq_iff map_add_def split: if_splits option.splits)

lemma record_underway_done:
  assumes "\<not> db_in_transaction d" "db_busy d = False # False # False # bs"
  obtains t where "record_underway True version hn vn b d = (Inr (), d\<lparr>db_busy := bs, db_working := t, db_committed := t\<rparr>)"
    "map_of t = (map_of (db_working d))(db_key_of hn vn b \<mapsto> backup_key_row version b)"
proof -
  obtain t where t: "table_insert True (db_key_of hn vn b) (backup_key_row version b) (db_working d) = Inr t"
    by (cases "map_of (db_working d) (db_key_of hn vn b)") (auto simp: table_insert_def)
  note m = table_insert_map [OF t]
  then show ?thesis
    using that transaction_done [OF assms, of "table_insert True (db_key_of hn vn b) (backup_key_row version b)" t] t m
    by (simp add: record_underway_def backup_insert_def)
qed

lemma record_outcome_done:
  assumes "\<not> db_in_transaction d" "db_busy d = replicate k True @ False # False # False # bs"
  shows "retry_busy (record_outcome version hn vn b) d =
    Some (Inr (), d\<lparr>db_busy := bs,
      db_working := table_update version (db_key_of hn vn b) (backup_key_row version b) (db_working d),
      db_committed := table_update version (db_key_of hn vn b) (backup_key_row version b) (db_working d)\<rparr>)"
proof -
  let ?d = "d\<lparr>db_busy := False # False # False # bs\<rparr>"
  have "retry_busy (record_outcome version hn vn b) d = retry_busy (record_outcome version hn vn b) ?d"
    unfolding record_outcome_def by (rule retry_begin [OF assms(2)])
  also have "record_outcome version hn vn b ?d = (Inr (), ?d\<lparr>db_busy := bs,
      db_working := table_update version (db_key_of hn vn b) (backup_key_row version b) (db_working d),
      db_committed := table_update version (db_key_of hn vn b) (backup_key_row version b) (db_working d)\<rparr>)"
    unfolding record_outcome_def backup_update_def by (rule transaction_done) (use assms(1) in simp_all)
  then have "retry_busy (record_outcome version hn vn b) ?d = Some (Inr (), ?d\<lparr>db_busy := bs,
      db_working := table_update version (db_key_of hn vn b) (backup_key_row version b) (db_working d),
      db_committed := table_update version (db_key_of hn vn b) (backup_key_row version b) (db_working d)\<rparr>)"
    by (rule retry_busy_simps(2))
  finally show ?thesis by simp
qed

lemma v_name_calculate [simp]: "v_name (calculate v) = v_name v"
proof -
  have "v_name (foldl count_backup w bs) = v_name w" for w bs by (induction bs arbitrary: w) auto
  then show ?thesis by (simp add: calculate_def Let_def)
qed

lemma v_name_addBackup [simp]: "v_name (snd (addBackup b v)) = v_name v"
  by (simp add: addBackup_def split_beta Let_def)

lemma finished_key [simp]: "db_key_of hn vn (finished_backup rc output f b) = db_key_of hn vn b"
  by (simp add: db_key_of_def finished_backup_def)


lemma sample_finish: "finish_time sample_machine (mb_startTime sample_attempt) = Inr 315360000"
  by code_simp


text \<open>
  If the start of an attempt cannot be recorded because the database is locked, the attempt ends with
  that error before \<open>rsync\<close> is run: the outcome does not depend on the system at all, and neither
  the committed table nor the volume's backups change.
\<close>

theorem unrecorded_start_runs_nothing:
  assumes "record_underway True version (h_name h) (v_name v) (underway_backup addr dev mb) d = (Inl e, d')"
  shows "performBackup sys m True version addr dev storePath h sourcePath mb (v, d, errors) =
      Some (Inl e, (calculate v, d', errors)) \<and>
    v_backups (calculate v) = v_backups v \<and> (\<not> db_in_transaction d \<longrightarrow> db_committed d' = db_committed d)"
proof -
  have "db_committed d' = db_committed d" if "\<not> db_in_transaction d"
    using assms that
    by (auto simp: record_underway_def db_bind_def db_begin_def db_control_def backup_insert_def db_statement_def
        db_commit_def Let_def split: if_splits sum.splits)
  then show ?thesis using assms by (simp add: performBackup_defs)
qed

lemma unrecorded_start_runs_nothing_witness:
  "\<exists>e d'. performBackup (sample_system 256) sample_machine True 11 7 ''dev'' ''/s'' sample_host ''/v'' sample_attempt
      (sample_volume, (sample_database [])\<lparr>db_busy := [False, True]\<rparr>, 0) = Some (Inl e, (calculate sample_volume, d', 0)) \<and>
    db_committed d' = []"
proof -
  let ?d = "(sample_database [])\<lparr>db_busy := [False, True]\<rparr>"
  let ?u = "underway_backup 7 ''dev'' sample_attempt"
  let ?d' = "?d\<lparr>db_busy := [], db_in_transaction := True\<rparr>"
  have "record_underway True 11 (h_name sample_host) (v_name sample_volume) ?u ?d = (Inl (DatabaseBusy ''sqlite3_step''), ?d')"
    by (simp add: record_underway_def backup_insert_def sample_database_def)
  from unrecorded_start_runs_nothing [OF this] show ?thesis by (auto simp: sample_database_def)
qed

text \<open>
  C27: The loop that records the outcome retries when the database is locked, but the transaction of a
  failed try stays open: if the lock is met by the \<open>UPDATE\<close>, the next \<open>BEGIN\<close> is an error of
  another kind, which ends the loop.  The committed row still says that the backup is under way.
\<close>

theorem outcome_lost_when_update_busy:
  assumes "rsyncBackup sys True dev h (calculate v) storePath sourcePath mb = (rc, output)"
    "finish_time m (mb_startTime mb) = Inr f" "\<not> db_in_transaction d"
    "db_busy d = False # False # False # replicate k True @ False # True # False # bs"
    "key = db_key_of (h_name h) (v_name v) (underway_backup addr dev mb)"
  shows "\<exists>msg s d'. performBackup sys m True version addr dev storePath h sourcePath mb (v, d, errors) =
      Some (Inl (DatabaseError msg), (s, d', if rc \<noteq> 0 then errors + 1 else errors)) \<and>
    map_option r_status (map_of (db_committed d') key) = Some UNDERWAY"
proof -
  let ?b = "underway_backup addr dev mb"
  let ?fin = "finished_backup rc output f ?b"
  let ?o = "record_outcome version (h_name h) (v_name v) ?fin"
  obtain t where t: "record_underway True version (h_name h) (v_name v) ?b d =
      (Inr (), d\<lparr>db_busy := replicate k True @ False # True # False # bs, db_working := t, db_committed := t\<rparr>)"
    "map_of t = (map_of (db_working d))(key \<mapsto> backup_key_row version ?b)"
    using record_underway_done [OF assms(3,4), of version "h_name h" "v_name v" ?b] assms(5) by metis
  let ?d = "\<lambda>bs. d\<lparr>db_busy := bs, db_working := t, db_committed := t\<rparr>"
  have eq: "(?d xs)\<lparr>db_busy := ys\<rparr> = ?d ys" for xs ys by (cases d) simp
  let ?d1 = "?d bs\<lparr>db_in_transaction := True\<rparr>"
  have "retry_busy ?o (?d (replicate k True @ False # True # False # bs)) = retry_busy ?o (?d (False # True # False # bs))"
    unfolding record_outcome_def using retry_begin [of "?d (replicate k True @ False # True # False # bs)" k "False # True # False # bs"] eq by simp
  also have "\<dots> = retry_busy ?o (?d (False # bs)\<lparr>db_in_transaction := True\<rparr>)"
    by (rule retry_busy_simps(1)) (use assms(3) in \<open>simp add: record_outcome_def backup_update_def\<close>)
  also have "\<dots> = Some (Inl (DatabaseError ''sqlite3_step''), ?d1)"
    by (rule retry_busy_simps(3)) (simp add: record_outcome_def)
  finally have "performBackup sys m True version addr dev storePath h sourcePath mb (v, d, errors) =
      Some (Inl (DatabaseError ''sqlite3_step''), (snd (addBackup ?fin (calculate (calculate v))), ?d1,
        if rc \<noteq> 0 then errors + 1 else errors))"
    using assms(1,2) t(1) by (simp add: performBackup_defs Let_def)
  moreover have "map_option r_status (map_of (db_committed ?d1) key) = Some UNDERWAY"
    using t(2) by (simp add: backup_key_row_def underway_backup_def)
  ultimately show ?thesis by blast
qed

lemma outcome_lost_when_update_busy_witness:
  "\<exists>msg s d'. performBackup (sample_system 6144) sample_machine True 11 7 ''dev'' ''/s'' sample_host ''/v'' sample_attempt
      (sample_volume, (sample_database [])\<lparr>db_busy := [False, False, False, False, True, False]\<rparr>, 0) =
        Some (Inl (DatabaseError msg), (s, d', 0))"
proof -
  let ?d = "(sample_database [])\<lparr>db_busy := [False, False, False, False, True, False]\<rparr>"
  have "db_busy ?d = False # False # False # replicate 0 True @ False # True # False # []" "\<not> db_in_transaction ?d"
    by (simp_all add: sample_database_def)
  from outcome_lost_when_update_busy [OF sample_rsync(1) sample_finish this(2,1) refl, where version = 11 and errors = 0 and addr = 7 and v = sample_volume]
  show ?thesis by auto
qed

text \<open>
  A dry run runs no \<open>rsync\<close>, writes nothing to the database and leaves the volume's backups alone.
\<close>

theorem backup_dry_run:
  "performBackup sys m False version addr dev storePath h sourcePath mb (v, d, errors) =
     Some (Inr (), (calculate v, d, errors)) \<and> v_backups (calculate v) = v_backups v"
  by (simp add: performBackup_defs rsyncBackup_def)

text \<open>
  The \<open>rsync\<close> that is run is the one configured for the host: a \<open>rsync-command\<close> of the volume
  has no effect on the command, although the volume's other \<open>rsync\<close> settings have.
\<close>

theorem volume_rsync_command_ignored:
  "rsync_command h (v\<lparr>rsyncCommand := x\<rparr>) link sourcePath mb = rsync_command h v link sourcePath mb \<and>
   hd (rsync_command h v link sourcePath mb) = rsyncCommand h"
  by (simp add: rsync_command_def)

end
