(* ===== verification/Concurrency.thy ===== *)
theory Concurrency
  imports MakeBackup "HOL-Library.Multiset"
begin

text \<open>
  The threads that make the backups: \<^verbatim>\<open>src/Concurrency.h\<close> and \<^verbatim>\<open>src/MakeBackup.cc\<close> from
  \<open>backupVolumeToAllDevices\<close> on.  There is one thread for each volume; all of them share the global
  lock, which a thread gives up only while \<open>rsync\<close> runs and while it waits for a device, so a step of
  the system is what one thread does from getting the lock to giving it up.  What an attempt does is an
  argument: its part up to \<open>rsync\<close> and its part after it.
\<close>

section \<open>Limits\<close>

type_synonym limits = "string \<Rightarrow> int"

definition new_limits :: limits where
  "new_limits = (\<lambda>_. 1)"

definition usable :: "limits \<Rightarrow> string \<Rightarrow> bool" where
  "usable l x \<longleftrightarrow> l x > 0"

definition take_limit :: "string \<Rightarrow> limits \<Rightarrow> limits" where
  "take_limit x l = l(x := l x - 1)"

definition give_limit :: "string \<Rightarrow> limits \<Rightarrow> limits" where
  "give_limit x l = l(x := l x + 1)"

section \<open>The threads\<close>

text \<open>
  A thread about to test the loop's condition, blocked on the condition variable, running \<open>rsync\<close> for
  a device (with what the rest of the attempt needs), or past the loop.
\<close>

datatype 't phase = Ready | Waiting | Working string 't | Finished

record 't vthread =
  vt_group :: string
  vt_devices :: "string list"
  vt_pvh :: pre_volume_hook_state
  vt_phase :: "'t phase"

text \<open>
  What \<open>maybeBackupVolumeToDevice\<close> comes to: it is over, it has released the lock to run \<open>rsync\<close>, or
  it threw (nothing catches the exception, so the program is terminated).
\<close>

datatype ('t, 's) attempt = Attempted pre_volume_hook_state 's | Released 't pre_volume_hook_state 's | Raised

record ('t, 's) attempts =
  begin_attempt :: "nat \<Rightarrow> string \<Rightarrow> pre_volume_hook_state \<Rightarrow> 's \<Rightarrow> ('t, 's) attempt"
  end_attempt :: "nat \<Rightarrow> string \<Rightarrow> 't \<Rightarrow> pre_volume_hook_state \<Rightarrow> 's \<Rightarrow> 's option"

text \<open>The last field is not in the program: it keeps the attempts made so far, in order.\<close>

record ('t, 's) schedule =
  sc_devices :: limits
  sc_groups :: limits
  sc_threads :: "'t vthread list"
  sc_shared :: 's
  sc_terminated :: bool
  sc_history :: "(nat \<times> string) list"

definition change_thread :: "nat \<Rightarrow> ('t vthread \<Rightarrow> 't vthread) \<Rightarrow> ('t, 's) schedule \<Rightarrow> ('t, 's) schedule" where
  "change_thread i f s = s\<lparr>sc_threads := (sc_threads s)[i := f (sc_threads s ! i)]\<rparr>"

text \<open>\<open>cond.notify_all()\<close>.\<close>

definition wake :: "'t vthread \<Rightarrow> 't vthread" where
  "wake th = (if vt_phase th = Waiting then th\<lparr>vt_phase := Ready\<rparr> else th)"

definition notify_all :: "('t, 's) schedule \<Rightarrow> ('t, 's) schedule" where
  "notify_all s = s\<lparr>sc_threads := map wake (sc_threads s)\<rparr>"

definition take_limits :: "nat \<Rightarrow> string \<Rightarrow> ('t, 's) schedule \<Rightarrow> ('t, 's) schedule" where
  "take_limits i d s =
     s\<lparr>sc_devices := take_limit d (sc_devices s),
       sc_groups := take_limit (vt_group (sc_threads s ! i)) (sc_groups s), sc_history := sc_history s @ [(i, d)]\<rparr>"

text \<open>The end of the body of the loop: the device is done with, the others are woken, the limits are given back.\<close>

definition device_done :: "nat \<Rightarrow> string \<Rightarrow> pre_volume_hook_state \<Rightarrow> 's \<Rightarrow> ('t, 's) schedule \<Rightarrow> ('t, 's) schedule" where
  "device_done i d pvh sh s =
     (let s = s\<lparr>sc_shared := sh\<rparr>;
          s = change_thread i (\<lambda>th. th\<lparr>vt_devices := remove1 d (vt_devices th), vt_pvh := pvh, vt_phase := Ready\<rparr>) s;
          s = notify_all s
      in s\<lparr>sc_devices := give_limit d (sc_devices s), sc_groups := give_limit (vt_group (sc_threads s ! i)) (sc_groups s)\<rparr>)"

text \<open>One turn of the loop of \<open>backupVolumeToAllDevices\<close>, up to where the lock is given up.\<close>

definition loop_turn :: "('t, 's) attempts \<Rightarrow> nat \<Rightarrow> ('t, 's) schedule \<Rightarrow> ('t, 's) schedule" where
  "loop_turn A i s =
     (let th = sc_threads s ! i
      in if vt_devices th = [] \<or> vt_pvh th = PVH_FAILED then change_thread i (vt_phase_update (\<lambda>_. Finished)) s
         else case (if usable (sc_groups s) (vt_group th) then find (usable (sc_devices s)) (vt_devices th) else None) of
                None \<Rightarrow> change_thread i (vt_phase_update (\<lambda>_. Waiting)) s
              | Some d \<Rightarrow>
                  (case begin_attempt A i d (vt_pvh th) (sc_shared s) of
                     Attempted pvh sh \<Rightarrow> device_done i d pvh sh (take_limits i d s)
                   | Released t pvh sh \<Rightarrow>
                       change_thread i (\<lambda>th. th\<lparr>vt_pvh := pvh, vt_phase := Working d t\<rparr>)
                         ((take_limits i d s)\<lparr>sc_shared := sh\<rparr>)
                   | Raised \<Rightarrow> s\<lparr>sc_terminated := True\<rparr>))"

definition rsync_done :: "('t, 's) attempts \<Rightarrow> nat \<Rightarrow> string \<Rightarrow> 't \<Rightarrow> ('t, 's) schedule \<Rightarrow> ('t, 's) schedule" where
  "rsync_done A i d t s =
     (case end_attempt A i d t (vt_pvh (sc_threads s ! i)) (sc_shared s) of
        Some sh \<Rightarrow> device_done i d (vt_pvh (sc_threads s ! i)) sh s
      | None \<Rightarrow> s\<lparr>sc_terminated := True\<rparr>)"

text \<open>What can happen: a thread that is ready gets the lock, \<open>rsync\<close> ends, a waiting thread wakes for no reason.\<close>

datatype event = Turn nat | RsyncDone nat | Spurious nat

fun sched_step :: "('t, 's) attempts \<Rightarrow> event \<Rightarrow> ('t, 's) schedule \<Rightarrow> ('t, 's) schedule option" where
  "sched_step A (Turn i) s =
     (if \<not> sc_terminated s \<and> i < length (sc_threads s) \<and> vt_phase (sc_threads s ! i) = Ready
      then Some (loop_turn A i s) else None)"
| "sched_step A (RsyncDone i) s =
     (if \<not> sc_terminated s \<and> i < length (sc_threads s)
      then case vt_phase (sc_threads s ! i) of Working d t \<Rightarrow> Some (rsync_done A i d t s) | _ \<Rightarrow> None
      else None)"
| "sched_step A (Spurious i) s =
     (if \<not> sc_terminated s \<and> i < length (sc_threads s) \<and> vt_phase (sc_threads s ! i) = Waiting
      then Some (change_thread i (vt_phase_update (\<lambda>_. Ready)) s) else None)"

inductive schedules :: "('t, 's) attempts \<Rightarrow> ('t, 's) schedule \<Rightarrow> event list \<Rightarrow> ('t, 's) schedule \<Rightarrow> bool" for A s0 where
  schedules_init: "schedules A s0 [] s0"
| schedules_step: "schedules A s0 es s \<Longrightarrow> sched_step A e s = Some s' \<Longrightarrow> schedules A s0 (es @ [e]) s'"

definition new_vthread :: "string list \<Rightarrow> string \<Rightarrow> 't vthread" where
  "new_vthread devs g = \<lparr>vt_group = g, vt_devices = devs, vt_pvh = PVH_NOT_RUN, vt_phase = Ready\<rparr>"

definition new_schedule :: "string list \<Rightarrow> string list \<Rightarrow> 's \<Rightarrow> ('t, 's) schedule" where
  "new_schedule devs groups sh =
     \<lparr>sc_devices = new_limits, sc_groups = new_limits, sc_threads = map (new_vthread devs) groups, sc_shared = sh,
      sc_terminated = False, sc_history = []\<rparr>"

section \<open>The order of the hosts\<close>

definition order_host :: "host \<Rightarrow> host \<Rightarrow> bool" where
  "order_host a b \<longleftrightarrow>
     (if h_priority a > h_priority b then True else if h_priority a < h_priority b then False
      else str_less (h_name a) (h_name b))"

fun insert_host :: "host \<Rightarrow> host list \<Rightarrow> host list" where
  "insert_host h [] = [h]"
| "insert_host h (x # xs) = (if order_host h x then h # x # xs else x # insert_host h xs)"

text \<open>The hosts in the order their threads are made; \<open>std::sort\<close> as an insertion sort.\<close>

definition backup_hosts :: "conf \<Rightarrow> host list" where
  "backup_hosts c = foldr insert_host (filter (\<lambda>h. host_selected h PurposeBackup) (map snd (c_hosts c))) []"

text \<open>The volumes that get a thread, given which hosts turn out to be available.\<close>

definition backup_volumes :: "(host \<Rightarrow> bool) \<Rightarrow> conf \<Rightarrow> (host \<times> volume) list" where
  "backup_volumes avail c =
     concat (map (\<lambda>h. if avail h then map (Pair h) (filter (\<lambda>v. volume_selected v PurposeBackup) (map snd (h_volumes h))) else [])
       (backup_hosts c))"

text \<open>
  The attempts of the program.  The threads share the volumes (each has its own), the database and the
  count of errors; \<open>addr\<close> is where the new backup is allocated.  An exception that escapes, and a loop
  of retries that does not end, stop everything.
\<close>

type_synonym token = "string \<times> string \<times> make_backup"

type_synonym shared_state = "volume list \<times> database \<times> nat"

definition backup_attempts :: "backup_world \<Rightarrow> (nat \<Rightarrow> string \<Rightarrow> nat) \<Rightarrow> host list \<Rightarrow> (token, shared_state) attempts" where
  "backup_attempts w addr hs =
     \<lparr>begin_attempt = (\<lambda>i dev pvh (vs, db, errors).
        case maybeBackup_begin w (addr i dev) (hs ! i) dev pvh (vs ! i, db, errors) of
          (Inl e, _) \<Rightarrow> Raised
        | (Inr None, pvh, (v, db, errors)) \<Rightarrow> Attempted pvh (vs[i := v], db, errors)
        | (Inr (Some tok), pvh, (v, db, errors)) \<Rightarrow> Released tok pvh (vs[i := v], db, errors)),
      end_attempt = (\<lambda>i dev tok pvh (vs, db, errors).
        case maybeBackup_end w (addr i dev) (hs ! i) dev tok (vs ! i, db, errors) of
          Some (Inr _, (v, db, errors)) \<Rightarrow> Some (vs[i := v], db, errors)
        | _ \<Rightarrow> None)\<rparr>"

definition makeBackups :: "(host \<Rightarrow> bool) \<Rightarrow> string list \<Rightarrow> conf \<Rightarrow> database \<Rightarrow> nat \<Rightarrow> (token, shared_state) schedule" where
  "makeBackups avail devs c db errors =
     (let hvs = backup_volumes avail c in new_schedule devs (map (\<lambda>(h, v). group v) hvs) (map snd hvs, db, errors))"

section \<open>The invariant\<close>

definition count_threads :: "('t vthread \<Rightarrow> bool) \<Rightarrow> 't vthread list \<Rightarrow> int" where
  "count_threads P ths = int (length (filter P ths))"

definition works_on :: "string \<Rightarrow> 't vthread \<Rightarrow> bool" where
  "works_on d th \<longleftrightarrow> (case vt_phase th of Working e t \<Rightarrow> e = d | _ \<Rightarrow> False)"

definition works_in :: "string \<Rightarrow> 't vthread \<Rightarrow> bool" where
  "works_in g th \<longleftrightarrow> vt_group th = g \<and> (case vt_phase th of Working e t \<Rightarrow> True | _ \<Rightarrow> False)"

text \<open>A thread that may not start anything now.\<close>

definition blocked :: "('t, 's) schedule \<Rightarrow> 't vthread \<Rightarrow> bool" where
  "blocked s th \<longleftrightarrow> \<not> (usable (sc_groups s) (vt_group th) \<and> list_ex (usable (sc_devices s)) (vt_devices th))"

definition limits_ok :: "('t, 's) schedule \<Rightarrow> bool" where
  "limits_ok s \<longleftrightarrow>
     (\<forall>d. sc_devices s d = 1 - count_threads (works_on d) (sc_threads s) \<and> count_threads (works_on d) (sc_threads s) \<le> 1) \<and>
     (\<forall>g. sc_groups s g = 1 - count_threads (works_in g) (sc_threads s) \<and> count_threads (works_in g) (sc_threads s) \<le> 1)"

definition thread_ok :: "string list \<Rightarrow> ('t, 's) schedule \<Rightarrow> nat \<Rightarrow> 't vthread \<Rightarrow> bool" where
  "thread_ok devs s i th \<longleftrightarrow>
     distinct (vt_devices th) \<and>
     set devs = set (vt_devices th) \<union> {d. (i, d) \<in> set (sc_history s)} \<and>
     (\<forall>d. works_on d th \<longleftrightarrow> d \<in> set (vt_devices th) \<and> (i, d) \<in> set (sc_history s)) \<and>
     (vt_phase th = Finished \<longrightarrow> vt_devices th = [] \<or> vt_pvh th = PVH_FAILED) \<and>
     (vt_phase th = Waiting \<longrightarrow> blocked s th \<and> vt_devices th \<noteq> [])"

definition schedule_ok :: "string list \<Rightarrow> string list \<Rightarrow> ('t, 's) schedule \<Rightarrow> bool" where
  "schedule_ok devs groups s \<longleftrightarrow>
     map vt_group (sc_threads s) = groups \<and> limits_ok s \<and> distinct (sc_history s) \<and>
     (\<forall>(i, d) \<in> set (sc_history s). i < length groups) \<and>
     (\<forall>i < length groups. thread_ok devs s i (sc_threads s ! i))"

lemma count_simps [simp]:
  "count_threads P [] = 0"
  "count_threads P (th # ths) = (if P th then 1 else 0) + count_threads P ths"
  by (simp_all add: count_threads_def)

lemma count_update:
  "i < length ths \<Longrightarrow> count_threads P (ths[i := th]) =
     count_threads P ths - (if P (ths ! i) then 1 else 0) + (if P th then 1 else 0)"
proof (induction ths arbitrary: i)
  case (Cons x ths)
  then show ?case by (cases i) auto
qed simp

lemma count_none: "count_threads P ths = 0 \<longleftrightarrow> (\<forall>th \<in> set ths. \<not> P th)"
  by (simp add: count_threads_def filter_empty_conv)

lemma count_nonneg [simp]: "0 \<le> count_threads P ths"
  by (simp add: count_threads_def)

text \<open>Two threads that satisfy the predicate count for two.\<close>

lemma count_two: "i < length ths \<Longrightarrow> j < length ths \<Longrightarrow> P (ths ! i) \<Longrightarrow> P (ths ! j) \<Longrightarrow> count_threads P ths \<le> 1 \<Longrightarrow> i = j"
proof (induction ths arbitrary: i j)
  case (Cons x ths)
  show ?case
  proof (cases "P x")
    case True
    then have "count_threads P ths = 0" using Cons.prems(5) count_nonneg [of P ths] by (simp add: count_threads_def)
    then show ?thesis using Cons.prems by (cases i; cases j) (auto simp: count_none)
  next
    case False
    then have "count_threads P ths \<le> 1" using Cons.prems(5) by (simp add: count_threads_def)
    then show ?thesis using Cons False by (cases i; cases j) auto
  qed
qed simp

lemma works_simps [simp]:
  "works_on d (th\<lparr>vt_phase := Working e t\<rparr>) \<longleftrightarrow> e = d"
  "works_in g (th\<lparr>vt_phase := Working e t\<rparr>) \<longleftrightarrow> vt_group th = g"
  "p \<in> {Ready, Waiting, Finished} \<Longrightarrow> \<not> works_on d (th\<lparr>vt_phase := p\<rparr>)"
  "p \<in> {Ready, Waiting, Finished} \<Longrightarrow> \<not> works_in g (th\<lparr>vt_phase := p\<rparr>)"
  "vt_phase th = p \<Longrightarrow> p \<in> {Ready, Waiting, Finished} \<Longrightarrow> \<not> works_on d th"
  "vt_phase th = p \<Longrightarrow> p \<in> {Ready, Waiting, Finished} \<Longrightarrow> \<not> works_in g th"
  by (auto simp: works_on_def works_in_def)

lemma works_wake [simp]: "works_on d (wake th) = works_on d th" "works_in g (wake th) = works_in g th"
  by (auto simp: wake_def works_on_def works_in_def)

lemma count_wake [simp]:
  "count_threads (works_on d) (map wake ths) = count_threads (works_on d) ths"
  "count_threads (works_in g) (map wake ths) = count_threads (works_in g) ths"
  by (induction ths) simp_all

lemma wake_simps [simp]:
  "vt_group (wake th) = vt_group th" "vt_devices (wake th) = vt_devices th" "vt_pvh (wake th) = vt_pvh th"
  "vt_phase (wake th) \<noteq> Waiting" "vt_phase (wake th) = Finished \<longleftrightarrow> vt_phase th = Finished"
  by (auto simp: wake_def)

lemma schedule_okD:
  assumes "schedule_ok devs groups s"
  shows "length (sc_threads s) = length groups" "limits_ok s"
    "i < length groups \<Longrightarrow> thread_ok devs s i (sc_threads s ! i)"
    "i < length groups \<Longrightarrow> vt_group (sc_threads s ! i) = groups ! i"
  using assms by (auto simp: schedule_ok_def)

lemma new_schedule_ok:
  assumes "distinct devs"
  shows "schedule_ok devs groups (new_schedule devs groups sh)"
  using assms by (auto simp: schedule_ok_def new_schedule_def limits_ok_def thread_ok_def new_limits_def
      new_vthread_def count_threads_def works_on_def works_in_def o_def)

text \<open>A change of a thread's phase that starts and ends nothing.\<close>

lemma idle_ok:
  assumes "schedule_ok devs groups s" "i < length groups" "vt_phase (sc_threads s ! i) \<in> {Ready, Waiting}"
    "p \<in> {Ready, Waiting, Finished}"
    "p = Finished \<Longrightarrow> vt_devices (sc_threads s ! i) = [] \<or> vt_pvh (sc_threads s ! i) = PVH_FAILED"
    "p = Waiting \<Longrightarrow> blocked s (sc_threads s ! i) \<and> vt_devices (sc_threads s ! i) \<noteq> []"
  shows "schedule_ok devs groups (change_thread i (vt_phase_update (\<lambda>_. p)) s)"
proof -
  let ?th = "sc_threads s ! i"
  note ok = schedule_okD [OF assms(1)]
  have w: "\<not> works_on d ?th" "\<not> works_in g ?th" "\<not> works_on d (?th\<lparr>vt_phase := p\<rparr>)" "\<not> works_in g (?th\<lparr>vt_phase := p\<rparr>)" for d g
    using assms(3,4) by (auto simp: works_on_def works_in_def)
  have "map vt_group ((sc_threads s)[i := ?th\<lparr>vt_phase := p\<rparr>]) = groups"
    using assms(1) ok(4) [OF assms(2)] by (simp add: schedule_ok_def map_update)
  moreover have "limits_ok (change_thread i (vt_phase_update (\<lambda>_. p)) s)"
    using ok(2) assms(2) by (simp add: limits_ok_def change_thread_def count_update ok(1) w)
  moreover have "thread_ok devs (change_thread i (vt_phase_update (\<lambda>_. p)) s) j ((sc_threads s)[i := ?th\<lparr>vt_phase := p\<rparr>] ! j)"
    if j: "j < length groups" for j
  proof (cases "j = i")
    case True
    have "\<not> (d \<in> set (vt_devices ?th) \<and> (i, d) \<in> set (sc_history s))" for d
      using ok(3) [OF assms(2)] w(1) unfolding thread_ok_def by blast
    then show ?thesis using True ok(3) [OF assms(2)] assms(2,5,6) w(3)
      by (auto simp: thread_ok_def change_thread_def blocked_def ok(1))
  next
    case False
    then show ?thesis using ok(3) [OF j] by (simp add: thread_ok_def change_thread_def blocked_def)
  qed
  ultimately show ?thesis using assms(1) by (simp add: schedule_ok_def change_thread_def)
qed

text \<open>A thread that is ready starts on a device.\<close>

lemma start_ok:
  assumes "schedule_ok devs groups s" "i < length groups" "vt_phase (sc_threads s ! i) = Ready"
    "usable (sc_groups s) (vt_group (sc_threads s ! i))" "usable (sc_devices s) d" "d \<in> set (vt_devices (sc_threads s ! i))"
  shows "schedule_ok devs groups
    (change_thread i (\<lambda>th. th\<lparr>vt_pvh := pvh, vt_phase := Working d t\<rparr>) ((take_limits i d s)\<lparr>sc_shared := sh\<rparr>))"
    (is "schedule_ok devs groups ?s")
proof -
  let ?th = "sc_threads s ! i"
  let ?th' = "?th\<lparr>vt_pvh := pvh, vt_phase := Working d t\<rparr>"
  note ok = schedule_okD [OF assms(1)]
  have w: "\<not> works_on e ?th" "\<not> works_in g ?th" for e g using assms(3) by (auto simp: works_on_def works_in_def)
  have w': "works_on e ?th' \<longleftrightarrow> e = d" "works_in g ?th' \<longleftrightarrow> g = vt_group ?th" for e g
    by (auto simp: works_on_def works_in_def)
  have t: "sc_threads ?s = (sc_threads s)[i := ?th']" "sc_history ?s = sc_history s @ [(i, d)]"
    by (simp_all add: change_thread_def take_limits_def)
  have free: "count_threads (works_on d) (sc_threads s) = 0" "count_threads (works_in (vt_group ?th)) (sc_threads s) = 0"
    using ok(2) assms(4,5) count_nonneg [of "works_on d" "sc_threads s"] count_nonneg [of "works_in (vt_group ?th)" "sc_threads s"]
    by (auto simp: limits_ok_def usable_def intro: antisym)
  have fresh: "(i, d) \<notin> set (sc_history s)" using ok(3) [OF assms(2)] assms(6) w(1) by (auto simp: thread_ok_def)
  have "map vt_group (sc_threads ?s) = groups"
    using assms(1) ok(4) [OF assms(2)] by (simp add: schedule_ok_def map_update t)
  moreover have "limits_ok ?s"
    using ok(2) assms(2) free
    by (auto simp: limits_ok_def t count_update ok(1) w w' change_thread_def take_limits_def take_limit_def)
  moreover have "thread_ok devs ?s j (sc_threads ?s ! j)" if j: "j < length groups" for j
  proof (cases "j = i")
    case True
    then show ?thesis using ok(3) [OF assms(2)] assms(2,6) w(1) 
      by (auto simp: thread_ok_def t ok(1) works_on_def)
  next
    case False
    have "blocked s th \<Longrightarrow> blocked ?s th" for th
      using ok(2) by (auto simp: blocked_def usable_def list_ex_iff change_thread_def take_limits_def take_limit_def split: if_splits)
    then show ?thesis using ok(3) [OF j] False by (auto simp: thread_ok_def t)
  qed
  ultimately show ?thesis using assms(1,2) fresh by (auto simp: schedule_ok_def t)
qed

text \<open>A thread finishes with a device.\<close>

lemma device_done_ok:
  assumes "schedule_ok devs groups s" "i < length groups" "vt_phase (sc_threads s ! i) = Working d t"
  shows "schedule_ok devs groups (device_done i d pvh sh s)" (is "schedule_ok devs groups ?s")
proof -
  let ?th = "sc_threads s ! i"
  let ?th' = "?th\<lparr>vt_devices := remove1 d (vt_devices ?th), vt_pvh := pvh, vt_phase := Ready\<rparr>"
  note ok = schedule_okD [OF assms(1)]
  have w: "works_on e ?th \<longleftrightarrow> e = d" "works_in g ?th \<longleftrightarrow> g = vt_group ?th" for e g
    using assms(3) by (auto simp: works_on_def works_in_def)
  have w': "\<not> works_on e ?th'" "\<not> works_in g ?th'" for e g by (auto simp: works_on_def works_in_def)
  have t: "sc_threads ?s = map wake ((sc_threads s)[i := ?th'])" "sc_history ?s = sc_history s"
    "sc_devices ?s = give_limit d (sc_devices s)" "sc_groups ?s = give_limit (vt_group ?th) (sc_groups s)"
    using assms(2) ok(1) by (simp_all add: device_done_def change_thread_def notify_all_def Let_def)
  have "map vt_group (sc_threads ?s) = groups"
    using assms(1) ok(4) [OF assms(2)] by (simp add: schedule_ok_def map_update t comp_def)
  moreover have "limits_ok ?s"
    using ok(2) assms(2) by (auto simp: limits_ok_def t count_update ok(1) w w' give_limit_def intro: order_trans [of _ 1 2])
  moreover have "thread_ok devs ?s j (sc_threads ?s ! j)" if j: "j < length groups" for j
  proof (cases "j = i")
    case True
    then show ?thesis using ok(3) [OF assms(2)] assms(2) w(1) 
      by (auto simp: thread_ok_def t ok(1) w')
  next
    case False
    then show ?thesis using ok(3) [OF j] j by (auto simp: thread_ok_def t ok(1))
  qed
  ultimately show ?thesis using assms(1,2) by (auto simp: schedule_ok_def t)
qed

lemma device_done_started:
  assumes "i < length (sc_threads s)"
  shows "device_done i d pvh sh (change_thread i (\<lambda>th. th\<lparr>vt_pvh := p, vt_phase := Working d t\<rparr>) (s\<lparr>sc_shared := sh'\<rparr>)) =
    device_done i d pvh sh s"
  using assms by (simp add: device_done_def change_thread_def notify_all_def Let_def)

text \<open>What a turn can be.\<close>

lemma loop_turn_cases:
  obtains (finish) "vt_devices (sc_threads s ! i) = [] \<or> vt_pvh (sc_threads s ! i) = PVH_FAILED"
      "loop_turn A i s = change_thread i (vt_phase_update (\<lambda>_. Finished)) s"
    | (wait) "blocked s (sc_threads s ! i)" "vt_devices (sc_threads s ! i) \<noteq> []"
      "loop_turn A i s = change_thread i (vt_phase_update (\<lambda>_. Waiting)) s"
    | (attempt) d where "usable (sc_groups s) (vt_group (sc_threads s ! i))" "usable (sc_devices s) d"
      "d \<in> set (vt_devices (sc_threads s ! i))"
      "loop_turn A i s = (case begin_attempt A i d (vt_pvh (sc_threads s ! i)) (sc_shared s) of
         Attempted pvh sh \<Rightarrow> device_done i d pvh sh (take_limits i d s)
       | Released t pvh sh \<Rightarrow>
           change_thread i (\<lambda>th. th\<lparr>vt_pvh := pvh, vt_phase := Working d t\<rparr>) ((take_limits i d s)\<lparr>sc_shared := sh\<rparr>)
       | Raised \<Rightarrow> s\<lparr>sc_terminated := True\<rparr>)"
proof (cases "vt_devices (sc_threads s ! i) = [] \<or> vt_pvh (sc_threads s ! i) = PVH_FAILED")
  case True
  then show thesis by (intro finish) (auto simp: loop_turn_def Let_def)
next
  case nf: False
  let ?g = "usable (sc_groups s) (vt_group (sc_threads s ! i))"
  show thesis
  proof (cases "if ?g then find (usable (sc_devices s)) (vt_devices (sc_threads s ! i)) else None")
    case None
    then have "blocked s (sc_threads s ! i)" by (auto simp: blocked_def list_ex_iff find_None_iff split: if_splits)
    then show thesis using nf None by (intro wait) (auto simp: loop_turn_def Let_def)
  next
    case (Some d)
    then have "?g" "usable (sc_devices s) d" "d \<in> set (vt_devices (sc_threads s ! i))"
      by (auto simp: find_Some_iff split: if_splits)
    then show thesis using nf Some by (intro attempt [of d]) (auto simp: loop_turn_def Let_def)
  qed
qed

lemma terminated_ok: "schedule_ok devs groups s \<Longrightarrow> schedule_ok devs groups (s\<lparr>sc_terminated := b\<rparr>)"
  by (simp add: schedule_ok_def limits_ok_def thread_ok_def blocked_def)

lemma loop_turn_ok:
  assumes "schedule_ok devs groups s" "i < length groups" "vt_phase (sc_threads s ! i) = Ready"
  shows "schedule_ok devs groups (loop_turn A i s)"
proof (cases rule: loop_turn_cases [of s i A])
  case finish
  then show ?thesis using idle_ok [OF assms(1,2), of Finished] assms(3) by simp
next
  case wait
  then show ?thesis using idle_ok [OF assms(1,2), of Waiting] assms(3) by simp
next
  case (attempt d)
  have l: "i < length (sc_threads (take_limits i d s))"
    using assms(2) schedule_okD(1) [OF assms(1)] by (simp add: take_limits_def)
  note st = start_ok [OF assms attempt(1-3)]
  show ?thesis
  proof (cases "begin_attempt A i d (vt_pvh (sc_threads s ! i)) (sc_shared s)")
    case (Attempted pvh sh)
    have "schedule_ok devs groups (device_done i d pvh sh
      (change_thread i (\<lambda>th. th\<lparr>vt_pvh := pvh, vt_phase := Working d undefined\<rparr>) ((take_limits i d s)\<lparr>sc_shared := sh\<rparr>)))"
      by (rule device_done_ok [OF st assms(2)]) (use l in \<open>simp add: change_thread_def\<close>)
    then show ?thesis using attempt(4) Attempted by (simp add: device_done_started [OF l])
  qed (use attempt(4) st assms(1) in \<open>simp_all add: terminated_ok\<close>)
qed

lemma sched_step_ok:
  assumes "schedule_ok devs groups s" "sched_step A e s = Some s'"
  shows "schedule_ok devs groups s'"
proof (cases e)
  case (Turn i)
  then show ?thesis using assms loop_turn_ok [OF assms(1)] by (auto simp: schedule_okD(1) split: if_splits)
next
  case (RsyncDone i)
  then obtain d t where w: "i < length groups" "vt_phase (sc_threads s ! i) = Working d t" "s' = rsync_done A i d t s"
    using assms by (auto simp: schedule_okD(1) split: if_splits phase.splits)
  then show ?thesis using device_done_ok [OF assms(1) w(1,2)] terminated_ok [OF assms(1)]
    by (auto simp: rsync_done_def split: option.splits)
next
  case (Spurious i)
  then show ?thesis using assms idle_ok [OF assms(1), of i Ready] by (auto simp: schedule_okD(1) split: if_splits)
qed

lemma schedules_ok:
  "schedules A s0 es s \<Longrightarrow> schedule_ok devs groups s0 \<Longrightarrow> schedule_ok devs groups s"
  by (induction rule: schedules.induct) (auto intro: sched_step_ok)

section \<open>What the schedules guarantee\<close>

text \<open>
  C4: Whatever the order in which the threads run, wake and finish, there is at most one backup at a time on
  each device, and at most one at a time in each concurrency group; and no limit is ever negative.
\<close>

theorem backups_exclude_each_other:
  assumes "distinct devs" "schedules A (new_schedule devs groups sh) es s" "i < length groups" "j < length groups"
    "vt_phase (sc_threads s ! i) = Working d t" "vt_phase (sc_threads s ! j) = Working e u"
    "d = e \<or> groups ! i = groups ! j"
  shows "i = j \<and> 0 \<le> sc_devices s d \<and> 0 \<le> sc_groups s (groups ! i)"
proof -
  note ok = schedules_ok [OF assms(2) new_schedule_ok [OF assms(1)]]
  note l = schedule_okD(2) [OF ok]
  have "works_on d (sc_threads s ! i)" "works_on e (sc_threads s ! j)"
    "works_in (groups ! i) (sc_threads s ! i)" "works_in (groups ! j) (sc_threads s ! j)"
    using assms(3-6) schedule_okD(4) [OF ok] by (simp_all add: works_on_def works_in_def)
  then have "i = j"
    using assms(3,4,7) l count_two [of i "sc_threads s" j] by (auto simp: limits_ok_def schedule_okD(1) [OF ok])
  then show ?thesis using l by (simp add: limits_ok_def)
qed

text \<open>
  C14: Each volume is attempted at most once on each device, and only on the configured devices; and when the
  loop for a volume is over, unless its pre-volume hook failed it has been attempted on every device.
\<close>

theorem every_device_attempted_once:
  assumes "distinct devs" "schedules A (new_schedule devs groups sh) es s"
  shows "distinct (sc_history s) \<and> set (sc_history s) \<subseteq> {..<length groups} \<times> set devs \<and>
    (\<forall>i < length groups. vt_phase (sc_threads s ! i) = Finished \<longrightarrow> vt_pvh (sc_threads s ! i) \<noteq> PVH_FAILED \<longrightarrow>
       (\<forall>d \<in> set devs. (i, d) \<in> set (sc_history s)))"
proof -
  note ok = schedules_ok [OF assms(2) new_schedule_ok [OF assms(1)]]
  have "set (sc_history s) \<subseteq> {..<length groups} \<times> set devs"
    using ok schedule_okD(3) [OF ok] by (fastforce simp: schedule_ok_def thread_ok_def)
  moreover have "(i, d) \<in> set (sc_history s)"
    if "i < length groups" "vt_phase (sc_threads s ! i) = Finished" "vt_pvh (sc_threads s ! i) \<noteq> PVH_FAILED" "d \<in> set devs"
    for i d using schedule_okD(3) [OF ok that(1)] that(2-) by (auto simp: thread_ok_def)
  ultimately show ?thesis using ok by (auto simp: schedule_ok_def)
qed

text \<open>
  C5: There is no deadlock and no lost wakeup: as long as the program is not terminated by an exception and
  some volume's loop is not over, some thread can go on, without any spurious wakeup.
\<close>

theorem backups_never_deadlock:
  assumes "distinct devs" "schedules A (new_schedule devs groups sh) es s" "\<not> sc_terminated s"
  shows "(\<forall>th \<in> set (sc_threads s). vt_phase th = Finished) \<or>
    (\<exists>i s'. i < length groups \<and> (sched_step A (Turn i) s = Some s' \<or> sched_step A (RsyncDone i) s = Some s'))"
proof (rule ccontr)
  assume neg: "\<not> ?thesis"
  note ok = schedules_ok [OF assms(2) new_schedule_ok [OF assms(1)]]
  have n: "length (sc_threads s) = length groups" by (rule schedule_okD(1) [OF ok])
  have idle: "vt_phase (sc_threads s ! i) \<in> {Waiting, Finished}" if "i < length groups" for i
    using neg that assms(3) n by (cases "vt_phase (sc_threads s ! i)") auto
  then have none: "\<not> works_on d th" "\<not> works_in g th" if "th \<in> set (sc_threads s)" for th d g
  proof -
    obtain i where "i < length groups" "th = sc_threads s ! i" using \<open>th \<in> _\<close> n by (auto simp: in_set_conv_nth)
    then show "\<not> works_on d th" "\<not> works_in g th" using idle [of i] by (auto simp: works_on_def works_in_def)
  qed
  then have free: "usable (sc_devices s) d" "usable (sc_groups s) g" for d g
    using schedule_okD(2) [OF ok] count_none [of "works_on d" "sc_threads s"] count_none [of "works_in g" "sc_threads s"]
    by (auto simp: limits_ok_def usable_def)
  obtain i where i: "i < length groups" "vt_phase (sc_threads s ! i) = Waiting"
  proof -
    obtain th where "th \<in> set (sc_threads s)" "vt_phase th \<noteq> Finished" using neg by blast
    then obtain i where "i < length groups" "vt_phase (sc_threads s ! i) \<noteq> Finished" using n by (auto simp: in_set_conv_nth)
    then show thesis using that [of i] idle [of i] by simp
  qed
  then have "blocked s (sc_threads s ! i)" "vt_devices (sc_threads s ! i) \<noteq> []"
    using schedule_okD(3) [OF ok i(1)] by (auto simp: thread_ok_def)
  then show False using free by (auto simp: blocked_def list_ex_iff neq_Nil_conv)
qed

section \<open>The threads come to an end\<close>

fun phase_weight :: "'t phase \<Rightarrow> nat" where
  "phase_weight Ready = 2"
| "phase_weight Waiting = 1"
| "phase_weight (Working d t) = 1"
| "phase_weight Finished = 0"

text \<open>What is still to do: \<open>k\<close> for each device left, and what its phase weighs.\<close>

definition thread_work :: "nat \<Rightarrow> 't vthread \<Rightarrow> nat" where
  "thread_work k th = k * length (vt_devices th) + phase_weight (vt_phase th)"

definition schedule_work :: "('t, 's) schedule \<Rightarrow> nat" where
  "schedule_work s = sum_list (map (thread_work (length (sc_threads s) + 1)) (sc_threads s))"

lemma sum_list_map_update:
  "i < length xs \<Longrightarrow> sum_list (map f (xs[i := x])) + f (xs ! i) = sum_list (map f xs) + (f x :: nat)"
proof (induction xs arbitrary: i)
  case (Cons y ys)
  then show ?case by (cases i) auto
qed simp

lemma sum_list_map_wake: "i < length ths \<Longrightarrow> vt_phase (ths ! i) \<noteq> Waiting \<Longrightarrow>
  sum_list (map (thread_work k \<circ> wake) ths) + 1 \<le> sum_list (map (thread_work k) ths) + length ths"
proof (induction ths arbitrary: i)
  case (Cons th ths)
  have w: "thread_work k (wake th) \<le> thread_work k th + 1" for th :: "'a vthread"
    by (simp add: thread_work_def wake_def)
  have ws: "sum_list (map (thread_work k \<circ> wake) ths) \<le> sum_list (map (thread_work k) ths) + length ths" for ths :: "'a vthread list"
  proof (induction ths)
    case (Cons th ths)
    then show ?case using w [of th] by simp
  qed simp
  show ?case
  proof (cases i)
    case 0
    then show ?thesis using Cons.prems(2) ws [of ths] by (simp add: wake_def [of th] comp_def)
  next
    case (Suc j)
    then show ?thesis using Cons.IH [of j] Cons.prems w [of th] by simp
  qed
qed simp

lemma length_change_thread [simp]: "length (sc_threads (change_thread i f s)) = length (sc_threads s)"
  by (simp add: change_thread_def)

lemma work_change_thread:
  "i < length (sc_threads s) \<Longrightarrow> schedule_work (change_thread i f s) + thread_work (length (sc_threads s) + 1) (sc_threads s ! i) =
     schedule_work s + thread_work (length (sc_threads s) + 1) (f (sc_threads s ! i))"
  by (simp add: schedule_work_def change_thread_def sum_list_map_update)

lemma work_device_done:
  assumes "i < length (sc_threads s)" "d \<in> set (vt_devices (sc_threads s ! i))" "vt_phase (sc_threads s ! i) \<noteq> Finished"
  shows "schedule_work (device_done i d pvh sh s) < schedule_work s"
proof -
  let ?th = "sc_threads s ! i"
  let ?th' = "?th\<lparr>vt_devices := remove1 d (vt_devices ?th), vt_pvh := pvh, vt_phase := Ready\<rparr>"
  let ?k = "length (sc_threads s) + 1"
  let ?u = "(sc_threads s)[i := ?th']"
  have t: "sc_threads (device_done i d pvh sh s) = map wake ?u"
    by (simp add: device_done_def change_thread_def notify_all_def Let_def)
  obtain n where n: "length (vt_devices ?th) = Suc n" using assms(2) by (cases "vt_devices ?th") auto
  have "sum_list (map (thread_work ?k \<circ> wake) ?u) + 1 \<le> sum_list (map (thread_work ?k) ?u) + length ?u"
    by (rule sum_list_map_wake [of i]) (use assms(1) in simp_all)
  moreover have "sum_list (map (thread_work ?k) ?u) + thread_work ?k ?th = sum_list (map (thread_work ?k) (sc_threads s)) + thread_work ?k ?th'"
    by (rule sum_list_map_update [OF assms(1)])
  moreover have "thread_work ?k ?th' + length (sc_threads s) \<le> thread_work ?k ?th"
    using assms(2,3) n by (cases "vt_phase ?th") (simp_all add: thread_work_def length_remove1)
  ultimately show ?thesis unfolding schedule_work_def t by simp
qed

definition is_spurious :: "event \<Rightarrow> bool" where
  "is_spurious e \<longleftrightarrow> (case e of Spurious i \<Rightarrow> True | _ \<Rightarrow> False)"

lemma work_sched_step:
  assumes "schedule_ok devs groups s" "sched_step A e s = Some s'" "\<not> sc_terminated s'"
  shows "if is_spurious e then schedule_work s' = schedule_work s + 1 else schedule_work s' < schedule_work s"
proof (cases e)
  case (Turn i)
  then have i: "i < length (sc_threads s)" "vt_phase (sc_threads s ! i) = Ready" "s' = loop_turn A i s"
    using assms(2) by (auto split: if_splits)
  have "schedule_work (loop_turn A i s) < schedule_work s"
  proof (cases rule: loop_turn_cases [of s i A])
    case (attempt d)
    have t: "sc_threads (take_limits i d s) = sc_threads s" by (simp add: take_limits_def)
    have w: "schedule_work ((take_limits i d s)\<lparr>sc_shared := sh\<rparr>) = schedule_work s"
      "schedule_work (take_limits i d s) = schedule_work s" for sh
      by (simp_all add: schedule_work_def t)
    show ?thesis
    proof (cases "begin_attempt A i d (vt_pvh (sc_threads s ! i)) (sc_shared s)")
      case (Attempted pvh sh)
      then show ?thesis using attempt(3,4) i work_device_done [of i "take_limits i d s" d pvh sh] by (simp add: t w)
    next
      case (Released u pvh sh)
      then show ?thesis using attempt(4) i
          work_change_thread [of i "(take_limits i d s)\<lparr>sc_shared := sh\<rparr>" "\<lambda>th. th\<lparr>vt_pvh := pvh, vt_phase := Working d u\<rparr>"]
        by (simp add: t w thread_work_def)
    next
      case Raised
      then show ?thesis using attempt(4) assms(3) i(3) by simp
    qed
  next
    case finish
    then show ?thesis using i work_change_thread [OF i(1), of "vt_phase_update (\<lambda>_. Finished)"] by (simp add: thread_work_def)
  next
    case wait
    then show ?thesis using i work_change_thread [OF i(1), of "vt_phase_update (\<lambda>_. Waiting)"] by (simp add: thread_work_def)
  qed
  then show ?thesis using Turn i by (simp add: is_spurious_def)
next
  case (RsyncDone i)
  then obtain d t where i: "i < length (sc_threads s)" "vt_phase (sc_threads s ! i) = Working d t" "s' = rsync_done A i d t s"
    using assms(2) by (auto split: if_splits phase.splits)
  then have "works_on d (sc_threads s ! i)" by (simp add: works_on_def)
  then have "d \<in> set (vt_devices (sc_threads s ! i))"
    using schedule_okD(1,3) [OF assms(1)] i(1) by (auto simp: thread_ok_def)
  then show ?thesis using work_device_done [OF i(1)] i assms(3) RsyncDone
    by (auto simp: rsync_done_def is_spurious_def split: option.splits)
next
  case (Spurious i)
  then have i: "i < length (sc_threads s)" "vt_phase (sc_threads s ! i) = Waiting"
    "s' = change_thread i (vt_phase_update (\<lambda>_. Ready)) s"
    using assms(2) by (auto split: if_splits)
  then show ?thesis using work_change_thread [OF i(1), of "vt_phase_update (\<lambda>_. Ready)"] Spurious
    by (simp add: thread_work_def is_spurious_def)
qed

lemma work_schedules:
  assumes "schedules A s0 es s" "schedule_ok devs groups s0" "\<not> sc_terminated s"
  shows "length es + schedule_work s \<le> schedule_work s0 + 2 * length (filter is_spurious es)"
  using assms
proof (induction rule: schedules.induct)
  case (schedules_step es s e s')
  then have "\<not> sc_terminated s" by (cases e) (auto split: if_splits)
  then show ?case
    using schedules_step.IH work_sched_step [OF schedules_ok [OF schedules_step(1), of devs groups] schedules_step(2)] schedules_step.prems
    by (auto split: if_splits)
qed simp

text \<open>
  C8: Apart from spurious wakeups the threads take a bounded number of steps, so together with the absence
  of deadlock every volume's loop comes to its end: with \<open>n\<close> volumes and \<open>m\<close> devices there are
  at most \<open>n * ((n + 1) * m + 2)\<close> steps, and two more for each spurious wakeup.
\<close>

theorem backups_come_to_an_end:
  assumes "distinct devs" "schedules A (new_schedule devs groups sh) es s" "\<not> sc_terminated s"
  shows "length es \<le> length groups * ((length groups + 1) * length devs + 2) + 2 * length (filter is_spurious es)"
proof -
  have w: "schedule_work (new_schedule devs groups sh) = length groups * ((length groups + 1) * length devs + 2)"
    by (simp add: schedule_work_def new_schedule_def thread_work_def new_vthread_def comp_def sum_list_triv algebra_simps)
  show ?thesis using work_schedules [OF assms(2) new_schedule_ok [OF assms(1)] assms(3)] unfolding w by linarith
qed

section \<open>The attempts and what they share\<close>

text \<open>What each thread is running: the device and the token.\<close>

definition running_of :: "'t vthread \<Rightarrow> (string \<times> 't) option" where
  "running_of th = (case vt_phase th of Working d t \<Rightarrow> Some (d, t) | _ \<Rightarrow> None)"

definition sc_running :: "('t, 's) schedule \<Rightarrow> nat \<Rightarrow> (string \<times> 't) option" where
  "sc_running s i = (if i < length (sc_threads s) then running_of (sc_threads s ! i) else None)"

text \<open>
  The interface between the attempts and the threads: an invariant of what is running and of what is shared
  that the two halves of every attempt keep.
\<close>

locale attempt_invariant =
  fixes A :: "('t, 's) attempts" and n :: nat and J :: "(nat \<Rightarrow> (string \<times> 't) option) \<Rightarrow> 's \<Rightarrow> bool"
  assumes attempted: "J w sh \<Longrightarrow> i < n \<Longrightarrow> w i = None \<Longrightarrow> begin_attempt A i d pvh sh = Attempted pvh' sh' \<Longrightarrow> J w sh'"
    and released: "J w sh \<Longrightarrow> i < n \<Longrightarrow> w i = None \<Longrightarrow> begin_attempt A i d pvh sh = Released t pvh' sh' \<Longrightarrow> J (w(i \<mapsto> (d, t))) sh'"
    and ended: "J w sh \<Longrightarrow> i < n \<Longrightarrow> w i = Some (d, t) \<Longrightarrow> end_attempt A i d t pvh sh = Some sh' \<Longrightarrow> J (w(i := None)) sh'"

lemma running_simps [simp]:
  "running_of (th\<lparr>vt_phase := Working d t\<rparr>) = Some (d, t)"
  "p \<in> {Ready, Waiting, Finished} \<Longrightarrow> running_of (th\<lparr>vt_phase := p\<rparr>) = None"
  "running_of (th\<lparr>vt_pvh := x, vt_phase := Working d t\<rparr>) = Some (d, t)"
  "running_of (th\<lparr>vt_devices := ds, vt_pvh := x, vt_phase := Ready\<rparr>) = None"
  "running_of (wake th) = running_of th"
  by (auto simp: running_of_def wake_def)

lemma sc_running_change:
  "i < length (sc_threads s) \<Longrightarrow> sc_running (change_thread i f s) = (sc_running s)(i := running_of (f (sc_threads s ! i)))"
  by (auto simp: sc_running_def change_thread_def fun_eq_iff)

lemma sc_running_done:
  assumes "i < length (sc_threads s)"
  shows "sc_running (device_done i d pvh sh s) = (sc_running s)(i := None)" "sc_shared (device_done i d pvh sh s) = sh"
    "length (sc_threads (device_done i d pvh sh s)) = length (sc_threads s)"
  using assms by (auto simp: device_done_def change_thread_def notify_all_def Let_def sc_running_def fun_eq_iff)

lemma sc_running_threads: "sc_threads s = sc_threads s' \<Longrightarrow> sc_running s = sc_running s'"
  by (auto simp: sc_running_def)

lemma sched_step_length: "sched_step A e s = Some s' \<Longrightarrow> length (sc_threads s') = length (sc_threads s)"
  by (cases e) (auto simp: loop_turn_def rsync_done_def device_done_def change_thread_def notify_all_def take_limits_def Let_def
      split: if_splits phase.splits option.splits attempt.splits)

context attempt_invariant begin

lemma step_keeps:
  assumes "J (sc_running s) (sc_shared s)" "length (sc_threads s) = n" "sched_step A e s = Some s'"
  shows "J (sc_running s') (sc_shared s') \<and> length (sc_threads s') = n"
proof (cases e)
  case (Turn i)
  then have i: "i < n" "vt_phase (sc_threads s ! i) = Ready" "s' = loop_turn A i s"
    using assms(2,3) by (auto split: if_splits)
  then have none: "sc_running s i = None" by (simp add: sc_running_def running_of_def)
  then have same: "(sc_running s)(i := None) = sc_running s" by (simp add: fun_upd_idem)
  show ?thesis
  proof (cases rule: loop_turn_cases [of s i A])
    case (attempt d)
    have t: "sc_threads (take_limits i d s) = sc_threads s" by (simp add: take_limits_def)
    then have r: "sc_running (take_limits i d s) = sc_running s" "sc_running ((take_limits i d s)\<lparr>sc_shared := sh\<rparr>) = sc_running s" for sh
      by (auto intro!: sc_running_threads)
    show ?thesis
    proof (cases "begin_attempt A i d (vt_pvh (sc_threads s ! i)) (sc_shared s)")
      case (Attempted pvh sh)
      then show ?thesis using attempt(4) i(1,3) assms(1,2) attempted [OF assms(1) i(1) none Attempted] same
        by (simp add: sc_running_done t r)
    next
      case (Released u pvh sh)
      then show ?thesis using attempt(4) i(1,3) assms(2) released [OF assms(1) i(1) none Released]
        by (simp add: sc_running_change t r) (simp add: change_thread_def)
    next
      case Raised
      then show ?thesis using attempt(4) i(3) assms(1,2) by (simp add: sc_running_threads [of "s\<lparr>sc_terminated := True\<rparr>" s])
    qed
  qed (use i assms(1,2) same in \<open>simp_all add: sc_running_change\<close>, simp_all add: change_thread_def)
next
  case (RsyncDone i)
  then obtain d t where i: "i < n" "vt_phase (sc_threads s ! i) = Working d t" "s' = rsync_done A i d t s"
    using assms(2,3) by (auto split: if_splits phase.splits)
  then have "sc_running s i = Some (d, t)" using assms(2) by (simp add: sc_running_def running_of_def)
  then show ?thesis
    using i assms(1,2) ended [OF assms(1) i(1)] sc_running_threads [of "s\<lparr>sc_terminated := True\<rparr>" s]
    by (auto simp: rsync_done_def sc_running_done split: option.splits)
next
  case (Spurious i)
  then have i: "i < n" "vt_phase (sc_threads s ! i) = Waiting" "s' = change_thread i (vt_phase_update (\<lambda>_. Ready)) s"
    using assms(2,3) by (auto split: if_splits)
  then have "(sc_running s)(i := None) = sc_running s" using assms(2) by (simp add: sc_running_def running_of_def fun_upd_idem)
  then show ?thesis using i assms(1,2) by (simp add: sc_running_change) (simp add: change_thread_def)
qed

lemma schedules_keep:
  assumes "schedules A s0 es s" "J (sc_running s0) (sc_shared s0)" "length (sc_threads s0) = n"
  shows "J (sc_running s) (sc_shared s)"
proof -
  have "J (sc_running s) (sc_shared s) \<and> length (sc_threads s) = n"
    using assms by (induction rule: schedules.induct) (auto dest: step_keeps)
  then show ?thesis by blast
qed

end

section \<open>The database while backups run\<close>

text \<open>Between transactions.\<close>

definition db_clean :: "database \<Rightarrow> bool" where
  "db_clean d \<longleftrightarrow> \<not> db_in_transaction d \<and> db_working d = db_committed d"

lemmas db_action_defs = db_bind_def db_begin_def db_control_def db_statement_def db_commit_def Let_def

lemma transaction_clean:
  assumes "db_clean d" "db_bind db_begin (\<lambda>_. db_bind (db_statement f) (\<lambda>_. db_commit act any)) d = (Inr u, d')"
  shows "db_clean d' \<and> f (db_committed d) = Inr (db_committed d')"
  using assms by (auto simp: db_action_defs db_clean_def split: if_splits sum.splits)

text \<open>A retried transaction succeeds only in a try that starts between transactions.\<close>

lemma retry_transaction_clean:
  assumes "retry_busy (db_bind db_begin (\<lambda>_. db_bind (db_statement f) (\<lambda>_. db_commit act any))) d = Some (Inr u, d')"
    "db_clean d"
  shows "db_clean d' \<and> f (db_committed d) = Inr (db_committed d')"
proof -
  let ?t = "db_bind db_begin (\<lambda>_. db_bind (db_statement f) (\<lambda>_. db_commit act any))"
  have "(body = ?t \<longrightarrow> (\<forall>u d'. r = (Inr u, d') \<longrightarrow>
      \<not> db_in_transaction d \<and> (db_clean d \<longrightarrow> db_clean d' \<and> f (db_committed d) = Inr (db_committed d'))))"
    if "retry_busy body d = Some r" for body d r
    using that
  proof (induction rule: retry_busy.raw_induct [rotated, consumes 1])
    case (1 retry body d r)
    show ?case
    proof (intro impI allI)
      fix u d' assume b: "body = ?t" and r: "r = (Inr u, d')"
      consider (again) msg d1 where "?t d = (Inl (DatabaseBusy msg), d1)" "retry body d1 = Some (Inr u, d')"
        | (ok) "?t d = (Inr u, d')"
        using 1(2) b r by (auto split: prod.splits sum.splits err.splits)
      then show "\<not> db_in_transaction d \<and> (db_clean d \<longrightarrow> db_clean d' \<and> f (db_committed d) = Inr (db_committed d'))"
      proof cases
        case again
        have "\<not> db_in_transaction d1 \<and> (db_clean d1 \<longrightarrow> db_clean d' \<and> f (db_committed d1) = Inr (db_committed d'))"
          using 1(1) [OF again(2)] b by simp
        then show ?thesis using again(1) by (auto simp: db_action_defs db_clean_def split: if_splits sum.splits)
      next
        case ok
        then have "\<not> db_in_transaction d" by (auto simp: db_action_defs split: if_splits sum.splits)
        then show ?thesis using ok transaction_clean [of d f act any u d'] by auto
      qed
    qed
  qed
  from this [OF assms(1)] assms(2) show ?thesis by auto
qed

lemma v_name_runPreVolumeHook:
  "runPreVolumeHook sys act h v pvh errors = (v', pvh', errors') \<Longrightarrow> v_name v' = v_name v"
  by (auto simp: runPreVolumeHook_def Let_def split: if_splits prod.splits)

lemma record_underway_clean:
  assumes "db_clean d" "record_underway act version hn vn b d = (Inr u, d')"
  shows "db_clean d' \<and> map_of (db_committed d') = (map_of (db_committed d))(db_key_of hn vn b \<mapsto> backup_key_row version b)"
proof -
  have "db_clean d' \<and> table_insert True (db_key_of hn vn b) (backup_key_row version b) (db_committed d) = Inr (db_committed d')"
    by (rule transaction_clean [OF assms(1)]) (use assms(2) in \<open>simp add: record_underway_def backup_insert_def\<close>)
  then show ?thesis using table_insert_map by blast
qed

definition token_key :: "host \<Rightarrow> string \<Rightarrow> string \<Rightarrow> token \<Rightarrow> db_key" where
  "token_key h vn dev tok = (h_name h, vn, dev, mb_id (snd (snd tok)))"

lemma token_key: "db_key_of (h_name h) vn (underway_backup addr dev (snd (snd tok))) = token_key h vn dev tok"
  by (simp add: db_key_of_def underway_backup_def token_key_def)

lemma begin_effect:
  assumes "maybeBackup_begin w addr h dev pvh (v, d, errors) = (Inr res, pvh', (v', d', errors'))" "db_clean d"
  shows "v_name v' = v_name v \<and> db_clean d' \<and>
    (case res of
       None \<Rightarrow> db_committed d' = db_committed d
     | Some tok \<Rightarrow> bw_act w \<and> (\<exists>row. r_status row = UNDERWAY \<and>
         map_of (db_committed d') = (map_of (db_committed d))(token_key h (v_name v) dev tok \<mapsto> row)))"
proof -
  consider (same) "v' = v" "d' = d" "res = None"
    | (attempt) path where "backupVolumeToDevice_begin (bw_system w) (bw_machine w) (bw_act w) (bw_version w) addr dev path h pvh
        (v, d, errors) = (Inr res, pvh', (v', d', errors'))"
    using assms(1) by (auto simp: maybeBackup_begin_def split: sum.splits if_splits option.splits store_state.splits)
  then show ?thesis
  proof cases
    case attempt
    obtain v1 pvh1 errors1 where h: "runPreVolumeHook (bw_system w) (bw_act w) h v pvh errors = (v1, pvh1, errors1)" by (metis prod_cases3)
    note n = v_name_runPreVolumeHook [OF h]
    show ?thesis
    proof (cases "pvh1 = PVH_FAILED")
      case True
      then show ?thesis using attempt h n assms(2) by (auto simp: backupVolumeToDevice_begin_def)
    next
      case False
      then obtain mb r where mb: "performBackup_begin (bw_act w) (bw_version w) addr dev h mb (v1, d, errors1) = (Inr (), (v', d', errors'))"
        "res = (if bw_act w then Some (path, v_path v1, mb) else None)"
        using attempt h by (auto simp: backupVolumeToDevice_begin_def result_simps Let_def split: sum.splits prod.splits)
      then have v': "v' = calculate v1" and r: "bw_act w \<Longrightarrow> record_underway True (bw_version w) (h_name h) (v_name v1)
          (underway_backup addr dev mb) d = (Inr (), d')" and nd: "\<not> bw_act w \<Longrightarrow> d' = d"
        by (auto simp: performBackup_begin_def Let_def split: prod.splits if_splits)
      show ?thesis
      proof (cases "bw_act w")
        case True
        have k: "db_key_of (h_name h) (v_name v1) (underway_backup addr dev mb) = token_key h (v_name v) dev (path, v_path v1, mb)"
          using token_key [of h "v_name v" addr dev "(path, v_path v1, mb)"] n by simp
        have "r_status (backup_key_row (bw_version w) (underway_backup addr dev mb)) = UNDERWAY"
          by (simp add: backup_key_row_def underway_backup_def)
        then show ?thesis using record_underway_clean [OF assms(2) r [OF True]] v' n mb(2) True unfolding k by auto
      qed (use v' n nd mb(2) assms(2) in simp)
    qed
  qed (use assms(2) in auto)
qed

lemma end_effect:
  assumes "maybeBackup_end w addr h dev tok (v, d, errors) = Some (Inr u, (v', d', errors'))" "db_clean d" "bw_act w"
  shows "v_name v' = v_name v \<and> db_clean d' \<and> (\<exists>row. r_status row \<noteq> UNDERWAY \<and>
    map_of (db_committed d') = map_of (table_update (bw_version w) (token_key h (v_name v) dev tok) row (db_committed d)))"
proof -
  obtain storePath sourcePath mb where tok: "tok = (storePath, sourcePath, mb)" by (cases tok)
  obtain rc lg where rs: "rsyncBackup (bw_system w) True dev h v storePath sourcePath mb = (rc, lg)" by force
  obtain f where f: "finish_time (bw_machine w) (mb_startTime mb) = Inr f"
    using assms(1,3) tok rs by (auto simp: maybeBackup_end_def performBackup_end_def Let_def split: sum.splits)
  let ?b = "finished_backup rc lg f (underway_backup addr dev mb)"
  have r: "retry_busy (record_outcome (bw_version w) (h_name h) (v_name v) ?b) d = Some (Inr u, d')"
    and v': "v' = snd (addBackup ?b (calculate v))"
    using assms(1,3) tok rs f by (auto simp: maybeBackup_end_def performBackup_end_def Let_def)
  have k: "db_key_of (h_name h) (v_name v) ?b = token_key h (v_name v) dev tok"
    using token_key [of h "v_name v" addr dev tok] tok by simp
  have "db_clean d' \<and> (Inr (table_update (bw_version w) (token_key h (v_name v) dev tok) (backup_key_row (bw_version w) ?b)
      (db_committed d)) :: db_table result) = Inr (db_committed d')"
    by (rule retry_transaction_clean [OF _ assms(2)]) (use r k in \<open>simp add: record_outcome_def backup_update_def\<close>)
  moreover have "r_status (backup_key_row (bw_version w) ?b) \<noteq> UNDERWAY"
    by (simp add: backup_key_row_def finished_backup_def)
  ultimately show ?thesis using v' by auto
qed

text \<open>
  The rows that say that a backup is under way: those of the backups that are running, and no others
  except the ones that were left in the table before (\<open>t0\<close>); \<open>ns\<close> are the volumes' names.
\<close>

definition thread_keys_distinct :: "host list \<Rightarrow> string list \<Rightarrow> bool" where
  "thread_keys_distinct hs ns \<longleftrightarrow>
     (\<forall>i < length ns. \<forall>j < length ns. h_name (hs ! i) = h_name (hs ! j) \<longrightarrow> ns ! i = ns ! j \<longrightarrow> i = j)"

definition underway_recorded ::
    "host list \<Rightarrow> string list \<Rightarrow> db_table \<Rightarrow> (nat \<Rightarrow> (string \<times> token) option) \<Rightarrow> db_table \<Rightarrow> bool" where
  "underway_recorded hs ns t0 w t \<longleftrightarrow>
     (\<forall>k r. map_of t k = Some r \<longrightarrow> r_status r = UNDERWAY \<longrightarrow>
        (\<exists>r0. map_of t0 k = Some r0 \<and> r_status r0 = UNDERWAY) \<or>
        (\<exists>i < length ns. \<exists>d tok. w i = Some (d, tok) \<and> k = token_key (hs ! i) (ns ! i) d tok)) \<and>
     (\<forall>i < length ns. \<forall>d tok. w i = Some (d, tok) \<longrightarrow>
        (\<exists>r. map_of t (token_key (hs ! i) (ns ! i) d tok) = Some r \<and> r_status r = UNDERWAY))"

definition recorded ::
    "backup_world \<Rightarrow> host list \<Rightarrow> string list \<Rightarrow> db_table \<Rightarrow> (nat \<Rightarrow> (string \<times> token) option) \<Rightarrow> shared_state \<Rightarrow> bool" where
  "recorded bw hs ns t0 w sh \<longleftrightarrow>
     (thread_keys_distinct hs ns \<longrightarrow>
        (case sh of (vs, db, errors) \<Rightarrow>
           map v_name vs = ns \<and> db_clean db \<and> (\<forall>i. w i \<noteq> None \<longrightarrow> bw_act bw) \<and>
           underway_recorded hs ns t0 w (db_committed db)))"

lemma v_names_update: "v_name v = v_name (vs ! i) \<Longrightarrow> map v_name (vs[i := v]) = map v_name vs"
  by (cases "i < length vs") (simp_all add: map_update list_update_same_conv list_update_beyond)

lemma token_key_eq:
  assumes "thread_keys_distinct hs ns" "i < length ns" "j < length ns"
    "token_key (hs ! i) (ns ! i) d tok = token_key (hs ! j) (ns ! j) e tok'"
  shows "i = j"
  using assms by (auto simp: token_key_def thread_keys_distinct_def)

lemma underway_begin:
  assumes "thread_keys_distinct hs ns" "underway_recorded hs ns t0 w t" "i < length ns" "w i = None"
    "r_status row = UNDERWAY" "map_of t' = (map_of t)(token_key (hs ! i) (ns ! i) d tok \<mapsto> row)"
  shows "underway_recorded hs ns t0 (w(i \<mapsto> (d, tok))) t'"
proof -
  have "(\<exists>r0. map_of t0 k = Some r0 \<and> r_status r0 = UNDERWAY) \<or>
      (\<exists>j < length ns. \<exists>e tok'. (w(i \<mapsto> (d, tok))) j = Some (e, tok') \<and> k = token_key (hs ! j) (ns ! j) e tok')"
    if "map_of t' k = Some r" "r_status r = UNDERWAY" for k r
  proof (cases "k = token_key (hs ! i) (ns ! i) d tok")
    case False
    then have "map_of t k = Some r" using that(1) assms(6) by simp
    then show ?thesis using assms(2,4) that(2) unfolding underway_recorded_def by (metis fun_upd_other option.distinct(1))
  next
    case True
    have "(w(i \<mapsto> (d, tok))) i = Some (d, tok)" by simp
    then show ?thesis using True assms(3) by blast
  qed
  moreover have "\<exists>r. map_of t' (token_key (hs ! j) (ns ! j) e tok') = Some r \<and> r_status r = UNDERWAY"
    if "j < length ns" "(w(i \<mapsto> (d, tok))) j = Some (e, tok')" for j e tok'
  proof (cases "j = i")
    case False
    then have "token_key (hs ! j) (ns ! j) e tok' \<noteq> token_key (hs ! i) (ns ! i) d tok"
      using token_key_eq [OF assms(1) that(1) assms(3)] by blast
    then show ?thesis using assms(2,6) that False
      by (auto simp: underway_recorded_def simp del: split_paired_All split_paired_Ex)
  qed (use that assms(5,6) in auto)
  ultimately show ?thesis unfolding underway_recorded_def by blast
qed

lemma underway_end:
  assumes "thread_keys_distinct hs ns" "underway_recorded hs ns t0 w t" "i < length ns" "w i = Some (d, tok)"
    "r_status row \<noteq> UNDERWAY" "map_of t' = map_of (table_update version (token_key (hs ! i) (ns ! i) d tok) row t)"
  shows "underway_recorded hs ns t0 (w(i := None)) t'"
proof -
  have "(\<exists>r0. map_of t0 k = Some r0 \<and> r_status r0 = UNDERWAY) \<or>
      (\<exists>j < length ns. \<exists>e tok'. (w(i := None)) j = Some (e, tok') \<and> k = token_key (hs ! j) (ns ! j) e tok')"
    if k: "map_of t' k = Some r" "r_status r = UNDERWAY" for k r
  proof -
    have ne: "k \<noteq> token_key (hs ! i) (ns ! i) d tok" using k assms(5,6) by auto
    then have "map_of t k = Some r" using k(1) assms(6) by simp
    then consider "\<exists>r0. map_of t0 k = Some r0 \<and> r_status r0 = UNDERWAY"
      | j e tok' where "j < length ns" "w j = Some (e, tok')" "k = token_key (hs ! j) (ns ! j) e tok'"
      using assms(2) k(2) unfolding underway_recorded_def by metis
    then show ?thesis
    proof cases
      case (2 j e tok')
      then have "(w(i := None)) j = Some (e, tok')" using ne assms(4) by auto
      then show ?thesis using 2 by blast
    qed blast
  qed
  moreover have "\<exists>r. map_of t' (token_key (hs ! j) (ns ! j) e tok') = Some r \<and> r_status r = UNDERWAY"
    if "j < length ns" "(w(i := None)) j = Some (e, tok')" for j e tok'
  proof -
    have "token_key (hs ! j) (ns ! j) e tok' \<noteq> token_key (hs ! i) (ns ! i) d tok"
      using token_key_eq [OF assms(1) that(1) assms(3)] that(2) by (metis fun_upd_same option.distinct(1))
    then show ?thesis using assms(2,6) that
      by (auto simp: underway_recorded_def simp del: split_paired_All split_paired_Ex split: if_splits)
  qed
  ultimately show ?thesis unfolding underway_recorded_def by blast
qed

interpretation underway: attempt_invariant "backup_attempts bw addr hs" "length ns" "recorded bw hs ns t0"
  for bw addr hs ns t0
proof (unfold_locales, goal_cases)
  case (1 w sh i d pvh pvh' sh')
  show ?case unfolding recorded_def
  proof
    assume dk: "thread_keys_distinct hs ns"
    obtain vs db errors where sh: "sh = (vs, db, errors)" by (cases sh)
    obtain v db' errors' where b: "maybeBackup_begin bw (addr i d) (hs ! i) d pvh (vs ! i, db, errors) = (Inr None, pvh', (v, db', errors'))"
      "sh' = (vs[i := v], db', errors')"
      using 1(4) sh by (auto simp: backup_attempts_def split: prod.splits sum.splits option.splits)
    have J: "map v_name vs = ns" "db_clean db" "\<forall>i. w i \<noteq> None \<longrightarrow> bw_act bw" "underway_recorded hs ns t0 w (db_committed db)"
      using 1(1) dk sh by (auto simp: recorded_def)
    note e = begin_effect [OF b(1) J(2)]
    show "case sh' of (vs, db, errors) \<Rightarrow> map v_name vs = ns \<and> db_clean db \<and> (\<forall>i. w i \<noteq> None \<longrightarrow> bw_act bw) \<and>
        underway_recorded hs ns t0 w (db_committed db)"
      using e J b(2) 1(2) by (auto simp: v_names_update)
  qed
next
  case (2 w sh i d pvh tok pvh' sh')
  show ?case unfolding recorded_def
  proof
    assume dk: "thread_keys_distinct hs ns"
    obtain vs db errors where sh: "sh = (vs, db, errors)" by (cases sh)
    obtain v db' errors' where b: "maybeBackup_begin bw (addr i d) (hs ! i) d pvh (vs ! i, db, errors) =
        (Inr (Some tok), pvh', (v, db', errors'))" "sh' = (vs[i := v], db', errors')"
      using 2(4) sh by (auto simp: backup_attempts_def split: prod.splits sum.splits option.splits)
    have J: "map v_name vs = ns" "db_clean db" "\<forall>i. w i \<noteq> None \<longrightarrow> bw_act bw" "underway_recorded hs ns t0 w (db_committed db)"
      using 2(1) dk sh by (auto simp: recorded_def)
    note e = begin_effect [OF b(1) J(2)]
    have n: "v_name (vs ! i) = ns ! i" using J(1) 2(2) by auto
    obtain row where "r_status row = UNDERWAY"
      "map_of (db_committed db') = (map_of (db_committed db))(token_key (hs ! i) (ns ! i) d tok \<mapsto> row)"
      using e n by auto
    note underway_begin [OF dk J(4) 2(2,3) this]
    then show "case sh' of (vs, db, errors) \<Rightarrow> map v_name vs = ns \<and> db_clean db \<and>
        (\<forall>j. (w(i \<mapsto> (d, tok))) j \<noteq> None \<longrightarrow> bw_act bw) \<and> underway_recorded hs ns t0 (w(i \<mapsto> (d, tok))) (db_committed db)"
      using e J b(2) n by (auto simp: v_names_update)
  qed
next
  case (3 w sh i d tok pvh sh')
  show ?case unfolding recorded_def
  proof
    assume dk: "thread_keys_distinct hs ns"
    obtain vs db errors where sh: "sh = (vs, db, errors)" by (cases sh)
    obtain v db' errors' where b: "maybeBackup_end bw (addr i d) (hs ! i) d tok (vs ! i, db, errors) =
        Some (Inr (), (v, db', errors'))" "sh' = (vs[i := v], db', errors')"
      using 3(4) sh by (auto simp: backup_attempts_def split: prod.splits sum.splits option.splits)
    have J: "map v_name vs = ns" "db_clean db" "\<forall>i. w i \<noteq> None \<longrightarrow> bw_act bw" "underway_recorded hs ns t0 w (db_committed db)"
      using 3(1) dk sh by (auto simp: recorded_def)
    have act: "bw_act bw" using J(3) 3(3) by (metis option.distinct(1))
    note e = end_effect [OF b(1) J(2) act]
    have n: "v_name (vs ! i) = ns ! i" using J(1) 3(2) by auto
    have "underway_recorded hs ns t0 (w(i := None)) (db_committed db')"
      using e n underway_end [OF dk J(4) 3(2,3)] by (auto simp del: split_paired_All)
    then show "case sh' of (vs, db, errors) \<Rightarrow> map v_name vs = ns \<and> db_clean db \<and>
        (\<forall>j. (w(i := None)) j \<noteq> None \<longrightarrow> bw_act bw) \<and> underway_recorded hs ns t0 (w(i := None)) (db_committed db)"
      using e J b(2) n act by (auto simp: v_names_update)
  qed
qed

text \<open>
  C3: While \<open>makeBackups\<close> runs, however its threads interleave, no transaction is left open and the
  database is right about what is going on: every backup that is running has a committed row that says that
  it is under way, and a committed row that says so belongs to a running backup or was there before.  So
  when all is over, no new row says that a backup is under way.
\<close>

theorem database_knows_what_runs:
  assumes "schedules (backup_attempts bw addr (map fst hvs)) (makeBackups avail devs c db0 errors) es s"
    "hvs = backup_volumes avail c" "db_clean db0" "sc_shared s = (vs, db, errors')"
    "\<forall>i < length hvs. \<forall>j < length hvs. h_name (fst (hvs ! i)) = h_name (fst (hvs ! j)) \<longrightarrow>
       v_name (snd (hvs ! i)) = v_name (snd (hvs ! j)) \<longrightarrow> i = j"
  shows "db_clean db \<and>
    (\<forall>k r. map_of (db_committed db) k = Some r \<longrightarrow> r_status r = UNDERWAY \<longrightarrow>
       (\<exists>r0. map_of (db_committed db0) k = Some r0 \<and> r_status r0 = UNDERWAY) \<or>
       (\<exists>i < length hvs. \<exists>d tok. vt_phase (sc_threads s ! i) = Working d tok \<and>
          k = token_key (fst (hvs ! i)) (v_name (snd (hvs ! i))) d tok)) \<and>
    (\<forall>i < length hvs. \<forall>d tok. vt_phase (sc_threads s ! i) = Working d tok \<longrightarrow>
       (\<exists>r. map_of (db_committed db) (token_key (fst (hvs ! i)) (v_name (snd (hvs ! i))) d tok) = Some r \<and>
          r_status r = UNDERWAY))"
proof -
  let ?hs = "map fst hvs" and ?ns = "map (v_name \<circ> snd) hvs"
  let ?s0 = "makeBackups avail devs c db0 errors"
  have s0: "sc_running ?s0 = (\<lambda>_. None)" "length (sc_threads ?s0) = length ?ns" "sc_shared ?s0 = (map snd hvs, db0, errors)"
    by (auto simp: makeBackups_def new_schedule_def new_vthread_def sc_running_def running_of_def assms(2) Let_def fun_eq_iff)
  have dk: "thread_keys_distinct ?hs ?ns" using assms(5) by (auto simp: thread_keys_distinct_def)
  have "recorded bw ?hs ?ns (db_committed db0) (sc_running ?s0) (sc_shared ?s0)"
    unfolding s0 using assms(3) by (simp add: recorded_def underway_recorded_def)
  from underway.schedules_keep [OF assms(1) this s0(2)] dk assms(4)
  have r: "db_clean db" "underway_recorded ?hs ?ns (db_committed db0) (sc_running s) (db_committed db)"
    by (simp_all add: recorded_def)
  have n: "length (sc_threads s) = length hvs"
    using assms(1) by (induction rule: schedules.induct) (auto simp: s0(2) dest: sched_step_length)
  have run: "sc_running s i = Some (d, tok) \<longleftrightarrow> vt_phase (sc_threads s ! i) = Working d tok" if "i < length hvs" for i d tok
    using that n by (auto simp: sc_running_def running_of_def split: phase.splits)
  show ?thesis
    using r(1) r(2) [unfolded underway_recorded_def] run by (simp cong: conj_cong)
qed

section \<open>Concrete schedules\<close>

fun sched_run :: "('t, 's) attempts \<Rightarrow> event list \<Rightarrow> ('t, 's) schedule \<Rightarrow> ('t, 's) schedule option" where
  "sched_run A [] s = Some s"
| "sched_run A (e # es) s = Option.bind (sched_step A e s) (sched_run A es)"

lemma sched_run_schedules:
  "schedules A s0 es s \<Longrightarrow> sched_run A fs s = Some s' \<Longrightarrow> schedules A s0 (es @ fs) s'"
proof (induction fs arbitrary: es s)
  case (Cons e fs)
  then obtain s1 where s1: "sched_step A e s = Some s1" "sched_run A fs s1 = Some s'"
    by (auto simp: bind_eq_Some_conv)
  then show ?case using Cons.IH [OF schedules_step [OF Cons.prems(1) s1(1)] s1(2)] by simp
qed simp

lemmas sched_runI = sched_run_schedules [OF schedules_init, simplified]

definition sample_attempts :: "(unit, nat) attempts" where
  "sample_attempts = \<lparr>begin_attempt = (\<lambda>i d pvh n. Released () PVH_RUN n), end_attempt = (\<lambda>i d t pvh n. Some (n + 1))\<rparr>"

definition sample_schedule :: "(unit, nat) schedule" where
  "sample_schedule = new_schedule [''a'', ''b''] [''g'', ''h'', ''g''] 0"

definition sample_events :: "event list" where
  "sample_events = [Turn 0, Turn 1, Turn 2, Spurious 2, RsyncDone 0, Turn 2]"

definition sample_state :: "(unit, nat) schedule" where
  "sample_state = the (sched_run sample_attempts sample_events sample_schedule)"

lemma sample_run:
  "schedules sample_attempts (new_schedule [''a'', ''b''] [''g'', ''h'', ''g''] 0) sample_events sample_state"
  unfolding sample_schedule_def [symmetric] sample_state_def
proof (rule sched_runI)
  have "sched_run sample_attempts sample_events sample_schedule \<noteq> None" by code_simp
  then show "sched_run sample_attempts sample_events sample_schedule =
    Some (the (sched_run sample_attempts sample_events sample_schedule))" by simp
qed

lemma sample_devices: "distinct [''a'', ''b'']"
  by simp

lemma sample_state_facts:
  "vt_phase (sc_threads sample_state ! 2) = Working ''a'' ()" "\<not> sc_terminated sample_state"
  by code_simp+

lemma backups_exclude_each_other_witness: "0 \<le> sc_devices sample_state ''a'' \<and> 0 \<le> sc_groups sample_state ''g''"
  using backups_exclude_each_other [OF _ sample_run _ _ sample_state_facts(1) sample_state_facts(1)] by simp

lemma every_device_attempted_once_witness: "distinct (sc_history sample_state)"
  using every_device_attempted_once [OF _ sample_run] by simp

lemma backups_never_deadlock_witness:
  "(\<forall>th \<in> set (sc_threads sample_state). vt_phase th = Finished) \<or>
    (\<exists>i s'. i < 3 \<and> (sched_step sample_attempts (Turn i) sample_state = Some s' \<or>
      sched_step sample_attempts (RsyncDone i) sample_state = Some s'))"
proof -
  have l: "length [''g'', ''h'', ''g''] = 3" by simp
  show ?thesis using backups_never_deadlock [OF sample_devices sample_run sample_state_facts(2)] unfolding l .
qed

lemma backups_come_to_an_end_witness: "length sample_events \<le> 3 * (4 * 2 + 2) + 2 * length (filter is_spurious sample_events)"
  using backups_come_to_an_end [OF _ sample_run sample_state_facts(2)] by simp

definition sample_world :: backup_world where
  "sample_world =
     \<lparr>bw_system = sample_system 0, bw_machine = sample_machine, bw_fnmatch = (\<lambda>_ _. 0), bw_run = (\<lambda>_. (0, [])), bw_act = True,
      bw_force = False, bw_warnStore = False, bw_version = 11, bw_store = (\<lambda>_. Inr (Some (''/s'', Enabled))),
      bw_storeDisabled = (\<lambda>_. Inr None)\<rparr>"

definition sample_backup_conf :: conf where
  "sample_backup_conf = (let c = new_conf ''/usr/sbin/sendmail''; h = new_host c ''h''
     in c\<lparr>c_hosts := [(''h'', h\<lparr>h_volumes := [(''v'', (new_volume h ''v'' ''/v'')\<lparr>v_selected := [PurposeBackup]\<rparr>)]\<rparr>)]\<rparr>)"

definition sample_backups :: "event list \<Rightarrow> (token, shared_state) schedule option" where
  "sample_backups es =
     sched_run (backup_attempts sample_world (\<lambda>_ _. 1) (map fst (backup_volumes (\<lambda>_. True) sample_backup_conf))) es
       (makeBackups (\<lambda>_. True) [''dev''] sample_backup_conf (sample_database []) 0)"

definition sample_backups_state :: "(token, shared_state) schedule" where
  "sample_backups_state = the (sample_backups [Turn 0])"

lemma sample_backups:
  "sample_backups [Turn 0] \<noteq> None"
  "length (backup_volumes (\<lambda>_. True) sample_backup_conf) = 1"
  "map running_of (sc_threads sample_backups_state) \<noteq> [None]"
  "length (sc_threads sample_backups_state) = 1"
  by code_simp+

lemma sample_backups_schedules:
  "schedules (backup_attempts sample_world (\<lambda>_ _. 1) (map fst (backup_volumes (\<lambda>_. True) sample_backup_conf)))
     (makeBackups (\<lambda>_. True) [''dev''] sample_backup_conf (sample_database []) 0) [Turn 0] sample_backups_state"
  by (rule sched_runI) (use sample_backups(1) in \<open>auto simp: sample_backups_def sample_backups_state_def\<close>)

lemma database_knows_what_runs_witness:
  "\<exists>db k r. db = fst (snd (sc_shared sample_backups_state)) \<and> db_clean db \<and>
     map_of (db_committed db) k = Some r \<and> r_status r = UNDERWAY"
proof -
  let ?hvs = "backup_volumes (\<lambda>_. True) sample_backup_conf"
  obtain vs db errors where sh: "sc_shared sample_backups_state = (vs, db, errors)" by (cases "sc_shared sample_backups_state")
  have "running_of (sc_threads sample_backups_state ! 0) \<noteq> None"
    using sample_backups(3,4) by (cases "sc_threads sample_backups_state") auto
  then obtain d tok where w: "vt_phase (sc_threads sample_backups_state ! 0) = Working d tok"
    by (auto simp: running_of_def split: phase.splits)
  have "\<forall>i < length ?hvs. \<forall>j < length ?hvs. h_name (fst (?hvs ! i)) = h_name (fst (?hvs ! j)) \<longrightarrow>
      v_name (snd (?hvs ! i)) = v_name (snd (?hvs ! j)) \<longrightarrow> i = j"
    using sample_backups(2) by simp
  moreover have "db_clean (sample_database [])" by (simp add: db_clean_def sample_database_def)
  ultimately have "db_clean db" "\<exists>r. map_of (db_committed db) (token_key (fst (?hvs ! 0)) (v_name (snd (?hvs ! 0))) d tok) = Some r \<and>
      r_status r = UNDERWAY"
    using database_knows_what_runs [OF sample_backups_schedules refl _ sh] w sample_backups(2)
    by (blast, simp del: split_paired_All split_paired_Ex)
  then show ?thesis using sh by (metis fst_conv snd_conv)
qed

section \<open>The order of the threads\<close>

lemma order_host_iff:
  "order_host a b \<longleftrightarrow> h_priority a > h_priority b \<or> h_priority a = h_priority b \<and> str_less (h_name a) (h_name b)"
  by (auto simp: order_host_def)

lemma order_host_total:
  "h_name a \<noteq> h_name b \<Longrightarrow> order_host a b \<or> order_host b a"
  by (auto simp: order_host_def)

lemma order_host_trans: "order_host a b \<Longrightarrow> order_host b c \<Longrightarrow> order_host a c"
  by (auto simp: order_host_def split: if_splits)

lemma insert_host_set [simp]: "mset (insert_host h hs) = add_mset h (mset hs)"
  by (induction hs) auto

lemma set_insert_host [simp]: "set (insert_host h hs) = insert h (set hs)"
  by (induction hs) auto

lemma insert_host_sorted:
  "sorted_wrt order_host hs \<Longrightarrow> \<forall>x \<in> set hs. h_name x \<noteq> h_name h \<Longrightarrow> sorted_wrt order_host (insert_host h hs)"
  by (induction hs) (auto dest: order_host_trans order_host_total)

lemma foldr_insert_host:
  "distinct (map h_name hs) \<Longrightarrow>
   sorted_wrt order_host (foldr insert_host hs []) \<and> mset (foldr insert_host hs []) = mset hs \<and>
   set (foldr insert_host hs []) = set hs"
proof (induction hs)
  case (Cons h hs)
  then have "\<forall>x \<in> set (foldr insert_host hs []). h_name x \<noteq> h_name h" by (auto simp: image_iff)
  then show ?case using Cons by (auto intro: insert_host_sorted)
qed simp

text \<open>
  The threads are made for exactly the hosts that have a volume selected for backup, once each, the
  hosts of higher priority first and those of equal priority in the order of their names.
\<close>

theorem backup_hosts_by_priority:
  assumes "distinct (map (h_name \<circ> snd) (c_hosts c))"
  shows "mset (backup_hosts c) = mset (filter (\<lambda>h. host_selected h PurposeBackup) (map snd (c_hosts c))) \<and>
    (\<forall>i j. i < j \<longrightarrow> j < length (backup_hosts c) \<longrightarrow>
       h_priority (backup_hosts c ! i) > h_priority (backup_hosts c ! j) \<or>
       h_priority (backup_hosts c ! i) = h_priority (backup_hosts c ! j) \<and>
       str_less (h_name (backup_hosts c ! i)) (h_name (backup_hosts c ! j)))"
proof -
  have "distinct (map h_name (filter (\<lambda>h. host_selected h PurposeBackup) (map snd (c_hosts c))))"
    using assms by (simp add: distinct_map_filter)
  from foldr_insert_host [OF this] show ?thesis
    unfolding backup_hosts_def [symmetric] by (simp add: sorted_wrt_iff_nth_less order_host_iff)
qed

lemma backup_hosts_by_priority_witness: "length (backup_hosts sample_backup_conf) = 1"
proof -
  have "distinct (map (h_name \<circ> snd) (c_hosts sample_backup_conf))"
    "length (filter (\<lambda>h. host_selected h PurposeBackup) (map snd (c_hosts sample_backup_conf))) = 1"
    by code_simp+
  then show ?thesis using backup_hosts_by_priority [of sample_backup_conf] by (metis size_mset)
qed

end
