(* ===== verification/Directives.thy ===== *)
theory Directives
  imports Policies
begin

unbundle bit_operations_syntax

text \<open>
  The directives of the configuration file: \<^verbatim>\<open>src/Indent.cc\<close>, \<^verbatim>\<open>src/ConfDirective.h\<close>,
  \<^verbatim>\<open>src/ConfDirective.cc\<close>, and the parts of \<^verbatim>\<open>src/Color.cc\<close> and
  \<^verbatim>\<open>src/ColorStrategy.cc\<close> they call.  A pointer to the current host or volume is its name in the
  configuration, and dereferencing the null pointer (or reading past the end of the words of the line) is
  \<open>UndefinedBehaviour\<close>.
\<close>

section \<open>Indentation\<close>

record indenter =
  in_stack :: "nat list"
  in_new_level :: nat

definition new_indenter :: indenter where
  "new_indenter = \<lparr>in_stack = [0], in_new_level = 0\<rparr>"

text \<open>The index of the first entry equal to the indent.\<close>

fun index_of :: "nat \<Rightarrow> nat list \<Rightarrow> nat option" where
  "index_of x [] = None"
| "index_of x (y # ys) = (if y = x then Some 0 else map_option Suc (index_of x ys))"

definition indent_check :: "nat \<Rightarrow> nat \<Rightarrow> indenter \<Rightarrow> nat \<times> indenter" where
  "indent_check acceptable depth ind =
     (case index_of depth (in_stack ind) of
        Some i \<Rightarrow> (2 ^ i AND acceptable, ind\<lparr>in_stack := take (i + 1) (in_stack ind), in_new_level := 0\<rparr>)
      | None \<Rightarrow>
          if in_new_level ind \<noteq> 0 \<and> depth > last (in_stack ind)
          then (in_new_level ind AND acceptable, ind\<lparr>in_stack := in_stack ind @ [depth], in_new_level := 0\<rparr>)
          else (0, ind))"

definition indent_introduce :: "nat \<Rightarrow> indenter \<Rightarrow> indenter" where
  "indent_introduce new_level ind = ind\<lparr>in_new_level := new_level\<rparr>"

section \<open>The context\<close>

definition LEVEL_TOP :: nat where "LEVEL_TOP = 1"
definition LEVEL_HOST :: nat where "LEVEL_HOST = 2"
definition LEVEL_VOLUME :: nat where "LEVEL_VOLUME = 4"

datatype conf_node = ConfNode | HostNode | VolumeNode

record ctx =
  cc_conf :: conf
  cc_context :: conf_node
  cc_host :: "string option"
  cc_volume :: "string option"
  cc_bits :: "string list"
  cc_location :: location

definition new_ctx :: "conf \<Rightarrow> string \<Rightarrow> ctx" where
  "new_ctx c path = \<lparr>cc_conf = c, cc_context = ConfNode, cc_host = None, cc_volume = None, cc_bits = [],
     cc_location = \<lparr>loc_path = path, loc_line = 0\<rparr>\<rparr>"

text \<open>What the directives need of the outside: \<open>strtod\<close> and \<open>globFiles\<close> with \<open>GLOB_NOCHECK\<close>.\<close>

record conf_env =
  env_strtod :: strtod_fun
  env_glob :: "string \<Rightarrow> string list result"

text \<open>\<open>cc.bits[n]\<close>.\<close>

definition arg :: "nat \<Rightarrow> ctx \<Rightarrow> string result" where
  "arg n cc = (if n < length (cc_bits cc) then Inr (cc_bits cc ! n) else Inl UndefinedBehaviour)"

text \<open>An update of the part that a host or volume shares with the configuration.\<close>

definition on_base :: "(conf_base \<Rightarrow> conf_base) \<Rightarrow> 'a conf_base_scheme \<Rightarrow> 'a conf_base_scheme" where
  "on_base f r = conf_base.extend (f (conf_base.truncate r)) (conf_base.more r)"

definition on_conf :: "(conf \<Rightarrow> conf) \<Rightarrow> ctx \<Rightarrow> ctx result" where
  "on_conf f cc = Inr (cc\<lparr>cc_conf := f (cc_conf cc)\<rparr>)"

definition on_host :: "(host \<Rightarrow> host) \<Rightarrow> ctx \<Rightarrow> ctx result" where
  "on_host f cc =
     (case cc_host cc of None \<Rightarrow> Inl UndefinedBehaviour
      | Some h \<Rightarrow> Inr (cc\<lparr>cc_conf := update_host h f (cc_conf cc)\<rparr>))"

definition on_volume :: "(volume \<Rightarrow> volume) \<Rightarrow> ctx \<Rightarrow> ctx result" where
  "on_volume f cc =
     (case (cc_host cc, cc_volume cc) of
        (Some h, Some v) \<Rightarrow> Inr (cc\<lparr>cc_conf := update_volume h v f (cc_conf cc)\<rparr>)
      | _ \<Rightarrow> Inl UndefinedBehaviour)"

definition on_context :: "(conf_base \<Rightarrow> conf_base) \<Rightarrow> ctx \<Rightarrow> ctx result" where
  "on_context f cc =
     (case cc_context cc of ConfNode \<Rightarrow> on_conf (on_base f) cc | HostNode \<Rightarrow> on_host (on_base f) cc
      | VolumeNode \<Rightarrow> on_volume (on_base f) cc)"

section \<open>Directives\<close>

datatype dir_kind = AnyDirective | HostOnlyDirective | VolumeOnlyDirective | ColorDirective | ParameterDirective

datatype dir_action = Set "conf_env \<Rightarrow> ctx \<Rightarrow> ctx result" | Include

record directive =
  dir_name :: string
  dir_min :: int
  dir_max :: int
  dir_levels :: nat
  dir_new_level :: nat
  dir_kind :: dir_kind
  dir_set :: dir_action

text \<open>\<open>ConfDirective::check\<close>; the warning about deprecated aliases is not kept (there are no aliases).\<close>

definition check_arguments :: "directive \<Rightarrow> ctx \<Rightarrow> unit result" where
  "check_arguments d cc =
     (let args = int (length (cc_bits cc)) - 1
      in if args < dir_min d then Inl (SyntaxError (''too few arguments to '' @ quoted (dir_name d)))
         else if args > dir_max d then Inl (SyntaxError (''too many arguments to '' @ quoted (dir_name d)))
         else Inr ())"

definition check_color :: "directive \<Rightarrow> ctx \<Rightarrow> unit result" where
  "check_color d cc =
     (let args = int (length (cc_bits cc)) - 1
      in if 1 < args \<and> args < 4 then Inl (SyntaxError (''wrong number of arguments to '' @ quoted (dir_name d)))
         else if args = 4 then
           rbind (arg 1 cc) (\<lambda>r. if r = ''rgb'' \<or> r = ''hsv'' then Inr ()
             else Inl (SyntaxError (''invalid color representation '' @ quoted r)))
         else Inr ())"

definition check_parameter :: "directive \<Rightarrow> ctx \<Rightarrow> unit result" where
  "check_parameter d cc =
     rbind (arg 1 cc) (\<lambda>a. rbind (if a \<noteq> ''--remove'' then Inr a else arg 2 cc) (\<lambda>n.
       if \<not> valid_name ''-'' n then Inl (SyntaxError (''invalid '' @ dir_name d @ '' name'')) else Inr ()))"

definition dir_check :: "directive \<Rightarrow> ctx \<Rightarrow> unit result" where
  "dir_check d cc =
     (case dir_kind d of
        AnyDirective \<Rightarrow> check_arguments d cc
      | HostOnlyDirective \<Rightarrow>
          if cc_host cc = None then Inl (SyntaxError (quoted (dir_name d) @ '' command without '' @ quoted ''host''))
          else if cc_volume cc \<noteq> None \<and> dir_levels d AND LEVEL_VOLUME = 0
          then Inl (SyntaxError (quoted (dir_name d) @ '' inside '' @ quoted ''volume''))
          else check_arguments d cc
      | VolumeOnlyDirective \<Rightarrow>
          if cc_volume cc = None then Inl (SyntaxError (quoted (dir_name d) @ '' command without '' @ quoted ''volume''))
          else check_arguments d cc
      | ColorDirective \<Rightarrow> rbind (check_arguments d cc) (\<lambda>_. check_color d cc)
      | ParameterDirective \<Rightarrow> rbind (check_arguments d cc) (\<lambda>_. check_parameter d cc))"

section \<open>Arguments\<close>

text \<open>The ways a value is read from the words of the line.\<close>

type_synonym 'a getter = "conf_env \<Rightarrow> ctx \<Rightarrow> 'a result"

definition get_string :: "string getter" where
  "get_string env = arg 1"

definition get_words :: "string list getter" where
  "get_words env cc = Inr (tl (cc_bits cc))"

definition get_interval :: "int getter" where
  "get_interval env cc = rbind (arg 1 cc) (\<lambda>s. rbind (parseTimeInterval s INT_MAX) (\<lambda>n. Inr (to_int32 n)))"

definition get_integer :: "int \<Rightarrow> int \<Rightarrow> int getter" where
  "get_integer mn mx env cc = rbind (arg 1 cc) (\<lambda>s. parseInteger s mn mx 0)"

definition get_float :: "(real \<Rightarrow> bool) \<Rightarrow> real getter" where
  "get_float P env cc = rbind (arg 1 cc) (\<lambda>s. parseFloat (env_strtod env) s P)"

definition get_boolean :: "string \<Rightarrow> bool getter" where
  "get_boolean n env cc =
     (if length (cc_bits cc) = 1 then Inr True
      else rbind (arg 1 cc) (\<lambda>s.
        if s = ''true'' then Inr True else if s = ''false'' then Inr False
        else Inl (SyntaxError (''invalid argument to '' @ quoted n @ '' - only '' @ quoted ''true'' @ '' or '' @
               quoted ''false'' @ '' allowed''))))"

definition extend_words :: "ctx \<Rightarrow> string list \<Rightarrow> string list result" where
  "extend_words cc xs = rbind (arg 1 cc) (\<lambda>a. Inr (if a = ''+'' then xs @ drop 2 (cc_bits cc) else tl (cc_bits cc)))"

text \<open>A directive that reads a value and puts it into the configuration, the current node, or the host or volume.\<close>

definition set_conf :: "'a getter \<Rightarrow> ('a \<Rightarrow> conf \<Rightarrow> conf) \<Rightarrow> dir_action" where
  "set_conf get f = Set (\<lambda>env cc. rbind (get env cc) (\<lambda>x. on_conf (f x) cc))"

definition set_context :: "'a getter \<Rightarrow> ('a \<Rightarrow> conf_base \<Rightarrow> conf_base) \<Rightarrow> dir_action" where
  "set_context get f = Set (\<lambda>env cc. rbind (get env cc) (\<lambda>x. on_context (f x) cc))"

definition set_host :: "'a getter \<Rightarrow> ('a \<Rightarrow> host \<Rightarrow> host) \<Rightarrow> dir_action" where
  "set_host get f = Set (\<lambda>env cc. rbind (get env cc) (\<lambda>x. on_host (f x) cc))"

definition set_volume :: "'a getter \<Rightarrow> ('a \<Rightarrow> volume \<Rightarrow> volume) \<Rightarrow> dir_action" where
  "set_volume get f = Set (\<lambda>env cc. rbind (get env cc) (\<lambda>x. on_volume (f x) cc))"

section \<open>Colours\<close>

text \<open>\<open>fmod\<close>: the remainder of the truncated quotient.\<close>

definition fmod :: "real \<Rightarrow> real \<Rightarrow> real" where
  "fmod x y = x - y * of_int (if x / y < 0 then \<lceil>x / y\<rceil> else \<lfloor>x / y\<rfloor>)"

definition HSV :: "real \<Rightarrow> real \<Rightarrow> real \<Rightarrow> color" where
  "HSV h s v =
     (let h = fmod h 360; c = v * s; hp = h / 60; x = c * (1 - \<bar>fmod hp 2 - 1\<bar>);
          (r1, g1, b1) =
            (if hp < 1 then (c, x, 0) else if hp < 2 then (x, c, 0) else if hp < 3 then (0, c, x)
             else if hp < 4 then (0, x, c) else if hp < 5 then (x, 0, c) else (c, 0, x));
          m = v - c
      in Color (r1 + m) (g1 + m) (b1 + m))"

definition unit_range :: "real \<Rightarrow> bool" where
  "unit_range n \<longleftrightarrow> 0 \<le> n \<and> n \<le> 1"

definition get_color :: "color getter" where
  "get_color env cc =
     (let args = length (cc_bits cc) - 1; float = (\<lambda>n P. rbind (arg n cc) (\<lambda>s. parseFloat (env_strtod env) s P))
      in if args = 4
         then rbind (arg 1 cc) (\<lambda>rep.
           if rep = ''rgb'' then
             rbind (float 2 unit_range) (\<lambda>r. rbind (float 3 unit_range) (\<lambda>g. rbind (float 4 unit_range) (\<lambda>b. Inr (Color r g b))))
           else
             rbind (float 2 (\<lambda>_. True)) (\<lambda>h. rbind (float 3 unit_range) (\<lambda>s. rbind (float 4 unit_range) (\<lambda>v. Inr (HSV h s v)))))
         else rbind (arg 1 cc) (\<lambda>s. rbind (parseInteger s 0 0xFFFFFF 0) (\<lambda>n. Inr (color_of_rgb n))))"

text \<open>\<open>params[pos++]\<close> as long as there are parameters.\<close>

fun take_parameters :: "strtod_fun \<Rightarrow> string list \<Rightarrow> (real \<times> (real \<Rightarrow> bool)) list \<Rightarrow> (real list \<times> string list) result" where
  "take_parameters strtod ps [] = Inr ([], ps)"
| "take_parameters strtod [] ((d, _) # ds) = rbind (take_parameters strtod [] ds) (\<lambda>(xs, ps). Inr (d # xs, ps))"
| "take_parameters strtod (p # ps) ((_, P) # ds) =
     rbind (parseFloat strtod p P) (\<lambda>x. rbind (take_parameters strtod ps ds) (\<lambda>(xs, ps). Inr (x # xs, ps)))"

definition ColorStrategy_create :: "strtod_fun \<Rightarrow> string \<Rightarrow> string list \<Rightarrow> color_strategy result" where
  "ColorStrategy_create strtod name ps =
     (if name = ''equidistant-hue'' then
        rbind (take_parameters strtod ps [(0, \<lambda>_. True), (1, unit_range), (1, unit_range)]) (\<lambda>(xs, rest).
          if rest \<noteq> [] then Inl (SyntaxError (''too many parameters for color strategy '' @ quoted name))
          else Inr (EquidistantHue (fmod (xs ! 0) 360) (xs ! 1) (xs ! 2)))
      else if name = ''equidistant-value'' then
        rbind (take_parameters strtod ps [(0, \<lambda>_. True), (1, unit_range), (0, unit_range), (1, unit_range)]) (\<lambda>(xs, rest).
          if xs ! 2 \<ge> xs ! 3 then Inl (SyntaxError (''inconsistent parameters for color strategy '' @ quoted name))
          else if rest \<noteq> [] then Inl (SyntaxError (''too many parameters for color strategy '' @ quoted name))
          else Inr (EquidistantValue (fmod (xs ! 0) 360) (xs ! 1) (xs ! 2) (xs ! 3)))
      else Inl (SyntaxError (''unrecognized color strategy '' @ quoted name)))"

text \<open>\<open>None\<close> for a colour that is not a number: with a single item the value is 0 divided by 0.\<close>

definition strategy_color :: "color_strategy \<Rightarrow> int \<Rightarrow> int \<Rightarrow> color option" where
  "strategy_color cs n items =
     (case cs of
        EquidistantHue h s v \<Rightarrow> if items = 0 then None else Some (HSV (h + 360 * of_int n / of_int items) s v)
      | EquidistantValue h s lo hi \<Rightarrow>
          if items = 1 then None else Some (HSV h s (lo + of_int n / of_int (items - 1) * (hi - lo))))"

section \<open>The tables\<close>

definition D :: "string \<Rightarrow> int \<Rightarrow> int \<Rightarrow> dir_action \<Rightarrow> directive" where
  "D n mn mx act = \<lparr>dir_name = n, dir_min = mn, dir_max = mx, dir_levels = LEVEL_TOP, dir_new_level = 0,
     dir_kind = AnyDirective, dir_set = act\<rparr>"

definition inheritable :: "string \<Rightarrow> int \<Rightarrow> int \<Rightarrow> dir_action \<Rightarrow> directive" where
  "inheritable n mn mx act = (D n mn mx act)\<lparr>dir_levels := LEVEL_TOP OR LEVEL_HOST OR LEVEL_VOLUME\<rparr>"

definition host_only :: "string \<Rightarrow> int \<Rightarrow> int \<Rightarrow> dir_action \<Rightarrow> directive" where
  "host_only n mn mx act = (D n mn mx act)\<lparr>dir_levels := LEVEL_HOST, dir_kind := HostOnlyDirective\<rparr>"

definition volume_only :: "string \<Rightarrow> int \<Rightarrow> int \<Rightarrow> dir_action \<Rightarrow> directive" where
  "volume_only n mn mx act = (D n mn mx act)\<lparr>dir_levels := LEVEL_VOLUME, dir_kind := VolumeOnlyDirective\<rparr>"

definition color_directive :: "string \<Rightarrow> (color \<Rightarrow> conf \<Rightarrow> conf) \<Rightarrow> directive" where
  "color_directive n f = (D n 1 4 (set_conf get_color f))\<lparr>dir_kind := ColorDirective\<rparr>"

text \<open>\<open>parseStoreArguments\<close> on the words after the first: whether the store must be mounted, and its path.\<close>

fun parseStoreArguments :: "bool \<Rightarrow> string list \<Rightarrow> (bool \<times> string) result" where
  "parseStoreArguments mounted [] = Inl (SyntaxError ''missing store path'')"
| "parseStoreArguments mounted (b # bs) =
     (if b \<noteq> [] \<and> hd b = CHR ''-'' then
        if b = ''--mounted'' then parseStoreArguments True bs
        else if b = ''--no-mounted'' then parseStoreArguments False bs
        else Inl (SyntaxError ''unrecognized store option'')
      else Inr (mounted, b))"

definition put_store :: "bool \<Rightarrow> string \<Rightarrow> conf \<Rightarrow> conf" where
  "put_store mounted path c = c\<lparr>c_stores := om_put namelt path (new_store path mounted) (c_stores c)\<rparr>"

definition store_directives :: "directive list" where
  "store_directives =
     [D ''store'' 1 INT_MAX (set_conf (\<lambda>env cc. parseStoreArguments True (tl (cc_bits cc))) (\<lambda>(mounted, path). put_store mounted path)),
      D ''store-pattern'' 1 INT_MAX
        (set_conf (\<lambda>env cc. rbind (parseStoreArguments True (tl (cc_bits cc))) (\<lambda>(mounted, pat).
             rbind (env_glob env pat) (\<lambda>files. Inr (mounted, files))))
           (\<lambda>(mounted, files) c. foldl (\<lambda>c f. put_store mounted f c) c files))]"

definition global_directives :: "directive list" where
  "global_directives =
     [D ''stylesheet'' 1 1 (set_conf get_string (\<lambda>x. c_stylesheet_update (\<lambda>_. x))),
      color_directive ''color-good'' (\<lambda>x. c_colorGood_update (\<lambda>_. x)),
      color_directive ''color-bad'' (\<lambda>x. c_colorBad_update (\<lambda>_. x)),
      D ''device'' 1 1 (set_conf get_string (\<lambda>x c. c\<lparr>c_devices := om_put namelt x (new_device x) (c_devices c)\<rparr>)),
      D ''max-usage'' 1 1 (set_conf (get_integer 0 100) (\<lambda>x. c_maxUsage_update (\<lambda>_. x))),
      D ''max-file-usage'' 1 1 (set_conf (get_integer 0 100) (\<lambda>x. c_maxFileUsage_update (\<lambda>_. x))),
      D ''public'' 1 1 (set_conf (get_boolean ''public'') (\<lambda>x. c_publicStores_update (\<lambda>_. x))),
      D ''logs'' 1 1 (set_conf get_string (\<lambda>x. c_logs_update (\<lambda>_. x))),
      D ''database'' 1 1 (set_conf get_string (\<lambda>x. c_database_update (\<lambda>_. x))),
      D ''lock'' 1 1 (set_conf get_string (\<lambda>x. c_lock_update (\<lambda>_. x))),
      D ''sendmail'' 1 1 (set_conf get_string (\<lambda>x. c_sendmail_update (\<lambda>_. x))),
      D ''rm'' 1 1 (set_conf get_string (\<lambda>x. c_rm_update (\<lambda>_. x))),
      D ''pre-device-hook'' 1 INT_MAX (set_conf get_words (\<lambda>x. c_preDevice_update (\<lambda>_. x))),
      D ''post-device-hook'' 1 INT_MAX (set_conf get_words (\<lambda>x. c_postDevice_update (\<lambda>_. x))),
      D ''keep-prune-logs'' 1 1 (set_conf get_interval (\<lambda>x. c_keepPruneLogs_update (\<lambda>_. x))),
      D ''prune-timeout'' 1 1 (set_conf get_interval (\<lambda>x. c_pruneTimeout_update (\<lambda>_. x))),
      D ''include'' 1 1 Include]"

text \<open>\<open>std::numeric_limits<double>::min()\<close>, the least positive normal number.\<close>

definition DBL_MIN :: real where
  "DBL_MIN = 1 / 2 ^ 1022"

definition graph_directives :: "directive list" where
  "graph_directives =
     [color_directive ''color-graph-background'' (\<lambda>x. c_colorGraphBackground_update (\<lambda>_. x)),
      color_directive ''color-graph-foreground'' (\<lambda>x. c_colorGraphForeground_update (\<lambda>_. x)),
      color_directive ''color-month-guide'' (\<lambda>x. c_colorMonthGuide_update (\<lambda>_. x)),
      color_directive ''color-host-guide'' (\<lambda>x. c_colorHostGuide_update (\<lambda>_. x)),
      color_directive ''color-volume-guide'' (\<lambda>x. c_colorVolumeGuide_update (\<lambda>_. x)),
      D ''device-color-strategy'' 1 INT_MAX
        (set_conf (\<lambda>env cc. rbind (arg 1 cc) (\<lambda>n. ColorStrategy_create (env_strtod env) n (drop 2 (cc_bits cc))))
           (\<lambda>x. c_deviceColorStrategy_update (\<lambda>_. x))),
      D ''horizontal-padding'' 0 INT_MAX (set_conf (get_float (\<lambda>n. 0 \<le> n)) (\<lambda>x. c_horizontalPadding_update (\<lambda>_. x))),
      D ''vertical-padding'' 0 INT_MAX (set_conf (get_float (\<lambda>n. 0 \<le> n)) (\<lambda>x. c_verticalPadding_update (\<lambda>_. x))),
      D ''backup-indicator-width'' 0 INT_MAX
        (set_conf (get_float (\<lambda>n. DBL_MIN \<le> n)) (\<lambda>x. c_backupIndicatorWidth_update (\<lambda>_. x))),
      D ''backup-indicator-height'' 0 INT_MAX
        (set_conf (get_float (\<lambda>n. DBL_MIN \<le> n)) (\<lambda>x. c_backupIndicatorHeight_update (\<lambda>_. x))),
      D ''graph-target-width'' 0 INT_MAX (set_conf (get_float (\<lambda>n. 0 \<le> n)) (\<lambda>x. c_graphTargetWidth_update (\<lambda>_. x))),
      D ''backup-indicator-key-width'' 0 INT_MAX
        (set_conf (get_float (\<lambda>n. DBL_MIN \<le> n)) (\<lambda>x. c_backupIndicatorKeyWidth_update (\<lambda>_. x))),
      D ''host-name-font'' 1 1 (set_conf get_string (\<lambda>x. c_hostNameFont_update (\<lambda>_. x))),
      D ''volume-name-font'' 1 1 (set_conf get_string (\<lambda>x. c_volumeNameFont_update (\<lambda>_. x))),
      D ''device-name-font'' 1 1 (set_conf get_string (\<lambda>x. c_deviceNameFont_update (\<lambda>_. x))),
      D ''time-label-font'' 1 1 (set_conf get_string (\<lambda>x. c_timeLabelFont_update (\<lambda>_. x))),
      D ''report'' 0 INT_MAX (set_conf (\<lambda>env cc. extend_words cc (c_report (cc_conf cc))) (\<lambda>x. c_report_update (\<lambda>_. x))),
      D ''graph-layout'' 0 INT_MAX
        (set_conf (\<lambda>env cc. extend_words cc (c_graphLayout (cc_conf cc))) (\<lambda>x. c_graphLayout_update (\<lambda>_. x)))]"

text \<open>The parameters of the policies: a pair of the words, or only a name to be removed.\<close>

definition get_parameter_words :: "(string \<times> policy_parameter option) getter" where
  "get_parameter_words env cc =
     rbind (arg 1 cc) (\<lambda>a. rbind (arg 2 cc) (\<lambda>b.
       Inr (if a \<noteq> ''--remove'' then (a, Some \<lparr>pp_value = b, pp_location = cc_location cc\<rparr>) else (b, None))))"

definition put_parameter :: "string \<times> policy_parameter option \<Rightarrow> parameters \<Rightarrow> parameters" where
  "put_parameter x m = (case snd x of Some p \<Rightarrow> om_put str_less (fst x) p m | None \<Rightarrow> om_erase str_less (fst x) m)"

definition put_prune_policy :: "string \<times> location \<Rightarrow> conf_base \<Rightarrow> conf_base" where
  "put_prune_policy x b =
     (let (s, l) = x
      in if s \<noteq> [] \<and> hd s = CHR ''/''
         then b\<lparr>prunePolicy := ''exec'',
                pruneParameters := om_put str_less ''path'' \<lparr>pp_value = s, pp_location = l\<rparr> (pruneParameters b)\<rparr>
         else b\<lparr>prunePolicy := s\<rparr>)"

definition policy_directives :: "directive list" where
  "policy_directives =
     [inheritable ''max-age'' 1 1 (set_context get_interval (\<lambda>x. maxAge_update (\<lambda>_. x))),
      inheritable ''backup-policy'' 1 1 (set_context get_string (\<lambda>x. backupPolicy_update (\<lambda>_. x))),
      (inheritable ''backup-parameter'' 2 2 (set_context get_parameter_words (\<lambda>x. backupParameters_update (put_parameter x))))
        \<lparr>dir_kind := ParameterDirective\<rparr>,
      inheritable ''prune-policy'' 1 1
        (set_context (\<lambda>env cc. rbind (arg 1 cc) (\<lambda>s. Inr (s, cc_location cc))) put_prune_policy),
      (inheritable ''prune-parameter'' 2 2 (set_context get_parameter_words (\<lambda>x. pruneParameters_update (put_parameter x))))
        \<lparr>dir_kind := ParameterDirective\<rparr>,
      inheritable ''pre-volume-hook'' 0 INT_MAX (set_context get_words (\<lambda>x. preVolume_update (\<lambda>_. x))),
      inheritable ''post-volume-hook'' 0 INT_MAX (set_context get_words (\<lambda>x. postVolume_update (\<lambda>_. x)))]"

definition get_host_check :: "string list getter" where
  "get_host_check env cc =
     rbind (arg 1 cc) (\<lambda>s.
       if s = ''ssh'' \<or> s = ''always-up'' then
         if length (cc_bits cc) \<noteq> 2 then Inl (SyntaxError ''invalid host-check syntax'') else Inr (tl (cc_bits cc))
       else if s = ''command'' then Inr (tl (cc_bits cc))
       else Inl (SyntaxError ''unrecognized host-check type''))"

definition get_backup_time :: "(int \<times> int) getter" where
  "get_backup_time env cc =
     rbind (arg 1 cc) (\<lambda>s.
       if CHR ''-'' \<notin> set s then Inl (SyntaxError ''expected EARLIEST-LATEST'')
       else rbind (parseTimeOfDay (takeWhile (\<lambda>c. c \<noteq> CHR ''-'') s)) (\<lambda>e.
            rbind (parseTimeOfDay (tl (dropWhile (\<lambda>c. c \<noteq> CHR ''-'') s))) (\<lambda>l.
              let l = (if l = 0 then 86400 else l)
              in if e > l
                 then Inl (SyntaxError (''earliest backup time ('' @ formatTimeOfDay e @ '') is later than latest backup time ('' @
                        formatTimeOfDay l @ '')''))
                 else Inr (e, l))))"

definition inheritable_directives :: "directive list" where
  "inheritable_directives =
     [inheritable ''backup-job-timeout'' 1 1 (set_context get_interval (\<lambda>x. backupJobTimeout_update (\<lambda>_. x))),
      inheritable ''rsync-io-timeout'' 1 1 (set_context get_interval (\<lambda>x. rsyncIOTimeout_update (\<lambda>_. x))),
      inheritable ''hook-timeout'' 1 1 (set_context get_interval (\<lambda>x. hookTimeout_update (\<lambda>_. x))),
      (inheritable ''host-check'' 1 INT_MAX (set_context get_host_check (\<lambda>x. hostCheck_update (\<lambda>_. x))))
        \<lparr>dir_levels := LEVEL_TOP OR LEVEL_HOST\<rparr>,
      inheritable ''ssh-timeout'' 1 1 (set_context get_interval (\<lambda>x. sshTimeout_update (\<lambda>_. x))),
      inheritable ''rsync-command'' 1 1 (set_context get_string (\<lambda>x. rsyncCommand_update (\<lambda>_. x))),
      inheritable ''rsync-link-dest'' 1 1 (set_context (get_boolean ''rsync-link-dest'') (\<lambda>x. rsyncLinkDest_update (\<lambda>_. x))),
      inheritable ''rsync-base-options'' 1 INT_MAX (set_context get_words (\<lambda>x. rsyncBaseOptions_update (\<lambda>_. x))),
      inheritable ''rsync-extra-options'' 0 INT_MAX (set_context get_words (\<lambda>x. rsyncExtraOptions_update (\<lambda>_. x))),
      inheritable ''rsync-remote'' 1 1 (set_context get_string (\<lambda>x. rsyncRemote_update (\<lambda>_. x))),
      inheritable ''backup-time'' 1 1 (set_context get_backup_time (\<lambda>(e, l) b. b\<lparr>earliest := e, latest := l\<rparr>)),
      inheritable ''group'' 1 1 (set_context get_string (\<lambda>x. group_update (\<lambda>_. x)))]"

text \<open>\<open>host\<close> and \<open>volume\<close> make new objects and change the context.\<close>

definition host_set :: "conf_env \<Rightarrow> ctx \<Rightarrow> ctx result" where
  "host_set env cc =
     rbind (arg 1 cc) (\<lambda>n.
       if \<not> host_valid n then Inl (SyntaxError ''invalid host name'')
       else if findHost n (cc_conf cc) \<noteq> None then Inl (SyntaxError ''duplicate host'')
       else Inr (cc\<lparr>cc_conf := addHost (new_host (cc_conf cc) n) (cc_conf cc), cc_context := HostNode,
                    cc_host := Some n, cc_volume := None\<rparr>))"

definition volume_set :: "conf_env \<Rightarrow> ctx \<Rightarrow> ctx result" where
  "volume_set env cc =
     rbind (arg 1 cc) (\<lambda>n.
       if \<not> volume_valid n then Inl (SyntaxError ''invalid volume name'')
       else case cc_host cc of
              None \<Rightarrow> Inl UndefinedBehaviour
            | Some hn \<Rightarrow>
                (case findHost hn (cc_conf cc) of
                   None \<Rightarrow> Inl UndefinedBehaviour
                 | Some h \<Rightarrow>
                     if host_findVolume n h \<noteq> None then Inl (SyntaxError ''duplicate volume'')
                     else rbind (arg 2 cc) (\<lambda>path.
                            Inr (cc\<lparr>cc_conf := update_host hn (addVolume (new_volume h n path)) (cc_conf cc),
                                    cc_context := VolumeNode, cc_volume := Some n\<rparr>))))"

definition host_directives :: "directive list" where
  "host_directives =
     [(D ''host'' 1 1 (Set host_set))\<lparr>dir_new_level := LEVEL_HOST\<rparr>,
      host_only ''hostname'' 1 1 (set_host get_string (\<lambda>x. h_hostname_update (\<lambda>_. x))),
      host_only ''priority'' 1 1 (set_host (get_integer INT_MIN INT_MAX) (\<lambda>x. h_priority_update (\<lambda>_. x))),
      host_only ''user'' 1 1 (set_host get_string (\<lambda>x. h_user_update (\<lambda>_. x))),
      (host_only ''devices'' 1 1 (set_context get_string (\<lambda>x. devicePattern_update (\<lambda>_. x))))
        \<lparr>dir_levels := LEVEL_HOST OR LEVEL_VOLUME\<rparr>]"

definition volume_directives :: "directive list" where
  "volume_directives =
     [(host_only ''volume'' 2 2 (Set volume_set))\<lparr>dir_new_level := LEVEL_VOLUME\<rparr>,
      volume_only ''exclude'' 1 1 (set_volume get_string (\<lambda>x. v_exclude_update (\<lambda>xs. xs @ [x]))),
      volume_only ''traverse'' 0 1 (set_volume (get_boolean ''traverse'') (\<lambda>x. v_traverse_update (\<lambda>_. x))),
      volume_only ''check-file'' 1 1 (set_volume get_string (\<lambda>x. v_checkFile_update (\<lambda>_. x))),
      volume_only ''check-mounted'' 1 1 (set_volume (get_boolean ''check-mounted'') (\<lambda>x. v_checkMounted_update (\<lambda>_. x)))]"

definition directives :: "directive list" where
  "directives = store_directives @ global_directives @ graph_directives @ policy_directives @ inheritable_directives @
     host_directives @ volume_directives"

definition find_directive :: "string \<Rightarrow> directive option" where
  "find_directive n = find (\<lambda>d. dir_name d = n) directives"

end
