(* ===== verification/ConfRead.thy ===== *)
theory ConfRead
  imports Directives ConfText
begin

text \<open>
  Reading the configuration: \<open>readOneFile\<close>, \<open>includeFile\<close> and \<open>validate\<close> of
  \<^verbatim>\<open>src/Conf.cc\<close> and \<open>readline\<close> of \<^verbatim>\<open>src/IO.cc\<close>.  The file system is an
  argument.  A file may include itself, so reading has fuel: the depth to which files may be nested; the
  program has its stack for that.
\<close>

section \<open>Lines and files\<close>

text \<open>The lines that \<open>readline\<close> finds in a file: the last one need not be terminated.\<close>

fun lines_from :: "string \<Rightarrow> string \<Rightarrow> string list" where
  "lines_from line [] = (if line \<noteq> [] then [line] else [])"
| "lines_from line (c # cs) = (if c = LF then line # lines_from [] cs else lines_from (line @ [c]) cs)"

definition file_lines :: "string \<Rightarrow> string list" where
  "file_lines = lines_from []"

record file_system =
  fs_is_directory :: "string \<Rightarrow> bool result"
  fs_is_regular :: "string \<Rightarrow> bool result"
  fs_entries :: "string \<Rightarrow> string list result"
  fs_read :: "string \<Rightarrow> string result"

type_synonym reader = "string \<Rightarrow> conf \<Rightarrow> conf result option"

text \<open>A loop whose body may fail or not return.\<close>

fun loop_option :: "('s \<Rightarrow> 'a \<Rightarrow> 's result option) \<Rightarrow> 's \<Rightarrow> 'a list \<Rightarrow> 's result option" where
  "loop_option f s [] = Some (Inr s)"
| "loop_option f s (x # xs) =
     (case f s x of None \<Rightarrow> None | Some (Inl e) \<Rightarrow> Some (Inl e) | Some (Inr s') \<Rightarrow> loop_option f s' xs)"

section \<open>A line\<close>

text \<open>The context that the level of a line selects.\<close>

definition select_level :: "nat \<Rightarrow> ctx \<Rightarrow> ctx result" where
  "select_level level cc =
     (if level = 0 then Inl (SyntaxError ''inconsistent indentation'')
      else if level = LEVEL_TOP then Inr (cc\<lparr>cc_context := ConfNode, cc_host := None, cc_volume := None\<rparr>)
      else if level = LEVEL_HOST then Inr (cc\<lparr>cc_context := HostNode, cc_volume := None\<rparr>)
      else if level = LEVEL_VOLUME then Inr (cc\<lparr>cc_context := VolumeNode\<rparr>)
      else Inl (LogicError ''unexpected indent level''))"

definition run_action :: "conf_env \<Rightarrow> reader \<Rightarrow> dir_action \<Rightarrow> ctx \<Rightarrow> ctx result option" where
  "run_action env inc act cc =
     (case act of
        Set f \<Rightarrow> Some (f env cc)
      | Include \<Rightarrow>
          (case arg 1 cc of
             Inl e \<Rightarrow> Some (Inl e)
           | Inr path \<Rightarrow> map_option (\<lambda>r. rbind r (\<lambda>c. Inr (cc\<lparr>cc_conf := c\<rparr>))) (inc path (cc_conf cc))))"

definition read_directive ::
    "conf_env \<Rightarrow> reader \<Rightarrow> nat \<Rightarrow> directive \<Rightarrow> ctx \<times> indenter \<Rightarrow> (ctx \<times> indenter) result option" where
  "read_directive env inc depth d s =
     (let (cc, ind) = s; (level, ind) = indent_check (dir_levels d) depth ind
      in case rbind (select_level level cc) (\<lambda>cc. rbind (dir_check d cc) (\<lambda>_. Inr cc)) of
           Inl e \<Rightarrow> Some (Inl e)
         | Inr cc \<Rightarrow>
             map_option (\<lambda>r. rbind r (\<lambda>cc. Inr (cc, indent_introduce (dir_new_level d) ind)))
               (run_action env inc (dir_set d) cc))"

definition read_line ::
    "conf_env \<Rightarrow> reader \<Rightarrow> ctx \<times> indenter \<Rightarrow> string \<Rightarrow> (ctx \<times> indenter) result option" where
  "read_line env inc s line =
     (let (cc, ind) = s; loc = cc_location cc; loc = loc\<lparr>loc_line := loc_line loc + 1\<rparr>; cc = cc\<lparr>cc_location := loc\<rparr>
      in map_option (located loc)
           (case split line of
              None \<Rightarrow> None
            | Some (depth, Inl e) \<Rightarrow> Some (Inl e)
            | Some (depth, Inr bits) \<Rightarrow>
                let cc = cc\<lparr>cc_bits := bits\<rparr>
                in if bits = [] then Some (Inr (cc, ind))
                   else case find_directive (hd bits) of
                          None \<Rightarrow> Some (Inl (SyntaxError (''unknown command '' @ quoted (hd bits))))
                        | Some d \<Rightarrow> read_directive env inc depth d (cc, ind)))"

definition readOneFile :: "conf_env \<Rightarrow> file_system \<Rightarrow> reader \<Rightarrow> reader" where
  "readOneFile env fs inc path c =
     (case fs_read fs path of
        Inl e \<Rightarrow> Some (Inl e)
      | Inr content \<Rightarrow>
          map_option (\<lambda>r. rbind r (\<lambda>(cc, _). Inr (cc_conf cc)))
            (loop_option (read_line env inc) (new_ctx c path, new_indenter) (file_lines content)))"

definition included_name :: "string \<Rightarrow> bool" where
  "included_name n \<longleftrightarrow> n \<noteq> [] \<and> hd n \<noteq> CHR ''.'' \<and> hd n \<noteq> CHR ''#'' \<and> CHR ''~'' \<notin> set n"

definition include_entry :: "file_system \<Rightarrow> reader \<Rightarrow> string \<Rightarrow> conf \<Rightarrow> string \<Rightarrow> conf result option" where
  "include_entry fs rd path c n =
     (if \<not> included_name n then Some (Inr c)
      else case fs_is_regular fs (path @ ''/'' @ n) of
             Inl e \<Rightarrow> Some (Inl e)
           | Inr regular \<Rightarrow> if regular then rd (path @ ''/'' @ n) c else Some (Inr c))"

definition includeFile :: "file_system \<Rightarrow> reader \<Rightarrow> reader" where
  "includeFile fs rd path c =
     (case fs_is_directory fs path of
        Inl e \<Rightarrow> Some (Inl e)
      | Inr directory \<Rightarrow>
          if directory
          then case fs_entries fs path of
                 Inl e \<Rightarrow> Some (Inl e)
               | Inr names \<Rightarrow> loop_option (include_entry fs rd path) c (sort names)
          else rd path c)"

fun Conf_read :: "conf_env \<Rightarrow> file_system \<Rightarrow> nat \<Rightarrow> reader" where
  "Conf_read env fs 0 path c = None"
| "Conf_read env fs (Suc n) path c = readOneFile env fs (includeFile fs (Conf_read env fs n)) path c"

text \<open>\<open>Conf::validate\<close>: every volume's policies, in the order of the maps.\<close>

definition validate :: "strtod_fun \<Rightarrow> (string \<Rightarrow> bool) \<Rightarrow> conf \<Rightarrow> unit result" where
  "validate strtod executable c =
     fold_result (\<lambda>_ (_, h).
         fold_result (\<lambda>_ (_, v).
             rbind (rbind (find_backup_policy (backupPolicy v)) (\<lambda>p. validate_backup_policy p v)) (\<lambda>_.
               rbind (find_prune_policy (prunePolicy v)) (\<lambda>p. validate_prune_policy strtod executable p v)))
           () (h_volumes h))
       () (c_hosts c)"

end
