(* ===== verification/DirectiveSafety.thy ===== *)
theory DirectiveSafety
  imports Directives
begin

unbundle bit_operations_syntax

text \<open>
  Every directive of \<^verbatim>\<open>src/ConfDirective.cc\<close> keeps the configuration and the context of a
  line in order: the ranges of the values, the names, and the pointers to the current host and volume.
\<close>

section \<open>What a configuration satisfies\<close>

definition int_range :: "int \<Rightarrow> bool" where
  "int_range n \<longleftrightarrow> 0 \<le> n \<and> n \<le> INT_MAX"

definition host_check_ok :: "string list \<Rightarrow> bool" where
  "host_check_ok hc \<longleftrightarrow> hc = [''ssh''] \<or> hc = [''always-up''] \<or> (\<exists>cmd. hc = ''command'' # cmd)"

definition base_ok :: "'a conf_base_scheme \<Rightarrow> bool" where
  "base_ok b \<longleftrightarrow>
     int_range (maxAge b) \<and> int_range (backupJobTimeout b) \<and> int_range (rsyncIOTimeout b) \<and> int_range (sshTimeout b) \<and>
     int_range (hookTimeout b) \<and> host_check_ok (hostCheck b) \<and> 0 \<le> earliest b \<and> earliest b \<le> latest b \<and> latest b \<le> 86400"

definition volume_conf_ok :: "volume \<Rightarrow> bool" where
  "volume_conf_ok v \<longleftrightarrow> base_ok v \<and> volume_valid (v_name v)"

definition host_conf_ok :: "host \<Rightarrow> bool" where
  "host_conf_ok h \<longleftrightarrow>
     base_ok h \<and> host_valid (h_name h) \<and> INT_MIN \<le> h_priority h \<and> h_priority h \<le> INT_MAX \<and>
     (\<forall>(n, v) \<in> set (h_volumes h). volume_conf_ok v)"

definition strategy_ok :: "color_strategy \<Rightarrow> bool" where
  "strategy_ok cs \<longleftrightarrow>
     (case cs of EquidistantHue h s v \<Rightarrow> unit_range s \<and> unit_range v
      | EquidistantValue h s lo hi \<Rightarrow> unit_range s \<and> unit_range lo \<and> unit_range hi \<and> lo < hi)"

definition conf_ok :: "conf \<Rightarrow> bool" where
  "conf_ok c \<longleftrightarrow>
     base_ok c \<and> (\<forall>(n, h) \<in> set (c_hosts c). host_conf_ok h) \<and>
     0 \<le> c_maxUsage c \<and> c_maxUsage c \<le> 100 \<and> 0 \<le> c_maxFileUsage c \<and> c_maxFileUsage c \<le> 100 \<and>
     int_range (c_keepPruneLogs c) \<and> int_range (c_pruneTimeout c) \<and>
     0 \<le> c_horizontalPadding c \<and> 0 \<le> c_verticalPadding c \<and> 0 < c_backupIndicatorWidth c \<and>
     0 < c_backupIndicatorHeight c \<and> 0 \<le> c_graphTargetWidth c \<and> 0 < c_backupIndicatorKeyWidth c \<and>
     strategy_ok (c_deviceColorStrategy c)"

lemma new_conf_ok: "conf_ok (new_conf sm)"
  by (simp add: conf_ok_def new_conf_def conf_base_default_def conf_base.defs base_ok_def host_check_ok_def int_range_def
      limits strategy_ok_def unit_range_def)

lemma base_ok_extend [simp]: "base_ok (conf_base.extend b x) = base_ok b"
  by (cases b) (simp add: conf_base.defs base_ok_def)

lemma base_ok_truncate [simp]: "base_ok (conf_base.truncate b) = base_ok b"
  by (cases b) (simp add: conf_base.defs base_ok_def)

lemma on_base_ok: "(\<And>b. base_ok b \<Longrightarrow> base_ok (f b)) \<Longrightarrow> base_ok r \<Longrightarrow> base_ok (on_base f r)"
  by (simp add: on_base_def)

section \<open>The errors of the getters\<close>

text \<open>The errors that would be faults of the program.\<close>

definition fault :: "err \<Rightarrow> bool" where
  "fault e \<longleftrightarrow> e = UndefinedBehaviour \<or> e = AssertionFailed \<or> (\<exists>m. e = LogicError m)"

lemma fault_simps [simp]:
  "\<not> fault (SyntaxError m)" "\<not> fault (ConfigError m)" "fault UndefinedBehaviour" "fault (LogicError m)"
  by (simp_all add: fault_def)

definition env_sane :: "conf_env \<Rightarrow> bool" where
  "env_sane env \<longleftrightarrow> (\<forall>pat e. env_glob env pat = Inl e \<longrightarrow> \<not> fault e)"

text \<open>A getter fails only as it should when the line has at least \<open>n\<close> words, and its values satisfy \<open>Q\<close>.\<close>

definition getter_safe :: "nat \<Rightarrow> 'a getter \<Rightarrow> ('a \<Rightarrow> bool) \<Rightarrow> bool" where
  "getter_safe n get Q \<longleftrightarrow>
     (\<forall>env cc. env_sane env \<longrightarrow>
        (case get env cc of Inl e \<Rightarrow> fault e \<longrightarrow> length (cc_bits cc) < n | Inr x \<Rightarrow> Q x))"

lemma getter_safeI:
  assumes "\<And>env cc e. env_sane env \<Longrightarrow> get env cc = Inl e \<Longrightarrow> n \<le> length (cc_bits cc) \<Longrightarrow> \<not> fault e"
    "\<And>env cc x. env_sane env \<Longrightarrow> get env cc = Inr x \<Longrightarrow> Q x"
  shows "getter_safe n get Q"
  using assms by (fastforce simp: getter_safe_def not_less split: sum.splits)

lemma arg_simps [simp]: "n < length (cc_bits cc) \<Longrightarrow> arg n cc = Inr (cc_bits cc ! n)"
  by (simp add: arg_def)

lemma parse_errors:
  "parseInteger s mn mx r = Inl e \<Longrightarrow> \<not> fault e"
  "parseFloat strtod s P = Inl e \<Longrightarrow> \<not> fault e"
  by (auto simp: parseInteger_def parseFloat_def Let_def split: if_splits prod.splits option.splits)

lemma parseTimeInterval_error: "parseTimeInterval s mx = Inl e \<Longrightarrow> \<not> fault e"
  by (auto simp: parseTimeInterval_def time_interval_unit_def result_simps Let_def dest: parse_errors
      split: if_splits prod.splits option.splits)

lemma parseTimeOfDay_error: "parseTimeOfDay s = Inl e \<Longrightarrow> \<not> fault e"
  by (auto simp: parseTimeOfDay_def result_simps Let_def dest: parse_errors split: if_splits)

lemma parseFloat_range: "parseFloat strtod s P = Inr x \<Longrightarrow> P x"
  by (auto simp: parseFloat_def Let_def split: if_splits prod.splits option.splits)

lemma getter_string: "getter_safe 2 get_string (\<lambda>_. True)"
  by (rule getter_safeI) (auto simp: get_string_def)

lemma getter_words: "getter_safe 0 get_words (\<lambda>_. True)"
  by (rule getter_safeI) (auto simp: get_words_def)

lemma getter_interval: "getter_safe 2 get_interval int_range"
proof (rule getter_safeI)
  show "int_range x" if get: "get_interval env cc = Inr x" for env cc x
  proof -
    obtain n where n: "parseTimeInterval (cc_bits cc ! 1) INT_MAX = Inr n" "x = to_int32 n"
      using get by (auto simp: get_interval_def result_simps arg_def split: if_splits)
    then have "0 \<le> n \<and> n \<le> INT_MAX" by (auto dest: parseTimeInterval_range simp: limits)
    then show ?thesis using n(2) by (simp add: int_range_def limits)
  qed
qed (auto simp: get_interval_def result_simps dest: parseTimeInterval_error)

lemma getter_integer: "getter_safe 2 (get_integer mn mx) (\<lambda>n. mn \<le> n \<and> n \<le> mx)"
  by (rule getter_safeI) (auto simp: get_integer_def result_simps dest: parse_errors parseInteger_range)

lemma getter_float: "getter_safe 2 (get_float P) P"
  by (rule getter_safeI) (auto simp: get_float_def result_simps dest: parse_errors parseFloat_range)

lemma getter_boolean: "getter_safe 1 (get_boolean n) (\<lambda>_. True)"
  by (rule getter_safeI) (auto simp: get_boolean_def result_simps arg_def split: if_splits)

lemma getter_extend: "getter_safe 2 (\<lambda>env cc. extend_words cc (f cc)) (\<lambda>_. True)"
  by (rule getter_safeI) (auto simp: extend_words_def)

lemma getter_color: "getter_safe 2 get_color (\<lambda>_. True)"
  by (rule getter_safeI)
    (auto simp: get_color_def result_simps Let_def arg_def dest: parse_errors split: if_splits)

lemma getter_parameter: "getter_safe 3 get_parameter_words (\<lambda>_. True)"
  by (rule getter_safeI) (auto simp: get_parameter_words_def)

lemma getter_prune_policy: "getter_safe 2 (\<lambda>env cc. rbind (arg 1 cc) (\<lambda>s. Inr (s, cc_location cc))) (\<lambda>_. True)"
  by (rule getter_safeI) auto

lemma getter_host_check: "getter_safe 2 get_host_check host_check_ok"
proof (rule getter_safeI)
  show "host_check_ok x" if "get_host_check env cc = Inr x" for env cc x
  proof (cases "cc_bits cc")
    case (Cons b bs)
    then show ?thesis using that
      by (cases bs) (auto simp: get_host_check_def result_simps arg_def host_check_ok_def split: if_splits)
  qed (use that in \<open>auto simp: get_host_check_def arg_def\<close>)
qed (auto simp: get_host_check_def split: if_splits)

lemma getter_backup_time: "getter_safe 2 get_backup_time (\<lambda>(e, l). 0 \<le> e \<and> e \<le> l \<and> l \<le> 86400)"
  by (rule getter_safeI)
    (auto simp: get_backup_time_def result_simps Let_def dest: parseTimeOfDay_error parseTimeOfDay_range split: if_splits)

lemma parseStore_error: "parseStoreArguments m bs = Inl e \<Longrightarrow> \<not> fault e"
  by (induction bs arbitrary: m) (auto split: if_splits)

lemma getter_store: "getter_safe 0 (\<lambda>env cc. parseStoreArguments True (tl (cc_bits cc))) (\<lambda>_. True)"
  by (rule getter_safeI) (auto dest: parseStore_error)

lemma getter_store_pattern:
  "getter_safe 0 (\<lambda>env cc. rbind (parseStoreArguments True (tl (cc_bits cc))) (\<lambda>(mounted, pat).
     rbind (env_glob env pat) (\<lambda>files. Inr (mounted, files)))) (\<lambda>_. True)"
  by (rule getter_safeI) (auto simp: result_simps env_sane_def dest: parseStore_error)

lemma take_parameters_error: "take_parameters strtod ps ds = Inl e \<Longrightarrow> \<not> fault e"
  by (induction strtod ps ds arbitrary: e rule: take_parameters.induct) (auto simp: result_simps dest: parse_errors)

lemma take_parameters_range:
  "take_parameters strtod ps ds = Inr (xs, rest) \<Longrightarrow> \<forall>(d, P) \<in> set ds. P d \<Longrightarrow>
     length xs = length ds \<and> (\<forall>i < length ds. snd (ds ! i) (xs ! i))"
proof (induction strtod ps ds arbitrary: xs rest rule: take_parameters.induct)
  case (2 strtod d P ds)
  then obtain ys where "take_parameters strtod [] ds = Inr (ys, rest)" "xs = d # ys" by (auto simp: result_simps)
  then show ?case using 2 by (auto simp: less_Suc_eq_0_disj)
next
  case (3 strtod p ps d P ds)
  then obtain x ys where "parseFloat strtod p P = Inr x" "take_parameters strtod ps ds = Inr (ys, rest)" "xs = x # ys"
    by (auto simp: result_simps)
  then show ?case using 3 by (auto simp: less_Suc_eq_0_disj dest: parseFloat_range)
qed auto

lemma strategy_create:
  "ColorStrategy_create strtod n ps = Inl e \<Longrightarrow> \<not> fault e"
  "ColorStrategy_create strtod n ps = Inr cs \<Longrightarrow> strategy_ok cs"
  by (auto simp: ColorStrategy_create_def result_simps strategy_ok_def unit_range_def not_le
      dest!: take_parameters_error take_parameters_range split: if_splits)
    (auto simp: numeral_eq_Suc All_less_Suc unit_range_def)

lemma getter_strategy:
  "getter_safe 2 (\<lambda>env cc. rbind (arg 1 cc) (\<lambda>n. ColorStrategy_create (env_strtod env) n (drop 2 (cc_bits cc)))) strategy_ok"
  by (rule getter_safeI) (auto simp: result_simps dest: strategy_create)

section \<open>Every directive keeps the context in order\<close>

text \<open>
  The pointers of a context: the current host is in the configuration, the current volume in the current
  host, and the current node is one of them.
\<close>

definition pointers_ok :: "ctx \<Rightarrow> bool" where
  "pointers_ok cc \<longleftrightarrow>
     (cc_volume cc \<noteq> None \<longrightarrow> cc_host cc \<noteq> None) \<and>
     (\<forall>hn. cc_host cc = Some hn \<longrightarrow>
        (\<exists>h. findHost hn (cc_conf cc) = Some h \<and> (\<forall>vn. cc_volume cc = Some vn \<longrightarrow> host_findVolume vn h \<noteq> None))) \<and>
     (case cc_context cc of ConfNode \<Rightarrow> True | HostNode \<Rightarrow> cc_host cc \<noteq> None | VolumeNode \<Rightarrow> cc_volume cc \<noteq> None)"

definition ctx_ok :: "ctx \<Rightarrow> bool" where
  "ctx_ok cc \<longleftrightarrow> conf_ok (cc_conf cc) \<and> pointers_ok cc"

lemma om_find_put_same: "om_find namelt k (om_put namelt k v m) = Some v"
  by (induction m) (auto simp: name_order.lt_irrefl)

lemma om_put_value: "x \<in> set (om_put lt k v m) \<Longrightarrow> x \<in> set m \<or> snd x = v"
  by (induction m) (auto split: if_splits)

lemma om_find_set: "om_find lt k m = Some v \<Longrightarrow> \<exists>j. (j, v) \<in> set m"
  by (induction m) (auto split: if_splits)

text \<open>Updating the current host.\<close>

lemma findHost_update_host: "findHost hn c = Some h \<Longrightarrow> findHost hn (update_host hn f c) = Some (f h)"
  by (simp add: findHost_def update_host_def om_update_def om_find_put_same)

lemma update_host_ok:
  assumes "conf_ok c" "\<And>h. host_conf_ok h \<Longrightarrow> host_conf_ok (f h)"
  shows "conf_ok (update_host hn f c)"
proof (cases "om_find namelt hn (c_hosts c)")
  case (Some h)
  have hosts: "\<forall>(n, h) \<in> set (c_hosts c). host_conf_ok h" using assms(1) by (simp add: conf_ok_def)
  then have "host_conf_ok (f h)" using om_find_set [OF Some] assms(2) by auto
  then have "\<forall>(n, h) \<in> set (om_put namelt hn (f h) (c_hosts c)). host_conf_ok h"
    using hosts by (auto dest!: om_put_value)
  then show ?thesis using assms(1) Some by (simp add: conf_ok_def update_host_def om_update_def base_ok_def)
qed (use assms(1) in \<open>simp add: update_host_def om_update_def\<close>)

lemma update_volumes_ok:
  assumes "host_conf_ok h" "\<And>v. volume_conf_ok v \<Longrightarrow> volume_conf_ok (f v)"
  shows "host_conf_ok (h\<lparr>h_volumes := om_update namelt vn f (h_volumes h)\<rparr>)"
proof (cases "om_find namelt vn (h_volumes h)")
  case (Some v)
  have vols: "\<forall>(n, v) \<in> set (h_volumes h). volume_conf_ok v" using assms(1) by (simp add: host_conf_ok_def)
  then have "volume_conf_ok (f v)" using om_find_set [OF Some] assms(2) by auto
  then have "\<forall>(n, v) \<in> set (om_put namelt vn (f v) (h_volumes h)). volume_conf_ok v"
    using vols by (auto dest!: om_put_value)
  then show ?thesis using assms(1) Some by (simp add: host_conf_ok_def om_update_def base_ok_def)
qed (use assms(1) in \<open>simp add: om_update_def\<close>)

lemma c_hosts_on_base [simp]: "c_hosts (on_base f c) = c_hosts c"
  by (cases c) (simp add: on_base_def conf_base.defs)

lemma h_volumes_on_base [simp]: "h_volumes (on_base f h) = h_volumes h"
  by (cases h) (simp add: on_base_def conf_base.defs)

text \<open>The same node is current before and after.\<close>

definition same_node :: "ctx \<Rightarrow> ctx \<Rightarrow> bool" where
  "same_node cc cc' \<longleftrightarrow> cc_host cc' = cc_host cc \<and> cc_volume cc' = cc_volume cc \<and> cc_context cc' = cc_context cc \<and>
     cc_location cc' = cc_location cc"

lemma ctx_ok_update:
  assumes "ctx_ok cc" "conf_ok c"
    "\<And>hn h. cc_host cc = Some hn \<Longrightarrow> findHost hn (cc_conf cc) = Some h \<Longrightarrow>
       \<exists>h'. findHost hn c = Some h' \<and>
         (\<forall>vn. cc_volume cc = Some vn \<longrightarrow> host_findVolume vn h \<noteq> None \<longrightarrow> host_findVolume vn h' \<noteq> None)"
  shows "ctx_ok (cc\<lparr>cc_conf := c\<rparr>) \<and> same_node cc (cc\<lparr>cc_conf := c\<rparr>)"
proof -
  have "pointers_ok (cc\<lparr>cc_conf := c\<rparr>)"
    using assms(1,3) by (cases "cc_context cc") (fastforce simp: ctx_ok_def pointers_ok_def)+
  then show ?thesis using assms(2) by (simp add: ctx_ok_def same_node_def)
qed

lemma on_conf_ok:
  assumes "ctx_ok cc" "\<And>c. conf_ok c \<Longrightarrow> conf_ok (f c) \<and> c_hosts (f c) = c_hosts c"
  shows "\<exists>cc'. on_conf f cc = Inr cc' \<and> ctx_ok cc' \<and> same_node cc cc'"
  using ctx_ok_update [OF assms(1), of "f (cc_conf cc)"] assms by (auto simp: on_conf_def ctx_ok_def findHost_def)

lemma on_host_ok:
  assumes "ctx_ok cc" "cc_host cc \<noteq> None" "\<And>h. host_conf_ok h \<Longrightarrow> host_conf_ok (f h)" "\<And>h. h_volumes (f h) = h_volumes h"
  shows "\<exists>cc'. on_host f cc = Inr cc' \<and> ctx_ok cc' \<and> same_node cc cc'"
proof -
  obtain hn where h: "cc_host cc = Some hn" using assms(2) by auto
  have "ctx_ok (cc\<lparr>cc_conf := update_host hn f (cc_conf cc)\<rparr>) \<and> same_node cc (cc\<lparr>cc_conf := update_host hn f (cc_conf cc)\<rparr>)"
  proof (rule ctx_ok_update [OF assms(1)])
    show "conf_ok (update_host hn f (cc_conf cc))" using assms(1,3) by (simp add: ctx_ok_def update_host_ok)
  qed (use h assms(4) in \<open>auto simp: host_findVolume_def dest: findHost_update_host\<close>)
  then show ?thesis using h by (auto simp: on_host_def)
qed

lemma on_volume_ok:
  assumes "ctx_ok cc" "cc_volume cc \<noteq> None" "\<And>v. volume_conf_ok v \<Longrightarrow> volume_conf_ok (f v)"
  shows "\<exists>cc'. on_volume f cc = Inr cc' \<and> ctx_ok cc' \<and> same_node cc cc'"
proof -
  obtain hn vn where h: "cc_host cc = Some hn" "cc_volume cc = Some vn"
    using assms(1,2) by (auto simp: ctx_ok_def pointers_ok_def)
  let ?c = "update_volume hn vn f (cc_conf cc)"
  have "ctx_ok (cc\<lparr>cc_conf := ?c\<rparr>) \<and> same_node cc (cc\<lparr>cc_conf := ?c\<rparr>)"
  proof (rule ctx_ok_update [OF assms(1)])
    show "conf_ok ?c" using assms(1,3) by (auto simp: update_volume_def ctx_ok_def intro!: update_host_ok update_volumes_ok)
  next
    fix hn' h' assume "cc_host cc = Some hn'" "findHost hn' (cc_conf cc) = Some h'"
    then show "\<exists>h''. findHost hn' ?c = Some h'' \<and>
        (\<forall>vn. cc_volume cc = Some vn \<longrightarrow> host_findVolume vn h' \<noteq> None \<longrightarrow> host_findVolume vn h'' \<noteq> None)"
      using h by (auto simp: update_volume_def host_findVolume_def om_update_def om_find_put_same dest: findHost_update_host)
  qed
  then show ?thesis using h by (auto simp: on_volume_def)
qed

lemma conf_ok_on_base: "(\<And>b. base_ok b \<Longrightarrow> base_ok (f b)) \<Longrightarrow> conf_ok c \<Longrightarrow> conf_ok (on_base f c)"
  by (cases c) (auto simp: conf_ok_def on_base_def conf_base.defs base_ok_def)

lemma host_ok_on_base: "(\<And>b. base_ok b \<Longrightarrow> base_ok (f b)) \<Longrightarrow> host_conf_ok h \<Longrightarrow> host_conf_ok (on_base f h)"
  by (cases h) (auto simp: host_conf_ok_def on_base_def conf_base.defs base_ok_def)

lemma volume_ok_on_base: "(\<And>b. base_ok b \<Longrightarrow> base_ok (f b)) \<Longrightarrow> volume_conf_ok v \<Longrightarrow> volume_conf_ok (on_base f v)"
  by (cases v) (auto simp: volume_conf_ok_def on_base_def conf_base.defs base_ok_def)

lemma on_context_ok:
  assumes "ctx_ok cc" "\<And>b. base_ok b \<Longrightarrow> base_ok (f b)"
  shows "\<exists>cc'. on_context f cc = Inr cc' \<and> ctx_ok cc' \<and> same_node cc cc'"
proof (cases "cc_context cc")
  case ConfNode
  then show ?thesis using on_conf_ok [OF assms(1), of "on_base f"] conf_ok_on_base assms(2) by (auto simp: on_context_def)
next
  case HostNode
  then have "cc_host cc \<noteq> None" using assms(1) by (simp add: ctx_ok_def pointers_ok_def)
  then show ?thesis using HostNode on_host_ok [OF assms(1), of "on_base f"] host_ok_on_base assms(2)
    by (auto simp: on_context_def)
next
  case VolumeNode
  then have "cc_volume cc \<noteq> None" using assms(1) by (simp add: ctx_ok_def pointers_ok_def)
  then show ?thesis using VolumeNode on_volume_ok [OF assms(1), of "on_base f"] volume_ok_on_base assms(2)
    by (auto simp: on_context_def)
qed

text \<open>The directives that read a word without checking that there is one.\<close>

definition unchecked_directives :: "string list" where
  "unchecked_directives =
     [''horizontal-padding'', ''vertical-padding'', ''backup-indicator-width'', ''backup-indicator-height'',
      ''graph-target-width'', ''backup-indicator-key-width'', ''report'', ''graph-layout'']"

text \<open>How the current host and volume change with a directive.\<close>

definition node_change :: "directive \<Rightarrow> ctx \<Rightarrow> ctx \<Rightarrow> bool" where
  "node_change d cc cc' \<longleftrightarrow>
     dir_new_level d = 0 \<and> same_node cc cc' \<or>
     dir_new_level d = LEVEL_HOST \<and> dir_levels d = LEVEL_TOP \<and> cc_host cc' \<noteq> None \<and> cc_location cc' = cc_location cc \<or>
     dir_new_level d = LEVEL_VOLUME \<and> dir_levels d = LEVEL_HOST \<and> cc_host cc' \<noteq> None \<and> cc_volume cc' \<noteq> None \<and>
       cc_location cc' = cc_location cc"

definition action_result :: "directive \<Rightarrow> ctx \<Rightarrow> ctx result \<Rightarrow> bool" where
  "action_result d cc r \<longleftrightarrow>
     (case r of Inl e \<Rightarrow> fault e \<longrightarrow> length (cc_bits cc) = 1 \<and> dir_name d \<in> set unchecked_directives
      | Inr cc' \<Rightarrow> ctx_ok cc' \<and> node_change d cc cc')"

definition directive_safe :: "directive \<Rightarrow> bool" where
  "directive_safe d \<longleftrightarrow>
     (\<forall>env cc. env_sane env \<longrightarrow> ctx_ok cc \<longrightarrow> cc_bits cc \<noteq> [] \<longrightarrow> dir_check d cc = Inr () \<longrightarrow>
        (case dir_set d of Include \<Rightarrow> 2 \<le> length (cc_bits cc) \<and> dir_new_level d = 0 \<and> dir_levels d = LEVEL_TOP
         | Set f \<Rightarrow> action_result d cc (f env cc)))"

text \<open>\<open>n\<close> words are sure to be there, or the directive is one of those.\<close>

definition enough_words :: "nat \<Rightarrow> directive \<Rightarrow> bool" where
  "enough_words n d \<longleftrightarrow> int n \<le> dir_min d + 1 \<or> n \<le> 2 \<and> dir_name d \<in> set unchecked_directives"

lemma check_words: "dir_check d cc = Inr () \<Longrightarrow> dir_min d + 1 \<le> int (length (cc_bits cc))"
  by (auto simp: dir_check_def check_arguments_def Let_def result_simps split: dir_kind.splits if_splits)

lemma getter_safeD:
  assumes "getter_safe n get Q" "env_sane env"
  shows "get env cc = Inl e \<Longrightarrow> fault e \<Longrightarrow> length (cc_bits cc) < n" "get env cc = Inr x \<Longrightarrow> Q x"
  using assms by (auto simp: getter_safe_def dest!: spec [of _ env] spec [of _ cc])

lemma getter_result:
  assumes "getter_safe n get Q" "enough_words n d" "env_sane env" "cc_bits cc \<noteq> []" "dir_check d cc = Inr ()"
    "\<And>x. Q x \<Longrightarrow> \<exists>cc'. g x = Inr cc' \<and> ctx_ok cc' \<and> same_node cc cc'" "dir_new_level d = 0"
  shows "action_result d cc (rbind (get env cc) g)"
proof (cases "get env cc")
  case (Inl e)
  have "length (cc_bits cc) < n" if "fault e" using getter_safeD [OF assms(1,3)] Inl that by blast
  moreover have "length (cc_bits cc) = 1" if "length (cc_bits cc) < n" "n \<le> 2"
  proof -
    have "length (cc_bits cc) \<ge> 1" using assms(4) by (simp add: Suc_le_eq)
    then show ?thesis using that by linarith
  qed
  ultimately show ?thesis
    using Inl check_words [OF assms(5)] assms(2) by (auto simp: action_result_def enough_words_def)
next
  case (Inr x)
  then have "Q x" by (rule getter_safeD [OF assms(1,3)])
  then show ?thesis using Inr assms(6) [of x] assms(7) by (auto simp: action_result_def node_change_def)
qed

lemma safe_conf:
  assumes "getter_safe n get Q" "dir_set d = set_conf get f" "dir_new_level d = 0" "enough_words n d"
    "\<And>x c. Q x \<Longrightarrow> conf_ok c \<Longrightarrow> conf_ok (f x c) \<and> c_hosts (f x c) = c_hosts c"
  shows "directive_safe d"
  unfolding directive_safe_def assms(2) set_conf_def
  by (auto intro!: getter_result [OF assms(1,4)] on_conf_ok assms(3,5))

lemma safe_context:
  assumes "getter_safe n get Q" "dir_set d = set_context get f" "dir_new_level d = 0" "enough_words n d"
    "\<And>x b. Q x \<Longrightarrow> base_ok b \<Longrightarrow> base_ok (f x b)"
  shows "directive_safe d"
  unfolding directive_safe_def assms(2) set_context_def
  by (auto intro!: getter_result [OF assms(1,4)] on_context_ok assms(3,5))

lemma safe_host:
  assumes "getter_safe n get Q" "dir_set d = set_host get f" "dir_new_level d = 0" "enough_words n d"
    "dir_kind d = HostOnlyDirective" "\<And>x h. Q x \<Longrightarrow> host_conf_ok h \<Longrightarrow> host_conf_ok (f x h)" "\<And>x h. h_volumes (f x h) = h_volumes h"
  shows "directive_safe d"
proof -
  have "cc_host cc \<noteq> None" if "dir_check d cc = Inr ()" for cc
    using that assms(5) by (auto simp: dir_check_def split: if_splits)
  then show ?thesis unfolding directive_safe_def assms(2) set_host_def
    by (auto intro!: getter_result [OF assms(1,4)] on_host_ok assms(3,6,7))
qed

lemma safe_volume:
  assumes "getter_safe n get Q" "dir_set d = set_volume get f" "dir_new_level d = 0" "enough_words n d"
    "dir_kind d = VolumeOnlyDirective" "\<And>x v. Q x \<Longrightarrow> volume_conf_ok v \<Longrightarrow> volume_conf_ok (f x v)"
  shows "directive_safe d"
proof -
  have "cc_volume cc \<noteq> None" if "dir_check d cc = Inr ()" for cc
    using that assms(5) by (auto simp: dir_check_def split: if_splits)
  then show ?thesis unfolding directive_safe_def assms(2) set_volume_def
    by (auto intro!: getter_result [OF assms(1,4)] on_volume_ok assms(3,6))
qed

lemma D_simps [simp]:
  "dir_set (D n mn mx act) = act" "dir_new_level (D n mn mx act) = 0" "dir_min (D n mn mx act) = mn"
  "dir_name (D n mn mx act) = n" "dir_kind (D n mn mx act) = AnyDirective" "dir_levels (D n mn mx act) = LEVEL_TOP"
  by (simp_all add: D_def)

lemma enough_words_simps [simp]:
  "dir_min d = mn \<Longrightarrow> int n \<le> mn + 1 \<Longrightarrow> enough_words n d"
  "dir_name d \<in> set unchecked_directives \<Longrightarrow> enough_words 2 d"
  by (simp_all add: enough_words_def)

lemma safe_D:
  assumes "getter_safe k get Q" "int k \<le> mn + 1 \<or> k \<le> 2 \<and> n \<in> set unchecked_directives"
    "\<And>x c. Q x \<Longrightarrow> conf_ok c \<Longrightarrow> conf_ok (f x c) \<and> c_hosts (f x c) = c_hosts c"
  shows "directive_safe (D n mn mx (set_conf get f))"
  by (rule safe_conf [OF assms(1), where f = f]) (use assms(2,3) in \<open>auto simp: enough_words_def\<close>)

lemma safe_color:
  assumes "\<And>x c. conf_ok c \<Longrightarrow> conf_ok (f x c) \<and> c_hosts (f x c) = c_hosts c"
  shows "directive_safe (color_directive n f)"
  by (rule safe_conf [OF getter_color, where f = f]) (use assms in \<open>auto simp: color_directive_def enough_words_def\<close>)

lemma safe_inheritable:
  assumes "getter_safe k get Q" "int k \<le> mn + 1" "\<And>x b. Q x \<Longrightarrow> base_ok b \<Longrightarrow> base_ok (f x b)"
  shows "directive_safe (inheritable n mn mx (set_context get f))"
    "directive_safe ((inheritable n mn mx (set_context get f))\<lparr>dir_kind := ParameterDirective\<rparr>)"
    "directive_safe ((inheritable n mn mx (set_context get f))\<lparr>dir_levels := ls\<rparr>)"
    "directive_safe ((host_only n mn mx (set_context get f))\<lparr>dir_levels := ls\<rparr>)"
  by (rule safe_context [OF assms(1), where f = f]; use assms(2,3) in \<open>auto simp: inheritable_def host_only_def enough_words_def\<close>)+

lemma safe_host_only:
  assumes "getter_safe k get Q" "int k \<le> mn + 1" "\<And>x h. Q x \<Longrightarrow> host_conf_ok h \<Longrightarrow> host_conf_ok (f x h)"
    "\<And>x h. h_volumes (f x h) = h_volumes h"
  shows "directive_safe (host_only n mn mx (set_host get f))"
  by (rule safe_host [OF assms(1), where f = f]) (use assms(2-) in \<open>auto simp: host_only_def enough_words_def\<close>)

lemma safe_volume_only:
  assumes "getter_safe k get Q" "int k \<le> mn + 1" "\<And>x v. Q x \<Longrightarrow> volume_conf_ok v \<Longrightarrow> volume_conf_ok (f x v)"
  shows "directive_safe (volume_only n mn mx (set_volume get f))"
  by (rule safe_volume [OF assms(1), where f = f]) (use assms(2-) in \<open>auto simp: volume_only_def enough_words_def\<close>)

lemma safe_include: "directive_safe (D n 1 1 Include)"
  by (auto simp: directive_safe_def dest: check_words)

lemmas conf_rules =
  safe_D [OF getter_string] safe_D [OF getter_words] safe_D [OF getter_interval] safe_D [OF getter_integer]
  safe_D [OF getter_float] safe_D [OF getter_boolean] safe_D [OF getter_extend] safe_D [OF getter_strategy] safe_color safe_include

lemma put_store_ok: "conf_ok c \<Longrightarrow> conf_ok (put_store m p c)" "c_hosts (put_store m p c) = c_hosts c"
  by (simp_all add: conf_ok_def put_store_def base_ok_def)

lemma put_stores_ok:
  "conf_ok c \<Longrightarrow> conf_ok (foldl (\<lambda>c f. put_store m f c) c files) \<and> c_hosts (foldl (\<lambda>c f. put_store m f c) c files) = c_hosts c"
  by (induction files arbitrary: c) (simp_all add: put_store_ok)

lemma store_directives_safe: "d \<in> set store_directives \<Longrightarrow> directive_safe d"
  by (auto simp: store_directives_def put_store_ok put_stores_ok
      intro!: safe_D [OF getter_store] safe_D [OF getter_store_pattern])

lemma global_directives_safe: "d \<in> set global_directives \<Longrightarrow> directive_safe d"
  unfolding global_directives_def set_simps
  by (elim insertE emptyE; hypsubst) (rule conf_rules; simp add: conf_ok_def base_ok_def)+

lemma DBL_MIN_pos: "0 < DBL_MIN"
  by (simp add: DBL_MIN_def)

lemma graph_directives_safe: "d \<in> set graph_directives \<Longrightarrow> directive_safe d"
  unfolding graph_directives_def set_simps
  by (elim insertE emptyE; hypsubst)
    (rule conf_rules; use DBL_MIN_pos in \<open>simp add: conf_ok_def base_ok_def unchecked_directives_def\<close>)+

lemmas context_rules =
  safe_inheritable [OF getter_string] safe_inheritable [OF getter_words] safe_inheritable [OF getter_interval]
  safe_inheritable [OF getter_boolean] safe_inheritable [OF getter_parameter] safe_inheritable [OF getter_prune_policy]
  safe_inheritable [OF getter_host_check] safe_inheritable [OF getter_backup_time]

lemma policy_directives_safe: "d \<in> set policy_directives \<Longrightarrow> directive_safe d"
  unfolding policy_directives_def set_simps
  by (elim insertE emptyE; hypsubst) (rule context_rules; auto simp: base_ok_def put_prune_policy_def Let_def)+

lemma inheritable_directives_safe: "d \<in> set inheritable_directives \<Longrightarrow> directive_safe d"
  unfolding inheritable_directives_def set_simps
  by (elim insertE emptyE; hypsubst) (rule context_rules; auto simp: base_ok_def)+

lemma om_put_fresh_other:
  "(n, x) \<in> set (om_put namelt k v m) \<Longrightarrow> (\<forall>(n, x) \<in> set m. P x) \<Longrightarrow> P v \<Longrightarrow> P x"
  by (auto dest!: om_put_value)

lemma new_host_ok: "conf_ok c \<Longrightarrow> host_valid n \<Longrightarrow> host_conf_ok (new_host c n)"
  by (simp add: host_conf_ok_def new_host_def conf_base_inherit_def conf_base.defs base_ok_def conf_ok_def limits)

lemma new_volume_ok: "host_conf_ok h \<Longrightarrow> volume_valid n \<Longrightarrow> volume_conf_ok (new_volume h n path)"
  by (simp add: volume_conf_ok_def new_volume_def conf_base_inherit_def conf_base.defs base_ok_def host_conf_ok_def)

lemma names_new [simp]: "h_name (new_host c n) = n" "v_name (new_volume h n path) = n" "h_volumes (new_host c n) = []"
  by (simp_all add: new_host_def new_volume_def conf_base.defs)

lemma addHost_ok: "conf_ok c \<Longrightarrow> host_conf_ok h \<Longrightarrow> conf_ok (addHost h c)"
  by (auto simp: conf_ok_def addHost_def base_ok_def dest!: om_put_value)

lemma addVolume_ok: "host_conf_ok h \<Longrightarrow> volume_conf_ok v \<Longrightarrow> host_conf_ok (addVolume v h)"
  by (auto simp: host_conf_ok_def addVolume_def base_ok_def dest!: om_put_value)

lemma host_set_ok:
  assumes "ctx_ok cc" "2 \<le> length (cc_bits cc)" "dir_new_level d = LEVEL_HOST" "dir_levels d = LEVEL_TOP"
  shows "action_result d cc (host_set env cc)"
proof -
  let ?n = "cc_bits cc ! 1"
  have n: "arg 1 cc = Inr ?n" using assms(2) by simp
  have "pointers_ok (cc\<lparr>cc_conf := addHost (new_host (cc_conf cc) ?n) (cc_conf cc), cc_context := HostNode, cc_host := Some ?n,
      cc_volume := None\<rparr>)"
    by (simp add: pointers_ok_def findHost_def addHost_def om_find_put_same)
  then show ?thesis
    using assms unfolding host_set_def n
    by (auto simp: action_result_def ctx_ok_def node_change_def intro!: addHost_ok new_host_ok)
qed

lemma volume_set_ok:
  assumes "ctx_ok cc" "3 \<le> length (cc_bits cc)" "cc_host cc \<noteq> None" "dir_new_level d = LEVEL_VOLUME" "dir_levels d = LEVEL_HOST"
  shows "action_result d cc (volume_set env cc)"
proof -
  let ?n = "cc_bits cc ! 1" and ?p = "cc_bits cc ! 2"
  have n: "arg 1 cc = Inr ?n" "arg 2 cc = Inr ?p" using assms(2) by simp_all
  obtain hn h where h: "cc_host cc = Some hn" "findHost hn (cc_conf cc) = Some h"
    using assms(1,3) by (auto simp: ctx_ok_def pointers_ok_def)
  then have hok: "host_conf_ok h" using assms(1) by (auto simp: ctx_ok_def conf_ok_def findHost_def dest!: om_find_set)
  let ?c = "update_host hn (addVolume (new_volume h ?n ?p)) (cc_conf cc)"
  have "pointers_ok (cc\<lparr>cc_conf := ?c, cc_context := VolumeNode, cc_volume := Some ?n\<rparr>)"
    using h findHost_update_host [OF h(2), of "addVolume (new_volume h ?n ?p)"]
    by (auto simp: pointers_ok_def host_findVolume_def addVolume_def om_find_put_same)
  moreover have "conf_ok ?c" if "volume_valid ?n"
    using assms(1) that hok by (auto simp: ctx_ok_def intro!: update_host_ok addVolume_ok new_volume_ok)
  ultimately show ?thesis
    using assms h unfolding volume_set_def n
    by (auto simp: action_result_def ctx_ok_def node_change_def split: option.splits)
qed

lemma safe_host_directive: "directive_safe ((D n 1 1 (Set host_set))\<lparr>dir_new_level := LEVEL_HOST\<rparr>)"
  by (auto simp: directive_safe_def intro!: host_set_ok dest!: check_words)

lemma safe_volume_directive: "directive_safe ((host_only n 2 2 (Set volume_set))\<lparr>dir_new_level := LEVEL_VOLUME\<rparr>)"
  by (auto simp: directive_safe_def host_only_def dir_check_def check_arguments_def Let_def intro!: volume_set_ok split: if_splits)

lemmas host_rules = safe_host_directive safe_volume_directive
  safe_host_only [OF getter_string] safe_host_only [OF getter_integer] safe_inheritable(4) [OF getter_string]
  safe_volume_only [OF getter_string] safe_volume_only [OF getter_boolean]

lemma host_directives_safe: "d \<in> set host_directives \<Longrightarrow> directive_safe d"
  unfolding host_directives_def set_simps
  by (elim insertE emptyE; hypsubst) (rule host_rules; auto simp: host_conf_ok_def base_ok_def)+

lemma volume_directives_safe: "d \<in> set volume_directives \<Longrightarrow> directive_safe d"
  unfolding volume_directives_def set_simps
  by (elim insertE emptyE; hypsubst) (rule host_rules; auto simp: volume_conf_ok_def base_ok_def)+

lemma directives_safe: "d \<in> set directives \<Longrightarrow> directive_safe d"
  unfolding directives_def set_append
  using store_directives_safe global_directives_safe graph_directives_safe policy_directives_safe
    inheritable_directives_safe host_directives_safe volume_directives_safe by blast

end
