(* ===== verification/ConfSafety.thy ===== *)
theory ConfSafety
  imports ConfRead DirectiveSafety
begin

unbundle bit_operations_syntax

text \<open>
  What reading configuration files guarantees: the indentation and the context fit together, so that a file
  gives a configuration that is in order or an error; and when the reading of included files ends.
\<close>

section \<open>Levels\<close>

lemma levels [simp]: "LEVEL_TOP = 1" "LEVEL_HOST = 2" "LEVEL_VOLUME = 4"
  by (simp_all add: LEVEL_TOP_def LEVEL_HOST_def LEVEL_VOLUME_def)

text \<open>
  How the indentation and the context fit: there are at most three depths, the next level is one deeper,
  and the host and the volume of the depths that are open are there.
\<close>

definition levels_ok :: "ctx \<Rightarrow> indenter \<Rightarrow> bool" where
  "levels_ok cc ind \<longleftrightarrow>
     in_stack ind \<noteq> [] \<and> length (in_stack ind) \<le> 3 \<and>
     (in_new_level ind = 0 \<or> in_new_level ind = 2 ^ length (in_stack ind) \<and> length (in_stack ind) \<le> 2) \<and>
     (length (in_stack ind) \<ge> 2 \<or> in_new_level ind = LEVEL_HOST \<longrightarrow> cc_host cc \<noteq> None) \<and>
     (length (in_stack ind) = 3 \<or> in_new_level ind = LEVEL_VOLUME \<longrightarrow> cc_volume cc \<noteq> None)"

lemma index_of_bound: "index_of x xs = Some i \<Longrightarrow> i < length xs \<and> xs ! i = x"
  by (induction xs arbitrary: i) (auto split: if_splits)

lemma level_mask: "(2::nat) ^ i AND m = 0 \<or> (2::nat) ^ i AND m = 2 ^ i"
proof (cases "bit m i")
  case True
  then have "(2::nat) ^ i AND m = 2 ^ i" by (intro bit_eqI) (auto simp: bit_and_iff bit_exp_iff)
  then show ?thesis ..
next
  case False
  then have "(2::nat) ^ i AND m = 0" by (intro bit_eqI) (auto simp: bit_and_iff bit_exp_iff)
  then show ?thesis ..
qed

text \<open>After \<open>indent_check\<close> has found a level, that many depths are open.\<close>

lemma indent_check_level:
  assumes "levels_ok cc ind" "indent_check acc depth ind = (level, ind')" "level \<noteq> 0"
  shows "\<exists>i \<le> 2. level = 2 ^ i \<and> 2 ^ i AND acc = 2 ^ i \<and> length (in_stack ind') = i + 1 \<and> in_new_level ind' = 0 \<and>
    (i \<ge> 1 \<longrightarrow> cc_host cc \<noteq> None) \<and> (i = 2 \<longrightarrow> cc_volume cc \<noteq> None)"
proof (cases "index_of depth (in_stack ind)")
  case (Some i)
  then have i: "i < length (in_stack ind)" by (auto dest: index_of_bound)
  then have "level = 2 ^ i" using assms level_mask [of i acc] Some by (auto simp: indent_check_def levels_ok_def)
  then show ?thesis using i assms(1,2) Some by (intro exI [of _ i]) (auto simp: indent_check_def levels_ok_def)
next
  case None
  then have n: "in_new_level ind \<noteq> 0" "level = in_new_level ind AND acc" "ind' = ind\<lparr>in_stack := in_stack ind @ [depth], in_new_level := 0\<rparr>"
    using assms(2,3) by (auto simp: indent_check_def split: if_splits)
  define i where "i = length (in_stack ind)"
  have i: "in_new_level ind = 2 ^ i" "i \<le> 2" "1 \<le> i"
    using assms(1) n(1) by (auto simp: levels_ok_def i_def Suc_le_eq)
  then have "level = 2 ^ i" using level_mask [of i acc] n assms(3) by auto
  moreover have "i = 1 \<or> i = 2" using i by linarith
  then have "cc_host cc \<noteq> None" "i = 2 \<longrightarrow> cc_volume cc \<noteq> None"
    using assms(1) i(1) by (auto simp: levels_ok_def i_def)
  ultimately show ?thesis using i n by (intro exI [of _ i]) (auto simp: i_def)
qed

text \<open>A line that consists of the name of one of the unchecked directives only.\<close>

definition unchecked_line :: "string \<Rightarrow> bool" where
  "unchecked_line line \<longleftrightarrow> (\<exists>depth w. split line = Some (depth, Inr [w]) \<and> w \<in> set unchecked_directives)"

definition reader_safe :: "bool \<Rightarrow> reader \<Rightarrow> bool" where
  "reader_safe u rd \<longleftrightarrow>
     (\<forall>path c r. conf_ok c \<longrightarrow> rd path c = Some r \<longrightarrow> (case r of Inl e \<Rightarrow> fault e \<longrightarrow> u | Inr c' \<Rightarrow> conf_ok c'))"

definition state_ok :: "ctx \<times> indenter \<Rightarrow> bool" where
  "state_ok s \<longleftrightarrow> ctx_ok (fst s) \<and> levels_ok (fst s) (snd s)"

lemma select_level_ok:
  assumes "ctx_ok cc" "i \<le> 2" "i \<ge> 1 \<longrightarrow> cc_host cc \<noteq> None" "i = 2 \<longrightarrow> cc_volume cc \<noteq> None"
  shows "\<exists>cc'. select_level (2 ^ i) cc = Inr cc' \<and> ctx_ok cc' \<and> (i \<ge> 1 \<longrightarrow> cc_host cc' \<noteq> None) \<and>
    (i = 2 \<longrightarrow> cc_volume cc' \<noteq> None) \<and> (i = 0 \<longrightarrow> cc_host cc' = None \<and> cc_volume cc' = None) \<and>
    cc_bits cc' = cc_bits cc \<and> cc_location cc' = cc_location cc \<and> cc_conf cc' = cc_conf cc"
proof -
  have "i = 0 \<or> i = 1 \<or> i = 2" using assms(2) by linarith
  then show ?thesis using assms by (elim disjE) (auto simp: select_level_def ctx_ok_def pointers_ok_def)
qed

lemma dir_check_error:
  assumes "directive_safe d" "cc_bits cc \<noteq> []" "dir_check d cc = Inl e" "dir_kind d = ParameterDirective \<Longrightarrow> 2 \<le> dir_min d"
  shows "\<not> fault e"
  using assms
  by (auto simp: dir_check_def check_arguments_def check_color_def check_parameter_def Let_def result_simps arg_def
      split: dir_kind.splits if_splits)

lemma mask_level:
  assumes "(i::nat) \<le> 2"
  shows "(2::nat) ^ i AND 1 = 2 ^ i \<Longrightarrow> i = 0" "(2::nat) ^ i AND 2 = 2 ^ i \<Longrightarrow> i = 1"
proof -
  have "i = 0 \<or> i = 1 \<or> i = 2" using assms by linarith
  then show "(2::nat) ^ i AND 1 = 2 ^ i \<Longrightarrow> i = 0" "(2::nat) ^ i AND 2 = 2 ^ i \<Longrightarrow> i = 1" by auto
qed

lemma read_directive_ok:
  assumes "directive_safe d" "env_sane env" "reader_safe u inc" "state_ok (cc, ind)" "cc_bits cc = dir_name d # bs"
    "dir_kind d = ParameterDirective \<Longrightarrow> 2 \<le> dir_min d" "read_directive env inc depth d (cc, ind) = Some r"
  shows "case r of Inl e \<Rightarrow> fault e \<longrightarrow> u \<or> bs = [] \<and> dir_name d \<in> set unchecked_directives
    | Inr s \<Rightarrow> state_ok s \<and> cc_location (fst s) = cc_location cc"
proof -
  obtain level ind' where c: "indent_check (dir_levels d) depth ind = (level, ind')" by force
  show ?thesis
  proof (cases "level = 0")
    case True
    then show ?thesis using assms(7) c by (auto simp: read_directive_def select_level_def)
  next
    case False
    obtain i where i: "i \<le> 2" "level = 2 ^ i" "2 ^ i AND dir_levels d = 2 ^ i" "length (in_stack ind') = i + 1" "in_new_level ind' = 0"
      "i \<ge> 1 \<longrightarrow> cc_host cc \<noteq> None" "i = 2 \<longrightarrow> cc_volume cc \<noteq> None"
    proof -
      have "levels_ok cc ind" using assms(4) by (simp add: state_ok_def)
      from indent_check_level [OF this c False] show thesis using that by blast
    qed
    obtain cc1 where s: "select_level (2 ^ i) cc = Inr cc1" "ctx_ok cc1" "i \<ge> 1 \<longrightarrow> cc_host cc1 \<noteq> None"
      "i = 2 \<longrightarrow> cc_volume cc1 \<noteq> None" "i = 0 \<longrightarrow> cc_host cc1 = None \<and> cc_volume cc1 = None"
      "cc_bits cc1 = cc_bits cc" "cc_location cc1 = cc_location cc" "cc_conf cc1 = cc_conf cc"
      using select_level_ok [OF _ i(1,6,7)] assms(4) by (auto simp: state_ok_def)
    show ?thesis
    proof (cases "dir_check d cc1")
      case (Inl e)
      have "\<not> fault e" by (rule dir_check_error [OF assms(1) _ Inl assms(6)]) (use s assms(5) in simp_all)
      then show ?thesis using assms(7) c s(1) i(2) Inl by (auto simp: read_directive_def)
    next
      case (Inr x)
      then have ch: "dir_check d cc1 = Inr ()" by simp
      have lv: "levels_ok cc' (indent_introduce (dir_new_level d) ind')" if "node_change d cc1 cc'" for cc'
        using that i s(3,4) mask_level [OF i(1)]
        by (auto simp: levels_ok_def node_change_def same_node_def indent_introduce_def)
      have ru: "run_action env inc (dir_set d) cc1 = Some q \<Longrightarrow>
          r = rbind q (\<lambda>cc. Inr (cc, indent_introduce (dir_new_level d) ind'))" for q
        using assms(7) c s(1) i(2) ch by (simp add: read_directive_def)
      obtain q where q: "run_action env inc (dir_set d) cc1 = Some q"
        using assms(7) c s(1) i(2) ch by (auto simp: read_directive_def)
      show ?thesis
      proof (cases "dir_set d")
        case (Set f)
        then have "action_result d cc1 q"
          using assms(1,2,5) s(2,6) ch q by (auto simp: directive_safe_def run_action_def)
        then show ?thesis using ru [OF q] lv s(6,7) assms(5)
          by (auto simp: action_result_def state_ok_def node_change_def same_node_def split: sum.splits)
      next
        case Include
        then have l: "2 \<le> length (cc_bits cc1)" "dir_new_level d = 0" "dir_levels d = LEVEL_TOP"
          using assms(1,2,5) s(2,6) ch by (auto simp: directive_safe_def)
        then have i0: "i = 0" using mask_level(1) [OF i(1)] i(3) by simp
        obtain rc where rc: "inc (cc_bits cc1 ! 1) (cc_conf cc1) = Some rc"
          "q = rbind rc (\<lambda>c. Inr (cc1\<lparr>cc_conf := c\<rparr>))"
          using q Include l(1) by (auto simp: run_action_def)
        have rok: "case rc of Inl e \<Rightarrow> fault e \<longrightarrow> u | Inr c' \<Rightarrow> conf_ok c'"
          using assms(3) rc(1) s(2) by (auto simp: reader_safe_def ctx_ok_def)
        show ?thesis
        proof (cases rc)
          case (Inr c')
          then have "ctx_ok (cc1\<lparr>cc_conf := c'\<rparr>)"
            using rok s(2,5) i0 by (cases "cc_context cc1") (auto simp: ctx_ok_def pointers_ok_def)
          moreover have "node_change d cc1 (cc1\<lparr>cc_conf := c'\<rparr>)" using l(2) by (simp add: node_change_def same_node_def)
          ultimately show ?thesis using ru [OF q] rc(2) Inr lv s(7) by (simp add: state_ok_def)
        qed (use ru [OF q] rc rok in auto)
      qed
    qed
  qed
qed

lemma parameter_directives: "d \<in> set directives \<Longrightarrow> dir_kind d = ParameterDirective \<Longrightarrow> 2 \<le> dir_min d"
  by (auto simp: directives_def store_directives_def global_directives_def graph_directives_def policy_directives_def
      inheritable_directives_def host_directives_def volume_directives_def color_directive_def inheritable_def host_only_def
      volume_only_def)

lemma find_directive: "find_directive n = Some d \<Longrightarrow> d \<in> set directives \<and> dir_name d = n"
  by (auto simp: find_directive_def find_Some_iff)

lemma located_fault: "located l r = Inl e \<Longrightarrow> fault e \<Longrightarrow> r = Inl e"
  by (auto simp: located_def config_error_def split: sum.splits err.splits)

lemma located_of_Inr [simp]: "located l (Inr x) = Inr x"
  by (simp add: located_def)

lemma located_Inr [simp]: "located l r = Inr x \<longleftrightarrow> r = Inr x"
  by (auto simp: located_def split: sum.splits err.splits)

lemma quoted_word_error: "quoted_word s = Inl e \<Longrightarrow> \<not> fault e"
  by (induction s rule: quoted_word.induct) (auto simp: result_simps split: if_splits list.splits)

lemma split_error: "split_words s bits = Some (Inl e) \<Longrightarrow> \<not> fault e"
proof -
  have "\<forall>e. r = Inl e \<longrightarrow> \<not> fault e" if "split_words s bits = Some r" for r
    using that
  proof (induction rule: split_words.raw_induct [rotated, consumes 1])
    case (1 split s bits r)
    then show ?case by (auto dest: quoted_word_error split: if_splits list.splits sum.splits)
  qed
  then show "split_words s bits = Some (Inl e) \<Longrightarrow> \<not> fault e" by blast
qed

lemma read_line_ok:
  assumes "env_sane env" "reader_safe u inc" "state_ok s" "read_line env inc s line = Some r" "unchecked_line line \<Longrightarrow> u"
  shows "case r of Inl e \<Rightarrow> fault e \<longrightarrow> u | Inr s' \<Rightarrow> state_ok s'"
proof -
  obtain cc ind where s: "s = (cc, ind)" by force
  define loc where "loc = (cc_location cc)\<lparr>loc_line := loc_line (cc_location cc) + 1\<rparr>"
  have ok: "state_ok (cc\<lparr>cc_location := loc, cc_bits := bits\<rparr>, ind)" for bits
    using assms(3) s by (cases "cc_context cc") (auto simp: state_ok_def ctx_ok_def pointers_ok_def levels_ok_def)
  show ?thesis
  proof (cases "split line")
    case None
    then show ?thesis using assms(4) s by (simp add: read_line_def Let_def)
  next
    case (Some db)
    obtain depth b where db: "db = (depth, b)" by force
    show ?thesis
    proof (cases b)
      case (Inl e)
      then have "\<not> fault e" using Some db by (auto simp: split_def Let_def split: prod.splits dest: split_error)
      moreover have "r = located loc (Inl e)" using assms(4) s Some db Inl by (auto simp: read_line_def Let_def loc_def)
      ultimately show ?thesis by (auto split: sum.splits dest: located_fault)
    next
      case (Inr bits)
      let ?cc = "cc\<lparr>cc_location := loc, cc_bits := bits\<rparr>"
      show ?thesis
      proof (cases bits)
        case Nil
        then show ?thesis using assms(4) s Some db Inr ok [of "[]"] by (auto simp: read_line_def Let_def loc_def)
      next
        case (Cons w bs)
        show ?thesis
        proof (cases "find_directive w")
          case None
          then have "r = located loc (Inl (SyntaxError (''unknown command '' @ quoted w)))"
            using assms(4) s Some db Inr Cons by (simp add: read_line_def Let_def loc_def)
          then show ?thesis by (auto split: sum.splits dest: located_fault)
        next
          case d: (Some d)
          then obtain r' where r': "read_directive env inc depth d (?cc, ind) = Some r'" "r = located loc r'"
            using assms(4) s Some db Inr Cons by (auto simp: read_line_def Let_def loc_def)
          note dd = find_directive [OF d]
          have "case r' of Inl e \<Rightarrow> fault e \<longrightarrow> u \<or> bs = [] \<and> dir_name d \<in> set unchecked_directives
              | Inr s \<Rightarrow> state_ok s \<and> cc_location (fst s) = cc_location ?cc"
            by (rule read_directive_ok [OF directives_safe assms(1,2) ok])
              (use dd parameter_directives r'(1) Cons in auto)
          moreover have "u" if "bs = []" "dir_name d \<in> set unchecked_directives"
            using assms(5) that Some db Inr Cons dd by (auto simp: unchecked_line_def)
          ultimately show ?thesis using r'(2) by (auto split: sum.splits dest: located_fault)
        qed
      qed
    qed
  qed
qed

section \<open>Files\<close>

definition fs_sane :: "file_system \<Rightarrow> bool" where
  "fs_sane fs \<longleftrightarrow>
     (\<forall>p e. fs_is_directory fs p = Inl e \<or> fs_is_regular fs p = Inl e \<or> fs_entries fs p = Inl e \<or> fs_read fs p = Inl e \<longrightarrow>
        \<not> fault e)"

text \<open>Some file has a line that is only the name of one of the unchecked directives.\<close>

definition unchecked_file :: "file_system \<Rightarrow> bool" where
  "unchecked_file fs \<longleftrightarrow>
     (\<exists>path content line. fs_read fs path = Inr content \<and> line \<in> set (file_lines content) \<and> unchecked_line line)"

lemma loop_option_invariant:
  assumes "loop_option f s xs = Some r" "P s"
    "\<And>s x q. x \<in> set xs \<Longrightarrow> P s \<Longrightarrow> f s x = Some q \<Longrightarrow> (case q of Inl e \<Rightarrow> Q e | Inr s' \<Rightarrow> P s')"
  shows "case r of Inl e \<Rightarrow> Q e | Inr s' \<Rightarrow> P s'"
  using assms
proof (induction xs arbitrary: s)
  case (Cons x xs)
  then obtain q where q: "f s x = Some q" by (auto split: option.splits)
  have "case q of Inl e \<Rightarrow> Q e | Inr s' \<Rightarrow> P s'" by (rule Cons.prems(3) [OF _ Cons.prems(2) q]) simp
  then show ?case
  proof (cases q)
    case (Inr s')
    show ?thesis
      by (rule Cons.IH [of s']) (use Cons.prems q Inr \<open>case q of Inl e \<Rightarrow> Q e | Inr s' \<Rightarrow> P s'\<close> in auto)
  qed (use Cons.prems(1) q in auto)
qed auto

lemma new_ctx_ok: "conf_ok c \<Longrightarrow> state_ok (new_ctx c path, new_indenter)"
  by (simp add: state_ok_def ctx_ok_def pointers_ok_def levels_ok_def new_ctx_def new_indenter_def)

lemma readOneFile_safe:
  assumes "env_sane env" "fs_sane fs" "reader_safe (unchecked_file fs) inc"
  shows "reader_safe (unchecked_file fs) (readOneFile env fs inc)"
  unfolding reader_safe_def
proof (intro allI impI)
  fix path c r assume c: "conf_ok c" and r: "readOneFile env fs inc path c = Some r"
  show "case r of Inl e \<Rightarrow> fault e \<longrightarrow> unchecked_file fs | Inr c' \<Rightarrow> conf_ok c'"
  proof (cases "fs_read fs path")
    case (Inl e)
    then show ?thesis using r assms(2) by (auto simp: readOneFile_def fs_sane_def)
  next
    case (Inr content)
    then obtain q where q: "loop_option (read_line env inc) (new_ctx c path, new_indenter) (file_lines content) = Some q"
      "r = rbind q (\<lambda>(cc, _). Inr (cc_conf cc))"
      using r by (auto simp: readOneFile_def)
    have "case q of Inl e \<Rightarrow> (fault e \<longrightarrow> unchecked_file fs) | Inr s' \<Rightarrow> state_ok s'"
      by (rule loop_option_invariant [where P = state_ok, OF q(1) new_ctx_ok [OF c]], rule read_line_ok [OF assms(1,3)])
        (auto simp: unchecked_file_def intro: Inr)
    then show ?thesis using q(2) by (auto simp: state_ok_def ctx_ok_def split: sum.splits)
  qed
qed

lemma include_entry_safe:
  assumes "fs_sane fs" "reader_safe u rd" "conf_ok c" "include_entry fs rd path c n = Some r"
  shows "case r of Inl e \<Rightarrow> fault e \<longrightarrow> u | Inr c' \<Rightarrow> conf_ok c'"
  using assms by (auto simp: include_entry_def fs_sane_def reader_safe_def split: if_splits sum.splits)

lemma includeFile_safe:
  assumes "fs_sane fs" "reader_safe u rd"
  shows "reader_safe u (includeFile fs rd)"
proof -
  have "case r of Inl e \<Rightarrow> fault e \<longrightarrow> u | Inr c' \<Rightarrow> conf_ok c'"
    if "conf_ok c" "loop_option (include_entry fs rd path) c names = Some r" for path c names r
    by (rule loop_option_invariant [where P = conf_ok, OF that(2,1)], rule include_entry_safe [OF assms])
  moreover have "case r of Inl e \<Rightarrow> fault e \<longrightarrow> u | Inr c' \<Rightarrow> conf_ok c'" if "conf_ok c" "rd path c = Some r" for path c r
    using assms(2) that by (simp add: reader_safe_def)
  ultimately show ?thesis using assms(1)
    unfolding reader_safe_def by (auto simp: includeFile_def fs_sane_def split: sum.splits if_splits)
qed

lemma Conf_read_safe: "env_sane env \<Longrightarrow> fs_sane fs \<Longrightarrow> reader_safe (unchecked_file fs) (Conf_read env fs n)"
proof (induction n)
  case 0
  then show ?case by (simp add: reader_safe_def)
next
  case (Suc n)
  then have "reader_safe (unchecked_file fs) (readOneFile env fs (includeFile fs (Conf_read env fs n)))"
    by (intro readOneFile_safe includeFile_safe) auto
  then show ?case by (simp add: reader_safe_def)
qed

text \<open>
  C16: Reading any files into a configuration that is in order gives one that is in order (valid names, times
  and intervals in range, the percentages, sizes and parameters of the colours as documented) or an error
  that the program throws on purpose: it never follows a pointer to a host or volume that is not there
  and never meets an indentation it did not expect.  The one exception is a line that consists of nothing
  but the name of one of eight directives.
\<close>

theorem configuration_read_ok:
  assumes "Conf_read env fs n path c = Some r" "conf_ok c" "env_sane env" "fs_sane fs"
  shows "case r of Inl e \<Rightarrow> fault e \<longrightarrow> unchecked_file fs | Inr c' \<Rightarrow> conf_ok c'"
  using Conf_read_safe [OF assms(3,4), of n] assms(1,2) by (auto simp: reader_safe_def)

section \<open>Nested files\<close>

text \<open>A reader that answers wherever another does, with the same answer.\<close>

definition reader_le :: "reader \<Rightarrow> reader \<Rightarrow> bool" where
  "reader_le f g \<longleftrightarrow> (\<forall>p c r. f p c = Some r \<longrightarrow> g p c = Some r)"

lemma loop_option_mono:
  "loop_option f s xs = Some r \<Longrightarrow> (\<And>s x q. f s x = Some q \<Longrightarrow> g s x = Some q) \<Longrightarrow> loop_option g s xs = Some r"
proof (induction xs arbitrary: s)
  case (Cons x xs)
  then obtain q where q: "f s x = Some q" by (auto split: option.splits)
  then have "g s x = Some q" by (rule Cons.prems(2))
  then show ?case using Cons q by (cases q) auto
qed simp

lemma run_action_mono: "reader_le inc inc' \<Longrightarrow> run_action env inc act cc = Some r \<Longrightarrow> run_action env inc' act cc = Some r"
  by (auto simp: run_action_def reader_le_def split: dir_action.splits sum.splits)

lemma read_line_mono: "reader_le inc inc' \<Longrightarrow> read_line env inc s line = Some r \<Longrightarrow> read_line env inc' s line = Some r"
  by (auto simp: read_line_def read_directive_def Let_def run_action_mono split: prod.splits option.splits sum.splits if_splits)

lemma readOneFile_mono: "reader_le inc inc' \<Longrightarrow> reader_le (readOneFile env fs inc) (readOneFile env fs inc')"
  by (auto simp: reader_le_def [of "readOneFile env fs inc"] readOneFile_def split: sum.splits
      dest: loop_option_mono [where g = "read_line env inc'"] read_line_mono)

lemma includeFile_mono:
  assumes "reader_le rd rd'"
  shows "reader_le (includeFile fs rd) (includeFile fs rd')"
proof -
  have "include_entry fs rd' path c n = Some q" if "include_entry fs rd path c n = Some q" for path c n q
    using assms that by (auto simp: include_entry_def reader_le_def split: sum.splits if_splits)
  then have "loop_option (include_entry fs rd' path) c ns = Some r" if "loop_option (include_entry fs rd path) c ns = Some r" for path c ns r
    using loop_option_mono [OF that] by blast
  then show ?thesis using assms by (auto simp: reader_le_def includeFile_def split: sum.splits if_splits)
qed

lemma Conf_read_Suc: "reader_le (Conf_read env fs n) (Conf_read env fs (Suc n))"
proof (induction n)
  case (Suc n)
  then have "reader_le (readOneFile env fs (includeFile fs (Conf_read env fs n)))
      (readOneFile env fs (includeFile fs (Conf_read env fs (Suc n))))"
    by (intro readOneFile_mono includeFile_mono)
  then show ?case by (simp add: reader_le_def)
qed (simp add: reader_le_def)

lemma Conf_read_mono: "n \<le> m \<Longrightarrow> Conf_read env fs n path c = Some r \<Longrightarrow> Conf_read env fs m path c = Some r"
proof (induction m rule: dec_induct)
  case (step m)
  then show ?case using Conf_read_Suc [of env fs m] by (auto simp: reader_le_def)
qed

text \<open>The files that an \<open>include\<close> of a path reads.\<close>

definition include_targets :: "file_system \<Rightarrow> string \<Rightarrow> string set" where
  "include_targets fs path =
     (case fs_is_directory fs path of
        Inr True \<Rightarrow> (case fs_entries fs path of Inr names \<Rightarrow> {path @ ''/'' @ n | n. n \<in> set names \<and> included_name n} | _ \<Rightarrow> {})
      | Inr False \<Rightarrow> {path}
      | _ \<Rightarrow> {})"

definition included_files :: "file_system \<Rightarrow> string \<Rightarrow> string set" where
  "included_files fs path =
     (case fs_read fs path of
        Inl _ \<Rightarrow> {}
      | Inr content \<Rightarrow> {q. \<exists>line depth p bs. line \<in> set (file_lines content) \<and> split line = Some (depth, Inr (''include'' # p # bs)) \<and>
          q \<in> include_targets fs p})"

lemma loop_option_returns:
  "(\<And>s x. x \<in> set xs \<Longrightarrow> f s x \<noteq> None) \<Longrightarrow> loop_option f s xs \<noteq> None"
  by (induction xs arbitrary: s) (auto split: option.splits sum.splits)

lemma include_directive: "d \<in> set directives \<Longrightarrow> dir_set d = Include \<Longrightarrow> dir_name d = ''include''"
  by (auto simp: directives_def store_directives_def global_directives_def graph_directives_def policy_directives_def
      inheritable_directives_def host_directives_def volume_directives_def color_directive_def inheritable_def host_only_def
      volume_only_def set_conf_def set_context_def set_host_def set_volume_def)

lemma lines_from_chars: "l \<in> set (lines_from line s) \<Longrightarrow> set l \<subseteq> set line \<union> (set s - {LF}) \<and> (LF \<notin> set line \<longrightarrow> LF \<notin> set l)"
  by (induction line s rule: lines_from.induct) (auto split: if_splits)

lemma read_line_returns:
  assumes "LF \<notin> set line" "VT \<notin> set line"
    "\<And>depth p bs c. split line = Some (depth, Inr (''include'' # p # bs)) \<Longrightarrow> inc p c \<noteq> None"
  shows "read_line env inc s line \<noteq> None"
proof -
  obtain cc ind where s: "s = (cc, ind)" by force
  obtain i rest where i: "scan_indent 0 line = (i, rest)" by force
  have "set rest \<subseteq> set line"
  proof -
    have "set (snd (scan_indent n l)) \<subseteq> set l" for n l by (induction n l rule: scan_indent.induct) auto
    from this [of 0 line] show ?thesis using i by simp
  qed
  then obtain b where b: "split line = Some (i, b)"
    using split_words_returns [of rest "[]"] assms(1,2) i by (auto simp: split_def)
  show ?thesis
  proof (cases b)
    case (Inr bits)
    show ?thesis
    proof (cases bits)
      case (Cons w ws)
      have "run_action env inc (dir_set d) cc' \<noteq> None"
        if "find_directive w = Some d" "cc_bits cc' = w # ws" for d cc'
      proof (cases "dir_set d")
        case Include
        then have "w = ''include''" using find_directive [OF that(1)] include_directive by auto
        then show ?thesis using that(2) Include assms(3) b Inr Cons
          by (cases ws) (auto simp: run_action_def arg_def split: sum.splits)
      qed (simp add: run_action_def)
      moreover have "cc_bits cc' = cc_bits cc" if "select_level l cc = Inr cc'" for l cc cc'
        using that by (auto simp: select_level_def split: if_splits)
      ultimately show ?thesis using s b Inr Cons
        by (auto simp: read_line_def read_directive_def Let_def result_simps split: option.splits prod.splits sum.splits if_splits)
    qed (simp add: s b Inr read_line_def Let_def)
  qed (simp add: s b read_line_def Let_def)
qed

lemma includeFile_returns:
  assumes "\<And>q c. q \<in> include_targets fs p \<Longrightarrow> rd q c \<noteq> None"
  shows "includeFile fs rd p c \<noteq> None"
proof (cases "fs_is_directory fs p")
  case (Inr dir)
  show ?thesis
  proof (cases dir)
    case True
    show ?thesis
    proof (cases "fs_entries fs p")
      case ns: (Inr names)
      have "include_entry fs rd p c n \<noteq> None" if "n \<in> set (sort names)" for c n
        using that assms [of "p @ ''/'' @ n"] Inr True ns by (auto simp: include_entry_def include_targets_def split: sum.splits)
      then show ?thesis using Inr True ns loop_option_returns [of "sort names" "include_entry fs rd p" c]
        by (auto simp: includeFile_def)
    qed (simp add: includeFile_def Inr True)
  qed (use Inr assms [of p c] in \<open>simp add: includeFile_def include_targets_def\<close>)
qed (simp add: includeFile_def)

text \<open>
  C26: If no file contains a vertical tab and the files include each other without a cycle (some rank goes
  down with every \<open>include\<close>), reading comes to an end: fuel for one level more than the rank is
  enough, and more fuel does not change the result.
\<close>

theorem configuration_read_returns:
  fixes rank :: "string \<Rightarrow> nat"
  assumes "\<And>p content. fs_read fs p = Inr content \<Longrightarrow> VT \<notin> set content"
    "\<And>p q. q \<in> included_files fs p \<Longrightarrow> rank q < rank p"
  shows "\<exists>r. \<forall>n > rank path. Conf_read env fs n path c = Some r"
proof -
  have "\<forall>path c. rank path < n \<longrightarrow> Conf_read env fs n path c \<noteq> None" for n
  proof (induction n)
    case (Suc n)
    show ?case
    proof (intro allI impI)
      fix path c assume r: "rank path < Suc n"
      show "Conf_read env fs (Suc n) path c \<noteq> None"
      proof (cases "fs_read fs path")
        case (Inr content)
        have inc: "includeFile fs (Conf_read env fs n) p c \<noteq> None"
          if "line \<in> set (file_lines content)" "split line = Some (depth, Inr (''include'' # p # bs))" for line depth p bs c
        proof -
          have "q \<in> included_files fs path" if "q \<in> include_targets fs p" for q
            using that Inr \<open>line \<in> _\<close> \<open>split line = _\<close> by (auto simp: included_files_def)
          then have "Conf_read env fs n q c \<noteq> None" if "q \<in> include_targets fs p" for q c
            using Suc.IH assms(2) r that by (meson less_Suc_eq_le less_le_trans)
          then show ?thesis by (rule includeFile_returns)
        qed
        have "loop_option (read_line env (includeFile fs (Conf_read env fs n))) s (file_lines content) \<noteq> None" for s
        proof (rule loop_option_returns, rule read_line_returns)
          fix line assume l: "line \<in> set (file_lines content)"
          then show "LF \<notin> set line" "VT \<notin> set line"
            using assms(1) [OF Inr] lines_from_chars [of line "[]" content] by (auto simp: file_lines_def)
        qed (use inc in blast)
        then show ?thesis using Inr by (auto simp: readOneFile_def)
      qed (simp add: readOneFile_def)
    qed
  qed simp
  then obtain r where "Conf_read env fs (Suc (rank path)) path c = Some r" by blast
  then show ?thesis using Conf_read_mono [of "Suc (rank path)" _ env fs path c r] by (auto simp: Suc_le_eq)
qed

section \<open>Concrete files\<close>

definition sample_env :: conf_env where
  "sample_env = \<lparr>env_strtod = (\<lambda>s. (0, s, None)), env_glob = (\<lambda>p. Inr [p])\<rparr>"

definition sample_file :: string where
  "sample_file = ''max-usage 90'' @ [LF] @ ''host h'' @ [LF] @ ''  volume v /v # comment'' @ [LF] @ ''    max-age 4d''"

definition sample_fs :: file_system where
  "sample_fs =
     \<lparr>fs_is_directory = (\<lambda>_. Inr False), fs_is_regular = (\<lambda>_. Inr True), fs_entries = (\<lambda>_. Inr []),
      fs_read = (\<lambda>p. if p = ''/c'' then Inr sample_file else Inl (IOError ''opening'' 2))\<rparr>"

lemma sample_sane: "env_sane sample_env" "fs_sane sample_fs"
  by (auto simp: env_sane_def fs_sane_def sample_env_def sample_fs_def fault_def)

definition sample_read :: "conf result option" where
  "sample_read = Conf_read sample_env sample_fs 1 ''/c'' (new_conf ''s'')"

definition read_summary :: "conf result option \<Rightarrow> (int \<times> (string \<times> (string \<times> int) list) list) option" where
  "read_summary r =
     (case r of Some (Inr c) \<Rightarrow> Some (c_maxUsage c, map (\<lambda>(n, h). (n, map (\<lambda>(n, v). (n, maxAge v)) (h_volumes h))) (c_hosts c))
      | _ \<Rightarrow> None)"

lemma sample_read: "read_summary sample_read = Some (90, [(''h'', [(''v'', 345600)])])"
  by code_simp

lemma configuration_read_ok_witness: "\<exists>c. sample_read = Some (Inr c) \<and> conf_ok c \<and> c_maxUsage c = 90"
proof -
  obtain c where c: "sample_read = Some (Inr c)" "c_maxUsage c = 90"
    using sample_read by (auto simp: read_summary_def split: option.splits sum.splits)
  then have "Conf_read sample_env sample_fs 1 ''/c'' (new_conf ''s'') = Some (Inr c)" by (simp only: sample_read_def)
  from configuration_read_ok [OF this new_conf_ok sample_sane] have "conf_ok c" by simp
  with c show ?thesis by blast
qed

lemma sample_included: "included_files sample_fs p = {}"
proof (cases "p = ''/c''")
  case True
  have "list_all (\<lambda>l. case split l of Some (_, Inr (w # _)) \<Rightarrow> w \<noteq> ''include'' | _ \<Rightarrow> True) (file_lines sample_file)"
    by code_simp
  then show ?thesis using True by (auto simp: included_files_def sample_fs_def list_all_iff)
qed (simp add: included_files_def sample_fs_def)

lemma configuration_read_returns_witness:
  "\<exists>r. \<forall>n > 0. Conf_read sample_env sample_fs n ''/c'' (new_conf ''s'') = Some r"
proof (rule configuration_read_returns [where rank = "\<lambda>_. 0"])
  show "VT \<notin> set content" if "fs_read sample_fs p = Inr content" for p content
    using that by (auto simp: sample_fs_def sample_file_def split: if_splits)
qed (simp add: sample_included)

section \<open>What can go wrong\<close>

text \<open>
  A file that includes itself is never read to its end, however much fuel there is.
\<close>

theorem include_itself_diverges:
  assumes "fs_read fs path = Inr (''include '' @ path @ [LF])" "fs_is_directory fs path = Inr False"
    "path \<noteq> []" "hd path \<noteq> CHR ''#''" "\<forall>ch \<in> set path. plain_char ch"
  shows "Conf_read env fs n path c = None"
proof (induction n arbitrary: c)
  case (Suc n)
  have lines: "lines_from l (s @ LF # r) = (l @ s) # lines_from [] r" if "LF \<notin> set s" for l s r
    using that by (induction s arbitrary: l) auto
  have l: "file_lines (''include '' @ path @ [LF]) = [''include '' @ path]"
  proof -
    have "LF \<notin> set path" using assms(5) plain_char_simps by blast
    then show ?thesis using lines [of "''include '' @ path" "[]" "[]"] by (simp add: file_lines_def)
  qed
  have "split (''include '' @ path) = Some (0, Inr [''include'', path])"
  proof -
    have "split_words (''include'' @ SP # path) [] = split_words (SP # path) [''include'']"
      using split_words_plain_word [of "''include''" "SP # path" "[]"] by (simp add: plain_char_def c_isspace_def)
    also have "\<dots> = Some (Inr [''include'', path])"
      using split_words_plain_word [OF assms(3-5), of "[]"] by simp
    finally show ?thesis by (simp add: split_def)
  qed
  moreover have "find_directive ''include'' = Some (D ''include'' 1 1 Include)"
    by (simp add: find_directive_def directives_def store_directives_def global_directives_def color_directive_def)
  ultimately have "read_line env (includeFile fs (Conf_read env fs n)) (new_ctx c path, new_indenter) (''include '' @ path) = None"
    using Suc.IH assms(2)
    by (simp add: read_line_def read_directive_def new_ctx_def new_indenter_def indent_check_def select_level_def dir_check_def
        check_arguments_def run_action_def includeFile_def Let_def D_def)
  then show ?case using assms(1) l by (simp add: readOneFile_def)
qed simp

lemma include_itself_diverges_witness:
  "Conf_read sample_env (sample_fs\<lparr>fs_read := \<lambda>p. Inr (''include /c'' @ [LF])\<rparr>) 7 ''/c'' (new_conf ''s'') = None"
  by (rule include_itself_diverges) (simp_all add: sample_fs_def plain_char_def c_isspace_def)

text \<open>
  A line that consists of nothing but the name of one of the eight unchecked directives makes the program
  read a word that is not there.
\<close>

theorem unchecked_directive_fault:
  assumes "w \<in> set unchecked_directives" "fs_read fs path = Inr (w @ [LF])"
  shows "readOneFile env fs inc path c = Some (Inl UndefinedBehaviour)"
proof -
  have "list_all (\<lambda>w. file_lines (w @ [LF]) = [w] \<and> split w = Some (0, Inr [w]) \<and> find_directive w \<noteq> None) unchecked_directives"
    by code_simp
  then obtain d where w: "file_lines (w @ [LF]) = [w]" "split w = Some (0, Inr [w])" "find_directive w = Some d"
    using assms(1) by (auto simp: list_all_iff)
  have "d \<in> set directives" "dir_name d = w" using find_directive [OF w(3)] by auto
  moreover have "list_all (\<lambda>d. dir_name d \<notin> set unchecked_directives)
      (store_directives @ global_directives @ policy_directives @ inheritable_directives @ host_directives @ volume_directives)"
    "list_all (\<lambda>d. dir_name d \<in> set unchecked_directives \<longrightarrow> dir_min d = 0 \<and> dir_max d = INT_MAX \<and> dir_kind d = AnyDirective \<and>
      dir_levels d = 1) graph_directives"
    by code_simp+
  ultimately have d: "d \<in> set graph_directives" "dir_min d = 0" "dir_max d = INT_MAX" "dir_kind d = AnyDirective" "dir_levels d = 1"
    using assms(1) unfolding directives_def list_all_iff by auto
  then have act: "case dir_set d of Include \<Rightarrow> False | Set f \<Rightarrow> f env cc = Inl UndefinedBehaviour" if "length (cc_bits cc) = 1" for cc
    using that by (auto simp: graph_directives_def set_conf_def get_float_def arg_def extend_words_def color_directive_def)
  then obtain f where f: "dir_set d = Set f" "\<And>cc. length (cc_bits cc) = 1 \<Longrightarrow> f env cc = Inl UndefinedBehaviour"
    using act [of "(new_ctx c path)\<lparr>cc_bits := [w]\<rparr>"] by (cases "dir_set d") auto
  then have "read_line env inc (new_ctx c path, new_indenter) w = Some (Inl UndefinedBehaviour)"
    using w d(2-)
    by (simp add: read_line_def read_directive_def new_ctx_def new_indenter_def indent_check_def select_level_def dir_check_def
        check_arguments_def run_action_def Let_def limits located_def)
  then show ?thesis using assms(2) w(1) by (simp add: readOneFile_def)
qed

lemma unchecked_directive_fault_witness:
  "readOneFile sample_env (sample_fs\<lparr>fs_read := \<lambda>p. Inr (''report'' @ [LF])\<rparr>) (\<lambda>_ _. None) ''/c'' (new_conf ''s'') =
     Some (Inl UndefinedBehaviour)"
  by (rule unchecked_directive_fault) (simp_all add: unchecked_directives_def)

end
