(* ===== verification/Selections.thy ===== *)
theory Selections
  imports Volumes
begin

text \<open>
  Which volumes the program works on: \<^verbatim>\<open>src/Selection.cc\<close>.  \<open>fnmatch\<close> (with no flags) is an argument that
  gives 0, \<open>FNM_NOMATCH\<close>, or another number for an error; \<open>seconds_of_day\<close> is the time of day in the fields
  that \<open>localtime_r\<close> fills in, or its failure.
\<close>

section \<open>Selections\<close>

record selection =
  sel_sense :: bool
  sel_host :: string
  sel_volume :: string

definition STAR :: string where "STAR = ''*''"

definition Selection :: "string \<Rightarrow> string \<Rightarrow> bool \<Rightarrow> selection result" where
  "Selection host volume sense =
     (if \<not> host_valid host \<and> host \<noteq> STAR then Inl (CommandError (''invalid host: '' @ quoted host))
      else if \<not> volume_valid volume \<and> volume \<noteq> STAR then Inl (CommandError (''invalid volume: '' @ quoted volume))
      else if host = STAR \<and> volume \<noteq> STAR then Inl (CommandError (''invalid host: '' @ quoted host))
      else Inr \<lparr>sel_sense = sense, sel_host = host, sel_volume = volume\<rparr>)"

definition selections_add :: "selection list \<Rightarrow> string \<Rightarrow> selection list result" where
  "selections_add ss selection =
     (if selection = [] then Inl (CommandError ''invalid selection'')
      else let sense = (hd selection \<noteq> CHR ''-'' \<and> hd selection \<noteq> CHR ''!'');
               rest = (if sense then selection else tl selection)
           in rbind (if CHR '':'' \<in> set rest
                     then Selection (takeWhile (\<lambda>c. c \<noteq> CHR '':'') rest) (tl (dropWhile (\<lambda>c. c \<noteq> CHR '':'') rest)) sense
                     else Selection rest STAR sense) (\<lambda>s. Inr (ss @ [s])))"

definition FNM_NOMATCH :: int where "FNM_NOMATCH = 1"

text \<open>What a selection does to one volume.\<close>

definition select_volume :: "selection_purpose \<Rightarrow> bool \<Rightarrow> int option \<Rightarrow> volume \<Rightarrow> volume" where
  "select_volume purpose sense current_time v =
     (case current_time of
        None \<Rightarrow> volume_select purpose sense v
      | Some t \<Rightarrow> if t < earliest v \<or> t > latest v then v else volume_select purpose sense v)"

definition select_volumes ::
    "(string \<Rightarrow> string \<Rightarrow> int) \<Rightarrow> string \<Rightarrow> string \<Rightarrow> selection_purpose \<Rightarrow> bool \<Rightarrow> int option \<Rightarrow> conf \<Rightarrow> conf" where
  "select_volumes fnmatch hosts volumes purpose sense current_time c =
     c\<lparr>c_hosts := om_map_values (\<lambda>h.
         if fnmatch hosts (h_name h) = FNM_NOMATCH then h
         else h\<lparr>h_volumes := om_map_values (\<lambda>v.
                if fnmatch volumes (v_name v) = FNM_NOMATCH then v
                else select_volume purpose sense current_time v) (h_volumes h)\<rparr>) (c_hosts c)\<rparr>"

definition purposes :: "selection_purpose list" where
  "purposes = [PurposeBackup, PurposePrune, PurposeGraph]"

definition selections_select ::
    "(string \<Rightarrow> string \<Rightarrow> int) \<Rightarrow> machine \<Rightarrow> (int \<Rightarrow> int option) \<Rightarrow> selection list \<Rightarrow> conf \<Rightarrow> conf result" where
  "selections_select fnmatch m seconds_of_day ss c =
     (if ss = [] then
        rbind (now m ''BACKUP'') (\<lambda>t.
          case seconds_of_day t of
            None \<Rightarrow> Inl (SystemError ''localtime_r'')
          | Some current_time \<Rightarrow>
              Inr (foldl (\<lambda>c p. select_volumes fnmatch STAR STAR p True (if p = PurposeBackup then Some current_time else None) c)
                     c purposes))
      else Inr (foldl (\<lambda>c s. foldl (\<lambda>c p. select_volumes fnmatch (sel_host s) (sel_volume s) p (sel_sense s) None c)
                     c purposes) c ss))"

section \<open>What the selectors of the command line mean\<close>

definition valid_selection :: "selection \<Rightarrow> bool" where
  "valid_selection s \<longleftrightarrow> sel_host s = STAR \<and> sel_volume s = STAR \<or>
     host_valid (sel_host s) \<and> (volume_valid (sel_volume s) \<or> sel_volume s = STAR)"

text \<open>The ways to write a selection.\<close>

definition selector_texts :: "selection \<Rightarrow> string set" where
  "selector_texts s =
     {sg @ sel_host s @ v |sg v. (sel_sense s \<and> sg = [] \<or> \<not> sel_sense s \<and> sg \<in> {''-'', ''!''}) \<and>
        (v = '':'' @ sel_volume s \<or> sel_volume s = STAR \<and> v = [])}"

lemma star_facts [simp]: "STAR \<noteq> []" "\<not> host_valid STAR" "\<not> volume_valid STAR" "CHR '':'' \<notin> set STAR"
  by (simp_all add: STAR_def host_valid_def volume_valid_def valid_name_def c_isalnum_def c_isalpha_def
      c_isupper_def c_islower_def c_isdigit_def less_eq_char_def)

lemma valid_name_start: "valid_name ex n \<Longrightarrow> CHR ''!'' \<notin> set ex \<Longrightarrow> CHR '':'' \<notin> set ex \<Longrightarrow>
    n \<noteq> [] \<and> hd n \<noteq> CHR ''-'' \<and> hd n \<noteq> CHR ''!'' \<and> CHR '':'' \<notin> set n"
  by (cases n) (auto simp: valid_name_def list_all_iff c_isalnum_def c_isalpha_def c_isupper_def c_islower_def
      c_isdigit_def less_eq_char_def)

lemma host_valid_start: "host_valid n \<Longrightarrow> n \<noteq> [] \<and> hd n \<noteq> CHR ''-'' \<and> hd n \<noteq> CHR ''!'' \<and> CHR '':'' \<notin> set n"
  unfolding host_valid_def by (rule valid_name_start) auto

lemma Selection_iff:
  "Selection h v sense = Inr s \<longleftrightarrow> s = \<lparr>sel_sense = sense, sel_host = h, sel_volume = v\<rparr> \<and> valid_selection s"
  by (auto simp: Selection_def valid_selection_def)

lemma star_start: "hd STAR \<noteq> CHR ''-''" "hd STAR \<noteq> CHR ''!''"
  by (simp_all add: STAR_def)

lemma selection_host_start:
  "valid_selection s \<Longrightarrow> sel_host s \<noteq> [] \<and> hd (sel_host s) \<noteq> CHR ''-'' \<and> hd (sel_host s) \<noteq> CHR ''!'' \<and> CHR '':'' \<notin> set (sel_host s)"
  unfolding valid_selection_def using host_valid_start [of "sel_host s"] star_start star_facts(1,4) by metis

text \<open>
  A selector is accepted exactly when it is a host name, a host and a volume name with a colon between
  them, \<open>*\<close> for every host or for the volume, with a minus or exclamation mark in front when it deselects;
  it is then added as that selection.  No other pattern is a selector.
\<close>

theorem selectors_accepted:
  "selections_add ss arg = Inr ss' \<longleftrightarrow> (\<exists>s. ss' = ss @ [s] \<and> valid_selection s \<and> arg \<in> selector_texts s)"
proof
  assume a: "selections_add ss arg = Inr ss'"
  define sense where "sense = (hd arg \<noteq> CHR ''-'' \<and> hd arg \<noteq> CHR ''!'')"
  define rest where "rest = (if sense then arg else tl arg)"
  have ne: "arg \<noteq> []" using a by (auto simp: selections_add_def)
  then have arg: "arg = (if sense then [] else [hd arg]) @ rest" by (simp add: rest_def)
  have sg: "sense \<or> [hd arg] \<in> {''-'', ''!''}" by (auto simp: sense_def)
  define h where "h = (if CHR '':'' \<in> set rest then takeWhile (\<lambda>c. c \<noteq> CHR '':'') rest else rest)"
  define v where "v = (if CHR '':'' \<in> set rest then tl (dropWhile (\<lambda>c. c \<noteq> CHR '':'') rest) else STAR)"
  have "\<exists>s. Selection h v sense = Inr s \<and> ss' = ss @ [s]"
    using a ne by (auto simp: selections_add_def Let_def result_simps h_def v_def rest_def sense_def split: if_splits)
  then obtain s where s: "Selection h v sense = Inr s" "ss' = ss @ [s]" by blast
  have split: "rest = h @ '':'' @ v" if "CHR '':'' \<in> set rest"
  proof -
    from that have "dropWhile (\<lambda>c. c \<noteq> CHR '':'') rest = CHR '':'' # v"
      unfolding v_def using hd_dropWhile [of "\<lambda>c. c \<noteq> CHR '':''" rest]
      by (cases "dropWhile (\<lambda>c. c \<noteq> CHR '':'') rest") auto
    with that show ?thesis using takeWhile_dropWhile_id [of "\<lambda>c. c \<noteq> CHR '':''" rest] by (simp add: h_def)
  qed
  have rest': "rest = h @ (if CHR '':'' \<in> set rest then '':'' @ v else [])" using split by (auto simp: h_def)
  have "arg \<in> selector_texts s"
  proof -
    have "s = \<lparr>sel_sense = sense, sel_host = h, sel_volume = v\<rparr>" using s by (simp add: Selection_iff)
    moreover have "v = STAR" if "CHR '':'' \<notin> set rest" using that by (simp add: v_def)
    ultimately show ?thesis
      unfolding selector_texts_def using arg rest' sg
      by (intro CollectI exI [of _ "if sense then [] else [hd arg]"] exI [of _ "if CHR '':'' \<in> set rest then '':'' @ v else []"]) auto
  qed
  with s show "\<exists>s. ss' = ss @ [s] \<and> valid_selection s \<and> arg \<in> selector_texts s" by (auto simp: Selection_iff)
next
  assume "\<exists>s. ss' = ss @ [s] \<and> valid_selection s \<and> arg \<in> selector_texts s"
  then obtain s sg v where s: "ss' = ss @ [s]" "valid_selection s" "arg = sg @ sel_host s @ v"
    "sel_sense s \<and> sg = [] \<or> \<not> sel_sense s \<and> sg \<in> {''-'', ''!''}" "v = '':'' @ sel_volume s \<or> sel_volume s = STAR \<and> v = []"
    by (auto simp: selector_texts_def)
  note h = selection_host_start [OF s(2)]
  have sense: "sel_sense s = (hd arg \<noteq> CHR ''-'' \<and> hd arg \<noteq> CHR ''!'')" "arg \<noteq> []"
    "(if sel_sense s then arg else tl arg) = sel_host s @ v"
    using s(3,4) h by (auto simp: hd_append)
  have tw: "takeWhile (\<lambda>c. c \<noteq> CHR '':'') (sel_host s @ '':'' @ w) = sel_host s"
    "dropWhile (\<lambda>c. c \<noteq> CHR '':'') (sel_host s @ '':'' @ w) = '':'' @ w" for w
    using h by (auto simp: takeWhile_append2 dropWhile_append2)
  have "Selection (sel_host s) (sel_volume s) (sel_sense s) = Inr s" using s(2) by (simp add: Selection_iff)
  then show "selections_add ss arg = Inr ss'"
    using s(1,5) h sense tw by (auto simp: selections_add_def Let_def)
qed


section \<open>Changing every volume\<close>

definition change_volumes :: "(string \<Rightarrow> volume \<Rightarrow> volume) \<Rightarrow> conf \<Rightarrow> conf" where
  "change_volumes f c =
     c\<lparr>c_hosts := om_map_values (\<lambda>h. h\<lparr>h_volumes := om_map_values (f (h_name h)) (h_volumes h)\<rparr>) (c_hosts c)\<rparr>"

lemma om_map_values_comp [simp]: "om_map_values f (om_map_values g m) = om_map_values (\<lambda>x. f (g x)) m"
  by (simp add: om_map_values_def split_beta)

lemma om_map_values_id [simp]: "om_map_values (\<lambda>x. x) m = m"
  by (simp add: om_map_values_def)

lemma change_volumes_comp: "change_volumes f (change_volumes g c) = change_volumes (\<lambda>n v. f n (g n v)) c"
  by (simp add: change_volumes_def)

lemma change_volumes_foldl:
  "foldl (\<lambda>c x. change_volumes (F x) c) c xs = change_volumes (\<lambda>n v. foldl (\<lambda>v x. F x n v) v xs) c"
proof (induction xs arbitrary: c)
  case Nil
  then show ?case by (simp add: change_volumes_def)
qed (simp add: change_volumes_comp)

lemma change_volumes_findHost:
  "findHost hn (change_volumes f c) =
     map_option (\<lambda>h. h\<lparr>h_volumes := om_map_values (f (h_name h)) (h_volumes h)\<rparr>) (findHost hn c)"
  by (simp add: findHost_def change_volumes_def)

lemma change_volumes_findVolume:
  "findHost hn c = Some h \<Longrightarrow> findVolume hn vn (change_volumes f c) = map_option (f (h_name h)) (findVolume hn vn c)"
  by (simp add: findVolume_def change_volumes_findHost host_findVolume_def)

lemma change_volumes_rest: "(change_volumes f c)\<lparr>c_hosts := c_hosts c\<rparr> = c"
  by (simp add: change_volumes_def)

lemma select_volumes_change:
  "select_volumes fnmatch hosts volumes p sense ct =
     change_volumes (\<lambda>hn v. if fnmatch hosts hn \<noteq> FNM_NOMATCH \<and> fnmatch volumes (v_name v) \<noteq> FNM_NOMATCH
       then select_volume p sense ct v else v)"
proof (rule ext)
  fix c
  have "(if b then h else h\<lparr>h_volumes := om_map_values (\<lambda>v. if B v then v else F v) (h_volumes h)\<rparr>) =
      h\<lparr>h_volumes := om_map_values (\<lambda>v. if \<not> b \<and> \<not> B v then F v else v) (h_volumes h)\<rparr>" for b B F and h :: host
  proof (cases b)
    case False
    have "(\<lambda>v. if B v then v else F v) = (\<lambda>v. if \<not> B v then F v else v)" by auto
    with False show ?thesis by simp
  qed simp
  then show "select_volumes fnmatch hosts volumes p sense ct c = change_volumes (\<lambda>hn v.
      if fnmatch hosts hn \<noteq> FNM_NOMATCH \<and> fnmatch volumes (v_name v) \<noteq> FNM_NOMATCH
      then select_volume p sense ct v else v) c"
    by (simp add: select_volumes_def change_volumes_def)
qed

section \<open>Which volumes are selected\<close>

text \<open>What is used of \<open>fnmatch\<close>: \<open>*\<close> matches everything, and a name matches itself alone.\<close>

definition fnmatch_names :: "(string \<Rightarrow> string \<Rightarrow> int) \<Rightarrow> bool" where
  "fnmatch_names fnmatch \<longleftrightarrow> (\<forall>n. fnmatch STAR n = 0) \<and>
     (\<forall>p n. list_all (\<lambda>c. c_isalnum c \<or> c \<in> set ''-._'') p \<longrightarrow> fnmatch p n = (if p = n then 0 else FNM_NOMATCH))"

definition names_volume :: "string \<Rightarrow> string \<Rightarrow> selection \<Rightarrow> bool" where
  "names_volume hn vn s \<longleftrightarrow> sel_host s \<in> {STAR, hn} \<and> sel_volume s \<in> {STAR, vn}"

lemma volume_selected_select [simp]:
  "volume_selected (volume_select p sense v) q = (if q = p then sense else volume_selected v q)"
  by (auto simp: volume_selected_def volume_select_def)

lemma volume_select_others [simp]:
  "v_name (volume_select p sense v) = v_name v" "earliest (volume_select p sense v) = earliest v"
  "latest (volume_select p sense v) = latest v" "(volume_select p sense v)\<lparr>v_selected := x\<rparr> = v\<lparr>v_selected := x\<rparr>"
  by (simp_all add: volume_select_def)

lemma select_volume_simps [simp]:
  "volume_selected (select_volume p sense ct v) q =
     (if q = p \<and> (\<forall>t. ct = Some t \<longrightarrow> earliest v \<le> t \<and> t \<le> latest v) then sense else volume_selected v q)"
  "v_name (select_volume p sense ct v) = v_name v" "earliest (select_volume p sense ct v) = earliest v"
  "latest (select_volume p sense ct v) = latest v" "(select_volume p sense ct v)\<lparr>v_selected := x\<rparr> = v\<lparr>v_selected := x\<rparr>"
  by (auto simp: select_volume_def split: option.splits)

lemma purpose_in: "p \<in> set purposes"
  by (cases p) (simp_all add: purposes_def)

lemma valid_plain: "host_valid n \<Longrightarrow> list_all (\<lambda>c. c_isalnum c \<or> c \<in> set ''-._'') n"
  "volume_valid n \<Longrightarrow> list_all (\<lambda>c. c_isalnum c \<or> c \<in> set ''-._'') n"
  by (auto simp: host_valid_def volume_valid_def valid_name_def list_all_iff)

lemma fnmatch_selection:
  assumes "fnmatch_names fnmatch" "valid_selection s"
  shows "fnmatch (sel_host s) hn \<noteq> FNM_NOMATCH \<and> fnmatch (sel_volume s) vn \<noteq> FNM_NOMATCH \<longleftrightarrow> names_volume hn vn s"
  using assms valid_plain [of "sel_host s"] valid_plain [of "sel_volume s"]
  by (auto simp: fnmatch_names_def names_volume_def valid_selection_def FNM_NOMATCH_def)

text \<open>One selection, for every purpose.\<close>

definition apply_selection :: "(string \<Rightarrow> string \<Rightarrow> int) \<Rightarrow> selection \<Rightarrow> string \<Rightarrow> volume \<Rightarrow> volume" where
  "apply_selection fnmatch s hn v = foldl (\<lambda>v p. if fnmatch (sel_host s) hn \<noteq> FNM_NOMATCH \<and>
     fnmatch (sel_volume s) (v_name v) \<noteq> FNM_NOMATCH then select_volume p (sel_sense s) None v else v) v purposes"

lemma apply_selection:
  assumes "fnmatch_names fnmatch" "valid_selection s"
  shows "volume_selected (apply_selection fnmatch s hn v) p =
      (if names_volume hn (v_name v) s then sel_sense s else volume_selected v p)"
    "v_name (apply_selection fnmatch s hn v) = v_name v"
    "(apply_selection fnmatch s hn v)\<lparr>v_selected := x\<rparr> = v\<lparr>v_selected := x\<rparr>"
  using purpose_in [of p]
  by (auto simp: apply_selection_def purposes_def fnmatch_selection [OF assms])

lemma selections_select_change:
  assumes "ss \<noteq> []"
  shows "selections_select fnmatch m secs ss c = Inr (change_volumes (\<lambda>hn v. foldl (\<lambda>v s. apply_selection fnmatch s hn v) v ss) c)"
  using assms
  by (simp add: selections_select_def select_volumes_change change_volumes_foldl apply_selection_def)

lemma fold_selections:
  fixes v :: volume and hn :: string
  assumes "fnmatch_names fnmatch" "\<forall>s \<in> set ss. valid_selection s"
  defines "v' \<equiv> foldl (\<lambda>v s. apply_selection fnmatch s hn v) v ss"
  shows "volume_selected v' p = (case find (names_volume hn (v_name v)) (rev ss) of None \<Rightarrow> volume_selected v p | Some s \<Rightarrow> sel_sense s)"
    "v_name v' = v_name v" "v'\<lparr>v_selected := x\<rparr> = v\<lparr>v_selected := x\<rparr>"
  unfolding v'_def using assms(2)
  by (induction ss rule: rev_induct) (auto simp: apply_selection [OF assms(1)])

text \<open>
  C11: When selectors are given, the last one that names a volume decides for every purpose whether the volume
  is selected; a volume that none names stays as it was.  Nothing else of the configuration changes.
\<close>

theorem last_selector_decides:
  assumes "ss \<noteq> []" "\<forall>s \<in> set ss. valid_selection s" "fnmatch_names fnmatch"
    "findHost hn c = Some h" "findVolume hn vn c = Some v"
  shows "\<exists>c' v'. selections_select fnmatch m secs ss c = Inr c' \<and> c'\<lparr>c_hosts := c_hosts c\<rparr> = c \<and>
    findVolume hn vn c' = Some v' \<and> v'\<lparr>v_selected := v_selected v\<rparr> = v \<and>
    volume_selected v' p = (case find (names_volume (h_name h) (v_name v)) (rev ss) of
      None \<Rightarrow> volume_selected v p | Some s \<Rightarrow> sel_sense s)"
proof -
  let ?f = "\<lambda>hn v. foldl (\<lambda>v s. apply_selection fnmatch s hn v) v ss"
  have "findVolume hn vn (change_volumes ?f c) = Some (?f (h_name h) v)"
    using change_volumes_findVolume [OF assms(4)] assms(5) by simp
  moreover have "(?f (h_name h) v)\<lparr>v_selected := v_selected v\<rparr> = v"
    using fold_selections(3) [OF assms(3,2)] by simp
  ultimately show ?thesis
    using selections_select_change [OF assms(1)] change_volumes_rest fold_selections(1) [OF assms(3,2)] by blast
qed


definition sample_fnmatch :: "string \<Rightarrow> string \<Rightarrow> int" where
  "sample_fnmatch p n = (if p = STAR \<or> p = n then 0 else FNM_NOMATCH)"

definition sample_selected_conf :: conf where
  "sample_selected_conf =
     (let c = new_conf ''s''; h = new_host c ''h''
      in c\<lparr>c_hosts := [(''h'', h\<lparr>h_volumes := [(''v'', new_volume h ''v'' ''/v''), (''w'', new_volume h ''w'' ''/w'')]\<rparr>)]\<rparr>)"

lemma sample_fnmatch_names: "fnmatch_names sample_fnmatch"
  by (auto simp: fnmatch_names_def sample_fnmatch_def STAR_def c_isalnum_def c_isalpha_def c_isupper_def c_islower_def
      c_isdigit_def less_eq_char_def)

lemma sample_selected_names:
  "findHost ''h'' sample_selected_conf = Some (snd (hd (c_hosts sample_selected_conf)))"
  "h_name (snd (hd (c_hosts sample_selected_conf))) = ''h''"
  "\<exists>v. findVolume ''h'' ''w'' sample_selected_conf = Some v \<and> v_name v = ''w'' \<and> earliest v = 0 \<and> latest v = 86400 \<and>
     v_selected v = []"
proof -
  have n: "namelt ''v'' ''w''" "\<not> namelt ''w'' ''w''" "\<not> namelt ''h'' ''h''" by code_simp+
  show "findHost ''h'' sample_selected_conf = Some (snd (hd (c_hosts sample_selected_conf)))"
    by (simp add: sample_selected_conf_def Let_def findHost_def n)
  show "h_name (snd (hd (c_hosts sample_selected_conf))) = ''h''"
    by (simp add: sample_selected_conf_def Let_def new_host_def conf_base.defs)
  show "\<exists>v. findVolume ''h'' ''w'' sample_selected_conf = Some v \<and> v_name v = ''w'' \<and> earliest v = 0 \<and> latest v = 86400 \<and>
     v_selected v = []"
    by (simp add: sample_selected_conf_def Let_def findHost_def findVolume_def host_findVolume_def n new_host_def new_volume_def
        new_conf_def conf_base.defs conf_base_inherit_def conf_base_default_def)
qed

lemma last_selector_decides_witness:
  "\<forall>m secs. \<exists>c' v'. selections_select sample_fnmatch m secs
      [\<lparr>sel_sense = True, sel_host = ''h'', sel_volume = STAR\<rparr>, \<lparr>sel_sense = False, sel_host = ''h'', sel_volume = ''w''\<rparr>]
      sample_selected_conf = Inr c' \<and> findVolume ''h'' ''w'' c' = Some v' \<and> \<not> volume_selected v' PurposePrune"
proof (intro allI)
  fix m secs
  obtain v where v: "findVolume ''h'' ''w'' sample_selected_conf = Some v" "v_name v = ''w''" using sample_selected_names(3) by blast
  have "host_valid ''h''" "volume_valid ''w''" by code_simp+
  then have "\<forall>s \<in> set [\<lparr>sel_sense = True, sel_host = ''h'', sel_volume = STAR\<rparr>, \<lparr>sel_sense = False, sel_host = ''h'', sel_volume = ''w''\<rparr>].
      valid_selection s"
    by (simp add: valid_selection_def)
  from last_selector_decides [OF _ this sample_fnmatch_names sample_selected_names(1) v(1), of m secs PurposePrune]
  show "\<exists>c' v'. selections_select sample_fnmatch m secs
      [\<lparr>sel_sense = True, sel_host = ''h'', sel_volume = STAR\<rparr>, \<lparr>sel_sense = False, sel_host = ''h'', sel_volume = ''w''\<rparr>]
      sample_selected_conf = Inr c' \<and> findVolume ''h'' ''w'' c' = Some v' \<and> \<not> volume_selected v' PurposePrune"
    using v(2) by (auto simp: sample_selected_names(2) names_volume_def)
qed

text \<open>
  Without selectors every volume is selected for pruning and for the graph, and for a backup exactly when
  the time of day lies between the volume's earliest and latest (or it was selected already).
\<close>

theorem everything_selected:
  assumes "fnmatch_names fnmatch" "now m ''BACKUP'' = Inr t" "secs t = Some s"
    "findHost hn c = Some h" "findVolume hn vn c = Some v"
  shows "\<exists>c' v'. selections_select fnmatch m secs [] c = Inr c' \<and> c'\<lparr>c_hosts := c_hosts c\<rparr> = c \<and>
    findVolume hn vn c' = Some v' \<and> v'\<lparr>v_selected := v_selected v\<rparr> = v \<and>
    volume_selected v' PurposePrune \<and> volume_selected v' PurposeGraph \<and>
    (volume_selected v' PurposeBackup = (earliest v \<le> s \<and> s \<le> latest v \<or> volume_selected v PurposeBackup))"
proof -
  define f where "f = (\<lambda>p (hn :: string) v.
    if fnmatch STAR hn \<noteq> FNM_NOMATCH \<and> fnmatch STAR (v_name v) \<noteq> FNM_NOMATCH
    then select_volume p True (if p = PurposeBackup then Some s else None) v else v)"
  have "selections_select fnmatch m secs [] c = Inr (foldl (\<lambda>c p. change_volumes (f p) c) c purposes)"
    by (simp add: selections_select_def assms(2,3) f_def select_volumes_change)
  moreover have "findVolume hn vn (change_volumes (\<lambda>n v. foldl (\<lambda>v p. f p n v) v purposes) c) =
      Some (foldl (\<lambda>v p. f p (h_name h) v) v purposes)"
    using change_volumes_findVolume [OF assms(4)] assms(5) by simp
  moreover define v' where "v' = foldl (\<lambda>v p. f p (h_name h) v) v purposes"
  moreover have "f p n v = select_volume p True (if p = PurposeBackup then Some s else None) v" for p n v
    using assms(1) by (simp add: f_def fnmatch_names_def FNM_NOMATCH_def)
  then have "v'\<lparr>v_selected := v_selected v\<rparr> = v" "volume_selected v' PurposePrune" "volume_selected v' PurposeGraph"
    "volume_selected v' PurposeBackup = (earliest v \<le> s \<and> s \<le> latest v \<or> volume_selected v PurposeBackup)"
    by (auto simp: v'_def purposes_def)
  ultimately show ?thesis by (simp add: change_volumes_foldl change_volumes_rest)
qed

lemma everything_selected_witness:
  "\<exists>c' v'. selections_select sample_fnmatch \<lparr>localtime = \<lambda>_. None, getenv = \<lambda>_. None, strptime = \<lambda>_. None, clock = 90000\<rparr>
      (\<lambda>t. Some (t mod 86400)) [] sample_selected_conf = Inr c' \<and> findVolume ''h'' ''w'' c' = Some v' \<and>
    volume_selected v' PurposeBackup"
proof -
  obtain v where v: "findVolume ''h'' ''w'' sample_selected_conf = Some v" "earliest v = 0" "latest v = 86400"
    using sample_selected_names(3) by blast
  have "now \<lparr>localtime = \<lambda>_. None, getenv = \<lambda>_. None, strptime = \<lambda>_. None, clock = 90000\<rparr> ''BACKUP'' = Inr 90000"
    by (simp add: now_def date_now_def override_time_def)
  from everything_selected [OF sample_fnmatch_names this, of "\<lambda>t. Some (t mod 86400)", OF _ sample_selected_names(1) v(1)]
  show ?thesis using v(2,3) by auto
qed

end
