(* ===== verification/Commands.thy ===== *)
theory Commands
  imports Selections "HOL-Library.Word"
begin

unbundle bit_operations_syntax

text \<open>
  The command line: \<^verbatim>\<open>src/Command.h\<close> and \<^verbatim>\<open>src/Command.cc\<close>, the warning mask of \<^verbatim>\<open>src/Utils.h\<close>, and
  from \<^verbatim>\<open>src/rsbackup.cc\<close> the stores that the command line overrides and the order of the tasks.
  \<open>getopt_long\<close> is modelled as the program uses it: options end at the first operand, a long option may be
  abbreviated to a prefix that no other one has, and anything else is the answer \<open>?\<close>.
\<close>

section \<open>Warnings\<close>

type_synonym warning_mask = "32 word"

definition WARNING_UNKNOWN :: warning_mask where "WARNING_UNKNOWN = 0x1"
definition WARNING_STORE :: warning_mask where "WARNING_STORE = 0x2"
definition WARNING_DEPRECATED :: warning_mask where "WARNING_DEPRECATED = 0x4"
definition WARNING_PARTIAL :: warning_mask where "WARNING_PARTIAL = 0x8"
definition WARNING_VERBOSE :: warning_mask where "WARNING_VERBOSE = 0x10"
definition WARNING_ERRORLOGS :: warning_mask where "WARNING_ERRORLOGS = 0x20"
definition WARNING_DATABASE :: warning_mask where "WARNING_DATABASE = 0x40"
definition WARNING_UNREACHABLE :: warning_mask where "WARNING_UNREACHABLE = 0x80"

definition DEFAULT_WARNING_MASK :: warning_mask where
  "DEFAULT_WARNING_MASK = WARNING_DEPRECATED OR WARNING_PARTIAL OR WARNING_ERRORLOGS OR WARNING_DATABASE"

section \<open>The parsed command line\<close>

datatype log_verbosity = All | Errors | Recent | Latest | Failures

record command =
  cmd_backup :: bool
  cmd_prune :: bool
  cmd_pruneIncomplete :: bool
  cmd_retire :: bool
  cmd_retireDevice :: bool
  cmd_dumpConfig :: bool
  cmd_checkUnexpected :: bool
  cmd_latest :: bool
  cmd_html :: "string option"
  cmd_text :: "string option"
  cmd_email :: "string option"
  cmd_stores :: "string list"
  cmd_unmountedStores :: "string list"
  cmd_wait :: bool
  cmd_act :: bool
  cmd_force :: bool
  cmd_eol :: char
  cmd_forgetOnly :: bool
  cmd_logVerbosity :: log_verbosity
  cmd_devices :: "string list"
  cmd_selections :: "selection list"
  cmd_warnings :: warning_mask
  cmd_debug :: bool
  cmd_configPath :: string
  cmd_database :: string
  cmd_databaseVersion :: int

text \<open>\<open>config_path\<close> is \<open>DEFAULT_CONFIG\<close>, which the build sets.\<close>

definition new_command :: "string \<Rightarrow> command" where
  "new_command config_path =
     \<lparr>cmd_backup = False, cmd_prune = False, cmd_pruneIncomplete = False, cmd_retire = False, cmd_retireDevice = False,
      cmd_dumpConfig = False, cmd_checkUnexpected = False, cmd_latest = False, cmd_html = None, cmd_text = None,
      cmd_email = None, cmd_stores = [], cmd_unmountedStores = [], cmd_wait = False, cmd_act = True, cmd_force = False,
      cmd_eol = LF, cmd_forgetOnly = False, cmd_logVerbosity = Failures, cmd_devices = [], cmd_selections = [],
      cmd_warnings = DEFAULT_WARNING_MASK, cmd_debug = False, cmd_configPath = config_path, cmd_database = [],
      cmd_databaseVersion = INT_MAX\<rparr>"

definition countActions :: "command \<Rightarrow> int" where
  "countActions c =
     of_bool (cmd_backup c) + of_bool (cmd_html c \<noteq> None) + of_bool (cmd_text c \<noteq> None) + of_bool (cmd_email c \<noteq> None) +
     of_bool (cmd_prune c) + of_bool (cmd_pruneIncomplete c) + of_bool (cmd_retireDevice c) + of_bool (cmd_retire c) +
     of_bool (cmd_checkUnexpected c) + of_bool (cmd_dumpConfig c) + of_bool (cmd_latest c)"

definition readWriteActions :: "command \<Rightarrow> bool" where
  "readWriteActions c \<longleftrightarrow> cmd_backup c \<or> cmd_prune c \<or> cmd_pruneIncomplete c \<or> cmd_retireDevice c \<or> cmd_retire c"

section \<open>Options\<close>

datatype option_value =
    Short char | RETIRE_DEVICE | RETIRE | WARN_UNKNOWN | WARN_STORE | WARN_UNREACHABLE | WARN_PARTIAL | REPEAT_ERRORS
  | NO_REPEAT_ERRORS | NO_WARN_PARTIAL | LOG_VERBOSITY | DUMP_CONFIG | FORGET_ONLY | UNMOUNTED_STORE | CHECK_UNEXPECTED
  | LATEST

text \<open>Name, whether an argument is required, and value.\<close>

definition long_options :: "(string \<times> bool \<times> option_value) list" where
  "long_options =
     [(''help'', False, Short CHR ''h''), (''version'', False, Short CHR ''V''), (''backup'', False, Short CHR ''b''),
      (''html'', True, Short CHR ''H''), (''text'', True, Short CHR ''T''), (''email'', True, Short CHR ''e''),
      (''prune'', False, Short CHR ''p''), (''prune-incomplete'', False, Short CHR ''P''), (''store'', True, Short CHR ''s''),
      (''unmounted-store'', True, UNMOUNTED_STORE), (''retire-device'', False, RETIRE_DEVICE), (''retire'', False, RETIRE),
      (''config'', True, Short CHR ''c''), (''wait'', False, Short CHR ''w''), (''force'', False, Short CHR ''f''),
      (''dry-run'', False, Short CHR ''n''), (''verbose'', False, Short CHR ''v''), (''warn-unknown'', False, WARN_UNKNOWN),
      (''warn-store'', False, WARN_STORE), (''warn-unreachable'', False, WARN_UNREACHABLE),
      (''warn-partial'', False, WARN_PARTIAL), (''no-warn-partial'', False, NO_WARN_PARTIAL),
      (''errors'', False, REPEAT_ERRORS), (''no-errors'', False, NO_REPEAT_ERRORS), (''warn-all'', False, Short CHR ''W''),
      (''debug'', False, Short CHR ''d''), (''logs'', True, LOG_VERBOSITY), (''dump-config'', False, DUMP_CONFIG),
      (''database'', True, Short CHR ''D''), (''forget-only'', False, FORGET_ONLY),
      (''check-unexpected'', False, CHECK_UNEXPECTED), (''null'', False, Short CHR ''0''), (''latest'', False, LATEST)]"

text \<open>The option string \<^verbatim>\<open>+hVbH:T:e:pPs:c:wnfvdWD:0\<close>: whether a letter takes an argument, if it is one.\<close>

definition short_option :: "char \<Rightarrow> bool option" where
  "short_option c =
     (if c \<in> set ''HTescD'' then Some True else if c \<in> set ''hVbpPwnfvdW0'' then Some False else None)"

text \<open>What \<open>getopt_long\<close> returns: a value with \<open>optarg\<close>, or \<open>?\<close>.\<close>

datatype opt = Opt option_value string | BadOpt

fun getopt_cluster :: "string \<Rightarrow> string list \<Rightarrow> opt list \<times> string list option" where
  "getopt_cluster [] args = ([], Some args)"
| "getopt_cluster (c # cs) args =
     (case short_option c of
        None \<Rightarrow> ([BadOpt], None)
      | Some False \<Rightarrow> (let (os, r) = getopt_cluster cs args in (Opt (Short c) [] # os, r))
      | Some True \<Rightarrow>
          if cs \<noteq> [] then ([Opt (Short c) cs], Some args)
          else (case args of [] \<Rightarrow> ([BadOpt], None) | a # args \<Rightarrow> ([Opt (Short c) a], Some args)))"

definition find_long :: "string \<Rightarrow> (string \<times> bool \<times> option_value) option" where
  "find_long n =
     (case find (\<lambda>(m, _). m = n) long_options of
        Some l \<Rightarrow> Some l
      | None \<Rightarrow> (case filter (\<lambda>(m, _). take (length n) m = n) long_options of [l] \<Rightarrow> Some l | _ \<Rightarrow> None))"

definition getopt_long1 :: "string \<Rightarrow> string list \<Rightarrow> opt list \<times> string list option" where
  "getopt_long1 w args =
     (case find_long (takeWhile (\<lambda>c. c \<noteq> CHR ''='') w) of
        None \<Rightarrow> ([BadOpt], None)
      | Some (_, False, v) \<Rightarrow> if CHR ''='' \<in> set w then ([BadOpt], None) else ([Opt v []], Some args)
      | Some (_, True, v) \<Rightarrow>
          if CHR ''='' \<in> set w then ([Opt v (tl (dropWhile (\<lambda>c. c \<noteq> CHR ''='') w))], Some args)
          else (case args of [] \<Rightarrow> ([BadOpt], None) | a # args \<Rightarrow> ([Opt v a], Some args)))"

text \<open>One word that is an option: the options in it, and the words after it unless there is an error.\<close>

definition getopt_word :: "string \<Rightarrow> string list \<Rightarrow> opt list \<times> string list option" where
  "getopt_word w args =
     (if take 2 w = ''--'' then getopt_long1 (drop 2 w) args else getopt_cluster (tl w) args)"

lemma getopt_cluster_shorter: "getopt_cluster cs args = (os, Some r) \<Longrightarrow> length r \<le> length args"
  by (induction cs args arbitrary: os rule: getopt_cluster.induct)
    (auto split: option.splits bool.splits if_splits list.splits prod.splits)

lemma getopt_word_shorter: "getopt_word w args = (os, Some r) \<Longrightarrow> length r \<le> length args"
  using getopt_cluster_shorter
  by (auto simp: getopt_word_def getopt_long1_def split: option.splits bool.splits if_splits list.splits)

text \<open>The options of the command line and the operands: those from \<open>optind\<close> on.\<close>

function getopts :: "string list \<Rightarrow> opt list \<times> string list" where
  "getopts [] = ([], [])"
| "getopts (w # args) =
     (if w = [] \<or> hd w \<noteq> CHR ''-'' \<or> w = ''-'' then ([], w # args)
      else if w = ''--'' then ([], args)
      else case getopt_word w args of
             (os, None) \<Rightarrow> (os, [])
           | (os, Some r) \<Rightarrow> (let (os', ops) = getopts r in (os @ os', ops)))"
  by pat_completeness auto
termination
  by (relation "measure length") (auto dest: getopt_word_shorter [OF sym] simp: less_Suc_eq_le)

section \<open>Parsing\<close>

definition getVerbosity :: "string \<Rightarrow> log_verbosity result" where
  "getVerbosity v =
     (if v = ''all'' then Inr All else if v = ''errors'' then Inr Errors else if v = ''recent'' then Inr Recent
      else if v = ''latest'' then Inr Latest else if v = ''failed'' then Inr Failures
      else Inl (CommandError (''invalid argument to --logs: '' @ v)))"

text \<open>The program ends (\<open>exit\<close>) or goes on.\<close>

datatype 'a run = Exit int | Run 'a

definition warn_on :: "warning_mask \<Rightarrow> command \<Rightarrow> command" where
  "warn_on w c = c\<lparr>cmd_warnings := cmd_warnings c OR w\<rparr>"

definition warn_off :: "warning_mask \<Rightarrow> command \<Rightarrow> command" where
  "warn_off w c = c\<lparr>cmd_warnings := cmd_warnings c AND NOT w\<rparr>"


definition apply_option :: "option_value \<Rightarrow> string \<Rightarrow> command \<Rightarrow> command run result" where
  "apply_option v optarg c =
     (case v of
        Short ch \<Rightarrow>
          if ch = CHR ''h'' \<or> ch = CHR ''V'' then Inr (Exit 0)
          else if ch = CHR ''b'' then Inr (Run (c\<lparr>cmd_backup := True\<rparr>))
          else if ch = CHR ''H'' then Inr (Run (c\<lparr>cmd_html := Some optarg\<rparr>))
          else if ch = CHR ''T'' then Inr (Run (c\<lparr>cmd_text := Some optarg\<rparr>))
          else if ch = CHR ''e'' then Inr (Run (c\<lparr>cmd_email := Some optarg\<rparr>))
          else if ch = CHR ''p'' then Inr (Run (c\<lparr>cmd_prune := True\<rparr>))
          else if ch = CHR ''P'' then Inr (Run (c\<lparr>cmd_pruneIncomplete := True\<rparr>))
          else if ch = CHR ''s'' then Inr (Run (warn_on WARNING_STORE (c\<lparr>cmd_stores := cmd_stores c @ [optarg]\<rparr>)))
          else if ch = CHR ''c'' then Inr (Run (c\<lparr>cmd_configPath := optarg\<rparr>))
          else if ch = CHR ''w'' then Inr (Run (c\<lparr>cmd_wait := True\<rparr>))
          else if ch = CHR ''n'' then Inr (Run (warn_on WARNING_VERBOSE (c\<lparr>cmd_act := False\<rparr>)))
          else if ch = CHR ''f'' then Inr (Run (c\<lparr>cmd_force := True\<rparr>))
          else if ch = CHR ''v'' then Inr (Run (warn_on WARNING_VERBOSE c))
          else if ch = CHR ''d'' then Inr (Run (c\<lparr>cmd_debug := True\<rparr>))
          else if ch = CHR ''D'' then Inr (Run (c\<lparr>cmd_database := optarg\<rparr>))
          else if ch = CHR ''W'' then Inr (Run (warn_on (-1) c))
          else if ch = CHR ''0'' then Inr (Run (c\<lparr>cmd_eol := CHR 0x00\<rparr>))
          else Inr (Exit 1)
      | UNMOUNTED_STORE \<Rightarrow>
          Inr (Run (warn_on WARNING_STORE (c\<lparr>cmd_unmountedStores := cmd_unmountedStores c @ [optarg]\<rparr>)))
      | RETIRE_DEVICE \<Rightarrow> Inr (Run (c\<lparr>cmd_retireDevice := True\<rparr>))
      | RETIRE \<Rightarrow> Inr (Run (c\<lparr>cmd_retire := True\<rparr>))
      | WARN_UNKNOWN \<Rightarrow> Inr (Run (warn_on WARNING_UNKNOWN c))
      | WARN_STORE \<Rightarrow> Inr (Run (warn_on WARNING_STORE c))
      | WARN_UNREACHABLE \<Rightarrow> Inr (Run (warn_on WARNING_UNREACHABLE c))
      | WARN_PARTIAL \<Rightarrow> Inr (Run (warn_on WARNING_PARTIAL c))
      | NO_WARN_PARTIAL \<Rightarrow> Inr (Run (warn_off WARNING_PARTIAL c))
      | REPEAT_ERRORS \<Rightarrow> Inr (Run (warn_on WARNING_ERRORLOGS c))
      | NO_REPEAT_ERRORS \<Rightarrow> Inr (Run (warn_off WARNING_ERRORLOGS c))
      | LOG_VERBOSITY \<Rightarrow> rbind (getVerbosity optarg) (\<lambda>l. Inr (Run (c\<lparr>cmd_logVerbosity := l\<rparr>)))
      | DUMP_CONFIG \<Rightarrow> Inr (Run (c\<lparr>cmd_dumpConfig := True\<rparr>))
      | FORGET_ONLY \<Rightarrow> Inr (Run (c\<lparr>cmd_forgetOnly := True\<rparr>))
      | CHECK_UNEXPECTED \<Rightarrow> Inr (Run (c\<lparr>cmd_checkUnexpected := True\<rparr>))
      | LATEST \<Rightarrow> Inr (Run (c\<lparr>cmd_latest := True\<rparr>)))"

fun apply_options :: "opt list \<Rightarrow> command \<Rightarrow> command run result" where
  "apply_options [] c = Inr (Run c)"
| "apply_options (BadOpt # os) c = Inr (Exit 1)"
| "apply_options (Opt v a # os) c =
     rbind (apply_option v a c) (\<lambda>r. case r of Exit n \<Rightarrow> Inr (Exit n) | Run c \<Rightarrow> apply_options os c)"

text \<open>The combinations that are refused.\<close>

definition check_options :: "command \<Rightarrow> unit result" where
  "check_options c =
     (if cmd_retire c \<and> cmd_retireDevice c
      then Inl (CommandError ''--retire and --retire-device cannot be used together'')
      else if cmd_backup c \<and> cmd_retire c then Inl (CommandError ''--retire and --backup cannot be used together'')
      else if cmd_backup c \<and> cmd_retireDevice c
      then Inl (CommandError ''--retire-device and --backup cannot be used together'')
      else if cmd_forgetOnly c \<and> \<not> cmd_retire c
      then Inl (CommandError ''--forget-only may only be used with --retire'')
      else if countActions c > 1 \<and> cmd_checkUnexpected c
      then Inl (CommandError ''--check-unexpected cannot be used with any other action'')
      else if countActions c > 1 \<and> cmd_dumpConfig c
      then Inl (CommandError ''--dump-config cannot be used with any other action'')
      else if countActions c > 1 \<and> cmd_latest c
      then Inl (CommandError ''--latest cannot be used with any other action'')
      else if countActions c = 0 then Inl (CommandError ''no action specified'')
      else Inr ())"

definition is_pattern :: "string \<Rightarrow> bool" where
  "is_pattern s \<longleftrightarrow> (\<exists>c \<in> set s. c \<in> set ''*?['' \<or> c = BACKSLASH)"

definition check_latest :: "selection \<Rightarrow> unit result" where
  "check_latest s =
     (if is_pattern (sel_volume s) then Inl (CommandError ''only explicit volumes may be specified for --latest'')
      else Inr ())"

definition check_retire :: "selection \<Rightarrow> unit result" where
  "check_retire s =
     (if is_pattern (sel_host s) then Inl (CommandError ''host patterns may not be specified for --retire'')
      else if is_pattern (sel_volume s) \<and> sel_volume s \<noteq> STAR
      then Inl (CommandError ''volume patterns may not be specified for --retire'')
      else if \<not> sel_sense s then Inl (CommandError ''cannot use negative selections with --retire'')
      else Inr ())"

definition take_selections :: "string list \<Rightarrow> command \<Rightarrow> command result" where
  "take_selections ops c =
     (if cmd_backup c \<or> cmd_prune c \<or> cmd_pruneIncomplete c \<or> cmd_retire c \<or> cmd_latest c
      then if ops \<noteq> []
           then rbind (fold_result selections_add (cmd_selections c) ops) (\<lambda>ss.
                rbind (if cmd_latest c then fold_result (\<lambda>_. check_latest) () ss else Inr ()) (\<lambda>_.
                rbind (if cmd_retire c then fold_result (\<lambda>_. check_retire) () ss else Inr ()) (\<lambda>_.
                Inr (c\<lparr>cmd_selections := ss\<rparr>))))
           else if cmd_retire c then Inl (CommandError ''no volumes specified for --retire'')
           else if cmd_latest c then Inl (CommandError ''no volumes specified for --latest'')
           else Inr c
      else Inr c)"

definition take_devices :: "string list \<Rightarrow> command \<Rightarrow> command result" where
  "take_devices ops c =
     (if cmd_retireDevice c
      then if ops = [] then Inl (CommandError ''no devices specified to retire'')
           else Inr (c\<lparr>cmd_devices := cmd_devices c @ ops\<rparr>)
      else Inr c)"

definition take_operands :: "string list \<Rightarrow> command \<Rightarrow> command result" where
  "take_operands ops c =
     rbind (take_selections ops c) (\<lambda>c. rbind (take_devices ops c) (\<lambda>c.
       if ops \<noteq> [] \<and> cmd_checkUnexpected c then Inl (CommandError ''no arguments allowed to --check-unexpected'')
       else if ops \<noteq> [] \<and> cmd_dumpConfig c then Inl (CommandError ''no arguments allowed to --dump-config'')
       else Inr c))"

text \<open>\<open>args\<close> are the words after the program's name.\<close>

definition parse_command :: "(string \<Rightarrow> string option) \<Rightarrow> string list \<Rightarrow> command \<Rightarrow> command run result" where
  "parse_command environ args c =
     (let c = (if environ ''RSBACKUP_DEBUG'' \<noteq> None then c\<lparr>cmd_debug := True\<rparr> else c);
          c = (case environ ''RSBACKUP_DBVERSION'' of
                 None \<Rightarrow> c | Some s \<Rightarrow> c\<lparr>cmd_databaseVersion := to_int32 (fst (strtoll s 10))\<rparr>);
          (os, ops) = getopts args
      in rbind (apply_options os c) (\<lambda>r.
           case r of
             Exit n \<Rightarrow> Inr (Exit n)
           | Run c \<Rightarrow> rbind (check_options c) (\<lambda>_. rbind (take_operands ops c) (\<lambda>c. Inr (Run c)))))"

section \<open>What the command line asks for\<close>

text \<open>\<open>commandLineStores\<close> and the stores of the configuration, which are disabled first.\<close>

definition commandLineStores :: "string list \<Rightarrow> bool \<Rightarrow> conf \<Rightarrow> conf" where
  "commandLineStores ss mounted c =
     foldl (\<lambda>c s. case om_find namelt s (c_stores c) of
         None \<Rightarrow> c\<lparr>c_stores := om_put namelt s (new_store s mounted) (c_stores c)\<rparr>
       | Some st \<Rightarrow> c\<lparr>c_stores := om_update namelt s (s_state_update (\<lambda>_. Enabled)) (c_stores c)\<rparr>) c ss"

definition override_stores :: "command \<Rightarrow> conf \<Rightarrow> conf" where
  "override_stores cmd c =
     (if cmd_stores cmd \<noteq> [] \<or> cmd_unmountedStores cmd \<noteq> []
      then commandLineStores (cmd_unmountedStores cmd) False
             (commandLineStores (cmd_stores cmd) True
               (c\<lparr>c_stores := om_map_values (s_state_update (\<lambda>_. Disabled)) (c_stores c)\<rparr>))
      else c)"

text \<open>
  The tasks of \<open>main\<close> in order; \<open>acquired\<close> says whether the lock could be taken.  Nothing is left to do
  when the configuration is only dumped or another program holds the lock.
\<close>

datatype task =
    DumpConfig | SelectVolumes | MakeBackups | RetireVolumes bool | RetireDevices | PruneBackups | PrunePruneLogs
  | CheckUnexpected | FindLatest | PostDeviceAccess | Report

definition main_tasks :: "bool \<Rightarrow> string \<Rightarrow> command \<Rightarrow> task list" where
  "main_tasks acquired lock cmd =
     (if cmd_dumpConfig cmd then [DumpConfig]
      else if readWriteActions cmd \<and> lock \<noteq> [] \<and> \<not> acquired then []
      else (if cmd_backup cmd \<or> cmd_prune cmd \<or> cmd_pruneIncomplete cmd \<or> cmd_retire cmd then [SelectVolumes] else []) @
           (if cmd_backup cmd then [MakeBackups] else []) @
           (if cmd_retire cmd then [RetireVolumes (\<not> cmd_forgetOnly cmd)] else []) @
           (if cmd_retireDevice cmd then [RetireDevices] else []) @
           (if cmd_prune cmd \<or> cmd_pruneIncomplete cmd then [PruneBackups] else []) @
           (if cmd_prune cmd then [PrunePruneLogs] else []) @
           (if cmd_checkUnexpected cmd then [CheckUnexpected] else []) @
           (if cmd_latest cmd then [FindLatest] else []) @
           [PostDeviceAccess] @
           (if cmd_html cmd \<noteq> None \<or> cmd_text cmd \<noteq> None \<or> cmd_email cmd \<noteq> None then [Report] else []))"


section \<open>A command line that is accepted\<close>

lemma fold_result_check: "fold_result (\<lambda>_. f) () xs = Inr u \<longleftrightarrow> (\<forall>x \<in> set xs. f x = Inr ())"
  by (induction xs) (auto simp: rbind_def split: sum.splits)

lemma fold_selections_add:
  "fold_result selections_add ss ops = Inr ss' \<Longrightarrow> \<forall>s \<in> set ss. valid_selection s \<Longrightarrow>
    (\<forall>s \<in> set ss'. valid_selection s) \<and> length ss' = length ss + length ops"
proof (induction ops arbitrary: ss)
  case (Cons w ops)
  from Cons.prems(1) obtain ss1 where "selections_add ss w = Inr ss1" "fold_result selections_add ss1 ops = Inr ss'"
    by (auto simp: rbind_Inr_iff)
  then show ?case using Cons.IH [of ss1] Cons.prems(2) by (auto simp: selectors_accepted)
qed simp

lemma apply_option_keeps:
  "apply_option v a c = Inr (Run c') \<Longrightarrow> cmd_selections c' = cmd_selections c \<and> cmd_devices c' = cmd_devices c"
  by (auto simp: apply_option_def warn_on_def warn_off_def rbind_Inr_iff split: option_value.splits if_splits)

lemma apply_options_keep:
  "apply_options os c = Inr (Run c') \<Longrightarrow> cmd_selections c' = cmd_selections c \<and> cmd_devices c' = cmd_devices c"
proof (induction os c arbitrary: c' rule: apply_options.induct)
  case (3 v a os c)
  then obtain r where r: "apply_option v a c = Inr r" "(case r of Exit n \<Rightarrow> Inr (Exit n) | Run c \<Rightarrow> apply_options os c) = Inr (Run c')"
    by (auto simp: rbind_Inr_iff)
  then show ?case using apply_option_keeps [of v a c] 3(1) by (cases r) auto
qed auto

text \<open>What the options must satisfy, and what the operands must be.\<close>

definition options_consistent :: "command \<Rightarrow> bool" where
  "options_consistent c \<longleftrightarrow> \<not> (cmd_retire c \<and> cmd_retireDevice c) \<and> (cmd_backup c \<longrightarrow> \<not> cmd_retire c \<and> \<not> cmd_retireDevice c) \<and>
     (cmd_forgetOnly c \<longrightarrow> cmd_retire c) \<and> countActions c \<ge> 1 \<and>
     (cmd_checkUnexpected c \<or> cmd_dumpConfig c \<or> cmd_latest c \<longrightarrow> countActions c = 1)"

definition operands_taken :: "string list \<Rightarrow> command \<Rightarrow> bool" where
  "operands_taken ops c \<longleftrightarrow>
     (\<forall>s \<in> set (cmd_selections c). valid_selection s) \<and>
     length (cmd_selections c) =
       (if cmd_backup c \<or> cmd_prune c \<or> cmd_pruneIncomplete c \<or> cmd_retire c \<or> cmd_latest c then length ops else 0) \<and>
     (cmd_retire c \<or> cmd_latest c \<longrightarrow> cmd_selections c \<noteq> []) \<and>
     (cmd_retire c \<longrightarrow> (\<forall>s \<in> set (cmd_selections c). sel_sense s \<and> sel_host s \<noteq> STAR)) \<and>
     (cmd_latest c \<longrightarrow> (\<forall>s \<in> set (cmd_selections c). sel_host s \<noteq> STAR \<and> sel_volume s \<noteq> STAR)) \<and>
     cmd_devices c = (if cmd_retireDevice c then ops else []) \<and> (cmd_retireDevice c \<longrightarrow> ops \<noteq> []) \<and>
     (cmd_checkUnexpected c \<or> cmd_dumpConfig c \<longrightarrow> ops = [])"

lemma check_options_iff: "check_options c = Inr u \<longleftrightarrow> options_consistent c"
proof -
  have "countActions c \<ge> 0" by (simp add: countActions_def)
  moreover have "cmd_checkUnexpected c \<or> cmd_dumpConfig c \<or> cmd_latest c \<Longrightarrow> countActions c \<ge> 1"
    by (auto simp: countActions_def)
  ultimately show ?thesis by (auto simp: check_options_def options_consistent_def)
qed

lemma star_pattern: "is_pattern STAR"
  by (simp add: is_pattern_def STAR_def)

lemma options_consistent_operands [simp]:
  "options_consistent (c\<lparr>cmd_selections := ss\<rparr>) = options_consistent c"
  "options_consistent (c\<lparr>cmd_devices := ds\<rparr>) = options_consistent c"
  by (simp_all add: options_consistent_def countActions_def)

lemma take_selections_ok:
  assumes "take_selections ops c = Inr c'" "cmd_selections c = []"
  shows "\<exists>ss. c' = c\<lparr>cmd_selections := ss\<rparr> \<and> (\<forall>s \<in> set ss. valid_selection s) \<and>
    length ss = (if cmd_backup c \<or> cmd_prune c \<or> cmd_pruneIncomplete c \<or> cmd_retire c \<or> cmd_latest c then length ops else 0) \<and>
    (cmd_retire c \<or> cmd_latest c \<longrightarrow> ss \<noteq> []) \<and>
    (cmd_latest c \<longrightarrow> (\<forall>s \<in> set ss. check_latest s = Inr ())) \<and> (cmd_retire c \<longrightarrow> (\<forall>s \<in> set ss. check_retire s = Inr ()))"
proof (cases "(cmd_backup c \<or> cmd_prune c \<or> cmd_pruneIncomplete c \<or> cmd_retire c \<or> cmd_latest c) \<and> ops \<noteq> []")
  case True
  with assms obtain ss where ss: "fold_result selections_add [] ops = Inr ss" "c' = c\<lparr>cmd_selections := ss\<rparr>"
    "if cmd_latest c then \<forall>s \<in> set ss. check_latest s = Inr () else True"
    "if cmd_retire c then \<forall>s \<in> set ss. check_retire s = Inr () else True"
    by (auto simp: take_selections_def rbind_Inr_iff fold_result_check split: if_splits)
  have "\<forall>s \<in> set ss. valid_selection s" "length ss = length ops"
    using fold_selections_add [OF ss(1)] by simp_all
  moreover have "ss \<noteq> []" using True calculation(2) by auto
  ultimately show ?thesis using True ss(2-4) by auto
next
  case False
  then show ?thesis using assms by (intro exI [of _ "[]"]) (auto simp: take_selections_def split: if_splits)
qed

lemma take_operands_ok:
  assumes "take_operands ops c = Inr c'" "cmd_selections c = []" "cmd_devices c = []" "options_consistent c"
  shows "operands_taken ops c' \<and> options_consistent c'"
proof -
  from assms(1) obtain c1 c2 where c1: "take_selections ops c = Inr c1" "take_devices ops c1 = Inr c2"
    "\<not> (ops \<noteq> [] \<and> (cmd_checkUnexpected c2 \<or> cmd_dumpConfig c2))" "c' = c2"
    by (auto simp: take_operands_def rbind_Inr_iff split: if_splits)
  from take_selections_ok [OF c1(1) assms(2)] obtain ss where ss: "c1 = c\<lparr>cmd_selections := ss\<rparr>" "\<forall>s \<in> set ss. valid_selection s"
    "length ss = (if cmd_backup c \<or> cmd_prune c \<or> cmd_pruneIncomplete c \<or> cmd_retire c \<or> cmd_latest c then length ops else 0)"
    "cmd_retire c \<or> cmd_latest c \<longrightarrow> ss \<noteq> []"
    "cmd_latest c \<longrightarrow> (\<forall>s \<in> set ss. check_latest s = Inr ())" "cmd_retire c \<longrightarrow> (\<forall>s \<in> set ss. check_retire s = Inr ())"
    by blast
  have c2: "c2 = c\<lparr>cmd_selections := ss, cmd_devices := if cmd_retireDevice c then ops else []\<rparr>"
    "cmd_retireDevice c \<longrightarrow> ops \<noteq> []"
  proof -
    have "c\<lparr>cmd_selections := ss, cmd_devices := []\<rparr> = c\<lparr>cmd_selections := ss\<rparr>" using assms(3) by (cases c) simp
    note same = this
    have "cmd_retireDevice c1 = cmd_retireDevice c" "cmd_devices c1 = []" by (simp_all add: ss(1) assms(3))
    then have d: "if cmd_retireDevice c then ops \<noteq> [] \<and> c1\<lparr>cmd_devices := ops\<rparr> = c2 else c1 = c2"
      using c1(2) by (cases "ops = []"; cases "cmd_retireDevice c") (simp_all add: take_devices_def)
    show "cmd_retireDevice c \<longrightarrow> ops \<noteq> []" using d by argo
    show "c2 = c\<lparr>cmd_selections := ss, cmd_devices := if cmd_retireDevice c then ops else []\<rparr>"
    proof (cases "cmd_retireDevice c")
      case True
      from d have "c2 = c1\<lparr>cmd_devices := ops\<rparr>" unfolding if_P [OF True] by (rule conjE) (rule sym)
      then show ?thesis unfolding if_P [OF True] ss(1) .
    next
      case False
      from d have "c2 = c1" unfolding if_not_P [OF False] by (rule sym)
      then show ?thesis unfolding if_not_P [OF False] ss(1) same .
    qed
  qed
  have "sel_sense s \<and> sel_host s \<noteq> STAR" if "cmd_retire c" "s \<in> set ss" for s
    using ss(6) that star_pattern by (fastforce simp: check_retire_def split: if_splits)
  moreover have "sel_host s \<noteq> STAR \<and> sel_volume s \<noteq> STAR" if "cmd_latest c" "s \<in> set ss" for s
    using ss(2,5) that star_pattern by (fastforce simp: check_latest_def valid_selection_def split: if_splits)
  ultimately show ?thesis using c1(3,4) c2 ss(2-4) assms(4) by (simp add: operands_taken_def) blast
qed




section \<open>The stores that the command line names\<close>

definition store_names_ok :: "conf \<Rightarrow> string list \<Rightarrow> bool" where
  "store_names_ok c ss \<longleftrightarrow> name_order.sorted_keys (c_stores c) \<and> (\<forall>s \<in> set ss. canonical_name s)"

lemma findStore_put:
  assumes "name_order.sorted_keys (c_stores c)" "canonical_name s" "canonical_name p"
  shows "findStore p (c\<lparr>c_stores := om_put namelt s v (c_stores c)\<rparr>) = (if p = s then Some v else findStore p c)"
  using name_order.om_find_put [OF assms(1,2,3)] by (auto simp: findStore_def)

lemma commandLineStores_find:
  assumes "store_names_ok c ss" "canonical_name p"
  shows "findStore p (commandLineStores ss mounted c) =
      (case findStore p c of
         None \<Rightarrow> if p \<in> set ss then Some (new_store p mounted) else None
       | Some st \<Rightarrow> Some (if p \<in> set ss then st\<lparr>s_state := Enabled\<rparr> else st)) \<and>
    name_order.sorted_keys (c_stores (commandLineStores ss mounted c))"
  using assms(1)
proof (induction ss arbitrary: c)
  case Nil
  then show ?case by (auto simp: commandLineStores_def store_names_ok_def split: option.splits)
next
  case (Cons s ss)
  define v where "v = (case findStore s c of None \<Rightarrow> new_store s mounted | Some st \<Rightarrow> st\<lparr>s_state := Enabled\<rparr>)"
  define c1 where "c1 = c\<lparr>c_stores := om_put namelt s v (c_stores c)\<rparr>"
  have sorted: "name_order.sorted_keys (c_stores c)" "canonical_name s" using Cons.prems by (simp_all add: store_names_ok_def)
  have fold: "commandLineStores (s # ss) mounted c = commandLineStores ss mounted c1"
    by (simp add: commandLineStores_def c1_def v_def findStore_def om_update_def split: option.splits)
  have "store_names_ok c1 ss" using Cons.prems name_order.sorted_om_put [OF sorted] by (simp add: store_names_ok_def c1_def)
  note IH = Cons.IH [OF this]
  have "findStore p c1 = (if p = s then Some v else findStore p c)"
    unfolding c1_def by (rule findStore_put [OF sorted assms(2)])
  then show ?case unfolding fold using IH by (auto simp: v_def new_store_def split: option.splits)
qed

text \<open>
  When the command line names stores, they and no others are enabled.  A store of the configuration keeps
  its other settings, also whether it must be mounted; a store that is not in the configuration is made, and
  must be mounted unless it is only named by \<open>--unmounted-store\<close>.
\<close>

theorem named_stores_enabled:
  assumes "cmd_stores cmd @ cmd_unmountedStores cmd \<noteq> []"
    "store_names_ok c (cmd_stores cmd @ cmd_unmountedStores cmd)" "canonical_name p"
  shows "findStore p (override_stores cmd c) =
     (case findStore p c of
        Some st \<Rightarrow>
          Some (st\<lparr>s_state := if p \<in> set (cmd_stores cmd) \<union> set (cmd_unmountedStores cmd) then Enabled else Disabled\<rparr>)
      | None \<Rightarrow> if p \<in> set (cmd_stores cmd) then Some (new_store p True)
                else if p \<in> set (cmd_unmountedStores cmd) then Some (new_store p False) else None)"
proof -
  define c0 where "c0 = c\<lparr>c_stores := om_map_values (s_state_update (\<lambda>_. Disabled)) (c_stores c)\<rparr>"
  have find0: "findStore p c0 = map_option (s_state_update (\<lambda>_. Disabled)) (findStore p c)"
    by (simp add: findStore_def c0_def)
  have "name_order.sorted_keys (c_stores c0)"
    using assms(2) by (simp add: store_names_ok_def c0_def name_order.sorted_keys_def)
  then have ok: "store_names_ok c0 (cmd_stores cmd)" using assms(2) by (auto simp: store_names_ok_def)
  note one = commandLineStores_find [OF ok assms(3), of True]
  then have "store_names_ok (commandLineStores (cmd_stores cmd) True c0) (cmd_unmountedStores cmd)"
    using assms(2) by (auto simp: store_names_ok_def)
  note two = commandLineStores_find [OF this assms(3), of False]
  show ?thesis
    using one two find0 assms(1)
    by (auto simp: override_stores_def c0_def [symmetric] new_store_def split: option.splits)
qed


lemma named_stores_enabled_witness:
  "findStore ''/a'' (override_stores ((new_command ''/c'')\<lparr>cmd_unmountedStores := [''/a'', ''/b'']\<rparr>)
      ((new_conf ''s'')\<lparr>c_stores := [(''/a'', new_store ''/a'' True)]\<rparr>)) = Some (new_store ''/a'' True)"
proof -
  let ?cmd = "(new_command ''/c'')\<lparr>cmd_unmountedStores := [''/a'', ''/b'']\<rparr>"
  let ?c = "(new_conf ''s'')\<lparr>c_stores := [(''/a'', new_store ''/a'' True)]\<rparr>"
  have n: "canonical_name ''/a''" "canonical_name ''/b''" by code_simp+
  then have "store_names_ok ?c (cmd_stores ?cmd @ cmd_unmountedStores ?cmd)"
    by (simp add: store_names_ok_def new_command_def)
  from named_stores_enabled [OF _ this n(1)] show ?thesis
    by (simp add: findStore_def new_command_def new_store_def)
qed

end
