(* ===== verification/Stores.thy ===== *)
theory Stores
  imports ConfRead MakeBackup
begin

text \<open>
  Which device is on which store: \<^verbatim>\<open>src/Store.cc\<close>, \<open>identifyDevices\<close> of \<^verbatim>\<open>src/Conf.cc\<close> and
  \<^verbatim>\<open>src/DeviceAccess.cc\<close>, whose hooks are run before the first device is read and after the last.
  The file system and the hooks are arguments; warnings are not kept.
\<close>

section \<open>The state\<close>

record file_stat =
  st_dev :: int
  st_uid :: int
  st_mode :: nat

text \<open>\<open>dw_read\<close> gives the contents of a file, or the \<open>IOError\<close> of opening or reading it.\<close>

record device_world =
  dw_stat :: "string \<Rightarrow> file_stat option"
  dw_read :: "string \<Rightarrow> string + string \<times> int"
  dw_hook :: "string list \<Rightarrow> environment \<Rightarrow> int"
  dw_act :: bool

text \<open>
  \<open>devicesReady\<close>, the stores whose \<open>device-id\<close> is kept open (\<open>filesToClose\<close>), and \<open>globalErrors\<close>.  The last
  field is not in the program: the hooks that have been run successfully.
\<close>

record device_state =
  ds_conf :: conf
  ds_ready :: bool
  ds_open :: "string list"
  ds_errors :: nat
  ds_hooks :: "string list"

definition ENOENT :: int where "ENOENT = 2"

section \<open>The hooks\<close>

definition hook_environment :: "device_world \<Rightarrow> string \<Rightarrow> conf \<Rightarrow> environment" where
  "hook_environment w name c =
     set_env ''RSBACKUP_DEVICES''
       (foldl (\<lambda>ds d. (if ds \<noteq> [] then ds @ '' '' else ds) @ d) [] (map fst (c_devices c)))
       (set_env ''RSBACKUP_ACT'' (if dw_act w then ''true'' else ''false'') (set_env ''RSBACKUP_HOOK'' name []))"

definition runDeviceAccessHook :: "device_world \<Rightarrow> string list \<Rightarrow> string \<Rightarrow> conf \<Rightarrow> unit result" where
  "runDeviceAccessHook w cmd name c =
     (if cmd = [] then Inr ()
      else rbind (subprocess_wait [THROW_ON_ERROR, THROW_ON_CRASH, THROW_ON_SIGPIPE] (hd cmd)
                   (dw_hook w cmd (hook_environment w name c))) (\<lambda>_. Inr ()))"

definition preDeviceAccess :: "device_world \<Rightarrow> device_state \<Rightarrow> unit result \<times> device_state" where
  "preDeviceAccess w s =
     (if ds_ready s then (Inr (), s)
      else case runDeviceAccessHook w (c_preDevice (ds_conf s)) ''pre-device-hook'' (ds_conf s) of
             Inl e \<Rightarrow> (Inl e, s)
           | Inr _ \<Rightarrow> (Inr (), s\<lparr>ds_ready := True, ds_hooks := ds_hooks s @ [''pre-device-hook'']\<rparr>))"

definition postDeviceAccess :: "device_world \<Rightarrow> device_state \<Rightarrow> unit result \<times> device_state" where
  "postDeviceAccess w s =
     (if \<not> ds_ready s then (Inr (), s)
      else let s = s\<lparr>ds_open := []\<rparr>
           in case runDeviceAccessHook w (c_postDevice (ds_conf s)) ''post-device-hook'' (ds_conf s) of
                Inl e \<Rightarrow> (Inl e, s)
              | Inr _ \<Rightarrow> (Inr (), s\<lparr>ds_ready := False, ds_hooks := ds_hooks s @ [''post-device-hook'']\<rparr>))"

section \<open>Identifying a store\<close>

text \<open>\<open>sb.st_mode & 077\<close>\<close>

definition accessible_to_others :: "file_stat \<Rightarrow> bool" where
  "accessible_to_others sb \<longleftrightarrow> st_mode sb mod 64 \<noteq> 0"

text \<open>The checks before the device is read.\<close>

definition check_mounted :: "device_world \<Rightarrow> store \<Rightarrow> file_stat result" where
  "check_mounted w st =
     (let path = s_path st
      in case dw_stat w path of
           None \<Rightarrow> Inl (BadStore (''store '' @ quoted path @ '' does not exist''))
         | Some sb \<Rightarrow>
             if s_mounted st
             then case dw_stat w (path @ ''/..'') of
                    None \<Rightarrow> Inl (FatalStoreError (''cannot stat '' @ quoted (path @ ''/..'')))
                  | Some parent_sb \<Rightarrow>
                      if st_dev sb = st_dev parent_sb
                      then Inl (UnavailableStore (''store '' @ quoted path @ '' is not mounted''))
                      else Inr sb
             else Inr sb)"

text \<open>The device that \<open>device-id\<close> names, with an \<open>IOError\<close> turned into the right kind of error.\<close>

definition read_device_name :: "device_world \<Rightarrow> string \<Rightarrow> string result" where
  "read_device_name w path =
     (case dw_read w (path @ ''/device-id'') of
        Inr (msg, errno) \<Rightarrow> Inl (if errno = ENOENT then UnavailableStore msg else BadStore msg)
      | Inl content \<Rightarrow>
          (case file_lines content of
             [] \<Rightarrow> Inl (BadStore (''store '' @ quoted path @ '' has a malformed device-id''))
           | l # _ \<Rightarrow> Inr l))"

text \<open>The checks on the device and the store.\<close>

definition check_device :: "conf \<Rightarrow> store \<Rightarrow> file_stat \<Rightarrow> string \<Rightarrow> unit result" where
  "check_device c st sb deviceName =
     (let path = s_path st
      in case findDevice deviceName c of
           None \<Rightarrow> Inl (BadStore (''store '' @ quoted path @ '' has unknown device-id '' @ quoted deviceName))
         | Some d \<Rightarrow>
             (case d_store d of
                Some other \<Rightarrow>
                  Inl (FatalStoreError (''store '' @ quoted path @ '' has duplicate device-id '' @ quoted deviceName @
                    '', also found on store '' @ quoted other))
              | None \<Rightarrow>
                  if \<not> c_publicStores c \<and> st_uid sb \<noteq> 0
                  then Inl (BadStore (''store '' @ quoted path @ '' not owned by root''))
                  else if \<not> c_publicStores c \<and> accessible_to_others sb
                  then Inl (BadStore (''store '' @ quoted path @ '' is not private''))
                  else Inr ()))"

text \<open>\<open>device = foundDevice; device->store = this;\<close>\<close>

definition link_store :: "string \<Rightarrow> string \<Rightarrow> conf \<Rightarrow> conf" where
  "link_store path deviceName c =
     c\<lparr>c_stores := om_update namelt path (s_device_update (\<lambda>_. Some deviceName)) (c_stores c),
       c_devices := om_update namelt deviceName (d_store_update (\<lambda>_. Some path)) (c_devices c)\<rparr>"

definition identify :: "device_world \<Rightarrow> string \<Rightarrow> device_state \<Rightarrow> unit result \<times> device_state" where
  "identify w path s =
     (case findStore path (ds_conf s) of
        None \<Rightarrow> (Inl UndefinedBehaviour, s)
      | Some st \<Rightarrow>
          if s_device st \<noteq> None then (Inr (), s)
          else case check_mounted w st of
                 Inl e \<Rightarrow> (Inl e, s)
               | Inr sb \<Rightarrow>
                   (case preDeviceAccess w s of
                      (Inl e, s) \<Rightarrow> (Inl e, s)
                    | (Inr _, s) \<Rightarrow>
                        (case rbind (read_device_name w (s_path st)) (\<lambda>d.
                                rbind (check_device (ds_conf s) st sb d) (\<lambda>_. Inr d)) of
                           Inl e \<Rightarrow> (Inl e, s)
                         | Inr d \<Rightarrow>
                             (Inr (), s\<lparr>ds_conf := link_store path d (ds_conf s), ds_open := ds_open s @ [path]\<rparr>))))"

section \<open>Identifying the devices\<close>

text \<open>One turn of the loop: which errors end it, and which are counted.\<close>

definition identify_step ::
    "device_world \<Rightarrow> store_state list \<Rightarrow> nat \<Rightarrow> string \<times> store \<Rightarrow> device_state \<Rightarrow> nat result \<times> device_state" where
  "identify_step w states found ps s =
     (if s_state (snd ps) \<notin> set states then (Inr found, s)
      else case identify w (fst ps) s of
             (Inr _, s) \<Rightarrow> (Inr (found + 1), s)
           | (Inl (UnavailableStore _), s) \<Rightarrow> (Inr found, s)
           | (Inl (FatalStoreError m), s) \<Rightarrow>
               if states = [Enabled] then (Inl (FatalStoreError m), s) else (Inr found, s)
           | (Inl (BadStore _), s) \<Rightarrow>
               (Inr found, if states = [Enabled] then s\<lparr>ds_errors := ds_errors s + 1\<rparr> else s)
           | (Inl e, s) \<Rightarrow> (Inl e, s))"

fun identify_loop ::
    "device_world \<Rightarrow> store_state list \<Rightarrow> nat \<Rightarrow> (string \<times> store) list \<Rightarrow> device_state \<Rightarrow> nat result \<times> device_state" where
  "identify_loop w states found [] s = (Inr found, s)"
| "identify_loop w states found (ps # rest) s =
     (case identify_step w states found ps s of
        (Inl e, s) \<Rightarrow> (Inl e, s)
      | (Inr found, s) \<Rightarrow> identify_loop w states found rest s)"

definition identifyDevices :: "device_world \<Rightarrow> store_state list \<Rightarrow> device_state \<Rightarrow> unit result \<times> device_state" where
  "identifyDevices w states s =
     (if set states \<subseteq> set (c_devicesIdentified (ds_conf s)) then (Inr (), s)
      else case identify_loop w states 0 (c_stores (ds_conf s)) s of
             (Inl e, s) \<Rightarrow> (Inl e, s)
           | (Inr found, s) \<Rightarrow>
               (let s = (if found = 0 \<and> states = [Enabled] then s\<lparr>ds_errors := ds_errors s + 1\<rparr> else s);
                    c = ds_conf s
                in (Inr (), s\<lparr>ds_conf := c\<lparr>c_devicesIdentified := remdups (states @ c_devicesIdentified c)\<rparr>\<rparr>)))"


section \<open>Devices and stores refer to each other\<close>

lemma name_find_iff: "name_order.sorted_keys m \<Longrightarrow> om_find namelt k m = Some v \<longleftrightarrow> (k, v) \<in> set m"
  using name_find [of k m v] name_found [of m k v] by blast

lemma name_find_update:
  "name_order.sorted_keys m \<Longrightarrow>
    om_find namelt p (om_update namelt k f m) = (if p = k then map_option f (om_find namelt k m) else om_find namelt p m)"
proof (cases "om_find namelt k m")
  case (Some v)
  assume m: "name_order.sorted_keys m"
  have k: "canonical_name k" by (rule name_order.sorted_keys_ok [OF m name_find [OF Some]])
  note s = name_order.sorted_om_put [OF m k, of "f v"]
  show ?thesis
  proof (cases "canonical_name p")
    case True
    with name_order.om_find_put [OF m k] Some show ?thesis by (simp add: om_update_def)
  next
    case False
    then have "om_find namelt p m = None" "om_find namelt p (om_put namelt k (f v) m) = None" "p \<noteq> k"
      using name_find [of p] name_order.sorted_keys_ok m s k by (metis option.exhaust)+
    then show ?thesis by (simp add: om_update_def Some)
  qed
qed (auto simp: om_update_def)

definition links_ok :: "conf \<Rightarrow> bool" where
  "links_ok c \<longleftrightarrow> name_order.sorted_keys (c_stores c) \<and> name_order.sorted_keys (c_devices c) \<and>
     (\<forall>p st. findStore p c = Some st \<longrightarrow> s_path st = p \<and>
        (\<forall>d. s_device st = Some d \<longrightarrow> (\<exists>dev. findDevice d c = Some dev \<and> d_store dev = Some p))) \<and>
     (\<forall>d dev p. findDevice d c = Some dev \<and> d_store dev = Some p \<longrightarrow>
        (\<exists>st. findStore p c = Some st \<and> s_device st = Some d))"

lemma find_link_store:
  assumes "name_order.sorted_keys (c_stores c)" "name_order.sorted_keys (c_devices c)"
  shows "findStore p (link_store path d c) =
      (if p = path then map_option (s_device_update (\<lambda>_. Some d)) (findStore path c) else findStore p c)"
    "findDevice n (link_store path d c) =
      (if n = d then map_option (d_store_update (\<lambda>_. Some path)) (findDevice d c) else findDevice n c)"
  by (simp_all add: findStore_def findDevice_def link_store_def name_find_update [OF assms(1)] name_find_update [OF assms(2)])

lemma links_store:
  "links_ok c \<Longrightarrow> findStore p c = Some st \<Longrightarrow> s_device st = Some d \<Longrightarrow> \<exists>dev. findDevice d c = Some dev \<and> d_store dev = Some p"
  unfolding links_ok_def by blast

lemma links_device:
  "links_ok c \<Longrightarrow> findDevice d c = Some dev \<Longrightarrow> d_store dev = Some p \<Longrightarrow> \<exists>st. findStore p c = Some st \<and> s_device st = Some d"
  unfolding links_ok_def by blast

lemma links_ok_link:
  assumes "links_ok c" "findStore path c = Some st" "s_device st = None" "findDevice d c = Some dev" "d_store dev = None"
  shows "links_ok (link_store path d c)"
proof -
  have s: "name_order.sorted_keys (c_stores c)" "name_order.sorted_keys (c_devices c)" using assms(1) by (simp_all add: links_ok_def)
  then have "name_order.sorted_keys (c_stores (link_store path d c))" "name_order.sorted_keys (c_devices (link_store path d c))"
    by (simp_all add: link_store_def name_update_sorted)
  moreover have "s_device st' \<noteq> Some d" if "findStore p c = Some st'" for p st'
    using links_store [OF assms(1) that] assms(4,5) by auto
  moreover have "d_store dev' \<noteq> Some path" if "findDevice n c = Some dev'" for n dev'
    using links_device [OF assms(1) that] assms(2,3) by auto
  ultimately show ?thesis
    using assms unfolding links_ok_def find_link_store [OF s] by (auto split: if_splits)
qed

text \<open>The links are one to one.\<close>

lemma links_one_to_one:
  assumes "links_ok c" "findStore p c = Some st" "findStore q c = Some st'" "s_device st = Some d" "s_device st' = Some d"
  shows "p = q"
proof -
  obtain dev where "findDevice d c = Some dev" "d_store dev = Some p" using links_store [OF assms(1,2,4)] by blast
  moreover obtain dev' where "findDevice d c = Some dev'" "d_store dev' = Some q" using links_store [OF assms(1,3,5)] by blast
  ultimately show ?thesis by simp
qed

section \<open>What is known of an identified store\<close>

text \<open>A store on which a device has been found is fit to be used.\<close>

definition suitable_store :: "device_world \<Rightarrow> conf \<Rightarrow> store \<Rightarrow> string \<Rightarrow> bool" where
  "suitable_store w c st d \<longleftrightarrow>
     (\<exists>sb. dw_stat w (s_path st) = Some sb \<and>
        (s_mounted st \<longrightarrow> (\<exists>psb. dw_stat w (s_path st @ ''/..'') = Some psb \<and> st_dev psb \<noteq> st_dev sb)) \<and>
        (\<not> c_publicStores c \<longrightarrow> st_uid sb = 0 \<and> st_mode sb mod 64 = 0)) \<and>
     (\<exists>content rest. dw_read w (s_path st @ ''/device-id'') = Inl content \<and> file_lines content = d # rest)"

definition devices_ok :: "device_world \<Rightarrow> device_state \<Rightarrow> bool" where
  "devices_ok w s \<longleftrightarrow> links_ok (ds_conf s) \<and>
     (\<forall>p st d. findStore p (ds_conf s) = Some st \<and> s_device st = Some d \<longrightarrow>
        suitable_store w (ds_conf s) st d) \<and>
     (\<forall>p \<in> set (ds_open s). ds_ready s \<and> (\<exists>st. findStore p (ds_conf s) = Some st \<and> s_device st \<noteq> None))"

lemma preDeviceAccess_conf:
  "preDeviceAccess w s = (r, s') \<Longrightarrow> ds_conf s' = ds_conf s \<and> ds_open s' = ds_open s \<and> ds_errors s' = ds_errors s \<and>
     (r = Inr () \<longrightarrow> ds_ready s') \<and> (ds_ready s \<longrightarrow> s' = s)"
  by (auto simp: preDeviceAccess_def split: if_splits sum.splits)

text \<open>The cases of \<open>identify\<close>.\<close>

lemma identify_cases:
  assumes "identify w path s = (r, s')"
  obtains (skipped) "s' = s"
    | (failed) e s1 where "preDeviceAccess w s = (e, s1)" "s' = s1" "r \<noteq> Inr ()"
    | (linked) st sb s1 d where "findStore path (ds_conf s) = Some st" "s_device st = None" "check_mounted w st = Inr sb"
        "preDeviceAccess w s = (Inr (), s1)" "read_device_name w (s_path st) = Inr d"
        "check_device (ds_conf s1) st sb d = Inr ()" "r = Inr ()"
        "s' = s1\<lparr>ds_conf := link_store path d (ds_conf s1), ds_open := ds_open s1 @ [path]\<rparr>"
proof (cases "findStore path (ds_conf s)")
  case None
  with assms show ?thesis by (intro skipped) (simp add: identify_def)
next
  case (Some st)
  show ?thesis
  proof (cases "s_device st = None \<and> (\<exists>sb. check_mounted w st = Inr sb)")
    case False
    then have "s' = s" using assms Some by (auto simp: identify_def split: sum.splits if_splits)
    then show ?thesis by (rule skipped)
  next
    case True
    then obtain sb where sb: "s_device st = None" "check_mounted w st = Inr sb" by blast
    obtain e s1 where p: "preDeviceAccess w s = (e, s1)" by force
    show ?thesis
    proof (cases "r = Inr ()")
      case False
      then have "s' = s1" using assms Some sb p by (auto simp: identify_def split: sum.splits)
      then show ?thesis using failed [OF p] False by blast
    next
      case True
      then have "e = Inr ()" using assms Some sb p by (cases e) (auto simp: identify_def)
      with True assms Some sb p obtain d where d: "read_device_name w (s_path st) = Inr d" "check_device (ds_conf s1) st sb d = Inr ()"
        "s' = s1\<lparr>ds_conf := link_store path d (ds_conf s1), ds_open := ds_open s1 @ [path]\<rparr>"
        by (auto simp: identify_def rbind_Inr_iff split: sum.splits)
      then show ?thesis using linked Some sb p \<open>e = Inr ()\<close> True by blast
    qed
  qed
qed

lemma check_device_ok:
  "check_device c st sb d = Inr () \<Longrightarrow> \<exists>dev. findDevice d c = Some dev \<and> d_store dev = None \<and>
     (\<not> c_publicStores c \<longrightarrow> st_uid sb = 0 \<and> st_mode sb mod 64 = 0)"
  by (auto simp: check_device_def accessible_to_others_def Let_def split: option.splits if_splits)

lemma check_mounted_ok:
  "check_mounted w st = Inr sb \<Longrightarrow> dw_stat w (s_path st) = Some sb \<and>
     (s_mounted st \<longrightarrow> (\<exists>psb. dw_stat w (s_path st @ ''/..'') = Some psb \<and> st_dev psb \<noteq> st_dev sb))"
  by (auto simp: check_mounted_def Let_def split: option.splits if_splits)

lemma read_device_name_ok:
  "read_device_name w p = Inr d \<Longrightarrow> \<exists>content rest. dw_read w (p @ ''/device-id'') = Inl content \<and> file_lines content = d # rest"
  by (auto simp: read_device_name_def split: sum.splits list.splits)

lemma public_link [simp]: "c_publicStores (link_store p d c) = c_publicStores c"
  by (simp add: link_store_def)

lemma identify_ok:
  assumes "devices_ok w s" "identify w path s = (r, s')"
  shows "devices_ok w s'"
  using assms(2)
proof (cases rule: identify_cases)
  case (failed e s1)
  then show ?thesis using assms(1) preDeviceAccess_conf [OF failed(1)] by (auto simp: devices_ok_def)
next
  case (linked st sb s1 d)
  note pre = preDeviceAccess_conf [OF linked(4)]
  from check_device_ok [OF linked(6)] obtain dev where dev: "findDevice d (ds_conf s) = Some dev" "d_store dev = None"
    "\<not> c_publicStores (ds_conf s) \<longrightarrow> st_uid sb = 0 \<and> st_mode sb mod 64 = 0" using pre by auto
  have links: "links_ok (ds_conf s)" using assms(1) by (simp add: devices_ok_def)
  then have sorted: "name_order.sorted_keys (c_stores (ds_conf s))" "name_order.sorted_keys (c_devices (ds_conf s))"
    and path: "s_path st = path" using linked(1) by (simp_all add: links_ok_def)
  have "suitable_store w (ds_conf s) (st\<lparr>s_device := Some d\<rparr>) d"
    using check_mounted_ok [OF linked(3)] read_device_name_ok [OF linked(5)] dev(3) by (auto simp: suitable_store_def)
  then show ?thesis
    using assms(1) links_ok_link [OF links linked(1,2) dev(1,2)] pre linked(1)
    by (auto simp: devices_ok_def linked(8) find_link_store [OF sorted] suitable_store_def split: if_splits)
qed (use assms(1) in simp)


lemma identify_step_identify:
  "identify_step w states n ps s = (r, s') \<Longrightarrow>
     s' = s \<and> s_state (snd ps) \<notin> set states \<or>
     (\<exists>r0 s0. identify w (fst ps) s = (r0, s0) \<and> (s' = s0 \<or> s' = s0\<lparr>ds_errors := ds_errors s0 + 1\<rparr>))"
  by (auto simp: identify_step_def split: if_splits prod.splits sum.splits err.splits)

text \<open>What the program does to the devices: it identifies them, and gives up access.\<close>

inductive device_run :: "device_world \<Rightarrow> device_state \<Rightarrow> device_state \<Rightarrow> bool" for w s0 where
  run_init: "device_run w s0 s0"
| run_identify: "device_run w s0 s \<Longrightarrow> identifyDevices w states s = (r, s') \<Longrightarrow> device_run w s0 s'"
| run_post: "device_run w s0 s \<Longrightarrow> postDeviceAccess w s = (r, s') \<Longrightarrow> device_run w s0 s'"

section \<open>Invariants of the devices\<close>

text \<open>What every store's identification and the release of the devices keep is kept throughout.\<close>

locale device_invariant =
  fixes w :: device_world and P :: "device_state \<Rightarrow> bool"
  assumes identify_keeps: "P s \<Longrightarrow> identify w path s = (r, s') \<Longrightarrow> P s'"
    and post_keeps: "P s \<Longrightarrow> postDeviceAccess w s = (r, s') \<Longrightarrow> P s'"
    and errors_irrelevant: "P (s\<lparr>ds_errors := n\<rparr>) = P s"
    and identified_irrelevant: "P (s\<lparr>ds_conf := (ds_conf s)\<lparr>c_devicesIdentified := x\<rparr>\<rparr>) = P s"
begin

lemma step_keeps: "P s \<Longrightarrow> identify_step w states n ps s = (r, s') \<Longrightarrow> P s'"
  using identify_step_identify [of w states n ps s r s'] identify_keeps [of s "fst ps"] errors_irrelevant by auto

lemma loop_keeps: "P s \<Longrightarrow> identify_loop w states n ps s = (r, s') \<Longrightarrow> P s'"
proof (induction ps arbitrary: n s)
  case (Cons a ps)
  obtain r1 s1 where s1: "identify_step w states n a s = (r1, s1)" by force
  with Cons step_keeps [OF Cons.prems(1) s1] show ?case by (cases r1) auto
qed simp

lemma identifyDevices_keeps: "P s \<Longrightarrow> identifyDevices w states s = (r, s') \<Longrightarrow> P s'"
proof (cases "set states \<subseteq> set (c_devicesIdentified (ds_conf s))")
  case False
  assume s: "P s" "identifyDevices w states s = (r, s')"
  obtain r1 s1 where s1: "identify_loop w states 0 (c_stores (ds_conf s)) s = (r1, s1)" by force
  have P: "P s1" by (rule loop_keeps [OF s(1) s1])
  show ?thesis
    using s(2) False s1 P identified_irrelevant [where s = "s1\<lparr>ds_errors := ds_errors s1 + 1\<rparr>"] identified_irrelevant [where s = s1] errors_irrelevant [where s = s1]
    by (cases r1) (auto simp: identifyDevices_def Let_def split: if_splits)
qed (simp add: identifyDevices_def)

lemma run_keeps: "device_run w s0 s \<Longrightarrow> P s0 \<Longrightarrow> P s"
  by (induction rule: device_run.induct) (auto dest: identifyDevices_keeps post_keeps)

end

lemma links_ok_identified [simp]:
  "links_ok (c\<lparr>c_devicesIdentified := x\<rparr>) = links_ok c"
  "findStore p (c\<lparr>c_devicesIdentified := x\<rparr>) = findStore p c"
  "findDevice d (c\<lparr>c_devicesIdentified := x\<rparr>) = findDevice d c"
  "suitable_store w (c\<lparr>c_devicesIdentified := x\<rparr>) st d = suitable_store w c st d"
  by (simp_all add: links_ok_def findStore_def findDevice_def suitable_store_def)

lemma postDeviceAccess_ok: "devices_ok w s \<Longrightarrow> postDeviceAccess w s = (r, s') \<Longrightarrow> devices_ok w s'"
  by (auto simp: postDeviceAccess_def devices_ok_def Let_def split: if_splits sum.splits)

interpretation linked: device_invariant w "devices_ok w" for w
  by unfold_locales (fact identify_ok, fact postDeviceAccess_ok, simp_all add: devices_ok_def)

definition fresh_devices :: "device_state \<Rightarrow> bool" where
  "fresh_devices s \<longleftrightarrow> name_order.sorted_keys (c_stores (ds_conf s)) \<and> name_order.sorted_keys (c_devices (ds_conf s)) \<and>
     (\<forall>p st. findStore p (ds_conf s) = Some st \<longrightarrow> s_path st = p \<and> s_device st = None) \<and>
     (\<forall>d dev. findDevice d (ds_conf s) = Some dev \<longrightarrow> d_store dev = None) \<and> ds_open s = [] \<and> \<not> ds_ready s \<and> ds_hooks s = []"

lemma fresh_devices_ok: "fresh_devices s \<Longrightarrow> devices_ok w s"
  by (auto simp: fresh_devices_def devices_ok_def links_ok_def)


section \<open>The hooks alternate\<close>

text \<open>Whether the devices are accessible after these hooks, if they alternate.\<close>

definition after_hooks :: "string list \<Rightarrow> bool option" where
  "after_hooks =
     foldl (\<lambda>ready h. if ready = Some False \<and> h = ''pre-device-hook'' then Some True
                      else if ready = Some True \<and> h = ''post-device-hook'' then Some False else None) (Some False)"

definition hooks_ok :: "device_state \<Rightarrow> bool" where
  "hooks_ok s \<longleftrightarrow> after_hooks (ds_hooks s) = Some (ds_ready s)"

lemma after_hooks_simps [simp]:
  "after_hooks [] = Some False"
  "after_hooks hs = Some False \<Longrightarrow> after_hooks (hs @ [''pre-device-hook'']) = Some True"
  "after_hooks hs = Some True \<Longrightarrow> after_hooks (hs @ [''post-device-hook'']) = Some False"
  by (simp_all add: after_hooks_def)

lemma hooks_ok_pre: "hooks_ok s \<Longrightarrow> preDeviceAccess w s = (r, s') \<Longrightarrow> hooks_ok s'"
  by (auto simp: hooks_ok_def preDeviceAccess_def split: if_splits sum.splits)

lemma hooks_ok_post: "hooks_ok s \<Longrightarrow> postDeviceAccess w s = (r, s') \<Longrightarrow> hooks_ok s'"
  by (auto simp: hooks_ok_def postDeviceAccess_def Let_def split: if_splits sum.splits)

lemma hooks_ok_identify: "hooks_ok s \<Longrightarrow> identify w path s = (r, s') \<Longrightarrow> hooks_ok s'"
proof (erule identify_cases)
  fix st sb s1 d assume "hooks_ok s" "preDeviceAccess w s = (Inr (), s1)"
    "s' = s1\<lparr>ds_conf := link_store path d (ds_conf s1), ds_open := ds_open s1 @ [path]\<rparr>"
  then show "hooks_ok s'" using hooks_ok_pre [of s w "Inr ()" s1] by (simp add: hooks_ok_def)
qed (auto dest: hooks_ok_pre)


interpretation alternating: device_invariant w hooks_ok for w
  by unfold_locales (fact hooks_ok_identify, fact hooks_ok_post, simp_all add: hooks_ok_def)

text \<open>
  The two hooks for access to the devices alternate, starting with the first; while the \<open>device-id\<close> of a store is
  kept open, the devices are accessible and the store has been identified.
\<close>

theorem device_hooks_alternate:
  assumes "device_run w s0 s" "fresh_devices s0"
  shows "after_hooks (ds_hooks s) = Some (ds_ready s) \<and>
    (\<forall>p \<in> set (ds_open s). ds_ready s \<and> (\<exists>st. findStore p (ds_conf s) = Some st \<and> s_device st \<noteq> None))"
proof -
  have "hooks_ok s0" using assms(2) by (simp add: hooks_ok_def fresh_devices_def)
  then have "hooks_ok s" by (rule alternating.run_keeps [OF assms(1)])
  moreover have "devices_ok w s" by (rule linked.run_keeps [OF assms(1) fresh_devices_ok [OF assms(2)]])
  ultimately show ?thesis by (simp add: hooks_ok_def devices_ok_def)
qed


section \<open>Every fit store is found\<close>

text \<open>What stays of a configuration while devices are identified.\<close>

definition later :: "conf \<Rightarrow> conf \<Rightarrow> bool" where
  "later c c' \<longleftrightarrow>
     (\<forall>p. map_option (s_device_update (\<lambda>_. None)) (findStore p c') = map_option (s_device_update (\<lambda>_. None)) (findStore p c)) \<and>
     (\<forall>n. (findDevice n c' = None) = (findDevice n c = None)) \<and> c_publicStores c' = c_publicStores c \<and>
     (\<forall>p st d. findStore p c = Some st \<and> s_device st = Some d \<longrightarrow> (\<exists>st'. findStore p c' = Some st' \<and> s_device st' = Some d))"

lemma later_refl: "later c c"
  by (simp add: later_def)

lemma later_link:
  assumes "later c0 c" "links_ok c" "findStore path c = Some st" "s_device st = None" "findDevice d c = Some dev"
  shows "later c0 (link_store path d c)"
proof -
  have s: "name_order.sorted_keys (c_stores c)" "name_order.sorted_keys (c_devices c)" using assms(2) by (simp_all add: links_ok_def)
  have "\<exists>st'. findStore p (link_store path d c) = Some st' \<and> s_device st' = Some d'"
    if x: "findStore p c0 = Some st0" "s_device st0 = Some d'" for p st0 d'
  proof -
    obtain st' where "findStore p c = Some st'" "s_device st' = Some d'" using assms(1) x unfolding later_def by blast
    then show ?thesis using assms(3,4) by (auto simp: find_link_store [OF s])
  qed
  moreover have "map_option (s_device_update (\<lambda>_. None)) (findStore p (link_store path d c)) =
      map_option (s_device_update (\<lambda>_. None)) (findStore p c)" for p
    by (cases "findStore path c") (auto simp: find_link_store [OF s])
  moreover have "findDevice d c0 \<noteq> None" using assms(1,5) unfolding later_def by (metis option.distinct(1))
  ultimately show ?thesis using assms(1,5) by (auto simp: later_def find_link_store [OF s])
qed

lemma later_identify:
  assumes "devices_ok w s \<and> later c0 (ds_conf s)" "identify w path s = (r, s')"
  shows "devices_ok w s' \<and> later c0 (ds_conf s')"
proof -
  have "later c0 (ds_conf s')"
    using assms(2)
  proof (cases rule: identify_cases)
    case (failed e s1)
    then show ?thesis using assms(1) preDeviceAccess_conf [OF failed(1)] by simp
  next
    case (linked st sb s1 d)
    note pre = preDeviceAccess_conf [OF linked(4)]
    from check_device_ok [OF linked(6)] obtain dev where "findDevice d (ds_conf s) = Some dev" using pre by auto
    from later_link [OF conjunct2 [OF assms(1)] _ linked(1,2) this]
    show ?thesis using assms(1) pre by (simp add: linked(8) devices_ok_def)
  qed (use assms(1) in simp)
  then show ?thesis using identify_ok assms by blast
qed

interpretation kept: device_invariant w "\<lambda>s. devices_ok w s \<and> later c0 (ds_conf s)" for w c0
proof unfold_locales
  show "devices_ok w s' \<and> later c0 (ds_conf s')"
    if "devices_ok w s \<and> later c0 (ds_conf s)" "postDeviceAccess w s = (r, s')" for s r s'
  proof -
    have "ds_conf s' = ds_conf s" using that(2) by (auto simp: postDeviceAccess_def Let_def split: if_splits sum.splits)
    then show ?thesis using that postDeviceAccess_ok by auto
  qed
qed (fact later_identify, simp_all add: devices_ok_def later_def)

text \<open>The store at a path names a device.\<close>

definition names_device :: "device_world \<Rightarrow> string \<Rightarrow> string \<Rightarrow> bool" where
  "names_device w path d \<longleftrightarrow> (\<exists>content rest. dw_read w (path @ ''/device-id'') = Inl content \<and> file_lines content = d # rest)"

definition has_device :: "string \<Rightarrow> string \<Rightarrow> conf \<Rightarrow> bool" where
  "has_device p d c \<longleftrightarrow> (\<exists>st. findStore p c = Some st \<and> s_device st = Some d)"

definition findable :: "device_world \<Rightarrow> conf \<Rightarrow> string \<Rightarrow> string \<Rightarrow> bool" where
  "findable w c p d \<longleftrightarrow> (\<exists>st. findStore p c = Some st \<and> s_path st = p \<and> suitable_store w c st d) \<and> findDevice d c \<noteq> None \<and>
     (\<forall>q. q \<noteq> p \<and> findStore q c \<noteq> None \<longrightarrow> \<not> names_device w q d)"

lemma suitable_names: "suitable_store w c st d \<Longrightarrow> names_device w (s_path st) d"
  by (auto simp: suitable_store_def names_device_def)

lemma names_device_unique: "names_device w p d \<Longrightarrow> names_device w p d' \<Longrightarrow> d = d'"
  by (auto simp: names_device_def)

lemma preDeviceAccess_error: "preDeviceAccess w s = (Inl e, s') \<Longrightarrow> \<exists>n st. e = SubprocessFailed n st"
  by (auto simp: preDeviceAccess_def runDeviceAccessHook_def subprocess_wait_def rbind_def split: if_splits sum.splits)

lemma identify_finds:
  assumes "devices_ok w s" "later c0 (ds_conf s)" "findable w c0 p d" "identify w p s = (r, s')"
  shows "(\<exists>n st. r = Inl (SubprocessFailed n st)) \<or> r = Inr () \<and> has_device p d (ds_conf s')"
proof -
  let ?c = "ds_conf s"
  have links: "links_ok ?c" using assms(1) by (simp add: devices_ok_def)
  from assms(3) obtain st0 where st0: "findStore p c0 = Some st0" "s_path st0 = p" "suitable_store w c0 st0 d"
    and dev: "findDevice d c0 \<noteq> None" and only: "\<And>q. q \<noteq> p \<Longrightarrow> findStore q c0 \<noteq> None \<Longrightarrow> \<not> names_device w q d"
    by (auto simp: findable_def)
  have "map_option (s_device_update (\<lambda>_. None)) (findStore p ?c) = Some (st0\<lparr>s_device := None\<rparr>)"
    using assms(2) st0(1) by (simp add: later_def)
  then obtain st where st: "findStore p ?c = Some st" "st\<lparr>s_device := None\<rparr> = st0\<lparr>s_device := None\<rparr>" by auto
  then have same: "s_path st = p" "s_mounted st = s_mounted st0" using st0(2) by (metis store.select_convs store.surjective store.update_convs(3))+
  have public: "c_publicStores ?c = c_publicStores c0" using assms(2) by (simp add: later_def)
  have suit: "suitable_store w ?c st d" using st0(2,3) same public by (simp add: suitable_store_def)
  show ?thesis
  proof (cases "s_device st")
    case (Some d')
    have "suitable_store w ?c st d'" using assms(1) st(1) Some by (auto simp: devices_ok_def)
    then have "d' = d" using suit suitable_names names_device_unique by blast
    then show ?thesis using assms(4) st(1) Some by (auto simp: identify_def has_device_def)
  next
    case None
    from suit obtain sb where sb: "dw_stat w p = Some sb"
      "s_mounted st \<longrightarrow> (\<exists>psb. dw_stat w (p @ ''/..'') = Some psb \<and> st_dev psb \<noteq> st_dev sb)"
      "\<not> c_publicStores ?c \<longrightarrow> st_uid sb = 0 \<and> st_mode sb mod 64 = 0" by (auto simp: suitable_store_def same(1))
    have m: "check_mounted w st = Inr sb" using sb(1,2) by (auto simp: check_mounted_def same(1))
    have n: "read_device_name w (s_path st) = Inr d"
      using suitable_names [OF suit] by (auto simp: names_device_def read_device_name_def)
    obtain e s1 where pre: "preDeviceAccess w s = (e, s1)" by force
    note c1 = preDeviceAccess_conf [OF pre]
    from dev obtain dv where dv: "findDevice d ?c = Some dv" using assms(2) unfolding later_def by (cases "findDevice d ?c") auto
    have "d_store dv = None"
    proof (rule ccontr)
      assume "d_store dv \<noteq> None"
      then obtain q where q: "d_store dv = Some q" by blast
      from links_device [OF links dv q] obtain st' where st': "findStore q ?c = Some st'" "s_device st' = Some d" by blast
      then have "s_path st' = q" "suitable_store w ?c st' d" using assms(1) links by (auto simp: devices_ok_def links_ok_def)
      then have "names_device w q d" using suitable_names by blast
      moreover have "findStore q c0 \<noteq> None" using assms(2) st'(1) by (metis later_def map_option_is_None option.distinct(1))
      moreover have "q \<noteq> p" using st' st(1) None by auto
      ultimately show False using only by blast
    qed
    then have chk: "check_device ?c st sb d = Inr ()" using dv sb(3) by (auto simp: check_device_def accessible_to_others_def)
    show ?thesis
    proof (cases e)
      case (Inl x)
      with preDeviceAccess_error [of w s x s1] pre assms(4) st(1) None m show ?thesis by (auto simp: identify_def)
    next
      case (Inr u)
      then have "r = Inr ()" "ds_conf s' = link_store p d ?c"
        using assms(4) st(1) None m pre c1 n chk by (auto simp: identify_def)
      moreover have "name_order.sorted_keys (c_stores ?c)" "name_order.sorted_keys (c_devices ?c)"
        using links by (simp_all add: links_ok_def)
      ultimately show ?thesis using st(1) by (simp add: has_device_def find_link_store)
    qed
  qed
qed

lemma later_has_device: "later c c' \<Longrightarrow> has_device p d c \<Longrightarrow> has_device p d c'"
  by (auto simp: later_def has_device_def)

lemma identify_loop_finds:
  assumes "(p, st) \<in> set ps" "s_state st = Enabled" "findable w c0 p d"
    "devices_ok w s" "later c0 (ds_conf s)" "identify_loop w [Enabled] n ps s = (Inr m, s')"
  shows "has_device p d (ds_conf s')"
  using assms(1,4-)
proof (induction ps arbitrary: n s)
  case (Cons a ps)
  obtain r1 s1 where s1: "identify_step w [Enabled] n a s = (r1, s1)" by force
  with Cons.prems(4) obtain k where k: "r1 = Inr k" "identify_loop w [Enabled] k ps s1 = (Inr m, s')" by (cases r1) auto
  have keep: "devices_ok w s1 \<and> later c0 (ds_conf s1)" using kept.step_keeps [OF _ s1] Cons.prems(2,3) by blast
  show ?case
  proof (cases "a = (p, st)")
    case True
    obtain r0 s0 where r0: "identify w p s = (r0, s0)" by force
    from identify_finds [OF Cons.prems(2,3) assms(3) r0]
    have "has_device p d (ds_conf s1)"
      using s1 r0 k(1) True assms(2) by (auto simp: identify_step_def)
    moreover have "later (ds_conf s1) (ds_conf s')"
      using kept.loop_keeps [of w s1 "ds_conf s1", OF _ k(2)] keep later_refl by blast
    ultimately show ?thesis using later_has_device by blast
  next
    case False
    then show ?thesis using Cons.IH [OF _ _ _ k(2)] Cons.prems(1) keep by auto
  qed
qed simp

text \<open>
  If the enabled stores can be identified without a fatal error, then every enabled store that is fit for
  use, and whose device is configured and on no other store, has its device afterwards.
\<close>

theorem fit_stores_identified:
  assumes "identifyDevices w [Enabled] s = (Inr (), s')" "devices_ok w s" "Enabled \<notin> set (c_devicesIdentified (ds_conf s))"
    "findStore p (ds_conf s) = Some st" "s_state st = Enabled" "suitable_store w (ds_conf s) st d" "findDevice d (ds_conf s) \<noteq> None"
    "\<forall>q. q \<noteq> p \<and> findStore q (ds_conf s) \<noteq> None \<longrightarrow> \<not> names_device w q d"
  shows "\<exists>st' dev. findStore p (ds_conf s') = Some st' \<and> s_device st' = Some d \<and>
    findDevice d (ds_conf s') = Some dev \<and> d_store dev = Some p"
proof -
  obtain r1 s1 where s1: "identify_loop w [Enabled] 0 (c_stores (ds_conf s)) s = (r1, s1)" by force
  with assms(1,3) obtain m where m: "identify_loop w [Enabled] 0 (c_stores (ds_conf s)) s = (Inr m, s1)"
    by (cases r1) (auto simp: identifyDevices_def)
  have path: "s_path st = p" using assms(2,4) by (auto simp: devices_ok_def links_ok_def)
  have "findable w (ds_conf s) p d" using assms(4,6-8) path by (auto simp: findable_def)
  from identify_loop_finds [OF name_find [OF assms(4) [unfolded findStore_def]] assms(5) this assms(2) later_refl m]
  have "has_device p d (ds_conf s1)" .
  then have "has_device p d (ds_conf s')"
    using assms(1,3) m by (auto simp: identifyDevices_def Let_def has_device_def)
  moreover have "links_ok (ds_conf s')" using linked.identifyDevices_keeps [OF assms(2,1)] by (simp add: devices_ok_def)
  ultimately show ?thesis unfolding has_device_def using links_store by blast
qed


section \<open>A sample\<close>

definition sample_device_state :: device_state where
  "sample_device_state =
     \<lparr>ds_conf = (new_conf ''s'')\<lparr>c_stores := [(''/a'', new_store ''/a'' True), (''/b'', new_store ''/b'' False)],
        c_devices := [(''d1'', new_device ''d1''), (''d2'', new_device ''d2'')]\<rparr>,
      ds_ready = False, ds_open = [], ds_errors = 0, ds_hooks = []\<rparr>"

definition sample_device_world :: device_world where
  "sample_device_world =
     \<lparr>dw_stat = (\<lambda>p. if p = ''/a'' then Some \<lparr>st_dev = 2, st_uid = 0, st_mode = 448\<rparr>
                     else Some \<lparr>st_dev = 1, st_uid = 0, st_mode = 448\<rparr>),
      dw_read = (\<lambda>p. if p = ''/a/device-id'' then Inl (''d2'' @ [LF]) else Inr (''missing'', ENOENT)),
      dw_hook = (\<lambda>_ _. 0), dw_act = True\<rparr>"

lemma sample_find:
  "findStore p (ds_conf sample_device_state) = Some st \<longleftrightarrow>
     (p = ''/a'' \<and> st = new_store ''/a'' True) \<or> (p = ''/b'' \<and> st = new_store ''/b'' False)"
  "findDevice d (ds_conf sample_device_state) = Some dev \<longleftrightarrow>
     (d = ''d1'' \<and> dev = new_device ''d1'') \<or> (d = ''d2'' \<and> dev = new_device ''d2'')"
proof -
  have n: "name_order.sorted_keys [(''/a'', x), (''/b'', y)]" "name_order.sorted_keys [(''d1'', v), (''d2'', z)]"
    for x y :: store and v z :: device
    by (simp_all add: name_order.sorted_keys_simps; code_simp)+
  show "findStore p (ds_conf sample_device_state) = Some st \<longleftrightarrow>
     (p = ''/a'' \<and> st = new_store ''/a'' True) \<or> (p = ''/b'' \<and> st = new_store ''/b'' False)"
    using name_find_iff [OF n(1), of p] by (simp add: findStore_def sample_device_state_def)
  show "findDevice d (ds_conf sample_device_state) = Some dev \<longleftrightarrow>
     (d = ''d1'' \<and> dev = new_device ''d1'') \<or> (d = ''d2'' \<and> dev = new_device ''d2'')"
    using name_find_iff [OF n(2), of d] by (simp add: findDevice_def sample_device_state_def)
qed

lemma sample_fresh: "fresh_devices sample_device_state"
proof -
  have "name_order.sorted_keys (c_stores (ds_conf sample_device_state))" "name_order.sorted_keys (c_devices (ds_conf sample_device_state))"
    by (simp_all add: sample_device_state_def name_order.sorted_keys_simps; code_simp)+
  then show ?thesis
    unfolding fresh_devices_def sample_find by (auto simp: new_store_def new_device_def sample_device_state_def)
qed

text \<open>The device is found on \<open>/a\<close>; \<open>/b\<close> has none.\<close>

lemma sample_suitable: "suitable_store sample_device_world (ds_conf sample_device_state) (new_store ''/a'' True) ''d2''"
  by (simp add: suitable_store_def sample_device_world_def new_store_def sample_device_state_def new_conf_def conf_base.defs
      file_lines_def)

definition sample_identified :: "unit result \<times> device_state" where
  "sample_identified = identifyDevices sample_device_world [Enabled] sample_device_state"

lemma sample_identified: "fst sample_identified = Inr ()"
  by code_simp

lemma fit_stores_identified_witness:
  "\<exists>st dev. findStore ''/a'' (ds_conf (snd sample_identified)) = Some st \<and> s_device st = Some ''d2'' \<and>
     findDevice ''d2'' (ds_conf (snd sample_identified)) = Some dev \<and> d_store dev = Some ''/a''"
proof -
  have "identifyDevices sample_device_world [Enabled] sample_device_state = (Inr (), snd sample_identified)"
    using sample_identified by (metis prod.collapse sample_identified_def)
  moreover have "Enabled \<notin> set (c_devicesIdentified (ds_conf sample_device_state))"
    by (simp add: sample_device_state_def new_conf_def conf_base.defs)
  moreover have "findStore ''/a'' (ds_conf sample_device_state) = Some (new_store ''/a'' True)"
    "findDevice ''d2'' (ds_conf sample_device_state) \<noteq> None"
    by (simp_all add: sample_find)
  moreover have "\<not> names_device sample_device_world q ''d2''" if "q \<noteq> ''/a''" "findStore q (ds_conf sample_device_state) \<noteq> None" for q
    using that sample_find(1) [of q] by (auto simp: names_device_def sample_device_world_def)
  ultimately show ?thesis
    using fit_stores_identified [OF _ fresh_devices_ok [OF sample_fresh]] sample_suitable by (simp add: new_store_def)
qed

lemma sample_device_run: "device_run sample_device_world sample_device_state (snd sample_identified)"
  by (rule run_identify [where states = "[Enabled]" and r = "fst sample_identified", OF run_init]) (simp add: sample_identified_def)


lemma device_hooks_alternate_witness: "after_hooks (ds_hooks (snd sample_identified)) = Some True"
proof -
  have "ds_ready (snd sample_identified)" by code_simp
  with device_hooks_alternate [OF sample_device_run sample_fresh] show ?thesis by simp
qed

end
