(* ===== verification/Retire.thy ===== *)
theory Retire
  imports Stores Commands Concurrency
begin

text \<open>
  Retiring: \<^verbatim>\<open>src/Check.cc\<close> (the question to the user), \<^verbatim>\<open>src/RetireDevices.cc\<close> and
  \<^verbatim>\<open>src/RetireVolumes.cc\<close>.  The input of the user is a string; the wait statuses of the removals and what
  \<open>unlink\<close> and \<open>rmdir\<close> answer are arguments.
\<close>

section \<open>Asking the user\<close>

text \<open>\<open>fgets\<close> with a buffer of 64 bytes: at most 63, up to the end of a line.\<close>

fun fgets_chunk :: "nat \<Rightarrow> string \<Rightarrow> string \<times> string" where
  "fgets_chunk 0 s = ([], s)"
| "fgets_chunk (Suc n) [] = ([], [])"
| "fgets_chunk (Suc n) (c # s) =
     (if c = LF then ([LF], s) else let (l, r) = fgets_chunk n s in (c # l, r))"

lemma fgets_chunk_append: "fgets_chunk n s = (l, r) \<Longrightarrow> s = l @ r"
  by (induction n s arbitrary: l r rule: fgets_chunk.induct) (auto split: if_splits prod.splits)

lemma fgets_chunk_nonempty: "fgets_chunk (Suc n) s = (l, r) \<Longrightarrow> s \<noteq> [] \<Longrightarrow> length r < length s"
  by (cases s) (auto split: if_splits prod.splits dest!: fgets_chunk_append)

function check_loop :: "string \<Rightarrow> bool result \<times> string" where
  "check_loop input =
     (if input = [] then (Inl (IOError ''unexpected EOF reading stdin'' 0), [])
      else let (buffer, rest) = fgets_chunk 63 input; answer = takeWhile (\<lambda>c. c \<noteq> CHR 0x00) buffer
           in if answer = ''yes'' @ [LF] then (Inr True, rest)
              else if answer = ''no'' @ [LF] then (Inr False, rest)
              else check_loop rest)"
  by pat_completeness auto
termination
  by (relation "measure length") (auto simp: numeral_eq_Suc dest!: fgets_chunk_nonempty [OF sym])

declare check_loop.simps [simp del]

definition check :: "bool \<Rightarrow> string \<Rightarrow> bool result \<times> string" where
  "check force input = (if force then (Inr True, input) else check_loop input)"

section \<open>The state\<close>

record retire_world =
  rw_devices :: device_world
  rw_force :: bool
  rw_rm :: "string \<Rightarrow> int"
  rw_unlink :: "string \<Rightarrow> int option"
  rw_rmdir :: "string \<Rightarrow> int option"

definition rw_act :: "retire_world \<Rightarrow> bool" where
  "rw_act w = dw_act (rw_devices w)"

record retire_state =
  rs_devices :: device_state
  rs_input :: string
  rs_db :: database

type_synonym 'a retire_action = "retire_state \<Rightarrow> 'a result \<times> retire_state"

definition ra_bind :: "'a retire_action \<Rightarrow> ('a \<Rightarrow> 'b retire_action) \<Rightarrow> 'b retire_action" where
  "ra_bind f g s = (case f s of (Inl e, s) \<Rightarrow> (Inl e, s) | (Inr x, s) \<Rightarrow> g x s)"

definition ra_return :: "'a \<Rightarrow> 'a retire_action" where
  "ra_return x s = (Inr x, s)"

definition ra_throw :: "err \<Rightarrow> 'a retire_action" where
  "ra_throw e s = (Inl e, s)"

fun ra_fold :: "('b \<Rightarrow> 'a \<Rightarrow> 'b retire_action) \<Rightarrow> 'b \<Rightarrow> 'a list \<Rightarrow> 'b retire_action" where
  "ra_fold f acc [] = ra_return acc"
| "ra_fold f acc (x # xs) = ra_bind (f acc x) (\<lambda>acc. ra_fold f acc xs)"

definition on_db :: "'a db_action \<Rightarrow> 'a retire_action" where
  "on_db f s = (let (r, d) = f (rs_db s) in (r, s\<lparr>rs_db := d\<rparr>))"

definition ask :: "retire_world \<Rightarrow> bool retire_action" where
  "ask w s = (let (r, i) = check (rw_force w) (rs_input s) in (r, s\<lparr>rs_input := i\<rparr>))"

definition count_error :: "unit retire_action" where
  "count_error s = (Inr (), s\<lparr>rs_devices := (rs_devices s)\<lparr>ds_errors := ds_errors (rs_devices s) + 1\<rparr>\<rparr>)"

definition identify_enabled :: "retire_world \<Rightarrow> unit retire_action" where
  "identify_enabled w s = (let (r, ds) = identifyDevices (rw_devices w) [Enabled] (rs_devices s) in (r, s\<lparr>rs_devices := ds\<rparr>))"

definition get_conf :: "conf retire_action" where
  "get_conf s = (Inr (ds_conf (rs_devices s)), s)"

section \<open>Retiring devices\<close>

definition delete_device :: "string \<Rightarrow> db_table \<Rightarrow> db_table" where
  "delete_device name t = filter (\<lambda>((_, _, d, _), _). d \<noteq> name) t"

definition retireDevice :: "retire_world \<Rightarrow> string \<Rightarrow> unit retire_action" where
  "retireDevice w name =
     ra_bind get_conf (\<lambda>c.
     ra_bind (if findDevice name c \<noteq> None then ask w else ra_return True) (\<lambda>really.
       if \<not> really then ra_return ()
       else if rw_act w
       then on_db (db_bind db_begin (\<lambda>_. db_bind (db_statement (\<lambda>t. Inr (delete_device name t))) (\<lambda>_. db_commit (rw_act w) False)))
       else ra_return ()))"

definition retireDevices :: "retire_world \<Rightarrow> string list \<Rightarrow> unit retire_action" where
  "retireDevices w = ra_fold (\<lambda>_. retireDevice w) ()"

section \<open>Retiring volumes\<close>

record retirable =
  rt_host :: string
  rt_volume :: string
  rt_device :: string
  rt_store :: string
  rt_id :: string

definition rt_path :: "retirable \<Rightarrow> string" where
  "rt_path r = rt_store r @ ''/'' @ rt_host r @ ''/'' @ rt_volume r @ ''/'' @ rt_id r"

definition rt_key :: "retirable \<Rightarrow> db_key" where
  "rt_key r = (rt_host r, rt_volume r, rt_device r, rt_id r)"

text \<open>The action that removes it; the list of actions refuses a second one of that name.\<close>

definition rt_action :: "retirable \<Rightarrow> action" where
  "rt_action r =
     uses (rt_device r)
       (new_action (''remove/'' @ rt_host r @ ''/'' @ rt_volume r @ ''/'' @ rt_device r @ ''/'' @ rt_id r))"

definition scheduleRetire :: "bool \<Rightarrow> action_list \<Rightarrow> retirable \<Rightarrow> action_list result" where
  "scheduleRetire act al r = (if act then al_add (rt_action r) al else Inr al)"

definition delete_key :: "db_key \<Rightarrow> unit db_action" where
  "delete_key k = db_statement (\<lambda>t. Inr (filter (\<lambda>(j, _). j \<noteq> k) t))"

definition retirable_forget :: "retirable \<Rightarrow> unit retire_action" where
  "retirable_forget r = on_db (delete_key (rt_key r))"

definition retired :: "retire_world \<Rightarrow> retirable \<Rightarrow> unit retire_action" where
  "retired w r =
     (if \<not> rw_act w then ra_return ()
      else if rw_rm w (rt_path r) \<noteq> 0 then count_error
      else case rw_unlink w (rt_path r @ ''.incomplete'') of
             Some errno \<Rightarrow> if errno \<noteq> ENOENT then count_error else retirable_forget r
           | None \<Rightarrow> retirable_forget r)"

text \<open>The rows of the query.\<close>

definition retire_matches :: "string \<Rightarrow> string \<Rightarrow> db_key \<times> db_row \<Rightarrow> bool" where
  "retire_matches hostName volumeName kr \<longleftrightarrow>
     fst (fst kr) = hostName \<and> (volumeName = STAR \<or> fst (snd (fst kr)) = volumeName) \<and> r_status (snd kr) \<noteq> PRUNED"

definition db_select :: "(db_key \<times> db_row \<Rightarrow> bool) \<Rightarrow> db_key list db_action" where
  "db_select P d = (case db_statement Inr d of (Inl e, d) \<Rightarrow> (Inl e, d) | (Inr _, d) \<Rightarrow> (Inr (map fst (filter P (db_working d))), d))"

type_synonym retire_lists = "retirable list \<times> string list \<times> string list"

text \<open>One row: where the backup is, if it can be reached.\<close>

definition identify_row :: "retire_world \<Rightarrow> bool \<Rightarrow> retire_lists \<Rightarrow> db_key \<Rightarrow> retire_lists retire_action" where
  "identify_row w whole_host acc k =
     ra_bind (identify_enabled w) (\<lambda>_. ra_bind get_conf (\<lambda>c.
       let (hostName, volume, deviceName, bid) = k; (retire, volume_directories, host_directories) = acc;
           skip = ra_bind count_error (\<lambda>_. ra_return acc)
       in case findDevice deviceName c of
            None \<Rightarrow> skip
          | Some d \<Rightarrow>
              (case d_store d of
                 None \<Rightarrow> skip
               | Some path \<Rightarrow>
                   (case findStore path c of
                      None \<Rightarrow> ra_throw UndefinedBehaviour
                    | Some st \<Rightarrow>
                        if s_state st \<noteq> Enabled then skip
                        else ra_return
                          (retire @ [\<lparr>rt_host = hostName, rt_volume = volume, rt_device = d_name d, rt_store = path, rt_id = bid\<rparr>],
                           fst (os_insert str_less (path @ ''/'' @ hostName @ ''/'' @ volume) volume_directories),
                           if whole_host then fst (os_insert str_less (path @ ''/'' @ hostName) host_directories)
                           else host_directories)))))"

definition identifyVolumes :: "retire_world \<Rightarrow> retire_lists \<Rightarrow> selection \<Rightarrow> retire_lists retire_action" where
  "identifyVolumes w acc s =
     ra_bind (if rw_act w then ask w else ra_return True) (\<lambda>really.
       if \<not> really then ra_return acc
       else ra_bind (on_db (db_select (retire_matches (sel_host s) (sel_volume s))))
              (\<lambda>ks. ra_fold (identify_row w (sel_volume s = STAR)) acc ks))"

definition removeDirectory :: "retire_world \<Rightarrow> string \<Rightarrow> unit retire_action" where
  "removeDirectory w path =
     (if \<not> rw_act w then ra_return ()
      else case rw_rmdir w path of None \<Rightarrow> ra_return () | Some errno \<Rightarrow> if errno \<noteq> ENOENT then count_error else ra_return ())"

definition identify_selection :: "retire_world \<Rightarrow> retire_lists \<Rightarrow> selection \<Rightarrow> retire_lists retire_action" where
  "identify_selection w acc s =
     (if sel_host s = STAR then ra_throw (CommandError ''cannot retire all hosts'') else identifyVolumes w acc s)"

text \<open>
  \<open>al.go()\<close> runs every removal to its end (\<open>Actions\<close>), with the statuses \<open>rw_rm\<close>; the value is the list of backups
  that were found.
\<close>

definition retireVolumes :: "retire_world \<Rightarrow> bool \<Rightarrow> selection list \<Rightarrow> retirable list retire_action" where
  "retireVolumes w remove ss =
     ra_bind (ra_fold (identify_selection w) ([], [], []) ss) (\<lambda>(retire, volume_directories, host_directories).
       ra_bind
         (if remove
          then ra_bind (\<lambda>s. (fold_result (scheduleRetire (rw_act w)) new_action_list retire, s)) (\<lambda>_.
               ra_bind (ra_fold (\<lambda>_. retired w) () retire) (\<lambda>_.
               ra_bind (ra_fold (\<lambda>_. removeDirectory w) () volume_directories) (\<lambda>_.
                 ra_fold (\<lambda>_. removeDirectory w) () host_directories)))
          else if rw_act w then ra_fold (\<lambda>_. retirable_forget) () retire
          else ra_return ()) (\<lambda>_. ra_return retire))"


section \<open>The answer to a question\<close>

definition answer_line :: "string \<Rightarrow> bool" where
  "answer_line l \<longleftrightarrow> LF \<notin> set l \<and> CHR 0x00 \<notin> set l \<and> length l < 63"

lemma fgets_chunk_line:
  "LF \<notin> set l \<Longrightarrow> length l < n \<Longrightarrow> fgets_chunk n (l @ LF # s) = (l @ [LF], s)"
proof (induction l arbitrary: n)
  case Nil
  then show ?case by (cases n) auto
next
  case (Cons c l)
  then show ?case by (cases n) auto
qed

lemma check_loop_line:
  assumes "answer_line l"
  shows "check_loop (l @ LF # s) = (if l = ''yes'' then (Inr True, s) else if l = ''no'' then (Inr False, s) else check_loop s)"
proof -
  have f: "fgets_chunk 63 (l @ LF # s) = (l @ [LF], s)"
    by (rule fgets_chunk_line) (use assms in \<open>auto simp: answer_line_def\<close>)
  have t: "takeWhile (\<lambda>c. c \<noteq> CHR 0x00) (l @ [LF]) = l @ [LF]"
    using assms by (subst takeWhile_eq_all_conv) (auto simp: answer_line_def)
  show ?thesis by (subst check_loop.simps) (simp add: f t Let_def)
qed

text \<open>
  The user is asked until a line is exactly \<open>yes\<close> or \<open>no\<close>, which is the answer; if no line is, the program
  stops with an error.  With \<open>--force\<close> nothing is read.
\<close>

theorem question_answered:
  assumes "\<forall>l \<in> set ls. answer_line l \<and> l \<notin> {''yes'', ''no''}"
  shows "check False (concat (map (\<lambda>l. l @ [LF]) ls) @ ''yes'' @ LF # rest) = (Inr True, rest) \<and>
    check False (concat (map (\<lambda>l. l @ [LF]) ls) @ ''no'' @ LF # rest) = (Inr False, rest) \<and>
    check False (concat (map (\<lambda>l. l @ [LF]) ls)) = (Inl (IOError ''unexpected EOF reading stdin'' 0), []) \<and>
    check True rest = (Inr True, rest)"
proof -
  have skip: "check_loop (concat (map (\<lambda>l. l @ [LF]) ls) @ s) = check_loop s" for s
    using assms
  proof (induction ls)
    case (Cons l ls)
    then show ?case using check_loop_line [of l "concat (map (\<lambda>l. l @ [LF]) ls) @ s"] by simp
  qed simp
  have yn: "answer_line ''yes''" "answer_line ''no''" by (simp_all add: answer_line_def)
  show ?thesis
    using skip [of "''yes'' @ LF # rest"] skip [of "''no'' @ LF # rest"] skip [of "[]"]
      check_loop_line [OF yn(1), of rest] check_loop_line [OF yn(2), of rest]
    by (simp add: check_def check_loop.simps [of "[]"])
qed

lemma question_answered_witness:
  "check False (''Yes'' @ [LF] @ ''no'' @ [LF]) = (Inr False, [])"
  using question_answered [of "[''Yes'']" "[]"] by (simp add: answer_line_def)

text \<open>
  A line is read in pieces of 63 characters, so a line that merely ends in \<open>yes\<close> after 63 other characters is
  taken for consent.
\<close>

theorem long_line_is_consent:
  assumes "length l = 63" "LF \<notin> set l"
  shows "check False (l @ ''yes'' @ LF # rest) = (Inr True, rest)"
proof -
  have "fgets_chunk n (l @ s) = (l, s)" if "length l = n" "LF \<notin> set l" for n s
    using that by (induction l arbitrary: n) auto
  then have f: "fgets_chunk 63 (l @ ''yes'' @ LF # rest) = (l, ''yes'' @ LF # rest)" using assms by simp
  have "LF \<notin> set (takeWhile (\<lambda>c. c \<noteq> CHR 0x00) l)" using assms(2) by (meson set_takeWhileD)
  then have n: "takeWhile (\<lambda>c. c \<noteq> CHR 0x00) l \<noteq> ''yes'' @ [LF]" "takeWhile (\<lambda>c. c \<noteq> CHR 0x00) l \<noteq> ''no'' @ [LF]" by auto
  have "l \<noteq> []" using assms(1) by auto
  then have "check_loop (l @ ''yes'' @ LF # rest) = check_loop (''yes'' @ LF # rest)"
    by (subst check_loop.simps) (use f n in \<open>simp add: Let_def\<close>)
  moreover have "check_loop (''yes'' @ LF # rest) = (Inr True, rest)"
    using check_loop_line [of "''yes''" rest] by (simp add: answer_line_def)
  ultimately show ?thesis by (simp add: check_def)
qed

lemma long_line_is_consent_witness: "check False (replicate 63 CHR ''n'' @ ''yes'' @ [LF]) = (Inr True, [])"
  using long_line_is_consent [of "replicate 63 CHR ''n''" "[]"] by simp


section \<open>Retired devices\<close>

lemma ra_bind_Inr:
  "ra_bind f g s = (Inr y, s') \<longleftrightarrow> (\<exists>x s1. f s = (Inr x, s1) \<and> g x s1 = (Inr y, s'))"
  by (auto simp: ra_bind_def split: prod.splits sum.splits)

lemma ra_simps [simp]:
  "ra_return x s = (Inr x, s)" "ra_throw e s = (Inl e, s)"
  "ra_bind (ra_return x) g = g x"
  by (simp_all add: ra_return_def ra_throw_def ra_bind_def fun_eq_iff)

text \<open>Each question and each change keeps the other parts of the state.\<close>

lemma ask_keeps: "ask w s = (r, s') \<Longrightarrow> rs_db s' = rs_db s \<and> rs_devices s' = rs_devices s"
  by (auto simp: ask_def split: prod.splits)

lemma retireDevice_rows:
  assumes "retireDevice w name s = (Inr (), s')" "db_clean (rs_db s)"
  shows "db_clean (rs_db s') \<and> rs_devices s' = rs_devices s \<and>
    (\<exists>gone. db_committed (rs_db s') = (if gone \<and> rw_act w then delete_device name (db_committed (rs_db s)) else db_committed (rs_db s)) \<and>
       (findDevice name (ds_conf (rs_devices s)) = None \<or> rw_force w \<longrightarrow> gone))"
proof -
  let ?c = "ds_conf (rs_devices s)"
  from assms(1) obtain really s1 where s1: "(if findDevice name ?c \<noteq> None then ask w else ra_return True) s = (Inr really, s1)"
    "(if \<not> really then ra_return ()
       else if rw_act w
       then on_db (db_bind db_begin (\<lambda>_. db_bind (db_statement (\<lambda>t. Inr (delete_device name t))) (\<lambda>_. db_commit (rw_act w) False)))
       else ra_return ()) s1 = (Inr (), s')"
    by (auto simp: retireDevice_def ra_bind_Inr get_conf_def)
  have keep: "rs_db s1 = rs_db s \<and> rs_devices s1 = rs_devices s \<and> (findDevice name ?c = None \<or> rw_force w \<longrightarrow> really)"
  proof (cases "findDevice name ?c = None")
    case True
    then show ?thesis using s1(1) by simp
  next
    case False
    then have a: "ask w s = (Inr really, s1)" using s1(1) by simp
    moreover have "rw_force w \<longrightarrow> really" using a by (cases "rw_force w") (simp_all add: ask_def check_def)
    ultimately show ?thesis using ask_keeps [OF a] False by blast
  qed
  show ?thesis
  proof (cases "really \<and> rw_act w")
    case True
    let ?t = "db_bind db_begin (\<lambda>_. db_bind (db_statement (\<lambda>t. Inr (delete_device name t))) (\<lambda>_. db_commit (rw_act w) False))"
    obtain r d where d: "?t (rs_db s1) = (r, d)" by force
    have "on_db ?t s1 = (Inr (), s')" using s1(2) True by simp
    then have s': "s' = s1\<lparr>rs_db := d\<rparr>" and r: "r = Inr ()" unfolding on_db_def d by simp_all
    have "db_clean (rs_db s1)" using keep assms(2) by simp
    from transaction_clean [OF this d [unfolded r]] keep True show ?thesis
      unfolding s' by (intro conjI exI [of _ True]) simp_all
  next
    case False
    have s': "s' = s1" using s1(2) False by (cases really; cases "rw_act w"; simp)
    show ?thesis unfolding s' by (intro conjI exI [of _ really]) (use keep assms(2) False in auto)
  qed
qed

text \<open>
  Retiring devices deletes the rows of devices that are no longer configured, and of configured ones for which
  the user agreed, or all of them with \<open>--force\<close>; all other rows stay, and in a dry run every row does.
\<close>

theorem retired_devices_rows:
  assumes "retireDevices w ds s = (Inr (), s')" "db_clean (rs_db s)"
  shows "db_clean (rs_db s') \<and> (\<exists>gone \<subseteq> set ds.
    db_committed (rs_db s') = (if rw_act w then filter (\<lambda>((_, _, d, _), _). d \<notin> gone) (db_committed (rs_db s)) else db_committed (rs_db s)) \<and>
    (\<forall>d \<in> set ds. findDevice d (ds_conf (rs_devices s)) = None \<or> rw_force w \<longrightarrow> d \<in> gone))"
proof -
  have "db_clean (rs_db s') \<and> (\<exists>gone \<subseteq> set ds.
    db_committed (rs_db s') = (if rw_act w then filter (\<lambda>((_, _, d, _), _). d \<notin> gone) (db_committed (rs_db s)) else db_committed (rs_db s)) \<and>
    (\<forall>d \<in> set ds. findDevice d (ds_conf (rs_devices s)) = None \<or> rw_force w \<longrightarrow> d \<in> gone))"
    if "ra_fold (\<lambda>_. retireDevice w) () ds s = (Inr (), s')"
    using that assms(2)
  proof (induction ds arbitrary: s)
    case (Cons d ds)
    from Cons.prems(1) obtain s1 where s1: "retireDevice w d s = (Inr (), s1)" "ra_fold (\<lambda>_. retireDevice w) () ds s1 = (Inr (), s')"
      by (auto simp: ra_bind_Inr)
    from retireDevice_rows [OF s1(1) Cons.prems(2)] obtain g where g: "db_clean (rs_db s1)" "rs_devices s1 = rs_devices s"
      "db_committed (rs_db s1) = (if g \<and> rw_act w then delete_device d (db_committed (rs_db s)) else db_committed (rs_db s))"
      "findDevice d (ds_conf (rs_devices s)) = None \<or> rw_force w \<longrightarrow> g" by blast
    from Cons.IH [OF s1(2) g(1)] obtain gone where gone: "db_clean (rs_db s')" "gone \<subseteq> set ds"
      "db_committed (rs_db s') = (if rw_act w then filter (\<lambda>((_, _, d, _), _). d \<notin> gone) (db_committed (rs_db s1)) else db_committed (rs_db s1))"
      "\<forall>d \<in> set ds. findDevice d (ds_conf (rs_devices s1)) = None \<or> rw_force w \<longrightarrow> d \<in> gone" by blast
    have "db_committed (rs_db s') = (if rw_act w then filter (\<lambda>((_, _, e, _), _). e \<notin> (if g then insert d gone else gone)) (db_committed (rs_db s))
        else db_committed (rs_db s))"
      using gone(3) g(3) by (auto simp: delete_device_def split_beta intro!: filter_cong)
    then show ?case
      using gone g by (intro conjI exI [of _ "if g then insert d gone else gone"]) auto
  qed (auto simp: split_beta intro!: exI [of _ "{}"])
  then show ?thesis using assms(1) by (simp add: retireDevices_def)
qed


definition sample_retire_world :: retire_world where
  "sample_retire_world =
     \<lparr>rw_devices = sample_device_world, rw_force = True, rw_rm = (\<lambda>p. if p = ''/a/h/v/2'' then 256 else 0),
      rw_unlink = (\<lambda>_. Some ENOENT), rw_rmdir = (\<lambda>_. None)\<rparr>"

definition sample_retire_row :: db_row where
  "sample_retire_row = \<lparr>r_time = 0, r_pruned = 0, r_rc = 0, r_status = COMPLETE, r_log = [], r_finishTime = 0\<rparr>"

definition sample_retire_table :: db_table where
  "sample_retire_table =
     [((''h'', ''v'', ''d2'', ''1''), sample_retire_row), ((''h'', ''v'', ''d2'', ''2''), sample_retire_row),
      ((''h'', ''v'', ''gone'', ''1''), sample_retire_row), ((''g'', ''v'', ''d2'', ''1''), sample_retire_row)]"

definition sample_retire_state :: retire_state where
  "sample_retire_state = \<lparr>rs_devices = sample_device_state, rs_input = [], rs_db = sample_database sample_retire_table\<rparr>"

lemma sample_retire_clean: "db_clean (rs_db sample_retire_state)"
  by (simp add: sample_retire_state_def sample_database_def db_clean_def)

lemma retired_devices_rows_witness:
  "map fst (db_committed (rs_db (snd (retireDevices sample_retire_world [''gone''] sample_retire_state)))) =
     [(''h'', ''v'', ''d2'', ''1''), (''h'', ''v'', ''d2'', ''2''), (''g'', ''v'', ''d2'', ''1'')]"
proof -
  obtain s' where s': "retireDevices sample_retire_world [''gone''] sample_retire_state = (Inr (), s')"
  proof -
    have "fst (retireDevices sample_retire_world [''gone''] sample_retire_state) = Inr ()" by code_simp
    then show ?thesis using that by (metis prod.collapse)
  qed
  have f: "rw_force sample_retire_world" "rw_act sample_retire_world"
    by (simp_all add: sample_retire_world_def rw_act_def sample_device_world_def)
  from retired_devices_rows [OF s' sample_retire_clean] f obtain gone where gone: "gone \<subseteq> {''gone''}" "''gone'' \<in> gone"
    "db_committed (rs_db s') = filter (\<lambda>((_, _, d, _), _). d \<notin> gone) (db_committed (rs_db sample_retire_state))" by auto
  then have "gone = {''gone''}" by auto
  with gone(3) s' show ?thesis
    by (simp add: sample_retire_state_def sample_database_def sample_retire_table_def)
qed


section \<open>Retired volumes\<close>

lemma ra_fold_invariant:
  assumes "ra_fold f acc xs s = (Inr acc', s')" "P acc s"
    "\<And>a x t b t'. x \<in> set xs \<Longrightarrow> P a t \<Longrightarrow> f a x t = (Inr b, t') \<Longrightarrow> P b t'"
  shows "P acc' s'"
  using assms
proof (induction xs arbitrary: acc s)
  case (Cons x xs)
  from Cons.prems(1) obtain b t where "f acc x s = (Inr b, t)" "ra_fold f b xs t = (Inr acc', s')" by (auto simp: ra_bind_Inr)
  with Cons show ?case by (metis list.set_intros)
qed simp

lemma delete_key_rows:
  assumes "delete_key k d = (Inr (), d')" "db_clean d"
  shows "db_clean d' \<and> db_committed d' = filter (\<lambda>(j, _). j \<noteq> k) (db_committed d)"
  using assms by (auto simp: delete_key_def db_statement_def db_clean_def Let_def split: if_splits)

lemma db_select_rows:
  assumes "db_select P d = (Inr ks, d')" "db_clean d"
  shows "db_clean d' \<and> db_committed d' = db_committed d \<and> ks = map fst (filter P (db_committed d))"
  using assms by (auto simp: db_select_def db_statement_def db_clean_def Let_def split: if_splits)

text \<open>Device names are the keys of the devices.\<close>

definition devices_named :: "conf \<Rightarrow> bool" where
  "devices_named c \<longleftrightarrow> (\<forall>d dev. findDevice d c = Some dev \<longrightarrow> d_name dev = d)"

interpretation named: device_invariant w "\<lambda>s. devices_ok w s \<and> devices_named (ds_conf s)" for w
proof unfold_locales
  show "devices_ok w s' \<and> devices_named (ds_conf s')"
    if "devices_ok w s \<and> devices_named (ds_conf s)" "identify w path s = (r, s')" for s path r s'
  proof -
    have "devices_named (ds_conf s')"
      using that(2)
    proof (cases rule: identify_cases)
      case (failed e s1)
      then show ?thesis using that(1) preDeviceAccess_conf [OF failed(1)] by simp
    next
      case (linked st sb s1 d)
      have sorted: "name_order.sorted_keys (c_stores (ds_conf s))" "name_order.sorted_keys (c_devices (ds_conf s))"
        using that(1) by (simp_all add: devices_ok_def links_ok_def)
      have c: "ds_conf s' = link_store path d (ds_conf s)" using preDeviceAccess_conf [OF linked(4)] linked(8) by simp
      show ?thesis
        using that(1) unfolding c devices_named_def
        by (auto simp: find_link_store [OF sorted] split: if_splits)
    qed (use that in simp)
    then show ?thesis using identify_ok that by blast
  qed
  show "devices_ok w s' \<and> devices_named (ds_conf s')"
    if "devices_ok w s \<and> devices_named (ds_conf s)" "postDeviceAccess w s = (r, s')" for s r s'
  proof -
    have "ds_conf s' = ds_conf s" using that(2) by (auto simp: postDeviceAccess_def Let_def split: if_splits sum.splits)
    then show ?thesis using that postDeviceAccess_ok by auto
  qed
qed (simp_all add: devices_ok_def devices_named_def)


text \<open>A backup on a device that an enabled store holds; a row that a selection asks to retire.\<close>

definition on_enabled_store :: "conf \<Rightarrow> retirable \<Rightarrow> bool" where
  "on_enabled_store c r \<longleftrightarrow>
     (\<exists>st. findStore (rt_store r) c = Some st \<and> s_device st = Some (rt_device r) \<and> s_state st = Enabled)"

definition retire_asked :: "selection list \<Rightarrow> db_table \<Rightarrow> db_key \<Rightarrow> bool" where
  "retire_asked ss t k \<longleftrightarrow>
     (\<exists>sel \<in> set ss. sel_host sel \<noteq> STAR \<and> (\<exists>row. (k, row) \<in> set t \<and> retire_matches (sel_host sel) (sel_volume sel) (k, row)))"

lemma later_enabled:
  assumes "later c c'" "on_enabled_store c r"
  shows "on_enabled_store c' r"
proof -
  from assms(2) obtain st where st: "findStore (rt_store r) c = Some st" "s_device st = Some (rt_device r)" "s_state st = Enabled"
    by (auto simp: on_enabled_store_def)
  with assms(1) obtain st' where st': "findStore (rt_store r) c' = Some st'" "s_device st' = Some (rt_device r)"
    unfolding later_def by blast
  have "map_option (s_device_update (\<lambda>_. None)) (findStore (rt_store r) c') = map_option (s_device_update (\<lambda>_. None)) (findStore (rt_store r) c)"
    using assms(1) by (simp add: later_def)
  then have "s_device_update (\<lambda>_. None) st' = s_device_update (\<lambda>_. None) st" using st st' by simp
  then have "s_state st' = s_state st" by (metis store.select_convs(4) store.surjective store.update_convs(3))
  then show ?thesis using st st' by (auto simp: on_enabled_store_def)
qed

abbreviation rs_conf :: "retire_state \<Rightarrow> conf" where
  "rs_conf s \<equiv> ds_conf (rs_devices s)"

definition identified_ok :: "retire_world \<Rightarrow> selection list \<Rightarrow> db_table \<Rightarrow> retire_lists \<Rightarrow> retire_state \<Rightarrow> bool" where
  "identified_ok w ss t acc s \<longleftrightarrow>
     devices_ok (rw_devices w) (rs_devices s) \<and> devices_named (rs_conf s) \<and> db_clean (rs_db s) \<and> db_committed (rs_db s) = t \<and>
     (\<forall>r \<in> set (fst acc). retire_asked ss t (rt_key r) \<and> on_enabled_store (rs_conf s) r)"

lemma identify_enabled_keeps:
  assumes "identified_ok w ss t acc s" "identify_enabled w s = (Inr u, s')"
  shows "identified_ok w ss t acc s'" "later (rs_conf s) (rs_conf s')"
proof -
  obtain ds where ds: "identifyDevices (rw_devices w) [Enabled] (rs_devices s) = (Inr (), ds)" "s' = s\<lparr>rs_devices := ds\<rparr>"
    using assms(2) by (auto simp: identify_enabled_def split: prod.splits)
  have "devices_ok (rw_devices w) ds \<and> devices_named (ds_conf ds)"
    by (rule named.identifyDevices_keeps [OF _ ds(1)]) (use assms(1) in \<open>simp add: identified_ok_def\<close>)
  moreover have "later (rs_conf s) (ds_conf ds)"
    using kept.identifyDevices_keeps [of "rw_devices w" "rs_devices s" "rs_conf s", OF _ ds(1)] assms(1) later_refl by (simp add: identified_ok_def)
  ultimately show "identified_ok w ss t acc s'" "later (rs_conf s) (rs_conf s')"
    using assms(1) later_enabled by (simp_all add: identified_ok_def ds(2))
qed

lemma count_error_keeps:
  assumes "identified_ok w ss t acc s"
  shows "identified_ok w ss t acc (snd (count_error s))"
  using assms by (simp add: identified_ok_def count_error_def linked.errors_irrelevant)

text \<open>A row is found exactly when its device is on an enabled store once the stores have been identified.\<close>

lemma identify_row_cases:
  assumes "identified_ok w ss t acc s" "identify_row w b acc k s = (Inr acc', s')"
  obtains s1 where "identify_enabled w s = (Inr (), s1)" "identified_ok w ss t acc s1" "later (rs_conf s) (rs_conf s1)" "rs_conf s' = rs_conf s1"
    "(acc' = acc \<and> s' = snd (count_error s1) \<and> \<not> (\<exists>r. rt_key r = k \<and> on_enabled_store (rs_conf s1) r)) \<or>
     (s' = s1 \<and> (\<exists>r. fst acc' = fst acc @ [r] \<and> rt_key r = k \<and> on_enabled_store (rs_conf s1) r))"
proof -
  obtain s1 where s1: "identify_enabled w s = (Inr (), s1)" using assms(2) by (auto simp: identify_row_def ra_bind_Inr)
  note ok = identify_enabled_keeps [OF assms(1) s1]
  obtain h v dn i where k: "k = (h, v, dn, i)" by (cases k)
  obtain rt vd hd where acc: "acc = (rt, vd, hd)" by (cases acc)
  note step = assms(2) [unfolded identify_row_def ra_bind_def s1 get_conf_def k acc, simplified]
  have links: "links_ok (rs_conf s1)" using ok(1) by (simp add: identified_ok_def devices_ok_def)
  have on: "\<exists>d st. findDevice dn (rs_conf s1) = Some d \<and> d_store d = Some (rt_store r) \<and> findStore (rt_store r) (rs_conf s1) = Some st \<and> s_state st = Enabled"
    if "rt_key r = k" "on_enabled_store (rs_conf s1) r" for r
    using that links_store [OF links, of "rt_store r"] by (fastforce simp: rt_key_def k on_enabled_store_def)
  have "(acc' = acc \<and> s' = snd (count_error s1) \<and> \<not> (\<exists>r. rt_key r = k \<and> on_enabled_store (rs_conf s1) r)) \<or>
     (s' = s1 \<and> (\<exists>r. fst acc' = fst acc @ [r] \<and> rt_key r = k \<and> on_enabled_store (rs_conf s1) r))"
  proof (cases "\<exists>d p st. findDevice dn (rs_conf s1) = Some d \<and> d_store d = Some p \<and> findStore p (rs_conf s1) = Some st \<and> s_state st = Enabled")
    case True
    then obtain d p where d: "findDevice dn (rs_conf s1) = Some d" "d_store d = Some p" by blast
    with True obtain st where st: "findStore p (rs_conf s1) = Some st" "s_state st = Enabled" by auto
    have "s_device st = Some dn" using links_device [OF links d] st by auto
    moreover have "d_name d = dn" using ok(1) d by (auto simp: identified_ok_def devices_named_def)
    ultimately have "rt_key \<lparr>rt_host = h, rt_volume = v, rt_device = d_name d, rt_store = p, rt_id = i\<rparr> = k \<and>
        on_enabled_store (rs_conf s1) \<lparr>rt_host = h, rt_volume = v, rt_device = d_name d, rt_store = p, rt_id = i\<rparr>"
      using st by (simp add: rt_key_def k on_enabled_store_def)
    then show ?thesis using step d st by (auto simp: acc)
  next
    case False
    have "acc' = acc \<and> s' = snd (count_error s1)"
    proof (cases "findDevice dn (rs_conf s1)")
      case None
      then show ?thesis using step by (simp add: count_error_def acc)
    next
      case d: (Some d)
      show ?thesis
      proof (cases "d_store d")
        case None
        then show ?thesis using step d by (simp add: count_error_def acc)
      next
        case p: (Some p)
        obtain st where st: "findStore p (rs_conf s1) = Some st" using links_device [OF links d p] by blast
        then have "s_state st \<noteq> Enabled" using False d p by blast
        then show ?thesis using step d p st by (simp add: count_error_def acc)
      qed
    qed
    then show ?thesis using False on by blast
  qed
  moreover from this have "rs_conf s' = rs_conf s1" by (auto simp: count_error_def)
  ultimately show thesis using that [OF s1 ok] by blast
qed

lemma identify_row_keeps:
  assumes "identified_ok w ss t acc s" "identify_row w b acc k s = (Inr acc', s')" "retire_asked ss t k"
  shows "identified_ok w ss t acc' s'"
proof -
  obtain s1 where s1: "identify_enabled w s = (Inr (), s1)" "identified_ok w ss t acc s1" "later (rs_conf s) (rs_conf s1)" "rs_conf s' = rs_conf s1"
    "(acc' = acc \<and> s' = snd (count_error s1) \<and> \<not> (\<exists>r. rt_key r = k \<and> on_enabled_store (rs_conf s1) r)) \<or>
     (s' = s1 \<and> (\<exists>r. fst acc' = fst acc @ [r] \<and> rt_key r = k \<and> on_enabled_store (rs_conf s1) r))"
    by (rule identify_row_cases [OF assms(1,2)])
  from s1(5) show ?thesis
  proof
    assume "acc' = acc \<and> s' = snd (count_error s1) \<and> \<not> (\<exists>r. rt_key r = k \<and> on_enabled_store (rs_conf s1) r)"
    then show ?thesis using count_error_keeps [OF s1(2)] by simp
  next
    assume "s' = s1 \<and> (\<exists>r. fst acc' = fst acc @ [r] \<and> rt_key r = k \<and> on_enabled_store (rs_conf s1) r)"
    then show ?thesis using s1(2) assms(3) by (auto simp: identified_ok_def)
  qed
qed

text \<open>What a selection matches among the keys of a table.\<close>

definition selects_key :: "db_table \<Rightarrow> db_key \<Rightarrow> selection \<Rightarrow> bool" where
  "selects_key t k sel \<longleftrightarrow> (\<exists>row. (k, row) \<in> set t \<and> retire_matches (sel_host sel) (sel_volume sel) (k, row))"

lemma identify_selection_cases:
  assumes "identify_selection w acc sel s = (Inr acc', s')" "identified_ok w ss t acc s"
  obtains (no) "acc' = acc" "identified_ok w ss t acc s'" "\<not> rw_force w" "rs_conf s' = rs_conf s"
    | (yes) ks s1 where "ra_fold (identify_row w (sel_volume sel = STAR)) acc ks s1 = (Inr acc', s')" "identified_ok w ss t acc s1"
        "rs_conf s1 = rs_conf s" "sel_host sel \<noteq> STAR" "ks = map fst (filter (retire_matches (sel_host sel) (sel_volume sel)) t)"
proof -
  have host: "sel_host sel \<noteq> STAR" and i: "identifyVolumes w acc sel s = (Inr acc', s')"
    using assms(1) by (auto simp: identify_selection_def split: if_splits)
  obtain really s0 where s0: "(if rw_act w then ask w else ra_return True) s = (Inr really, s0)"
    "(if \<not> really then ra_return acc
      else ra_bind (on_db (db_select (retire_matches (sel_host sel) (sel_volume sel))))
             (\<lambda>ks. ra_fold (identify_row w (sel_volume sel = STAR)) acc ks)) s0 = (Inr acc', s')"
    using i unfolding identifyVolumes_def ra_bind_Inr by blast
  have keep: "rs_db s0 = rs_db s" "rs_devices s0 = rs_devices s" "rw_force w \<longrightarrow> really"
    using s0(1) by (cases "rw_act w"; cases "rw_force w"; auto simp: ask_def check_def split: prod.splits)+
  have ok0: "identified_ok w ss t acc s0" using assms(2) keep by (simp add: identified_ok_def)
  show thesis
  proof (cases really)
    case False
    show thesis by (rule no) (use s0(2) False keep ok0 in auto)
  next
    case True
    then have "ra_bind (on_db (db_select (retire_matches (sel_host sel) (sel_volume sel))))
             (\<lambda>ks. ra_fold (identify_row w (sel_volume sel = STAR)) acc ks) s0 = (Inr acc', s')" using s0(2) by simp
    then obtain ks s1 where s1: "on_db (db_select (retire_matches (sel_host sel) (sel_volume sel))) s0 = (Inr ks, s1)"
      "ra_fold (identify_row w (sel_volume sel = STAR)) acc ks s1 = (Inr acc', s')" unfolding ra_bind_Inr by blast
    obtain r d where d: "db_select (retire_matches (sel_host sel) (sel_volume sel)) (rs_db s0) = (r, d)" by force
    have r: "r = Inr ks" "s1 = s0\<lparr>rs_db := d\<rparr>" using s1(1) unfolding on_db_def d by simp_all
    have "db_clean (rs_db s0)" "db_committed (rs_db s0) = t" using ok0 by (simp_all add: identified_ok_def)
    with db_select_rows [OF d [unfolded r(1)]] have rows: "db_clean d" "db_committed d = t"
      "ks = map fst (filter (retire_matches (sel_host sel) (sel_volume sel)) t)" by simp_all
    show thesis
      by (rule yes [OF s1(2) _ _ host rows(3)]) (use ok0 rows keep r(2) in \<open>simp_all add: identified_ok_def\<close>)
  qed
qed

lemma identify_selection_keeps:
  assumes "identify_selection w acc sel s = (Inr acc', s')" "identified_ok w ss t acc s" "sel \<in> set ss"
  shows "identified_ok w ss t acc' s'"
  using assms(1,2)
proof (cases rule: identify_selection_cases)
  case (yes ks s1)
  have asked: "retire_asked ss t k" if k: "k \<in> set ks" for k
    using k yes(4,5) assms(3) unfolding retire_asked_def by force
  show ?thesis
    by (rule ra_fold_invariant [OF yes(1), where P = "identified_ok w ss t"]) (use yes(2) identify_row_keeps asked in blast)+
qed simp

lemma identify_selections_keep:
  assumes "ra_fold (identify_selection w) acc sels s = (Inr acc', s')" "identified_ok w ss t acc s" "set sels \<subseteq> set ss"
  shows "identified_ok w ss t acc' s'"
  by (rule ra_fold_invariant [OF assms(1), where P = "identified_ok w ss t"]) (use assms(2,3) identify_selection_keeps in blast)+


text \<open>A backup is forgotten when its removal succeeded.\<close>

definition removal_ok :: "retire_world \<Rightarrow> retirable \<Rightarrow> bool" where
  "removal_ok w r \<longleftrightarrow> rw_rm w (rt_path r) = 0 \<and>
     (case rw_unlink w (rt_path r @ ''.incomplete'') of None \<Rightarrow> True | Some errno \<Rightarrow> errno = ENOENT)"

lemma forget_rows:
  assumes "retirable_forget r s = (Inr (), s')" "db_clean (rs_db s)"
  shows "db_clean (rs_db s') \<and> db_committed (rs_db s') = filter (\<lambda>(j, _). j \<noteq> rt_key r) (db_committed (rs_db s)) \<and> rs_devices s' = rs_devices s"
proof -
  obtain x d where d: "delete_key (rt_key r) (rs_db s) = (x, d)" by force
  have "x = Inr ()" "s' = s\<lparr>rs_db := d\<rparr>" using assms(1) unfolding retirable_forget_def on_db_def d by simp_all
  with delete_key_rows [of "rt_key r" "rs_db s" d] d assms(2) show ?thesis by simp
qed

definition same_database :: "retire_state \<Rightarrow> retire_state \<Rightarrow> bool" where
  "same_database s s' \<longleftrightarrow> rs_db s' = rs_db s \<and> rs_conf s' = rs_conf s"

lemma count_error_same [simp]: "same_database s (snd (count_error s))"
  by (simp add: same_database_def count_error_def)

lemma removeDirectory_same: "removeDirectory w p s = (r, s') \<Longrightarrow> r = Inr () \<and> same_database s s'"
  by (auto simp: removeDirectory_def same_database_def count_error_def split: if_splits option.splits)

lemma retired_rows:
  assumes "retired w r s = (Inr (), s')" "db_clean (rs_db s)" "rw_act w"
  shows "db_clean (rs_db s') \<and> rs_conf s' = rs_conf s \<and>
    db_committed (rs_db s') = filter (\<lambda>(j, _). \<not> (j = rt_key r \<and> removal_ok w r)) (db_committed (rs_db s))"
proof (cases "removal_ok w r")
  case True
  then have "retirable_forget r s = (Inr (), s')" using assms(1,3) by (auto simp: retired_def removal_ok_def split: option.splits)
  from forget_rows [OF this assms(2)] True show ?thesis by simp
next
  case False
  then have "s' = snd (count_error s)"
    using assms(1,3) by (auto simp: retired_def removal_ok_def split: if_splits option.splits)
  then show ?thesis using False assms(2) by (simp add: count_error_def split_beta)
qed

text \<open>Going through the backups takes away the rows of those for which \<open>ok\<close> holds.\<close>

lemma fold_rows:
  assumes "ra_fold (\<lambda>_. f) () rs s = (Inr (), s')" "db_clean (rs_db s)"
    "\<And>r t t'. f r t = (Inr (), t') \<Longrightarrow> db_clean (rs_db t) \<Longrightarrow> db_clean (rs_db t') \<and> rs_conf t' = rs_conf t \<and>
       db_committed (rs_db t') = filter (\<lambda>(j, _). \<not> (j = rt_key r \<and> P r)) (db_committed (rs_db t))"
  shows "db_clean (rs_db s') \<and> rs_conf s' = rs_conf s \<and>
    db_committed (rs_db s') = filter (\<lambda>(j, _). \<not> (\<exists>r \<in> set rs. j = rt_key r \<and> P r)) (db_committed (rs_db s))"
  using assms(1,2)
proof (induction rs arbitrary: s)
  case Nil
  then show ?case by (simp add: split_beta)
next
  case (Cons r rs)
  from Cons.prems(1) obtain t where t: "f r s = (Inr (), t)" "ra_fold (\<lambda>_. f) () rs t = (Inr (), s')"
    unfolding ra_fold.simps ra_bind_Inr by auto
  note f = assms(3) [OF t(1) Cons.prems(2)]
  note ih = Cons.IH [OF t(2) conjunct1 [OF f]]
  then show ?case using f by (auto simp: split_beta intro!: filter_cong)
qed

lemma directories_same:
  assumes "ra_fold (\<lambda>_. removeDirectory w) () ps s = (r, s')"
  shows "r = Inr () \<and> same_database s s'"
  using assms
proof (induction ps arbitrary: s)
  case (Cons p ps)
  obtain r1 s1 where s1: "removeDirectory w p s = (r1, s1)" by force
  from removeDirectory_same [OF this] Cons.IH [of s1] Cons.prems s1 show ?case
    by (auto simp: ra_bind_def same_database_def)
qed (simp add: same_database_def)


lemma act_retired_rows:
  assumes "ra_fold (\<lambda>_. retired w) () rs s = (Inr (), s')" "db_clean (rs_db s)"
  shows "db_clean (rs_db s') \<and> rs_conf s' = rs_conf s \<and> db_committed (rs_db s') =
    (if rw_act w then filter (\<lambda>(j, _). \<not> (\<exists>r \<in> set rs. j = rt_key r \<and> removal_ok w r)) (db_committed (rs_db s)) else db_committed (rs_db s))"
proof (cases "rw_act w")
  case True
  from fold_rows [where f = "retired w" and P = "removal_ok w", OF assms] retired_rows [OF _ _ True] True show ?thesis by simp
next
  case False
  then have "retired w r t = (Inr (), t)" for r t by (simp add: retired_def)
  then have "ra_fold (\<lambda>_. retired w) () rs s = (Inr (), s)" by (induction rs) (simp_all add: ra_bind_def)
  then show ?thesis using assms False by simp
qed



definition sample_retired :: "retirable list result \<times> retire_state" where
  "sample_retired = retireVolumes sample_retire_world True [\<lparr>sel_sense = True, sel_host = ''h'', sel_volume = ''v''\<rparr>] sample_retire_state"

lemma sample_retire_ok: "devices_ok (rw_devices sample_retire_world) (rs_devices sample_retire_state) \<and> devices_named (rs_conf sample_retire_state)"
  using fresh_devices_ok [OF sample_fresh] sample_find(2)
  by (auto simp: sample_retire_state_def sample_retire_world_def devices_named_def new_device_def)



section \<open>Selections that overlap\<close>

abbreviation times_found :: "db_key \<Rightarrow> retire_lists \<Rightarrow> nat" where
  "times_found k acc \<equiv> count_list (map rt_key (fst acc)) k"

text \<open>Keys are never lost from the list, and a key that is on an enabled store is added.\<close>

definition found_more :: "db_key \<Rightarrow> retirable \<Rightarrow> nat \<Rightarrow> retire_lists \<times> retire_state \<Rightarrow> retire_lists \<times> retire_state \<Rightarrow> bool" where
  "found_more k r n x y \<longleftrightarrow> times_found k (fst x) + n \<le> times_found k (fst y) \<and>
     (on_enabled_store (rs_conf (snd x)) r \<longrightarrow> on_enabled_store (rs_conf (snd y)) r)"

lemma found_more_trans: "found_more k r m x y \<Longrightarrow> found_more k r n y z \<Longrightarrow> found_more k r (m + n) x z"
  by (auto simp: found_more_def)

lemma identify_row_found:
  assumes "identified_ok w ss t acc s" "identify_row w b acc j s = (Inr acc', s')" "on_enabled_store (rs_conf s) r" "rt_key r = k"
  shows "found_more k r (if j = k then 1 else 0) (acc, s) (acc', s')"
proof -
  obtain s1 where s1: "later (rs_conf s) (rs_conf s1)" "rs_conf s' = rs_conf s1"
    "(acc' = acc \<and> s' = snd (count_error s1) \<and> \<not> (\<exists>r. rt_key r = j \<and> on_enabled_store (rs_conf s1) r)) \<or>
     (s' = s1 \<and> (\<exists>r. fst acc' = fst acc @ [r] \<and> rt_key r = j \<and> on_enabled_store (rs_conf s1) r))"
    by (rule identify_row_cases [OF assms(1,2)])
  note on = later_enabled [OF s1(1) assms(3)]
  from s1(3) on assms(4) show ?thesis by (auto simp: found_more_def s1(2))
qed

lemma identify_rows_found:
  assumes "identified_ok w ss t acc s" "ra_fold (identify_row w b) acc ks s = (Inr acc', s')" "on_enabled_store (rs_conf s) r" "rt_key r = k"
    "\<forall>j \<in> set ks. retire_asked ss t j"
  shows "found_more k r (count_list ks k) (acc, s) (acc', s')"
  using assms
proof (induction ks arbitrary: acc s)
  case (Cons j ks)
  from Cons.prems(2) obtain a1 s1 where s1: "identify_row w b acc j s = (Inr a1, s1)" "ra_fold (identify_row w b) a1 ks s1 = (Inr acc', s')"
    by (auto simp: ra_bind_Inr)
  note f = identify_row_found [OF Cons.prems(1) s1(1) Cons.prems(3,4)]
  have "identified_ok w ss t a1 s1" using identify_row_keeps [OF Cons.prems(1) s1(1)] Cons.prems(5) by simp
  moreover have "on_enabled_store (rs_conf s1) r" using f Cons.prems(3) by (simp add: found_more_def)
  ultimately have "found_more k r (count_list ks k) (a1, s1) (acc', s')" using Cons.IH [OF _ s1(2)] Cons.prems(4,5) by simp
  from found_more_trans [OF f this] show ?case by (auto split: if_splits)
qed (simp add: found_more_def)

lemma identify_selection_found:
  assumes "identified_ok w ss t acc s" "identify_selection w acc sel s = (Inr acc', s')" "sel \<in> set ss" "rw_force w"
    "on_enabled_store (rs_conf s) r" "rt_key r = k"
  shows "found_more k r (if selects_key t k sel then 1 else 0) (acc, s) (acc', s')"
  using assms(2,1)
proof (cases rule: identify_selection_cases)
  case (yes ks s1)
  have asked: "\<forall>j \<in> set ks. retire_asked ss t j"
    using yes(4,5) assms(3) unfolding retire_asked_def by force
  have "found_more k r (count_list ks k) (acc, s1) (acc', s')"
    by (rule identify_rows_found [OF yes(2,1) _ assms(6) asked]) (use yes(3) assms(5) in simp)
  moreover have "1 \<le> count_list ks k" if x: "selects_key t k sel"
  proof -
    have "k \<in> set ks" using x yes(5) by (force simp: selects_key_def)
    then show ?thesis by (metis One_nat_def Suc_leI count_list_0_iff neq0_conv)
  qed
  ultimately show ?thesis using yes(3) by (auto simp: found_more_def)
qed (use assms(4) in simp)

lemma identify_selections_found:
  assumes "identified_ok w ss t acc s" "ra_fold (identify_selection w) acc sels s = (Inr acc', s')" "set sels \<subseteq> set ss" "rw_force w"
    "on_enabled_store (rs_conf s) r" "rt_key r = k"
  shows "found_more k r (length (filter (selects_key t k) sels)) (acc, s) (acc', s')"
  using assms
proof (induction sels arbitrary: acc s)
  case (Cons sel sels)
  from Cons.prems(2) obtain a1 s1 where s1: "identify_selection w acc sel s = (Inr a1, s1)"
    "ra_fold (identify_selection w) a1 sels s1 = (Inr acc', s')"
    by (auto simp: ra_bind_Inr)
  have sel: "sel \<in> set ss" using Cons.prems(3) by simp
  note f = identify_selection_found [OF Cons.prems(1) s1(1) sel Cons.prems(4-6)]
  note ok = identify_selection_keeps [OF s1(1) Cons.prems(1) sel]
  have "on_enabled_store (rs_conf s1) r" using f Cons.prems(5) by (simp add: found_more_def)
  then have "found_more k r (length (filter (selects_key t k) sels)) (a1, s1) (acc', s')"
    using Cons.IH [OF ok s1(2)] Cons.prems(3,4,6) by simp
  from found_more_trans [OF f this] show ?case by (auto split: if_splits)
qed (simp add: found_more_def)


lemma distinct_count_list: "distinct xs \<Longrightarrow> count_list xs x \<le> 1"
  by (induction xs) (auto simp: count_list_0_iff)

lemma scheduleRetire_error: "fold_result (scheduleRetire True) al rs = Inl e \<Longrightarrow> \<exists>what. e = LogicError what"
proof (induction rs arbitrary: al)
  case (Cons r rs)
  then show ?case by (cases "al_add (rt_action r) al") (auto simp: scheduleRetire_def al_add_def split: if_splits)
qed simp

lemma scheduleRetire_distinct:
  assumes "fold_result (scheduleRetire True) al rs = Inr al'" "string_order.sorted_keys (al_actions al)"
  shows "distinct (map rt_key rs) \<and> (\<forall>r \<in> set rs. om_find sless (a_name (rt_action r)) (al_actions al) = None)"
  using assms
proof (induction rs arbitrary: al)
  case (Cons r rs)
  have act: "scheduleRetire True al r = al_add (rt_action r) al" by (simp add: scheduleRetire_def)
  from Cons.prems(1) obtain al1 where al1: "al_add (rt_action r) al = Inr al1" "fold_result (scheduleRetire True) al1 rs = Inr al'"
    unfolding fold_result.simps rbind_Inr_iff act by blast
  then have r: "al_actions al1 = om_put sless (a_name (rt_action r)) (rt_action r) (al_actions al)"
    "om_find sless (a_name (rt_action r)) (al_actions al) = None"
    by (auto simp: al_add_def split: if_splits)
  have "string_order.sorted_keys (al_actions al1)" unfolding r(1) by (rule string_order.sorted_om_put) (use Cons.prems(2) in simp_all)
  note ih = Cons.IH [OF al1(2) this]
  have find: "om_find sless n (al_actions al1) = (if n = a_name (rt_action r) then Some (rt_action r) else om_find sless n (al_actions al))" for n
    unfolding r(1) by (rule string_order.om_find_put) (use Cons.prems(2) in simp_all)
  have other: "a_name (rt_action q) \<noteq> a_name (rt_action r) \<and> om_find sless (a_name (rt_action q)) (al_actions al) = None" if q: "q \<in> set rs" for q
    using ih q find [of "a_name (rt_action q)"] by (auto split: if_splits)
  moreover have "a_name (rt_action q) = a_name (rt_action r)" if "rt_key q = rt_key r" for q
    using that by (simp add: rt_key_def rt_action_def uses_def new_action_def)
  ultimately have "rt_key r \<notin> rt_key ` set rs" by (metis imageE)
  then have "distinct (map rt_key (r # rs))" using conjunct1 [OF ih] by simp
  moreover have "\<forall>q \<in> set (r # rs). om_find sless (a_name (rt_action q)) (al_actions al) = None"
    using other r(2) by simp
  ultimately show ?case by blast
qed simp



definition sample_overlap_state :: retire_state where
  "sample_overlap_state = sample_retire_state\<lparr>rs_devices := snd sample_identified\<rparr>"

definition sample_overlap :: "selection list" where
  "sample_overlap = [\<lparr>sel_sense = True, sel_host = ''h'', sel_volume = STAR\<rparr>, \<lparr>sel_sense = True, sel_host = ''h'', sel_volume = ''v''\<rparr>]"


end
