(* ===== verification/Checks.thy ===== *)
theory Checks
  imports Retire
begin

text \<open>
  \<^verbatim>\<open>src/Latest.cc\<close> (\<open>--latest\<close>) and \<^verbatim>\<open>src/CheckBackups.cc\<close> (\<open>--check-unexpected\<close>).  What is printed
  is the value of a definition; the entries of directories are an argument.
\<close>

section \<open>The latest backups\<close>

text \<open>The loop over the backups of a volume, with the best one so far.\<close>

definition latest_step :: "conf \<Rightarrow> backup option \<Rightarrow> backup \<Rightarrow> backup option" where
  "latest_step c best b =
     (if b_status b \<noteq> COMPLETE then best
      else if (case best of None \<Rightarrow> False | Some a \<Rightarrow> b_time b < b_time a) then best
      else case findDevice (b_deviceName b) c of
             None \<Rightarrow> best
           | Some dev \<Rightarrow> if d_store dev = None then best else Some b)"

definition latest_backup :: "conf \<Rightarrow> volume \<Rightarrow> backup option" where
  "latest_backup c v = foldl (latest_step c) None (v_backups v)"

text \<open>One selection: the paths so far and the number of errors.\<close>

definition latest_selection :: "conf \<Rightarrow> string list \<times> nat \<Rightarrow> selection \<Rightarrow> (string list \<times> nat) result" where
  "latest_selection c s sel =
     (let (paths, errors) = s
      in case findHost (sel_host sel) c of
           None \<Rightarrow> Inr (paths, errors + 1)
         | Some h \<Rightarrow>
             (case host_findVolume (sel_volume sel) h of
                None \<Rightarrow> Inr (paths, errors + 1)
              | Some v \<Rightarrow>
                  (case latest_backup c v of
                     None \<Rightarrow> Inr (paths, errors + 1)
                   | Some b \<Rightarrow> rbind (backupPath c (h_name h) (v_name v) b) (\<lambda>p. Inr (paths @ [p], errors)))))"

text \<open>
  \<open>findLatest\<close> after \<open>readState\<close>: the text that is printed.
\<close>

definition findLatest :: "device_world \<Rightarrow> char \<Rightarrow> selection list \<Rightarrow> device_state \<Rightarrow> string result \<times> device_state" where
  "findLatest w eol sels s =
     (case identifyDevices w [Enabled] s of
        (Inl e, s) \<Rightarrow> (Inl e, s)
      | (Inr _, s) \<Rightarrow>
          (case fold_result (latest_selection (ds_conf s)) ([], ds_errors s) sels of
             Inl e \<Rightarrow> (Inl e, s)
           | Inr (paths, errors) \<Rightarrow>
               (Inr (if errors \<noteq> 0 then [] else concat (map (\<lambda>p. p @ [eol]) paths)), s\<lparr>ds_errors := errors\<rparr>)))"

section \<open>Unexpected files\<close>

text \<open>
  The entries of a directory and the error that ends the reading of it, if there is one; \<open>None\<close> where it cannot be
  opened.
\<close>

type_synonym directories = "string \<Rightarrow> (string list \<times> err option) option"

fun unexpected_entries :: "string \<Rightarrow> string list \<Rightarrow> string list \<Rightarrow> string list \<Rightarrow> string list" where
  "unexpected_entries path expected unexpected [] = unexpected"
| "unexpected_entries path expected unexpected (f # fs) =
     unexpected_entries path expected
       (if f = ''.'' \<or> f = ''..'' then unexpected
        else if f \<in> set expected then unexpected
        else unexpected @ [path @ ''/'' @ f]) fs"

definition checkDirectory :: "directories \<Rightarrow> string list \<Rightarrow> string \<Rightarrow> string list \<Rightarrow> string list result" where
  "checkDirectory dirs unexpected path expected =
     (case dirs path of
        None \<Rightarrow> Inr unexpected
      | Some (fs, Some e) \<Rightarrow> Inl e
      | Some (fs, None) \<Rightarrow> Inr (unexpected_entries path expected unexpected fs))"

definition checkTopLevelFiles :: "directories \<Rightarrow> conf \<Rightarrow> string \<Rightarrow> string list \<Rightarrow> string list result" where
  "checkTopLevelFiles dirs c store unexpected =
     checkDirectory dirs unexpected store ([''device-id'', ''lost+found''] @ map fst (c_hosts c))"

definition expected_backups :: "conf \<Rightarrow> string \<Rightarrow> volume \<Rightarrow> string list" where
  "expected_backups c dev v =
     concat (map (\<lambda>b. if map_option d_name (findDevice (b_deviceName b) c) = Some dev
                      then b_id b # (if b_status b \<noteq> COMPLETE then [b_id b @ ''.incomplete''] else [])
                      else []) (v_backups v))"

definition checkVolume :: "directories \<Rightarrow> conf \<Rightarrow> string \<Rightarrow> string \<Rightarrow> string \<Rightarrow> volume \<Rightarrow> string list \<Rightarrow> string list result" where
  "checkVolume dirs c store dev hn v unexpected =
     checkDirectory dirs unexpected (store @ ''/'' @ hn @ ''/'' @ v_name v) (expected_backups c dev v)"

definition checkHost :: "directories \<Rightarrow> conf \<Rightarrow> string \<Rightarrow> string \<Rightarrow> host \<Rightarrow> string list \<Rightarrow> string list result" where
  "checkHost dirs c store dev h unexpected =
     rbind (checkDirectory dirs unexpected (store @ ''/'' @ h_name h) (map fst (h_volumes h))) (\<lambda>unexpected.
       fold_result (\<lambda>unexpected (_, v). checkVolume dirs c store dev (h_name h) v unexpected) unexpected (h_volumes h))"

definition checkDevice :: "directories \<Rightarrow> conf \<Rightarrow> string \<Rightarrow> string \<Rightarrow> string list \<Rightarrow> string list result" where
  "checkDevice dirs c store dev unexpected =
     rbind (checkTopLevelFiles dirs c store unexpected) (\<lambda>unexpected.
       fold_result (\<lambda>unexpected (_, h). checkHost dirs c store dev h unexpected) unexpected (c_hosts c))"

definition unexpected_files :: "directories \<Rightarrow> conf \<Rightarrow> string list result" where
  "unexpected_files dirs c =
     fold_result (\<lambda>unexpected (_, dev).
         case d_store dev of None \<Rightarrow> Inr unexpected | Some store \<Rightarrow> checkDevice dirs c store (d_name dev) unexpected)
       [] (c_devices c)"

text \<open>\<open>checkUnexpected\<close> after \<open>readState\<close>: the text that is printed.\<close>

definition checkUnexpected :: "device_world \<Rightarrow> directories \<Rightarrow> char \<Rightarrow> device_state \<Rightarrow> string result \<times> device_state" where
  "checkUnexpected w dirs eol s =
     (case identifyDevices w [Enabled] s of
        (Inl e, s) \<Rightarrow> (Inl e, s)
      | (Inr _, s) \<Rightarrow>
          (rbind (unexpected_files dirs (ds_conf s)) (\<lambda>ps. Inr (concat (map (\<lambda>p. p @ [eol]) ps))), s))"


section \<open>What is printed\<close>

definition can_be_reached :: "conf \<Rightarrow> backup \<Rightarrow> bool" where
  "can_be_reached c b \<longleftrightarrow> b_status b = COMPLETE \<and>
     (case findDevice (b_deviceName b) c of None \<Rightarrow> False | Some dev \<Rightarrow> d_store dev \<noteq> None)"

text \<open>The latest of the complete backups that can be reached.\<close>

definition is_latest :: "conf \<Rightarrow> backup list \<Rightarrow> backup option \<Rightarrow> bool" where
  "is_latest c bs best \<longleftrightarrow>
     (case best of
        None \<Rightarrow> \<forall>b \<in> set bs. \<not> can_be_reached c b
      | Some a \<Rightarrow> a \<in> set bs \<and> can_be_reached c a \<and>
          (\<forall>b \<in> set bs. can_be_reached c b \<longrightarrow> b_time b \<le> b_time a))"

lemma latest_step_alt:
  "latest_step c best b =
     (if can_be_reached c b \<and> (case best of None \<Rightarrow> True | Some a \<Rightarrow> b_time a \<le> b_time b) then Some b else best)"
  by (auto simp: latest_step_def can_be_reached_def not_less split: option.splits)

lemma latest_step_latest: "is_latest c bs best \<Longrightarrow> is_latest c (bs @ [b]) (latest_step c best b)"
  by (cases best) (auto simp: is_latest_def latest_step_alt intro: order_trans)

lemma latest_backup_is_latest: "is_latest c (v_backups v) (latest_backup c v)"
proof -
  have "is_latest c bs (foldl (latest_step c) None bs)" for bs
  proof (induction bs rule: rev_induct)
    case (snoc b bs)
    from latest_step_latest [OF this] show ?case by simp
  qed (simp add: is_latest_def)
  then show ?thesis by (simp add: latest_backup_def)
qed

definition latest_of :: "conf \<Rightarrow> selection \<Rightarrow> string \<Rightarrow> bool" where
  "latest_of c sel p \<longleftrightarrow>
     (\<exists>h v b. findHost (sel_host sel) c = Some h \<and> host_findVolume (sel_volume sel) h = Some v \<and>
        is_latest c (v_backups v) (Some b) \<and> backupPath c (h_name h) (v_name v) b = Inr p)"

lemma latest_selection_cases:
  "(\<exists>p. latest_selection c (paths, n) sel = Inr (paths @ [p], n) \<and> latest_of c sel p) \<or>
   (latest_selection c (paths, n) sel = Inr (paths, n + 1) \<and> (\<nexists>p. latest_of c sel p))"
proof -
  have none: "\<nexists>p. latest_of c sel p" if "findHost (sel_host sel) c = Some h" "host_findVolume (sel_volume sel) h = Some v"
    "latest_backup c v = None" for h v
    using that latest_backup_is_latest [of c v] by (auto simp: latest_of_def is_latest_def)
  show ?thesis
  proof (cases "findHost (sel_host sel) c")
    case None
    then show ?thesis by (simp add: latest_selection_def latest_of_def)
  next
    case h: (Some h)
    show ?thesis
    proof (cases "host_findVolume (sel_volume sel) h")
      case None
      then show ?thesis by (simp add: latest_selection_def latest_of_def h)
    next
      case v: (Some v)
      show ?thesis
      proof (cases "latest_backup c v")
        case None
        then show ?thesis using none [OF h v] by (simp add: latest_selection_def h v)
      next
        case b: (Some b)
        then have "is_latest c (v_backups v) (Some b)" using latest_backup_is_latest [of c v] by simp
        moreover obtain p where "backupPath c (h_name h) (v_name v) b = Inr p"
          using calculation by (auto simp: is_latest_def can_be_reached_def backupPath_def split: option.splits)
        ultimately show ?thesis by (auto simp: latest_selection_def latest_of_def h v b)
      qed
    qed
  qed
qed

lemma latest_selections:
  "\<exists>qs m. fold_result (latest_selection c) (paths, n) sels = Inr (paths @ qs, n + m) \<and>
     (m = 0 \<longrightarrow> list_all2 (latest_of c) sels qs) \<and> (m = 0 \<longleftrightarrow> (\<forall>sel \<in> set sels. \<exists>p. latest_of c sel p))"
proof (induction sels arbitrary: paths n)
  case (Cons sel sels)
  from latest_selection_cases [of c paths n sel] show ?case
  proof
    assume "\<exists>p. latest_selection c (paths, n) sel = Inr (paths @ [p], n) \<and> latest_of c sel p"
    then obtain p where p: "latest_selection c (paths, n) sel = Inr (paths @ [p], n)" "latest_of c sel p" by blast
    from Cons.IH [of "paths @ [p]" n] obtain qs m where "fold_result (latest_selection c) (paths @ [p], n) sels = Inr (paths @ p # qs, n + m)"
      "m = 0 \<longrightarrow> list_all2 (latest_of c) sels qs" "m = 0 \<longleftrightarrow> (\<forall>sel \<in> set sels. \<exists>p. latest_of c sel p)" by auto
    then show ?thesis using p by (intro exI [of _ "p # qs"] exI [of _ m]) auto
  next
    assume e: "latest_selection c (paths, n) sel = Inr (paths, n + 1) \<and> (\<nexists>p. latest_of c sel p)"
    from Cons.IH [of paths "n + 1"] obtain qs m where "fold_result (latest_selection c) (paths, n + 1) sels = Inr (paths @ qs, n + 1 + m)"
      by blast
    then show ?thesis using e by (intro exI [of _ qs] exI [of _ "m + 1"]) auto
  qed
qed simp

text \<open>
  \<open>--latest\<close> prints, for each selection in order, the path of the latest complete backup of the volume that is on
  a device that some store holds; if there is none for some selection, or an error has happened before, it prints
  nothing and an error is counted.
\<close>

theorem latest_printed:
  assumes "identifyDevices w [Enabled] s = (Inr (), s1)"
  shows "\<exists>out s'. findLatest w eol sels s = (Inr out, s') \<and> ds_conf s' = ds_conf s1 \<and>
    (ds_errors s' = 0 \<longleftrightarrow> ds_errors s1 = 0 \<and> (\<forall>sel \<in> set sels. \<exists>p. latest_of (ds_conf s1) sel p)) \<and>
    (if ds_errors s' = 0
     then \<exists>paths. out = concat (map (\<lambda>p. p @ [eol]) paths) \<and> list_all2 (latest_of (ds_conf s1)) sels paths
     else out = [])"
proof -
  from latest_selections [of "ds_conf s1" "[]" "ds_errors s1" sels] obtain qs m
    where "fold_result (latest_selection (ds_conf s1)) ([], ds_errors s1) sels = Inr (qs, ds_errors s1 + m)"
      "m = 0 \<longrightarrow> list_all2 (latest_of (ds_conf s1)) sels qs"
      "m = 0 \<longleftrightarrow> (\<forall>sel \<in> set sels. \<exists>p. latest_of (ds_conf s1) sel p)"
    by auto
  then show ?thesis using assms by (auto simp: findLatest_def)
qed


section \<open>Unexpected files are those that are not expected\<close>

text \<open>What is not expected in the directory of a store, of a host and of a volume.\<close>

definition stray :: "directories \<Rightarrow> string \<Rightarrow> (string \<Rightarrow> bool) \<Rightarrow> string set" where
  "stray dirs dir expected =
     (case dirs dir of None \<Rightarrow> {} | Some (fs, _) \<Rightarrow> (\<lambda>f. dir @ ''/'' @ f) ` {f \<in> set fs. f \<notin> {''.'', ''..''} \<and> \<not> expected f})"

definition backup_file :: "conf \<Rightarrow> string \<Rightarrow> volume \<Rightarrow> string \<Rightarrow> bool" where
  "backup_file c dev v f \<longleftrightarrow>
     (\<exists>b \<in> set (v_backups v). map_option d_name (findDevice (b_deviceName b) c) = Some dev \<and>
        (f = b_id b \<or> b_status b \<noteq> COMPLETE \<and> f = b_id b @ ''.incomplete''))"

definition stray_files :: "directories \<Rightarrow> conf \<Rightarrow> string set" where
  "stray_files dirs c =
     (\<Union>(n, dev) \<in> set (c_devices c). case d_store dev of None \<Rightarrow> {} | Some store \<Rightarrow>
        stray dirs store (\<lambda>f. f \<in> {''device-id'', ''lost+found''} \<union> fst ` set (c_hosts c)) \<union>
        (\<Union>(hn, h) \<in> set (c_hosts c).
           stray dirs (store @ ''/'' @ h_name h) (\<lambda>f. f \<in> fst ` set (h_volumes h)) \<union>
           (\<Union>(vn, v) \<in> set (h_volumes h).
              stray dirs (store @ ''/'' @ h_name h @ ''/'' @ v_name v) (backup_file c (d_name dev) v))))"

lemma fold_result_collects:
  assumes "\<And>acc x acc'. x \<in> set xs \<Longrightarrow> f acc x = Inr acc' \<Longrightarrow> set acc' = set acc \<union> G x" "fold_result f acc xs = Inr acc'"
  shows "set acc' = set acc \<union> (\<Union>x \<in> set xs. G x)"
  using assms
proof (induction xs arbitrary: acc)
  case (Cons x xs)
  from Cons.prems(2) obtain a where a: "f acc x = Inr a" "fold_result f a xs = Inr acc'" by (auto simp: rbind_Inr_iff)
  have "set acc' = set a \<union> (\<Union>x \<in> set xs. G x)" by (rule Cons.IH [OF _ a(2)]) (use Cons.prems(1) in simp)
  then show ?case using Cons.prems(1) [OF _ a(1)] by auto
qed simp

lemma checkDirectory_stray:
  assumes "checkDirectory dirs acc dir expected = Inr acc'"
  shows "set acc' = set acc \<union> stray dirs dir (\<lambda>f. f \<in> set expected)"
proof -
  have "set (unexpected_entries dir expected acc fs) =
      set acc \<union> (\<lambda>f. dir @ ''/'' @ f) ` {f \<in> set fs. f \<notin> {''.'', ''..''} \<and> f \<notin> set expected}" for fs acc
    by (induction fs arbitrary: acc) auto
  then show ?thesis using assms by (auto simp: checkDirectory_def stray_def split: option.splits)
qed

lemma expected_backups_file: "f \<in> set (expected_backups c dev v) \<longleftrightarrow> backup_file c dev v f"
  by (auto simp: expected_backups_def backup_file_def)

lemma checkVolume_stray:
  assumes "checkVolume dirs c store dev hn v acc = Inr acc'"
  shows "set acc' = set acc \<union> stray dirs (store @ ''/'' @ hn @ ''/'' @ v_name v) (backup_file c dev v)"
  using checkDirectory_stray assms by (auto simp: checkVolume_def expected_backups_file)

lemma checkHost_stray:
  assumes "checkHost dirs c store dev h acc = Inr acc'"
  shows "set acc' = set acc \<union> (stray dirs (store @ ''/'' @ h_name h) (\<lambda>f. f \<in> fst ` set (h_volumes h)) \<union>
    (\<Union>(vn, v) \<in> set (h_volumes h). stray dirs (store @ ''/'' @ h_name h @ ''/'' @ v_name v) (backup_file c dev v)))"
proof -
  from assms obtain a where a: "checkDirectory dirs acc (store @ ''/'' @ h_name h) (map fst (h_volumes h)) = Inr a"
    "fold_result (\<lambda>unexpected (_, v). checkVolume dirs c store dev (h_name h) v unexpected) a (h_volumes h) = Inr acc'"
    by (auto simp: checkHost_def rbind_Inr_iff)
  have "set acc' = set a \<union> (\<Union>x \<in> set (h_volumes h).
      (\<lambda>(vn, v). stray dirs (store @ ''/'' @ h_name h @ ''/'' @ v_name v) (backup_file c dev v)) x)"
    by (rule fold_result_collects [OF _ a(2)]) (simp only: split_beta, rule checkVolume_stray)
  with checkDirectory_stray [OF a(1)] show ?thesis by auto
qed

lemma checkDevice_stray:
  assumes "checkDevice dirs c store dev acc = Inr acc'"
  shows "set acc' = set acc \<union> (stray dirs store (\<lambda>f. f \<in> {''device-id'', ''lost+found''} \<union> fst ` set (c_hosts c)) \<union>
    (\<Union>(hn, h) \<in> set (c_hosts c).
       stray dirs (store @ ''/'' @ h_name h) (\<lambda>f. f \<in> fst ` set (h_volumes h)) \<union>
       (\<Union>(vn, v) \<in> set (h_volumes h). stray dirs (store @ ''/'' @ h_name h @ ''/'' @ v_name v) (backup_file c dev v))))"
proof -
  from assms obtain a where a: "checkTopLevelFiles dirs c store acc = Inr a"
    "fold_result (\<lambda>unexpected (_, h). checkHost dirs c store dev h unexpected) a (c_hosts c) = Inr acc'"
    by (auto simp: checkDevice_def rbind_Inr_iff)
  have "set acc' = set a \<union> (\<Union>x \<in> set (c_hosts c). (\<lambda>(hn, h).
       stray dirs (store @ ''/'' @ h_name h) (\<lambda>f. f \<in> fst ` set (h_volumes h)) \<union>
       (\<Union>(vn, v) \<in> set (h_volumes h). stray dirs (store @ ''/'' @ h_name h @ ''/'' @ v_name v) (backup_file c dev v))) x)"
    by (rule fold_result_collects [OF _ a(2)]) (simp only: split_beta, rule checkHost_stray)
  moreover have "set a = set acc \<union> stray dirs store (\<lambda>f. f \<in> {''device-id'', ''lost+found''} \<union> fst ` set (c_hosts c))"
    using checkDirectory_stray [OF a(1) [unfolded checkTopLevelFiles_def]] by simp
  ultimately show ?thesis by (simp only: Un_assoc)
qed

text \<open>
  C38: \<open>--check-unexpected\<close> prints exactly the files in the directories of the stores, hosts and volumes of the
  configuration that are not hosts, volumes or known backups there (or \<open>device-id\<close>, \<open>lost+found\<close>, \<open>.\<close>, \<open>..\<close> or the
  mark of an incomplete backup).
\<close>

theorem unexpected_files_exact:
  assumes "checkUnexpected w dirs eol s = (Inr out, s')"
  shows "\<exists>ps. out = concat (map (\<lambda>p. p @ [eol]) ps) \<and> set ps = stray_files dirs (ds_conf s')"
proof -
  from assms obtain ps where ps: "unexpected_files dirs (ds_conf s') = Inr ps" "out = concat (map (\<lambda>p. p @ [eol]) ps)"
    by (auto simp: checkUnexpected_def rbind_Inr_iff split: prod.splits sum.splits)
  let ?G = "\<lambda>(n :: string, dev). case d_store dev of None \<Rightarrow> {} | Some store \<Rightarrow>
        stray dirs store (\<lambda>f. f \<in> {''device-id'', ''lost+found''} \<union> fst ` set (c_hosts (ds_conf s'))) \<union>
        (\<Union>(hn, h) \<in> set (c_hosts (ds_conf s')).
           stray dirs (store @ ''/'' @ h_name h) (\<lambda>f. f \<in> fst ` set (h_volumes h)) \<union>
           (\<Union>(vn, v) \<in> set (h_volumes h).
              stray dirs (store @ ''/'' @ h_name h @ ''/'' @ v_name v) (backup_file (ds_conf s') (d_name dev) v)))"
  have "set ps = set [] \<union> (\<Union>x \<in> set (c_devices (ds_conf s')). ?G x)"
  proof (rule fold_result_collects [OF _ ps(1) [unfolded unexpected_files_def]])
    fix acc acc' :: "string list" and x :: "string \<times> device"
    assume step: "(case x of (_, dev) \<Rightarrow> case d_store dev of None \<Rightarrow> Inr acc | Some store \<Rightarrow>
      checkDevice dirs (ds_conf s') store (d_name dev) acc) = Inr acc'"
    obtain n dev where x: "x = (n, dev)" by (cases x)
    show "set acc' = set acc \<union> ?G x"
    proof (cases "d_store dev")
      case None
      then show ?thesis using step by (simp add: x)
    next
      case (Some store)
      then have "checkDevice dirs (ds_conf s') store (d_name dev) acc = Inr acc'" using step by (simp add: x)
      from checkDevice_stray [OF this] show ?thesis by (simp add: x Some)
    qed
  qed
  then show ?thesis unfolding stray_files_def ps(2) by (intro exI [of _ ps]) simp
qed


section \<open>A sample\<close>

definition sample_check_state :: device_state where
  "sample_check_state =
     (let c = ds_conf sample_device_state; h = new_host c ''h'';
          v = (new_volume h ''v'' ''/v'')\<lparr>v_backups :=
            [(sample_backup 1 1000 ''d2'')\<lparr>b_id := ''1''\<rparr>, (sample_backup 2 2000 ''d2'')\<lparr>b_id := ''2''\<rparr>,
             (sample_backup 3 3000 ''d2'')\<lparr>b_id := ''3'', b_status := FAILED\<rparr>]\<rparr>
      in sample_device_state\<lparr>ds_conf := c\<lparr>c_hosts := [(''h'', h\<lparr>h_volumes := [(''v'', v)]\<rparr>)]\<rparr>\<rparr>)"

definition sample_directories :: directories where
  "sample_directories d =
     (if d = ''/a'' then Some ([''.'', ''..'', ''device-id'', ''h'', ''old''], None)
      else if d = ''/a/h/v'' then Some ([''1'', ''2'', ''3'', ''3.incomplete'', ''2.incomplete''], None)
      else None)"

definition sample_check_identified :: "unit result \<times> device_state" where
  "sample_check_identified = identifyDevices sample_device_world [Enabled] sample_check_state"

abbreviation sample_check_selection :: selection where
  "sample_check_selection \<equiv> \<lparr>sel_sense = True, sel_host = ''h'', sel_volume = ''v''\<rparr>"

lemma latest_printed_witness:
  "fst (findLatest sample_device_world LF [sample_check_selection] sample_check_state) = Inr (''/a/h/v/2'' @ [LF]) \<and>
   latest_of (ds_conf (snd sample_check_identified)) sample_check_selection ''/a/h/v/2''"
proof -
  have out: "fst (findLatest sample_device_world LF [sample_check_selection] sample_check_state) = Inr (''/a/h/v/2'' @ [LF])"
    "ds_errors (snd (findLatest sample_device_world LF [sample_check_selection] sample_check_state)) = 0"
    by code_simp+
  have "fst sample_check_identified = Inr ()" by code_simp
  then have "identifyDevices sample_device_world [Enabled] sample_check_state = (Inr (), snd sample_check_identified)"
    by (metis prod.collapse sample_check_identified_def)
  from latest_printed [OF this, of LF "[sample_check_selection]"] out obtain paths
    where "''/a/h/v/2'' @ [LF] = concat (map (\<lambda>p. p @ [LF]) paths)"
      "list_all2 (latest_of (ds_conf (snd sample_check_identified))) [sample_check_selection] paths" by auto
  then show ?thesis using out by (auto simp: list_all2_Cons1)
qed

lemma unexpected_files_exact_witness:
  "\<exists>ps. fst (checkUnexpected sample_device_world sample_directories LF sample_check_state) = Inr (concat (map (\<lambda>p. p @ [LF]) ps)) \<and>
     set ps = {''/a/old'', ''/a/h/v/2.incomplete''}"
proof -
  let ?r = "checkUnexpected sample_device_world sample_directories LF sample_check_state"
  have "\<not> isl (fst ?r)" by code_simp
  then obtain out where out: "fst ?r = Inr out" by (cases "fst ?r") auto
  then have "?r = (Inr out, snd ?r)" by (metis prod.collapse)
  from unexpected_files_exact [OF this] out obtain ps
    where "fst ?r = Inr (concat (map (\<lambda>p. p @ [LF]) ps))" "set ps = stray_files sample_directories (ds_conf (snd ?r))" by auto
  moreover have "stray_files sample_directories (ds_conf (snd ?r)) = {''/a/old'', ''/a/h/v/2.incomplete''}"
    by code_simp
  ultimately show ?thesis by auto
qed

end
