(* ===== verification/ConfWrite.thy ===== *)
theory ConfWrite
  imports Directives
begin

text \<open>
  Writing the configuration (\<open>--dump-config\<close>): \<open>write\<close> of \<^verbatim>\<open>src/ConfBase.cc\<close>, \<^verbatim>\<open>src/Volume.cc\<close>,
  \<^verbatim>\<open>src/Host.cc\<close> and \<^verbatim>\<open>src/Conf.cc\<close>, and the printing of colours.  What is written is a list of lines,
  each of which the code ends with a newline.  How the stream prints a double is an argument.
\<close>

section \<open>Lines\<close>

text \<open>\<open>describe\<close> or \<open>nodescribe\<close>.\<close>

definition describe :: "bool \<Rightarrow> nat \<Rightarrow> string \<Rightarrow> string list" where
  "describe verbose step description =
     (if verbose then [if description \<noteq> [] then indent step @ description else []] else [])"

definition describes :: "bool \<Rightarrow> nat \<Rightarrow> string list \<Rightarrow> string list" where
  "describes verbose step ds = concat (map (describe verbose step) ds)"

definition setting :: "nat \<Rightarrow> string \<Rightarrow> string \<Rightarrow> string list" where
  "setting step name v = [indent step @ name @ [SP] @ v]"

text \<open>A directive that is followed by any number of words.\<close>

definition words_setting :: "nat \<Rightarrow> string \<Rightarrow> string list \<Rightarrow> string list" where
  "words_setting step name ws = [indent step @ name @ concat (map (\<lambda>w. SP # quote w) ws)]"

definition show_bool :: "bool \<Rightarrow> string" where
  "show_bool b = (if b then ''true'' else ''false'')"

text \<open>\<open>writeVector\<close>: the line so far, its width \<open>y\<close>, and the values to come.\<close>

fun write_values :: "nat \<Rightarrow> string \<Rightarrow> string \<Rightarrow> nat \<Rightarrow> string list \<Rightarrow> string list" where
  "write_values step name line y [] = [line]"
| "write_values step name line y (s # ss) =
     (if 80 \<le> y + length s
      then line # write_values step name (indent step @ name @ '' +'' @ [SP] @ quote s) (step + length name + 2 + length (quote s) + 1) ss
      else write_values step name (line @ [SP] @ quote s) (y + length (quote s) + 1) ss)"

definition writeVector :: "nat \<Rightarrow> string \<Rightarrow> string list \<Rightarrow> string list" where
  "writeVector step name vs =
     (if vs \<noteq> [] then write_values step name (indent step @ name) (step + length name) vs else [indent step @ name])"

section \<open>The settings that hosts and volumes inherit\<close>

text \<open>The parameters, and the removal of those that only the parent has.\<close>

definition write_parameters :: "nat \<Rightarrow> string \<Rightarrow> parameters option \<Rightarrow> parameters \<Rightarrow> string list" where
  "write_parameters step name parent ps =
     concat (map (\<lambda>(n, p). setting step name (quote n @ [SP] @ quote (pp_value p))) ps) @
     (case parent of
        None \<Rightarrow> []
      | Some qs \<Rightarrow> concat (map (\<lambda>(n, _). if om_find str_less n ps \<noteq> None then [] else setting step name (''--remove '' @ quote n)) qs))"

text \<open>A hook: written if it is there or differs from the parent's.\<close>

definition write_hook :: "nat \<Rightarrow> string \<Rightarrow> string list option \<Rightarrow> string list \<Rightarrow> string list" where
  "write_hook step name parent hook =
     (if hook \<noteq> [] \<or> (case parent of None \<Rightarrow> False | Some h \<Rightarrow> hook \<noteq> h)
      then [indent step @ name @ (if hook \<noteq> [] then [SP] else []) @ quote_list hook] else [])"

definition write_interval_unless_zero :: "nat \<Rightarrow> string \<Rightarrow> int \<Rightarrow> string list" where
  "write_interval_unless_zero step name n = (if n \<noteq> 0 then setting step name (formatTimeInterval n) else [])"

text \<open>\<open>what\<close> is the kind of the node; a node without a parent is the configuration itself.\<close>

definition write_policies :: "bool \<Rightarrow> nat \<Rightarrow> string \<Rightarrow> conf_base option \<Rightarrow> conf_base \<Rightarrow> string list" where
  "write_policies verbose step what parent b =
     (let d = describes (verbose \<and> parent = None); blank = d 0 [[]]
      in d step [''# Maximum time with no backups before flagging host in report'', ''#  max-age INTERVAL''] @
         setting step ''max-age'' (formatTimeInterval (maxAge b)) @ blank @
         d step [''# Backup policy for this '' @ what, ''#  backup-policy always|daily|interval''] @
         setting step ''backup-policy'' (backupPolicy b) @ blank @
         d step [''# Backup parameters'', ''#  backup-parameter NAME VALUE'', ''#  backup-parameter --remove NAME'',
           ''# For parameters, see documentation for individual backup policies''] @
         write_parameters step ''backup-parameter'' (map_option backupParameters parent) (backupParameters b) @ blank @
         d step [''# Prune policy for this '' @ what, ''#  prune-policy age|decay|exec|never''] @
         setting step ''prune-policy'' (prunePolicy b) @ blank @
         d step [''# Prune parameters'', ''#  prune-parameter NAME VALUE'', ''#  prune-parameter --remove NAME'',
           ''# For parameters, see documentation for individual pruning policies''] @
         write_parameters step ''prune-parameter'' (map_option pruneParameters parent) (pruneParameters b) @ blank)"

definition write_hooks :: "bool \<Rightarrow> nat \<Rightarrow> conf_base option \<Rightarrow> conf_base \<Rightarrow> string list" where
  "write_hooks verbose step parent b =
     (let d = describes (verbose \<and> parent = None); blank = d 0 [[]]
      in d step [''# Command to run prior to making a backup'', ''#  pre-volume-hook COMMAND ...''] @
         write_hook step ''pre-volume-hook'' (map_option preVolume parent) (preVolume b) @ blank @
         d step [''# Command to run after making a backup'', ''#  post-volume-hook COMMAND ...''] @
         write_hook step ''post-volume-hook'' (map_option postVolume parent) (postVolume b) @ blank @
         d step [''# Maximum time to wait for rsync to complete'', ''#  backup-job-timeout INTERVAL''] @
         write_interval_unless_zero step ''backup-job-timeout'' (backupJobTimeout b) @ blank @
         d step [''# rsync internal timeout'', ''#  rsync-io-timeout INTERVAL''] @
         write_interval_unless_zero step ''rsync-io-timeout'' (rsyncIOTimeout b) @ blank @
         d step [''# Maximum time to wait before giving up on a host'', ''#  ssh-timeout INTERVAL''] @
         setting step ''ssh-timeout'' (formatTimeInterval (sshTimeout b)) @ blank @
         d step [''# Maximum time to wait for a hook to complete'', ''#  hook-timeout INTERVAL''] @
         write_interval_unless_zero step ''hook-timeout'' (hookTimeout b) @ blank)"

definition write_rsync :: "bool \<Rightarrow> nat \<Rightarrow> conf_base option \<Rightarrow> conf_base \<Rightarrow> string list" where
  "write_rsync verbose step parent b =
     (let d = describes (verbose \<and> parent = None); blank = d 0 [[]]
      in d step [''# rsync command'', ''# rsync-command COMMAND''] @
         setting step ''rsync-command'' (quote (rsyncCommand b)) @ blank @
         (if \<not> rsyncLinkDest b \<or> (case parent of None \<Rightarrow> False | Some p \<Rightarrow> rsyncLinkDest b \<noteq> rsyncLinkDest p)
          then d step [''# rsync file linking'', ''# rsync-link-dest true|false''] @
               setting step ''rsync-link-dest'' (show_bool (rsyncLinkDest b)) @ blank
          else []) @
         d step [''# rsync base options'', ''# rsync-base-options OPTION ...''] @
         words_setting step ''rsync-base-options'' (rsyncBaseOptions b) @ blank @
         d step [''# rsync extra options'', ''# rsync-extra-options OPTION ...''] @
         words_setting step ''rsync-extra-options'' (rsyncExtraOptions b) @ blank @
         d step [''# rsync remote command'', ''# rsync-remote COMMAND''] @
         (if rsyncRemote b \<noteq> [] then setting step ''rsync-remote'' (quote (rsyncRemote b)) else []) @ blank @
         d step [''# Time restrictions'', ''# backup-time EARLIEST-LATEST''] @
         setting step ''backup-time'' (formatTimeOfDay (earliest b) @ ''-'' @ formatTimeOfDay (latest b)) @ blank)"

definition ConfBase_write :: "bool \<Rightarrow> nat \<Rightarrow> string \<Rightarrow> conf_base option \<Rightarrow> conf_base \<Rightarrow> string list" where
  "ConfBase_write verbose step what parent b =
     write_policies verbose step what parent b @ write_hooks verbose step parent b @ write_rsync verbose step parent b"

definition writeHostCheck :: "bool \<Rightarrow> nat \<Rightarrow> conf_base option \<Rightarrow> conf_base \<Rightarrow> string list" where
  "writeHostCheck verbose step parent b =
     (let d = describes (verbose \<and> parent = None)
      in d step [''# Host check behavior'', ''#  host-check ssh'', ''#  host-check always-up'', ''#  host-check command COMMAND ...''] @
         setting step ''host-check'' (quote_list (hostCheck b)) @ d 0 [[]])"

section \<open>Volumes and hosts\<close>

definition base_of :: "'a conf_base_scheme \<Rightarrow> conf_base" where
  "base_of r = conf_base.truncate r"

definition Volume_lines :: "bool \<Rightarrow> nat \<Rightarrow> host \<Rightarrow> volume \<Rightarrow> string list" where
  "Volume_lines verbose step h v =
     (let d = describes verbose step
      in ConfBase_write verbose step ''volume'' (Some (base_of h)) (base_of v) @ d [[]] @
         d [''# Concurrency group'', ''#   group NAME''] @
         (if group v \<noteq> group h then setting step ''group'' (quote (group v)) else []) @ d [[]] @
         d [''# Glob pattern for devices this host will be backed up to'', ''#  devices PATTERN''] @
         (if devicePattern v \<noteq> [] then setting step ''devices'' (quote (devicePattern v)) else []) @ d [[]] @
         d [''# Paths to exclude from backup'',
            ''# Patterns are glob patterns, starting at the root of the volume as '' @ [CHR 0x27] @ ''/'' @ [CHR 0x27] @ ''.'',
            ''# '' @ [CHR 0x27] @ ''*'' @ [CHR 0x27] @ '' matches multiple characters but not '' @ [CHR 0x27] @ ''/'' @ [CHR 0x27],
            ''# '' @ [CHR 0x27] @ ''**'' @ [CHR 0x27] @ '' matches multiple characters including '' @ [CHR 0x27] @ ''/'' @ [CHR 0x27],
            ''# Consult rsync manual for full pattern syntax'', ''#   exclude PATTERN''] @
         concat (map (\<lambda>e. setting step ''exclude'' (quote e)) (v_exclude v)) @ d [[]] @
         d [''# Back up across mount points'', ''#  traverse true|false''] @
         setting step ''traverse'' (show_bool (v_traverse v)) @ d [[]] @
         d [''# Check that a named file exists before performing backup'', ''#  check-file PATH''] @
         (if v_checkFile v \<noteq> [] then setting step ''check-file'' (quote (v_checkFile v)) else []) @ d [[]] @
         d [''# Check that volume is a mount point before performing backup'', ''#  check-mounted true|false''] @
         setting step ''check-mounted'' (show_bool (v_checkMounted v)))"

definition Volume_write :: "bool \<Rightarrow> nat \<Rightarrow> host \<Rightarrow> volume \<Rightarrow> string list" where
  "Volume_write verbose step h v =
     (indent step @ ''volume '' @ quote (v_name v) @ [SP] @ quote (v_path v)) # Volume_lines verbose (step + 4) h v"

definition Host_lines :: "bool \<Rightarrow> nat \<Rightarrow> conf \<Rightarrow> host \<Rightarrow> string list" where
  "Host_lines verbose step c h =
     (let d = describes verbose step
      in ConfBase_write verbose step ''host'' (Some (base_of c)) (base_of h) @
         writeHostCheck verbose step (Some (base_of c)) (base_of h) @ d [[]] @
         d [''# Concurrency group'', ''#   group NAME''] @
         (if group h \<noteq> h_name h then setting step ''group'' (quote (group h)) else []) @ d [[]] @
         d [''# Hostname for SSH'', ''#   hostname NAME''] @
         setting step ''hostname'' (quote (h_hostname h)) @ d [[]] @
         d [''# Username for SSH; default is not to supply a username'', ''#   user NAME''] @
         (if h_user h \<noteq> [] then setting step ''user'' (quote (h_user h)) else []) @ d [[]] @
         d [''# Glob pattern for devices this host will be backed up to'', ''#   devices PATTERN''] @
         (if devicePattern h \<noteq> [] then setting step ''devices'' (quote (devicePattern h)) else []) @ d [[]] @
         d [''# Priority for this host (higher priority = backed up earlier)'', ''#   priority INTEGER''] @
         setting step ''priority'' (show_int (h_priority h)))"

definition Host_write :: "bool \<Rightarrow> nat \<Rightarrow> conf \<Rightarrow> host \<Rightarrow> string list" where
  "Host_write verbose step c h =
     (indent step @ ''host '' @ quote (h_name h)) # Host_lines verbose (step + 4) c h @
     concat (map (\<lambda>(_, v). [] # Volume_write verbose (step + 4) h v) (h_volumes h))"


section \<open>Colours\<close>

text \<open>\<open>pack\<close>: 255 times the component, plus nearly a half, cut to an integer.\<close>

definition pack :: "real \<Rightarrow> nat \<Rightarrow> int" where
  "pack c shift = \<lfloor>255 * c + 0xFFFFFFFF / 2 ^ 33\<rfloor> * 2 ^ shift"

definition rgb_of_color :: "color \<Rightarrow> int" where
  "rgb_of_color c = pack (red c) 16 + pack (green c) 8 + pack (blue c) 0"

definition hex_char :: "nat \<Rightarrow> char" where
  "hex_char n = (if n < 10 then digit_char n else char_of (n + 87))"

fun show_hex_nat :: "nat \<Rightarrow> string" where
  "show_hex_nat n = (if n < 16 then [hex_char n] else show_hex_nat (n div 16) @ [hex_char (n mod 16)])"

declare show_hex_nat.simps [simp del]

text \<open>\<open>std::setw(6)\<close> with \<open>std::setfill('0')\<close>.\<close>

definition show_color :: "color \<Rightarrow> string" where
  "show_color c = (let s = show_hex_nat (nat (rgb_of_color c)) in replicate (6 - length s) CHR ''0'' @ s)"

definition ColorStrategy_description :: "(real \<Rightarrow> string) \<Rightarrow> color_strategy \<Rightarrow> string" where
  "ColorStrategy_description fmt cs =
     (case cs of
        EquidistantHue h s v \<Rightarrow> ''equidistant-hue '' @ fmt h @ [SP] @ fmt s @ [SP] @ fmt v
      | EquidistantValue h s lo hi \<Rightarrow>
          ''equidistant-value '' @ fmt h @ [SP] @ fmt s @
          (if lo \<noteq> 0 \<or> hi \<noteq> 1 then [SP] @ fmt lo @ [SP] @ fmt hi else []))"

section \<open>The configuration\<close>

definition write_general :: "bool \<Rightarrow> nat \<Rightarrow> conf \<Rightarrow> string list" where
  "write_general verbose step c =
     (let d = describes verbose step; set_path = (\<lambda>name v. if v \<noteq> [] then setting step name (quote v) else []);
          set_hook = (\<lambda>name v. if v \<noteq> [] then setting step name (quote_list v) else [])
      in d [''# ---- Non-inheritable directives ----'', []] @
         d [''# Whether stores are public or private (default)'', ''#  public true|false''] @
         setting step ''public'' (show_bool (c_publicStores c)) @ d [[]] @
         d [''# Path to log directory'', ''#  logs PATH''] @
         setting step ''logs'' (quote (c_logs c)) @ d [[]] @
         d [''# Path to database'', ''#  database PATH''] @ set_path ''database'' (c_database c) @ d [[]] @
         d [''# Path to lock file'', ''#  lock PATH''] @ set_path ''lock'' (c_lock c) @ d [[]] @
         d [''# Command to run before accessing backup devices'', ''#  pre-device-hook COMMAND ...''] @
         set_hook ''pre-device-hook'' (c_preDevice c) @ d [[]] @
         d [''# Command to run after accessing backup devices'', ''#  pre-device-hook COMMAND ...''] @
         set_hook ''post-device-hook'' (c_postDevice c) @ d [[]] @
         d [''# Names of backup devices'', ''#  device NAME''] @
         concat (map (\<lambda>(n, _). [''device '' @ quote n]) (c_devices c)) @ d [[]] @
         d [''# The time period to keep records of pruned backups for'', ''#  keep-prune-logs INTERVAL''] @
         setting step ''keep-prune-logs'' (formatTimeInterval (c_keepPruneLogs c)) @ d [[]] @
         d [''# The maximum time to spend pruning'', ''#  prune-timeout INTERVAL''] @
         setting step ''prune-timeout'' (formatTimeInterval (c_pruneTimeout c)) @ d [[]])"

definition DEFAULT_RM :: string where
  "DEFAULT_RM = ''rm''"

definition write_reporting :: "bool \<Rightarrow> nat \<Rightarrow> conf \<Rightarrow> string list" where
  "write_reporting verbose step c =
     (let d = describes verbose step
      in d [''# ---- Reporting ----'', []] @
         d [''# '' @ [CHR 0x27] @ ''Good'' @ [CHR 0x27] @ '' and '' @ [CHR 0x27] @ ''bad'' @ [CHR 0x27] @ '' colors for HTML report'',
            ''#  color-good 0xRRGGBB'', ''#  color-bad 0xRRGGBB''] @
         setting step ''color-good'' (''0x'' @ show_color (c_colorGood c)) @
         setting step ''color-bad'' (''0x'' @ show_color (c_colorBad c)) @ d [[]] @
         d [''# Path to mail transport agent'', ''#  sendmail PATH''] @
         setting step ''sendmail'' (quote (c_sendmail c)) @ d [[]] @
         (if c_rm c \<noteq> DEFAULT_RM then d [''# rm command'', ''#  rm COMMAND''] @ setting step ''rm'' (quote (c_rm c)) @ d [[]] else []) @
         d [''# Stylesheet for HTML report'', ''#  stylesheet PATH''] @
         (if c_stylesheet c \<noteq> [] then setting step ''stylesheet'' (quote (c_stylesheet c)) else []) @ d [[]] @
         d [''# Contents of report'', ''#  report [+] KEY[:VALUE][?CONDITION]'', ''#'', ''# Keys:'',
            ''#   generated         -- generation time'', ''#   history-graph     -- graphical representation ofbackups'',
            ''#   h1:HEADING        -- level-1 heading'', ''#   h2:HEADING        -- level-2 heading'',
            ''#   h3:HEADING        -- level-3 heading'', ''#   logs              -- logs of failed backups'',
            ''#   p:TEXT            -- arbitrary text'', ''#   prune-logs[:INTERVAL] -- pruning logs (default 3 days)'',
            ''#   summary           -- summary table'', ''#   title:TITLE       -- report title'',
            ''#   warnings          -- warning messages'', ''#'', ''# Conditions:'',
            ''#   warnings          -- true if there are warnings to display''] @
         writeVector step ''report'' (c_report c) @ d [[]])"

definition write_graphs :: "(real \<Rightarrow> string) \<Rightarrow> bool \<Rightarrow> nat \<Rightarrow> conf \<Rightarrow> string list" where
  "write_graphs fmt verbose step c =
     (let d = describes verbose step; set_color = (\<lambda>name x. setting step name (''0x'' @ show_color x));
          set_real = (\<lambda>name x. setting step name (fmt x))
      in d [''# ---- Graphs ----'', []] @
         d [''# Graph background color'', ''#  color-graph-background 0xRRGGBB''] @
         set_color ''color-graph-background'' (c_colorGraphBackground c) @ d [[]] @
         d [''# Graph foreground color'', ''#  color-graph-foreground 0xRRGGBB''] @
         set_color ''color-graph-foreground'' (c_colorGraphForeground c) @ d [[]] @
         d [''# Graph month guide color'', ''#  color-month-guide 0xRRGGBB''] @
         set_color ''color-month-guide'' (c_colorMonthGuide c) @ d [[]] @
         d [''# Graph host guide color'', ''#  color-host-guide 0xRRGGBB''] @
         set_color ''color-host-guide'' (c_colorHostGuide c) @ d [[]] @
         d [''# Graph volume guide color'', ''#  color-volume-guide 0xRRGGBB''] @
         set_color ''color-volume-guide'' (c_colorVolumeGuide c) @ d [[]] @
         d [''# Strategy for picking device colors'', ''#  device-color-strategy equidistant-value HUE'',
            ''#  device-color-strategy equidistant-value HUE SATURATION'',
            ''#  device-color-strategy equidistant-value HUE SATURATION MINVALUE MAXVALUE'',
            ''#  device-color-strategy equidistant-hue HUE'', ''#  device-color-strategy equidistant-hue HUE SATURATION VALUE''] @
         setting step ''device-color-strategy'' (ColorStrategy_description fmt (c_deviceColorStrategy c)) @ d [[]] @
         d [''# Horizontal padding'', ''#  horizontal-padding PIXELS''] @
         set_real ''horizontal-padding'' (c_horizontalPadding c) @ d [[]] @
         d [''# Vertical padding'', ''#  vertical-padding PIXELS''] @
         set_real ''vertical-padding'' (c_verticalPadding c) @ d [[]] @
         d [''# Minimum width of a backup indicator'', ''#  backup-indicator-width PIXELS''] @
         set_real ''backup-indicator-width'' (c_backupIndicatorWidth c) @ d [[]] @
         d [''# Minimum height of a backup indicator '', ''#  backup-indicator-height PIXELS''] @
         set_real ''backup-indicator-height'' (c_backupIndicatorHeight c) @ d [[]] @
         d [''# Target width graph of graph'', ''#  graph-target-width PIXELS''] @
         set_real ''graph-target-width'' (c_graphTargetWidth c) @ d [[]] @
         d [''# Width of a backup indicator in the device key'', ''#  backup-indicator-key-width PIXELS''] @
         set_real ''backup-indicator-key-width'' (c_backupIndicatorKeyWidth c) @ d [[]])"

definition write_fonts :: "bool \<Rightarrow> nat \<Rightarrow> conf \<Rightarrow> string list" where
  "write_fonts verbose step c =
     (let d = describes verbose step
      in d [''# Font description for host names'', ''#  host-name-font FONT''] @
         setting step ''host-name-font'' (c_hostNameFont c) @ d [[]] @
         d [''# Font description for volume names'', ''#  volume-name-font FONT''] @
         setting step ''volume-name-font'' (c_volumeNameFont c) @ d [[]] @
         d [''# Font description for device names'', ''#  device-name-font FONT''] @
         setting step ''device-name-font'' (c_deviceNameFont c) @ d [[]] @
         d [''# Font description for time labels'', ''#  time-label-font FONT''] @
         setting step ''time-label-font'' (c_timeLabelFont c) @ d [[]] @
         d [''# Layout'', ''#  graph-layout [+] PART:COLUMN,ROW[:HV]''] @
         writeVector step ''graph-layout'' (c_graphLayout c) @ d [[]])"

definition Conf_write :: "(real \<Rightarrow> string) \<Rightarrow> bool \<Rightarrow> nat \<Rightarrow> conf \<Rightarrow> string list" where
  "Conf_write fmt verbose step c =
     (let d = describes verbose step
      in d [''# ---- Inheritable directives ----'', []] @
         ConfBase_write verbose step ''system'' None (base_of c) @ writeHostCheck verbose step None (base_of c) @
         write_general verbose step c @ write_reporting verbose step c @ write_graphs fmt verbose step c @ write_fonts verbose step c @
         d [''# ---- Hosts to back up ----''] @
         concat (map (\<lambda>(_, h). [] # Host_write verbose step c h) (c_hosts c)))"

text \<open>The text of the file.\<close>

definition unlines :: "string list \<Rightarrow> string" where
  "unlines ls = concat (map (\<lambda>l. l @ [LF]) ls)"

end
