(* ===== verification/ConfReadBack.thy ===== *)
theory ConfReadBack
  imports ConfWrite ConfRead DirectiveSafety
begin

text \<open>
  What \<open>write\<close> has written is read back: the lines that \<open>ConfWrite\<close> makes are given to the reader of \<open>ConfRead\<close>.
  The node that the lines are about (the configuration, a host, a volume) is the parameter of a locale; what a
  line changes of it is stated up to the locations of policy parameters, which are those of the new file.
\<close>

section \<open>Forgetting locations\<close>

definition forget_parameters :: "parameters \<Rightarrow> parameters" where
  "forget_parameters = om_map_values (pp_location_update (\<lambda>_. no_location))"

definition forget_base :: "conf_base \<Rightarrow> conf_base" where
  "forget_base b = b\<lparr>backupParameters := forget_parameters (backupParameters b),
                     pruneParameters := forget_parameters (pruneParameters b)\<rparr>"

definition forget :: "'z conf_base_scheme \<Rightarrow> 'z conf_base_scheme" where
  "forget = on_base forget_base"

lemma extend_parts [simp]:
  "conf_base.truncate (conf_base.extend b m) = b" "conf_base.more (conf_base.extend b m) = m"
  "conf_base.extend (conf_base.truncate r) (conf_base.more r) = r"
  by (cases b, simp add: conf_base.defs, cases b, simp add: conf_base.defs, cases r, simp add: conf_base.defs)

lemma on_base_comp: "on_base g (on_base f r) = on_base (g \<circ> f) r"
  by (simp add: on_base_def)

lemma on_base_id [simp]: "on_base id r = r" "on_base (\<lambda>b. b) r = r"
  by (simp_all add: on_base_def)

lemma forget_on_base:
  assumes "\<And>b. forget_base (g b) = g (forget_base b)"
  shows "forget (on_base g r) = on_base g (forget r)"
  using assms by (simp add: forget_def on_base_comp comp_def)

section \<open>Reading the lines of a node\<close>

text \<open>The lines are read without error in a state \<open>ok\<close>, and change the node by \<open>f\<close>.\<close>

definition node_reads ::
    "conf_env \<Rightarrow> reader \<Rightarrow> (string option \<Rightarrow> string option \<Rightarrow> indenter \<Rightarrow> bool) \<Rightarrow> ('z conf_base_scheme \<Rightarrow> conf) \<Rightarrow>
     string list \<Rightarrow> ('z conf_base_scheme \<Rightarrow> 'z conf_base_scheme) \<Rightarrow> bool" where
  "node_reads env inc ok put ls f \<longleftrightarrow>
     (\<forall>cc ind x. ok (cc_host cc) (cc_volume cc) ind \<and> cc_conf cc = put x \<longrightarrow>
        (\<exists>cc' ind' y. loop_option (read_line env inc) (cc, ind) ls = Some (Inr (cc', ind')) \<and>
           ok (cc_host cc') (cc_volume cc') ind' \<and> cc_conf cc' = put y \<and> forget y = f (forget x)))"

lemma loop_option_append:
  "loop_option f s (xs @ ys) =
     (case loop_option f s xs of Some (Inr s') \<Rightarrow> loop_option f s' ys | r \<Rightarrow> r)"
  by (induction xs arbitrary: s) (auto split: option.splits sum.splits)

lemma node_reads_Nil [simp]: "node_reads env inc ok put [] (\<lambda>x. x)"
  by (auto simp: node_reads_def)

lemma node_reads_append:
  assumes "node_reads env inc ok put xs f" "node_reads env inc ok put ys g"
  shows "node_reads env inc ok put (xs @ ys) (g \<circ> f)"
  unfolding node_reads_def
proof (intro allI impI)
  fix cc :: ctx and ind x
  assume "ok (cc_host cc) (cc_volume cc) ind \<and> cc_conf cc = put x"
  with assms(1) obtain cc1 ind1 y where 1: "loop_option (read_line env inc) (cc, ind) xs = Some (Inr (cc1, ind1))"
    "ok (cc_host cc1) (cc_volume cc1) ind1 \<and> cc_conf cc1 = put y" "forget y = f (forget x)"
    unfolding node_reads_def by blast
  with assms(2) obtain cc2 ind2 z where "loop_option (read_line env inc) (cc1, ind1) ys = Some (Inr (cc2, ind2))"
    "ok (cc_host cc2) (cc_volume cc2) ind2" "cc_conf cc2 = put z" "forget z = g (forget y)"
    unfolding node_reads_def by blast
  with 1 show "\<exists>cc' ind' y. loop_option (read_line env inc) (cc, ind) (xs @ ys) = Some (Inr (cc', ind')) \<and>
      ok (cc_host cc') (cc_volume cc') ind' \<and> cc_conf cc' = put y \<and> forget y = (g \<circ> f) (forget x)"
    by (intro exI [of _ cc2] exI [of _ ind2] exI [of _ z]) (simp add: loop_option_append)
qed

text \<open>Lines without words: comments and blank lines.\<close>

definition blank_line :: "string \<Rightarrow> bool" where
  "blank_line l \<longleftrightarrow> (\<exists>n. split l = Some (n, Inr []))"

lemma node_reads_blank:
  assumes "\<forall>l \<in> set ls. blank_line l"
  shows "node_reads env inc ok put ls (\<lambda>x. x)"
  using assms
proof (induction ls)
  case (Cons l ls)
  have "node_reads env inc ok put [l] (\<lambda>x. x)"
    using Cons.prems by (auto simp: node_reads_def read_line_def blank_line_def located_def Let_def)
  from node_reads_append [OF this, of ls "\<lambda>x. x"] Cons show ?case by (simp add: comp_def)
qed simp

lemma blank_describe: "l \<in> set (describe verbose step d) \<Longrightarrow> d = [] \<or> hd d = CHR ''#'' \<Longrightarrow> blank_line l"
proof -
  assume l: "l \<in> set (describe verbose step d)" and d: "d = [] \<or> hd d = CHR ''#''"
  show "blank_line l"
  proof (cases "d = []")
    case True
    then show ?thesis using l by (auto simp: describe_def blank_line_def split_def Let_def split: if_splits)
  next
    case False
    then obtain r where r: "d = CHR ''#'' # r" using d by (cases d) auto
    have "scan_indent 0 (indent step @ d) = (step, d)"
      using scan_indent_spaces [of d 0 step] r by (simp add: indent_def)
    then show ?thesis using l False r by (auto simp: describe_def blank_line_def split_def split: if_splits)
  qed
qed

lemma node_reads_describes:
  "list_all (\<lambda>d. d = [] \<or> hd d = CHR ''#'') ds \<Longrightarrow> node_reads env inc ok put (describes verbose step ds) (\<lambda>x. x)"
  by (rule node_reads_blank) (auto simp: describes_def list_all_iff dest: blank_describe)


section \<open>A node whose lines are at one level\<close>

locale written_node =
  fixes step L :: nat and ok :: "string option \<Rightarrow> string option \<Rightarrow> indenter \<Rightarrow> bool"
    and node :: "ctx \<Rightarrow> bool" and put :: "'z conf_base_scheme \<Rightarrow> conf"
  assumes enter: "ok (cc_host cc) (cc_volume cc) ind \<Longrightarrow> acc AND L = L \<Longrightarrow>
      \<exists>ind' cc'. indent_check acc step ind = (L, ind') \<and> select_level L cc = Inr cc' \<and> node cc' \<and>
        cc_conf cc' = cc_conf cc \<and> cc_bits cc' = cc_bits cc \<and>
        ok (cc_host cc') (cc_volume cc') (indent_introduce 0 ind')"
    and on_node: "node cc \<Longrightarrow> cc_conf cc = put x \<Longrightarrow> on_context f cc = Inr (cc\<lparr>cc_conf := put (on_base f x)\<rparr>)"
begin

lemma reads_directive:
  assumes line: "split l = Some (step, Inr (name # args))"
    and d: "find_directive name = Some d" "dir_set d = Set act" "dir_new_level d = 0" "dir_levels d AND L = L"
    and check: "\<And>cc. node cc \<Longrightarrow> cc_bits cc = name # args \<Longrightarrow> dir_check d cc = Inr ()"
    and act: "\<And>cc x. node cc \<Longrightarrow> cc_bits cc = name # args \<Longrightarrow> cc_conf cc = put x \<Longrightarrow>
      \<exists>y. act env cc = Inr (cc\<lparr>cc_conf := put y\<rparr>) \<and> forget y = f (forget x)"
  shows "node_reads env inc ok put [l] f"
  unfolding node_reads_def
proof (intro allI impI)
  fix cc :: ctx and ind x
  assume o: "ok (cc_host cc) (cc_volume cc) ind \<and> cc_conf cc = put x"
  let ?loc = "cc_location cc\<lparr>loc_line := loc_line (cc_location cc) + 1\<rparr>"
  let ?c = "cc\<lparr>cc_location := ?loc, cc_bits := name # args\<rparr>"
  have "ok (cc_host ?c) (cc_volume ?c) ind" using o by simp
  from enter [OF this d(4)] obtain ind' c where c: "indent_check (dir_levels d) step ind = (L, ind')"
    "select_level L ?c = Inr c" "node c" "cc_conf c = put x" "cc_bits c = name # args"
    "ok (cc_host c) (cc_volume c) (indent_introduce 0 ind')"
    using o by auto
  from act [OF c(3,5,4)] obtain y where y: "act env c = Inr (c\<lparr>cc_conf := put y\<rparr>)" "forget y = f (forget x)" by blast
  have "read_line env inc (cc, ind) l = Some (Inr (c\<lparr>cc_conf := put y\<rparr>, indent_introduce 0 ind'))"
    using line d c y check [OF c(3,5)]
    by (simp add: read_line_def Let_def read_directive_def run_action_def located_def)
  then show "\<exists>cc' ind' y. loop_option (read_line env inc) (cc, ind) [l] = Some (Inr (cc', ind')) \<and>
      ok (cc_host cc') (cc_volume cc') ind' \<and> cc_conf cc' = put y \<and> forget y = f (forget x)"
    using c(6) y(2) by (intro exI [of _ "c\<lparr>cc_conf := put y\<rparr>"] exI [of _ "indent_introduce 0 ind'"] exI [of _ y]) simp
qed

text \<open>A directive of the node's inheritable settings.\<close>

lemma reads_context:
  assumes line: "split l = Some (step, Inr (name # args))"
    and d: "find_directive name = Some d" "dir_set d = set_context get g" "dir_new_level d = 0" "dir_levels d AND L = L"
      "dir_kind d = AnyDirective" "dir_min d \<le> int (length args)" "int (length args) \<le> dir_max d"
    and get: "\<And>cc. cc_bits cc = name # args \<Longrightarrow> get env cc = Inr v"
    and comm: "\<And>b. forget_base (g v b) = g v (forget_base b)"
  shows "node_reads env inc ok put [l] (on_base (g v))"
proof (rule reads_directive [OF line d(1) _ d(3,4)])
  show "dir_set d = Set (\<lambda>env cc. rbind (get env cc) (\<lambda>x. on_context (g x) cc))" using d(2) by (simp add: set_context_def)
  show "dir_check d cc = Inr ()" if "cc_bits cc = name # args" for cc
    using that d by (simp add: dir_check_def check_arguments_def Let_def)
  show "\<exists>y. rbind (get env cc) (\<lambda>x. on_context (g x) cc) = Inr (cc\<lparr>cc_conf := put y\<rparr>) \<and> forget y = on_base (g v) (forget x)"
    if "node cc" "cc_bits cc = name # args" "cc_conf cc = put x" for cc x
    using get [OF that(2)] on_node [OF that(1,3)] forget_on_base [where g = "g v", OF comm] by auto
qed

text \<open>The parameters: their location is the line's.\<close>

lemma reads_parameter:
  assumes line: "split l = Some (step, Inr [name, a, b])"
    and d: "find_directive name = Some d" "dir_set d = set_context get_parameter_words (\<lambda>x. upd (put_parameter x))"
      "dir_new_level d = 0" "dir_levels d AND L = L" "dir_kind d = ParameterDirective" "dir_min d = 2" "dir_max d = 2"
    and valid: "valid_name ''-'' (if a = ''--remove'' then b else a)"
    and comm: "\<And>x b. forget_base (upd (put_parameter x) b) =
      upd (put_parameter (fst x, map_option (pp_location_update (\<lambda>_. no_location)) (snd x))) (forget_base b)"
  shows "node_reads env inc ok put [l] (on_base (upd (put_parameter
    (if a = ''--remove'' then (b, None) else (a, Some \<lparr>pp_value = b, pp_location = no_location\<rparr>)))))"
proof (rule reads_directive [OF line d(1) _ d(3,4)])
  show "dir_set d = Set (\<lambda>env cc. rbind (get_parameter_words env cc) (\<lambda>x. on_context (upd (put_parameter x)) cc))"
    using d(2) by (simp add: set_context_def)
  show "dir_check d cc = Inr ()" if "cc_bits cc = [name, a, b]" for cc
    using that d valid
    by (cases "a = ''--remove''") (simp_all add: dir_check_def check_arguments_def check_parameter_def arg_def Let_def)
  show "\<exists>y. rbind (get_parameter_words env cc) (\<lambda>x. on_context (upd (put_parameter x)) cc) = Inr (cc\<lparr>cc_conf := put y\<rparr>) \<and>
      forget y = on_base (upd (put_parameter
        (if a = ''--remove'' then (b, None) else (a, Some \<lparr>pp_value = b, pp_location = no_location\<rparr>)))) (forget x)"
    if "node cc" "cc_bits cc = [name, a, b]" "cc_conf cc = put x" for cc x
  proof -
    let ?p = "if a = ''--remove'' then (b, None) else (a, Some \<lparr>pp_value = b, pp_location = cc_location cc\<rparr>)"
    have "get_parameter_words env cc = Inr ?p" using that(2) by (simp add: get_parameter_words_def arg_def)
    moreover have "forget (on_base (upd (put_parameter ?p)) x) = on_base (upd (put_parameter
        (if a = ''--remove'' then (b, None) else (a, Some \<lparr>pp_value = b, pp_location = no_location\<rparr>)))) (forget x)"
      using comm [of ?p] by (auto simp: forget_def on_base_comp comp_def)
    ultimately show ?thesis using on_node [OF that(1,3)] by auto
  qed
qed

end

text \<open>Forgetting locations commutes with setting and removing parameters.\<close>

lemma forget_put_parameter:
  "forget_parameters (put_parameter x m) =
     put_parameter (fst x, map_option (pp_location_update (\<lambda>_. no_location)) (snd x)) (forget_parameters m)"
proof -
  have "om_map_values g (om_put lt k v m) = om_put lt k (g v) (om_map_values g m)" for g :: "policy_parameter \<Rightarrow> policy_parameter" and lt k v
    by (induction m) (auto simp: om_map_values_def)
  moreover have "om_map_values g (om_erase lt k m) = om_erase lt k (om_map_values g m)" for g :: "policy_parameter \<Rightarrow> policy_parameter" and lt k
    by (induction m) (auto simp: om_map_values_def)
  ultimately show ?thesis by (auto simp: put_parameter_def forget_parameters_def split: option.splits)
qed


section \<open>The words of the lines\<close>

lemma directive_names_distinct: "distinct (map dir_name directives)"
  by (simp add: directives_def store_directives_def global_directives_def graph_directives_def policy_directives_def
      inheritable_directives_def host_directives_def volume_directives_def D_def inheritable_def host_only_def volume_only_def color_directive_def)

lemma find_distinct: "distinct (map f xs) \<Longrightarrow> x \<in> set xs \<Longrightarrow> find (\<lambda>y. f y = f x) xs = Some x"
  by (induction xs) (auto simp: image_iff)

lemma find_directive_named: "d \<in> set directives \<Longrightarrow> dir_name d = n \<Longrightarrow> find_directive n = Some d"
  using find_distinct [OF directive_names_distinct] by (auto simp: find_directive_def)

lemma quote_plain: "\<not> need_quote w \<Longrightarrow> quote w = w"
  by (simp add: quote_def)

lemma split_setting:
  assumes "\<not> need_quote name"
  shows "split (indent step @ name @ [SP] @ quote_list (w # ws)) = Some (step, Inr (name # w # ws))"
  using split_written_line [of step name "w # ws"] quote_plain [OF assms] by simp

lemma split_words_setting:
  assumes "\<not> need_quote name"
  shows "split (indent step @ name @ concat (map (\<lambda>w. SP # quote w) ws)) = Some (step, Inr (name # ws))"
proof -
  have "quote w @ concat (map (\<lambda>w. SP # quote w) ws) = quote_list (w # ws)" for w ws
    by (induction ws arbitrary: w) auto
  from this [of name ws] quote_plain [OF assms] split_written_line [of step name ws] show ?thesis by simp
qed

definition name_char :: "char \<Rightarrow> bool" where
  "name_char c \<longleftrightarrow> c_isalnum c \<or> c \<in> {CHR ''-'', CHR '':''}"

lemma name_chars_plain: "s \<noteq> [] \<Longrightarrow> list_all name_char s \<Longrightarrow> \<not> need_quote s"
  by (cases s) (auto simp: need_quote_def list_all_iff list_ex_iff name_char_def c_isspace_def c_isalnum_def c_isdigit_def c_isalpha_def c_isupper_def c_islower_def)

lemma show_int_name: "list_all name_char (show_int n)"
  using show_int_chars by (fastforce simp: list_all_iff name_char_def c_isalnum_def)

lemma interval_plain:
  assumes "0 \<le> n"
  shows "\<not> need_quote (formatTimeInterval n)"
proof -
  obtain ch u where "(ch, u) \<in> set time_units" "formatTimeInterval n = show_int (n div u) @ [ch]"
    using formatTimeInterval_unit [OF assms] by metis
  moreover from this have "name_char ch" by (auto simp: time_units_def name_char_def c_isalnum_def c_isalpha_def c_islower_def)
  ultimately show ?thesis using show_int_name by (intro name_chars_plain) auto
qed

lemma day_name:
  assumes "0 \<le> t"
  shows "list_all name_char (formatTimeOfDay t) \<and> formatTimeOfDay t \<noteq> [] \<and> CHR ''-'' \<notin> set (formatTimeOfDay t)"
proof -
  have pad: "\<forall>c \<in> set (show_pad 2 (x mod 60)). c_isdigit c" for x :: int
    using show_pad2 [of "x mod 60"] mod60_range(1,3) [of x] by auto
  have int: "\<forall>c \<in> set (show_int (t div 3600)). c_isdigit c"
    using assms by (auto simp: show_int_def pos_imp_zdiv_neg_iff dest: show_nat_digits)
  have "\<forall>c \<in> set (formatTimeOfDay t). c_isdigit c \<or> c = CHR '':''"
    using pad int assms by (auto simp: formatTimeOfDay_def pos_imp_zdiv_nonneg_iff)
  moreover have "\<not> c_isdigit CHR ''-''" by (simp add: c_isdigit_def)
  ultimately show ?thesis by (auto simp: list_all_iff name_char_def c_isalnum_def formatTimeOfDay_def)
qed

lemma day_plain: "0 \<le> t \<Longrightarrow> 0 \<le> u \<Longrightarrow> \<not> need_quote (formatTimeOfDay t @ ''-'' @ formatTimeOfDay u)"
  using day_name [of t] day_name [of u] by (intro name_chars_plain) (auto simp: name_char_def)


section \<open>What the writer prints is what the getters read\<close>

lemma get_interval_format: "int_range n \<Longrightarrow> cc_bits cc = [name, formatTimeInterval n] \<Longrightarrow> get_interval env cc = Inr n"
  using parseTimeInterval_format [of n INT_MAX]
  by (simp add: get_interval_def arg_def int_range_def limits to_int32_def)

lemma get_string_word: "cc_bits cc = [name, w] \<Longrightarrow> get_string env cc = Inr w"
  by (simp add: get_string_def arg_def)

lemma get_words_list: "cc_bits cc = name # ws \<Longrightarrow> get_words env cc = Inr ws"
  by (simp add: get_words_def)

lemma get_boolean_show: "cc_bits cc = [name, show_bool b] \<Longrightarrow> get_boolean n env cc = Inr b"
  by (simp add: get_boolean_def arg_def show_bool_def)

lemma get_backup_time_format:
  assumes "0 \<le> e" "e \<le> l" "l \<le> 86400" "l \<noteq> 0" "cc_bits cc = [name, formatTimeOfDay e @ ''-'' @ formatTimeOfDay l]"
  shows "get_backup_time env cc = Inr (e, l)"
proof -
  have d: "CHR ''-'' \<notin> set (formatTimeOfDay e)" using day_name [of e] assms(1) by blast
  then have "takeWhile (\<lambda>c. c \<noteq> CHR ''-'') (formatTimeOfDay e @ ''-'' @ formatTimeOfDay l) = formatTimeOfDay e"
    "dropWhile (\<lambda>c. c \<noteq> CHR ''-'') (formatTimeOfDay e @ ''-'' @ formatTimeOfDay l) = ''-'' @ formatTimeOfDay l"
    by (auto simp: takeWhile_append dropWhile_append)
  then show ?thesis
    using assms parseTimeOfDay_format [of e] parseTimeOfDay_format [of l]
    by (simp add: get_backup_time_def arg_def)
qed

lemma get_host_check_written: "host_check_ok hc \<Longrightarrow> cc_bits cc = name # hc \<Longrightarrow> get_host_check env cc = Inr hc"
  by (cases hc) (auto simp: get_host_check_def arg_def host_check_ok_def)


section \<open>The inheritable settings of a node\<close>

text \<open>The parts that follow one another, as changes of the inheritable settings.\<close>

lemma base_append:
  "node_reads env inc ok put xs (on_base f) \<Longrightarrow> node_reads env inc ok put ys (on_base g) \<Longrightarrow>
   node_reads env inc ok put (xs @ ys) (on_base (\<lambda>b. g (f b)))"
  using node_reads_append [of env inc ok put xs "on_base f" ys "on_base g"] by (simp add: on_base_comp comp_def)

lemma base_comments:
  "list_all (\<lambda>d. d = [] \<or> hd d = CHR ''#'') ds \<Longrightarrow> node_reads env inc ok put (describes verbose step ds) (on_base (\<lambda>b. b))"
  using node_reads_describes [of ds] by (simp add: on_base_id(2) [abs_def])

lemma base_if:
  "(c \<Longrightarrow> node_reads env inc ok put xs (on_base f)) \<Longrightarrow>
   node_reads env inc ok put (if c then xs else []) (on_base (if c then f else (\<lambda>b. b)))"
  by (simp add: on_base_id(2) [abs_def])

text \<open>The effect of a list of parameters.\<close>

definition put_parameters :: "parameters option \<Rightarrow> parameters \<Rightarrow> parameters \<Rightarrow> parameters" where
  "put_parameters parent ps m =
     (let m = foldl (\<lambda>m (n, p). put_parameter (n, Some \<lparr>pp_value = pp_value p, pp_location = no_location\<rparr>) m) m ps
      in case parent of
           None \<Rightarrow> m
         | Some qs \<Rightarrow> foldl (\<lambda>m (n, _). if om_find str_less n ps \<noteq> None then m else put_parameter (n, None) m) m qs)"

definition parameters_writable :: "parameters \<Rightarrow> bool" where
  "parameters_writable ps \<longleftrightarrow> list_all (\<lambda>(n, _). valid_name ''-'' n) ps"

lemma valid_not_remove: "valid_name ''-'' n \<Longrightarrow> n \<noteq> ''--remove''"
  by (auto simp: valid_name_def)

context written_node
begin

lemma reads_inheritable:
  assumes d: "inheritable name mn mx (set_context get g) \<in> set directives" and L: "L \<in> {LEVEL_TOP, LEVEL_HOST, LEVEL_VOLUME}"
    and line: "split l = Some (step, Inr (name # args))" "mn \<le> int (length args)" "int (length args) \<le> mx"
    and get: "\<And>cc. cc_bits cc = name # args \<Longrightarrow> get env cc = Inr v"
    and comm: "\<And>b. forget_base (g v b) = g v (forget_base b)"
  shows "node_reads env inc ok put [l] (on_base (g v))"
proof (rule reads_context [OF line(1), where d = "inheritable name mn mx (set_context get g)" and get = get])
  show "find_directive name = Some (inheritable name mn mx (set_context get g))"
    by (rule find_directive_named [OF d]) (simp add: inheritable_def D_def)
  show "dir_levels (inheritable name mn mx (set_context get g)) AND L = L"
    using L by (auto simp: inheritable_def D_def LEVEL_TOP_def LEVEL_HOST_def LEVEL_VOLUME_def)
qed (use line get comm in \<open>simp_all add: inheritable_def D_def\<close>)

lemma reads_value:
  assumes d: "inheritable name 1 1 (set_context get g) \<in> set directives" and L: "L \<in> {LEVEL_TOP, LEVEL_HOST, LEVEL_VOLUME}"
    and plain: "\<not> need_quote name"
    and get: "\<And>cc. cc_bits cc = [name, w] \<Longrightarrow> get env cc = Inr v"
    and comm: "\<And>b. forget_base (g v b) = g v (forget_base b)"
  shows "node_reads env inc ok put (setting step name (quote w)) (on_base (g v))"
  unfolding setting_def
  by (rule reads_inheritable [OF d L, where args = "[w]"]) (use split_setting [OF plain, of step w "[]"] get comm in simp_all)

lemma reads_words:
  assumes d: "inheritable name mn mx (set_context get_words g) \<in> set directives" and L: "L \<in> {LEVEL_TOP, LEVEL_HOST, LEVEL_VOLUME}"
    and plain: "\<not> need_quote name" and n: "mn \<le> int (length ws)" "int (length ws) \<le> mx"
    and comm: "\<And>b. forget_base (g ws b) = g ws (forget_base b)"
  shows "node_reads env inc ok put (words_setting step name ws) (on_base (g ws))"
  unfolding words_setting_def
  by (rule reads_inheritable [OF d L, where args = ws]) (use split_words_setting [OF plain, of step ws] n comm in \<open>simp_all add: get_words_def\<close>)

end


context written_node
begin

lemma reads_parameter_line:
  assumes d: "(inheritable name 2 2 (set_context get_parameter_words (\<lambda>x. upd (put_parameter x))))\<lparr>dir_kind := ParameterDirective\<rparr> \<in> set directives"
    and L: "L \<in> {LEVEL_TOP, LEVEL_HOST, LEVEL_VOLUME}" and plain: "\<not> need_quote name"
    and comm: "\<And>x b. forget_base (upd (put_parameter x) b) =
      upd (put_parameter (fst x, map_option (pp_location_update (\<lambda>_. no_location)) (snd x))) (forget_base b)"
    and valid: "valid_name ''-'' (if a = ''--remove'' then b else a)"
  shows "node_reads env inc ok put (setting step name (quote a @ [SP] @ quote b)) (on_base (upd (put_parameter
    (if a = ''--remove'' then (b, None) else (a, Some \<lparr>pp_value = b, pp_location = no_location\<rparr>)))))"
proof -
  let ?d = "(inheritable name 2 2 (set_context get_parameter_words (\<lambda>x. upd (put_parameter x))))\<lparr>dir_kind := ParameterDirective\<rparr>"
  have f: "find_directive name = Some ?d" by (rule find_directive_named [OF d]) (simp add: inheritable_def D_def)
  have l: "dir_levels ?d AND L = L" using L by (auto simp: inheritable_def D_def LEVEL_TOP_def LEVEL_HOST_def LEVEL_VOLUME_def)
  show ?thesis
    unfolding setting_def
    by (rule reads_parameter [where upd = upd, OF _ f _ _ l _ _ _ valid comm])
      (use split_setting [OF plain, of step a "[b]"] in \<open>simp_all add: inheritable_def D_def\<close>)
qed

lemma reads_parameters:
  assumes d: "(inheritable name 2 2 (set_context get_parameter_words (\<lambda>x. upd (put_parameter x))))\<lparr>dir_kind := ParameterDirective\<rparr> \<in> set directives"
    and L: "L \<in> {LEVEL_TOP, LEVEL_HOST, LEVEL_VOLUME}" and plain: "\<not> need_quote name"
    and comm: "\<And>x b. forget_base (upd (put_parameter x) b) =
      upd (put_parameter (fst x, map_option (pp_location_update (\<lambda>_. no_location)) (snd x))) (forget_base b)"
    and upd: "\<And>f g b. upd g (upd f b) = upd (g \<circ> f) b" "\<And>b. upd (\<lambda>m. m) b = b"
    and valid: "parameters_writable ps" "\<And>qs. parent = Some qs \<Longrightarrow> parameters_writable qs"
  shows "node_reads env inc ok put (write_parameters step name parent ps) (on_base (upd (put_parameters parent ps)))"
proof -
  note line = reads_parameter_line [where upd = upd, OF d L plain comm]
  have u: "upd (\<lambda>m. m) = (\<lambda>b. b)" using upd(2) by (rule ext)
  have own: "node_reads env inc ok put (concat (map (\<lambda>(n, p). setting step name (quote n @ [SP] @ quote (pp_value p))) ps))
      (on_base (upd (\<lambda>m. foldl (\<lambda>m (n, p). put_parameter (n, Some \<lparr>pp_value = pp_value p, pp_location = no_location\<rparr>) m) m ps)))"
    using valid(1)
  proof (induction ps)
    case Nil
    then show ?case using upd(2) by (simp add: on_base_id(2) [abs_def])
  next
    case (Cons x ps)
    obtain n p where x: "x = (n, p)" by (cases x)
    have v: "valid_name ''-'' n" "n \<noteq> ''--remove''" using Cons.prems valid_not_remove [of n] by (auto simp: x parameters_writable_def)
    have "node_reads env inc ok put (setting step name (quote n @ [SP] @ quote (pp_value p)))
        (on_base (upd (put_parameter (n, Some \<lparr>pp_value = pp_value p, pp_location = no_location\<rparr>))))"
      using line [of n "pp_value p"] v by simp
    from base_append [OF this Cons.IH] Cons.prems show ?case by (simp add: x upd(1) comp_def parameters_writable_def)
  qed
  have gone: "node_reads env inc ok put
      (concat (map (\<lambda>(n, _). if om_find str_less n ps \<noteq> None then [] else setting step name (''--remove '' @ quote n)) qs))
      (on_base (upd (\<lambda>m. foldl (\<lambda>m (n, _). if om_find str_less n ps \<noteq> None then m else put_parameter (n, None) m) m qs)))"
    if "parameters_writable qs" for qs
    using that
  proof (induction qs)
    case Nil
    then show ?case using upd(2) by (simp add: on_base_id(2) [abs_def])
  next
    case (Cons x qs)
    obtain n p where x: "x = (n, p)" by (cases x)
    have v: "valid_name ''-'' n" using Cons.prems by (simp add: x parameters_writable_def)
    have r: "\<not> need_quote ''--remove''" by (rule name_chars_plain) code_simp+
    have "node_reads env inc ok put (setting step name (''--remove '' @ quote n)) (on_base (upd (put_parameter (n, None))))"
      using line [of "''--remove''" n] v quote_plain [OF r] by simp
    then have "node_reads env inc ok put (if om_find str_less n ps \<noteq> None then [] else setting step name (''--remove '' @ quote n))
        (on_base (upd (if om_find str_less n ps \<noteq> None then \<lambda>m. m else put_parameter (n, None))))"
      by (simp add: u on_base_id(2) [abs_def])
    from base_append [OF this Cons.IH] Cons.prems show ?case
      by (cases "om_find str_less n ps") (simp_all add: x upd comp_def parameters_writable_def)
  qed
  show ?thesis
  proof (cases parent)
    case None
    then show ?thesis using own by (simp add: write_parameters_def put_parameters_def [abs_def])
  next
    case (Some qs)
    from base_append [OF own gone [OF valid(2) [OF Some]]] show ?thesis
      by (simp add: write_parameters_def put_parameters_def [abs_def] Some upd(1) comp_def)
  qed
qed

lemma reads_hook:
  assumes d: "inheritable name 0 INT_MAX (set_context get_words g) \<in> set directives" and L: "L \<in> {LEVEL_TOP, LEVEL_HOST, LEVEL_VOLUME}"
    and plain: "\<not> need_quote name" and n: "int (length hook) \<le> INT_MAX"
    and comm: "\<And>b. forget_base (g hook b) = g hook (forget_base b)"
  shows "node_reads env inc ok put (write_hook step name parent hook)
    (on_base (if hook \<noteq> [] \<or> (case parent of None \<Rightarrow> False | Some h \<Rightarrow> hook \<noteq> h) then g hook else (\<lambda>b. b)))"
proof -
  have "node_reads env inc ok put [indent step @ name @ (if hook \<noteq> [] then [SP] else []) @ quote_list hook] (on_base (g hook))"
    by (rule reads_inheritable [OF d L, where args = hook])
      (use split_setting [OF plain, of step] split_written_line [of step name "[]"] quote_plain [OF plain] n comm in
        \<open>cases hook; simp add: get_words_def\<close>)+
  from base_if [OF this] show ?thesis by (simp add: write_hook_def)
qed

end


lemma on_base_eq: "node_reads env inc ok put ls (on_base f) \<Longrightarrow> f = g \<Longrightarrow> node_reads env inc ok put ls (on_base g)"
  by simp

lemma base_skip:
  assumes "list_all (\<lambda>d. d = [] \<or> hd d = CHR ''#'') ds" "node_reads env inc ok put ys (on_base g)"
  shows "node_reads env inc ok put (describes verbose step ds @ ys) (on_base g)"
  using base_append [OF base_comments [OF assms(1)] assms(2)] by simp

lemmas directive_lists = directives_def policy_directives_def inheritable_directives_def

text \<open>The settings that can be written such that they can be read.\<close>

definition base_writable :: "conf_base \<Rightarrow> bool" where
  "base_writable b \<longleftrightarrow>
     int_range (maxAge b) \<and> int_range (backupJobTimeout b) \<and> int_range (rsyncIOTimeout b) \<and> int_range (sshTimeout b) \<and>
     int_range (hookTimeout b) \<and> \<not> need_quote (backupPolicy b) \<and> \<not> need_quote (prunePolicy b) \<and> hd (prunePolicy b) \<noteq> CHR ''/'' \<and>
     parameters_writable (backupParameters b) \<and> parameters_writable (pruneParameters b) \<and>
     int (length (preVolume b)) \<le> INT_MAX \<and> int (length (postVolume b)) \<le> INT_MAX \<and>
     rsyncBaseOptions b \<noteq> [] \<and> int (length (rsyncBaseOptions b)) \<le> INT_MAX \<and> int (length (rsyncExtraOptions b)) \<le> INT_MAX \<and>
     0 \<le> earliest b \<and> earliest b \<le> latest b \<and> latest b \<le> 86400 \<and> latest b \<noteq> 0"

context written_node
begin

lemma reads_prune_policy:
  assumes L: "L \<in> {LEVEL_TOP, LEVEL_HOST, LEVEL_VOLUME}" and p: "\<not> need_quote p" "hd p \<noteq> CHR ''/''"
  shows "node_reads env inc ok put (setting step ''prune-policy'' p) (on_base (prunePolicy_update (\<lambda>_. p)))"
proof -
  let ?d = "inheritable ''prune-policy'' 1 1 (set_context (\<lambda>env cc. rbind (arg 1 cc) (\<lambda>s. Inr (s, cc_location cc))) put_prune_policy)"
  have n: "\<not> need_quote ''prune-policy''" by (rule name_chars_plain) code_simp+
  have f: "find_directive ''prune-policy'' = Some ?d"
    by (rule find_directive_named) (simp_all add: directive_lists inheritable_def D_def)
  have l: "dir_levels ?d AND L = L" using L by (auto simp: inheritable_def D_def LEVEL_TOP_def LEVEL_HOST_def LEVEL_VOLUME_def)
  show ?thesis
    unfolding setting_def
  proof (rule reads_directive [OF _ f _ _ l])
    show "split (indent step @ ''prune-policy'' @ [SP] @ p) = Some (step, Inr [''prune-policy'', p])"
      using split_setting [OF n, of step p "[]"] quote_plain [OF p(1)] by simp
    show "dir_set ?d = Set (\<lambda>env cc. rbind (rbind (arg 1 cc) (\<lambda>s. Inr (s, cc_location cc))) (\<lambda>x. on_context (put_prune_policy x) cc))"
      by (simp add: inheritable_def D_def set_context_def)
    show "dir_check ?d cc = Inr ()" if "cc_bits cc = [''prune-policy'', p]" for cc
      using that by (simp add: dir_check_def check_arguments_def inheritable_def D_def)
    show "\<exists>y. rbind (rbind (arg 1 cc) (\<lambda>s. Inr (s, cc_location cc))) (\<lambda>x. on_context (put_prune_policy x) cc) = Inr (cc\<lparr>cc_conf := put y\<rparr>) \<and>
        forget y = on_base (prunePolicy_update (\<lambda>_. p)) (forget x)"
      if "node cc" "cc_bits cc = [''prune-policy'', p]" "cc_conf cc = put x" for cc x
    proof -
      have "put_prune_policy (p, loc) = prunePolicy_update (\<lambda>_. p)" for loc
        using p(2) by (auto simp: put_prune_policy_def fun_eq_iff)
      then show ?thesis
        using that on_node [OF that(1,3)]
          forget_on_base [of "prunePolicy_update (\<lambda>_. p)" x]
        by (intro exI [of _ "on_base (prunePolicy_update (\<lambda>_. p)) x"]) (simp add: arg_def forget_base_def)
    qed
  qed (simp add: inheritable_def D_def)
qed

lemma reads_policies:
  assumes L: "L \<in> {LEVEL_TOP, LEVEL_HOST, LEVEL_VOLUME}" and b: "base_writable b" "\<And>p. parent = Some p \<Longrightarrow> base_writable p"
  shows "node_reads env inc ok put (write_policies verbose step what parent b) (on_base (\<lambda>s.
    s\<lparr>maxAge := maxAge b, backupPolicy := backupPolicy b, prunePolicy := prunePolicy b,
      backupParameters := put_parameters (map_option backupParameters parent) (backupParameters b) (backupParameters s),
      pruneParameters := put_parameters (map_option pruneParameters parent) (pruneParameters b) (pruneParameters s)\<rparr>))"
proof -
  have plain: "\<not> need_quote ''max-age''" "\<not> need_quote ''backup-policy''" "\<not> need_quote ''backup-parameter''" "\<not> need_quote ''prune-parameter''"
    by (rule name_chars_plain; code_simp)+
  have age: "node_reads env inc ok put (setting step ''max-age'' (formatTimeInterval (maxAge b))) (on_base (maxAge_update (\<lambda>_. maxAge b)))"
    using reads_value [of "''max-age''" get_interval "\<lambda>x. maxAge_update (\<lambda>_. x)" "formatTimeInterval (maxAge b)" env "maxAge b" inc]
      L plain b(1) get_interval_format quote_plain [OF interval_plain [of "maxAge b"]]
    by (simp add: directive_lists base_writable_def int_range_def forget_base_def)
  have policy: "node_reads env inc ok put (setting step ''backup-policy'' (backupPolicy b)) (on_base (backupPolicy_update (\<lambda>_. backupPolicy b)))"
    using reads_value [of "''backup-policy''" get_string "\<lambda>x. backupPolicy_update (\<lambda>_. x)" "backupPolicy b" env "backupPolicy b" inc]
      L plain b(1) get_string_word quote_plain [of "backupPolicy b"]
    by (simp add: directive_lists base_writable_def forget_base_def)
  have backup: "node_reads env inc ok put (write_parameters step ''backup-parameter'' (map_option backupParameters parent) (backupParameters b))
      (on_base (backupParameters_update (put_parameters (map_option backupParameters parent) (backupParameters b))))"
    by (rule reads_parameters) (use L plain b in \<open>auto simp: directive_lists base_writable_def forget_base_def forget_put_parameter comp_def\<close>)
  have prune: "node_reads env inc ok put (write_parameters step ''prune-parameter'' (map_option pruneParameters parent) (pruneParameters b))
      (on_base (pruneParameters_update (put_parameters (map_option pruneParameters parent) (pruneParameters b))))"
    by (rule reads_parameters) (use L plain b in \<open>auto simp: directive_lists base_writable_def forget_base_def forget_put_parameter comp_def\<close>)
  have prune_policy: "node_reads env inc ok put (setting step ''prune-policy'' (prunePolicy b)) (on_base (prunePolicy_update (\<lambda>_. prunePolicy b)))"
    by (rule reads_prune_policy [OF L]) (use b(1) in \<open>auto simp: base_writable_def\<close>)
  show ?thesis
    unfolding write_policies_def Let_def
    by (rule on_base_eq, (rule base_skip, simp)+, rule base_append, rule age, (rule base_skip, simp)+, rule base_append, rule policy,
        (rule base_skip, simp)+, rule base_append, rule backup, (rule base_skip, simp)+, rule base_append, rule prune_policy,
        (rule base_skip, simp)+, rule base_append, rule prune, rule base_comments, simp, simp add: fun_eq_iff)
qed

end


context written_node
begin

lemma reads_interval:
  assumes d: "inheritable name 1 1 (set_context get_interval g) \<in> set directives" and L: "L \<in> {LEVEL_TOP, LEVEL_HOST, LEVEL_VOLUME}"
    and plain: "\<not> need_quote name" and n: "int_range n"
    and comm: "\<And>b. forget_base (g n b) = g n (forget_base b)"
  shows "node_reads env inc ok put (setting step name (formatTimeInterval n)) (on_base (g n))"
proof -
  have "node_reads env inc ok put (setting step name (quote (formatTimeInterval n))) (on_base (g n))"
    by (rule reads_value [OF d L plain get_interval_format [OF n] comm])
  then show ?thesis using quote_plain [OF interval_plain [of n]] n by (simp add: int_range_def)
qed

lemma reads_hooks:
  assumes L: "L \<in> {LEVEL_TOP, LEVEL_HOST, LEVEL_VOLUME}" and b: "base_writable b"
  shows "node_reads env inc ok put (write_hooks verbose step parent b) (on_base (\<lambda>s.
    s\<lparr>preVolume := (if preVolume b \<noteq> [] \<or> (case parent of None \<Rightarrow> False | Some p \<Rightarrow> preVolume b \<noteq> preVolume p) then preVolume b else preVolume s),
      postVolume := (if postVolume b \<noteq> [] \<or> (case parent of None \<Rightarrow> False | Some p \<Rightarrow> postVolume b \<noteq> postVolume p) then postVolume b else postVolume s),
      backupJobTimeout := (if backupJobTimeout b \<noteq> 0 then backupJobTimeout b else backupJobTimeout s),
      rsyncIOTimeout := (if rsyncIOTimeout b \<noteq> 0 then rsyncIOTimeout b else rsyncIOTimeout s),
      sshTimeout := sshTimeout b, hookTimeout := (if hookTimeout b \<noteq> 0 then hookTimeout b else hookTimeout s)\<rparr>))"
proof -
  have plain: "\<not> need_quote ''pre-volume-hook''" "\<not> need_quote ''post-volume-hook''" "\<not> need_quote ''backup-job-timeout''"
    "\<not> need_quote ''rsync-io-timeout''" "\<not> need_quote ''ssh-timeout''" "\<not> need_quote ''hook-timeout''"
    by (rule name_chars_plain; code_simp)+
  have pre: "node_reads env inc ok put (write_hook step ''pre-volume-hook'' (map_option preVolume parent) (preVolume b))
      (on_base (if preVolume b \<noteq> [] \<or> (case map_option preVolume parent of None \<Rightarrow> False | Some h \<Rightarrow> preVolume b \<noteq> h)
        then preVolume_update (\<lambda>_. preVolume b) else (\<lambda>b. b)))"
    by (rule reads_hook [where g = "\<lambda>x. preVolume_update (\<lambda>_. x)"])
      (use L plain b in \<open>simp_all add: directive_lists base_writable_def forget_base_def\<close>)
  have post: "node_reads env inc ok put (write_hook step ''post-volume-hook'' (map_option postVolume parent) (postVolume b))
      (on_base (if postVolume b \<noteq> [] \<or> (case map_option postVolume parent of None \<Rightarrow> False | Some h \<Rightarrow> postVolume b \<noteq> h)
        then postVolume_update (\<lambda>_. postVolume b) else (\<lambda>b. b)))"
    by (rule reads_hook [where g = "\<lambda>x. postVolume_update (\<lambda>_. x)"])
      (use L plain b in \<open>simp_all add: directive_lists base_writable_def forget_base_def\<close>)
  have job: "node_reads env inc ok put (write_interval_unless_zero step ''backup-job-timeout'' (backupJobTimeout b))
      (on_base (if backupJobTimeout b \<noteq> 0 then backupJobTimeout_update (\<lambda>_. backupJobTimeout b) else (\<lambda>b. b)))"
    unfolding write_interval_unless_zero_def
    by (rule base_if, rule reads_interval [where g = "\<lambda>x. backupJobTimeout_update (\<lambda>_. x)"])
      (use L plain b in \<open>simp_all add: directive_lists base_writable_def forget_base_def\<close>)
  have io: "node_reads env inc ok put (write_interval_unless_zero step ''rsync-io-timeout'' (rsyncIOTimeout b))
      (on_base (if rsyncIOTimeout b \<noteq> 0 then rsyncIOTimeout_update (\<lambda>_. rsyncIOTimeout b) else (\<lambda>b. b)))"
    unfolding write_interval_unless_zero_def
    by (rule base_if, rule reads_interval [where g = "\<lambda>x. rsyncIOTimeout_update (\<lambda>_. x)"])
      (use L plain b in \<open>simp_all add: directive_lists base_writable_def forget_base_def\<close>)
  have ssh: "node_reads env inc ok put (setting step ''ssh-timeout'' (formatTimeInterval (sshTimeout b)))
      (on_base (sshTimeout_update (\<lambda>_. sshTimeout b)))"
    by (rule reads_interval [where g = "\<lambda>x. sshTimeout_update (\<lambda>_. x)"])
      (use L plain b in \<open>simp_all add: directive_lists base_writable_def forget_base_def\<close>)
  have hook: "node_reads env inc ok put (write_interval_unless_zero step ''hook-timeout'' (hookTimeout b))
      (on_base (if hookTimeout b \<noteq> 0 then hookTimeout_update (\<lambda>_. hookTimeout b) else (\<lambda>b. b)))"
    unfolding write_interval_unless_zero_def
    by (rule base_if, rule reads_interval [where g = "\<lambda>x. hookTimeout_update (\<lambda>_. x)"])
      (use L plain b in \<open>simp_all add: directive_lists base_writable_def forget_base_def\<close>)
  show ?thesis
    unfolding write_hooks_def Let_def
    by (rule on_base_eq, (rule base_skip, simp)+, rule base_append, rule pre, (rule base_skip, simp)+, rule base_append, rule post,
        (rule base_skip, simp)+, rule base_append, rule job, (rule base_skip, simp)+, rule base_append, rule io,
        (rule base_skip, simp)+, rule base_append, rule ssh, (rule base_skip, simp)+, rule base_append, rule hook,
        rule base_comments, simp, cases parent; simp add: fun_eq_iff)
qed

end


text \<open>The settings after the lines of \<open>b\<close> have been read, from settings \<open>s\<close>.\<close>

definition read_settings :: "conf_base option \<Rightarrow> conf_base \<Rightarrow> conf_base \<Rightarrow> conf_base" where
  "read_settings parent b s =
     b\<lparr>backupParameters := put_parameters (map_option backupParameters parent) (backupParameters b) (backupParameters s),
       pruneParameters := put_parameters (map_option pruneParameters parent) (pruneParameters b) (pruneParameters s),
       preVolume := (if preVolume b \<noteq> [] \<or> (case parent of None \<Rightarrow> False | Some p \<Rightarrow> preVolume b \<noteq> preVolume p) then preVolume b else preVolume s),
       postVolume := (if postVolume b \<noteq> [] \<or> (case parent of None \<Rightarrow> False | Some p \<Rightarrow> postVolume b \<noteq> postVolume p) then postVolume b else postVolume s),
       backupJobTimeout := (if backupJobTimeout b \<noteq> 0 then backupJobTimeout b else backupJobTimeout s),
       rsyncIOTimeout := (if rsyncIOTimeout b \<noteq> 0 then rsyncIOTimeout b else rsyncIOTimeout s),
       hookTimeout := (if hookTimeout b \<noteq> 0 then hookTimeout b else hookTimeout s),
       rsyncLinkDest := (if \<not> rsyncLinkDest b \<or> (case parent of None \<Rightarrow> False | Some p \<Rightarrow> rsyncLinkDest b \<noteq> rsyncLinkDest p)
         then rsyncLinkDest b else rsyncLinkDest s),
       rsyncRemote := (if rsyncRemote b \<noteq> [] then rsyncRemote b else rsyncRemote s),
       hostCheck := hostCheck s, devicePattern := devicePattern s, group := group s\<rparr>"

context written_node
begin

lemma reads_rsync:
  assumes L: "L \<in> {LEVEL_TOP, LEVEL_HOST, LEVEL_VOLUME}" and b: "base_writable b"
  shows "node_reads env inc ok put (write_rsync verbose step parent b) (on_base (\<lambda>s.
    s\<lparr>rsyncCommand := rsyncCommand b,
      rsyncLinkDest := (if \<not> rsyncLinkDest b \<or> (case parent of None \<Rightarrow> False | Some p \<Rightarrow> rsyncLinkDest b \<noteq> rsyncLinkDest p)
         then rsyncLinkDest b else rsyncLinkDest s),
      rsyncBaseOptions := rsyncBaseOptions b, rsyncExtraOptions := rsyncExtraOptions b,
      rsyncRemote := (if rsyncRemote b \<noteq> [] then rsyncRemote b else rsyncRemote s),
      earliest := earliest b, latest := latest b\<rparr>))"
proof -
  have plain: "\<not> need_quote ''rsync-command''" "\<not> need_quote ''rsync-link-dest''" "\<not> need_quote ''rsync-base-options''"
    "\<not> need_quote ''rsync-extra-options''" "\<not> need_quote ''rsync-remote''" "\<not> need_quote ''backup-time''"
    by (rule name_chars_plain; code_simp)+
  have bool: "\<not> need_quote (show_bool x)" for x by (cases x; rule name_chars_plain; simp add: show_bool_def name_char_def c_isalnum_def c_isalpha_def c_islower_def)
  have cmd: "node_reads env inc ok put (setting step ''rsync-command'' (quote (rsyncCommand b))) (on_base (rsyncCommand_update (\<lambda>_. rsyncCommand b)))"
    by (rule reads_value [where get = get_string and g = "\<lambda>x. rsyncCommand_update (\<lambda>_. x)", OF _ L _ get_string_word])
      (use plain in \<open>simp_all add: directive_lists forget_base_def\<close>)
  have "node_reads env inc ok put (setting step ''rsync-link-dest'' (quote (show_bool (rsyncLinkDest b))))
      (on_base (rsyncLinkDest_update (\<lambda>_. rsyncLinkDest b)))"
    by (rule reads_value [where get = "get_boolean ''rsync-link-dest''" and g = "\<lambda>x. rsyncLinkDest_update (\<lambda>_. x)", OF _ L _ get_boolean_show])
      (use plain in \<open>simp_all add: directive_lists forget_base_def\<close>)
  then have "node_reads env inc ok put (setting step ''rsync-link-dest'' (show_bool (rsyncLinkDest b)))
      (on_base (rsyncLinkDest_update (\<lambda>_. rsyncLinkDest b)))" using quote_plain [OF bool] by simp
  note link = this
  have base: "node_reads env inc ok put (words_setting step ''rsync-base-options'' (rsyncBaseOptions b))
      (on_base (rsyncBaseOptions_update (\<lambda>_. rsyncBaseOptions b)))"
    by (rule reads_words [where g = "\<lambda>x. rsyncBaseOptions_update (\<lambda>_. x)" and mn = 1 and mx = INT_MAX, OF _ L])
      (use plain b in \<open>simp_all add: directive_lists base_writable_def forget_base_def Suc_le_eq\<close>)
  have extra: "node_reads env inc ok put (words_setting step ''rsync-extra-options'' (rsyncExtraOptions b))
      (on_base (rsyncExtraOptions_update (\<lambda>_. rsyncExtraOptions b)))"
    by (rule reads_words [where g = "\<lambda>x. rsyncExtraOptions_update (\<lambda>_. x)" and mn = 0 and mx = INT_MAX, OF _ L])
      (use plain b in \<open>simp_all add: directive_lists base_writable_def forget_base_def\<close>)
  have "node_reads env inc ok put (setting step ''rsync-remote'' (quote (rsyncRemote b))) (on_base (rsyncRemote_update (\<lambda>_. rsyncRemote b)))"
    by (rule reads_value [where get = get_string and g = "\<lambda>x. rsyncRemote_update (\<lambda>_. x)", OF _ L _ get_string_word])
      (use plain in \<open>simp_all add: directive_lists forget_base_def\<close>)
  note remote = base_if [where c = "rsyncRemote b \<noteq> []", OF this]
  have "node_reads env inc ok put (setting step ''backup-time'' (quote (formatTimeOfDay (earliest b) @ ''-'' @ formatTimeOfDay (latest b))))
      (on_base ((\<lambda>(e, l) b. b\<lparr>earliest := e, latest := l\<rparr>) (earliest b, latest b)))"
    by (rule reads_value [where get = get_backup_time and g = "\<lambda>(e, l) b. b\<lparr>earliest := e, latest := l\<rparr>", OF _ L _ get_backup_time_format])
      (use plain b in \<open>simp_all add: directive_lists base_writable_def forget_base_def\<close>)
  then have time: "node_reads env inc ok put (setting step ''backup-time'' (formatTimeOfDay (earliest b) @ ''-'' @ formatTimeOfDay (latest b)))
      (on_base (\<lambda>s. s\<lparr>earliest := earliest b, latest := latest b\<rparr>))"
    using quote_plain [OF day_plain [of "earliest b" "latest b"]] b by (simp add: base_writable_def)
  have linkd: "node_reads env inc ok put
      (if \<not> rsyncLinkDest b \<or> (case parent of None \<Rightarrow> False | Some p \<Rightarrow> rsyncLinkDest b \<noteq> rsyncLinkDest p)
       then describes (verbose \<and> parent = None) step [''# rsync file linking'', ''# rsync-link-dest true|false''] @
         setting step ''rsync-link-dest'' (show_bool (rsyncLinkDest b)) @ describes (verbose \<and> parent = None) 0 [[]] else [])
      (on_base (if \<not> rsyncLinkDest b \<or> (case parent of None \<Rightarrow> False | Some p \<Rightarrow> rsyncLinkDest b \<noteq> rsyncLinkDest p)
         then rsyncLinkDest_update (\<lambda>_. rsyncLinkDest b) else (\<lambda>b. b)))"
    by (rule base_if, rule on_base_eq, (rule base_skip, simp)+, rule base_append, rule link, rule base_comments) simp_all
  show ?thesis
    unfolding write_rsync_def Let_def
    by (rule on_base_eq, (rule base_skip, simp)+, rule base_append, rule cmd, (rule base_skip, simp)+, rule base_append, rule linkd,
        (rule base_skip, simp)+, rule base_append, rule base, (rule base_skip, simp)+, rule base_append, rule extra,
        (rule base_skip, simp)+, rule base_append, rule remote, (rule base_skip, simp)+, rule base_append, rule time,
        rule base_comments, simp, cases parent; simp add: fun_eq_iff)
qed

lemma reads_ConfBase:
  assumes L: "L \<in> {LEVEL_TOP, LEVEL_HOST, LEVEL_VOLUME}" and b: "base_writable b" "\<And>p. parent = Some p \<Longrightarrow> base_writable p"
  shows "node_reads env inc ok put (ConfBase_write verbose step what parent b) (on_base (read_settings parent b))"
  unfolding ConfBase_write_def
  by (rule on_base_eq, rule base_append, rule reads_policies, rule L, rule b(1), erule b(2), rule base_append, rule reads_hooks [OF L b(1)], rule reads_rsync [OF L b(1)])
    (auto simp: fun_eq_iff read_settings_def intro!: conf_base.equality)

end


section \<open>The nodes of the configuration\<close>

lemma om_put_put: "\<not> lt k k \<Longrightarrow> om_put lt k v (om_put lt k u m) = om_put lt k v m"
  by (induction m) auto

lemma om_find_put_again: "\<not> lt k k \<Longrightarrow> om_find lt k (om_put lt k v m) = Some v"
  by (induction m) auto

lemma om_update_put: "\<not> lt k k \<Longrightarrow> om_update lt k f (om_put lt k v m) = om_put lt k (f v) m"
  by (simp add: om_update_def om_find_put_again om_put_put)

definition host_put :: "conf \<Rightarrow> string \<Rightarrow> host \<Rightarrow> conf" where
  "host_put c hn h = c\<lparr>c_hosts := om_put namelt hn h (c_hosts c)\<rparr>"

definition volume_put :: "conf \<Rightarrow> host \<Rightarrow> string \<Rightarrow> string \<Rightarrow> volume \<Rightarrow> conf" where
  "volume_put c h hn vn v = host_put c hn (h\<lparr>h_volumes := om_put namelt vn v (h_volumes h)\<rparr>)"

lemma update_host_put: "update_host hn f (host_put c hn h) = host_put c hn (f h)"
  by (simp add: update_host_def host_put_def om_update_put)

lemma update_volume_put: "update_volume hn vn f (volume_put c h hn vn v) = volume_put c h hn vn (f v)"
  by (simp add: update_volume_def volume_put_def update_host_put om_update_put)

text \<open>What the reader is in while it reads the lines of a volume, of a host, and of the configuration itself.\<close>

definition in_volume :: "string \<Rightarrow> string \<Rightarrow> string option \<Rightarrow> string option \<Rightarrow> indenter \<Rightarrow> bool" where
  "in_volume hn vn ho vo ind \<longleftrightarrow> ho = Some hn \<and> vo = Some vn \<and>
     ind \<in> {\<lparr>in_stack = [0, 4], in_new_level = LEVEL_VOLUME\<rparr>, \<lparr>in_stack = [0, 4, 8], in_new_level = 0\<rparr>}"

definition in_host :: "string \<Rightarrow> string option \<Rightarrow> string option \<Rightarrow> indenter \<Rightarrow> bool" where
  "in_host hn ho vo ind \<longleftrightarrow> ho = Some hn \<and>
     ind \<in> {\<lparr>in_stack = [0], in_new_level = LEVEL_HOST\<rparr>, \<lparr>in_stack = [0, 4], in_new_level = 0\<rparr>,
            \<lparr>in_stack = [0, 4], in_new_level = LEVEL_VOLUME\<rparr>, \<lparr>in_stack = [0, 4, 8], in_new_level = 0\<rparr>}"

definition at_top :: "string option \<Rightarrow> string option \<Rightarrow> indenter \<Rightarrow> bool" where
  "at_top ho vo ind \<longleftrightarrow> in_stack ind \<noteq> [] \<and> hd (in_stack ind) = 0"

definition volume_node :: "string \<Rightarrow> string \<Rightarrow> ctx \<Rightarrow> bool" where
  "volume_node hn vn cc \<longleftrightarrow> cc_context cc = VolumeNode \<and> cc_host cc = Some hn \<and> cc_volume cc = Some vn"

definition host_node :: "string \<Rightarrow> ctx \<Rightarrow> bool" where
  "host_node hn cc \<longleftrightarrow> cc_context cc = HostNode \<and> cc_host cc = Some hn \<and> cc_volume cc = None"

definition top_node :: "ctx \<Rightarrow> bool" where
  "top_node cc \<longleftrightarrow> cc_context cc = ConfNode"

lemmas level_defs = LEVEL_TOP_def LEVEL_HOST_def LEVEL_VOLUME_def

interpretation vol: written_node 8 LEVEL_VOLUME "in_volume hn vn" "volume_node hn vn" "volume_put c h hn vn" for hn vn c h
proof unfold_locales
  fix cc :: ctx and ind acc
  assume a: "in_volume hn vn (cc_host cc) (cc_volume cc) ind" "acc AND LEVEL_VOLUME = LEVEL_VOLUME"
  then have "indent_check acc 8 ind = (LEVEL_VOLUME, \<lparr>in_stack = [0, 4, 8], in_new_level = 0\<rparr>)"
    by (auto simp: in_volume_def indent_check_def level_defs and.commute)
  moreover have "select_level LEVEL_VOLUME cc = Inr (cc\<lparr>cc_context := VolumeNode\<rparr>)" by (simp add: select_level_def level_defs)
  ultimately show "\<exists>ind' cc'. indent_check acc 8 ind = (LEVEL_VOLUME, ind') \<and> select_level LEVEL_VOLUME cc = Inr cc' \<and>
      volume_node hn vn cc' \<and> cc_conf cc' = cc_conf cc \<and> cc_bits cc' = cc_bits cc \<and>
      in_volume hn vn (cc_host cc') (cc_volume cc') (indent_introduce 0 ind')"
    using a(1) by (intro exI) (auto simp: volume_node_def in_volume_def indent_introduce_def)
next
  fix cc :: ctx and x f
  assume "volume_node hn vn cc" "cc_conf cc = volume_put c h hn vn x"
  then show "on_context f cc = Inr (cc\<lparr>cc_conf := volume_put c h hn vn (on_base f x)\<rparr>)"
    by (simp add: volume_node_def on_context_def on_volume_def update_volume_put)
qed

interpretation hst: written_node 4 LEVEL_HOST "in_host hn" "host_node hn" "host_put c hn" for hn c
proof unfold_locales
  fix cc :: ctx and ind acc
  assume a: "in_host hn (cc_host cc) (cc_volume cc) ind" "acc AND LEVEL_HOST = LEVEL_HOST"
  then have "indent_check acc 4 ind = (LEVEL_HOST, \<lparr>in_stack = [0, 4], in_new_level = 0\<rparr>)"
    by (auto simp: in_host_def indent_check_def level_defs and.commute)
  moreover have "select_level LEVEL_HOST cc = Inr (cc\<lparr>cc_context := HostNode, cc_volume := None\<rparr>)" by (simp add: select_level_def level_defs)
  ultimately show "\<exists>ind' cc'. indent_check acc 4 ind = (LEVEL_HOST, ind') \<and> select_level LEVEL_HOST cc = Inr cc' \<and>
      host_node hn cc' \<and> cc_conf cc' = cc_conf cc \<and> cc_bits cc' = cc_bits cc \<and>
      in_host hn (cc_host cc') (cc_volume cc') (indent_introduce 0 ind')"
    using a(1) by (intro exI) (auto simp: host_node_def in_host_def indent_introduce_def)
next
  fix cc :: ctx and x f
  assume "host_node hn cc" "cc_conf cc = host_put c hn x"
  then show "on_context f cc = Inr (cc\<lparr>cc_conf := host_put c hn (on_base f x)\<rparr>)"
    by (simp add: host_node_def on_context_def on_host_def update_host_put)
qed

interpretation top: written_node 0 LEVEL_TOP at_top top_node "\<lambda>c :: conf. c"
proof unfold_locales
  fix cc :: ctx and ind acc
  assume a: "at_top (cc_host cc) (cc_volume cc) ind" "acc AND LEVEL_TOP = LEVEL_TOP"
  then obtain r where r: "in_stack ind = 0 # r" by (cases "in_stack ind") (auto simp: at_top_def)
  then have "indent_check acc 0 ind = (LEVEL_TOP, ind\<lparr>in_stack := [0], in_new_level := 0\<rparr>)"
    using a(2) by (simp add: indent_check_def level_defs and.commute)
  moreover have "select_level LEVEL_TOP cc = Inr (cc\<lparr>cc_context := ConfNode, cc_host := None, cc_volume := None\<rparr>)"
    by (simp add: select_level_def level_defs)
  ultimately show "\<exists>ind' cc'. indent_check acc 0 ind = (LEVEL_TOP, ind') \<and> select_level LEVEL_TOP cc = Inr cc' \<and>
      top_node cc' \<and> cc_conf cc' = cc_conf cc \<and> cc_bits cc' = cc_bits cc \<and>
      at_top (cc_host cc') (cc_volume cc') (indent_introduce 0 ind')"
    by (intro exI) (auto simp: top_node_def at_top_def indent_introduce_def)
next
  fix cc :: ctx and x :: conf and f
  assume "top_node cc" "cc_conf cc = x"
  then show "on_context f cc = Inr (cc\<lparr>cc_conf := on_base f x\<rparr>)"
    by (simp add: top_node_def on_context_def on_conf_def)
qed


section \<open>Parameters\<close>

lemma sorted_keys_ext:
  fixes m m' :: "(string \<times> 'v) list"
  assumes "string_order.sorted_keys m" "string_order.sorted_keys m'" "map_of m = map_of m'"
  shows "m = m'"
proof -
  have d: "distinct (map fst x)" if "string_order.sorted_keys x" for x :: "(string \<times> 'v) list"
    using that by (induction x) (auto dest: string_order.head_not_in_tail simp: string_order.sorted_keys_simps)
  have s: "sorted_wrt (<) (map fst x)" if "string_order.sorted_keys x" for x :: "(string \<times> 'v) list"
    using that by (simp add: string_order.sorted_keys_def sorted_wrt_map)
  have "set (map fst m) = set (map fst m')" using assms(3) by (metis dom_map_of_conv_image_fst list.set_map)
  then have keys: "map fst m = map fst m'" using strict_sorted_equal [OF s [OF assms(1)] s [OF assms(2)]] by simp
  have list: "x = map (\<lambda>k. (k, the (map_of x k))) (map fst x)" if "distinct (map fst x)" for x :: "(string \<times> 'v) list"
    using that by (auto simp: comp_def intro!: map_idI [symmetric])
  show ?thesis using list [OF d [OF assms(1)]] list [OF d [OF assms(2)]] keys assms(3) by metis
qed

lemma sorted_forget: "string_order.sorted_keys m \<Longrightarrow> string_order.sorted_keys (forget_parameters m)"
  by (simp add: string_order.sorted_keys_def forget_parameters_def om_map_values_def sorted_wrt_map split_beta comp_def)

text \<open>
  From the parent's parameters, the lines of \<open>ps\<close> make \<open>ps\<close>.
\<close>

lemma put_own_parameters:
  assumes "string_order.sorted_keys m"
  shows "string_order.sorted_keys (foldl (\<lambda>m (n, p). put_parameter (n, Some \<lparr>pp_value = pp_value p, pp_location = no_location\<rparr>) m) m ps) \<and>
    map_of (foldl (\<lambda>m (n, p). put_parameter (n, Some \<lparr>pp_value = pp_value p, pp_location = no_location\<rparr>) m) m ps) =
      map_of m ++ map_of (rev (forget_parameters ps))"
  using assms
proof (induction ps arbitrary: m)
  case (Cons x ps)
  obtain n p where x: "x = (n, p)" by (cases x)
  let ?p = "\<lparr>pp_value = pp_value p, pp_location = no_location\<rparr>"
  have "string_order.sorted_keys (om_put str_less n ?p m)" "map_of (om_put str_less n ?p m) = (map_of m)(n \<mapsto> ?p)"
    using string_order.sorted_om_put [OF Cons.prems] string_order.map_of_om_put [OF Cons.prems] by simp_all
  moreover have "pp_location_update (\<lambda>_. no_location) p = ?p" by simp
  ultimately show ?case
    using Cons.IH [of "om_put str_less n ?p m"] by (simp add: x put_parameter_def forget_parameters_def om_map_values_def map_add_def fun_eq_iff split: option.splits)
qed (simp add: forget_parameters_def om_map_values_def)

lemma erase_other_parameters:
  assumes "string_order.sorted_keys m"
  shows "string_order.sorted_keys (foldl (\<lambda>m (n, _). if om_find str_less n ps \<noteq> None then m else put_parameter (n, None) m) m qs) \<and>
    map_of (foldl (\<lambda>m (n, _). if om_find str_less n ps \<noteq> None then m else put_parameter (n, None) m) m qs) =
      (\<lambda>k. if k \<in> fst ` set qs \<and> om_find str_less k ps = None then None else map_of m k)"
  using assms
proof (induction qs arbitrary: m)
  case (Cons x qs)
  obtain n p where x: "x = (n, p)" by (cases x)
  have "string_order.sorted_keys (om_erase str_less n m)" "map_of (om_erase str_less n m) = (map_of m)(n := None)"
    using string_order.sorted_om_erase [OF Cons.prems] string_order.map_of_om_erase [OF Cons.prems] by simp_all
  then show ?case
    using Cons.IH [of m] Cons.IH [of "om_erase str_less n m"] Cons.prems by (auto simp: x put_parameter_def fun_eq_iff)
qed simp

lemma put_parameters_own:
  assumes "string_order.sorted_keys ps" "string_order.sorted_keys qs"
  shows "put_parameters (Some qs) ps (forget_parameters qs) = forget_parameters ps"
proof (rule sorted_keys_ext)
  let ?m = "foldl (\<lambda>m (n, p). put_parameter (n, Some \<lparr>pp_value = pp_value p, pp_location = no_location\<rparr>) m) (forget_parameters qs) ps"
  note own = put_own_parameters [OF sorted_forget [OF assms(2)], of ps]
  note other = erase_other_parameters [OF conjunct1 [OF own], of ps qs]
  show "string_order.sorted_keys (put_parameters (Some qs) ps (forget_parameters qs))"
    using other by (simp add: put_parameters_def Let_def)
  show "string_order.sorted_keys (forget_parameters ps)" by (rule sorted_forget [OF assms(1)])
  have d: "distinct (map fst ps)"
    using assms(1) by (induction ps) (auto dest: string_order.head_not_in_tail simp: string_order.sorted_keys_simps)
  have rev: "map_of (rev (forget_parameters ps)) = map_of (forget_parameters ps)"
    by (subst map_of_inject_set) (use d in \<open>simp_all add: forget_parameters_def distinct_rev flip: rev_map\<close>)
  have find: "om_find str_less k ps = map_of ps k" for k using string_order.om_find_map_of [OF assms(1)] by simp
  have forget: "map_of (forget_parameters m) k = map_option (pp_location_update (\<lambda>_. no_location)) (map_of m k)" for m k
    by (induction m) (auto simp: forget_parameters_def om_map_values_def)
  have "map_of (put_parameters (Some qs) ps (forget_parameters qs)) k = map_of (forget_parameters ps) k" for k
  proof -
    have "k \<in> fst ` set qs \<longleftrightarrow> map_of qs k \<noteq> None" by (simp add: map_of_eq_None_iff)
    moreover have "map_of (put_parameters (Some qs) ps (forget_parameters qs)) k =
        (if k \<in> fst ` set qs \<and> om_find str_less k ps = None then None else (map_of (forget_parameters qs) ++ map_of (forget_parameters ps)) k)"
      using conjunct2 [OF other] conjunct2 [OF own] rev unfolding put_parameters_def Let_def option.case by simp
    ultimately show ?thesis by (cases "map_of ps k"; cases "map_of qs k"; simp only: find forget map_add_def; simp)
  qed
  then show "map_of (put_parameters (Some qs) ps (forget_parameters qs)) = map_of (forget_parameters ps)" by blast
qed

end
