(* ===== verification/HostReadBack.thy ===== *)
theory HostReadBack
  imports ConfReadBack
begin

text \<open>
  A volume and a host that \<^verbatim>\<open>src/Volume.cc\<close> and \<^verbatim>\<open>src/Host.cc\<close> write are read back as they were, up to the
  locations of policy parameters and to what is not in the file (backups and their figures).
\<close>

section \<open>A volume\<close>

lemma forget_alt:
  "forget x = x\<lparr>backupParameters := forget_parameters (backupParameters x), pruneParameters := forget_parameters (pruneParameters x)\<rparr>"
  by (cases x) (simp add: forget_def on_base_def conf_base.defs forget_base_def)

lemma forget_volume [simp]:
  "forget (v\<lparr>v_exclude := x\<rparr>) = (forget v)\<lparr>v_exclude := x\<rparr>" "forget (v\<lparr>v_traverse := t\<rparr>) = (forget v)\<lparr>v_traverse := t\<rparr>"
  "forget (v\<lparr>v_checkFile := s\<rparr>) = (forget v)\<lparr>v_checkFile := s\<rparr>" "forget (v\<lparr>v_checkMounted := t\<rparr>) = (forget v)\<lparr>v_checkMounted := t\<rparr>"
  "v_exclude (forget v) = v_exclude v"
  by (simp_all add: forget_alt)

lemma volume_append:
  "node_reads env inc ok put xs f \<Longrightarrow> node_reads env inc ok put ys g \<Longrightarrow> node_reads env inc ok put (xs @ ys) (\<lambda>v. g (f v))"
  using node_reads_append [of env inc ok put xs f ys g] by (simp add: comp_def)

lemma volume_skip:
  "list_all (\<lambda>d. d = [] \<or> hd d = CHR ''#'') ds \<Longrightarrow> node_reads env inc ok put ys g \<Longrightarrow>
   node_reads env inc ok put (describes verbose step ds @ ys) g"
  using node_reads_append [OF node_reads_describes, of ds env inc ok put ys g] by (simp add: comp_def)

lemma volume_eq: "node_reads env inc ok put ls f \<Longrightarrow> f = g \<Longrightarrow> node_reads env inc ok put ls g"
  by simp

lemma volume_if:
  "(c \<Longrightarrow> node_reads env inc ok put xs f) \<Longrightarrow> node_reads env inc ok put (if c then xs else []) (if c then f else (\<lambda>b. b))"
  by simp

lemma reads_volume_only:
  assumes d: "volume_only name mn mx (set_volume get g) \<in> set directives" and plain: "\<not> need_quote name" "mn \<le> 1" "1 \<le> mx"
    and get: "\<And>cc. cc_bits cc = [name, w] \<Longrightarrow> get env cc = Inr x"
    and comm: "\<And>v. forget (g x v) = g x (forget v)"
  shows "node_reads env inc (in_volume hn vn) (volume_put c h hn vn) (setting 8 name (quote w)) (g x)"
proof -
  let ?d = "volume_only name mn mx (set_volume get g)"
  have f: "find_directive name = Some ?d" by (rule find_directive_named [OF d]) (simp add: volume_only_def D_def)
  show ?thesis
    unfolding setting_def
  proof (rule vol.reads_directive [OF _ f])
    show "split (indent 8 @ name @ [SP] @ quote w) = Some (8, Inr [name, w])" using split_setting [OF plain(1), of 8 w "[]"] by simp
    show "dir_set ?d = Set (\<lambda>env cc. rbind (get env cc) (\<lambda>x. on_volume (g x) cc))" by (simp add: volume_only_def D_def set_volume_def)
    show "dir_check ?d cc = Inr ()" if "volume_node hn vn cc" "cc_bits cc = [name, w]" for cc
      using that plain by (simp add: volume_node_def dir_check_def check_arguments_def volume_only_def D_def)
    show "\<exists>y. rbind (get env cc) (\<lambda>x. on_volume (g x) cc) = Inr (cc\<lparr>cc_conf := volume_put c h hn vn y\<rparr>) \<and> forget y = g x (forget v)"
      if "volume_node hn vn cc" "cc_bits cc = [name, w]" "cc_conf cc = volume_put c h hn vn v" for cc v
      using that get [OF that(2)] comm by (auto simp: volume_node_def on_volume_def update_volume_put)
  qed (simp_all add: volume_only_def D_def level_defs)
qed

lemma reads_devices:
  "node_reads env inc (in_volume hn vn) (volume_put c h hn vn) (setting 8 ''devices'' (quote p)) (on_base (devicePattern_update (\<lambda>_. p)))"
  "node_reads env inc (in_host hn) (host_put c hn) (setting 4 ''devices'' (quote p)) (on_base (devicePattern_update (\<lambda>_. p)))"
proof -
  let ?d = "(host_only ''devices'' 1 1 (set_context get_string (\<lambda>x. devicePattern_update (\<lambda>_. x))))\<lparr>dir_levels := LEVEL_HOST OR LEVEL_VOLUME\<rparr>"
  have f: "find_directive ''devices'' = Some ?d"
    by (rule find_directive_named) (simp_all add: directives_def host_directives_def host_only_def D_def)
  have plain: "\<not> need_quote ''devices''" by (rule name_chars_plain; code_simp)
  have line: "split (indent n @ ''devices'' @ [SP] @ quote p) = Some (n, Inr [''devices'', p])" for n
    using split_setting [OF plain, of n p "[]"] by simp
  have act: "dir_set ?d = Set (\<lambda>env cc. rbind (get_string env cc) (\<lambda>x. on_context (devicePattern_update (\<lambda>_. x)) cc))"
    by (simp add: host_only_def D_def set_context_def)
  have comm: "forget (on_base (devicePattern_update (\<lambda>_. p)) x) = on_base (devicePattern_update (\<lambda>_. p)) (forget x)"
    for x :: "'z conf_base_scheme"
    by (rule forget_on_base) (simp add: forget_base_def)
  have set: "\<exists>y. rbind (get_string env cc) (\<lambda>x. on_context (devicePattern_update (\<lambda>_. x)) cc) = Inr (cc\<lparr>cc_conf := put y\<rparr>) \<and>
      forget y = on_base (devicePattern_update (\<lambda>_. p)) (forget x)"
    if "cc_bits cc = [''devices'', p]" "\<And>f. on_context f cc = Inr (cc\<lparr>cc_conf := put (on_base f x)\<rparr>)"
    for cc :: ctx and put :: "'z conf_base_scheme \<Rightarrow> conf" and x
    using that comm [of x] by (intro exI [of _ "on_base (devicePattern_update (\<lambda>_. p)) x"]) (simp add: get_string_def arg_def)
  show "node_reads env inc (in_volume hn vn) (volume_put c h hn vn) (setting 8 ''devices'' (quote p)) (on_base (devicePattern_update (\<lambda>_. p)))"
    unfolding setting_def
  proof (rule vol.reads_directive [OF line f act])
    show "dir_check ?d cc = Inr ()" if "volume_node hn vn cc" "cc_bits cc = [''devices'', p]" for cc
      using that by (simp add: dir_check_def check_arguments_def host_only_def D_def level_defs volume_node_def)
    show "\<exists>y. rbind (get_string env cc) (\<lambda>x. on_context (devicePattern_update (\<lambda>_. x)) cc) = Inr (cc\<lparr>cc_conf := volume_put c h hn vn y\<rparr>) \<and>
        forget y = on_base (devicePattern_update (\<lambda>_. p)) (forget x)"
      if "volume_node hn vn cc" "cc_bits cc = [''devices'', p]" "cc_conf cc = volume_put c h hn vn x" for cc x
      by (rule set [OF that(2)]) (rule vol.on_node [OF that(1,3)])
  qed (simp_all add: host_only_def D_def level_defs)
  show "node_reads env inc (in_host hn) (host_put c hn) (setting 4 ''devices'' (quote p)) (on_base (devicePattern_update (\<lambda>_. p)))"
    unfolding setting_def
  proof (rule hst.reads_directive [OF line f act])
    show "dir_check ?d cc = Inr ()" if "host_node hn cc" "cc_bits cc = [''devices'', p]" for cc
      using that by (simp add: dir_check_def check_arguments_def host_only_def D_def level_defs host_node_def)
    show "\<exists>y. rbind (get_string env cc) (\<lambda>x. on_context (devicePattern_update (\<lambda>_. x)) cc) = Inr (cc\<lparr>cc_conf := host_put c hn y\<rparr>) \<and>
        forget y = on_base (devicePattern_update (\<lambda>_. p)) (forget x)"
      if "host_node hn cc" "cc_bits cc = [''devices'', p]" "cc_conf cc = host_put c hn x" for cc x
      by (rule set [OF that(2)]) (rule hst.on_node [OF that(1,3)])
  qed (simp_all add: host_only_def D_def level_defs)
qed


lemma reads_group:
  "node_reads env inc (in_volume hn vn) (volume_put c h hn vn) (setting 8 ''group'' (quote g)) (on_base (group_update (\<lambda>_. g)))"
  "node_reads env inc (in_host hn) (host_put c hn) (setting 4 ''group'' (quote g)) (on_base (group_update (\<lambda>_. g)))"
proof -
  have plain: "\<not> need_quote ''group''" by (rule name_chars_plain; code_simp)
  have d: "inheritable ''group'' 1 1 (set_context get_string (\<lambda>x. group_update (\<lambda>_. x))) \<in> set directives" by (simp add: directive_lists)
  show "node_reads env inc (in_volume hn vn) (volume_put c h hn vn) (setting 8 ''group'' (quote g)) (on_base (group_update (\<lambda>_. g)))"
    by (rule vol.reads_value [OF d _ plain get_string_word]) (simp_all add: forget_base_def)
  show "node_reads env inc (in_host hn) (host_put c hn) (setting 4 ''group'' (quote g)) (on_base (group_update (\<lambda>_. g)))"
    by (rule hst.reads_value [OF d _ plain get_string_word]) (simp_all add: forget_base_def)
qed

lemma reads_excludes:
  "node_reads env inc (in_volume hn vn) (volume_put c h hn vn) (concat (map (\<lambda>e. setting 8 ''exclude'' (quote e)) es))
     (\<lambda>v. v\<lparr>v_exclude := v_exclude v @ es\<rparr>)"
proof (induction es)
  case (Cons e es)
  have plain: "\<not> need_quote ''exclude''" by (rule name_chars_plain; code_simp)
  have "node_reads env inc (in_volume hn vn) (volume_put c h hn vn) (setting 8 ''exclude'' (quote e)) (v_exclude_update (\<lambda>xs. xs @ [e]))"
    by (rule reads_volume_only [where mn = 1 and mx = 1 and get = get_string and g = "\<lambda>x. v_exclude_update (\<lambda>xs. xs @ [x])", OF _ plain _ _ get_string_word])
      (simp_all add: directives_def volume_directives_def forget_alt)
  from volume_append [OF this Cons.IH] show ?case by simp
qed simp

definition volume_settings :: "host \<Rightarrow> volume \<Rightarrow> volume \<Rightarrow> volume" where
  "volume_settings h v s =
     (let s = on_base (read_settings (Some (base_of h)) (base_of v)) s;
          s = (if group v \<noteq> group h then on_base (group_update (\<lambda>_. group v)) s else s);
          s = (if devicePattern v \<noteq> [] then on_base (devicePattern_update (\<lambda>_. devicePattern v)) s else s);
          s = s\<lparr>v_exclude := v_exclude s @ v_exclude v, v_traverse := v_traverse v\<rparr>;
          s = (if v_checkFile v \<noteq> [] then s\<lparr>v_checkFile := v_checkFile v\<rparr> else s)
      in s\<lparr>v_checkMounted := v_checkMounted v\<rparr>)"

lemma reads_volume_lines:
  assumes "base_writable (base_of v)" "base_writable (base_of h)"
  shows "node_reads env inc (in_volume hn vn) (volume_put c h' hn vn) (Volume_lines verbose 8 h v) (volume_settings h v)"
proof -
  have L: "LEVEL_VOLUME \<in> {LEVEL_TOP, LEVEL_HOST, LEVEL_VOLUME}" by simp
  have plain: "\<not> need_quote ''traverse''" "\<not> need_quote ''check-file''" "\<not> need_quote ''check-mounted''"
    by (rule name_chars_plain; code_simp)+
  have bool: "quote (show_bool x) = show_bool x" for x
    by (rule quote_plain) (cases x; rule name_chars_plain; simp add: show_bool_def name_char_def c_isalnum_def c_isalpha_def c_islower_def)
  note own = directives_def volume_directives_def forget_alt
  have base: "node_reads env inc (in_volume hn vn) (volume_put c h' hn vn) (ConfBase_write verbose 8 ''volume'' (Some (base_of h)) (base_of v))
      (on_base (read_settings (Some (base_of h)) (base_of v)))"
    by (rule vol.reads_ConfBase [OF L assms(1)]) (use assms(2) in simp)
  have trav: "node_reads env inc (in_volume hn vn) (volume_put c h' hn vn) (setting 8 ''traverse'' (quote (show_bool (v_traverse v))))
      (v_traverse_update (\<lambda>_. v_traverse v))"
    by (rule reads_volume_only [where mn = 0 and mx = 1 and get = "get_boolean ''traverse''" and g = "\<lambda>x. v_traverse_update (\<lambda>_. x)", OF _ plain(1) _ _ get_boolean_show])
      (simp_all add: own)
  have mounted: "node_reads env inc (in_volume hn vn) (volume_put c h' hn vn) (setting 8 ''check-mounted'' (quote (show_bool (v_checkMounted v))))
      (v_checkMounted_update (\<lambda>_. v_checkMounted v))"
    by (rule reads_volume_only [where mn = 1 and mx = 1 and get = "get_boolean ''check-mounted''" and g = "\<lambda>x. v_checkMounted_update (\<lambda>_. x)", OF _ plain(3) _ _ get_boolean_show])
      (simp_all add: own)
  have checkf: "node_reads env inc (in_volume hn vn) (volume_put c h' hn vn) (setting 8 ''check-file'' (quote (v_checkFile v)))
      (v_checkFile_update (\<lambda>_. v_checkFile v))"
    by (rule reads_volume_only [where mn = 1 and mx = 1 and get = get_string and g = "\<lambda>x. v_checkFile_update (\<lambda>_. x)", OF _ plain(2) _ _ get_string_word])
      (simp_all add: own)
  show ?thesis
    unfolding Volume_lines_def Let_def
    by (rule volume_eq, rule volume_append, rule base, (rule volume_skip, simp)+, rule volume_append, rule volume_if, rule reads_group(1),
        (rule volume_skip, simp)+, rule volume_append, rule volume_if, rule reads_devices(1),
        (rule volume_skip, simp)+, rule volume_append, rule reads_excludes, (rule volume_skip, simp)+, rule volume_append, rule trav [unfolded bool],
        (rule volume_skip, simp)+, rule volume_append, rule volume_if, rule checkf, (rule volume_skip, simp)+, rule mounted [unfolded bool],
        simp add: fun_eq_iff volume_settings_def Let_def)
qed


text \<open>What of a volume is in the file.\<close>

definition written_volume :: "volume \<Rightarrow> volume" where
  "written_volume v = (forget v)\<lparr>v_backups := [], v_completed := 0, v_oldest := 0, v_newest := 0, v_perDevice := [], v_selected := []\<rparr>"

text \<open>The settings that the writer leaves out where they are empty or zero must be so for the parent as well.\<close>

definition base_inherits :: "'z conf_base_scheme \<Rightarrow> 'y conf_base_scheme \<Rightarrow> bool" where
  "base_inherits p b \<longleftrightarrow>
     (backupJobTimeout b = 0 \<longrightarrow> backupJobTimeout p = 0) \<and> (rsyncIOTimeout b = 0 \<longrightarrow> rsyncIOTimeout p = 0) \<and>
     (hookTimeout b = 0 \<longrightarrow> hookTimeout p = 0) \<and> (rsyncRemote b = [] \<longrightarrow> rsyncRemote p = []) \<and>
     (devicePattern b = [] \<longrightarrow> devicePattern p = []) \<and>
     string_order.sorted_keys (backupParameters b) \<and> string_order.sorted_keys (pruneParameters b) \<and>
     string_order.sorted_keys (backupParameters p) \<and> string_order.sorted_keys (pruneParameters p)"

definition volume_writable :: "host \<Rightarrow> volume \<Rightarrow> bool" where
  "volume_writable h v \<longleftrightarrow> base_writable (base_of v) \<and> base_inherits h v \<and> volume_valid (v_name v) \<and> hostCheck v = hostCheck h"

lemma base_of_simps [simp]:
  "maxAge (base_of r) = maxAge r" "backupPolicy (base_of r) = backupPolicy r" "backupParameters (base_of r) = backupParameters r"
  "prunePolicy (base_of r) = prunePolicy r" "pruneParameters (base_of r) = pruneParameters r" "preVolume (base_of r) = preVolume r"
  "postVolume (base_of r) = postVolume r" "backupJobTimeout (base_of r) = backupJobTimeout r" "rsyncIOTimeout (base_of r) = rsyncIOTimeout r"
  "rsyncCommand (base_of r) = rsyncCommand r" "rsyncBaseOptions (base_of r) = rsyncBaseOptions r"
  "rsyncExtraOptions (base_of r) = rsyncExtraOptions r" "rsyncRemote (base_of r) = rsyncRemote r" "rsyncLinkDest (base_of r) = rsyncLinkDest r"
  "sshTimeout (base_of r) = sshTimeout r" "hookTimeout (base_of r) = hookTimeout r" "hostCheck (base_of r) = hostCheck r"
  "devicePattern (base_of r) = devicePattern r" "earliest (base_of r) = earliest r" "latest (base_of r) = latest r" "group (base_of r) = group r"
  by (simp_all add: base_of_def conf_base.defs)

text \<open>From the settings of the parent, the lines of \<open>b\<close> make \<open>b\<close>, but for what they do not say.\<close>

lemma read_settings_inherited:
  assumes "base_inherits p b" "s = (forget_base (conf_base_inherit p'))\<lparr>group := g\<rparr>" "forget_base (base_of p') = forget_base (base_of p)"
  shows "read_settings (Some (base_of p)) (base_of b) s =
    (forget_base (base_of b))\<lparr>hostCheck := hostCheck p, devicePattern := devicePattern p, group := g\<rparr>"
proof -
  have i: "conf_base_inherit r = base_of r" for r :: "'q conf_base_scheme"
    by (simp add: conf_base_inherit_def base_of_def conf_base.defs)
  have s: "s = (forget_base (base_of p))\<lparr>group := g\<rparr>" unfolding assms(2) i assms(3) ..
  note b = assms(1) [unfolded base_inherits_def]
  have "put_parameters (Some (backupParameters p)) (backupParameters b) (forget_parameters (backupParameters p)) = forget_parameters (backupParameters b)"
    "put_parameters (Some (pruneParameters p)) (pruneParameters b) (forget_parameters (pruneParameters p)) = forget_parameters (pruneParameters b)"
    using b put_parameters_own by blast+
  then show ?thesis
    unfolding s by (intro conf_base.equality) (use b in \<open>simp_all add: read_settings_def forget_base_def\<close>)
qed

lemma volume_settings_new:
  assumes w: "volume_writable h v" and h': "forget_base (base_of h') = forget_base (base_of h)"
  shows "volume_settings h v (forget (new_volume h' (v_name v) (v_path v))) = written_volume v"
proof -
  let ?n = "new_volume h' (v_name v) (v_path v)"
  have "group h' = group h" using arg_cong [OF h', of group] by (simp add: forget_base_def)
  then have n: "conf_base.truncate (forget ?n) = (forget_base (conf_base_inherit h'))\<lparr>group := group h\<rparr>"
    by (intro conf_base.equality) (simp_all add: new_volume_def forget_def on_base_def forget_base_def conf_base_inherit_def)
  have i: "base_inherits h v" using w by (simp add: volume_writable_def)
  have r: "read_settings (Some (base_of h)) (base_of v) (conf_base.truncate (forget ?n)) =
      (forget_base (base_of v))\<lparr>hostCheck := hostCheck h, devicePattern := devicePattern h, group := group h\<rparr>"
    by (rule read_settings_inherited [OF i n h'])
  let ?m = "\<lparr>v_name = v_name v, v_path = v_path v, v_exclude = [], v_traverse = False, v_checkFile = [],
        v_checkMounted = False, v_backups = [], v_completed = 0, v_oldest = 0, v_newest = 0, v_perDevice = [], v_selected = []\<rparr>"
  let ?r = "(forget_base (base_of v))\<lparr>hostCheck := hostCheck h, devicePattern := devicePattern h, group := group h\<rparr>"
  have m: "conf_base.more (forget ?n) = ?m" by (simp add: new_volume_def forget_def on_base_def)
  have dev: "devicePattern v = [] \<Longrightarrow> devicePattern h = []" using i by (simp add: base_inherits_def)
  have hc: "hostCheck h = hostCheck v" using w by (simp add: volume_writable_def)
  have f: "group (forget_base b) = group b" "devicePattern (forget_base b) = devicePattern b" "hostCheck (forget_base b) = hostCheck b" for b
    by (simp_all add: forget_base_def)
  have 1: "on_base (read_settings (Some (base_of h)) (base_of v)) (forget ?n) = conf_base.extend ?r ?m"
    unfolding on_base_def r m ..
  have 2: "(if group v \<noteq> group h then on_base (group_update (\<lambda>_. group v)) (conf_base.extend ?r ?m) else conf_base.extend ?r ?m) =
      conf_base.extend (?r\<lparr>group := group v\<rparr>) ?m"
    by (cases "group v = group h") (simp_all add: on_base_def)
  have 3: "(if devicePattern v \<noteq> [] then on_base (devicePattern_update (\<lambda>_. devicePattern v)) (conf_base.extend (?r\<lparr>group := group v\<rparr>) ?m)
      else conf_base.extend (?r\<lparr>group := group v\<rparr>) ?m) = conf_base.extend (?r\<lparr>group := group v, devicePattern := devicePattern v\<rparr>) ?m"
  proof (cases "devicePattern v = []")
    case True
    then have "?r\<lparr>group := group v, devicePattern := devicePattern v\<rparr> = ?r\<lparr>group := group v\<rparr>"
      using dev by (intro conf_base.equality) simp_all
    then show ?thesis using True by simp
  qed (simp add: on_base_def)
  have 4: "?r\<lparr>group := group v, devicePattern := devicePattern v\<rparr> = forget_base (base_of v)"
    by (rule conf_base.equality) (simp_all add: hc f)
  have "volume_settings h v (forget ?n) =
      (let s = conf_base.extend (forget_base (base_of v)) ?m;
           s = s\<lparr>v_exclude := v_exclude s @ v_exclude v, v_traverse := v_traverse v\<rparr>;
           s = (if v_checkFile v \<noteq> [] then s\<lparr>v_checkFile := v_checkFile v\<rparr> else s)
       in s\<lparr>v_checkMounted := v_checkMounted v\<rparr>)"
    unfolding volume_settings_def 1 Let_def 2 3 4 ..
  also have "\<dots> = written_volume v"
    by (cases v) (simp add: written_volume_def forget_alt forget_base_def base_of_def conf_base.defs Let_def)
  finally show ?thesis .
qed


lemma host_put_find: "findHost hn (host_put c hn h) = Some h"
  by (simp add: findHost_def host_put_def om_find_put_again)

text \<open>The line that begins a volume.\<close>

lemma reads_volume_line:
  assumes "in_host hn (cc_host cc) (cc_volume cc) ind" "cc_conf cc = host_put c hn h" "volume_valid vn" "host_findVolume vn h = None"
  shows "\<exists>cc' ind'. read_line env inc (cc, ind) (indent 4 @ ''volume '' @ quote vn @ [SP] @ quote path) = Some (Inr (cc', ind')) \<and>
    in_volume hn vn (cc_host cc') (cc_volume cc') ind' \<and> cc_conf cc' = volume_put c h hn vn (new_volume h vn path)"
proof -
  let ?d = "(host_only ''volume'' 2 2 (Set volume_set))\<lparr>dir_new_level := LEVEL_VOLUME\<rparr>"
  have plain: "\<not> need_quote ''volume''" by (rule name_chars_plain; code_simp)
  have line: "split (indent 4 @ ''volume '' @ quote vn @ [SP] @ quote path) = Some (4, Inr [''volume'', vn, path])"
    using split_setting [OF plain, of 4 vn "[path]"] by simp
  have d: "find_directive ''volume'' = Some ?d"
    by (rule find_directive_named) (simp_all add: directives_def volume_directives_def host_only_def D_def)
  let ?loc = "cc_location cc\<lparr>loc_line := loc_line (cc_location cc) + 1\<rparr>"
  let ?c = "cc\<lparr>cc_location := ?loc, cc_bits := [''volume'', vn, path]\<rparr>"
  have o: "in_host hn (cc_host ?c) (cc_volume ?c) ind" using assms(1) by simp
  have l: "dir_levels ?d AND LEVEL_HOST = LEVEL_HOST" by (simp add: host_only_def D_def level_defs)
  from hst.enter [OF o l] obtain ind' c' where c': "indent_check (dir_levels ?d) 4 ind = (LEVEL_HOST, ind')" "select_level LEVEL_HOST ?c = Inr c'"
    "host_node hn c'" "cc_conf c' = host_put c hn h" "cc_bits c' = [''volume'', vn, path]"
    using assms(2) by auto
  have ind': "in_stack ind' = [0, 4]"
    using assms(1) c'(1) by (auto simp: in_host_def indent_check_def level_defs host_only_def D_def)
  have set: "volume_set env c' = Inr (c'\<lparr>cc_conf := host_put c hn (addVolume (new_volume h vn path) h), cc_context := VolumeNode, cc_volume := Some vn\<rparr>)"
    using c'(3-5) assms(3,4)
    by (simp add: volume_set_def arg_def host_node_def host_put_find update_host_put)
  have check: "dir_check ?d c' = Inr ()"
    using c'(3,5) by (simp add: dir_check_def check_arguments_def host_only_def D_def host_node_def)
  have run: "read_line env inc (cc, ind) (indent 4 @ ''volume '' @ quote vn @ [SP] @ quote path) =
      Some (Inr (c'\<lparr>cc_conf := host_put c hn (addVolume (new_volume h vn path) h), cc_context := VolumeNode, cc_volume := Some vn\<rparr>,
                 indent_introduce LEVEL_VOLUME ind'))"
    unfolding read_line_def line
    using d c'(1,2) check set
    by (simp add: Let_def read_directive_def run_action_def located_def) (simp add: host_only_def D_def)
  have "addVolume (new_volume h vn path) h = h\<lparr>h_volumes := om_put namelt vn (new_volume h vn path) (h_volumes h)\<rparr>"
    by (simp add: addVolume_def new_volume_def conf_base.defs)
  then show ?thesis
    using run c'(3) ind' by (auto simp: in_volume_def host_node_def volume_put_def indent_introduce_def intro!: exI)
qed

theorem volume_read_back:
  assumes "in_host hn (cc_host cc) (cc_volume cc) ind" "cc_conf cc = host_put c hn h'" "host_findVolume (v_name v) h' = None"
    "volume_writable h v" "base_writable (base_of h)" "forget_base (base_of h') = forget_base (base_of h)"
  shows "\<exists>cc' ind' v'. loop_option (read_line env inc) (cc, ind) (Volume_write verbose 4 h v) = Some (Inr (cc', ind')) \<and>
    in_host hn (cc_host cc') (cc_volume cc') ind' \<and> forget v' = written_volume v \<and>
    cc_conf cc' = host_put c hn (h'\<lparr>h_volumes := om_put namelt (v_name v) v' (h_volumes h')\<rparr>)"
proof -
  have "volume_valid (v_name v)" using assms(4) by (simp add: volume_writable_def)
  from reads_volume_line [OF assms(1,2) this assms(3), of env inc "v_path v"] obtain cc1 ind1
    where 1: "read_line env inc (cc, ind) (indent 4 @ ''volume '' @ quote (v_name v) @ [SP] @ quote (v_path v)) = Some (Inr (cc1, ind1))"
      "in_volume hn (v_name v) (cc_host cc1) (cc_volume cc1) ind1"
      "cc_conf cc1 = volume_put c h' hn (v_name v) (new_volume h' (v_name v) (v_path v))" by blast
  have "node_reads env inc (in_volume hn (v_name v)) (volume_put c h' hn (v_name v)) (Volume_lines verbose 8 h v) (volume_settings h v)"
    by (rule reads_volume_lines) (use assms(4,5) in \<open>auto simp: volume_writable_def\<close>)
  then obtain cc2 ind2 v' where 2: "loop_option (read_line env inc) (cc1, ind1) (Volume_lines verbose 8 h v) = Some (Inr (cc2, ind2))"
    "in_volume hn (v_name v) (cc_host cc2) (cc_volume cc2) ind2" "cc_conf cc2 = volume_put c h' hn (v_name v) v'"
    "forget v' = volume_settings h v (forget (new_volume h' (v_name v) (v_path v)))"
    unfolding node_reads_def using 1(2,3) by blast
  have "loop_option (read_line env inc) (cc, ind) (Volume_write verbose 4 h v) = Some (Inr (cc2, ind2))"
    using 1(1) 2(1) by (simp add: Volume_write_def)
  moreover have "in_host hn (cc_host cc2) (cc_volume cc2) ind2" using 2(2) by (auto simp: in_volume_def in_host_def)
  moreover have "forget v' = written_volume v" using 2(4) volume_settings_new [OF assms(4,6)] by simp
  ultimately show ?thesis using 2(3) unfolding volume_put_def by blast
qed


section \<open>A host\<close>

lemma forget_host [simp]:
  "forget (h\<lparr>h_hostname := x\<rparr>) = (forget h)\<lparr>h_hostname := x\<rparr>" "forget (h\<lparr>h_user := x\<rparr>) = (forget h)\<lparr>h_user := x\<rparr>"
  "forget (h\<lparr>h_priority := n\<rparr>) = (forget h)\<lparr>h_priority := n\<rparr>" "forget (h\<lparr>h_volumes := vs\<rparr>) = (forget h)\<lparr>h_volumes := vs\<rparr>"
  "h_volumes (forget h) = h_volumes h" "h_name (forget h) = h_name h"
  by (simp_all add: forget_alt)

lemma reads_host_only:
  assumes d: "host_only name 1 1 (set_host get g) \<in> set directives" and plain: "\<not> need_quote name"
    and get: "\<And>cc. cc_bits cc = [name, w] \<Longrightarrow> get env cc = Inr x"
    and comm: "\<And>h. forget (g x h) = g x (forget h)"
  shows "node_reads env inc (in_host hn) (host_put c hn) (setting 4 name (quote w)) (g x)"
proof -
  let ?d = "host_only name 1 1 (set_host get g)"
  have f: "find_directive name = Some ?d" by (rule find_directive_named [OF d]) (simp add: host_only_def D_def)
  show ?thesis
    unfolding setting_def
  proof (rule hst.reads_directive [OF _ f])
    show "split (indent 4 @ name @ [SP] @ quote w) = Some (4, Inr [name, w])" using split_setting [OF plain(1), of 4 w "[]"] by simp
    show "dir_set ?d = Set (\<lambda>env cc. rbind (get env cc) (\<lambda>x. on_host (g x) cc))" by (simp add: host_only_def D_def set_host_def)
    show "dir_check ?d cc = Inr ()" if "host_node hn cc" "cc_bits cc = [name, w]" for cc
      using that plain by (simp add: host_node_def dir_check_def check_arguments_def host_only_def D_def)
    show "\<exists>y. rbind (get env cc) (\<lambda>x. on_host (g x) cc) = Inr (cc\<lparr>cc_conf := host_put c hn y\<rparr>) \<and> forget y = g x (forget h)"
      if "host_node hn cc" "cc_bits cc = [name, w]" "cc_conf cc = host_put c hn h" for cc h
      using that get [OF that(2)] comm by (auto simp: host_node_def on_host_def update_host_put)
  qed (simp_all add: host_only_def D_def level_defs)
qed

lemma reads_host_check:
  assumes "host_check_ok hc" "int (length hc) \<le> INT_MAX"
  shows "node_reads env inc (in_host hn) (host_put c hn) (setting 4 ''host-check'' (quote_list hc)) (on_base (hostCheck_update (\<lambda>_. hc)))"
proof -
  let ?d = "(inheritable ''host-check'' 1 INT_MAX (set_context get_host_check (\<lambda>x. hostCheck_update (\<lambda>_. x))))\<lparr>dir_levels := LEVEL_TOP OR LEVEL_HOST\<rparr>"
  have plain: "\<not> need_quote ''host-check''" by (rule name_chars_plain; code_simp)
  obtain w ws where hc: "hc = w # ws" using assms(1) by (auto simp: host_check_ok_def)
  have line: "split (indent 4 @ ''host-check'' @ [SP] @ quote_list hc) = Some (4, Inr (''host-check'' # hc))"
    using split_setting [OF plain, of 4 w ws] by (simp add: hc)
  have f: "find_directive ''host-check'' = Some ?d"
    by (rule find_directive_named) (simp_all add: directive_lists inheritable_def D_def)
  show ?thesis
    unfolding setting_def
    by (rule hst.reads_context [where get = get_host_check and g = "\<lambda>x. hostCheck_update (\<lambda>_. x)", OF line f])
      (use assms get_host_check_written [OF assms(1)] hc in \<open>auto simp: inheritable_def D_def level_defs forget_base_def\<close>)
qed

definition host_settings :: "conf \<Rightarrow> host \<Rightarrow> host \<Rightarrow> host" where
  "host_settings c h s =
     (let s = on_base (read_settings (Some (base_of c)) (base_of h)) s;
          s = on_base (hostCheck_update (\<lambda>_. hostCheck h)) s;
          s = (if group h \<noteq> h_name h then on_base (group_update (\<lambda>_. group h)) s else s);
          s = s\<lparr>h_hostname := h_hostname h\<rparr>;
          s = (if h_user h \<noteq> [] then s\<lparr>h_user := h_user h\<rparr> else s);
          s = (if devicePattern h \<noteq> [] then on_base (devicePattern_update (\<lambda>_. devicePattern h)) s else s)
      in s\<lparr>h_priority := h_priority h\<rparr>)"

lemma reads_host_lines:
  assumes "base_writable (base_of h)" "base_writable (base_of c)" "host_check_ok (hostCheck h)" "int (length (hostCheck h)) \<le> INT_MAX"
    "INT_MIN \<le> h_priority h" "h_priority h \<le> INT_MAX"
  shows "node_reads env inc (in_host hn) (host_put c' hn) (Host_lines verbose 4 c h) (host_settings c h)"
proof -
  have L: "LEVEL_HOST \<in> {LEVEL_TOP, LEVEL_HOST, LEVEL_VOLUME}" by simp
  have plain: "\<not> need_quote ''hostname''" "\<not> need_quote ''user''" "\<not> need_quote ''priority''"
    by (rule name_chars_plain; code_simp)+
  note own = directives_def host_directives_def
  have base: "node_reads env inc (in_host hn) (host_put c' hn) (ConfBase_write verbose 4 ''host'' (Some (base_of c)) (base_of h))
      (on_base (read_settings (Some (base_of c)) (base_of h)))"
    by (rule hst.reads_ConfBase [OF L assms(1)]) (use assms(2) in simp)
  have checks: "node_reads env inc (in_host hn) (host_put c' hn) (writeHostCheck verbose 4 (Some (base_of c)) (base_of h))
      (on_base (hostCheck_update (\<lambda>_. hostCheck h)))"
    unfolding writeHostCheck_def Let_def base_of_simps
    by (rule on_base_eq, (rule base_skip, simp)+, rule base_append, rule reads_host_check [OF assms(3,4)], rule base_comments) simp_all
  have named: "node_reads env inc (in_host hn) (host_put c' hn) (setting 4 ''hostname'' (quote (h_hostname h))) (h_hostname_update (\<lambda>_. h_hostname h))"
    by (rule reads_host_only [where get = get_string and g = "\<lambda>x. h_hostname_update (\<lambda>_. x)", OF _ plain(1) get_string_word]) (simp_all add: own)
  have user: "node_reads env inc (in_host hn) (host_put c' hn) (setting 4 ''user'' (quote (h_user h))) (h_user_update (\<lambda>_. h_user h))"
    by (rule reads_host_only [where get = get_string and g = "\<lambda>x. h_user_update (\<lambda>_. x)", OF _ plain(2) get_string_word]) (simp_all add: own)
  have "get_integer INT_MIN INT_MAX env cc = Inr (h_priority h)" if "cc_bits cc = [''priority'', show_int (h_priority h)]" for cc
    using that assms(5,6) by (simp add: get_integer_def arg_def parseInteger_show_int limits)
  then have "node_reads env inc (in_host hn) (host_put c' hn) (setting 4 ''priority'' (quote (show_int (h_priority h)))) (h_priority_update (\<lambda>_. h_priority h))"
    by (intro reads_host_only [where get = "get_integer INT_MIN INT_MAX" and g = "\<lambda>x. h_priority_update (\<lambda>_. x)", OF _ plain(3)]) (simp_all add: own)
  then have priority: "node_reads env inc (in_host hn) (host_put c' hn) (setting 4 ''priority'' (show_int (h_priority h))) (h_priority_update (\<lambda>_. h_priority h))"
    using quote_plain [OF name_chars_plain [OF show_int_Nil show_int_name]] by simp
  show ?thesis
    unfolding Host_lines_def Let_def
    by (rule volume_eq, rule volume_append, rule base, rule volume_append, rule checks, (rule volume_skip, simp)+,
        rule volume_append, rule volume_if, rule reads_group(2), (rule volume_skip, simp)+, rule volume_append, rule named,
        (rule volume_skip, simp)+, rule volume_append, rule volume_if, rule user, (rule volume_skip, simp)+, rule volume_append, rule volume_if,
        rule reads_devices(2), (rule volume_skip, simp)+, rule priority, simp add: fun_eq_iff host_settings_def Let_def)
qed


definition host_writable :: "conf \<Rightarrow> host \<Rightarrow> bool" where
  "host_writable c h \<longleftrightarrow> base_writable (base_of h) \<and> base_inherits c h \<and> host_valid (h_name h) \<and>
     host_check_ok (hostCheck h) \<and> int (length (hostCheck h)) \<le> INT_MAX \<and> INT_MIN \<le> h_priority h \<and> h_priority h \<le> INT_MAX \<and>
     sorted_wrt namelt (map fst (h_volumes h)) \<and> (\<forall>(n, v) \<in> set (h_volumes h). n = v_name v \<and> volume_writable h v)"

text \<open>What is read of a host: its settings and its volumes.\<close>

definition host_read_as :: "host \<Rightarrow> host \<Rightarrow> bool" where
  "host_read_as h h' \<longleftrightarrow>
     (forget h')\<lparr>h_volumes := []\<rparr> = (forget h)\<lparr>h_volumes := [], h_unknownVolumes := []\<rparr> \<and>
     list_all2 (\<lambda>(n, v) (n', v'). n' = n \<and> forget v' = written_volume v) (h_volumes h) (h_volumes h')"

lemma host_settings_new:
  assumes w: "host_writable c h" and c': "forget_base (base_of c') = forget_base (base_of c)"
  shows "host_settings c h (forget (new_host c' (h_name h))) = (forget h)\<lparr>h_volumes := [], h_unknownVolumes := []\<rparr>"
proof -
  let ?n = "new_host c' (h_name h)"
  have n: "conf_base.truncate (forget ?n) = (forget_base (conf_base_inherit c'))\<lparr>group := h_name h\<rparr>"
    by (intro conf_base.equality) (simp_all add: new_host_def forget_def on_base_def forget_base_def)
  have i: "base_inherits c h" using w by (simp add: host_writable_def)
  have r: "read_settings (Some (base_of c)) (base_of h) (conf_base.truncate (forget ?n)) =
      (forget_base (base_of h))\<lparr>hostCheck := hostCheck c, devicePattern := devicePattern c, group := h_name h\<rparr>"
    by (rule read_settings_inherited [OF i n c'])
  let ?m = "\<lambda>us hn. \<lparr>h_name = h_name h, h_volumes = [], h_user = us, h_hostname = hn, h_priority = 0, h_unknownVolumes = []\<rparr>"
  have m: "conf_base.more (forget ?n) = ?m [] (h_name h)" by (simp add: new_host_def forget_def on_base_def)
  have dev: "devicePattern h = [] \<Longrightarrow> devicePattern c = []" using i by (simp add: base_inherits_def)
  have f: "group (forget_base b) = group b" "devicePattern (forget_base b) = devicePattern b" "hostCheck (forget_base b) = hostCheck b" for b
    by (simp_all add: forget_base_def)
  let ?r = "\<lambda>hc dp g. (forget_base (base_of h))\<lparr>hostCheck := hc, devicePattern := dp, group := g\<rparr>"
  have 1: "on_base (read_settings (Some (base_of c)) (base_of h)) (forget ?n) = conf_base.extend (?r (hostCheck c) (devicePattern c) (h_name h)) (?m [] (h_name h))"
    unfolding on_base_def r m ..
  have 2: "on_base (hostCheck_update (\<lambda>_. hostCheck h)) (conf_base.extend (?r hc dp g) m) = conf_base.extend (?r (hostCheck h) dp g) m" for hc dp g and m :: 'm
    unfolding on_base_def extend_parts by (intro arg_cong2 [where f = conf_base.extend] conf_base.equality) simp_all
  have 3: "(if group h \<noteq> h_name h then on_base (group_update (\<lambda>_. group h)) (conf_base.extend (?r hc dp (h_name h)) m)
      else conf_base.extend (?r hc dp (h_name h)) m) = conf_base.extend (?r hc dp (group h)) m" for hc dp and m :: 'm
    by (simp add: on_base_def)
  have e: "(conf_base.extend b (?m us y))\<lparr>h_hostname := x\<rparr> = conf_base.extend b (?m us x)" for b x y us
    by (simp add: conf_base.defs)
  have u: "(if h_user h \<noteq> [] then (conf_base.extend b (?m [] x))\<lparr>h_user := h_user h\<rparr> else conf_base.extend b (?m [] x)) =
      conf_base.extend b (?m (h_user h) x)" for b x
    by (simp add: conf_base.defs)
  have 4: "(if devicePattern h \<noteq> [] then on_base (devicePattern_update (\<lambda>_. devicePattern h)) (conf_base.extend (?r hc (devicePattern c) g) m)
      else conf_base.extend (?r hc (devicePattern c) g) m) = conf_base.extend (?r hc (devicePattern h) g) m" for hc g and m :: 'm
  proof (cases "devicePattern h = []")
    case False
    then show ?thesis
      unfolding on_base_def extend_parts if_P [OF False] by (intro arg_cong2 [where f = conf_base.extend] conf_base.equality) simp_all
  qed (use dev in simp)
  have 5: "?r (hostCheck h) (devicePattern h) (group h) = forget_base (base_of h)"
    by (rule conf_base.equality) (simp_all add: f)
  have "host_settings c h (forget ?n) =
      (conf_base.extend (forget_base (base_of h)) (?m (h_user h) (h_hostname h)))\<lparr>h_priority := h_priority h\<rparr>"
    unfolding host_settings_def 1 Let_def 2 3 e u 4 5 ..
  also have "\<dots> = (forget h)\<lparr>h_volumes := [], h_unknownVolumes := []\<rparr>"
    by (cases h) (simp add: forget_alt forget_base_def base_of_def conf_base.defs)
  finally show ?thesis .
qed

lemma read_line_blank: "\<exists>cc'. read_line env inc (cc, ind) [] = Some (Inr (cc', ind)) \<and> cc_host cc' = cc_host cc \<and> cc_volume cc' = cc_volume cc \<and>
    cc_conf cc' = cc_conf cc"
  by (simp add: read_line_def split_def Let_def located_def)

text \<open>The volumes one after the other.\<close>

lemma volumes_read_back:
  assumes "in_host hn (cc_host cc) (cc_volume cc) ind" "cc_conf cc = host_put c hn h'"
    "base_writable (base_of h)" "forget_base (base_of h') = forget_base (base_of h)"
    "\<forall>(n, v) \<in> set vs. n = v_name v \<and> volume_writable h v" "sorted_wrt namelt (map fst (h_volumes h' @ vs))"
  shows "\<exists>cc' ind' ws. loop_option (read_line env inc) (cc, ind) (concat (map (\<lambda>(_, v). [] # Volume_write verbose 4 h v) vs)) = Some (Inr (cc', ind')) \<and>
    in_host hn (cc_host cc') (cc_volume cc') ind' \<and> cc_conf cc' = host_put c hn (h'\<lparr>h_volumes := h_volumes h' @ ws\<rparr>) \<and>
    list_all2 (\<lambda>(n, v) (n', v'). n' = n \<and> forget v' = written_volume v) vs ws"
  using assms
proof (induction vs arbitrary: cc ind h')
  case Nil
  then show ?case by simp
next
  case (Cons x vs)
  obtain n v where x: "x = (n, v)" by (cases x)
  have nv: "n = v_name v" "volume_writable h v" using Cons.prems(5) by (auto simp: x)
  have last: "\<forall>k' \<in> set (map fst (h_volumes h')). namelt k' n" using Cons.prems(6) by (auto simp: x sorted_wrt_append)
  obtain cc0 where 0: "read_line env inc (cc, ind) [] = Some (Inr (cc0, ind))" "in_host hn (cc_host cc0) (cc_volume cc0) ind" "cc_conf cc0 = host_put c hn h'"
    using read_line_blank [of env inc cc ind] Cons.prems(1,2) by auto
  have "host_findVolume (v_name v) h' = None" using om_put_last [where lt = namelt, OF last] nv by (simp add: host_findVolume_def)
  from volume_read_back [OF 0(2,3) this nv(2) Cons.prems(3,4), of env inc verbose] obtain cc1 ind1 v' where
    1: "loop_option (read_line env inc) (cc0, ind) (Volume_write verbose 4 h v) = Some (Inr (cc1, ind1))"
    "in_host hn (cc_host cc1) (cc_volume cc1) ind1" "forget v' = written_volume v"
    "cc_conf cc1 = host_put c hn (h'\<lparr>h_volumes := om_put namelt (v_name v) v' (h_volumes h')\<rparr>)" by blast
  let ?h = "h'\<lparr>h_volumes := h_volumes h' @ [(n, v')]\<rparr>"
  have "cc_conf cc1 = host_put c hn ?h" using 1(4) om_put_last [where lt = namelt and v = v', OF last] nv by simp
  moreover have "forget_base (base_of ?h) = forget_base (base_of h)" using Cons.prems(4) by (simp add: base_of_def conf_base.defs)
  moreover have "sorted_wrt namelt (map fst (h_volumes ?h @ vs))" using Cons.prems(6) by (simp add: x)
  moreover have "\<forall>(n, v) \<in> set vs. n = v_name v \<and> volume_writable h v" using Cons.prems(5) by simp
  ultimately obtain cc2 ind2 ws where
    2: "loop_option (read_line env inc) (cc1, ind1) (concat (map (\<lambda>(_, v). [] # Volume_write verbose 4 h v) vs)) = Some (Inr (cc2, ind2))"
    "in_host hn (cc_host cc2) (cc_volume cc2) ind2" "cc_conf cc2 = host_put c hn (?h\<lparr>h_volumes := h_volumes ?h @ ws\<rparr>)"
    "list_all2 (\<lambda>(n, v) (n', v'). n' = n \<and> forget v' = written_volume v) vs ws"
    using Cons.IH [OF 1(2) _ Cons.prems(3), of ?h] by blast
  show ?case
    using 0(1) 1(1,3) 2 by (intro exI [of _ cc2] exI [of _ ind2] exI [of _ "(n, v') # ws"]) (simp add: x loop_option_append)
qed


lemma reads_host_line:
  assumes "at_top (cc_host cc) (cc_volume cc) ind" "cc_conf cc = c" "host_valid hn" "findHost hn c = None"
  shows "\<exists>cc' ind'. read_line env inc (cc, ind) (indent 0 @ ''host '' @ quote hn) = Some (Inr (cc', ind')) \<and>
    in_host hn (cc_host cc') (cc_volume cc') ind' \<and> cc_conf cc' = host_put c hn (new_host c hn)"
proof -
  let ?d = "(D ''host'' 1 1 (Set host_set))\<lparr>dir_new_level := LEVEL_HOST\<rparr>"
  have plain: "\<not> need_quote ''host''" by (rule name_chars_plain; code_simp)
  have line: "split (indent 0 @ ''host '' @ quote hn) = Some (0, Inr [''host'', hn])"
    using split_setting [OF plain, of 0 hn "[]"] by simp
  have d: "find_directive ''host'' = Some ?d"
    by (rule find_directive_named) (simp_all add: directives_def host_directives_def D_def)
  let ?loc = "cc_location cc\<lparr>loc_line := loc_line (cc_location cc) + 1\<rparr>"
  let ?c = "cc\<lparr>cc_location := ?loc, cc_bits := [''host'', hn]\<rparr>"
  have o: "at_top (cc_host ?c) (cc_volume ?c) ind" using assms(1) by simp
  have l: "dir_levels ?d AND LEVEL_TOP = LEVEL_TOP" by (simp add: D_def level_defs)
  from top.enter [OF o l] obtain ind' c' where c': "indent_check (dir_levels ?d) 0 ind = (LEVEL_TOP, ind')" "select_level LEVEL_TOP ?c = Inr c'"
    "top_node c'" "cc_conf c' = c" "cc_bits c' = [''host'', hn]"
    using assms(2) by auto
  obtain r where r: "in_stack ind = 0 # r" using assms(1) by (cases "in_stack ind") (auto simp: at_top_def)
  have ind': "in_stack ind' = [0]" using r c'(1) by (auto simp: indent_check_def level_defs D_def)
  have add: "addHost (new_host c hn) c = host_put c hn (new_host c hn)" by (simp add: addHost_def host_put_def new_host_def conf_base.defs)
  have set: "host_set env c' = Inr (c'\<lparr>cc_conf := host_put c hn (new_host c hn), cc_context := HostNode, cc_host := Some hn, cc_volume := None\<rparr>)"
    using c'(4,5) assms(3,4) add by (simp add: host_set_def arg_def)
  have check: "dir_check ?d c' = Inr ()"
    using c'(5) by (simp add: dir_check_def check_arguments_def D_def)
  have "read_line env inc (cc, ind) (indent 0 @ ''host '' @ quote hn) =
      Some (Inr (c'\<lparr>cc_conf := host_put c hn (new_host c hn), cc_context := HostNode, cc_host := Some hn, cc_volume := None\<rparr>,
                 indent_introduce LEVEL_HOST ind'))"
    unfolding read_line_def line
    using d c'(1,2) check set
    by (simp add: Let_def read_directive_def run_action_def located_def D_def)
  then show ?thesis using ind' by (auto simp: in_host_def indent_introduce_def intro!: exI)
qed

text \<open>
  C17: A host that is written is read back: all its settings and those of its volumes, provided that they can be
  written, and that the settings that are left out of the file where they are empty or zero are so for the parent.
\<close>

theorem host_read_back:
  assumes "at_top (cc_host cc) (cc_volume cc) ind" "findHost (h_name h) (cc_conf cc) = None"
    "host_writable c h" "base_writable (base_of c)" "forget_base (base_of (cc_conf cc)) = forget_base (base_of c)"
  shows "\<exists>cc' ind' h'. loop_option (read_line env inc) (cc, ind) (Host_write verbose 0 c h) = Some (Inr (cc', ind')) \<and>
    at_top (cc_host cc') (cc_volume cc') ind' \<and> host_read_as h h' \<and> cc_conf cc' = host_put (cc_conf cc) (h_name h) h'"
proof -
  let ?c = "cc_conf cc" and ?n = "h_name h"
  note w = assms(3) [unfolded host_writable_def]
  from reads_host_line [OF assms(1) refl _ assms(2), of env inc] w obtain cc1 ind1 where
    1: "read_line env inc (cc, ind) (indent 0 @ ''host '' @ quote ?n) = Some (Inr (cc1, ind1))"
    "in_host ?n (cc_host cc1) (cc_volume cc1) ind1" "cc_conf cc1 = host_put ?c ?n (new_host ?c ?n)" by blast
  have "node_reads env inc (in_host ?n) (host_put ?c ?n) (Host_lines verbose 4 c h) (host_settings c h)"
    by (rule reads_host_lines) (use w assms(4) in auto)
  then obtain cc2 ind2 g where 2: "loop_option (read_line env inc) (cc1, ind1) (Host_lines verbose 4 c h) = Some (Inr (cc2, ind2))"
    "in_host ?n (cc_host cc2) (cc_volume cc2) ind2" "cc_conf cc2 = host_put ?c ?n g" "forget g = host_settings c h (forget (new_host ?c ?n))"
    unfolding node_reads_def using 1(2,3) by blast
  have g: "forget g = (forget h)\<lparr>h_volumes := [], h_unknownVolumes := []\<rparr>" using 2(4) host_settings_new [OF assms(3,5)] by simp
  then have vols: "h_volumes g = []" using forget_host(5) [of g] by simp
  have base: "forget_base (base_of g) = forget_base (base_of h)"
    using arg_cong [OF g, of conf_base.truncate] by (simp add: forget_alt forget_base_def base_of_def conf_base.defs)
  have "sorted_wrt namelt (map fst (h_volumes g @ h_volumes h))" "\<forall>(n, v) \<in> set (h_volumes h). n = v_name v \<and> volume_writable h v"
    using w vols by auto
  from volumes_read_back [OF 2(2,3) _ base this(2,1), of env inc verbose] w obtain cc3 ind3 ws where
    3: "loop_option (read_line env inc) (cc2, ind2) (concat (map (\<lambda>(_, v). [] # Volume_write verbose 4 h v) (h_volumes h))) = Some (Inr (cc3, ind3))"
    "in_host ?n (cc_host cc3) (cc_volume cc3) ind3" "cc_conf cc3 = host_put ?c ?n (g\<lparr>h_volumes := ws\<rparr>)"
    "list_all2 (\<lambda>(n, v) (n', v'). n' = n \<and> forget v' = written_volume v) (h_volumes h) ws"
    using vols by auto
  have "loop_option (read_line env inc) (cc, ind) (Host_write verbose 0 c h) = Some (Inr (cc3, ind3))"
    using 1(1) 2(1) 3(1) by (simp add: Host_write_def loop_option_append)
  moreover have "at_top (cc_host cc3) (cc_volume cc3) ind3" using 3(2) by (auto simp: in_host_def at_top_def)
  moreover have "host_read_as h (g\<lparr>h_volumes := ws\<rparr>)" using g 3(4) by (simp add: host_read_as_def)
  ultimately show ?thesis using 3(3) by blast
qed

definition sample_written_host :: host where
  "sample_written_host = (let h = new_host (new_conf []) ''mercury'' in h\<lparr>h_volumes := [(''home'', new_volume h ''home'' ''/home'')]\<rparr>)"

lemma host_read_back_witness:
  "\<exists>cc' ind' h'.
     loop_option (read_line \<lparr>env_strtod = (\<lambda>_. (0, [], None)), env_glob = (\<lambda>_. Inr [])\<rparr> (\<lambda>_ _. None))
       (new_ctx (new_conf []) [], new_indenter) (Host_write True 0 (new_conf []) sample_written_host) = Some (Inr (cc', ind')) \<and>
     at_top (cc_host cc') (cc_volume cc') ind' \<and> host_read_as sample_written_host h' \<and> cc_conf cc' = host_put (new_conf []) ''mercury'' h'"
proof -
  have q: "\<not> need_quote ''daily''" "\<not> need_quote ''age''" by (rule name_chars_plain; code_simp)+
  note d = new_conf_def conf_base_default_def conf_base.defs
  have c: "base_writable (base_of (new_conf []))"
    using q by (simp add: base_writable_def base_of_def d parameters_writable_def int_range_def limits)
  have h: "base_of sample_written_host = (base_of (new_conf []))\<lparr>group := ''mercury''\<rparr>"
    by (simp add: sample_written_host_def Let_def new_host_def base_of_def conf_base_inherit_def d)
  have v: "base_of (new_volume sample_written_host n p) = base_of sample_written_host" for n p
    by (rule conf_base.equality) (simp_all add: new_volume_def base_of_def conf_base_inherit_def conf_base.defs)
  have vols: "h_volumes sample_written_host = [(''home'', new_volume sample_written_host ''home'' ''/home'')]"
    by (simp add: sample_written_host_def Let_def new_volume_def conf_base_inherit_def)
  have bw: "base_writable (base_of sample_written_host)" using c by (simp add: h base_writable_def)
  have i: "base_inherits (new_conf []) sample_written_host" "base_inherits sample_written_host (new_volume sample_written_host n p)" for n p
    by (simp_all add: base_inherits_def sample_written_host_def Let_def new_host_def new_volume_def conf_base_inherit_def d)
  have "host_valid ''mercury''" "volume_valid ''home''" by code_simp+
  moreover have n: "v_name (new_volume g n p) = n" "hostCheck (new_volume g n p) = hostCheck g" for g n p
    by (simp_all add: new_volume_def conf_base_inherit_def conf_base.defs)
  moreover have m: "h_name sample_written_host = ''mercury''" "hostCheck sample_written_host = [''ssh'']" "h_priority sample_written_host = 0"
    by (simp_all add: sample_written_host_def Let_def new_host_def conf_base_inherit_def d)
  ultimately have w: "host_writable (new_conf []) sample_written_host"
    using bw i v by (simp add: host_writable_def volume_writable_def vols host_check_ok_def limits)
  have "findHost (h_name sample_written_host) (new_conf []) = None" by (simp add: findHost_def d)
  then show ?thesis
    using host_read_back [of "new_ctx (new_conf []) []" new_indenter sample_written_host "new_conf []"
        "\<lparr>env_strtod = (\<lambda>_. (0, [], None)), env_glob = (\<lambda>_. Inr [])\<rparr>" "\<lambda>_ _. None" True, OF _ _ w c]
    by (simp add: at_top_def new_ctx_def new_indenter_def m)
qed

end
