(* ===== verification/Colors.thy ===== *)
theory Colors
  imports ConfWrite
begin

text \<open>
  Colours (\<^verbatim>\<open>src/Color.cc\<close>, \<^verbatim>\<open>src/Color.h\<close>, \<^verbatim>\<open>src/ColorStrategy.cc\<close>): what the definitions of
  \<open>ConfTypes\<close>, \<open>Directives\<close> and \<open>ConfWrite\<close> make of them.
\<close>

section \<open>Packing\<close>

lemma pack_component:
  assumes "0 \<le> k" "k \<le> 255"
  shows "pack (of_int k / 255) shift = k * 2 ^ shift"
proof -
  have "\<lfloor>255 * (of_int k / 255) + 0xFFFFFFFF / 2 ^ 33 :: real\<rfloor> = k" by (simp add: floor_eq_iff)
  then show ?thesis by (simp add: pack_def)
qed

lemma byte_range: "0 \<le> (n :: int) mod 256" "n mod 256 \<le> 255"
  using pos_mod_bound [of 256 n] by simp_all

text \<open>
  A packed colour is unpacked and packed again without loss.
\<close>

lemma color_round_trip:
  assumes "0 \<le> n" "n < 2 ^ 24"
  shows "rgb_of_color (color_of_rgb n) = n"
proof -
  have "rgb_of_color (color_of_rgb n) = (n div 2 ^ 16 mod 256) * 2 ^ 16 + (n div 2 ^ 8 mod 256) * 2 ^ 8 + n mod 256"
    unfolding rgb_of_color_def color_of_rgb_def Color_def color_component_def color.simps
    using pack_component [OF byte_range, of "n div 2 ^ 16" 16] pack_component [OF byte_range, of "n div 2 ^ 8" 8] pack_component [OF byte_range, of n 0]
    by simp
  also have "n div 2 ^ 16 mod 256 = n div 2 ^ 16" 
  proof (rule mod_pos_pos_trivial)
    show "0 \<le> n div 2 ^ 16" using assms by (simp add: pos_imp_zdiv_nonneg_iff)
    show "n div 2 ^ 16 < 256" using assms by simp
  qed
  also have "n div 2 ^ 16 * 2 ^ 16 + (n div 2 ^ 8 mod 256) * 2 ^ 8 + n mod 256 = n"
  proof -
    define q a b r where "q = n div 256" "a = q div 256" "b = q mod 256" "r = n mod 256"
    have "a * 256 + b = q" "q * 256 + r = n" unfolding q_a_b_r_def by (rule div_mult_mod_eq)+
    then have "a * 2 ^ 16 + b * 2 ^ 8 + r = n" by simp
    moreover have "n div 2 ^ 16 = a" using zdiv_zmult2_eq [of 256 n 256] by (simp add: q_a_b_r_def)
    ultimately show ?thesis by (simp add: q_a_b_r_def)
  qed
  finally show ?thesis .
qed

definition color_ok :: "color \<Rightarrow> bool" where
  "color_ok c \<longleftrightarrow> unit_range (red c) \<and> unit_range (green c) \<and> unit_range (blue c)"

lemma pack_range:
  assumes "unit_range x"
  shows "\<exists>k. 0 \<le> k \<and> k \<le> 255 \<and> (\<forall>shift. pack x shift = k * 2 ^ shift)"
proof -
  have "0 \<le> 255 * x + 0xFFFFFFFF / 2 ^ 33" "255 * x + 0xFFFFFFFF / 2 ^ 33 < 256" using assms by (simp_all add: unit_range_def)
  then have "0 \<le> \<lfloor>255 * x + 0xFFFFFFFF / 2 ^ 33\<rfloor>" "\<lfloor>255 * x + 0xFFFFFFFF / 2 ^ 33\<rfloor> \<le> 255" by linarith+
  then show ?thesis by (auto simp: pack_def)
qed

lemma rgb_range:
  assumes "color_ok c"
  shows "0 \<le> rgb_of_color c \<and> rgb_of_color c < 2 ^ 24"
proof -
  obtain r g b where "0 \<le> r" "r \<le> 255" "pack (red c) 16 = r * 2 ^ 16" "0 \<le> g" "g \<le> 255" "pack (green c) 8 = g * 2 ^ 8"
    "0 \<le> b" "b \<le> 255" "pack (blue c) 0 = b"
    using pack_range [of "red c"] pack_range [of "green c"] pack_range [of "blue c"] assms unfolding color_ok_def
    by (metis mult.right_neutral power_0)
  then show ?thesis by (simp add: rgb_of_color_def)
qed

section \<open>Hexadecimal\<close>

lemma hex_char_value: "d < 16 \<Longrightarrow> digit_value (hex_char d) = Some d"
proof -
  assume "d < 16"
  then have "d \<in> set [0..<16]" by simp
  moreover have "\<forall>d \<in> set [0..<16]. digit_value (hex_char d) = Some d" by code_simp
  ultimately show ?thesis by blast
qed

lemma hex_char_digit: "d < 16 \<Longrightarrow> is_radix_digit 16 (hex_char d)"
  by (simp add: is_radix_digit_def hex_char_value)

lemma show_hex_digits: "c \<in> set (show_hex_nat n) \<Longrightarrow> is_radix_digit 16 c"
proof (induction n rule: show_hex_nat.induct)
  case (1 n)
  then show ?case by (cases "n < 16") (auto simp: show_hex_nat.simps [of n] hex_char_digit)
qed

lemma show_hex_not_empty [simp]: "show_hex_nat n \<noteq> []"
  by (subst show_hex_nat.simps) simp

lemma scan_show_hex: "scan_digits 16 0 (show_hex_nat n) = (n, [])"
proof -
  have "fst (scan_digits 16 0 (show_hex_nat n)) = n"
  proof (induction n rule: show_hex_nat.induct)
    case (1 n)
    show ?case
    proof (cases "n < 16")
      case True
      then show ?thesis by (simp add: show_hex_nat.simps [of n] hex_char_digit hex_char_value)
    next
      case False
      have "\<forall>c \<in> set (show_hex_nat (n div 16)). is_radix_digit 16 c" using show_hex_digits by blast
      with False 1 show ?thesis
        by (simp add: show_hex_nat.simps [of n] scan_digits_append hex_char_digit hex_char_value)
    qed
  qed
  then show ?thesis using scan_digits_all [of "show_hex_nat n" 16 0] show_hex_digits by (metis prod.collapse)
qed

lemma show_color_digits: "c \<in> set (show_color x) \<Longrightarrow> is_radix_digit 16 c"
  by (auto simp: show_color_def Let_def is_radix_digit_def digit_value_def c_isdigit_def dest: show_hex_digits split: if_splits)


text \<open>What is printed of a colour is read as its packed form.\<close>

lemma parse_show_color:
  assumes "color_ok c"
  shows "parseInteger (''0x'' @ show_color c) 0 0xFFFFFF 0 = Inr (rgb_of_color c)"
proof -
  let ?s = "show_color c"
  obtain m where m: "rgb_of_color c = int m" using rgb_range [OF assms] nonneg_int_cases by blast
  then have n: "int m < 2 ^ 24" using rgb_range [OF assms] by simp
  have zero: "scan_digits 16 0 (replicate k CHR ''0'' @ t) = scan_digits 16 0 t" for k t
    by (induction k) (simp_all add: is_radix_digit_def digit_value_def c_isdigit_def)
  have scan: "scan_digits 16 0 ?s = (m, [])" by (simp add: show_color_def Let_def zero scan_show_hex m)
  obtain a t where a: "?s = a # t" by (cases ?s) (auto simp: show_color_def Let_def)
  then have d: "is_radix_digit 16 a" using show_color_digits [of a c] by simp
  have nul: "takeWhile (\<lambda>c. c \<noteq> CHR 0x00) ?s = ?s"
    using show_color_digits [of "CHR 0x00" c]
    by (auto simp: takeWhile_eq_all_conv is_radix_digit_def digit_value_def c_isdigit_def c_islower_def c_isupper_def)
  have "strtoll (''0x'' @ ?s) 0 = (int m, [], False)"
    using n scan d by (simp add: strtoll_def split_sign_def split_radix_def hex_prefixed_def c_isspace_def a Let_def limits)
  then show ?thesis using n by (simp add: parseInteger_def nul Let_def m)
qed

text \<open>
  A colour that is written to the configuration is read back as the packed colour, which is printed in the same
  way again.
\<close>

theorem written_color_read_back:
  assumes "color_ok c" "cc_bits cc = [name, ''0x'' @ show_color c]"
  shows "get_color env cc = Inr (color_of_rgb (rgb_of_color c)) \<and> show_color (color_of_rgb (rgb_of_color c)) = show_color c"
  using assms parse_show_color [OF assms(1)] color_round_trip [of "rgb_of_color c"] rgb_range [OF assms(1)]
  by (simp add: get_color_def arg_def show_color_def)


lemma written_color_read_back_witness:
  "get_color \<lparr>env_strtod = (\<lambda>_. (0, [], None)), env_glob = (\<lambda>_. Inr [])\<rparr>
     ((new_ctx (new_conf []) [])\<lparr>cc_bits := [''color-good'', ''0x'' @ show_color (Color 0 1 (1/2))]\<rparr>) =
   Inr (color_of_rgb (rgb_of_color (Color 0 1 (1/2))))"
  by (rule conjunct1 [OF written_color_read_back]) (simp_all add: color_ok_def Color_def unit_range_def)

section \<open>Hue, saturation and value\<close>

lemma fmod_range:
  assumes "0 \<le> x" "0 < y"
  shows "0 \<le> fmod x y \<and> fmod x y < y"
proof -
  have "0 \<le> x / y" using assms by simp
  then have f: "fmod x y = x - y * of_int \<lfloor>x / y\<rfloor>" by (simp add: fmod_def)
  have "of_int \<lfloor>x / y\<rfloor> * y \<le> x" "x < (of_int \<lfloor>x / y\<rfloor> + 1) * y"
    using floor_divide_lower [OF assms(2), of x] floor_divide_upper [OF assms(2), of x] by simp_all
  then show ?thesis unfolding f by (simp add: algebra_simps)
qed

text \<open>
  A colour made from a hue that is not negative, a saturation and a value lies in the range of colours; its greatest
  component is the value, and its least is the value less the chroma.
\<close>

theorem hsv_in_range:
  assumes "0 \<le> h" "unit_range s" "unit_range v"
  shows "color_ok (HSV h s v) \<and>
    max (red (HSV h s v)) (max (green (HSV h s v)) (blue (HSV h s v))) = v \<and>
    min (red (HSV h s v)) (min (green (HSV h s v)) (blue (HSV h s v))) = v - v * s"
proof -
  let ?h = "fmod h 360" let ?hp = "?h / 60" let ?c = "v * s" let ?x = "?c * (1 - \<bar>fmod ?hp 2 - 1\<bar>)"
  have hp: "0 \<le> ?hp" using fmod_range [OF assms(1), of 360] by simp
  have "\<bar>fmod ?hp 2 - 1\<bar> \<le> 1" using fmod_range [OF hp, of 2] by (simp add: abs_le_iff)
  then have k: "0 \<le> 1 - \<bar>fmod ?hp 2 - 1\<bar>" "1 - \<bar>fmod ?hp 2 - 1\<bar> \<le> 1" by simp_all
  have c: "0 \<le> ?c" "?c \<le> v" using assms by (simp_all add: unit_range_def mult_left_le)
  have x: "0 \<le> ?x" "?x \<le> ?c" using k c(1) by (simp, metis c(1) k(2) mult_left_le)
  define C where "C = ?c"
  define X where "X = ?x"
  have b: "0 \<le> C" "C \<le> v" "0 \<le> X" "X \<le> C" "v \<le> 1" "0 \<le> v" using c x assms(3) by (simp_all add: C_def X_def unit_range_def)
  have hsv: "HSV h s v =
      (let (r1, g1, b1) =
         (if ?hp < 1 then (C, X, 0) else if ?hp < 2 then (X, C, 0) else if ?hp < 3 then (0, C, X)
          else if ?hp < 4 then (0, X, C) else if ?hp < 5 then (X, 0, C) else (C, 0, X))
       in Color (r1 + (v - C)) (g1 + (v - C)) (b1 + (v - C)))"
    unfolding HSV_def Let_def C_def X_def ..
  show ?thesis
    unfolding hsv C_def [symmetric] using b by (auto simp: Let_def Color_def color_ok_def unit_range_def)
qed

lemma hsv_in_range_witness: "color_ok (HSV 120 (3/4) 1)"
  using hsv_in_range [of 120 "3/4" 1] by (simp add: unit_range_def)

text \<open>
  A negative hue, which the configuration accepts, is not brought into the range of hues: the colour has a negative
  component.
\<close>

theorem negative_hue: "green (HSV (-90) 1 1) = - (3/2)" "\<not> color_ok (HSV (-90) 1 1)"
proof -
  have 1: "fmod (- 90) 360 = - 90" "fmod (- (3/2)) 2 = - (3/2)" by (simp_all add: fmod_def ceiling_eq_iff)
  show g: "green (HSV (-90) 1 1) = - (3/2)" using 1 by (simp add: HSV_def Let_def Color_def)
  show "\<not> color_ok (HSV (-90) 1 1)" unfolding color_ok_def unit_range_def g by simp
qed

end
