(* ===== verification/Documents.thy ===== *)
theory Documents
  imports ConfText
begin

text \<open>
  The document tree of \<^verbatim>\<open>src/Document.h\<close> and \<^verbatim>\<open>src/Document.cc\<close>, and its rendering as text (\<^verbatim>\<open>src/Text.cc\<close>): words are
  wrapped, and tables are laid out in columns.  A node has its children in it; the map of a table from positions to
  cells has the entries that were made last in front.  A text is what is written to the stream.
\<close>

section \<open>The tree\<close>

record node_attrs =
  n_style :: string
  n_fgcolor :: int
  n_bgcolor :: int

definition new_attrs :: node_attrs where
  "new_attrs = \<lparr>n_style = [], n_fgcolor = -1, n_bgcolor = -1\<rparr>"

datatype list_type = UnorderedList | OrderedList

datatype 'n cell =
  Cell (cell_attrs: node_attrs) (cell_nodes: "'n list") (cell_heading: bool) (cell_x: int) (cell_y: int) (cell_w: int) (cell_h: int)

datatype 'n table =
  Table (t_x: int) (t_y: int) (t_width: int) (t_height: int) (t_cellMap: "((int \<times> int) \<times> 'n cell) list")

datatype node =
    StringNode node_attrs string
  | LinearContainer node_attrs "node list"
  | Paragraph node_attrs "node list"
  | Verbatim node_attrs "node list"
  | ListNode node_attrs list_type "node list"
  | ListEntry node_attrs "node list"
  | Heading node_attrs int "node list"
  | TableNode node_attrs "node table"
  | ImageNode node_attrs string string
  | RootContainer node_attrs "node list"

definition new_table :: "'n table" where
  "new_table = Table 0 0 0 0 []"

text \<open>\<open>Cell(s, w, h, heading)\<close> with a style, and a cell of one column and one row.\<close>

definition new_cell :: "string \<Rightarrow> string \<Rightarrow> int \<Rightarrow> int \<Rightarrow> bool \<Rightarrow> node cell" where
  "new_cell style s w h heading = Cell (new_attrs\<lparr>n_style := style\<rparr>) [StringNode new_attrs s] heading 0 0 w h"

definition findOverlappingCell :: "int \<Rightarrow> int \<Rightarrow> 'n table \<Rightarrow> 'n cell option" where
  "findOverlappingCell x y t = map_of (t_cellMap t) (x, y)"

definition findRootedCell :: "int \<Rightarrow> int \<Rightarrow> 'n table \<Rightarrow> 'n cell option" where
  "findRootedCell x y t =
     (case findOverlappingCell x y t of
        None \<Rightarrow> None
      | Some c \<Rightarrow> if cell_x c = x \<and> cell_y c = y then Some c else None)"

text \<open>The positions of a cell, and the addition of a cell at a position.\<close>

definition cell_area :: "'n cell \<Rightarrow> (int \<times> int) list" where
  "cell_area c = [(x, y). x \<leftarrow> [cell_x c..cell_x c + cell_w c - 1], y \<leftarrow> [cell_y c..cell_y c + cell_h c - 1]]"

definition addCell_at :: "'n cell \<Rightarrow> int \<Rightarrow> int \<Rightarrow> 'n table \<Rightarrow> 'n table" where
  "addCell_at c x y t =
     (let c = Cell (cell_attrs c) (cell_nodes c) (cell_heading c) x y (cell_w c) (cell_h c)
      in Table (t_x t) (t_y t) (max (t_width t) (cell_x c + cell_w c)) (max (t_height t) (cell_y c + cell_h c))
           (map (\<lambda>p. (p, c)) (cell_area c) @ t_cellMap t))"

text \<open>The next position of the row that is free; the map is finite.\<close>

function next_free :: "((int \<times> int) \<times> 'n cell) list \<Rightarrow> int \<Rightarrow> int \<Rightarrow> int" where
  "next_free m x y = (if map_of m (x, y) \<noteq> None then next_free m (x + 1) y else x)"
  by auto
termination
proof (relation "measure (\<lambda>(m, x, y). card {p \<in> fst ` set m. x \<le> fst p})")
  fix m :: "((int \<times> int) \<times> 'n cell) list" and x y :: int
  assume "map_of m (x, y) \<noteq> None"
  then have "(x, y) \<in> fst ` set m" by (metis map_of_eq_None_iff)
  then have "{p \<in> fst ` set m. x + 1 \<le> fst p} \<subset> {p \<in> fst ` set m. x \<le> fst p}" by force
  then show "((m, x + 1, y), m, x, y) \<in> measure (\<lambda>(m, x, y). card {p \<in> fst ` set m. x \<le> fst p})"
    by (auto intro!: psubset_card_mono)
qed simp

declare next_free.simps [simp del]

definition addCell :: "'n cell \<Rightarrow> 'n table \<Rightarrow> 'n table" where
  "addCell c t =
     (case addCell_at c (t_x t) (t_y t) t of Table x y w h m \<Rightarrow> Table (next_free m x y) y w h m)"

definition newRow :: "'n table \<Rightarrow> 'n table" where
  "newRow t = Table (next_free (t_cellMap t) 0 (t_y t + 1)) (t_y t + 1) (t_width t) (t_height t) (t_cellMap t)"

section \<open>Wrapping of words\<close>

definition DEFAULT_TEXT_WIDTH :: nat where
  "DEFAULT_TEXT_WIDTH = 80"

text \<open>
  \<open>wordWrapText\<close>: what is written from the text that is left, with the width \<open>x\<close> of the line so far.  The
  variable \<open>first\<close> of the code is never changed.
\<close>

function wrap_words :: "nat \<Rightarrow> nat \<Rightarrow> bool \<Rightarrow> nat \<Rightarrow> string \<Rightarrow> string" where
  "wrap_words width ind indentFirst x [] = (if x \<noteq> 0 then [LF] else [])"
| "wrap_words width ind indentFirst x (c # cs) =
     (if c_isspace c then wrap_words width ind indentFirst x cs
      else let word = takeWhile (\<lambda>c. \<not> c_isspace c) (c # cs); n = length word;
               (sep, x) = (if x \<noteq> 0 then if x + n + 1 \<le> width then ([SP], x + 1) else ([LF], 0)
                           else (if indentFirst then replicate ind SP else [], x))
           in sep @ word @ wrap_words width ind indentFirst (x + n) (dropWhile (\<lambda>c. \<not> c_isspace c) (c # cs)))"
  by pat_completeness auto
termination
  by (relation "measure (\<lambda>(_, _, _, _, s). length s)")
    (auto simp: less_Suc_eq_le intro: length_dropWhile_le)

definition wordWrapText :: "nat \<Rightarrow> nat \<Rightarrow> bool \<Rightarrow> string \<Rightarrow> string" where
  "wordWrapText width ind indentFirst s = wrap_words width ind indentFirst 0 s"

section \<open>Text\<close>

text \<open>\<open>renderTextContents\<close>: the texts of the children one after the other, up to an exception.\<close>

definition text_contents :: "string result list \<Rightarrow> string result" where
  "text_contents rs = fold_result (\<lambda>out r. rbind r (\<lambda>s. Inr (out @ s))) [] rs"

text \<open>A size that is less than another one is subtracted modulo \<open>2 ^ 64\<close>.\<close>

definition size_minus :: "nat \<Rightarrow> nat \<Rightarrow> nat" where
  "size_minus a b = (if b \<le> a then a - b else nat ((int a - int b) mod 2 ^ 64))"

definition list_prefix :: "list_type \<Rightarrow> nat \<Rightarrow> string" where
  "list_prefix ty n = (case ty of OrderedList \<Rightarrow> [SP] @ show_nat (n + 1) @ ''. '' | UnorderedList \<Rightarrow> '' * '')"

fun list_text :: "nat \<Rightarrow> list_type \<Rightarrow> nat \<Rightarrow> string result list \<Rightarrow> string result" where
  "list_text width ty n [] = Inr [LF]"
| "list_text width ty n (r # rs) =
     rbind r (\<lambda>s.
       let prefix = list_prefix ty n;
           entry = (case ty of OrderedList \<Rightarrow> prefix | UnorderedList \<Rightarrow> []) @ prefix @
             wordWrapText (size_minus width (length prefix)) (length prefix) False s
       in rbind (list_text width ty (n + 1) rs) (\<lambda>rest. Inr (entry @ rest)))"

definition heading_text :: "int \<Rightarrow> string result \<Rightarrow> string result" where
  "heading_text level contents =
     (if 6 < level then Inl (RuntimeError ''heading level too high'')
      else let around = (\<lambda>before after. rbind contents (\<lambda>s. Inr (before @ s @ after @ [LF, LF])))
           in if level = 1 then around ''==== '' '' ====''
              else if level = 2 then around ''=== '' '' ===''
              else if level = 3 then around ''== '' '' ==''
              else if 4 \<le> level \<and> level \<le> 6 then around ''* '' []
              else Inr [LF])"

section \<open>Tables\<close>

definition cell_text :: "string result cell \<Rightarrow> string result" where
  "cell_text c = text_contents (cell_nodes c)"

text \<open>First pass: the width of a column is that of the widest cell of one column.\<close>

definition column_width :: "string result table \<Rightarrow> int \<Rightarrow> nat result" where
  "column_width t x =
     fold_result (\<lambda>w y.
         case findOverlappingCell x y t of
           None \<Rightarrow> Inr w
         | Some c \<Rightarrow> if cell_w c = 1 then rbind (cell_text c) (\<lambda>s. Inr (if w < length s then length s else w)) else Inr w)
       0 [0..t_height t - 1]"

definition columnWidths :: "string result table \<Rightarrow> nat list result" where
  "columnWidths t = fold_result (\<lambda>ws x. rbind (column_width t x) (\<lambda>w. Inr (ws @ [w]))) [] [0..t_width t - 1]"

text \<open>The space of a cell over \<open>w\<close> columns; a column that is not there is undefined behaviour.\<close>

definition availableWidth :: "nat list \<Rightarrow> int \<Rightarrow> int \<Rightarrow> nat result" where
  "availableWidth ws x w =
     (if 0 < w \<and> (x < 0 \<or> int (length ws) < x + w) then Inl UndefinedBehaviour
      else Inr (nat (3 * (w - 1)) + sum_list (take (nat w) (drop (nat x) ws))))"

text \<open>Second pass: a cell of more columns that lacks space widens its first column.\<close>

definition widen_column :: "string result table \<Rightarrow> int \<Rightarrow> nat list \<Rightarrow> int \<Rightarrow> nat list result" where
  "widen_column t x ws y =
     (case findOverlappingCell x y t of
        None \<Rightarrow> Inr ws
      | Some c \<Rightarrow>
          if cell_x c = x \<and> 1 < cell_w c
          then rbind (cell_text c) (\<lambda>s. rbind (availableWidth ws x (cell_w c)) (\<lambda>available.
                 if length s \<le> available then Inr ws
                 else Inr (ws[nat x := ws ! nat x + (length s - available)])))
          else Inr ws)"

definition widen_columns :: "string result table \<Rightarrow> nat list \<Rightarrow> nat list result" where
  "widen_columns t ws = fold_result (\<lambda>ws x. fold_result (widen_column t x) ws [0..t_height t - 1]) ws [0..t_width t - 1]"

text \<open>Third pass: what a position of a row contributes, the rows, and the table.\<close>

definition filled_cell :: "nat list \<Rightarrow> int \<Rightarrow> string result cell \<Rightarrow> string result" where
  "filled_cell ws x c =
     rbind (availableWidth ws x (cell_w c)) (\<lambda>available. rbind (cell_text c) (\<lambda>s.
       let left = size_minus available (length s); before = (if cell_heading c then left div 2 else 0)
       in Inr ((if x \<noteq> 0 then [SP] else []) @ ''| '' @ replicate before SP @ s @ replicate (left - before) SP)))"

definition empty_cell :: "nat list \<Rightarrow> int \<Rightarrow> string" where
  "empty_cell ws x = (if x \<noteq> 0 then [SP] else []) @ ''| '' @ replicate (ws ! nat x) SP"

definition position_text :: "string result table \<Rightarrow> nat list \<Rightarrow> int \<Rightarrow> int \<Rightarrow> string result" where
  "position_text t ws y x =
     (case findOverlappingCell x y t of
        Some c \<Rightarrow>
          if cell_y c = y then if cell_x c = x then filled_cell ws x c else Inr []
          else Inr (empty_cell ws x)
      | None \<Rightarrow> Inr (empty_cell ws x))"

definition row_text :: "string result table \<Rightarrow> nat list \<Rightarrow> int \<Rightarrow> string result" where
  "row_text t ws y = rbind (text_contents (map (position_text t ws y) [0..t_width t - 1])) (\<lambda>s. Inr (s @ ''|'' @ [LF]))"

definition table_text :: "string result table \<Rightarrow> string result" where
  "table_text t =
     rbind (columnWidths t) (\<lambda>ws. rbind (widen_columns t ws) (\<lambda>ws.
       rbind (text_contents (map (row_text t ws) [0..t_height t - 1])) (\<lambda>s. Inr (s @ [LF]))))"

section \<open>The rendering of a document\<close>

primrec renderText :: "nat \<Rightarrow> node \<Rightarrow> string result" where
  "renderText width (StringNode a s) = Inr s"
| "renderText width (LinearContainer a ns) = text_contents (map (renderText width) ns)"
| "renderText width (Paragraph a ns) =
     rbind (text_contents (map (renderText width) ns)) (\<lambda>s. Inr (wordWrapText width 0 True s @ [LF]))"
| "renderText width (Verbatim a ns) = rbind (text_contents (map (renderText width) ns)) (\<lambda>s. Inr (s @ [LF]))"
| "renderText width (ListNode a ty ns) = list_text width ty 0 (map (renderText width) ns)"
| "renderText width (ListEntry a ns) = text_contents (map (renderText width) ns)"
| "renderText width (Heading a level ns) = heading_text level (text_contents (map (renderText width) ns))"
| "renderText width (TableNode a t) = table_text (map_table (renderText width) t)"
| "renderText width (ImageNode a ty content) = Inr []"
| "renderText width (RootContainer a ns) = text_contents (map (renderText width) ns)"

text \<open>The document; \<open>Report\<close> appends to its contents.\<close>

record document =
  doc_content :: "node list"
  doc_title :: string
  doc_htmlStyleSheet :: string

definition new_document :: document where
  "new_document = \<lparr>doc_content = [], doc_title = [], doc_htmlStyleSheet = []\<rparr>"

definition document_append :: "node \<Rightarrow> document \<Rightarrow> document" where
  "document_append n d = d\<lparr>doc_content := doc_content d @ [n]\<rparr>"

definition document_heading :: "string \<Rightarrow> int \<Rightarrow> document \<Rightarrow> document" where
  "document_heading text level = document_append (Heading new_attrs level [StringNode new_attrs text])"

definition document_para :: "string \<Rightarrow> document \<Rightarrow> document" where
  "document_para text = document_append (Paragraph new_attrs [StringNode new_attrs text])"

definition document_renderText :: "nat \<Rightarrow> document \<Rightarrow> string result" where
  "document_renderText width d = renderText width (RootContainer new_attrs (doc_content d))"

end
