(* ===== verification/Base64.thy ===== *)
theory Base64
  imports Prelude "HOL-Library.Word"
begin

unbundle bit_operations_syntax

text \<open>
  \<open>write_base64\<close> of \<^verbatim>\<open>src/base64.cc\<close>: groups of three bytes in an \<open>unsigned\<close>, four characters for each, and lines of 76
  characters.  The text is decoded by a reference decoder.
\<close>

section \<open>Encoding\<close>

definition rfc4648_base64 :: string where
  "rfc4648_base64 = ''ABCDEFGHIJKLMNOPQRSTUVWXYZabcdefghijklmnopqrstuvwxyz0123456789+/=''"

text \<open>The bytes of a group and the bits of it that are not there.\<close>

definition byte :: "char \<Rightarrow> 32 word" where
  "byte c = of_nat (of_char c)"

definition base64_group :: "string \<Rightarrow> 32 word \<times> int" where
  "base64_group s =
     (case s of
        [] \<Rightarrow> (0, 24)
      | [a] \<Rightarrow> (256 * (256 * byte a), 16)
      | [a, b] \<Rightarrow> (256 * (256 * byte a + byte b), 8)
      | a # b # c # _ \<Rightarrow> (256 * (256 * byte a + byte b) + byte c, 0))"

text \<open>The loops over \<open>bit\<close>: the characters of the bits that are there, and the padding.\<close>

definition base64_char :: "string \<Rightarrow> 32 word \<Rightarrow> nat \<Rightarrow> char" where
  "base64_char alphabet b n = alphabet ! unat (drop_bit n b AND 0x3F)"

function base64_padding :: "string \<Rightarrow> int \<Rightarrow> string" where
  "base64_padding alphabet pos = (if 0 \<le> pos then alphabet ! 64 # base64_padding alphabet (pos - 6) else [])"
  by auto
termination
  by (relation "measure (\<lambda>(_, pos). nat (pos + 6))") auto

function base64_digits :: "string \<Rightarrow> 32 word \<Rightarrow> int \<Rightarrow> int \<Rightarrow> string" where
  "base64_digits alphabet b bitlimit pos =
     (if bitlimit < pos + 6 then base64_char alphabet b (nat pos) # base64_digits alphabet b bitlimit (pos - 6)
      else base64_padding alphabet pos)"
  by auto
termination
  by (relation "measure (\<lambda>(_, _, bitlimit, pos). nat (pos + 6 - bitlimit))") auto

declare base64_padding.simps [simp del] base64_digits.simps [simp del]

text \<open>The groups, with the length of the line so far.\<close>

function base64_lines :: "string \<Rightarrow> nat \<Rightarrow> string \<Rightarrow> string" where
  "base64_lines alphabet off s =
     (if s = [] then []
      else let (b, bitlimit) = base64_group s; digits = base64_digits alphabet b bitlimit 18; off = off + length digits
           in digits @ (if 76 \<le> off then [CHR 0x0A] @ base64_lines alphabet 0 (drop 3 s) else base64_lines alphabet off (drop 3 s)))"
  by auto
termination
  by (relation "measure (\<lambda>(_, _, s). length s)") auto

declare base64_lines.simps [simp del]

definition write_base64 :: "string \<Rightarrow> string" where
  "write_base64 s = base64_lines rfc4648_base64 0 s"

section \<open>Decoding\<close>

definition base64_value :: "char \<Rightarrow> nat option" where
  "base64_value c = map_of (zip (take 64 rfc4648_base64) [0..<64]) c"

fun base64_decode :: "string \<Rightarrow> string option" where
  "base64_decode [] = Some []"
| "base64_decode (a # b # c # d # s) =
     (case (base64_value a, base64_value b, base64_value c, base64_value d) of
        (Some a', Some b', Some c', Some d') \<Rightarrow>
          map_option ((@) [char_of (a' * 4 + b' div 16), char_of (b' mod 16 * 16 + c' div 4), char_of (c' mod 4 * 64 + d')]) (base64_decode s)
      | (Some a', Some b', Some c', None) \<Rightarrow>
          if d = CHR ''='' \<and> s = [] then Some [char_of (a' * 4 + b' div 16), char_of (b' mod 16 * 16 + c' div 4)] else None
      | (Some a', Some b', None, None) \<Rightarrow>
          if c = CHR ''='' \<and> d = CHR ''='' \<and> s = [] then Some [char_of (a' * 4 + b' div 16)] else None
      | _ \<Rightarrow> None)"
| "base64_decode _ = None"

lemma base64_alphabet:
  assumes "v < 64"
  shows "base64_value (rfc4648_base64 ! v) = Some v" "rfc4648_base64 ! v \<noteq> CHR 0x0A"
proof -
  have "list_all (\<lambda>v. base64_value (rfc4648_base64 ! v) = Some v \<and> rfc4648_base64 ! v \<noteq> CHR 0x0A) [0..<64]" by code_simp
  then show "base64_value (rfc4648_base64 ! v) = Some v" "rfc4648_base64 ! v \<noteq> CHR 0x0A" using assms by (auto simp: list_all_iff)
qed

lemma base64_pad: "rfc4648_base64 ! 64 = CHR ''=''" "base64_value CHR ''='' = None"
  by code_simp+

lemma base64_char_word:
  assumes "n < 2 ^ 24"
  shows "base64_char alphabet (of_nat n) k = alphabet ! (n div 2 ^ k mod 64)"
proof -
  have n: "unat (of_nat n :: 32 word) = n" using assms by (simp add: unat_of_nat)
  have m: "(0x3F :: 32 word) = mask 6" by (simp add: mask_eq_exp_minus_1)
  have "unat (drop_bit k (of_nat n :: 32 word) AND 0x3F) = take_bit 6 (drop_bit k n)"
    unfolding m take_bit_eq_mask [symmetric] unsigned_take_bit_eq unat_drop_bit_eq n ..
  then have "unat (drop_bit k (of_nat n :: 32 word) AND 0x3F) = n div 2 ^ k mod 64"
    by (simp add: drop_bit_eq_div take_bit_eq_mod)
  then show ?thesis by (simp add: base64_char_def)
qed

lemma base64_digits_unfold:
  "base64_digits al b 0 18 = [base64_char al b 18, base64_char al b 12, base64_char al b 6, base64_char al b 0]"
  "base64_digits al b 8 18 = [base64_char al b 18, base64_char al b 12, base64_char al b 6, al ! 64]"
  "base64_digits al b 16 18 = [base64_char al b 18, base64_char al b 12, al ! 64, al ! 64]"
  by (simp_all add: base64_digits.simps base64_padding.simps)

text \<open>The characters of a group and what they decode to.\<close>

lemma sextets:
  assumes "(n :: nat) < 2 ^ 24"
  shows "n div 2 ^ 18 mod 64 = n div 2 ^ 18"
    "n div 2 ^ 18 * 4 + n div 2 ^ 12 mod 64 div 16 = n div 65536"
    "n div 2 ^ 12 mod 64 mod 16 * 16 + n div 2 ^ 6 mod 64 div 4 = n div 256 mod 256"
    "n div 2 ^ 6 mod 64 mod 4 * 64 + n mod 64 = n mod 256"
proof -
  show "n div 2 ^ 18 mod 64 = n div 2 ^ 18" using assms by (simp add: less_mult_imp_div_less)
  have d: "n div 2 ^ 18 = n div 2 ^ 12 div 64" "n div 65536 = n div 2 ^ 12 div 16" "n div 2 ^ 12 = n div 2 ^ 6 div 64"
    "n div 256 = n div 2 ^ 6 div 4" by (simp_all add: div_mult2_eq [symmetric])
  have high: "m div 64 * 4 + m mod 64 div 16 = m div 16" for m :: nat
    using mod_mult2_eq [of m 16 4] by (simp add: div_mult2_eq [of m 16 4, simplified])
  show "n div 2 ^ 18 * 4 + n div 2 ^ 12 mod 64 div 16 = n div 65536" unfolding d(1,2) by (rule high)
  have m: "m mod 64 div 4 = m div 4 mod 16" "m div 64 = m div 4 div 16" for m :: nat
    using mod_mult2_eq [of m 4 16] by (simp_all add: div_mult2_eq [symmetric])
  have "m div 64 mod 64 mod 16 * 16 + m mod 64 div 4 = m div 4 mod 256" for m :: nat
    using mod_mult2_eq [of "m div 4" 16 16] by (simp add: m mod_mod_cancel)
  then show "n div 2 ^ 12 mod 64 mod 16 * 16 + n div 2 ^ 6 mod 64 div 4 = n div 256 mod 256" unfolding d(3,4) .
  show "n div 2 ^ 6 mod 64 mod 4 * 64 + n mod 64 = n mod 256"
    using mod_mult2_eq [of n 64 4] by (simp add: mod_mod_cancel)
qed

abbreviation b64 :: "nat \<Rightarrow> char" where
  "b64 v \<equiv> rfc4648_base64 ! v"

text \<open>What a group is written as: the sextets of its bytes, and the padding.\<close>

definition group_text :: "string \<Rightarrow> string" where
  "group_text s = (case base64_group s of (b, bitlimit) \<Rightarrow> base64_digits rfc4648_base64 b bitlimit 18)"

lemma group_texts:
  fixes a b c :: char
  defines "n \<equiv> of_char a * 65536 + of_char b * 256 + (of_char c :: nat)"
    and "m \<equiv> of_char a * 65536 + of_char b * (256 :: nat)" and "l \<equiv> of_char a * (65536 :: nat)"
  shows "group_text (a # b # c # s) = [b64 (n div 2 ^ 18 mod 64), b64 (n div 2 ^ 12 mod 64), b64 (n div 2 ^ 6 mod 64), b64 (n mod 64)]"
    "group_text [a, b] = [b64 (m div 2 ^ 18 mod 64), b64 (m div 2 ^ 12 mod 64), b64 (m div 2 ^ 6 mod 64), CHR ''='']"
    "group_text [a] = [b64 (l div 2 ^ 18 mod 64), b64 (l div 2 ^ 12 mod 64), CHR ''='', CHR ''='']"
    "n < 2 ^ 24" "m < 2 ^ 24" "l < 2 ^ 24"
proof -
  have p: "(2 :: nat) ^ 24 = 16777216" by simp
  show less: "n < 2 ^ 24" "m < 2 ^ 24" "l < 2 ^ 24"
    unfolding p n_def m_def l_def using nat_of_char_less_256 [of a] nat_of_char_less_256 [of b] nat_of_char_less_256 [of c] by linarith+
  have w: "256 * (256 * byte a + byte b) + byte c = of_nat n" "256 * (256 * byte a + byte b) = of_nat m" "256 * (256 * byte a) = of_nat l"
    by (simp_all add: byte_def n_def m_def l_def algebra_simps)
  show "group_text (a # b # c # s) = [b64 (n div 2 ^ 18 mod 64), b64 (n div 2 ^ 12 mod 64), b64 (n div 2 ^ 6 mod 64), b64 (n mod 64)]"
    using less(1) by (simp only: group_text_def base64_group_def list.case prod.case w(1) base64_digits_unfold(1) base64_char_word) simp
  show "group_text [a, b] = [b64 (m div 2 ^ 18 mod 64), b64 (m div 2 ^ 12 mod 64), b64 (m div 2 ^ 6 mod 64), CHR ''='']"
    using less(2) by (simp only: group_text_def base64_group_def list.case prod.case w(2) base64_digits_unfold(2) base64_char_word base64_pad) 
  show "group_text [a] = [b64 (l div 2 ^ 18 mod 64), b64 (l div 2 ^ 12 mod 64), CHR ''='', CHR ''='']"
    using less(3) by (simp only: group_text_def base64_group_def list.case prod.case w(3) base64_digits_unfold(3) base64_char_word base64_pad)
qed

lemma decode_b64:
  assumes "a < 64" "b < 64"
  shows "c < 64 \<Longrightarrow> d < 64 \<Longrightarrow> base64_decode (b64 a # b64 b # b64 c # b64 d # rest) =
      map_option ((@) [char_of (a * 4 + b div 16), char_of (b mod 16 * 16 + c div 4), char_of (c mod 4 * 64 + d)]) (base64_decode rest)"
    "c < 64 \<Longrightarrow> base64_decode [b64 a, b64 b, b64 c, CHR ''=''] = Some [char_of (a * 4 + b div 16), char_of (b mod 16 * 16 + c div 4)]"
    "base64_decode [b64 a, b64 b, CHR ''='', CHR ''=''] = Some [char_of (a * 4 + b div 16)]"
  using assms by (simp_all only: base64_decode.simps base64_alphabet(1) base64_pad option.case prod.case if_True simp_thms)

lemma decode_sextets:
  fixes n :: nat
  assumes "n < 2 ^ 24"
  defines "x \<equiv> char_of (n div 65536) :: char" and "y \<equiv> char_of (n div 256 mod 256) :: char" and "z \<equiv> char_of (n mod 256) :: char"
  shows "base64_decode (b64 (n div 2 ^ 18 mod 64) # b64 (n div 2 ^ 12 mod 64) # b64 (n div 2 ^ 6 mod 64) # b64 (n mod 64) # rest) =
      map_option ((@) [x, y, z]) (base64_decode rest)"
    "base64_decode [b64 (n div 2 ^ 18 mod 64), b64 (n div 2 ^ 12 mod 64), b64 (n div 2 ^ 6 mod 64), CHR ''=''] = Some [x, y]"
    "base64_decode [b64 (n div 2 ^ 18 mod 64), b64 (n div 2 ^ 12 mod 64), CHR ''='', CHR ''=''] = Some [x]"
proof -
  have less: "(m :: nat) mod 64 < 64" for m by simp
  note unfold = x_def y_def z_def sextets(1) [OF assms(1)] sextets(2-4) [OF assms(1)]
  show "base64_decode (b64 (n div 2 ^ 18 mod 64) # b64 (n div 2 ^ 12 mod 64) # b64 (n div 2 ^ 6 mod 64) # b64 (n mod 64) # rest) =
      map_option ((@) [x, y, z]) (base64_decode rest)"
    using decode_b64(1) [OF less less less less, where rest = rest, of "n div 2 ^ 18" "n div 2 ^ 12" "n div 2 ^ 6" n] unfolding unfold .
  show "base64_decode [b64 (n div 2 ^ 18 mod 64), b64 (n div 2 ^ 12 mod 64), b64 (n div 2 ^ 6 mod 64), CHR ''=''] = Some [x, y]"
    using decode_b64(2) [OF less less less, of "n div 2 ^ 18" "n div 2 ^ 12" "n div 2 ^ 6"] unfolding unfold .
  show "base64_decode [b64 (n div 2 ^ 18 mod 64), b64 (n div 2 ^ 12 mod 64), CHR ''='', CHR ''=''] = Some [x]"
    using decode_b64(3) [OF less less, of "n div 2 ^ 18" "n div 2 ^ 12"] unfolding unfold .
qed

lemma group_bytes:
  fixes a b c :: char
  defines "n \<equiv> of_char a * 65536 + of_char b * 256 + (of_char c :: nat)"
  shows "n div 65536 = of_char a" "n div 256 mod 256 = of_char b" "n mod 256 = of_char c"
proof -
  have n: "n = 256 * (of_char a * 256 + of_char b) + of_char c" by (simp add: n_def)
  have l: "of_char b < (256 :: nat)" "of_char c < (256 :: nat)" by simp_all
  have split: "(256 * k + r) div 256 = k" "(256 * k + r) mod 256 = r" if "r < 256" for k r :: nat using that by simp_all
  have 1: "n div 256 = of_char a * 256 + of_char b" "n mod 256 = of_char c" unfolding n by (rule split [OF l(2)])+
  show "n mod 256 = of_char c" by (fact 1(2))
  show "n div 256 mod 256 = of_char b" unfolding 1 using l by simp
  have "n div 65536 = n div 256 div 256" by (simp add: div_mult2_eq [symmetric])
  then show "n div 65536 = of_char a" unfolding 1 using l by simp
qed

lemma decode_group:
  "base64_decode (group_text (a # b # c # s) @ rest) = map_option ((@) [a, b, c]) (base64_decode rest)"
  "base64_decode (group_text [a, b]) = Some [a, b]"
  "base64_decode (group_text [a]) = Some [a]"
proof -
  have nul: "of_char (CHR 0x00) = (0 :: nat)" by simp
  show "base64_decode (group_text (a # b # c # s) @ rest) = map_option ((@) [a, b, c]) (base64_decode rest)"
    using decode_sextets(1) [OF group_texts(4) [of a b c]] unfolding group_texts(1) group_bytes append_Cons append_Nil char_of_char .
  show "base64_decode (group_text [a, b]) = Some [a, b]"
    using decode_sextets(2) [OF group_texts(5) [of a b]] group_bytes [of a b "CHR 0x00"] unfolding group_texts(2) nul by simp
  show "base64_decode (group_text [a]) = Some [a]"
    using decode_sextets(3) [OF group_texts(6) [of a]] group_bytes [of a "CHR 0x00" "CHR 0x00"] unfolding group_texts(3) nul by simp
qed

section \<open>The round trip\<close>

function base64_text :: "string \<Rightarrow> string" where
  "base64_text s = (if s = [] then [] else group_text s @ base64_text (drop 3 s))"
  by auto
termination
  by (relation "measure length") auto

declare base64_text.simps [simp del]

lemma base64_text_decodes: "base64_decode (base64_text s) = Some s"
proof (induction s rule: base64_text.induct)
  case (1 s)
  have "s = [] \<or> (\<exists>a. s = [a]) \<or> (\<exists>a b. s = [a, b]) \<or> (\<exists>a b c r. s = a # b # c # r)"
    by (metis list.exhaust)
  then consider "s = []" | a where "s = [a]" | a b where "s = [a, b]" | a b c r where "s = a # b # c # r" by blast
  then show ?case
    by cases (use 1 in \<open>auto simp: base64_text.simps decode_group\<close>)
qed

lemma length_group_text: "s \<noteq> [] \<Longrightarrow> length (group_text s) = 4"
proof -
  assume "s \<noteq> []"
  then consider a where "s = [a]" | a b where "s = [a, b]" | a b c r where "s = a # b # c # r" by (metis list.exhaust)
  then show ?thesis by cases (simp_all add: group_texts)
qed

lemma base64_lines_text:
  assumes "length line < 76" "length line mod 4 = 0"
  shows "\<exists>full rest. line @ base64_lines rfc4648_base64 (length line) s = concat (map (\<lambda>l. l @ [CHR 0x0A]) full) @ rest \<and>
     concat full @ rest = line @ base64_text s \<and> list_all (\<lambda>l. length l = 76) full \<and> length rest < 76"
  using assms
proof (induction s arbitrary: line rule: base64_text.induct)
  case (1 s)
  show ?case
  proof (cases "s = []")
    case True
    then show ?thesis using 1(2) by (intro exI [of _ "[]"] exI [of _ line]) (simp add: base64_lines.simps base64_text.simps)
  next
    case False
    let ?line = "line @ group_text s"
    have len: "length ?line = length line + 4" using length_group_text [OF False] by simp
    have step: "base64_lines rfc4648_base64 (length line) s =
        group_text s @ (if 76 \<le> length ?line then [CHR 0x0A] @ base64_lines rfc4648_base64 0 (drop 3 s) else base64_lines rfc4648_base64 (length ?line) (drop 3 s))"
      using False by (subst base64_lines.simps) (simp add: group_text_def Let_def split: prod.split)
    have whole: "base64_text s = group_text s @ base64_text (drop 3 s)" using False by (subst base64_text.simps) simp
    show ?thesis
    proof (cases "76 \<le> length ?line")
      case True
      then have l: "length ?line = 76" using 1(2,3) len by presburger
      obtain full rest where r: "base64_lines rfc4648_base64 0 (drop 3 s) = concat (map (\<lambda>l. l @ [CHR 0x0A]) full) @ rest"
        "concat full @ rest = base64_text (drop 3 s)" "list_all (\<lambda>l. length l = 76) full" "length rest < 76"
        using 1(1) [OF False, of "[]"] by auto
      then show ?thesis using l True by (intro exI [of _ "?line # full"] exI [of _ rest]) (simp add: step whole)
    next
      case f: False
      then have "length ?line < 76" "length ?line mod 4 = 0" using 1(3) len by presburger+
      from 1(1) [OF False this] obtain full rest where
        r: "?line @ base64_lines rfc4648_base64 (length ?line) (drop 3 s) = concat (map (\<lambda>l. l @ [CHR 0x0A]) full) @ rest"
        "concat full @ rest = ?line @ base64_text (drop 3 s)" "list_all (\<lambda>l. length l = 76) full" "length rest < 76" by auto
      then show ?thesis using f by (intro exI [of _ full] exI [of _ rest]) (simp add: step whole)
    qed
  qed
qed

text \<open>
  C40: What is written in base64 is lines of 76 characters, each ended by a newline, and a rest that is shorter; together
  they decode to the bytes.
\<close>

theorem base64_read_back:
  "\<exists>full rest. write_base64 s = concat (map (\<lambda>l. l @ [CHR 0x0A]) full) @ rest \<and> list_all (\<lambda>l. length l = 76) full \<and>
     length rest < 76 \<and> base64_decode (concat full @ rest) = Some s"
  using base64_lines_text [of "[]" s] base64_text_decodes [of s] by (fastforce simp: write_base64_def)

end
