(* ===== verification/Html.thy ===== *)
theory Html
  imports Documents Base64 ConfWrite
begin

text \<open>
  The rendering of documents as HTML (\<^verbatim>\<open>src/HTML.cc\<close>).  The conversion of a text to code points (\<open>iconv\<close>) and the name of
  an image (a UUID of its content) are arguments.  The images of a \<open>RenderDocumentContext\<close> are passed on; without a
  context, images are embedded.
\<close>

section \<open>Quoting\<close>

record html_env =
  he_unicode :: "string \<Rightarrow> nat list result"
  he_uuid :: "string \<Rightarrow> string"

definition CID_DOMAIN :: string where
  "CID_DOMAIN = ''rsbackup.greenend.org.uk''"

definition image_ident :: "html_env \<Rightarrow> string \<Rightarrow> string" where
  "image_ident env content = he_uuid env content @ ''@'' @ CID_DOMAIN"

definition quote_html_char :: "nat \<Rightarrow> string" where
  "quote_html_char w = (if 127 \<le> w \<or> w \<in> {38, 60, 34, 39} then ''&#'' @ show_nat w @ '';'' else [char_of w])"

definition quoteHtml :: "html_env \<Rightarrow> string \<Rightarrow> string result" where
  "quoteHtml env s = rbind (he_unicode env s) (\<lambda>u. Inr (concat (map quote_html_char u)))"

section \<open>Tags\<close>

text \<open>\<open>%06x\<close> of an \<open>int\<close>.\<close>

definition hex_color :: "int \<Rightarrow> string" where
  "hex_color n = (let s = show_hex_nat (nat (n mod 2 ^ 32)) in replicate (6 - length s) CHR ''0'' @ s)"

fun html_attributes :: "html_env \<Rightarrow> (string \<times> string) list \<Rightarrow> string result" where
  "html_attributes env [] = Inr []"
| "html_attributes env ((k, v) # kvs) =
     rbind (quoteHtml env (c_str v)) (\<lambda>q. rbind (html_attributes env kvs) (\<lambda>rest.
       Inr ([SP] @ k @ ''='' @ [DQUOTE] @ q @ [DQUOTE] @ rest)))"

definition style_attribute :: "string \<Rightarrow> string" where
  "style_attribute style = (if style \<noteq> [] then [SP] @ ''class'' @ ''='' @ style else [])"

definition color_attribute :: "string \<Rightarrow> int \<Rightarrow> string" where
  "color_attribute name c = (if c \<noteq> -1 then [SP] @ name @ ''='' @ [DQUOTE] @ (''#'' @ hex_color c) @ [DQUOTE] else [])"

definition renderHtmlOpenTag :: "html_env \<Rightarrow> node_attrs \<Rightarrow> string \<Rightarrow> (string \<times> string) list \<Rightarrow> string result" where
  "renderHtmlOpenTag env a name kvs =
     rbind (html_attributes env kvs) (\<lambda>attrs.
       Inr (''<'' @ name @ style_attribute (n_style a) @ color_attribute ''color'' (n_fgcolor a) @
            color_attribute ''bgcolor'' (n_bgcolor a) @ attrs @ ''>''))"

definition renderHtmlCloseTag :: "string \<Rightarrow> string" where
  "renderHtmlCloseTag name = ''</'' @ name @ ''>'' @ [LF]"

section \<open>Writers\<close>

text \<open>
  What is written, and the images of the context afterwards; \<open>Inl\<close> is an exception, \<open>None\<close> a loop that does not end.
\<close>

type_synonym images = "(string \<times> string) list option"
type_synonym html_writer = "images \<Rightarrow> (string \<times> images) result option"

definition html_out :: "string result \<Rightarrow> html_writer" where
  "html_out r = (\<lambda>im. Some (rbind r (\<lambda>s. Inr (s, im))))"

definition html_seq :: "html_writer \<Rightarrow> html_writer \<Rightarrow> html_writer" where
  "html_seq a b = (\<lambda>im.
     case a im of
       Some (Inr (s, im)) \<Rightarrow> (case b im of Some (Inr (s', im)) \<Rightarrow> Some (Inr (s @ s', im)) | r \<Rightarrow> r)
     | r \<Rightarrow> r)"

definition html_contents :: "html_writer list \<Rightarrow> html_writer" where
  "html_contents ws = foldr html_seq ws (html_out (Inr []))"

text \<open>The opening tag, the contents and the closing tag.\<close>

definition html_element :: "html_env \<Rightarrow> node_attrs \<Rightarrow> string \<Rightarrow> (string \<times> string) list \<Rightarrow> html_writer \<Rightarrow> html_writer" where
  "html_element env a name kvs body =
     html_seq (html_out (renderHtmlOpenTag env a name kvs)) (html_seq body (html_out (Inr (renderHtmlCloseTag name))))"

section \<open>Tables\<close>

definition html_cell :: "html_env \<Rightarrow> html_writer cell \<Rightarrow> html_writer" where
  "html_cell env c =
     (let tag = (if cell_heading c then ''th'' else ''td''); w = (''colspan'', show_int (cell_w c)); h = (''rowspan'', show_int (cell_h c))
      in html_element env (cell_attrs c) tag ((if 1 < cell_w c then [w] else []) @ (if 1 < cell_h c then [h] else []))
           (html_contents (cell_nodes c)))"

text \<open>
  The loop over the columns of a row, with whether there was a heading so far: a cell that starts there is written, a
  position that no cell covers is an empty cell (a heading or not), and the others are skipped.
\<close>

partial_function (option) row_columns :: "'n table \<Rightarrow> int \<Rightarrow> bool \<Rightarrow> int \<Rightarrow> ('n cell + bool) list option" where
  "row_columns t y heading x =
     (if x < t_width t
      then (case findRootedCell x y t of
              Some c \<Rightarrow> Option.bind (row_columns t y (heading \<or> cell_heading c) (x + cell_w c)) (\<lambda>cs. Some (Inl c # cs))
            | None \<Rightarrow>
                Option.bind (row_columns t y heading (x + 1)) (\<lambda>cs.
                  Some (if findOverlappingCell x y t = None then Inr heading # cs else cs)))
      else Some [])"

definition html_column :: "html_env \<Rightarrow> node_attrs \<Rightarrow> html_writer cell + bool \<Rightarrow> html_writer" where
  "html_column env a c =
     (case c of
        Inl c \<Rightarrow> html_cell env c
      | Inr heading \<Rightarrow> html_element env a (if heading then ''th'' else ''td'') [] (html_contents []))"

definition html_row :: "html_env \<Rightarrow> node_attrs \<Rightarrow> html_writer table \<Rightarrow> int \<Rightarrow> html_writer" where
  "html_row env a t y =
     html_element env a ''tr'' []
       (case row_columns t y False 0 of None \<Rightarrow> \<lambda>_. None | Some cs \<Rightarrow> html_contents (map (html_column env a) cs))"

definition html_table :: "html_env \<Rightarrow> node_attrs \<Rightarrow> html_writer table \<Rightarrow> html_writer" where
  "html_table env a t = html_element env a ''table'' [] (html_contents (map (html_row env a t) [0..t_height t - 1]))"

section \<open>Images\<close>

definition html_image :: "html_env \<Rightarrow> node_attrs \<Rightarrow> string \<Rightarrow> string \<Rightarrow> html_writer" where
  "html_image env a ty content = (\<lambda>im.
     case im of
       Some is \<Rightarrow>
         html_element env a ''p'' [] (html_out (renderHtmlOpenTag env a ''img'' [(''src'', ''cid:'' @ image_ident env content)]))
           (Some (is @ [(ty, content)]))
     | None \<Rightarrow>
         html_element env a ''p'' [] (html_out (renderHtmlOpenTag env a ''img'' [(''src'', ''data:'' @ ty @ '';base64,'' @ write_base64 content)]))
           None)"

section \<open>Nodes and documents\<close>

primrec renderHtml :: "html_env \<Rightarrow> node \<Rightarrow> html_writer" where
  "renderHtml env (StringNode a s) = html_out (quoteHtml env s)"
| "renderHtml env (LinearContainer a ns) = html_element env a ''div'' [] (html_contents (map (renderHtml env) ns))"
| "renderHtml env (Paragraph a ns) = html_element env a ''p'' [] (html_contents (map (renderHtml env) ns))"
| "renderHtml env (Verbatim a ns) = html_element env a ''pre'' [] (html_contents (map (renderHtml env) ns))"
| "renderHtml env (ListNode a ty ns) =
     html_element env a (case ty of OrderedList \<Rightarrow> ''ol'' | UnorderedList \<Rightarrow> ''ul'') [] (html_contents (map (renderHtml env) ns))"
| "renderHtml env (ListEntry a ns) = html_element env a ''li'' [] (html_contents (map (renderHtml env) ns))"
| "renderHtml env (Heading a level ns) =
     (if 6 < level then html_out (Inl (RuntimeError ''heading level too high''))
      else html_element env a (''h'' @ show_int level) [] (html_contents (map (renderHtml env) ns)))"
| "renderHtml env (TableNode a t) = html_table env a (map_table (renderHtml env) t)"
| "renderHtml env (ImageNode a ty content) = html_image env a ty content"
| "renderHtml env (RootContainer a ns) = html_element env a ''body'' [] (html_contents (map (renderHtml env) ns))"

definition document_renderHtml :: "html_env \<Rightarrow> document \<Rightarrow> html_writer" where
  "document_renderHtml env d =
     html_contents
       [html_out (Inr (''<html>'' @ [LF] @ ''<head>'' @ [LF] @ ''<title>'')),
        html_out (quoteHtml env (doc_title d)),
        html_out (Inr (''</title>'' @ [LF] @
          (if doc_htmlStyleSheet d \<noteq> []
           then ''<style type='' @ [DQUOTE] @ ''text/css'' @ [DQUOTE] @ ''>'' @ [LF] @ doc_htmlStyleSheet d @ ''</style>'' @ [LF] else []) @
          ''</head>'' @ [LF])),
        renderHtml env (RootContainer new_attrs (doc_content d)),
        html_out (Inr (''</html>'' @ [LF]))]"

end
