(* ===== verification/TextLayout.thy ===== *)
theory TextLayout
  imports Documents
begin

text \<open>
  What the rendering as text guarantees: wrapped text is the greedy filling of lines with the words of the text, and the
  rows of a table have the same length, with every cell in its place.
\<close>

section \<open>Lines of words\<close>

function text_words :: "string \<Rightarrow> string list" where
  "text_words [] = []"
| "text_words (c # cs) =
     (if c_isspace c then text_words cs
      else takeWhile (\<lambda>c. \<not> c_isspace c) (c # cs) # text_words (dropWhile (\<lambda>c. \<not> c_isspace c) (c # cs)))"
  by pat_completeness auto
termination
  by (relation "measure length") (auto simp: less_Suc_eq_le intro: length_dropWhile_le)

fun line_of :: "string list \<Rightarrow> string" where
  "line_of [] = []"
| "line_of [w] = w"
| "line_of (w # ws) = w @ [SP] @ line_of ws"

text \<open>Lines are filled as far as the next word fits.\<close>

fun fill_lines :: "nat \<Rightarrow> string list \<Rightarrow> string list \<Rightarrow> string list list" where
  "fill_lines width line [] = [line]"
| "fill_lines width line (w # ws) =
     (if length (line_of line) + length w + 1 \<le> width then fill_lines width (line @ [w]) ws
      else line # fill_lines width [w] ws)"

lemma line_of_snoc: "line \<noteq> [] \<Longrightarrow> line_of (line @ [w]) = line_of line @ [SP] @ w"
  by (induction line rule: line_of.induct) auto

lemma line_of_empty: "line_of line = [] \<longleftrightarrow> line = [] \<or> line = [[]]"
  by (cases line rule: line_of.cases) auto

lemma text_words_not_empty: "[] \<notin> set (text_words s)"
  by (induction s rule: text_words.induct) (auto simp: Let_def)

abbreviation lines_text :: "string list list \<Rightarrow> string" where
  "lines_text ls \<equiv> concat (map (\<lambda>l. line_of l @ [LF]) ls)"

lemma wrap_words_fill:
  "line_of line \<noteq> [] \<Longrightarrow>
   line_of line @ wrap_words width ind b (length (line_of line)) s = lines_text (fill_lines width line (text_words s))"
proof (induction width ind b "length (line_of line)" s arbitrary: line rule: wrap_words.induct)
  case (2 width ind b c cs)
  show ?case
  proof (cases "c_isspace c")
    case True
    then show ?thesis using 2 by simp
  next
    case False
    let ?w = "takeWhile (\<lambda>c. \<not> c_isspace c) (c # cs)" and ?s = "dropWhile (\<lambda>c. \<not> c_isspace c) (c # cs)"
    have w: "?w \<noteq> []" using False by simp
    have line: "line \<noteq> []" using 2(3) by (cases line) auto
    let ?fits = "length (line_of line) + length ?w + 1 \<le> width"
    have l: "length (line_of line) \<noteq> 0" using 2(3) by simp
    have IH1: "line_of (line @ [?w]) @ wrap_words width ind b (length (line_of (line @ [?w]))) ?s =
        lines_text (fill_lines width (line @ [?w]) (text_words ?s))" if ?fits
      using 2(2) [OF False refl refl refl, of "[SP]" "length (line_of line) + 1" "line @ [?w]"] that line l
      by (simp add: line_of_snoc)
    have IH2: "line_of [?w] @ wrap_words width ind b (length (line_of [?w])) ?s = lines_text (fill_lines width [?w] (text_words ?s))"
      if "\<not> ?fits"
      using 2(2) [OF False refl refl refl, of "[LF]" 0 "[?w]"] that w l by simp
    show ?thesis
    proof (cases ?fits)
      case True
      then show ?thesis using IH1 False l line by (simp add: Let_def line_of_snoc)
    next
      case f: False
      then show ?thesis using IH2 False l by (simp add: Let_def)
    qed
  qed
qed simp

lemma fill_lines_words: "concat (fill_lines width line ws) = line @ ws"
  by (induction width line ws rule: fill_lines.induct) simp_all

text \<open>A line fits the width, or is a word that is longer.\<close>

definition fits_width :: "nat \<Rightarrow> string list \<Rightarrow> bool" where
  "fits_width width l \<longleftrightarrow> l \<noteq> [] \<and> (length (line_of l) \<le> width \<or> length l = 1)"

lemma fill_lines_fit: "fits_width width line \<Longrightarrow> list_all (fits_width width) (fill_lines width line ws)"
  by (induction width line ws rule: fill_lines.induct) (auto simp: fits_width_def line_of_snoc)

text \<open>A line is ended only when the next word does not fit.\<close>

definition line_full :: "nat \<Rightarrow> string list \<Rightarrow> string list \<Rightarrow> bool" where
  "line_full width l l' \<longleftrightarrow> width < length (line_of l) + length (hd l') + 1"

lemma fill_lines_full:
  "line \<noteq> [] \<Longrightarrow> successively (line_full width) (fill_lines width line ws) \<and> hd (hd (fill_lines width line ws)) = hd line \<and>
   fill_lines width line ws \<noteq> []"
proof (induction width line ws rule: fill_lines.induct)
  case (2 width line w ws)
  then show ?case
    by (cases "fill_lines width [w] ws") (auto simp: line_full_def)
qed simp

text \<open>
  C39: Wrapped text consists of the words of the text, in order, with a space between the words of a line; a line fits
  the width unless it is a single longer word, and is ended only when the next word does not fit.
\<close>

theorem text_wrapped:
  "\<exists>ls. wordWrapText width ind b s = (if b \<and> ls \<noteq> [] then replicate ind SP else []) @ concat (map (\<lambda>l. line_of l @ [LF]) ls) \<and>
     concat ls = text_words s \<and> list_all (fits_width width) ls \<and> successively (line_full width) ls"
proof -
  have "\<exists>ls. wrap_words width ind b 0 s = (if b \<and> ls \<noteq> [] then replicate ind SP else []) @ lines_text ls \<and>
     concat ls = text_words s \<and> list_all (fits_width width) ls \<and> successively (line_full width) ls"
  proof (induction s)
    case Nil
    show ?case by (rule exI [of _ "[]"]) simp
  next
    case (Cons c cs)
    show ?case
    proof (cases "c_isspace c")
      case False
      let ?w = "takeWhile (\<lambda>c. \<not> c_isspace c) (c # cs)" and ?s = "dropWhile (\<lambda>c. \<not> c_isspace c) (c # cs)"
      let ?ls = "fill_lines width [?w] (text_words ?s)"
      have "wrap_words width ind b 0 (c # cs) = (if b then replicate ind SP else []) @ line_of [?w] @ wrap_words width ind b (length (line_of [?w])) ?s"
        using False by (simp add: Let_def)
      also have "line_of [?w] @ wrap_words width ind b (length (line_of [?w])) ?s = lines_text ?ls"
        by (rule wrap_words_fill) (use False in simp)
      finally have "wrap_words width ind b 0 (c # cs) = (if b \<and> ?ls \<noteq> [] then replicate ind SP else []) @ lines_text ?ls"
        using fill_lines_full [of "[?w]" width "text_words ?s"] by simp
      moreover have "concat ?ls = text_words (c # cs)" using False by (simp add: fill_lines_words)
      moreover have "list_all (fits_width width) ?ls" by (rule fill_lines_fit) (simp add: fits_width_def)
      moreover have "successively (line_full width) ?ls" using fill_lines_full [of "[?w]" width "text_words ?s"] by simp
      ultimately show ?thesis by blast
    qed (use Cons in simp)
  qed
  then show ?thesis unfolding wordWrapText_def .
qed


section \<open>Tables that are in order\<close>

text \<open>A cell covers the positions that the map has it at, within the bounds of the table.\<close>

definition cell_at :: "'n table \<Rightarrow> int \<Rightarrow> int \<Rightarrow> 'n cell \<Rightarrow> bool" where
  "cell_at t x y c \<longleftrightarrow>
     cell_x c \<le> x \<and> x < cell_x c + cell_w c \<and> cell_y c \<le> y \<and> y < cell_y c + cell_h c \<and>
     0 \<le> cell_x c \<and> 0 \<le> cell_y c \<and> cell_x c + cell_w c \<le> t_width t \<and> cell_y c + cell_h c \<le> t_height t"

definition table_ok :: "'n table \<Rightarrow> bool" where
  "table_ok t \<longleftrightarrow>
     0 \<le> t_x t \<and> 0 \<le> t_y t \<and> 0 \<le> t_width t \<and> 0 \<le> t_height t \<and>
     (\<forall>x y c. findOverlappingCell x y t = Some c \<longrightarrow> cell_at t x y c)"

text \<open>No cell lies over a part of another one.\<close>

definition tiled :: "'n table \<Rightarrow> bool" where
  "tiled t \<longleftrightarrow>
     (\<forall>x y c x' y'. findOverlappingCell x y t = Some c \<longrightarrow> (x', y') \<in> set (cell_area c) \<longrightarrow> findOverlappingCell x' y' t = Some c)"

lemma cell_area_iff:
  "(x, y) \<in> set (cell_area c) \<longleftrightarrow> cell_x c \<le> x \<and> x < cell_x c + cell_w c \<and> cell_y c \<le> y \<and> y < cell_y c + cell_h c"
  unfolding cell_area_def by (auto simp: image_iff)

lemma new_table_ok: "table_ok new_table" "tiled new_table"
  by (simp_all add: table_ok_def tiled_def new_table_def findOverlappingCell_def)

definition moved :: "'n cell \<Rightarrow> int \<Rightarrow> int \<Rightarrow> 'n cell" where
  "moved c x y = Cell (cell_attrs c) (cell_nodes c) (cell_heading c) x y (cell_w c) (cell_h c)"

lemma moved_simps [simp]:
  "cell_x (moved c x y) = x" "cell_y (moved c x y) = y" "cell_w (moved c x y) = cell_w c" "cell_h (moved c x y) = cell_h c"
  "cell_nodes (moved c x y) = cell_nodes c" "cell_heading (moved c x y) = cell_heading c"
  by (simp_all add: moved_def)

lemma map_of_map_const: "map_of (map (\<lambda>p. (p, c)) ps) p = (if p \<in> set ps then Some c else None)"
  by (induction ps) auto

lemma find_addCell_at:
  "findOverlappingCell x' y' (addCell_at c x y t) =
     (if (x', y') \<in> set (cell_area (moved c x y)) then Some (moved c x y) else findOverlappingCell x' y' t)"
  by (auto simp: addCell_at_def Let_def findOverlappingCell_def map_of_map_const map_add_def moved_def [symmetric])

lemma addCell_at_fields [simp]:
  "t_x (addCell_at c x y t) = t_x t" "t_y (addCell_at c x y t) = t_y t"
  "t_width (addCell_at c x y t) = max (t_width t) (x + cell_w c)" "t_height (addCell_at c x y t) = max (t_height t) (y + cell_h c)"
  by (simp_all add: addCell_at_def Let_def)

lemma addCell_at_ok:
  assumes "table_ok t" "0 \<le> x" "0 \<le> y"
  shows "table_ok (addCell_at c x y t)"
  using assms unfolding table_ok_def
  by (auto simp: find_addCell_at cell_at_def cell_area_iff split: if_splits) (fastforce simp: cell_at_def)+

lemma addCell_at_tiled:
  assumes "tiled t" "\<forall>(x', y') \<in> set (cell_area (moved c x y)). findOverlappingCell x' y' t = None"
  shows "tiled (addCell_at c x y t)"
  unfolding tiled_def
proof (intro allI impI)
  fix x1 y1 d x2 y2
  assume a: "findOverlappingCell x1 y1 (addCell_at c x y t) = Some d" "(x2, y2) \<in> set (cell_area d)"
  show "findOverlappingCell x2 y2 (addCell_at c x y t) = Some d"
  proof (cases "(x1, y1) \<in> set (cell_area (moved c x y))")
    case True
    then show ?thesis using a by (auto simp: find_addCell_at)
  next
    case False
    then have "findOverlappingCell x1 y1 t = Some d" using a by (simp add: find_addCell_at)
    then have d: "findOverlappingCell x2 y2 t = Some d" using assms(1) a(2) unfolding tiled_def by blast
    then have "(x2, y2) \<notin> set (cell_area (moved c x y))" using assms(2) by auto
    then show ?thesis using d by (simp add: find_addCell_at)
  qed
qed

lemma next_free_free: "x \<le> next_free m x y \<and> map_of m (next_free m x y, y) = None"
proof (induction m x y rule: next_free.induct)
  case (1 m x y)
  show ?case
  proof (cases "map_of m (x, y) = None")
    case False
    then have "next_free m x y = next_free m (x + 1) y" by (subst next_free.simps) simp
    then show ?thesis using 1 [OF False] by simp
  next
    case True
    then have "next_free m x y = x" by (subst next_free.simps) simp
    then show ?thesis using True by simp
  qed
qed

lemma addCell_alt:
  "addCell c t = (let t' = addCell_at c (t_x t) (t_y t) t
     in Table (next_free (t_cellMap t') (t_x t) (t_y t)) (t_y t) (t_width t') (t_height t') (t_cellMap t'))"
  using addCell_at_fields(1,2) [of c "t_x t" "t_y t" t]
  by (cases "addCell_at c (t_x t) (t_y t) t") (simp add: addCell_def Let_def)

lemma find_same_map: "t_cellMap t = t_cellMap t' \<Longrightarrow> findOverlappingCell x y t = findOverlappingCell x y t'"
  by (simp add: findOverlappingCell_def)

text \<open>The position of the next cell is free.\<close>

definition at_free :: "'n table \<Rightarrow> bool" where
  "at_free t \<longleftrightarrow> findOverlappingCell (t_x t) (t_y t) t = None"

lemma addCell_ok:
  assumes "table_ok t"
  shows "table_ok (addCell c t)" "at_free (addCell c t)"
proof -
  have "table_ok (addCell_at c (t_x t) (t_y t) t)" using assms by (intro addCell_at_ok) (simp_all add: table_ok_def)
  moreover have "t_x t \<le> next_free (t_cellMap (addCell_at c (t_x t) (t_y t) t)) (t_x t) (t_y t)" using next_free_free by blast
  ultimately show "table_ok (addCell c t)"
    by (auto simp: addCell_alt Let_def table_ok_def cell_at_def findOverlappingCell_def)
  show "at_free (addCell c t)"
    using next_free_free [of "t_x t" "t_cellMap (addCell_at c (t_x t) (t_y t) t)" "t_y t"]
    by (simp add: at_free_def addCell_alt Let_def findOverlappingCell_def)
qed

lemma find_addCell:
  "findOverlappingCell x y (addCell c t) =
     (if (x, y) \<in> set (cell_area (moved c (t_x t) (t_y t))) then Some (moved c (t_x t) (t_y t)) else findOverlappingCell x y t)"
  using find_addCell_at [of x y c "t_x t" "t_y t" t] by (simp add: addCell_alt Let_def findOverlappingCell_def)

lemma newRow_ok:
  assumes "table_ok t"
  shows "table_ok (newRow t)" "at_free (newRow t)"
  using assms next_free_free [of 0 "t_cellMap t" "t_y t + 1"]
  by (auto simp: newRow_def table_ok_def at_free_def cell_at_def findOverlappingCell_def)

lemma newRow_tiled: "tiled t \<Longrightarrow> tiled (newRow t)"
  unfolding tiled_def newRow_def findOverlappingCell_def table.sel .

lemma addCell_tiled:
  assumes "tiled t" "\<forall>(x, y) \<in> set (cell_area (moved c (t_x t) (t_y t))). findOverlappingCell x y t = None"
  shows "tiled (addCell c t)"
  using addCell_at_tiled [OF assms] unfolding tiled_def find_addCell find_addCell_at .

text \<open>Cells of one column and one row never lie over others.\<close>

lemma addCell_single:
  assumes "tiled t" "at_free t" "cell_w c = 1" "cell_h c = 1"
  shows "tiled (addCell c t)"
proof (rule addCell_tiled [OF assms(1)])
  have "cell_area (moved c x y) = [(x, y)]" for x y using assms(3,4) by (simp add: cell_area_def)
  then show "\<forall>(x, y) \<in> set (cell_area (moved c (t_x t) (t_y t))). findOverlappingCell x y t = None"
    using assms(2) by (simp add: at_free_def)
qed


section \<open>The widths of columns\<close>

lemma fold_result_reaches:
  assumes step: "\<And>s x. x \<in> set xs \<Longrightarrow> I s \<Longrightarrow> \<exists>s'. f s x = Inr s' \<and> I s' \<and> le s s' \<and> Q x s'"
    and refl: "\<And>s. I s \<Longrightarrow> le s s" and trans: "\<And>a b c. le a b \<Longrightarrow> le b c \<Longrightarrow> le a c"
    and mono: "\<And>x s s'. Q x s \<Longrightarrow> le s s' \<Longrightarrow> Q x s'" and s: "I s"
  shows "\<exists>s'. fold_result f s xs = Inr s' \<and> I s' \<and> le s s' \<and> (\<forall>x \<in> set xs. Q x s')"
  using step s
proof (induction xs arbitrary: s)
  case Nil
  then show ?case using refl by simp
next
  case (Cons x xs)
  obtain s1 where 1: "f s x = Inr s1" "I s1" "le s s1" "Q x s1" using Cons.prems(1) [of x s] Cons.prems(2) by auto
  obtain s2 where 2: "fold_result f s1 xs = Inr s2" "I s2" "le s1 s2" "\<forall>x \<in> set xs. Q x s2"
    using Cons.IH [of s1] Cons.prems(1) 1(2) by auto
  show ?case using 1 2 mono trans by (auto simp: rbind_def)
qed

definition texts_ok :: "string result table \<Rightarrow> bool" where
  "texts_ok t \<longleftrightarrow> (\<forall>x y c. findOverlappingCell x y t = Some c \<longrightarrow> \<not> isl (cell_text c))"

abbreviation text_of :: "string result cell \<Rightarrow> string" where
  "text_of c \<equiv> projr (cell_text c)"

lemma texts_okD: "texts_ok t \<Longrightarrow> findOverlappingCell x y t = Some c \<Longrightarrow> cell_text c = Inr (text_of c)"
  unfolding texts_ok_def by (metis sum.collapse(2))

lemma texts_ok_text: "texts_ok t \<Longrightarrow> findOverlappingCell x y t = Some c \<Longrightarrow> \<exists>s. cell_text c = Inr s"
  using texts_okD by blast

lemma column_width_returns:
  assumes "texts_ok t"
  shows "\<exists>w. column_width t x = Inr w \<and>
    (\<forall>y \<in> {0..<t_height t}. \<forall>c. findOverlappingCell x y t = Some c \<longrightarrow> cell_w c = 1 \<longrightarrow> length (text_of c) \<le> w)"
proof -
  let ?Q = "\<lambda>y w. \<forall>c. findOverlappingCell x y t = Some c \<longrightarrow> cell_w c = 1 \<longrightarrow> length (text_of c) \<le> w"
  have "\<exists>w. column_width t x = Inr w \<and> True \<and> 0 \<le> w \<and> (\<forall>y \<in> set [0..t_height t - 1]. ?Q y w)"
    unfolding column_width_def
  proof (rule fold_result_reaches [where I = "\<lambda>_. True" and le = "(\<le>)"])
    show "\<exists>w'. (case findOverlappingCell x y t of None \<Rightarrow> Inr w
         | Some c \<Rightarrow> if cell_w c = 1 then rbind (cell_text c) (\<lambda>s. Inr (if w < length s then length s else w)) else Inr w) = Inr w' \<and>
        True \<and> w \<le> w' \<and> ?Q y w'" for w :: nat and y
      by (auto split: option.splits simp: rbind_def dest!: texts_ok_text [OF assms])
    show "?Q y w'" if "?Q y w" "w \<le> w'" for y and w w' :: nat using that order_trans by blast
  qed auto
  then show ?thesis by auto
qed

lemma fold_result_collect:
  assumes "\<And>x. x \<in> set xs \<Longrightarrow> f x = Inr (g x)"
  shows "fold_result (\<lambda>ws x. rbind (f x) (\<lambda>w. Inr (ws @ [w]))) acc xs = Inr (acc @ map g xs)"
  using assms by (induction xs arbitrary: acc) (simp_all add: rbind_def)

text \<open>The cells of column \<open>x\<close> that one column has, and the cells whose first column it is, fit.\<close>

definition space :: "nat list \<Rightarrow> int \<Rightarrow> int \<Rightarrow> nat" where
  "space ws x w = nat (3 * (w - 1)) + sum_list (take (nat w) (drop (nat x) ws))"

definition fits :: "string result table \<Rightarrow> (int \<Rightarrow> bool) \<Rightarrow> int \<Rightarrow> nat list \<Rightarrow> bool" where
  "fits t P x ws \<longleftrightarrow>
     (\<forall>y \<in> {0..<t_height t}. \<forall>c. findOverlappingCell x y t = Some c \<longrightarrow> cell_x c = x \<longrightarrow> P (cell_w c) \<longrightarrow>
        length (text_of c) \<le> space ws x (cell_w c))"

lemma sum_list_le: "list_all2 (\<le>) xs ys \<Longrightarrow> sum_list xs \<le> sum_list (ys :: nat list)"
  by (induction rule: list_all2_induct) auto

lemma space_mono: "list_all2 (\<le>) ws ws' \<Longrightarrow> space ws x w \<le> space ws' x w"
  by (simp add: space_def sum_list_le)

lemma fits_mono: "fits t P x ws \<Longrightarrow> list_all2 (\<le>) ws ws' \<Longrightarrow> fits t P x ws'"
  unfolding fits_def by (meson le_trans space_mono)

lemma columnWidths_returns:
  assumes "table_ok t" "texts_ok t"
  shows "\<exists>ws. columnWidths t = Inr ws \<and> length ws = nat (t_width t) \<and> (\<forall>x \<in> {0..<t_width t}. fits t (\<lambda>w. w = 1) x ws)"
proof -
  let ?w = "\<lambda>x. projr (column_width t x)"
  have w: "column_width t x = Inr (?w x)"
    "y \<in> {0..<t_height t} \<Longrightarrow> findOverlappingCell x y t = Some c \<Longrightarrow> cell_w c = 1 \<Longrightarrow> length (text_of c) \<le> ?w x" for x y c
    using column_width_returns [OF assms(2), of x] by auto
  have 1: "columnWidths t = Inr (map ?w [0..t_width t - 1])"
    unfolding columnWidths_def by (subst fold_result_collect [OF w(1)]) simp
  have "take (nat 1) (drop (nat x) (map ?w [0..t_width t - 1])) = [?w x]" if "x \<in> {0..<t_width t}" for x
    using that by (simp add: Cons_nth_drop_Suc [symmetric])
  then have "space (map ?w [0..t_width t - 1]) x 1 = ?w x" if "x \<in> {0..<t_width t}" for x using that by (simp add: space_def)
  then have "\<forall>x \<in> {0..<t_width t}. fits t (\<lambda>w. w = 1) x (map ?w [0..t_width t - 1])"
    using w(2) by (auto simp: fits_def)
  then show ?thesis using 1 by simp
qed

lemma availableWidth_space:
  "0 \<le> x \<Longrightarrow> x + w \<le> int (length ws) \<Longrightarrow> availableWidth ws x w = Inr (space ws x w)"
  by (simp add: availableWidth_def space_def)

lemma space_widened:
  assumes "0 < w" "nat x < length ws"
  shows "space (ws[nat x := ws ! nat x + d]) x w = space ws x w + d"
proof -
  have "drop (nat x) (ws[nat x := v]) = v # drop (Suc (nat x)) ws" for v using assms(2) by (simp add: Cons_nth_drop_Suc [symmetric])
  moreover have "drop (nat x) ws = ws ! nat x # drop (Suc (nat x)) ws" using assms(2) by (rule Cons_nth_drop_Suc [symmetric])
  moreover obtain k where "nat w = Suc k" using assms(1) by (cases "nat w") auto
  ultimately show ?thesis by (simp add: space_def)
qed

lemma list_update_le: "v \<ge> (ws :: nat list) ! k \<Longrightarrow> k < length ws \<Longrightarrow> list_all2 (\<le>) ws (ws[k := v])"
  by (auto simp: list_all2_conv_all_nth nth_list_update)

lemma widen_column_step:
  assumes t: "table_ok t" "texts_ok t" and ws: "length ws = nat (t_width t)"
  shows "\<exists>ws'. widen_column t x ws y = Inr ws' \<and> length ws' = nat (t_width t) \<and> list_all2 (\<le>) ws ws' \<and>
    (\<forall>c. findOverlappingCell x y t = Some c \<longrightarrow> cell_x c = x \<longrightarrow> 1 < cell_w c \<longrightarrow> length (text_of c) \<le> space ws' x (cell_w c))"
proof -
  have refl: "list_all2 (\<le>) ws ws" by (simp add: list_all2_refl)
  show ?thesis
  proof (cases "findOverlappingCell x y t")
    case None
    then show ?thesis using ws refl by (simp add: widen_column_def)
  next
    case (Some c)
    then have c: "cell_at t x y c" using t(1) by (simp add: table_ok_def)
    obtain s where s: "cell_text c = Inr s" using texts_ok_text [OF t(2) Some] ..
    show ?thesis
    proof (cases "cell_x c = x \<and> 1 < cell_w c")
      case True
      then have b: "0 \<le> x" "x + cell_w c \<le> int (length ws)" "nat x < length ws" using c ws by (auto simp: cell_at_def)
      show ?thesis
      proof (cases "length s \<le> space ws x (cell_w c)")
        case True
        then show ?thesis using Some s ws refl availableWidth_space [OF b(1,2)] by (simp add: widen_column_def rbind_def)
      next
        case False
        define d where "d = length s - space ws x (cell_w c)"
        have "widen_column t x ws y = Inr (ws[nat x := ws ! nat x + d])"
          using Some True False s availableWidth_space [OF b(1,2)] by (simp add: widen_column_def rbind_def d_def)
        moreover have "length s = space ws x (cell_w c) + d" using False by (simp add: d_def)
        ultimately show ?thesis
          using Some True s ws b(3) space_widened [of "cell_w c" x ws d] list_update_le [of ws "nat x" "ws ! nat x + d"] by simp
      qed
    next
      case False
      then have "widen_column t x ws y = Inr ws" unfolding widen_column_def Some by auto
      then show ?thesis using False Some ws refl by auto
    qed
  qed
qed

lemma list_all2_le_trans: "list_all2 (\<le>) xs ys \<Longrightarrow> list_all2 (\<le>) ys zs \<Longrightarrow> list_all2 (\<le>) xs (zs :: nat list)"
  by (rule list_all2_trans) (auto intro: order_trans)

lemma widen_columns_returns:
  assumes t: "table_ok t" "texts_ok t" and ws: "length ws = nat (t_width t)"
  shows "\<exists>ws'. widen_columns t ws = Inr ws' \<and> length ws' = nat (t_width t) \<and> list_all2 (\<le>) ws ws' \<and>
    (\<forall>x \<in> {0..<t_width t}. fits t (\<lambda>w. 1 < w) x ws')"
proof -
  let ?Q = "\<lambda>x y ws. \<forall>c. findOverlappingCell x y t = Some c \<longrightarrow> cell_x c = x \<longrightarrow> 1 < cell_w c \<longrightarrow> length (text_of c) \<le> space ws x (cell_w c)"
  have Q_mono: "?Q x y ws'" if "?Q x y ws" "list_all2 (\<le>) ws ws'" for x y ws ws' using that space_mono order_trans by blast
  have column: "\<exists>ws'. fold_result (widen_column t x) ws [0..t_height t - 1] = Inr ws' \<and> length ws' = nat (t_width t) \<and> list_all2 (\<le>) ws ws' \<and>
      fits t (\<lambda>w. 1 < w) x ws'" if "length ws = nat (t_width t)" for x ws
  proof -
    have "\<exists>ws'. fold_result (widen_column t x) ws [0..t_height t - 1] = Inr ws' \<and> length ws' = nat (t_width t) \<and> list_all2 (\<le>) ws ws' \<and>
        (\<forall>y \<in> set [0..t_height t - 1]. ?Q x y ws')"
      by (rule fold_result_reaches [where I = "\<lambda>ws. length ws = nat (t_width t)" and le = "list_all2 (\<le>)" and Q = "?Q x"])
        (erule widen_column_step [OF t], simp add: list_all2_refl, erule (1) list_all2_le_trans, erule (1) Q_mono, rule that)
    then show ?thesis by (auto simp: fits_def)
  qed
  have "\<exists>ws'. widen_columns t ws = Inr ws' \<and> length ws' = nat (t_width t) \<and> list_all2 (\<le>) ws ws' \<and>
      (\<forall>x \<in> set [0..t_width t - 1]. fits t (\<lambda>w. 1 < w) x ws')"
    unfolding widen_columns_def
    by (rule fold_result_reaches [where I = "\<lambda>ws. length ws = nat (t_width t)" and le = "list_all2 (\<le>)"])
      (erule column, simp add: list_all2_refl, erule (1) list_all2_le_trans, erule (1) fits_mono, rule ws)
  moreover have "set [0..t_width t - 1] = {0..<t_width t}" by auto
  ultimately show ?thesis by (simp only:)
qed

text \<open>The widths that the rows are written with: every cell has the space for its text.\<close>

lemma column_widths_fit:
  assumes "table_ok t" "texts_ok t"
  obtains ws ws' where "columnWidths t = Inr ws" "widen_columns t ws = Inr ws'" "length ws' = nat (t_width t)"
    "\<And>x y c. findOverlappingCell x y t = Some c \<Longrightarrow> cell_x c = x \<Longrightarrow> length (text_of c) \<le> space ws' x (cell_w c)"
proof -
  obtain ws where 1: "columnWidths t = Inr ws" "length ws = nat (t_width t)" "\<forall>x \<in> {0..<t_width t}. fits t (\<lambda>w. w = 1) x ws"
    using columnWidths_returns [OF assms] by blast
  obtain ws' where 2: "widen_columns t ws = Inr ws'" "length ws' = nat (t_width t)" "list_all2 (\<le>) ws ws'"
    "\<forall>x \<in> {0..<t_width t}. fits t (\<lambda>w. 1 < w) x ws'"
    using widen_columns_returns [OF assms 1(2)] by blast
  have "length (text_of c) \<le> space ws' x (cell_w c)" if c: "findOverlappingCell x y t = Some c" "cell_x c = x" for x y c
  proof -
    have "cell_at t x y c" using assms(1) c(1) by (simp add: table_ok_def)
    then have "x \<in> {0..<t_width t}" "y \<in> {0..<t_height t}" "cell_w c = 1 \<or> 1 < cell_w c" by (auto simp: cell_at_def)
    moreover have "fits t (\<lambda>w. w = 1) x ws'" "fits t (\<lambda>w. 1 < w) x ws'"
      using 1(3) 2(3,4) fits_mono calculation(1) by blast+
    ultimately show ?thesis using c unfolding fits_def by blast
  qed
  then show thesis using that [OF 1(1) 2(1,2)] by blast
qed


section \<open>The rows of a table\<close>

lemma text_contents_append:
  "text_contents (rs @ rs') = rbind (text_contents rs) (\<lambda>s. rbind (text_contents rs') (\<lambda>s'. Inr (s @ s')))"
proof -
  have *: "fold_result (\<lambda>out r. rbind r (\<lambda>s. Inr (out @ s))) acc rs =
      rbind (text_contents rs) (\<lambda>s. Inr (acc @ s))" for acc :: string and rs
    unfolding text_contents_def
  proof (induction rs arbitrary: acc)
    case (Cons r rs)
    show ?case using Cons [of "acc @ projr r"] Cons [of "projr r"] by (cases r) (simp_all add: rbind_def split: sum.splits)
  qed (simp add: rbind_def)
  show ?thesis by (subst text_contents_def, subst fold_result_append, subst (1 2) *) (simp add: rbind_def split: sum.splits)
qed

lemma text_contents_simps [simp]:
  "text_contents [] = Inr []" "text_contents (r # rs) = rbind r (\<lambda>s. rbind (text_contents rs) (\<lambda>s'. Inr (s @ s')))"
  using text_contents_append [of "[r]" rs] by (simp_all add: text_contents_def rbind_def split: sum.splits)


text \<open>A row is in order: at a position that belongs to a cell that starts further left, nothing is written.\<close>

definition row_cell :: "'n table \<Rightarrow> int \<Rightarrow> int \<Rightarrow> 'n cell option" where
  "row_cell t y x = (case findOverlappingCell x y t of None \<Rightarrow> None | Some c \<Rightarrow> if cell_y c = y then Some c else None)"

text \<open>Where the cell that the position before \<open>x\<close> belongs to ends.\<close>

definition covered_to :: "'n table \<Rightarrow> int \<Rightarrow> nat \<Rightarrow> nat" where
  "covered_to t y n =
     (case n of
        0 \<Rightarrow> 0
      | Suc k \<Rightarrow> (case row_cell t y (int k) of None \<Rightarrow> n | Some c \<Rightarrow> nat (cell_x c + cell_w c)))"

lemma tiledD:
  assumes "table_ok t" "tiled t" "findOverlappingCell x y t = Some c" "cell_x c \<le> x'" "x' < cell_x c + cell_w c"
  shows "findOverlappingCell x' y t = Some c"
proof -
  have "(x', y) \<in> set (cell_area c)" using assms(1,3-5) by (auto simp: cell_area_iff table_ok_def cell_at_def)
  then show ?thesis using assms(2,3) unfolding tiled_def by blast
qed

lemma covered_to_free:
  assumes t: "table_ok t" "tiled t" and n: "case row_cell t y (int n) of None \<Rightarrow> True | Some c \<Rightarrow> cell_x c = int n"
  shows "covered_to t y n = n"
proof (cases n)
  case (Suc k)
  show ?thesis
  proof (cases "row_cell t y (int k)")
    case (Some c)
    then have c: "findOverlappingCell (int k) y t = Some c" "cell_y c = y" by (auto simp: row_cell_def split: option.splits if_splits)
    then have at: "cell_at t (int k) y c" using t(1) by (simp add: table_ok_def)
    have "cell_x c + cell_w c = int n"
    proof (rule ccontr)
      assume "cell_x c + cell_w c \<noteq> int n"
      then have "cell_x c \<le> int n" "int n < cell_x c + cell_w c" using at Suc by (auto simp: cell_at_def)
      then have "findOverlappingCell (int n) y t = Some c" by (rule tiledD [OF t c(1)])
      then show False using n c(2) at Suc by (simp add: row_cell_def cell_at_def)
    qed
    then show ?thesis using Some by (simp add: covered_to_def Suc)
  qed (simp add: covered_to_def Suc)
qed (simp add: covered_to_def)

lemma space_int: "space ws (int n) (int (Suc k)) = 3 * k + sum_list (take (Suc k) (drop n ws))"
proof -
  have "3 * (int (Suc k) - 1) = int (3 * k)" by simp
  then show ?thesis unfolding space_def by (simp only: nat_int)
qed

definition columns_cost :: "nat list \<Rightarrow> nat \<Rightarrow> nat" where
  "columns_cost ws n = sum_list (take n ws) + 3 * n - 1"

lemma length_filled_cell:
  assumes "cell_text c = Inr s" "length s \<le> space ws x (cell_w c)" "0 \<le> x" "x + cell_w c \<le> int (length ws)"
  shows "\<exists>r. filled_cell ws x c = Inr r \<and> length r = (if x \<noteq> 0 then 1 else 0) + 2 + space ws x (cell_w c)"
  using assms availableWidth_space [OF assms(3,4)]
  by (auto simp: filled_cell_def rbind_def size_minus_def Let_def)

lemma row_positions:
  assumes t: "table_ok t" "tiled t" "texts_ok t" and ws: "length ws = nat (t_width t)"
    and fit: "\<And>x y c. findOverlappingCell x y t = Some c \<Longrightarrow> cell_x c = x \<Longrightarrow> length (text_of c) \<le> space ws x (cell_w c)"
    and n: "n \<le> nat (t_width t)"
  shows "\<exists>s. text_contents (map (position_text t ws y) [0..int n - 1]) = Inr s \<and> length s = columns_cost ws (covered_to t y n)"
  using n
proof (induction n)
  case 0
  show ?case by (simp add: covered_to_def columns_cost_def)
next
  case (Suc n)
  have split: "[0..int (Suc n) - 1] = [0..int n - 1] @ [int n]" using upto_rec2 [of 0 "int n"] by simp
  obtain s where s: "text_contents (map (position_text t ws y) [0..int n - 1]) = Inr s" "length s = columns_cost ws (covered_to t y n)"
    using Suc by auto
  have n: "n < length ws" using Suc.prems ws by simp
  have new: "\<exists>s. text_contents (map (position_text t ws y) [0..int (Suc n) - 1]) = Inr s \<and> length s = columns_cost ws (covered_to t y n) + length r"
    if "position_text t ws y (int n) = Inr r" for r
    unfolding split using s that by (auto simp: text_contents_append rbind_def)
  show ?case
  proof (cases "row_cell t y (int n)")
    case None
    then have "position_text t ws y (int n) = Inr (empty_cell ws (int n))"
      by (auto simp: position_text_def row_cell_def split: option.splits if_splits)
    moreover have "covered_to t y n = n" "covered_to t y (Suc n) = Suc n"
      using covered_to_free [OF t(1,2), where y = y and n = n] None by (simp_all add: covered_to_def)
    moreover have "length (empty_cell ws (int n)) = (if n \<noteq> 0 then 3 else 2) + ws ! n" by (simp add: empty_cell_def)
    then have "columns_cost ws (Suc n) = columns_cost ws n + length (empty_cell ws (int n))"
      using n by (cases n) (simp_all add: columns_cost_def take_Suc_conv_app_nth)
    ultimately show ?thesis using new by simp
  next
    case (Some c)
    then have c: "findOverlappingCell (int n) y t = Some c" "cell_y c = y" by (auto simp: row_cell_def split: option.splits if_splits)
    then have at: "cell_at t (int n) y c" using t(1) by (simp add: table_ok_def)
    have e: "covered_to t y (Suc n) = nat (cell_x c + cell_w c)" using Some by (simp add: covered_to_def)
    show ?thesis
    proof (cases "cell_x c = int n")
      case True
      have "0 < cell_w c" using at by (simp add: cell_at_def)
      then obtain k where k: "cell_w c = int (Suc k)" using zero_less_imp_eq_int [of "cell_w c"] by (metis gr0_implies_Suc)
      have w: "int n + cell_w c \<le> int (length ws)" using at True ws by (simp add: cell_at_def)
      obtain s' where s': "cell_text c = Inr s'" using texts_ok_text [OF t(3) c(1)] ..
      obtain r where r: "filled_cell ws (int n) c = Inr r" "length r = (if n \<noteq> 0 then 1 else 0) + 2 + space ws (int n) (cell_w c)"
        using length_filled_cell [OF s' _ _ w] fit [OF c(1) True] s' by auto
      have "position_text t ws y (int n) = Inr r" using c True r(1) by (simp add: position_text_def)
      moreover have "covered_to t y n = n" using covered_to_free [OF t(1,2), where y = y and n = n] Some True by simp
      moreover have "columns_cost ws (n + Suc k) = columns_cost ws n + length r"
        unfolding r(2) k space_int columns_cost_def take_add by (cases n) simp_all
      moreover have "covered_to t y (Suc n) = n + Suc k" unfolding e True k by simp
      ultimately show ?thesis using new by simp
    next
      case False
      then obtain k where k: "n = Suc k" using at by (cases n) (auto simp: cell_at_def)
      have "cell_x c \<le> int k" "int k < cell_x c + cell_w c" using at False k by (auto simp: cell_at_def)
      then have "findOverlappingCell (int k) y t = Some c" by (rule tiledD [OF t(1,2) c(1)])
      then have "covered_to t y n = nat (cell_x c + cell_w c)" using c(2) by (simp add: covered_to_def k row_cell_def)
      moreover have "position_text t ws y (int n) = Inr []" using c False by (simp add: position_text_def)
      ultimately show ?thesis using new [of "[]"] e by simp
    qed
  qed
qed

lemma covered_to_end:
  assumes "table_ok t" "0 < t_width t"
  shows "covered_to t y (nat (t_width t)) = nat (t_width t)"
proof -
  obtain k where k: "nat (t_width t) = Suc k" using assms(2) by (metis gr0_implies_Suc zero_less_nat_eq)
  then have w: "t_width t = int (Suc k)" using assms(2) by linarith
  have "cell_x c + cell_w c = int (Suc k)" if "row_cell t y (int k) = Some c" for c
  proof -
    have "cell_at t (int k) y c" using that assms(1) by (auto simp: row_cell_def table_ok_def split: option.splits if_splits)
    then show ?thesis by (auto simp: cell_at_def w)
  qed
  then show ?thesis unfolding k by (auto simp: covered_to_def split: option.splits)
qed

text \<open>
  The rows of a table whose cells do not lie over each other, and in whose cells nothing fails, all have the same
  length: three characters and the width for each column, and the bars.  No width is subtracted below zero.
\<close>

lemma table_rows_aligned:
  assumes "table_ok t" "tiled t" "texts_ok t"
  shows "\<exists>rows ws. table_text t = Inr (concat (map (\<lambda>r. r @ ''|'' @ [LF]) rows) @ [LF]) \<and>
     length rows = nat (t_height t) \<and> length ws = nat (t_width t) \<and>
     list_all (\<lambda>r. length r = sum_list ws + 3 * length ws - 1) rows"
proof -
  obtain ws0 ws where ws: "columnWidths t = Inr ws0" "widen_columns t ws0 = Inr ws" "length ws = nat (t_width t)"
    and fit: "\<And>x y c. findOverlappingCell x y t = Some c \<Longrightarrow> cell_x c = x \<Longrightarrow> length (text_of c) \<le> space ws x (cell_w c)"
    using column_widths_fit [OF assms(1,3)] by blast
  have w: "0 \<le> t_width t" "0 \<le> t_height t" using assms(1) by (simp_all add: table_ok_def)
  have row: "\<exists>r. row_text t ws y = Inr (r @ ''|'' @ [LF]) \<and> length r = sum_list ws + 3 * length ws - 1" for y
  proof -
    obtain s where s: "text_contents (map (position_text t ws y) [0..int (nat (t_width t)) - 1]) = Inr s"
      "length s = columns_cost ws (covered_to t y (nat (t_width t)))"
      using row_positions [OF assms ws(3), of "nat (t_width t)" y] fit by blast
    moreover have "covered_to t y (nat (t_width t)) = nat (t_width t)"
      using covered_to_end [OF assms(1)] w by (cases "t_width t = 0") (simp_all add: covered_to_def)
    ultimately show ?thesis using w ws(3) by (simp add: row_text_def rbind_def columns_cost_def)
  qed
  have rows: "\<exists>rows. text_contents (map (row_text t ws) ys) = Inr (concat (map (\<lambda>r. r @ ''|'' @ [LF]) rows)) \<and> length rows = length ys \<and>
      list_all (\<lambda>r. length r = sum_list ws + 3 * length ws - 1) rows" for ys
  proof (induction ys)
    case (Cons y ys)
    obtain r where r: "row_text t ws y = Inr (r @ ''|'' @ [LF])" "length r = sum_list ws + 3 * length ws - 1" using row by blast
    obtain rows where "text_contents (map (row_text t ws) ys) = Inr (concat (map (\<lambda>r. r @ ''|'' @ [LF]) rows))" "length rows = length ys"
      "list_all (\<lambda>r. length r = sum_list ws + 3 * length ws - 1) rows" using Cons by blast
    then show ?case using r by (intro exI [of _ "r # rows"]) (simp add: rbind_def)
  qed simp
  obtain rows where "text_contents (map (row_text t ws) [0..t_height t - 1]) = Inr (concat (map (\<lambda>r. r @ ''|'' @ [LF]) rows))"
    "length rows = nat (t_height t)" "list_all (\<lambda>r. length r = sum_list ws + 3 * length ws - 1) rows"
    using rows [of "[0..t_height t - 1]"] by auto
  then show ?thesis using ws by (intro exI [of _ rows] exI [of _ ws]) (simp add: table_text_def rbind_def)
qed

section \<open>Tables of a document\<close>

lemma find_map_table:
  "findOverlappingCell x y (map_table f t) = map_option (map_cell f) (findOverlappingCell x y t)"
  by (cases t) (simp add: findOverlappingCell_def map_prod_def map_of_map)

lemma table_nodes: "findOverlappingCell x y t = Some c \<Longrightarrow> n \<in> set (cell_nodes c) \<Longrightarrow> n \<in> set_table t"
  by (cases t; cases c) (force simp: findOverlappingCell_def dest: map_of_SomeD)

lemma table_ok_map: "table_ok t \<Longrightarrow> table_ok (map_table f t)"
  by (auto simp: table_ok_def find_map_table cell_at_def table.map_sel cell.map_sel)

lemma tiled_map: "tiled t \<Longrightarrow> tiled (map_table f t)"
  unfolding tiled_def find_map_table
proof (intro allI impI)
  fix x y c x' y'
  assume t: "\<forall>x y c x' y'. findOverlappingCell x y t = Some c \<longrightarrow> (x', y') \<in> set (cell_area c) \<longrightarrow> findOverlappingCell x' y' t = Some c"
    and a: "map_option (map_cell f) (findOverlappingCell x y t) = Some c" "(x', y') \<in> set (cell_area c)"
  obtain d where d: "findOverlappingCell x y t = Some d" "c = map_cell f d" using a(1) by auto
  have "(x', y') \<in> set (cell_area d)" using a(2) d(2) by (simp add: cell_area_iff cell.map_sel)
  then have "findOverlappingCell x' y' t = Some d" using t d(1) by blast
  then show "map_option (map_cell f) (findOverlappingCell x' y' t) = Some c" using d(2) by simp
qed

lemma text_contents_return: "list_all (\<lambda>r. \<not> isl r) rs \<Longrightarrow> \<not> isl (text_contents rs)"
  by (induction rs) (auto simp: rbind_def split: sum.splits)

lemma texts_ok_map:
  assumes "list_all (\<lambda>(_, c). list_all (\<lambda>n. \<not> isl (renderText width n)) (cell_nodes c)) (t_cellMap t)"
  shows "texts_ok (map_table (renderText width) t)"
proof -
  have "\<not> isl (cell_text c)" if f: "findOverlappingCell x y (map_table (renderText width) t) = Some c" for x y c
  proof -
    obtain d where d: "findOverlappingCell x y t = Some d" "c = map_cell (renderText width) d" using f by (auto simp: find_map_table)
    have "list_all (\<lambda>n. \<not> isl (renderText width n)) (cell_nodes d)"
      using assms d(1) by (auto simp: list_all_iff findOverlappingCell_def dest!: map_of_SomeD)
    then show ?thesis unfolding d(2) cell_text_def by (intro text_contents_return) (simp add: cell.map_sel list_all_iff)
  qed
  then show ?thesis by (simp add: texts_ok_def)
qed

definition sample_table :: "node table" where
  "sample_table =
     addCell (new_cell ''good'' ''3'' 1 1 False) (addCell (new_cell ''host'' ''mercury'' 1 1 False)
       (newRow (addCell (new_cell [] ''Backups <all>'' 2 1 True) new_table)))"

lemma sample_table_ok: "table_ok sample_table" "tiled sample_table"
proof -
  show "table_ok sample_table" unfolding sample_table_def by (intro addCell_ok newRow_ok new_table_ok)
  have f: "findOverlappingCell x y new_table = None" for x y :: int by (simp add: new_table_def findOverlappingCell_def)
  have one: "cell_w (new_cell style s 1 1 h) = 1" "cell_h (new_cell style s 1 1 h) = 1" for style s h by (simp_all add: new_cell_def)
  show "tiled sample_table"
    unfolding sample_table_def
    by (intro addCell_single addCell_ok newRow_ok new_table_ok newRow_tiled one addCell_tiled) (simp add: f)
qed

end
