(* ===== verification/HtmlSafety.thy ===== *)
theory HtmlSafety
  imports Html Colors TextLayout
begin

text \<open>
  What the rendering as HTML guarantees: quoted text is read back as the code points it was and has no markup of its
  own, and what is written for a document is well-formed markup whatever the texts in it are.
\<close>

section \<open>Quoted text\<close>

lemma scan_digits_shorter: "length (snd (scan_digits r acc s)) \<le> length s"
  by (induction r acc s rule: scan_digits.induct) auto

text \<open>A reader of character references.\<close>

function html_unquote :: "string \<Rightarrow> nat list" where
  "html_unquote [] = []"
| "html_unquote (c # cs) =
     (if c = CHR ''&'' then let (n, s) = scan_digits 10 0 (drop 1 cs) in n # html_unquote (drop 1 s)
      else of_char c # html_unquote cs)"
  by pat_completeness auto
termination
proof (relation "measure length", goal_cases)
  case (2 c cs p n s)
  then have "length s \<le> length (drop 1 cs)" using scan_digits_shorter [of 10 0 "drop 1 cs"] by (metis snd_conv)
  then show ?case by simp
qed auto

lemma scan_show_nat_stop: "\<not> is_radix_digit 10 c \<Longrightarrow> scan_digits 10 0 (show_nat n @ c # s) = (n, c # s)"
proof -
  assume "\<not> is_radix_digit 10 c"
  then have "scan_digits 10 n (c # s) = (n, c # s)" by simp
  moreover have "\<forall>d \<in> set (show_nat n). is_radix_digit 10 d" by (simp add: show_nat_digits)
  ultimately show ?thesis using scan_show_nat [of n] by (simp add: scan_digits_append)
qed

lemma unquote_char: "html_unquote (quote_html_char w @ s) = w # html_unquote s"
proof (cases "127 \<le> w \<or> w \<in> {38, 60, 34, 39}")
  case True
  have "\<not> is_radix_digit 10 CHR '';''" by (simp add: is_radix_digit_def digit_value_def char_simps c_isupper_def c_islower_def)
  then show ?thesis using True scan_show_nat_stop [of "CHR '';''" w s] by (simp add: quote_html_char_def)
next
  case False
  then have "of_char (char_of w :: char) = w" by simp
  moreover have "char_of w \<noteq> CHR ''&''"
  proof
    assume "char_of w = CHR ''&''"
    then show False using calculation False by simp
  qed
  ultimately show ?thesis using False by (simp add: quote_html_char_def)
qed

lemma unquote_text: "html_unquote (concat (map quote_html_char u)) = u"
  by (induction u) (simp_all add: unquote_char)

definition quote_safe :: "char \<Rightarrow> bool" where
  "quote_safe c \<longleftrightarrow> c \<noteq> CHR ''<'' \<and> c \<noteq> DQUOTE \<and> c \<noteq> CHR 0x27"

lemma quote_html_char_safe: "list_all quote_safe (quote_html_char w)"
proof (cases "127 \<le> w \<or> w \<in> {38, 60, 34, 39}")
  case True
  have "quote_safe c" if "c \<in> set (show_nat w)" for c
    using show_nat_digits [OF that] by (auto simp: quote_safe_def c_isdigit_def)
  then show ?thesis using True by (auto simp: quote_html_char_def list_all_iff quote_safe_def)
next
  case False
  then have w: "of_char (char_of w :: char) = w" by simp
  have "quote_safe (char_of w)"
    unfolding quote_safe_def
  proof (intro conjI notI)
    assume "char_of w = CHR ''<''"
    then show False using w False by simp
  next
    assume "char_of w = DQUOTE"
    then show False using w False by simp
  next
    assume "char_of w = CHR 0x27"
    then show False using w False by simp
  qed
  then show ?thesis using False by (simp add: quote_html_char_def)
qed

text \<open>
  A text that is quoted for HTML is read back as its code points, and has no character in it that begins a tag or
  ends an attribute.
\<close>

lemma quoted_html_read_back:
  assumes "he_unicode env s = Inr u"
  shows "\<exists>q. quoteHtml env s = Inr q \<and> html_unquote q = u \<and> list_all quote_safe q"
  using assms unquote_text [of u] quote_html_char_safe
  by (simp add: quoteHtml_def rbind_def list_all_iff)

definition ascii_env :: html_env where
  "ascii_env = \<lparr>he_unicode = (\<lambda>s. Inr (map of_char s)), he_uuid = (\<lambda>_. ''1a90a5fb'')\<rparr>"

section \<open>Markup\<close>

text \<open>
  The grammar of what is written: texts without \<open><\<close>, elements that are closed in the order in which they were opened,
  and images, which have no end.  The value of an attribute is quoted, or is a plain word.
\<close>

definition plain_word :: "string \<Rightarrow> bool" where
  "plain_word s \<longleftrightarrow> list_all (\<lambda>c. c_isalnum c \<or> c = CHR ''-'') s"

inductive attribute_text :: "string \<Rightarrow> bool" where
  no_attribute: "attribute_text []"
| quoted_attribute: "plain_word k \<Longrightarrow> list_all quote_safe v \<Longrightarrow> attribute_text a \<Longrightarrow>
    attribute_text ([SP] @ k @ ''='' @ [DQUOTE] @ v @ [DQUOTE] @ a)"
| plain_attribute: "plain_word k \<Longrightarrow> plain_word v \<Longrightarrow> attribute_text a \<Longrightarrow> attribute_text ([SP] @ k @ ''='' @ v @ a)"

inductive markup :: "string \<Rightarrow> bool" where
  markup_end: "markup []"
| markup_char: "c \<noteq> CHR ''<'' \<Longrightarrow> markup s \<Longrightarrow> markup (c # s)"
| markup_element: "plain_word n \<Longrightarrow> attribute_text a \<Longrightarrow> markup body \<Longrightarrow> markup s \<Longrightarrow>
    markup (''<'' @ n @ a @ ''>'' @ body @ ''</'' @ n @ ''>'' @ s)"
| markup_image: "attribute_text a \<Longrightarrow> markup s \<Longrightarrow> markup (''<img'' @ a @ ''>'' @ s)"

lemma attribute_append: "attribute_text a \<Longrightarrow> attribute_text b \<Longrightarrow> attribute_text (a @ b)"
proof (induction rule: attribute_text.induct)
  case (quoted_attribute k v a)
  from attribute_text.quoted_attribute [OF quoted_attribute(1,2) quoted_attribute(4) [OF quoted_attribute(5)]] show ?case by simp
next
  case (plain_attribute k v a)
  from attribute_text.plain_attribute [OF plain_attribute(1,2) plain_attribute(4) [OF plain_attribute(5)]] show ?case by simp
qed simp

lemma markup_append: "markup a \<Longrightarrow> markup b \<Longrightarrow> markup (a @ b)"
proof (induction rule: markup.induct)
  case (markup_element n a body s)
  from markup.markup_element [OF markup_element(1-3) markup_element(6) [OF markup_element(7)]] show ?case by simp
next
  case (markup_image a s)
  from markup.markup_image [OF markup_image(1) markup_image(3) [OF markup_image(4)]] show ?case by simp
qed (simp_all add: markup_char)

lemma markup_text: "list_all (\<lambda>c. c \<noteq> CHR ''<'') s \<Longrightarrow> markup s"
  by (induction s) (auto intro: markup.intros)

text \<open>A writer that ends, fails or writes markup.\<close>

definition writes_markup :: "html_writer \<Rightarrow> bool" where
  "writes_markup w \<longleftrightarrow> (\<forall>im s im'. w im = Some (Inr (s, im')) \<longrightarrow> markup s)"

lemma writes_seq: "writes_markup a \<Longrightarrow> writes_markup b \<Longrightarrow> writes_markup (html_seq a b)"
  unfolding writes_markup_def html_seq_def by (auto split: option.splits sum.splits) (metis markup_append)

lemma writes_contents: "list_all writes_markup ws \<Longrightarrow> writes_markup (html_contents ws)"
  proof (induction ws)
  case Nil
  show ?case by (auto simp: html_contents_def writes_markup_def html_out_def rbind_def markup_end)
qed (simp add: html_contents_def writes_seq)

lemma writes_out: "(\<And>s. r = Inr s \<Longrightarrow> markup s) \<Longrightarrow> writes_markup (html_out r)"
  by (auto simp: writes_markup_def html_out_def rbind_def split: sum.splits)

section \<open>What is written is markup\<close>

abbreviation plain_style :: "node_attrs \<Rightarrow> bool" where
  "plain_style a \<equiv> plain_word (n_style a)"

lemma html_attributes_text:
  "list_all (\<lambda>(k, _). plain_word k) kvs \<Longrightarrow> html_attributes env kvs = Inr a \<Longrightarrow> attribute_text a"
proof (induction kvs arbitrary: a)
  case (Cons kv kvs)
  obtain k v where kv: "kv = (k, v)" by (cases kv)
  obtain u b where u: "he_unicode env (c_str v) = Inr u" "html_attributes env kvs = Inr b"
    "a = [SP] @ k @ ''='' @ [DQUOTE] @ concat (map quote_html_char u) @ [DQUOTE] @ b"
    using Cons.prems(2) by (auto simp: kv quoteHtml_def rbind_def split: sum.splits)
  have "list_all quote_safe (concat (map quote_html_char u))" using quote_html_char_safe by (simp add: list_all_iff)
  then show ?case
    unfolding u(3) using Cons.IH [OF _ u(2)] Cons.prems(1) by (intro quoted_attribute) (simp_all add: kv)
qed (simp add: no_attribute)

lemma hex_color_safe: "list_all quote_safe (''#'' @ hex_color n)"
proof -
  have "is_radix_digit 16 c \<Longrightarrow> quote_safe c" for c
    by (auto simp: quote_safe_def is_radix_digit_def digit_value_def char_simps c_isupper_def c_islower_def)
  then show ?thesis using show_hex_digits by (auto simp: hex_color_def list_all_iff Let_def quote_safe_def)
qed

text \<open>The opening tag, up to its end.\<close>

lemma open_tag:
  assumes "plain_style a" "list_all (\<lambda>(k, _). plain_word k) kvs" "renderHtmlOpenTag env a name kvs = Inr s"
  shows "\<exists>t. s = ''<'' @ name @ t @ ''>'' \<and> attribute_text t"
proof -
  obtain b where b: "html_attributes env kvs = Inr b" using assms(3) by (auto simp: renderHtmlOpenTag_def rbind_def split: sum.splits)
  have plain: "plain_word ''class''" "plain_word ''color''" "plain_word ''bgcolor''" by code_simp+
  have style: "attribute_text (style_attribute (n_style a))"
    using plain_attribute [OF plain(1) assms(1) no_attribute] by (simp add: style_attribute_def no_attribute)
  have color: "attribute_text (color_attribute name c)" if "plain_word name" for name c
    using quoted_attribute [OF that hex_color_safe [of c] no_attribute] by (simp add: color_attribute_def no_attribute)
  have "attribute_text (style_attribute (n_style a) @ color_attribute ''color'' (n_fgcolor a) @ color_attribute ''bgcolor'' (n_bgcolor a) @ b)"
    by (intro attribute_append style color plain html_attributes_text [OF assms(2) b])
  then show ?thesis using assms(3) b by (auto simp: renderHtmlOpenTag_def rbind_def)
qed

lemma writes_element:
  assumes "plain_style a" "plain_word name" "list_all (\<lambda>(k, _). plain_word k) kvs" "writes_markup body"
  shows "writes_markup (html_element env a name kvs body)"
  unfolding writes_markup_def
proof (intro allI impI)
  fix im s im'
  assume "html_element env a name kvs body im = Some (Inr (s, im'))"
  then obtain t b im1 where t: "renderHtmlOpenTag env a name kvs = Inr t" "body im = Some (Inr (b, im1))" "s = t @ b @ renderHtmlCloseTag name"
    by (auto simp: html_element_def html_seq_def html_out_def rbind_def split: option.splits sum.splits)
  obtain a' where a': "t = ''<'' @ name @ a' @ ''>''" "attribute_text a'" using open_tag [OF assms(1,3) t(1)] by blast
  have "markup b" using assms(4) t(2) by (auto simp: writes_markup_def)
  from markup_element [OF assms(2) a'(2) this markup_char [of LF, OF _ markup_end]]
  show "markup s" by (simp add: t(3) a'(1) renderHtmlCloseTag_def)
qed

lemma writes_image: 
  assumes "plain_style a"
  shows "writes_markup (html_image env a ty content)"
proof -
  have src: "list_all (\<lambda>(k, _). plain_word k) [(''src'', v)]" for v :: string by simp code_simp
  have "markup s" if "renderHtmlOpenTag env a ''img'' [(''src'', v)] = Inr s" for v s
  proof -
    note open_img = open_tag [OF assms src that]
    obtain t where "s = ''<'' @ ''img'' @ t @ ''>''" "attribute_text t" using open_img by blast
    then show ?thesis using markup_image [OF _ markup_end] by simp
  qed
  then have "writes_markup (html_element env a ''p'' [] (html_out (renderHtmlOpenTag env a ''img'' [(''src'', v)])))" for v
    using assms by (intro writes_element writes_out) (simp_all, code_simp)
  then show ?thesis unfolding writes_markup_def [of "html_image _ _ _ _"] html_image_def by (auto simp: writes_markup_def split: option.splits)
qed

text \<open>Tables: rows of cells.\<close>

lemma writes_cell:
  assumes "plain_style (cell_attrs c)" "list_all writes_markup (cell_nodes c)"
  shows "writes_markup (html_cell env c)"
proof -
  have "plain_word ''th''" "plain_word ''td''" "plain_word ''colspan''" "plain_word ''rowspan''" by code_simp+
  then show ?thesis unfolding html_cell_def Let_def by (intro writes_element writes_contents assms) simp_all
qed

definition cells_write :: "html_writer table \<Rightarrow> bool" where
  "cells_write t \<longleftrightarrow>
     (\<forall>x y c. findOverlappingCell x y t = Some c \<longrightarrow> plain_style (cell_attrs c) \<and> list_all writes_markup (cell_nodes c))"

lemma row_columns_induct [consumes 1, case_names columns]:
  assumes "row_columns t y heading x = Some cs"
    and step: "\<And>rec t y heading x cs.
      (\<And>t y heading x cs. rec t y heading x = Some cs \<Longrightarrow> P t y heading x cs) \<Longrightarrow>
      (if x < t_width t
       then (case findRootedCell x y t of
               Some c \<Rightarrow> Option.bind (rec t y (heading \<or> cell_heading c) (x + cell_w c)) (\<lambda>cs. Some (Inl c # cs))
             | None \<Rightarrow> Option.bind (rec t y heading (x + 1)) (\<lambda>cs.
                   Some (if findOverlappingCell x y t = None then Inr heading # cs else cs)))
       else Some []) = Some cs \<Longrightarrow> P t y heading x cs"
  shows "P t y heading x cs"
proof (rule row_columns.raw_induct [where P = P and xa = "(((t, y), heading), x)" and ya = cs, unfolded prod.case])
  show "row_columns t y heading x = Some cs" by (fact assms(1))
qed (rule step)

lemma row_columns_cells:
  "row_columns t y heading x = Some cs \<Longrightarrow> Inl c \<in> set cs \<Longrightarrow> \<exists>x. findOverlappingCell x y t = Some c"
proof (induction rule: row_columns_induct)
  case (columns rec t y heading x cs)
  have "findRootedCell x y t = Some c \<Longrightarrow> findOverlappingCell x y t = Some c"
    by (auto simp: findRootedCell_def split: option.splits if_splits)
  then show ?case using columns by (auto split: if_splits option.splits simp: bind_eq_Some_conv) blast
qed

lemma writes_column:
  assumes "plain_style a" "cells_write t" "row_columns t y False 0 = Some cs" "c \<in> set cs"
  shows "writes_markup (html_column env a c)"
proof (cases c)
  case (Inl c')
  then obtain x where "findOverlappingCell x y t = Some c'" using row_columns_cells [OF assms(3)] assms(4) by blast
  then show ?thesis using assms(2) by (auto simp: Inl html_column_def cells_write_def writes_cell)
next
  case (Inr h)
  have "plain_word ''th''" "plain_word ''td''" by code_simp+
  then show ?thesis using assms(1) by (auto simp: Inr html_column_def intro!: writes_element writes_contents)
qed

lemma writes_table:
  assumes "plain_style a" "cells_write t"
  shows "writes_markup (html_table env a t)"
proof -
  have plain: "plain_word ''tr''" "plain_word ''table''" by code_simp+
  have "writes_markup (html_row env a t y)" for y
  proof (cases "row_columns t y False 0")
    case None
    then show ?thesis unfolding html_row_def by (auto intro!: writes_element assms plain simp: writes_markup_def [of "\<lambda>_. None"])
  next
    case (Some cs)
    have "list_all writes_markup (map (html_column env a) cs)" using writes_column [OF assms Some] by (simp add: list_all_iff)
    then show ?thesis unfolding html_row_def Some by (auto intro!: writes_element assms plain writes_contents)
  qed
  then show ?thesis unfolding html_table_def by (intro writes_element writes_contents assms plain) (simp_all add: list_all_iff)
qed

text \<open>Documents whose styles are plain words.\<close>

primrec plain_node :: "node \<Rightarrow> bool" where
  "plain_node (StringNode a s) = True"
| "plain_node (LinearContainer a ns) = (plain_style a \<and> list_all id (map plain_node ns))"
| "plain_node (Paragraph a ns) = (plain_style a \<and> list_all id (map plain_node ns))"
| "plain_node (Verbatim a ns) = (plain_style a \<and> list_all id (map plain_node ns))"
| "plain_node (ListNode a ty ns) = (plain_style a \<and> list_all id (map plain_node ns))"
| "plain_node (ListEntry a ns) = (plain_style a \<and> list_all id (map plain_node ns))"
| "plain_node (Heading a level ns) = (plain_style a \<and> list_all id (map plain_node ns))"
| "plain_node (TableNode a t) =
     (plain_style a \<and> list_all (\<lambda>(_, c). plain_style (cell_attrs c) \<and> list_all id (cell_nodes c)) (t_cellMap (map_table plain_node t)))"
| "plain_node (ImageNode a ty content) = plain_style a"
| "plain_node (RootContainer a ns) = (plain_style a \<and> list_all id (map plain_node ns))"

lemma tag_names:
  "plain_word ''div''" "plain_word ''p''" "plain_word ''pre''" "plain_word ''ul''" "plain_word ''ol''" "plain_word ''li''" "plain_word ''body''"
  "plain_word (CHR ''h'' # show_int n)"
proof -
  have "c_isalnum c" if "c_isdigit c" for c using that by (simp add: c_isalnum_def)
  then show "plain_word (CHR ''h'' # show_int n)"
    using show_int_chars by (fastforce simp: plain_word_def list_all_iff c_isalnum_def c_isalpha_def c_islower_def char_simps)
qed code_simp+

lemma writes_node: "plain_node n \<Longrightarrow> writes_markup (renderHtml env n)"
proof (induction n)
  case (StringNode a s)
  have "list_all quote_safe (concat (map quote_html_char u))" for u using quote_html_char_safe by (simp add: list_all_iff)
  then have "list_all (\<lambda>c. c \<noteq> CHR ''<'') (concat (map quote_html_char u))" for u by (auto simp: list_all_iff quote_safe_def)
  then show ?case by (auto intro!: writes_out markup_text simp: quoteHtml_def rbind_def split: sum.splits)
next
  case (TableNode a t)
  have "cells_write (map_table (renderHtml env) t)"
    unfolding cells_write_def find_map_table
  proof (intro allI impI)
    fix x y c
    assume "map_option (map_cell (renderHtml env)) (findOverlappingCell x y t) = Some c"
    then obtain c' where c': "findOverlappingCell x y t = Some c'" "c = map_cell (renderHtml env) c'" by auto
    show "plain_style (cell_attrs c) \<and> list_all writes_markup (cell_nodes c)"
      using TableNode.prems TableNode.IH table_nodes [OF c'(1)] c'
      by (auto simp: list_all_iff cell.map_sel table.map_sel findOverlappingCell_def dest!: map_of_SomeD)
  qed
  then show ?case using TableNode by (simp add: writes_table)
qed (auto intro!: writes_element writes_contents writes_image writes_out tag_names simp: list_all_iff split: list_type.split)

section \<open>Something is written\<close>

definition returns :: "html_writer \<Rightarrow> bool" where
  "returns w \<longleftrightarrow> (\<forall>im. \<exists>s im'. w im = Some (Inr (s, im')))"

definition unicode_total :: "html_env \<Rightarrow> bool" where
  "unicode_total env \<longleftrightarrow> (\<forall>s. \<exists>u. he_unicode env s = Inr u)"

lemma returns_seq: "returns a \<Longrightarrow> returns b \<Longrightarrow> returns (html_seq a b)"
  unfolding returns_def html_seq_def
proof
  fix im assume a: "\<forall>im. \<exists>s im'. a im = Some (Inr (s, im'))" and b: "\<forall>im. \<exists>s im'. b im = Some (Inr (s, im'))"
  obtain s im1 where 1: "a im = Some (Inr (s, im1))" using a by blast
  obtain s' im2 where 2: "b im1 = Some (Inr (s', im2))" using b by blast
  show "\<exists>s im'. (case a im of Some (Inr (s, im)) \<Rightarrow> (case b im of Some (Inr (s', im)) \<Rightarrow> Some (Inr (s @ s', im)) | r \<Rightarrow> r) | r \<Rightarrow> r) =
      Some (Inr (s, im'))"
    using 1 2 by simp
qed

lemma returns_contents: "list_all returns ws \<Longrightarrow> returns (html_contents ws)"
proof (induction ws)
  case Nil
  show ?case by (simp add: html_contents_def returns_def html_out_def rbind_def)
qed (simp add: html_contents_def returns_seq)

lemma returns_out: "r = Inr s \<Longrightarrow> returns (html_out r)"
  by (simp add: returns_def html_out_def rbind_def)

lemma quoteHtml_total: "unicode_total env \<Longrightarrow> \<exists>q. quoteHtml env s = Inr q"
  by (auto simp: unicode_total_def quoteHtml_def rbind_def dest: spec [of _ s])

lemma open_tag_total: "unicode_total env \<Longrightarrow> \<exists>s. renderHtmlOpenTag env a name kvs = Inr s"
proof -
  assume u: "unicode_total env"
  have "\<exists>s. html_attributes env kvs = Inr s"
  proof (induction kvs)
    case (Cons kv kvs)
    obtain k v where kv: "kv = (k, v)" by (cases kv)
    obtain q where "quoteHtml env (c_str v) = Inr q" using quoteHtml_total [OF u] by blast
    then show ?case using Cons by (auto simp: kv rbind_def)
  qed simp
  then show ?thesis by (auto simp: renderHtmlOpenTag_def rbind_def)
qed

lemma returns_element: "unicode_total env \<Longrightarrow> returns body \<Longrightarrow> returns (html_element env a name kvs body)"
  unfolding html_element_def using open_tag_total returns_out by (metis returns_seq)

lemma row_columns_return: "table_ok t \<Longrightarrow> \<exists>cs. row_columns t y heading x = Some cs"
proof (induction "nat (t_width t - x)" arbitrary: heading x rule: less_induct)
  case less
  show ?case
  proof (cases "x < t_width t")
    case True
    show ?thesis
    proof (cases "findRootedCell x y t")
      case None
      obtain cs where "row_columns t y heading (x + 1) = Some cs" using less(1) [of "x + 1" heading] less(2) True by auto
      then show ?thesis using True None by (simp add: row_columns.simps [of t y heading x])
    next
      case (Some c)
      then have "findOverlappingCell x y t = Some c" by (auto simp: findRootedCell_def split: option.splits if_splits)
      then have "cell_at t x y c" using less(2) by (simp add: table_ok_def)
      then have "0 < cell_w c" by (simp add: cell_at_def)
      then obtain cs where "row_columns t y (heading \<or> cell_heading c) (x + cell_w c) = Some cs"
        using less(1) [of "x + cell_w c" "heading \<or> cell_heading c"] less(2) True by auto
      then show ?thesis using True Some by (simp add: row_columns.simps [of t y heading x])
    qed
  qed (simp add: row_columns.simps [of t y heading x])
qed

lemma returns_table:
  assumes u: "unicode_total env" and t: "table_ok t" "\<And>x y c. findOverlappingCell x y t = Some c \<Longrightarrow> list_all returns (cell_nodes c)"
  shows "returns (html_table env a t)"
proof -
  have "returns (html_row env a t y)" for y
  proof -
    obtain cs where cs: "row_columns t y False 0 = Some cs" using row_columns_return [OF t(1)] by blast
    have "returns (html_column env a c)" if "c \<in> set cs" for c
    proof (cases c)
      case (Inl c')
      then have "Inl c' \<in> set cs" using that by simp
      then obtain x where "findOverlappingCell x y t = Some c'" using row_columns_cells [OF cs] by blast
      then show ?thesis using t(2) u by (simp add: Inl html_column_def html_cell_def returns_element returns_contents)
    next
      case (Inr h)
      then show ?thesis using u by (simp add: html_column_def returns_element returns_contents)
    qed
    then show ?thesis unfolding html_row_def cs using u by (simp add: returns_element returns_contents list_all_iff)
  qed
  then show ?thesis unfolding html_table_def using u by (simp add: returns_element returns_contents list_all_iff)
qed

lemma returns_image: "unicode_total env \<Longrightarrow> returns (html_image env a ty content)"
proof -
  assume u: "unicode_total env"
  have "returns (html_element env a ''p'' [] (html_out (renderHtmlOpenTag env a ''img'' kvs)))" for kvs
    using open_tag_total [OF u] by (metis returns_element [OF u] returns_out)
  then show ?thesis by (auto simp: returns_def html_image_def split: option.splits)
qed

text \<open>Documents without a heading level that is too high, whose tables are in order.\<close>

primrec renderable :: "node \<Rightarrow> bool" where
  "renderable (StringNode a s) = True"
| "renderable (LinearContainer a ns) = list_all id (map renderable ns)"
| "renderable (Paragraph a ns) = list_all id (map renderable ns)"
| "renderable (Verbatim a ns) = list_all id (map renderable ns)"
| "renderable (ListNode a ty ns) = list_all id (map renderable ns)"
| "renderable (ListEntry a ns) = list_all id (map renderable ns)"
| "renderable (Heading a level ns) = (level \<le> 6 \<and> list_all id (map renderable ns))"
| "renderable (TableNode a t) = (table_ok t \<and> list_all (\<lambda>(_, c). list_all id (cell_nodes c)) (t_cellMap (map_table renderable t)))"
| "renderable (ImageNode a ty content) = True"
| "renderable (RootContainer a ns) = list_all id (map renderable ns)"

lemma returns_node: "unicode_total env \<Longrightarrow> renderable n \<Longrightarrow> returns (renderHtml env n)"
proof (induction n)
  case (StringNode a s)
  then show ?case using quoteHtml_total returns_out by (metis renderHtml.simps(1))
next
  case (TableNode a t)
  have "returns (html_table env a (map_table (renderHtml env) t))"
  proof (rule returns_table [OF TableNode.prems(1)])
    show "table_ok (map_table (renderHtml env) t)" using TableNode.prems(2) by (simp add: table_ok_map)
    fix x y c
    assume "findOverlappingCell x y (map_table (renderHtml env) t) = Some c"
    then obtain c' where c': "findOverlappingCell x y t = Some c'" "c = map_cell (renderHtml env) c'" by (auto simp: find_map_table)
    show "list_all returns (cell_nodes c)"
      using TableNode.prems TableNode.IH table_nodes [OF c'(1)] c'
      by (auto simp: list_all_iff cell.map_sel table.map_sel findOverlappingCell_def dest!: map_of_SomeD)
  qed
  then show ?case by simp
qed (auto intro!: returns_element returns_contents returns_image simp: list_all_iff)

definition document_ok :: "document \<Rightarrow> bool" where
  "document_ok d \<longleftrightarrow> list_all plain_node (doc_content d) \<and> list_all renderable (doc_content d) \<and> CHR ''<'' \<notin> set (doc_htmlStyleSheet d)"

text \<open>
  The HTML of a document is well-formed, whatever the texts in it are: every element that is opened is closed, in
  order, and no text or attribute ends or begins one.
\<close>

theorem document_is_markup:
  assumes "unicode_total env" "document_ok d"
  shows "\<exists>s im'. document_renderHtml env d im = Some (Inr (s, im')) \<and> markup s"
proof -
  let ?root = "RootContainer new_attrs (doc_content d)"
  have new: "plain_style new_attrs" by (simp add: new_attrs_def plain_word_def)
  have root: "plain_node ?root" "renderable ?root"
    using assms(2) new by (simp_all add: document_ok_def list_all_iff)
  have names: "plain_word ''html''" "plain_word ''head''" "plain_word ''title''" "plain_word ''style''" "plain_word ''type''" by code_simp+
  obtain q where q: "quoteHtml env (doc_title d) = Inr q" using quoteHtml_total [OF assms(1)] by blast
  have "writes_markup (html_out (quoteHtml env (doc_title d)))" using writes_node [of "StringNode new_attrs (doc_title d)" env] by simp
  then have mq: "markup q" by (simp add: writes_markup_def html_out_def q rbind_def)
  obtain b im' where b: "renderHtml env ?root im = Some (Inr (b, im'))" using returns_node [OF assms(1) root(2)] unfolding returns_def by blast
  have mb: "markup b" using writes_node [OF root(1)] b unfolding writes_markup_def by blast
  let ?style = "if doc_htmlStyleSheet d \<noteq> []
      then ''<style type='' @ [DQUOTE] @ ''text/css'' @ [DQUOTE] @ ''>'' @ [LF] @ doc_htmlStyleSheet d @ ''</style>'' @ [LF] else []"
  have lf: "markup ([LF] @ s)" if "markup s" for s using markup_char [OF _ that, of LF] by simp
  have type: "attribute_text ([SP] @ ''type'' @ ''='' @ [DQUOTE] @ ''text/css'' @ [DQUOTE])"
    using quoted_attribute [OF names(5) _ no_attribute, of "''text/css''"] by (simp add: quote_safe_def)
  have sheet: "markup ([LF] @ doc_htmlStyleSheet d)"
    using assms(2) by (intro lf markup_text) (auto simp: document_ok_def list_all_iff)
  have style: "markup (?style @ s)" if "markup s" for s
    using markup_element [OF names(4) type sheet lf [OF that]] that by simp
  have head: "markup (''<head>'' @ [LF] @ (''<title>'' @ q @ ''</title>'' @ [LF] @ ?style) @ ''</head>'' @ [LF] @ s)" if "markup s" for s
    using markup_element [OF names(2) no_attribute lf [OF markup_element [OF names(3) no_attribute mq lf [OF style [OF markup_end]]]] lf [OF that]] by simp
  have "markup (''<html>'' @ [LF] @ (''<head>'' @ [LF] @ (''<title>'' @ q @ ''</title>'' @ [LF] @ ?style) @ ''</head>'' @ [LF] @ b) @ ''</html>'' @ [LF])"
    using markup_element [OF names(1) no_attribute lf [OF head [OF mb]] lf [OF markup_end]] by simp
  moreover have "document_renderHtml env d im =
      Some (Inr (''<html>'' @ [LF] @ (''<head>'' @ [LF] @ (''<title>'' @ q @ ''</title>'' @ [LF] @ ?style) @ ''</head>'' @ [LF] @ b) @ ''</html>'' @ [LF], im'))"
    using b q by (simp add: document_renderHtml_def html_contents_def html_seq_def html_out_def rbind_def del: renderHtml.simps)
  ultimately show ?thesis by blast
qed

definition sample_document :: document where
  "sample_document =
     document_append (ImageNode (new_attrs\<lparr>n_style := ''history''\<rparr>) ''image/png'' ''PNG'')
       (document_append (TableNode new_attrs sample_table)
         (document_para ''<script>'' (document_heading ''A & B'' 1
           (new_document\<lparr>doc_title := ''Report'', doc_htmlStyleSheet := ''td.bad { color: red }''\<rparr>))))"

lemma document_is_markup_witness:
  "\<exists>s im'. document_renderHtml ascii_env sample_document (Some []) = Some (Inr (s, im')) \<and> markup s"
proof (rule document_is_markup)
  show "unicode_total ascii_env" by (simp add: unicode_total_def ascii_env_def)
  have ok: "table_ok sample_table" unfolding sample_table_def by (intro addCell_ok newRow_ok new_table_ok)
  have plain: "list_all plain_node (doc_content sample_document)" by code_simp
  have cells: "list_all (\<lambda>(_, c). list_all id (cell_nodes c)) (t_cellMap (map_table renderable sample_table))"
  proof -
    have "list_all (\<lambda>(_, c). list_all (\<lambda>n. case n of StringNode a s \<Rightarrow> True | _ \<Rightarrow> False) (cell_nodes c)) (t_cellMap sample_table)"
      by code_simp
    moreover have "(case n of StringNode a s \<Rightarrow> True | _ \<Rightarrow> False) \<Longrightarrow> renderable n" for n by (cases n) simp_all
    ultimately show ?thesis by (fastforce simp: list_all_iff table.map_sel cell.map_sel)
  qed
  show "document_ok sample_document"
    using ok plain cells by (simp add: document_ok_def sample_document_def document_append_def document_para_def document_heading_def new_document_def)
qed

end
