(* ===== verification/CompressTable.thy ===== *)
theory CompressTable
  imports OrdMap
begin

text \<open>
  The compressable table of \<^verbatim>\<open>src/CompressTable.h\<close>, by which the pruning logs of the report are shortened: a cell is a
  \<open>std::set\<close> of values (a sorted list), and neighbouring rows that differ in one column are merged.
\<close>

section \<open>Rows\<close>

type_synonym 'a row = "'a list list"

definition row_push_back :: "'a \<Rightarrow> 'a row \<Rightarrow> 'a row" where
  "row_push_back v r = r @ [[v]]"

definition differences :: "'a row \<Rightarrow> 'a row \<Rightarrow> nat" where
  "differences r s = length (filter (\<lambda>(c, d). c \<noteq> d) (zip r s))"

definition mergeable :: "'a row \<Rightarrow> 'a row \<Rightarrow> bool" where
  "mergeable r s = (if length r \<noteq> length s then False else differences r s \<le> 1)"

definition merge_row :: "('a \<Rightarrow> 'a \<Rightarrow> bool) \<Rightarrow> 'a row \<Rightarrow> 'a row \<Rightarrow> 'a row" where
  "merge_row lt r s = map (\<lambda>(c, d). foldl (\<lambda>c v. fst (os_insert lt v c)) c d) (zip r s)"

section \<open>Tables\<close>

definition table_push_back :: "'a list \<Rightarrow> 'a row list \<Rightarrow> 'a row list" where
  "table_push_back vs rows = rows @ [foldl (\<lambda>r v. row_push_back v r) [] vs]"

text \<open>The loop over the rows, and whether it changed anything; it is repeated while it does.\<close>

function compress_pass :: "('a \<Rightarrow> 'a \<Rightarrow> bool) \<Rightarrow> 'a row list \<Rightarrow> 'a row list \<times> bool" where
  "compress_pass lt (r # s # rows) =
     (if mergeable r s then (fst (compress_pass lt (merge_row lt r s # rows)), True)
      else case compress_pass lt (s # rows) of (rows, changed) \<Rightarrow> (r # rows, changed))"
| "compress_pass lt [] = ([], False)"
| "compress_pass lt [r] = ([r], False)"
  by pat_completeness auto
termination
  by (relation "measure (\<lambda>(_, rows). length rows)") auto

lemma compress_pass_shorter:
  "length (fst (compress_pass lt rows)) \<le> length rows \<and>
   (snd (compress_pass lt rows) \<longrightarrow> length (fst (compress_pass lt rows)) < length rows)"
  by (induction lt rows rule: compress_pass.induct) (auto simp: split_def)

function compress :: "('a \<Rightarrow> 'a \<Rightarrow> bool) \<Rightarrow> 'a row list \<Rightarrow> 'a row list" where
  "compress lt rows = (case compress_pass lt rows of (rows, changed) \<Rightarrow> if changed then compress lt rows else rows)"
  by auto
termination
  by (relation "measure (\<lambda>(_, rows). length rows)") (auto, metis compress_pass_shorter fst_conv snd_conv)

declare compress.simps [simp del]

section \<open>The records that a table stands for\<close>

text \<open>A row stands for every choice of one value of each of its cells.\<close>

definition records :: "'a row \<Rightarrow> 'a list set" where
  "records r = {vs. list_all2 (\<lambda>v c. v \<in> set c) vs r}"

definition table_records :: "'a row list \<Rightarrow> 'a list set" where
  "table_records rows = (\<Union>r \<in> set rows. records r)"

lemma differences_none: "length r = length s \<Longrightarrow> differences r s = 0 \<Longrightarrow> r = s"
  by (induction r s rule: list_induct2) (auto simp: differences_def split: if_splits)

lemma records_Cons: "vs \<in> records (c # r) \<longleftrightarrow> (\<exists>v vs'. vs = v # vs' \<and> v \<in> set c \<and> vs' \<in> records r)"
  by (auto simp: records_def list_all2_Cons2)

lemma records_of_values: "records (foldl (\<lambda>r v. row_push_back v r) [] vs) = {vs}"
proof -
  have "foldl (\<lambda>r v. row_push_back v r) r vs = r @ map (\<lambda>v. [v]) vs" for r
    by (induction vs arbitrary: r) (simp_all add: row_push_back_def)
  moreover have "records (map (\<lambda>v. [v]) vs) = {vs}"
    by (induction vs) (auto simp: records_Cons set_eq_iff, simp_all add: records_def)
  ultimately show ?thesis by simp
qed

text \<open>Neighbouring rows cannot be merged.\<close>

definition compressed :: "'a row list \<Rightarrow> bool" where
  "compressed rows \<longleftrightarrow> successively (\<lambda>r s. \<not> mergeable r s) rows"

lemma compress_pass_unchanged: "\<not> snd (compress_pass lt rows) \<Longrightarrow> fst (compress_pass lt rows) = rows \<and> compressed rows"
  by (induction lt rows rule: compress_pass.induct) (auto simp: compressed_def split_def split: if_splits)

lemma compress_compressed: "compressed (compress lt rows)"
proof (induction lt rows rule: compress.induct)
  case (1 lt rows)
  show ?case
  proof (cases "snd (compress_pass lt rows)")
    case True
    then have "compress lt rows = compress lt (fst (compress_pass lt rows))" by (subst compress.simps) (simp add: split_def)
    then show ?thesis using 1 [of "fst (compress_pass lt rows)" True] True by (simp add: prod_eq_iff)
  next
    case False
    then have "compress lt rows = rows" using compress_pass_unchanged by (subst compress.simps) (auto simp: split_def)
    then show ?thesis using compress_pass_unchanged [OF False] by simp
  qed
qed

context key_order
begin

definition row_ok :: "'k row \<Rightarrow> bool" where
  "row_ok r \<longleftrightarrow> list_all sorted_set r"

lemma insert_all:
  "sorted_set c \<Longrightarrow> list_all ok d \<Longrightarrow>
   sorted_set (foldl (\<lambda>c v. fst (os_insert lt v c)) c d) \<and> set (foldl (\<lambda>c v. fst (os_insert lt v c)) c d) = set c \<union> set d"
proof (induction d arbitrary: c)
  case (Cons v d)
  then show ?case using Cons.IH [of "fst (os_insert lt v c)"] by (simp add: os_insert_sorted os_insert_set)
qed simp

lemma sorted_set_all_ok: "sorted_set c \<Longrightarrow> list_all ok c"
  by (simp add: sorted_set_def)

lemma merge_row_records:
  assumes "length r = length s" "row_ok r" "row_ok s" "differences r s \<le> 1"
  shows "records (merge_row lt r s) = records r \<union> records s \<and> row_ok (merge_row lt r s)"
  using assms
proof (induction r s rule: list_induct2)
  case Nil
  then show ?case by (simp add: merge_row_def records_def row_ok_def)
next
  case (Cons c r d s)
  have cd: "sorted_set c" "list_all ok d" "row_ok r" "row_ok s" using Cons.prems by (auto simp: row_ok_def sorted_set_all_ok)
  note m = insert_all [OF cd(1,2)]
  have merged: "merge_row lt (c # r) (d # s) = foldl (\<lambda>c v. fst (os_insert lt v c)) c d # merge_row lt r s" by (simp add: merge_row_def)
  have IH: "differences r s \<le> 1 \<Longrightarrow> records (merge_row lt r s) = records r \<union> records s \<and> row_ok (merge_row lt r s)"
    using Cons.IH cd(3,4) by blast
  show ?case
  proof (cases "c = d")
    case True
    then have "differences r s \<le> 1" using Cons.prems(3) by (simp add: differences_def)
    then have "records (merge_row lt r s) = records r \<union> records s \<and> row_ok (merge_row lt r s)" by (rule IH)
    moreover have "records (c' # r') = (\<Union>v \<in> set c'. (#) v ` records r')" for c' and r' :: "'k row" by (force simp: records_Cons set_eq_iff)
    ultimately show ?thesis using m True unfolding merged by (auto simp: row_ok_def)
  next
    case False
    then have "differences r s = 0" using Cons.prems(3) by (simp add: differences_def)
    moreover from this have "r = s" using differences_none [OF Cons.hyps] by simp
    ultimately have "records (merge_row lt r s) = records s \<and> row_ok (merge_row lt r s)" using IH by simp
    moreover have "records (c' # r') = (\<Union>v \<in> set c'. (#) v ` records r')" for c' and r' :: "'k row" by (force simp: records_Cons set_eq_iff)
    ultimately show ?thesis using m \<open>r = s\<close> unfolding merged by (auto simp: row_ok_def)
  qed
qed

lemma compress_pass_records:
  "list_all row_ok rows \<Longrightarrow>
   table_records (fst (compress_pass lt rows)) = table_records rows \<and> list_all row_ok (fst (compress_pass lt rows))"
proof (induction "length rows" arbitrary: rows rule: less_induct)
  case less
  consider "rows = []" | r where "rows = [r]" | r s rest where "rows = r # s # rest" by (metis list.exhaust)
  then show ?case
  proof cases
    case 3
    show ?thesis
    proof (cases "mergeable r s")
      case True
      then have "length r = length s" "differences r s \<le> 1" by (auto simp: mergeable_def split: if_splits)
      then have m: "records (merge_row lt r s) = records r \<union> records s" "row_ok (merge_row lt r s)"
        using merge_row_records less(2) 3 by auto
      have "table_records (fst (compress_pass lt (merge_row lt r s # rest))) = table_records (merge_row lt r s # rest) \<and>
          list_all row_ok (fst (compress_pass lt (merge_row lt r s # rest)))"
        using less(1) [of "merge_row lt r s # rest"] less(2) m(2) 3 by simp
      then show ?thesis using True m(1) 3 by (simp add: table_records_def Un_assoc)
    next
      case False
      have "table_records (fst (compress_pass lt (s # rest))) = table_records (s # rest) \<and> list_all row_ok (fst (compress_pass lt (s # rest)))"
        using less(1) [of "s # rest"] less(2) 3 by simp
      then show ?thesis using False less(2) 3 by (simp add: table_records_def split_def)
    qed
  qed (use less in simp_all)
qed

lemma compress_records:
  "list_all row_ok rows \<Longrightarrow> table_records (compress lt rows) = table_records rows \<and> list_all row_ok (compress lt rows)"
proof (induction "length rows" arbitrary: rows rule: less_induct)
  case less
  note pass = compress_pass_records [OF less(2)]
  have "compress lt rows = (if snd (compress_pass lt rows) then compress lt (fst (compress_pass lt rows)) else fst (compress_pass lt rows))"
    by (subst compress.simps) (simp add: split_def)
  then show ?case using pass less(1) [of "fst (compress_pass lt rows)"] compress_pass_shorter [of lt rows] by simp
qed

end

text \<open>
  C24: The compressed table of records stands for exactly the records that were pushed, and no neighbouring rows of it
  can be merged.
\<close>

theorem compressed_table_records:
  "table_records (compress (<) (foldl (\<lambda>rows r. table_push_back r rows) [] rs)) = set (rs :: string list list) \<and>
   compressed (compress (<) (foldl (\<lambda>rows r. table_push_back r rows) [] rs))"
proof -
  have pushed: "foldl (\<lambda>rows r. table_push_back r rows) acc rs = acc @ map (foldl (\<lambda>r v. row_push_back v r) []) rs"
    for acc and rs :: "string list list"
    by (induction rs arbitrary: acc) (simp_all add: table_push_back_def)
  have "foldl (\<lambda>r v. row_push_back v r) r vs = r @ map (\<lambda>v. [v]) vs" for r and vs :: "string list"
    by (induction vs arbitrary: r) (simp_all add: row_push_back_def)
  then have "list_all string_order.row_ok (map (foldl (\<lambda>r v. row_push_back v r) []) rs)"
    by (simp add: string_order.row_ok_def list_all_iff string_order.sorted_set_def)
  from string_order.compress_records [OF this] compress_compressed
  show ?thesis unfolding pushed by (simp add: table_records_def records_of_values)
qed

end
