(* ===== verification/Report.thy ===== *)
theory Report
  imports Documents CompressTable ConfWrite Stores Commands
begin

text \<open>
  The report (\<^verbatim>\<open>src/Report.cc\<close>): the counters, the warnings, the summary table, the logs of backups and of pruning, and
  the sections that the configuration asks for.  The clock and the time zone, the environment, the output of
  \<^verbatim>\<open>rsbackup-graph\<close> and \<open>ctime\<close> are arguments; doubles are real numbers.
\<close>

section \<open>Colours\<close>

definition unpackColor :: "int \<Rightarrow> int \<times> int \<times> int" where
  "unpackColor color = (color div 2 ^ 16 mod 256, color div 2 ^ 8 mod 256, color mod 256)"

definition packColor :: "int \<times> int \<times> int \<Rightarrow> int" where
  "packColor rgb = (case rgb of (r, g, b) \<Rightarrow> r * 65536 + g * 256 + b)"

definition mixColor :: "int \<Rightarrow> int \<Rightarrow> real \<Rightarrow> int" where
  "mixColor zero one param = \<lfloor>of_int zero * (1 - param) + of_int one * param\<rfloor>"

definition pickColor :: "int \<Rightarrow> int \<Rightarrow> real \<Rightarrow> int" where
  "pickColor zero one param =
     (let (r0, g0, b0) = unpackColor zero; (r1, g1, b1) = unpackColor one;
          param = (if param < 0 then 0 else param); param = (if 1 < param then 1 else param)
      in packColor (mixColor r0 r1 param, mixColor g0 g1 param, mixColor b0 b1 param))"

section \<open>Counters\<close>

record counters =
  backups_missing :: int
  backups_partial :: int
  backups_out_of_date :: int
  backups_failed :: int
  devices_unknown :: int
  hosts_unknown :: int
  volumes_unknown :: int

definition volume_findDevice :: "string \<Rightarrow> volume \<Rightarrow> per_device option" where
  "volume_findDevice n v = om_find str_less n (v_perDevice v)"

text \<open>\<open>Date::today("REPORT") - perDevice->newest\<close>: the time is converted to a date.\<close>

definition newest_age :: "machine \<Rightarrow> per_device \<Rightarrow> int result" where
  "newest_age m pd = rbind (today m ''REPORT'') (\<lambda>t. rbind (date_at m (pd_newest pd)) (\<lambda>n. Inr (date_minus t n)))"

definition last_complete :: "string \<Rightarrow> volume \<Rightarrow> backup option" where
  "last_complete dev v = find (\<lambda>b. b_status b = COMPLETE \<and> b_deviceName b = dev) (rev (v_backups v))"

text \<open>The loop over the devices for a volume: whether it is out of date, the devices used, and \<open>backups_failed\<close>.\<close>

definition count_device :: "machine \<Rightarrow> volume \<Rightarrow> bool \<times> nat \<times> int \<Rightarrow> string \<times> device \<Rightarrow> (bool \<times> nat \<times> int) result" where
  "count_device m v s nd =
     (let (out_of_date, devices_used, failed) = s; dev = d_name (snd nd)
      in rbind
           (case volume_findDevice dev v of
              None \<Rightarrow> Inr (out_of_date, devices_used)
            | Some pd \<Rightarrow>
                if pd_count pd \<noteq> 0
                then rbind (newest_age m pd) (\<lambda>age.
                       Inr (if age \<le> cdiv (maxAge v) 86400 then False else out_of_date, devices_used + 1))
                else Inr (out_of_date, devices_used))
           (\<lambda>(out_of_date, devices_used).
             Inr (out_of_date, devices_used,
                  case last_complete dev v of None \<Rightarrow> failed | Some b \<Rightarrow> if b_status b \<noteq> COMPLETE then failed + 1 else failed)))"

definition count_volume :: "machine \<Rightarrow> conf \<Rightarrow> counters \<Rightarrow> string \<times> volume \<Rightarrow> counters result" where
  "count_volume m c k nv =
     rbind (fold_result (count_device m (snd nv)) (True, 0, backups_failed k) (c_devices c)) (\<lambda>(out_of_date, devices_used, failed).
       let k = k\<lparr>backups_failed := failed\<rparr>
       in Inr (if devices_used < length (c_devices c)
               then if devices_used = 0 then k\<lparr>backups_missing := backups_missing k + 1\<rparr>
                    else k\<lparr>backups_partial := backups_partial k + 1\<rparr>
               else if out_of_date then k\<lparr>backups_out_of_date := backups_out_of_date k + 1\<rparr>
               else k))"

definition count_host :: "machine \<Rightarrow> conf \<Rightarrow> counters \<Rightarrow> string \<times> host \<Rightarrow> counters result" where
  "count_host m c k nh =
     fold_result (count_volume m c) (k\<lparr>volumes_unknown := volumes_unknown k + int (length (h_unknownVolumes (snd nh)))\<rparr>)
       (h_volumes (snd nh))"

definition report_compute :: "machine \<Rightarrow> conf \<Rightarrow> counters result" where
  "report_compute m c =
     fold_result (count_host m c)
       \<lparr>backups_missing = 0, backups_partial = 0, backups_out_of_date = 0, backups_failed = 0,
        devices_unknown = int (length (c_unknownDevices c)), hosts_unknown = int (length (c_unknownHosts c)), volumes_unknown = 0\<rparr>
       (c_hosts c)"

section \<open>Warnings\<close>

definition counted_warning :: "int \<Rightarrow> string \<Rightarrow> string list" where
  "counted_warning n what = (if n \<noteq> 0 then [''WARNING: '' @ show_int n @ '' volumes '' @ what] else [])"

definition warning_texts :: "conf \<Rightarrow> counters \<Rightarrow> string list" where
  "warning_texts c k =
     map (\<lambda>d. ''Unknown device '' @ d) (c_unknownDevices c) @
     map (\<lambda>(h, d). ''Unknown host '' @ h @ '' on device '' @ d) (c_unknownHosts c) @
     concat (map (\<lambda>(hn, h). map (\<lambda>(v, d). ''Unknown volume '' @ hn @ '':'' @ v @ '' on device '' @ d) (h_unknownVolumes h)) (c_hosts c)) @
     counted_warning (backups_missing k) ''have no backups.'' @
     counted_warning (backups_partial k) ''are not fully backed up.'' @
     counted_warning (backups_out_of_date k) ''are out of date.'' @
     counted_warning (backups_failed k) ''failed latest backup.''"

definition list_entry :: "string \<Rightarrow> node" where
  "list_entry s = ListEntry new_attrs [StringNode new_attrs s]"

definition report_warnings :: "conf \<Rightarrow> counters \<Rightarrow> document \<Rightarrow> document" where
  "report_warnings c k = document_append (ListNode new_attrs UnorderedList (map list_entry (warning_texts c k)))"

definition warningCount :: "conf \<Rightarrow> counters \<Rightarrow> int" where
  "warningCount c k =
     int (length (c_unknownDevices c)) + int (length (c_unknownHosts c)) +
     foldl (\<lambda>n (_, h). n + int (length (h_unknownVolumes h))) 0 (c_hosts c) +
     (if backups_missing k \<noteq> 0 then 1 else 0) + (if backups_partial k \<noteq> 0 then 1 else 0) +
     (if backups_out_of_date k \<noteq> 0 then 1 else 0) + (if backups_failed k \<noteq> 0 then 1 else 0)"

section \<open>The summary\<close>

abbreviation heading_cell :: "string \<Rightarrow> int \<Rightarrow> int \<Rightarrow> node cell" where
  "heading_cell s w h \<equiv> new_cell [] s w h True"

abbreviation plain_cell :: "string \<Rightarrow> string \<Rightarrow> node cell" where
  "plain_cell style s \<equiv> new_cell style s 1 1 False"

definition summary_heading :: "conf \<Rightarrow> node table" where
  "summary_heading c =
     (let n = int (length (c_devices c)); t = new_table;
          t = addCell (heading_cell ''Host'' 1 3) t; t = addCell (heading_cell ''Volume'' 1 3) t;
          t = addCell (heading_cell ''Oldest'' 1 3) t; t = addCell (heading_cell ''Total'' 1 3) t;
          t = addCell (heading_cell ''Devices'' (3 * n) 1) t; t = addCell (heading_cell ''Time'' 1 2) t; t = newRow t;
          t = foldl (\<lambda>t (_, d). addCell (heading_cell (d_name d) 3 1) t) t (c_devices c); t = newRow t;
          t = foldl (\<lambda>t _. addCell (heading_cell ''Size'' 1 1) (addCell (heading_cell ''Count'' 1 1) (addCell (heading_cell ''Newest'' 1 1) t)))
                t (c_devices c);
          t = addCell (heading_cell ''Med/Max'' 1 1) t
      in newRow t)"

text \<open>
  How far a backup's age is on the way to the limit, \<open>(2 ^ (age / days) - 1) / 2\<close>.  With a limit below one day,
  an age of zero divides zero by zero, and the colour is computed from what is not a number: undefined behaviour; a
  negative age gives \<open>2\<close> to minus infinity.
\<close>

definition age_param :: "int \<Rightarrow> int \<Rightarrow> real result" where
  "age_param age days =
     (if days = 0 then if age = 0 then Inl UndefinedBehaviour else Inr (- 1 / 2)
      else Inr ((2 powr (of_int age / of_int days) - 1) / 2))"

definition size_text :: "int \<Rightarrow> string" where
  "size_text n =
     (if n < 1024 then show_int n
      else if n < 2 ^ 20 then show_int (n div 2 ^ 10) @ ''K''
      else if n < 2 ^ 30 then show_int (n div 2 ^ 20) @ ''M''
      else if n < 2 ^ 40 then show_int (n div 2 ^ 30) @ ''G''
      else show_int (n div 2 ^ 40) @ ''T'')"

definition colored_cell :: "int \<Rightarrow> string \<Rightarrow> node cell" where
  "colored_cell bgcolor s = Cell (new_attrs\<lparr>n_bgcolor := bgcolor\<rparr>) [StringNode new_attrs s] False 0 0 1 1"

text \<open>The cell with the date of the newest backup on a device.\<close>

definition newest_cell :: "machine \<Rightarrow> conf \<Rightarrow> volume \<Rightarrow> per_device option \<Rightarrow> node cell result" where
  "newest_cell m c v pd =
     (case pd of
        None \<Rightarrow> Inr (plain_cell ''bad'' ''none'')
      | Some pd \<Rightarrow>
          if pd_count pd = 0 then Inr (plain_cell ''bad'' ''none'')
          else rbind (date_at m (pd_newest pd)) (\<lambda>d. rbind (newest_age m pd) (\<lambda>age.
                 if age \<le> cdiv (maxAge v) 86400
                 then rbind (age_param age (cdiv (maxAge v) 86400)) (\<lambda>p.
                        Inr (colored_cell (pickColor (rgb_of_color (c_colorGood c)) (rgb_of_color (c_colorBad c)) p) (date_toString d)))
                 else Inr (plain_cell ''bad'' (date_toString d)))))"

definition summary_device :: "machine \<Rightarrow> conf \<Rightarrow> volume \<Rightarrow> node table \<Rightarrow> string \<times> device \<Rightarrow> node table result" where
  "summary_device m c v t nd =
     (let pd = volume_findDevice (d_name (snd nd)) v; count = (case pd of None \<Rightarrow> 0 | Some pd \<Rightarrow> pd_count pd)
      in rbind (newest_cell m c v pd) (\<lambda>newest.
           let t = addCell newest t;
               t = addCell (plain_cell (if count \<noteq> 0 then ''good'' else ''bad'') (show_int count)) t
           in Inr (addCell (plain_cell [] (case pd of None \<Rightarrow> [] | Some pd \<Rightarrow> if 0 \<le> pd_size pd then size_text (pd_size pd) else [])) t)))"

text \<open>The median and the longest time that a backup took; the median of an even number is the mean of the middle two.\<close>

definition elapsed_times :: "volume \<Rightarrow> int list" where
  "elapsed_times v = sort (map (\<lambda>b. b_finishTime b - b_time b) (filter (\<lambda>b. b_time b \<le> b_finishTime b) (v_backups v)))"

definition median_time :: "int list \<Rightarrow> int" where
  "median_time ts =
     (let n = length ts in if odd n then ts ! (n div 2) else cdiv (ts ! (n div 2 - 1) + ts ! (n div 2)) 2)"

definition times_text :: "volume \<Rightarrow> string" where
  "times_text v =
     (let ts = elapsed_times v
      in if ts = [] then []
         else formatTimeIntervalCompact (median_time ts) @ ''/'' @ formatTimeIntervalCompact (last ts))"

definition summary_volume :: "machine \<Rightarrow> conf \<Rightarrow> node table \<Rightarrow> string \<times> volume \<Rightarrow> node table result" where
  "summary_volume m c t nv =
     (let v = snd nv; missing = list_ex (\<lambda>(_, d). volume_findDevice (d_name d) v = None) (c_devices c);
          t = addCell (plain_cell ''volume'' (v_name v)) t
      in rbind (if v_oldest v \<noteq> 0 then rbind (date_at m (v_oldest v)) (\<lambda>d. Inr (date_toString d)) else Inr ''none'') (\<lambda>oldest.
           let t = addCell (plain_cell [] oldest) t;
               t = addCell (plain_cell (if missing then ''bad'' else ''good'') (show_int (v_completed v))) t
           in rbind (fold_result (summary_device m c v) t (c_devices c)) (\<lambda>t.
                Inr (newRow (addCell (plain_cell [] (times_text v)) t)))))"

definition summary_host :: "machine \<Rightarrow> conf \<Rightarrow> node table \<Rightarrow> string \<times> host \<Rightarrow> node table result" where
  "summary_host m c t nh =
     (let h = snd nh
      in fold_result (summary_volume m c) (addCell (new_cell ''host'' (h_name h) 1 (int (length (h_volumes h))) False) t) (h_volumes h))"

definition summary_table :: "machine \<Rightarrow> conf \<Rightarrow> node table result" where
  "summary_table m c = fold_result (summary_host m c) (summary_heading c) (c_hosts c)"

definition report_summary :: "machine \<Rightarrow> conf \<Rightarrow> document \<Rightarrow> document result" where
  "report_summary m c d = rbind (summary_table m c) (\<lambda>t. Inr (document_append (TableNode new_attrs t) d))"

section \<open>The logs of backups\<close>

text \<open>The backup is the same object: addresses are compared.\<close>

definition same_backup :: "backup \<Rightarrow> backup option \<Rightarrow> bool" where
  "same_backup b r = (case r of None \<Rightarrow> False | Some a \<Rightarrow> b_addr a = b_addr b)"

definition suitableLog :: "log_verbosity \<Rightarrow> conf \<Rightarrow> volume \<Rightarrow> backup \<Rightarrow> bool" where
  "suitableLog verbosity c v b =
     (let dev = map_option d_name (findDevice (b_deviceName b) c)
      in if b_contents b = [] then False
         else case verbosity of
                All \<Rightarrow> True
              | Errors \<Rightarrow> b_status b \<noteq> COMPLETE
              | Recent \<Rightarrow> same_backup b (mostRecentFailedBackup (c_devices c) dev v)
              | Latest \<Rightarrow> same_backup b (mostRecentBackup (c_devices c) dev v)
              | Failures \<Rightarrow> if b_status b \<in> {UNKNOWN, UNDERWAY, FAILED} then same_backup b (mostRecentBackup (c_devices c) dev v) else False)"

text \<open>One backup: the nodes of the container so far, and the devices that were seen.\<close>

definition log_step ::
    "log_verbosity \<Rightarrow> machine \<Rightarrow> conf \<Rightarrow> host \<Rightarrow> volume \<Rightarrow> node list \<times> string list \<Rightarrow> backup \<Rightarrow> (node list \<times> string list) result" where
  "log_step verbosity m c h v s b =
     (let (ns, seen) = s
      in rbind
           (if suitableLog verbosity c v b
            then rbind (date_at m (b_time b)) (\<lambda>d.
              Inr (ns @
                [Heading (new_attrs\<lparr>n_style := if b_deviceName b \<in> set seen then [] else ''recent''\<rparr>) 4
                   [StringNode new_attrs (date_toString d @ '' device '' @ b_deviceName b @ '' volume '' @ h_name h @ '':'' @ v_name v)],
                 Verbatim (new_attrs\<lparr>n_style := ''log''\<rparr>) [StringNode new_attrs (b_contents b)]]))
            else Inr ns)
           (\<lambda>ns. Inr (ns, b_deviceName b # seen)))"

definition volume_logs :: "log_verbosity \<Rightarrow> machine \<Rightarrow> conf \<Rightarrow> host \<Rightarrow> document \<Rightarrow> string \<times> volume \<Rightarrow> document result" where
  "volume_logs verbosity m c h d nv =
     (let v = snd nv
      in rbind (fold_result (log_step verbosity m c h v) ([], []) (rev (v_backups v))) (\<lambda>(ns, _).
           Inr (if ns = [] then d
                else document_append (LinearContainer (new_attrs\<lparr>n_style := ''volume''\<rparr>) ns)
                       (document_heading (''Host '' @ h_name h @ '' volume '' @ v_name v @ '' ('' @ v_path v @ '')'') 3 d))))"

definition report_logs :: "log_verbosity \<Rightarrow> machine \<Rightarrow> conf \<Rightarrow> document \<Rightarrow> document result" where
  "report_logs verbosity m c d =
     fold_result (\<lambda>d (_, h). fold_result (volume_logs verbosity m c h) d (h_volumes h)) d (c_hosts c)"

section \<open>The logs of pruning\<close>

definition DEFAULT_PRUNE_REPORT_AGE :: int where
  "DEFAULT_PRUNE_REPORT_AGE = 3"

text \<open>\<open>strftime\<close> with \<open>%Y-%m-%d\<close>; \<open>localtime\<close> gives a null pointer for a time that has no date.\<close>

definition local_day :: "machine \<Rightarrow> int \<Rightarrow> string result" where
  "local_day m t =
     (case localtime m t of
        None \<Rightarrow> Inl UndefinedBehaviour
      | Some d \<Rightarrow> Inr (show_int (date_y d) @ ''-'' @ show_pad 2 (date_m d) @ ''-'' @ show_pad 2 (date_d d)))"

definition prune_log_matches :: "int \<Rightarrow> db_key \<times> db_row \<Rightarrow> bool" where
  "prune_log_matches cutoff kr \<longleftrightarrow> (r_status (snd kr) = PRUNING \<or> r_status (snd kr) = PRUNED) \<and> cutoff \<le> r_pruned (snd kr)"

text \<open>\<open>ORDER BY pruned DESC\<close>; rows that were pruned at the same time are in the order of the table.\<close>

definition select_prune_logs :: "int \<Rightarrow> (db_key \<times> db_row) list db_action" where
  "select_prune_logs cutoff d =
     (case db_statement Inr d of
        (Inl e, d) \<Rightarrow> (Inl e, d)
      | (Inr _, d) \<Rightarrow> (Inr (sort_key (\<lambda>kr. - r_pruned (snd kr)) (filter (prune_log_matches cutoff) (db_working d))), d))"

definition prune_log_record :: "machine \<Rightarrow> db_key \<times> db_row \<Rightarrow> string list result" where
  "prune_log_record m kr =
     (case kr of ((host, volume, device, _), r) \<Rightarrow>
        rbind (local_day m (r_time r)) (\<lambda>created. rbind (local_day m (r_pruned r)) (\<lambda>pruned.
          Inr [created, pruned, host, volume, device, r_log r])))"

definition joined_values :: "string list \<Rightarrow> string" where
  "joined_values vs = foldl (\<lambda>s v. (if s \<noteq> [] then s @ '','' else s) @ v) [] vs"

definition prune_table_row :: "node table \<Rightarrow> string row \<Rightarrow> node table" where
  "prune_table_row t r = newRow (foldl (\<lambda>t c. addCell (plain_cell [] (joined_values c)) t) t r)"

definition prune_heading :: "node table" where
  "prune_heading =
     newRow (foldl (\<lambda>t s. addCell (heading_cell s 1 1) t) new_table
       [''Created'', ''Pruned'', ''Host'', ''Volume'', ''Device'', ''Reason''])"

definition prune_table :: "string list list \<Rightarrow> node table" where
  "prune_table rs = foldl prune_table_row prune_heading (compress (<) (foldl (\<lambda>rows r. table_push_back r rows) [] rs))"

definition report_pruneLogs :: "machine \<Rightarrow> string \<Rightarrow> document \<Rightarrow> document db_action" where
  "report_pruneLogs m interval d db =
     (case rbind (if interval \<noteq> [] then rbind (parseTimeInterval interval INT_MAX) (\<lambda>n. Inr (cdiv n 86400)) else Inr DEFAULT_PRUNE_REPORT_AGE)
             (\<lambda>ndays. rbind (now m ''REPORT'') (\<lambda>t. Inr (t - 86400 * ndays))) of
        Inl e \<Rightarrow> (Inl e, db)
      | Inr cutoff \<Rightarrow>
          (case select_prune_logs cutoff db of
             (Inl e, db) \<Rightarrow> (Inl e, db)
           | (Inr krs, db) \<Rightarrow>
               (rbind (fold_result (\<lambda>rs kr. rbind (prune_log_record m kr) (\<lambda>r. Inr (rs @ [r]))) [] krs) (\<lambda>rs.
                  Inr (document_append (TableNode new_attrs (prune_table rs)) d)), db)))"

section \<open>The history graph\<close>

record report_world =
  rw_machine :: machine
  rw_ctime :: "int \<Rightarrow> string"
  rw_path :: string
  rw_executable :: "string \<Rightarrow> bool"
  rw_run_graph :: "string list \<Rightarrow> string result"
  rw_config_path :: string
  rw_database_path :: string
  rw_debug :: bool
  rw_verbosity :: log_verbosity

definition graph_command :: "report_world \<Rightarrow> string list" where
  "graph_command w =
     [''rsbackup-graph'', ''-c'', rw_config_path w, ''-D'', rw_database_path w, ''-o-''] @ (if rw_debug w then [''-d''] else [])"

text \<open>The output of the program, where it is found on the path.\<close>

definition report_historyGraph :: "report_world \<Rightarrow> document \<Rightarrow> document result" where
  "report_historyGraph w d =
     (if pathSearch (rw_executable w) (rw_path w) ''rsbackup-graph'' = [] then Inr d
      else rbind (rw_run_graph w (graph_command w)) (\<lambda>png.
             Inr (if png \<noteq> [] then document_append (ImageNode (new_attrs\<lparr>n_style := ''history''\<rparr>) ''image/png'' png) d else d)))"

section \<open>Sections\<close>

text \<open>What is before the first \<open>c\<close>, and what is behind it.\<close>

definition split_at :: "char \<Rightarrow> string \<Rightarrow> string \<times> string option" where
  "split_at c s = (takeWhile (\<lambda>x. x \<noteq> c) s, if c \<in> set s then Some (tl (dropWhile (\<lambda>x. x \<noteq> c) s)) else None)"

definition section_value :: "(string \<Rightarrow> string option) \<Rightarrow> string \<Rightarrow> string" where
  "section_value env name =
     (case snd (split_at CHR '':'' name) of
        None \<Rightarrow> []
      | Some _ \<Rightarrow> substitute env name (length (fst (split_at CHR '':'' name)) + 1) (length name))"

definition section_body ::
    "report_world \<Rightarrow> conf \<Rightarrow> counters \<Rightarrow> string \<Rightarrow> string \<Rightarrow> document \<Rightarrow> document db_action" where
  "section_body w c k name value d db =
     (if name = ''warnings'' then (Inr (report_warnings c k d), db)
      else if name = ''summary'' then (report_summary (rw_machine w) c d, db)
      else if name = ''logs'' then (report_logs (rw_verbosity w) (rw_machine w) c d, db)
      else if name = ''prune-logs'' then report_pruneLogs (rw_machine w) value d db
      else if name = ''history-graph'' then (report_historyGraph w d, db)
      else if name = ''h1'' then (Inr (document_heading value 1 d), db)
      else if name = ''h2'' then (Inr (document_heading value 2 d), db)
      else if name = ''h3'' then (Inr (document_heading value 3 d), db)
      else if name = ''p'' then (Inr (document_para value d), db)
      else if name = ''title'' then (Inr (d\<lparr>doc_title := value\<rparr>), db)
      else (Inl (SyntaxError (''unrecognized report name '' @ quoted name)), db))"

definition report_section ::
    "report_world \<Rightarrow> (string \<Rightarrow> string option) \<Rightarrow> conf \<Rightarrow> counters \<Rightarrow> document \<Rightarrow> string \<Rightarrow> document db_action" where
  "report_section w env c k d n db =
     (let (name, condition) = split_at CHR ''?'' n;
          body = section_body w c k (fst (split_at CHR '':'' name)) (section_value env name) d db
      in case condition of
           None \<Rightarrow> body
         | Some cond \<Rightarrow>
             if cond = ''warnings'' then if warningCount c k = 0 then (Inr d, db) else body
             else (Inl (SyntaxError (''unrecognized report condition '' @ quoted cond)), db))"

text \<open>The environment that the texts of the configuration are expanded in.\<close>

definition report_environment :: "report_world \<Rightarrow> (string \<Rightarrow> string option) result" where
  "report_environment w =
     (let m = rw_machine w
      in rbind (today m ''REPORT'') (\<lambda>t. rbind (override_time (getenv m) (strptime m) ''REPORT'') (\<lambda>when.
           Inr ((getenv m)(''RSBACKUP_DATE'' \<mapsto> date_toString t,
                ''RSBACKUP_CTIME'' \<mapsto> (if when \<noteq> 0 then ''<timestamp>'' else rw_ctime w (clock m)))))))"

fun report_sections ::
    "report_world \<Rightarrow> (string \<Rightarrow> string option) \<Rightarrow> conf \<Rightarrow> counters \<Rightarrow> string list \<Rightarrow> document \<Rightarrow> document db_action" where
  "report_sections w env c k [] d db = (Inr d, db)"
| "report_sections w env c k (n # ns) d db =
     (case report_section w env c k d n db of
        (Inl e, db) \<Rightarrow> (Inl e, db)
      | (Inr d, db) \<Rightarrow> report_sections w env c k ns d db)"

definition report_generate :: "report_world \<Rightarrow> conf \<Rightarrow> document \<Rightarrow> (document \<times> counters) db_action" where
  "report_generate w c d db =
     (case rbind (report_environment w) (\<lambda>env. rbind (report_compute (rw_machine w) c) (\<lambda>k. Inr (env, k))) of
        Inl e \<Rightarrow> (Inl e, db)
      | Inr (env, k) \<Rightarrow>
          (case report_sections w env c k (c_report c) d db of
             (Inl e, db) \<Rightarrow> (Inl e, db)
           | (Inr d, db) \<Rightarrow> (Inr (d, k), db)))"

end
