(* ===== verification/Email.thy ===== *)
theory Email
  imports Report Html
begin

text \<open>
  Where the report goes (\<^verbatim>\<open>src/rsbackup.cc\<close>): the style sheet (\<^verbatim>\<open>src/stylesheet.cc\<close>), the files, and the email with the text,
  the HTML and its images (\<^verbatim>\<open>src/Email.h\<close> and \<^verbatim>\<open>src/Email.cc\<close>).
\<close>

section \<open>The style sheet\<close>

definition stylesheet :: string where
  "stylesheet =
     concat (map (\<lambda>l. l @ [LF])
       [''/* Copyright '' @ [CHR 0xC2, CHR 0xA9] @ '' 2011 Richard Kettlewell.'', '' *'',
        '' * This program is free software: you can redistribute it and/or modify'',
        '' * it under the terms of the GNU General Public License as published by'',
        '' * the Free Software Foundation, either version 3 of the License, or'', '' * (at your option) any later version.'',
        '' *'', '' * This program is distributed in the hope that it will be useful,'',
        '' * but WITHOUT ANY WARRANTY; without even the implied warranty of'',
        '' * MERCHANTABILITY or FITNESS FOR A PARTICULAR PURPOSE.  See the'',
        '' * GNU General Public License for more details.'', '' *'',
        '' * You should have received a copy of the GNU General Public License'',
        '' * along with this program.  If not, see http://www.gnu.org/licenses/.'', '' */'', ''body {'', ''  color: black;'',
        ''  background-color: white'', ''}'', [], ''a:link, a:visited, a:active {'', ''  color: blue;'',
        ''  text-decoration: underline'', ''}'', [], ''h1 {'', ''  background-color: #e0ffe0;'', ''  padding: 0.2em'', ''}'',
        [], ''h2 {'', ''  background-color: #e0e0e0;'', ''  padding: 0.2em'', ''}'', [], ''h3 {'',
        ''  text-decoration: underline'', ''}'', [], ''a.h3 {'', ''  margin-left: 1em'', ''}'', [], ''h1,h2,h3,h4 {'',
        ''  font-family: sans-serif'', ''}'', [], ''table {'', ''  border-collapse: collapse'', ''}'', [], ''th {'',
        ''  background-color: #e0e0e0;'', ''  border-left: 1px solid #e0e0e0;'', ''  border-top: 1px solid #e0e0e0;'',
        ''  border-right: 1px solid #e0e0e0'', ''}'', [], ''td {'', ''  border: 1px solid black;'',
        ''  vertical-align: top;'', ''  padding-left: 4px;'', ''  padding-right: 4px'', ''}'', [], ''td.bad {'',
        ''  background-color: #ff4040;'', ''  color: #ffffff'', ''}'', [], ''td.good {'', ''  background-color: #e0ffe0;'',
        ''  color: #000000'', ''}'', [], ''span.bad {'', ''  color: #ff4040'', ''}'', [], ''pre.log {'',
        ''  background-color: #f0f0f0'', ''}'', [], ''.example {'', ''  border-left: 2px solid black;'',
        ''  padding-left: 2px'', ''}'', [], ''div.volume {'', ''  margin-left: 1em'', ''}'', [], ''.recent {'',
        ''  color: #ff4040'', ''}'', [], ''img.history {'', ''  border: 1px solid black;'', ''  padding: 2px'', ''}''])"

text \<open>The colours of the configuration are added to it.\<close>

definition color_rule :: "string \<Rightarrow> string \<Rightarrow> color \<Rightarrow> string" where
  "color_rule selector name c = selector @ '' { '' @ name @ '': #'' @ show_color c @ '' }'' @ [LF]"

definition user_colors :: "conf \<Rightarrow> string" where
  "user_colors c =
     color_rule ''td.bad'' ''background-color'' (c_colorBad c) @
     color_rule ''td.good'' ''background-color'' (c_colorGood c) @
     color_rule ''span.bad'' ''color'' (c_colorBad c)"

section \<open>The email\<close>

definition MIME_BOUNDARY :: string where
  "MIME_BOUNDARY = ''a911ebf382e50dffdf966c4acf269d36e48824bb''"

definition MIME1 :: string where
  "MIME1 = ''-7bd98a1b''"

definition MIME2 :: string where
  "MIME2 = ''-0e6c69ac''"

record email =
  em_from :: string
  em_subject :: string
  em_to :: "string list"
  em_type :: string
  em_content :: string

definition new_email :: email where
  "new_email = \<lparr>em_from = [], em_subject = [], em_to = [], em_type = ''text/plain'', em_content = []\<rparr>"

definition addTo :: "string \<Rightarrow> email \<Rightarrow> email" where
  "addTo address e = e\<lparr>em_to := em_to e @ [address]\<rparr>"

definition setSubject :: "string \<Rightarrow> email \<Rightarrow> email" where
  "setSubject text e = e\<lparr>em_subject := text\<rparr>"

definition setType :: "string \<Rightarrow> email \<Rightarrow> email" where
  "setType ty e = e\<lparr>em_type := ty\<rparr>"

definition setContent :: "string \<Rightarrow> email \<Rightarrow> email" where
  "setContent msg e = e\<lparr>em_content := msg\<rparr>"

text \<open>\<open>Email::send\<close>: the command, and what is written to it.  The version is that of the build.\<close>

definition sendmail_command :: "conf \<Rightarrow> string list" where
  "sendmail_command c = [c_sendmail c, ''-t'', ''-oee'', ''-oi'', ''-odb'']"

fun recipients :: "string list \<Rightarrow> string" where
  "recipients [] = []"
| "recipients [a] = c_str a"
| "recipients (a # as) = c_str a @ '', '' @ recipients as"

definition email_headers :: "string \<Rightarrow> email \<Rightarrow> string list" where
  "email_headers version e =
     (if em_from e \<noteq> [] then [''From: '' @ c_str (em_from e)] else []) @
     [''To: '' @ recipients (em_to e), ''Subject: '' @ c_str (em_subject e), ''MIME-Version: 1.0'',
      ''User-Agent: rsbackup/'' @ version, ''Content-Type: '' @ c_str (em_type e), []]"

definition email_message :: "string \<Rightarrow> email \<Rightarrow> string" where
  "email_message version e =
     concat (map (\<lambda>l. l @ [LF]) (email_headers version e)) @ em_content e @
     (if em_content e \<noteq> [] \<and> last (em_content e) \<noteq> LF then [LF] else [])"

definition send_email :: "(string list \<Rightarrow> string \<Rightarrow> unit result) \<Rightarrow> string \<Rightarrow> conf \<Rightarrow> email \<Rightarrow> unit result" where
  "send_email pipe version c e =
     (if em_to e = [] then Inl (LogicError ''no recipients for email'')
      else pipe (sendmail_command c) (email_message version e))"

text \<open>The subject, and the parts of the content.\<close>

definition subject_count :: "string \<Rightarrow> int \<Rightarrow> string" where
  "subject_count name n = (if n \<noteq> 0 then [SP] @ name @ '':'' @ show_int n else [])"

definition email_subject :: "document \<Rightarrow> counters \<Rightarrow> string" where
  "email_subject d k =
     doc_title d @ subject_count ''missing'' (backups_missing k) @ subject_count ''partial'' (backups_partial k) @
     subject_count ''stale'' (backups_out_of_date k) @ subject_count ''failed'' (backups_failed k) @
     (if devices_unknown k \<noteq> 0 \<or> hosts_unknown k \<noteq> 0 \<or> volumes_unknown k \<noteq> 0
      then '' unknown:'' @ show_int (devices_unknown k + hosts_unknown k + volumes_unknown k) else [])"

definition image_lines :: "html_env \<Rightarrow> string \<times> string \<Rightarrow> string list" where
  "image_lines env im =
     [''--'' @ MIME_BOUNDARY @ MIME1, ''Content-ID: <'' @ image_ident env (snd im) @ ''>'', ''Content-Type: '' @ fst im,
      ''Content-Transfer-Encoding: base64'', [], write_base64 (snd im)]"

definition email_body :: "html_env \<Rightarrow> string \<Rightarrow> string \<Rightarrow> (string \<times> string) list \<Rightarrow> string" where
  "email_body env text_part html_part images =
     concat (map (\<lambda>l. l @ [LF])
       ([''--'' @ MIME_BOUNDARY @ MIME1, ''Content-Type: multipart/alternative; boundary='' @ MIME_BOUNDARY @ MIME2, [],
         ''--'' @ MIME_BOUNDARY @ MIME2, ''Content-Type: text/plain'', [], text_part,
         ''--'' @ MIME_BOUNDARY @ MIME2, ''Content-Type: text/html'', [], html_part,
         ''--'' @ MIME_BOUNDARY @ MIME2 @ ''--'', []] @
        concat (map (image_lines env) images) @ [''--'' @ MIME_BOUNDARY @ MIME1 @ ''--'']))"

definition report_email :: "html_env \<Rightarrow> string \<Rightarrow> document \<Rightarrow> counters \<Rightarrow> string \<Rightarrow> string \<Rightarrow> (string \<times> string) list \<Rightarrow> email" where
  "report_email env address d k text_part html_part images =
     setContent (email_body env text_part html_part images)
       (setType (''multipart/related; boundary='' @ MIME_BOUNDARY @ MIME1)
         (setSubject (email_subject d k) (addTo address new_email)))"

section \<open>The outputs\<close>

text \<open>
  What the program asks of the system: the style sheet that is read, whether a file can be opened for writing, the width of
  an output (zero when it is not a terminal), and the mailer.
\<close>

record output_world =
  ow_html :: html_env
  ow_read :: "string \<Rightarrow> string result"
  ow_open :: "string \<Rightarrow> unit result"
  ow_width :: "string \<Rightarrow> nat"
  ow_pipe :: "string list \<Rightarrow> string \<Rightarrow> unit result"
  ow_version :: string

text \<open>What is done, in order; a file that is opened is emptied.\<close>

datatype report_output = OpenFile string | WriteFile string string | WriteOut string | PipeTo "string list" string

text \<open>An action appends what it does; \<open>None\<close> is a loop that does not end.\<close>

type_synonym output_action = "report_output list \<Rightarrow> (unit result \<times> report_output list) option"

definition then_output :: "output_action \<Rightarrow> output_action \<Rightarrow> output_action" where
  "then_output a b outs = (case a outs of Some (Inr _, outs) \<Rightarrow> b outs | r \<Rightarrow> r)"

definition open_output :: "output_world \<Rightarrow> string \<Rightarrow> output_action" where
  "open_output w path outs =
     (if path = ''-'' then Some (Inr (), outs)
      else Some (ow_open w path, outs @ (case ow_open w path of Inl _ \<Rightarrow> [] | Inr _ \<Rightarrow> [OpenFile path])))"

definition write_output :: "string \<Rightarrow> string \<Rightarrow> output_action" where
  "write_output path s outs = Some (Inr (), outs @ [if path = ''-'' then WriteOut s else WriteFile path s])"

definition html_rendered :: "output_world \<Rightarrow> document \<Rightarrow> images \<Rightarrow> (string \<times> images \<Rightarrow> output_action) \<Rightarrow> output_action" where
  "html_rendered w d im k outs =
     (case document_renderHtml (ow_html w) d im of
        None \<Rightarrow> None
      | Some (Inl e) \<Rightarrow> Some (Inl e, outs)
      | Some (Inr r) \<Rightarrow> k r outs)"

definition text_rendered :: "nat \<Rightarrow> document \<Rightarrow> (string \<Rightarrow> output_action) \<Rightarrow> output_action" where
  "text_rendered width d k outs =
     (case document_renderText width d of Inl e \<Rightarrow> Some (Inl e, outs) | Inr s \<Rightarrow> k s outs)"

definition output_html :: "output_world \<Rightarrow> document \<Rightarrow> string \<Rightarrow> output_action" where
  "output_html w d path =
     html_rendered w d None (\<lambda>(s, _). then_output (open_output w path) (write_output path s))"

definition output_text :: "output_world \<Rightarrow> document \<Rightarrow> string \<Rightarrow> output_action" where
  "output_text w d path =
     then_output (open_output w path)
       (text_rendered (if ow_width w path \<noteq> 0 then ow_width w path else DEFAULT_TEXT_WIDTH) d (write_output path))"

definition output_email :: "output_world \<Rightarrow> conf \<Rightarrow> document \<Rightarrow> counters \<Rightarrow> string \<Rightarrow> output_action" where
  "output_email w c d k address =
     html_rendered w d (Some []) (\<lambda>(html_part, im). text_rendered DEFAULT_TEXT_WIDTH d (\<lambda>text_part outs.
       let e = report_email (ow_html w) address d k text_part html_part (case im of None \<Rightarrow> [] | Some is \<Rightarrow> is)
       in Some (send_email (ow_pipe w) (ow_version w) c e, outs @ [PipeTo (sendmail_command c) (email_message (ow_version w) e)])))"

definition when_given :: "string option \<Rightarrow> (string \<Rightarrow> output_action) \<Rightarrow> output_action" where
  "when_given v a outs = (case v of None \<Rightarrow> Some (Inr (), outs) | Some s \<Rightarrow> a s outs)"

definition output_report :: "output_world \<Rightarrow> command \<Rightarrow> conf \<Rightarrow> document \<Rightarrow> counters \<Rightarrow> output_action" where
  "output_report w cmd c d k =
     then_output (when_given (cmd_html cmd) (output_html w d))
       (then_output (when_given (cmd_text cmd) (output_text w d))
         (when_given (cmd_email cmd) (output_email w c d k)))"

text \<open>The document that the report is put into, and the whole: generated, then written.\<close>

definition report_document :: "output_world \<Rightarrow> conf \<Rightarrow> document result" where
  "report_document w c =
     rbind (if c_stylesheet c \<noteq> [] then ow_read w (c_stylesheet c) else Inr stylesheet) (\<lambda>s.
       Inr (new_document\<lparr>doc_htmlStyleSheet := s @ user_colors c\<rparr>))"

definition main_report ::
    "output_world \<Rightarrow> report_world \<Rightarrow> command \<Rightarrow> conf \<Rightarrow> database \<Rightarrow> (unit result \<times> report_output list) option" where
  "main_report w rw cmd c db =
     (case report_document w c of
        Inl e \<Rightarrow> Some (Inl e, [])
      | Inr d \<Rightarrow>
          (case report_generate rw c d db of
             (Inl e, _) \<Rightarrow> Some (Inl e, [])
           | (Inr (d, k), _) \<Rightarrow> output_report w cmd c d k []))"

end
