(* ===== verification/ReportTables.thy ===== *)
theory ReportTables
  imports ReportSafety TextLayout
begin

text \<open>
  The tables of the report are laid out without overlap, so that their rows are aligned, and every report that is
  generated can be rendered, as text and as HTML.
\<close>

section \<open>Tables that are laid out cell by cell\<close>

text \<open>Every cell of the report has one text.\<close>

definition text_cell :: "node cell \<Rightarrow> bool" where
  "text_cell c \<longleftrightarrow> plain_style (cell_attrs c) \<and> (\<exists>a s. cell_nodes c = [StringNode a s])"

definition laid_out :: "node table \<Rightarrow> bool" where
  "laid_out t \<longleftrightarrow> table_ok t \<and> tiled t \<and> at_free t \<and> list_all (\<lambda>(_, c). text_cell c) (t_cellMap t)"

lemma text_cell_moved [simp]: "text_cell (moved c x y) = text_cell c"
  by (simp add: text_cell_def moved_def)

lemma new_cell_text:
  "plain_word style \<Longrightarrow> text_cell (new_cell style s w h b)"
  "cell_w (new_cell style s w h b) = w" "cell_h (new_cell style s w h b) = h"
  by (simp_all add: new_cell_def text_cell_def new_attrs_def)

lemma new_table_laid_out: "laid_out new_table"
  using new_table_ok by (simp add: laid_out_def at_free_def) (simp add: new_table_def findOverlappingCell_def)

lemma addCell_fields [simp]:
  "t_y (addCell c t) = t_y t" "t_width (addCell c t) = max (t_width t) (t_x t + cell_w c)"
  "t_height (addCell c t) = max (t_height t) (t_y t + cell_h c)"
  by (simp_all add: addCell_alt Let_def)

lemma newRow_fields [simp]:
  "t_y (newRow t) = t_y t + 1" "t_width (newRow t) = t_width t" "t_height (newRow t) = t_height t"
  "findOverlappingCell x y (newRow t) = findOverlappingCell x y t"
  by (simp_all add: newRow_def findOverlappingCell_def)

lemma addCell_cells: "t_cellMap (addCell c t) = map (\<lambda>p. (p, moved c (t_x t) (t_y t))) (cell_area (moved c (t_x t) (t_y t))) @ t_cellMap t"
  by (simp add: addCell_alt Let_def addCell_at_def moved_def)

lemma laid_out_cell:
  assumes "laid_out t" "text_cell c" "\<forall>(x, y) \<in> set (cell_area (moved c (t_x t) (t_y t))). findOverlappingCell x y t = None"
  shows "laid_out (addCell c t)"
  using assms addCell_ok [of t c] addCell_tiled [of t c] by (auto simp: laid_out_def addCell_cells list_all_iff)

lemma laid_out_single: "laid_out t \<Longrightarrow> text_cell c \<Longrightarrow> cell_w c = 1 \<Longrightarrow> cell_h c = 1 \<Longrightarrow> laid_out (addCell c t)"
  using addCell_ok [of t c] addCell_single [of t c] by (auto simp: laid_out_def addCell_cells list_all_iff)

lemma laid_out_row: "laid_out t \<Longrightarrow> laid_out (newRow t)"
  using newRow_ok [of t] newRow_tiled [of t] by (simp add: laid_out_def) (simp add: newRow_def)

lemma beyond_free: "laid_out t \<Longrightarrow> t_height t \<le> y \<or> t_width t \<le> x \<Longrightarrow> findOverlappingCell x y t = None"
proof (rule ccontr)
  assume a: "laid_out t" "t_height t \<le> y \<or> t_width t \<le> x" "findOverlappingCell x y t \<noteq> None"
  then obtain c where "findOverlappingCell x y t = Some c" by blast
  then have "cell_at t x y c" using a(1) by (simp add: laid_out_def table_ok_def)
  then show False using a(2) by (auto simp: cell_at_def)
qed

text \<open>Below everything that is in the table, a cell of any height has space.\<close>

lemma laid_out_below:
  assumes "laid_out t" "text_cell c" "t_height t \<le> t_y t"
  shows "laid_out (addCell c t)"
  using assms by (intro laid_out_cell) (auto simp: cell_area_iff intro!: beyond_free)

lemma next_free_eq:
  assumes "x \<le> k" "\<And>x'. x \<le> x' \<Longrightarrow> x' < k \<Longrightarrow> map_of m (x', y) \<noteq> None" "map_of m (k, y) = None"
  shows "next_free m x y = k"
  using assms
proof (induction m x y rule: next_free.induct)
  case (1 m x y)
  show ?case
  proof (cases "x = k")
    case True
    then show ?thesis using 1(4) by (subst next_free.simps) simp
  next
    case False
    then have "map_of m (x, y) \<noteq> None" using 1(2) 1(3) [of x] by simp
    then show ?thesis using 1 False by (subst next_free.simps) simp
  qed
qed

lemma addCell_x: "t_x (addCell c t) = next_free (t_cellMap (addCell c t)) (t_x t) (t_y t)"
  by (simp add: addCell_alt Let_def)

lemma addCell_next:
  assumes "0 \<le> cell_w c" "0 < cell_h c" "findOverlappingCell (t_x t + cell_w c) (t_y t) t = None"
  shows "t_x (addCell c t) = t_x t + cell_w c"
  unfolding addCell_x
  by (rule next_free_eq) (use assms in \<open>auto simp: findOverlappingCell_def [symmetric] find_addCell cell_area_iff\<close>)

text \<open>To the right of everything, too.\<close>

definition right_end :: "node table \<Rightarrow> bool" where
  "right_end t \<longleftrightarrow> laid_out t \<and> t_width t \<le> t_x t"

lemma right_end_cell:
  assumes "right_end t" "text_cell c" "0 \<le> cell_w c" "0 < cell_h c"
  shows "right_end (addCell c t)" "t_x (addCell c t) = t_x t + cell_w c"
proof -
  have free: "findOverlappingCell x y t = None" if "t_x t \<le> x" for x y
    using assms(1) that beyond_free [of t y x] by (auto simp: right_end_def)
  show x: "t_x (addCell c t) = t_x t + cell_w c" using free assms by (intro addCell_next) simp_all
  have "laid_out (addCell c t)" using assms(1,2) by (intro laid_out_cell) (auto simp: right_end_def cell_area_iff intro: free)
  then show "right_end (addCell c t)" using assms(1,3) x by (simp add: right_end_def)
qed

section \<open>The heading of the summary\<close>

definition heading_first_row :: "int \<Rightarrow> node table" where
  "heading_first_row n =
     addCell (heading_cell ''Time'' 1 2) (addCell (heading_cell ''Devices'' (3 * n) 1) (addCell (heading_cell ''Total'' 1 3)
       (addCell (heading_cell ''Oldest'' 1 3) (addCell (heading_cell ''Volume'' 1 3) (addCell (heading_cell ''Host'' 1 3) new_table)))))"

lemma plain_word_Nil [simp]: "plain_word []"
  by (simp add: plain_word_def)

lemma heading_first_row:
  assumes "0 \<le> n"
  shows "laid_out (heading_first_row n)" "t_y (heading_first_row n) = 0" "t_height (heading_first_row n) = 3"
    "\<And>x. findOverlappingCell x 1 (heading_first_row n) = None \<longleftrightarrow> \<not> (0 \<le> x \<and> x < 4) \<and> x \<noteq> 4 + 3 * n"
proof -
  have t0: "right_end (new_table :: node table)" "t_x (new_table :: node table) = 0" "t_y (new_table :: node table) = 0"
    "t_height (new_table :: node table) = 0" "findOverlappingCell x 1 (new_table :: node table) = None" for x
    using new_table_laid_out by (simp_all add: right_end_def new_table_def findOverlappingCell_def)
  note step = right_end_cell [OF _ new_cell_text(1) [OF plain_word_Nil], unfolded new_cell_text(2,3)]
  let ?t1 = "addCell (heading_cell ''Host'' 1 3) new_table"
  have t1: "right_end ?t1" "t_x ?t1 = 1" using step [OF t0(1)] t0 by (simp_all add: new_cell_text)
  let ?t2 = "addCell (heading_cell ''Volume'' 1 3) ?t1"
  have t2: "right_end ?t2" "t_x ?t2 = 2" using step [OF t1(1)] t1 by (simp_all add: new_cell_text)
  let ?t3 = "addCell (heading_cell ''Oldest'' 1 3) ?t2"
  have t3: "right_end ?t3" "t_x ?t3 = 3" using step [OF t2(1)] t2 by (simp_all add: new_cell_text)
  let ?t4 = "addCell (heading_cell ''Total'' 1 3) ?t3"
  have t4: "right_end ?t4" "t_x ?t4 = 4" using step [OF t3(1)] t3 by (simp_all add: new_cell_text)
  let ?t5 = "addCell (heading_cell ''Devices'' (3 * n) 1) ?t4"
  have t5: "right_end ?t5" "t_x ?t5 = 4 + 3 * n" using step [OF t4(1)] t4 assms by (simp_all add: new_cell_text)
  have "right_end (heading_first_row n)" using step [OF t5(1)] by (simp add: heading_first_row_def new_cell_text)
  then show "laid_out (heading_first_row n)" by (simp add: right_end_def)
  show "t_y (heading_first_row n) = 0" "t_height (heading_first_row n) = 3"
    using t0 by (simp_all add: heading_first_row_def new_cell_text)
  show "findOverlappingCell x 1 (heading_first_row n) = None \<longleftrightarrow> \<not> (0 \<le> x \<and> x < 4) \<and> x \<noteq> 4 + 3 * n" for x
    using t0 t1(2) t2(2) t3(2) t4(2) t5(2) by (auto simp: heading_first_row_def find_addCell cell_area_iff new_cell_text)
qed

text \<open>The names of the devices, over three columns each, have the space that is left for them.\<close>

lemma device_headings:
  assumes "laid_out t" "\<And>x. t_x t \<le> x \<Longrightarrow> x < t_x t + 3 * int (length ds) \<Longrightarrow> findOverlappingCell x (t_y t) t = None"
  shows "laid_out (foldl (\<lambda>t (_, d). addCell (heading_cell (d_name d) 3 1) t) t ds) \<and>
    t_y (foldl (\<lambda>t (_, d). addCell (heading_cell (d_name d) 3 1) t) t ds) = t_y t \<and>
    t_height (foldl (\<lambda>t (_, d). addCell (heading_cell (d_name d) 3 1) t) t ds) \<le> max (t_height t) (t_y t + 1)"
  using assms
proof (induction ds arbitrary: t)
  case (Cons nd ds)
  let ?c = "heading_cell (d_name (snd nd)) 3 1"
  let ?t = "addCell ?c t"
  have 1: "laid_out ?t"
    using Cons.prems by (intro laid_out_cell) (auto simp: new_cell_text cell_area_iff)
  have "findOverlappingCell x (t_y t) ?t = None" if x: "t_x ?t \<le> x" "x < t_x ?t + 3 * int (length ds)" for x
  proof -
    have "0 < length ds" using x by (cases ds) auto
    then have "t_x ?t = t_x t + 3" using Cons.prems(2) addCell_next [of ?c t] by (simp add: new_cell_text)
    then show ?thesis using x Cons.prems(2) by (auto simp: find_addCell cell_area_iff new_cell_text)
  qed
  then show ?case using Cons.IH [OF 1] by (cases nd) (simp add: new_cell_text)
qed simp

lemma laid_out_columns:
  assumes "laid_out t"
  shows "laid_out (foldl (\<lambda>t _. addCell (heading_cell s3 1 1) (addCell (heading_cell s2 1 1) (addCell (heading_cell s1 1 1) t))) t ds) \<and>
    t_y (foldl (\<lambda>t _. addCell (heading_cell s3 1 1) (addCell (heading_cell s2 1 1) (addCell (heading_cell s1 1 1) t))) t ds) = t_y t \<and>
    t_height (foldl (\<lambda>t _. addCell (heading_cell s3 1 1) (addCell (heading_cell s2 1 1) (addCell (heading_cell s1 1 1) t))) t ds)
      \<le> max (t_height t) (t_y t + 1)"
  using assms
proof (induction ds arbitrary: t)
  case (Cons nd ds)
  let ?t = "addCell (heading_cell s3 1 1) (addCell (heading_cell s2 1 1) (addCell (heading_cell s1 1 1) t))"
  have "laid_out ?t" using Cons.prems by (intro laid_out_single) (simp_all add: new_cell_text)
  then show ?case using Cons.IH [of ?t] by (simp add: new_cell_text)
qed simp

lemma summary_heading_laid_out: "laid_out (summary_heading c) \<and> t_y (summary_heading c) = 3 \<and> t_height (summary_heading c) \<le> 3"
proof -
  define n where "n = int (length (c_devices c))"
  have n: "0 \<le> n" by (simp add: n_def)
  note r0 = heading_first_row [OF n]
  let ?t1 = "newRow (heading_first_row n)"
  note occupied = r0(4) [unfolded findOverlappingCell_def]
  have "next_free (t_cellMap (heading_first_row n)) 0 1 = (if n = 0 then 5 else 4)"
    by (rule next_free_eq) (unfold occupied, use n in \<open>auto split: if_splits\<close>)
  then have x: "t_x ?t1 = (if n = 0 then 5 else 4)" by (simp add: newRow_def r0(2))
  define t2 where "t2 = foldl (\<lambda>t (_, d). addCell (heading_cell (d_name d) 3 1) t) ?t1 (c_devices c)"
  have "findOverlappingCell x (t_y ?t1) ?t1 = None" if "t_x ?t1 \<le> x" "x < t_x ?t1 + 3 * int (length (c_devices c))" for x
    using that x r0(2) r0(4) [of x] by (auto simp: n_def split: if_splits)
  then have t2: "laid_out t2" "t_y t2 = 1" "t_height t2 \<le> 3"
    using device_headings [OF laid_out_row [OF r0(1)], of "c_devices c"] r0(2,3) by (simp_all add: t2_def)
  define t3 where "t3 = foldl (\<lambda>t _. addCell (heading_cell ''Size'' 1 1) (addCell (heading_cell ''Count'' 1 1)
      (addCell (heading_cell ''Newest'' 1 1) t))) (newRow t2) (c_devices c)"
  have t3: "laid_out t3" "t_y t3 = 2" "t_height t3 \<le> 3"
    using laid_out_columns [OF laid_out_row [OF t2(1)], of "''Size''" "''Count''" "''Newest''" "c_devices c"] t2(2,3) by (simp_all add: t3_def)
  have "summary_heading c = newRow (addCell (heading_cell ''Med/Max'' 1 1) t3)"
    by (simp add: summary_heading_def heading_first_row_def t2_def t3_def n_def Let_def)
  moreover have "laid_out (addCell (heading_cell ''Med/Max'' 1 1) t3)" using t3(1) by (intro laid_out_single) (simp_all add: new_cell_text)
  ultimately show ?thesis using t3(2,3) laid_out_row by (simp add: new_cell_text)
qed

section \<open>The rows of the summary\<close>

text \<open>Cells of one column and one row were added to the current row.\<close>

definition row_goes_on :: "node table \<Rightarrow> node table \<Rightarrow> bool" where
  "row_goes_on t t' \<longleftrightarrow> (laid_out t \<longrightarrow> laid_out t') \<and> t_y t' = t_y t \<and> t_height t' \<le> max (t_height t) (t_y t + 1)"

lemma row_goes_on_refl: "row_goes_on t t"
  by (simp add: row_goes_on_def)

lemma row_goes_on_trans: "row_goes_on t1 t2 \<Longrightarrow> row_goes_on t2 t3 \<Longrightarrow> row_goes_on t1 t3"
  by (auto simp: row_goes_on_def)

lemma row_goes_on_cell: "row_goes_on t t' \<Longrightarrow> text_cell c \<Longrightarrow> cell_w c = 1 \<Longrightarrow> cell_h c = 1 \<Longrightarrow> row_goes_on t (addCell c t')"
  by (auto simp: row_goes_on_def laid_out_single)

lemma summary_styles: "plain_word ''good''" "plain_word ''bad''" "plain_word ''volume''" "plain_word ''host''"
  by code_simp+

lemma newest_cell_text:
  "newest_cell m c v pd = Inr n \<Longrightarrow> text_cell n \<and> cell_w n = 1 \<and> cell_h n = 1"
  using summary_styles
  by (auto simp: newest_cell_def rbind_def colored_cell_def text_cell_def new_cell_def new_attrs_def split: option.splits if_splits sum.splits)

lemma summary_device_row: "summary_device m c v t nd = Inr t' \<Longrightarrow> row_goes_on t t'"
  using summary_styles
  by (auto simp: summary_device_def Let_def rbind_def split: sum.splits
      intro!: row_goes_on_cell row_goes_on_refl new_cell_text dest: newest_cell_text)

lemma summary_devices_row: "fold_result (summary_device m c v) t nds = Inr t' \<Longrightarrow> row_goes_on t t'"
  by (induction nds arbitrary: t)
    (auto simp: row_goes_on_refl rbind_def split: sum.splits dest: summary_device_row intro: row_goes_on_trans)

lemma summary_volume_row:
  assumes "summary_volume m c t nv = Inr t'"
  obtains t1 where "row_goes_on t t1" "t' = newRow t1"
proof -
  let ?st = "if list_ex (\<lambda>(_, d). volume_findDevice (d_name d) (snd nv) = None) (c_devices c) then ''bad'' else ''good''"
  obtain oldest t2 where t2: "t' = newRow (addCell (plain_cell [] (times_text (snd nv))) t2)"
    "fold_result (summary_device m c (snd nv)) (addCell (plain_cell ?st (show_int (v_completed (snd nv))))
       (addCell (plain_cell [] oldest) (addCell (plain_cell ''volume'' (v_name (snd nv))) t))) (c_devices c) = Inr t2"
    using assms by (auto simp: summary_volume_def Let_def rbind_def split: sum.splits)
  have "row_goes_on t (addCell (plain_cell ?st (show_int (v_completed (snd nv))))
       (addCell (plain_cell [] oldest) (addCell (plain_cell ''volume'' (v_name (snd nv))) t)))"
    using summary_styles by (intro row_goes_on_cell row_goes_on_refl new_cell_text) simp_all
  from row_goes_on_cell [OF row_goes_on_trans [OF this summary_devices_row [OF t2(2)]], of "plain_cell [] (times_text (snd nv))"]
  show thesis using that [OF _ t2(1)] by (simp add: new_cell_text)
qed

lemma summary_volumes_rows:
  assumes "fold_result (summary_volume m c) t nvs = Inr t'" "laid_out t"
  shows "laid_out t' \<and> t_y t' = t_y t + int (length nvs) \<and> t_height t' \<le> max (t_height t) (t_y t + int (length nvs))"
  using assms
proof (induction nvs arbitrary: t)
  case (Cons nv nvs)
  obtain t1 where t1: "summary_volume m c t nv = Inr t1" "fold_result (summary_volume m c) t1 nvs = Inr t'"
    using Cons.prems(1) by (auto simp: rbind_def split: sum.splits)
  obtain t2 where t2: "row_goes_on t t2" "t1 = newRow t2" using summary_volume_row [OF t1(1)] .
  then have "laid_out t1" "t_y t1 = t_y t + 1" "t_height t1 \<le> max (t_height t) (t_y t + 1)"
    using Cons.prems(2) laid_out_row by (auto simp: row_goes_on_def)
  then show ?case using Cons.IH [OF t1(2)] by auto
qed simp

text \<open>The name of a host goes over the rows of all its volumes, and is put below everything that is there.\<close>

lemma summary_hosts_rows:
  assumes "fold_result (summary_host m c) t hs = Inr t'" "laid_out t" "t_height t \<le> t_y t"
  shows "laid_out t' \<and> t_height t' \<le> t_y t'"
  using assms
proof (induction hs arbitrary: t)
  case (Cons nh hs)
  let ?h = "snd nh" and ?n = "int (length (h_volumes (snd nh)))"
  let ?t = "addCell (new_cell ''host'' (h_name ?h) 1 ?n False) t"
  obtain t1 where t1: "fold_result (summary_volume m c) ?t (h_volumes ?h) = Inr t1" "fold_result (summary_host m c) t1 hs = Inr t'"
    using Cons.prems(1) by (auto simp: rbind_def summary_host_def [of m c t nh] Let_def split: sum.splits)
  have "laid_out ?t" using Cons.prems(2,3) summary_styles by (intro laid_out_below) (simp_all add: new_cell_text)
  from summary_volumes_rows [OF t1(1) this] Cons.prems(3) show ?case
    by (intro Cons.IH [OF t1(2)]) (auto simp: new_cell_text)
qed simp

lemma summary_table_laid_out: "summary_table m c = Inr t \<Longrightarrow> laid_out t"
  unfolding summary_table_def using summary_hosts_rows summary_heading_laid_out by fastforce

section \<open>The table of what was pruned\<close>

lemma laid_out_foldl:
  assumes "laid_out t" "\<And>t x. laid_out t \<Longrightarrow> laid_out (f t x)"
  shows "laid_out (foldl f t xs)"
  using assms(1) by (induction xs arbitrary: t) (simp_all add: assms(2))

lemma prune_table_laid_out: "laid_out (prune_table rs)"
  unfolding prune_table_def prune_heading_def prune_table_row_def
  by (intro laid_out_foldl laid_out_row laid_out_single new_table_laid_out) (simp_all add: new_cell_text)

section \<open>The rows are aligned\<close>

lemma string_cells_return:
  assumes "laid_out t"
  shows "texts_ok (map_table (renderText width) t)"
proof (rule texts_ok_map, unfold list_all_iff, intro ballI)
  fix pc assume "pc \<in> set (t_cellMap t)"
  then have "text_cell (snd pc)" using assms by (auto simp: laid_out_def list_all_iff)
  then show "case pc of (_, c) \<Rightarrow> \<forall>n \<in> set (cell_nodes c). \<not> isl (renderText width n)"
    by (cases pc) (auto simp: text_cell_def)
qed


text \<open>The summary is made when the dates that are in it are known.\<close>

definition volume_shown :: "machine \<Rightarrow> conf \<Rightarrow> volume \<Rightarrow> bool" where
  "volume_shown m c v \<longleftrightarrow> (v_oldest v \<noteq> 0 \<longrightarrow> \<not> isl (date_at m (v_oldest v))) \<and>
     list_all (\<lambda>(_, d). \<not> isl (newest_cell m c v (volume_findDevice (d_name d) v))) (c_devices c)"

lemma summary_volume_returns: "volume_shown m c (snd nv) \<Longrightarrow> \<not> isl (summary_volume m c t nv)"
proof -
  assume v: "volume_shown m c (snd nv)"
  have "\<not> isl (summary_device m c (snd nv) t nd)" if "nd \<in> set (c_devices c)" for t nd
    using v that by (cases nd) (auto simp: volume_shown_def summary_device_def list_all_iff Let_def rbind_def split: sum.splits)
  then have "\<not> isl (fold_result (summary_device m c (snd nv)) t (c_devices c))" for t by (intro fold_result_returns)
  then show ?thesis using v
    by (auto simp: volume_shown_def summary_volume_def Let_def rbind_def split: sum.splits) (metis sum.disc(1))+
qed

lemma summary_table_returns:
  assumes "\<And>hn h nv. (hn, h) \<in> set (c_hosts c) \<Longrightarrow> nv \<in> set (h_volumes h) \<Longrightarrow> volume_shown m c (snd nv)"
  shows "\<not> isl (summary_table m c)"
  unfolding summary_table_def summary_host_def Let_def
  using assms by (intro fold_result_returns summary_volume_returns) force


end
