(* ===== verification/ReportRender.thy ===== *)
theory ReportRender
  imports ReportTables
begin

text \<open>
  Every report that is generated can be rendered: its headings have levels that exist, its tables are in order and its
  styles are plain words.
\<close>

section \<open>Rendering as text returns\<close>

lemma isl_text_contents: "isl (text_contents rs) \<longleftrightarrow> list_ex isl rs"
proof (induction rs)
  case (Cons r rs)
  then show ?case by (cases r) (simp_all add: isl_rbind)
qed simp

lemma position_text_returns:
  assumes "table_ok t" "texts_ok t" "length ws = nat (t_width t)"
  shows "\<not> isl (position_text t ws y x)"
proof (cases "findOverlappingCell x y t")
  case (Some c)
  have "cell_at t x y c" "\<not> isl (cell_text c)" using assms(1,2) Some by (auto simp: table_ok_def texts_ok_def)
  moreover from this(1) assms(3) have "cell_x c = x \<Longrightarrow> availableWidth ws x (cell_w c) = Inr (space ws x (cell_w c))"
    by (intro availableWidth_space) (auto simp: cell_at_def)
  ultimately show ?thesis using Some by (auto simp: position_text_def filled_cell_def rbind_def Let_def split: sum.splits)
qed (simp add: position_text_def)

lemma table_text_returns:
  assumes "table_ok t" "texts_ok t"
  shows "\<not> isl (table_text t)"
proof -
  obtain ws0 ws where ws: "columnWidths t = Inr ws0" "widen_columns t ws0 = Inr ws" "length ws = nat (t_width t)"
    by (rule column_widths_fit [OF assms]) blast
  have "\<not> isl (row_text t ws y)" for y
    unfolding row_text_def using position_text_returns [OF assms ws(3)] by (simp add: isl_rbind isl_text_contents list_ex_iff)
  then show ?thesis using ws(1,2) by (simp add: table_text_def isl_rbind isl_text_contents list_ex_iff)
qed

lemma list_text_returns: "\<not> list_ex isl rs \<Longrightarrow> \<not> isl (list_text width ty n rs)"
  by (induction rs arbitrary: n) (simp_all add: Let_def isl_rbind)

lemma heading_text_returns: "level \<le> 6 \<Longrightarrow> isl (heading_text level r) \<Longrightarrow> isl r"
  by (simp add: heading_text_def Let_def isl_rbind split: if_splits)

lemma renderText_returns: "renderable n \<Longrightarrow> \<not> isl (renderText width n)"
proof (induction n)
  case (ListNode a ty ns)
  then show ?case by (auto intro!: list_text_returns simp: list_all_iff list_ex_iff)
next
  case (TableNode a t)
  have t: "table_ok t" using TableNode.prems by simp
  have "list_all (\<lambda>(_, c). list_all (\<lambda>n. \<not> isl (renderText width n)) (cell_nodes c)) (t_cellMap t)"
  proof (unfold list_all_iff, intro ballI, clarsimp)
    fix x y c n
    assume c: "((x, y), c) \<in> set (t_cellMap t)" "n \<in> set (cell_nodes c)" 
    then have "n \<in> set_table t" by (cases t; cases c) force
    moreover have "renderable n" using TableNode.prems c by (fastforce simp: list_all_iff table.map_sel cell.map_sel)
    moreover assume "isl (renderText width n)"
    ultimately show False using TableNode.IH by blast
  qed
  from table_text_returns [OF table_ok_map [OF t] texts_ok_map [OF this]] show ?case by simp
qed (auto simp: list_all_iff isl_rbind isl_text_contents list_ex_iff dest!: heading_text_returns)

section \<open>What the sections append\<close>

definition node_ok :: "node \<Rightarrow> bool" where
  "node_ok n \<longleftrightarrow> plain_node n \<and> renderable n"

lemma text_node_ok: "node_ok (StringNode a s)"
  by (simp add: node_ok_def)

lemma append_ok: "document_ok d \<Longrightarrow> node_ok n \<Longrightarrow> document_ok (document_append n d)"
  by (simp add: document_ok_def document_append_def node_ok_def)

lemma plain_new_attrs [simp]: "plain_style new_attrs"
  by (simp add: new_attrs_def)

lemma section_node_ok:
  "level \<le> 6 \<Longrightarrow> node_ok (Heading new_attrs level [StringNode a s])" "node_ok (Paragraph new_attrs [StringNode a s])"
  "list_all node_ok ns \<Longrightarrow> node_ok (ListNode new_attrs ty ns)" "node_ok (list_entry s)"
  "plain_word style \<Longrightarrow> node_ok (ImageNode (new_attrs\<lparr>n_style := style\<rparr>) mime content)"
  "plain_word style \<Longrightarrow> list_all node_ok ns \<Longrightarrow> node_ok (LinearContainer (new_attrs\<lparr>n_style := style\<rparr>) ns)"
  "plain_word style \<Longrightarrow> level \<le> 6 \<Longrightarrow> node_ok (Heading (new_attrs\<lparr>n_style := style\<rparr>) level [StringNode a s])"
  "plain_word style \<Longrightarrow> node_ok (Verbatim (new_attrs\<lparr>n_style := style\<rparr>) [StringNode a s])"
  by (auto simp: node_ok_def list_all_iff list_entry_def)

lemma table_node_ok:
  assumes "laid_out t"
  shows "node_ok (TableNode new_attrs t)"
proof -
  have "text_cell c" if "(xy, c) \<in> set (t_cellMap t)" for xy c using assms that by (auto simp: laid_out_def list_all_iff)
  then have "plain_style (cell_attrs c) \<and> list_all plain_node (cell_nodes c) \<and> list_all renderable (cell_nodes c)"
    if "(xy, c) \<in> set (t_cellMap t)" for xy c
    using that by (fastforce simp: text_cell_def)
  then show ?thesis
    using assms by (fastforce simp: node_ok_def laid_out_def list_all_iff table.map_sel cell.map_sel)
qed

lemma heading_ok: "document_ok d \<Longrightarrow> level \<le> 6 \<Longrightarrow> document_ok (document_heading s level d)"
  by (simp add: document_heading_def append_ok section_node_ok)

lemma warnings_ok: "document_ok d \<Longrightarrow> document_ok (report_warnings c k d)"
  unfolding report_warnings_def by (intro append_ok section_node_ok(3)) (simp_all add: list_all_iff section_node_ok)

lemma summary_ok: "report_summary m c d = Inr d' \<Longrightarrow> document_ok d \<Longrightarrow> document_ok d'"
  by (auto simp: report_summary_def rbind_def split: sum.splits intro!: append_ok table_node_ok dest: summary_table_laid_out)

lemma report_styles: "plain_word ''recent''" "plain_word ''log''" "plain_word ''history''"
  by code_simp+

lemma log_step_ok: "log_step verbosity m c h v (ns, seen) b = Inr (ns', seen') \<Longrightarrow> list_all node_ok ns \<Longrightarrow> list_all node_ok ns'"
  using report_styles by (auto simp: log_step_def Let_def rbind_def split: sum.splits if_splits intro!: section_node_ok)

lemma log_steps_ok:
  "fold_result (log_step verbosity m c h v) (ns, seen) bs = Inr (ns', seen') \<Longrightarrow> list_all node_ok ns \<Longrightarrow> list_all node_ok ns'"
proof (induction bs arbitrary: ns seen)
  case (Cons b bs)
  from Cons.prems(1) obtain ns1 seen1 where "log_step verbosity m c h v (ns, seen) b = Inr (ns1, seen1)"
    "fold_result (log_step verbosity m c h v) (ns1, seen1) bs = Inr (ns', seen')"
    by (auto simp: rbind_def split: sum.splits)
  then show ?case using Cons.IH log_step_ok Cons.prems(2) by blast
qed simp

lemma volume_logs_ok: "volume_logs verbosity m c h d nv = Inr d' \<Longrightarrow> document_ok d \<Longrightarrow> document_ok d'"
  using summary_styles log_steps_ok [of verbosity m c h "snd nv" "[]" "[]"]
  by (auto simp: volume_logs_def Let_def rbind_def split: sum.splits if_splits intro!: append_ok section_node_ok heading_ok)

lemma logs_ok: "report_logs verbosity m c d = Inr d' \<Longrightarrow> document_ok d \<Longrightarrow> document_ok d'"
  unfolding report_logs_def
  by (rule fold_keeps [where P = document_ok]) (auto intro: fold_keeps [where P = document_ok] volume_logs_ok)

lemma pruneLogs_ok: "report_pruneLogs m interval d db = (Inr d', db') \<Longrightarrow> document_ok d \<Longrightarrow> document_ok d'"
  by (auto simp: report_pruneLogs_def rbind_def split: sum.splits prod.splits intro!: append_ok table_node_ok prune_table_laid_out)

lemma historyGraph_ok: "report_historyGraph w d = Inr d' \<Longrightarrow> document_ok d \<Longrightarrow> document_ok d'"
  using report_styles by (auto simp: report_historyGraph_def rbind_def split: sum.splits if_splits intro!: append_ok section_node_ok)

lemma section_body_ok: "section_body w c k name value d db = (Inr d', db') \<Longrightarrow> document_ok d \<Longrightarrow> document_ok d'"
  by (auto simp: section_body_def document_para_def warnings_ok intro: summary_ok logs_ok pruneLogs_ok historyGraph_ok heading_ok
      append_ok section_node_ok split: if_splits) (simp add: document_ok_def)

lemma sections_ok: "report_sections w env c k ns d db = (Inr d', db') \<Longrightarrow> document_ok d \<Longrightarrow> document_ok d'"
proof (induction ns arbitrary: d db)
  case (Cons n ns)
  then show ?case
    by (auto simp: report_section_def Let_def split: sum.splits prod.splits option.splits if_splits dest: section_body_ok) 
qed simp

end
