(* ===== verification/EmailSafety.thy ===== *)
theory EmailSafety
  imports Email ReportRender
begin

text \<open>
  What is written: the parts of an email can be read back from it, and a report that was generated is written wherever
  it is asked for.
\<close>

section \<open>Reading of an email\<close>

text \<open>The lines of a text, and the text that has some lines.\<close>

fun split_lines :: "string \<Rightarrow> string list" where
  "split_lines [] = [[]]"
| "split_lines (c # cs) =
     (if c = LF then [] # split_lines cs
      else case split_lines cs of [] \<Rightarrow> [[c]] | l # ls \<Rightarrow> (c # l) # ls)"

fun join_lines :: "string list \<Rightarrow> string" where
  "join_lines [] = []"
| "join_lines [l] = l"
| "join_lines (l # ls) = l @ [LF] @ join_lines ls"

text \<open>
  A multipart body: what is before the first delimiter is left out, and the parts end at the next delimiter or at the
  closing one.  The line break in front of a delimiter belongs to it.  A part has headers, an empty line and its content.
\<close>

function mime_bodies :: "string \<Rightarrow> string list \<Rightarrow> string list list" where
  "mime_bodies b ls =
     (let p = takeWhile (\<lambda>l. l \<noteq> ''--'' @ b \<and> l \<noteq> ''--'' @ b @ ''--'') ls
      in case dropWhile (\<lambda>l. l \<noteq> ''--'' @ b \<and> l \<noteq> ''--'' @ b @ ''--'') ls of
           [] \<Rightarrow> [p]
         | l # rest \<Rightarrow> p # (if l = ''--'' @ b then mime_bodies b rest else []))"
  by pat_completeness simp_all
termination
proof (relation "measure (\<lambda>(b, ls). length ls)")
  fix b ls and p :: "string list" and l :: string and rest :: "string list"
  assume d: "dropWhile (\<lambda>l. l \<noteq> ''--'' @ b \<and> l \<noteq> ''--'' @ b @ ''--'') ls = l # rest"
  have "length (dropWhile P ls) \<le> length ls" for P by (rule length_dropWhile_le)
  from this [of "\<lambda>l. l \<noteq> ''--'' @ b \<and> l \<noteq> ''--'' @ b @ ''--''"] have "length (l # rest) \<le> length ls" unfolding d .
  then show "((b, rest), b, ls) \<in> measure (\<lambda>(b, ls). length ls)" by simp
qed simp

declare mime_bodies.simps [simp del]

definition mime_part :: "string list \<Rightarrow> string list \<times> string" where
  "mime_part ls = (takeWhile (\<lambda>l. l \<noteq> []) ls, join_lines (tl (dropWhile (\<lambda>l. l \<noteq> []) ls)))"

definition mime_parts :: "string \<Rightarrow> string \<Rightarrow> (string list \<times> string) list" where
  "mime_parts b s = map mime_part (tl (mime_bodies b (split_lines s)))"

lemma split_lines_not_empty: "split_lines s \<noteq> []"
  by (induction s) (auto split: list.split)

lemma split_lines_line: "split_lines (s @ LF # t) = split_lines s @ split_lines t"
  using split_lines_not_empty by (induction s) (auto split: list.split)

lemma split_lines_all: "split_lines (concat (map (\<lambda>l. l @ [LF]) ls) @ s) = concat (map split_lines ls) @ split_lines s"
  by (induction ls) (simp_all add: split_lines_line)

lemma split_lines_no_break: "LF \<notin> set l \<Longrightarrow> split_lines l = [l]"
  by (induction l) auto

lemma join_split_lines: "join_lines (split_lines s) = s"
proof (induction s)
  case (Cons c s)
  show ?case
  proof (cases "split_lines s")
    case Nil
    then show ?thesis using split_lines_not_empty by blast
  next
    case l: (Cons l ls)
    then show ?thesis using Cons.IH by (cases ls) auto
  qed
qed simp

lemma split_join_lines: "ls \<noteq> [] \<Longrightarrow> list_all (\<lambda>l. LF \<notin> set l) ls \<Longrightarrow> split_lines (join_lines ls) = ls"
  by (induction ls rule: join_lines.induct) (simp_all add: split_lines_no_break split_lines_line)

lemma split_lines_lines: "list_all (\<lambda>l. LF \<notin> set l) (split_lines s)"
  by (induction s) (auto split: list.splits)

text \<open>Lines that are no delimiters.\<close>

definition no_delimiter :: "string \<Rightarrow> string list \<Rightarrow> bool" where
  "no_delimiter b ls \<longleftrightarrow> list_all (\<lambda>l. l \<noteq> ''--'' @ b \<and> l \<noteq> ''--'' @ b @ ''--'') ls"

lemma no_delimiter_simps [simp]:
  "no_delimiter b []" "no_delimiter b (l # ls) \<longleftrightarrow> l \<noteq> ''--'' @ b \<and> l \<noteq> ''--'' @ b @ ''--'' \<and> no_delimiter b ls"
  "no_delimiter b (ls @ ls') \<longleftrightarrow> no_delimiter b ls \<and> no_delimiter b ls'"
  by (auto simp: no_delimiter_def)

lemma mime_bodies_part:
  assumes "no_delimiter b p"
  shows "mime_bodies b (p @ (''--'' @ b) # rest) = p # mime_bodies b rest" "mime_bodies b (p @ (''--'' @ b @ ''--'') # rest) = [p]"
proof -
  have "takeWhile (\<lambda>l. l \<noteq> ''--'' @ b \<and> l \<noteq> ''--'' @ b @ ''--'') (p @ d # rest) = p"
    "dropWhile (\<lambda>l. l \<noteq> ''--'' @ b \<and> l \<noteq> ''--'' @ b @ ''--'') (p @ d # rest) = d # rest"
    if "d = ''--'' @ b \<or> d = ''--'' @ b @ ''--''" for d rest
    using assms that by (auto simp: no_delimiter_def list_all_iff takeWhile_append dropWhile_append)
  then show "mime_bodies b (p @ (''--'' @ b) # rest) = p # mime_bodies b rest" "mime_bodies b (p @ (''--'' @ b @ ''--'') # rest) = [p]"
    by (simp_all add: mime_bodies.simps [of b "p @ _"] Let_def)
qed

text \<open>The headers of the program have no empty line.\<close>

lemma mime_part_lines:
  "list_all (\<lambda>l. l \<noteq> []) hs \<Longrightarrow> mime_part (hs @ [] # split_lines s) = (hs, s)"
  by (auto simp: mime_part_def list_all_iff takeWhile_append dropWhile_append join_split_lines)

section \<open>The parts of the report\<close>

text \<open>A text in which no line begins like a delimiter.\<close>

definition boundary_free :: "string \<Rightarrow> bool" where
  "boundary_free s \<longleftrightarrow> list_all (\<lambda>l. take 42 l \<noteq> ''--'' @ MIME_BOUNDARY) (split_lines s)"

lemma boundary_length: "take 42 (''--'' @ MIME_BOUNDARY @ s) = ''--'' @ MIME_BOUNDARY"
proof -
  have "length (''--'' @ MIME_BOUNDARY) = 42" by code_simp
  then have "take 42 ((''--'' @ MIME_BOUNDARY) @ s) = ''--'' @ MIME_BOUNDARY" by simp
  then show ?thesis by simp
qed

lemma boundary_free_no_delimiter: "boundary_free s \<Longrightarrow> no_delimiter (MIME_BOUNDARY @ suffix) (split_lines s)"
proof (unfold no_delimiter_def, elim list.pred_mono_strong [OF boundary_free_def [THEN iffD1]])
  fix l assume "take 42 l \<noteq> ''--'' @ MIME_BOUNDARY"
  then show "l \<noteq> ''--'' @ MIME_BOUNDARY @ suffix \<and> l \<noteq> ''--'' @ (MIME_BOUNDARY @ suffix) @ ''--''"
    using boundary_length [of suffix] boundary_length [of "suffix @ ''--''"] by auto
qed

text \<open>An image in base64 has no dash.\<close>

lemma base64_text_chars: "set (base64_text s) \<subseteq> set rfc4648_base64"
proof (induction s rule: base64_text.induct)
  case (1 s)
  have "CHR ''='' \<in> set rfc4648_base64" "length rfc4648_base64 = 65" by code_simp+
  then have char: "rfc4648_base64 ! (n mod 64) \<in> set rfc4648_base64" "CHR ''='' \<in> set rfc4648_base64" for n
    by (simp_all add: nth_mem less_trans [OF mod_less_divisor])
  have "set (group_text s) \<subseteq> set rfc4648_base64" if "s \<noteq> []"
  proof -
    consider a where "s = [a]" | a b where "s = [a, b]" | a b c r where "s = a # b # c # r" using \<open>s \<noteq> []\<close> by (metis list.exhaust)
    then show ?thesis by cases (simp_all only: group_texts, simp_all add: char)
  qed
  then show ?case using 1 by (subst base64_text.simps) simp
qed

lemma base64_no_dash: "CHR ''-'' \<notin> set (write_base64 s)"
proof -
  obtain full rest where r: "write_base64 s = concat (map (\<lambda>l. l @ [CHR 0x0A]) full) @ rest" "concat full @ rest = base64_text s"
    using base64_lines_text [of "[]" s] by (auto simp: write_base64_def)
  have "CHR ''-'' \<notin> set rfc4648_base64" by code_simp
  then have "CHR ''-'' \<notin> set (concat full @ rest)" unfolding r(2) using base64_text_chars by blast
  then show ?thesis unfolding r(1) by auto
qed

lemma split_lines_chars: "l \<in> set (split_lines s) \<Longrightarrow> set l \<subseteq> set s"
  by (induction s arbitrary: l) (fastforce split: if_splits list.splits)+

lemma base64_no_delimiter: "no_delimiter b (split_lines (write_base64 s))"
  unfolding no_delimiter_def list_all_iff using split_lines_chars base64_no_dash by fastforce

text \<open>What the email's content has: the part with the alternatives, and a part for each image.\<close>

definition alternatives :: "string \<Rightarrow> string \<Rightarrow> string list" where
  "alternatives t h =
     [''--'' @ MIME_BOUNDARY @ MIME2, ''Content-Type: text/plain'', []] @ split_lines t @
     [''--'' @ MIME_BOUNDARY @ MIME2, ''Content-Type: text/html'', []] @ split_lines h @
     [''--'' @ MIME_BOUNDARY @ MIME2 @ ''--'', []]"

definition image_headers :: "html_env \<Rightarrow> string \<times> string \<Rightarrow> string list" where
  "image_headers env im =
     [''Content-ID: <'' @ image_ident env (snd im) @ ''>'', ''Content-Type: '' @ fst im, ''Content-Transfer-Encoding: base64'']"

definition image_ok :: "html_env \<Rightarrow> string \<times> string \<Rightarrow> bool" where
  "image_ok env im \<longleftrightarrow> LF \<notin> set (fst im) \<and> LF \<notin> set (image_ident env (snd im))"

lemma boundary_no_break: "LF \<notin> set MIME_BOUNDARY" "LF \<notin> set MIME1" "LF \<notin> set MIME2"
  by code_simp+

lemma alternatives_lines: "list_all (\<lambda>l. LF \<notin> set l) (alternatives t h)"
  using split_lines_lines boundary_no_break by (simp add: alternatives_def)

lemma email_body_lines:
  assumes "list_all (image_ok env) images"
  shows "split_lines (email_body env t h images) =
    [''--'' @ MIME_BOUNDARY @ MIME1] @
    (''Content-Type: multipart/alternative; boundary='' @ MIME_BOUNDARY @ MIME2) # [] # alternatives t h @
    concat (map (\<lambda>im. (''--'' @ MIME_BOUNDARY @ MIME1) # image_headers env im @ [] # split_lines (write_base64 (snd im))) images) @
    [''--'' @ MIME_BOUNDARY @ MIME1 @ ''--'', []]"
proof -
  have image: "concat (map split_lines (image_lines env im)) =
      (''--'' @ MIME_BOUNDARY @ MIME1) # image_headers env im @ [] # split_lines (write_base64 (snd im))" if "image_ok env im" for im
    using that boundary_no_break by (simp add: image_ok_def image_lines_def image_headers_def split_lines_no_break)
  have "concat (map split_lines (concat (map (image_lines env) images))) =
      concat (map (\<lambda>im. (''--'' @ MIME_BOUNDARY @ MIME1) # image_headers env im @ [] # split_lines (write_base64 (snd im))) images)"
    using assms by (induction images) (simp_all add: image)
  then show ?thesis
    unfolding email_body_def split_lines_all [where s = "[]", unfolded append_Nil2] using boundary_no_break
    by (simp add: split_lines_no_break alternatives_def del: split_lines.simps(2))
qed

text \<open>
  C25: The text, the HTML and the images can be read back from the content of the email, as long as no line of the text or
  the HTML begins with the delimiter: the first part has the two alternatives, and every image has a part with its
  identifier, its type and its content in base64.
\<close>

theorem email_read_back:
  assumes "boundary_free t" "boundary_free h" "list_all (image_ok env) images"
  shows "\<exists>a. mime_parts (MIME_BOUNDARY @ MIME1) (email_body env t h images) =
       ([''Content-Type: multipart/alternative; boundary='' @ MIME_BOUNDARY @ MIME2], a) #
       map (\<lambda>im. (image_headers env im, write_base64 (snd im))) images \<and>
     mime_parts (MIME_BOUNDARY @ MIME2) a = [([''Content-Type: text/plain''], t), ([''Content-Type: text/html''], h)]"
proof -
  let ?b = "MIME_BOUNDARY @ MIME1" and ?b' = "MIME_BOUNDARY @ MIME2"
  let ?alt = "(''Content-Type: multipart/alternative; boundary='' @ ?b') # [] # alternatives t h"
  let ?image = "\<lambda>im. image_headers env im @ [] # split_lines (write_base64 (snd im))"
  have free: "no_delimiter (MIME_BOUNDARY @ s) (split_lines t)" "no_delimiter (MIME_BOUNDARY @ s) (split_lines h)" for s
    using assms(1,2) boundary_free_no_delimiter by blast+
  have other: "MIME2 \<noteq> MIME1" "MIME2 \<noteq> MIME1 @ ''--''" "MIME2 @ ''--'' \<noteq> MIME1" "MIME2 @ ''--'' \<noteq> MIME1 @ ''--''" by code_simp+
  have alt: "no_delimiter ?b ?alt" using free [of MIME1] other by (simp add: alternatives_def)
  have image: "no_delimiter ?b (?image im)" for im using base64_no_delimiter by (simp add: image_headers_def)
  have bodies: "mime_bodies ?b (p @ concat (map (\<lambda>im. (''--'' @ ?b) # ?image im) images) @ [''--'' @ ?b @ ''--'', []]) = p # map ?image images"
    if "no_delimiter ?b p" for p
    using that
  proof (induction images arbitrary: p)
    case Nil
    then show ?case using mime_bodies_part(2) [of ?b p "[[]]"] by simp
  next
    case (Cons im images)
    then show ?case
      using mime_bodies_part(1) [OF Cons.prems, of "?image im @ concat (map (\<lambda>im. (''--'' @ ?b) # ?image im) images) @ [''--'' @ ?b @ ''--'', []]"]
        Cons.IH [OF image [of im]] by simp
  qed
  have start: "mime_bodies ?b ([''--'' @ ?b] @ rest) = [] # mime_bodies ?b rest" for rest using mime_bodies_part(1) [of ?b "[]"] by simp
  have "mime_bodies ?b (split_lines (email_body env t h images)) = [] # ?alt # map ?image images"
    using bodies [OF alt] start [of "?alt @ concat (map (\<lambda>im. (''--'' @ ?b) # ?image im) images) @ [''--'' @ ?b @ ''--'', []]"]
    unfolding email_body_lines [OF assms(3)] by simp
  moreover have "mime_part (?image im) = (image_headers env im, write_base64 (snd im))" for im
    by (rule mime_part_lines) (simp add: image_headers_def)
  moreover have "mime_part ?alt = ([''Content-Type: multipart/alternative; boundary='' @ ?b'], join_lines (alternatives t h))"
    by (simp add: mime_part_def)
  ultimately have outer: "mime_parts ?b (email_body env t h images) =
      ([''Content-Type: multipart/alternative; boundary='' @ ?b'], join_lines (alternatives t h)) #
      map (\<lambda>im. (image_headers env im, write_base64 (snd im))) images" by (simp add: mime_parts_def)
  have "alternatives t h \<noteq> []" by (simp add: alternatives_def)
  then have lines: "split_lines (join_lines (alternatives t h)) = alternatives t h" by (rule split_join_lines) (rule alternatives_lines)
  have "mime_bodies ?b' (alternatives t h) =
      [[], [''Content-Type: text/plain''] @ [] # split_lines t, [''Content-Type: text/html''] @ [] # split_lines h]"
    using mime_bodies_part(1) [of ?b' "[]"] mime_bodies_part(1) [of ?b' "[''Content-Type: text/plain''] @ [] # split_lines t"]
      mime_bodies_part(2) [of ?b' "[''Content-Type: text/html''] @ [] # split_lines h"] free [of MIME2]
    by (simp add: alternatives_def)
  then have "mime_parts ?b' (join_lines (alternatives t h)) = [([''Content-Type: text/plain''], t), ([''Content-Type: text/html''], h)]"
    using mime_part_lines [of "[''Content-Type: text/plain'']" t] mime_part_lines [of "[''Content-Type: text/html'']" h]
    by (simp add: mime_parts_def lines)
  then show ?thesis using outer by blast
qed

lemma email_read_back_witness:
  "\<exists>a. mime_parts (MIME_BOUNDARY @ MIME1)
       (email_body ascii_env (''==== Report ===='' @ [LF]) (''<p>--</p>'' @ [LF]) [(''image/png'', ''PNG'')]) =
       ([''Content-Type: multipart/alternative; boundary='' @ MIME_BOUNDARY @ MIME2], a) #
       map (\<lambda>im. (image_headers ascii_env im, write_base64 (snd im))) [(''image/png'', ''PNG'')] \<and>
     mime_parts (MIME_BOUNDARY @ MIME2) a =
       [([''Content-Type: text/plain''], ''==== Report ===='' @ [LF]), ([''Content-Type: text/html''], ''<p>--</p>'' @ [LF])]"
  by (rule email_read_back) code_simp+

section \<open>The report is written\<close>

lemma generated_document_ok: "report_generate rw c d db = (Inr (d', k), db') \<Longrightarrow> document_ok d \<Longrightarrow> document_ok d'"
  by (auto simp: report_generate_def split: sum.splits prod.splits dest: sections_ok)

lemma document_text: "document_ok d \<Longrightarrow> \<exists>s. document_renderText width d = Inr s"
proof -
  assume "document_ok d"
  then have "renderable (RootContainer new_attrs (doc_content d))" by (simp add: document_ok_def list_all_iff)
  from renderText_returns [OF this, of width] show ?thesis
    unfolding document_renderText_def by (metis sum.collapse(2))
qed

lemma show_color_safe: "CHR ''<'' \<notin> set (show_color c)"
proof -
  have "\<not> is_radix_digit 16 CHR ''<''" by code_simp
  then have "CHR ''<'' \<notin> set (show_hex_nat n)" for n using show_hex_digits by blast
  then show ?thesis by (simp add: show_color_def Let_def)
qed

lemma user_colors_safe: "CHR ''<'' \<notin> set (user_colors c)"
  using show_color_safe by (simp add: user_colors_def color_rule_def)

lemma stylesheet_safe: "CHR ''<'' \<notin> set stylesheet"
  by (simp add: stylesheet_def)

text \<open>What is asked for is done, and nothing fails.\<close>

definition written :: "string \<Rightarrow> string \<Rightarrow> report_output" where
  "written path s = (if path = ''-'' then WriteOut s else WriteFile path s)"

definition succeeds :: "output_action \<Rightarrow> (report_output set \<Rightarrow> bool) \<Rightarrow> bool" where
  "succeeds a Q \<longleftrightarrow> (\<forall>outs. \<exists>outs'. a outs = Some (Inr (), outs @ outs') \<and> Q (set outs'))"

lemma succeeds_then:
  assumes "succeeds a Q" "succeeds b R"
  shows "succeeds (then_output a b) (\<lambda>outs. \<exists>x y. outs = x \<union> y \<and> Q x \<and> R y)"
  unfolding succeeds_def
proof
  fix outs
  obtain o1 where 1: "a outs = Some (Inr (), outs @ o1)" "Q (set o1)" using assms(1) unfolding succeeds_def by blast
  obtain o2 where 2: "b (outs @ o1) = Some (Inr (), (outs @ o1) @ o2)" "R (set o2)" using assms(2) unfolding succeeds_def by blast
  show "\<exists>outs'. then_output a b outs = Some (Inr (), outs @ outs') \<and> (\<exists>x y. set outs' = x \<union> y \<and> Q x \<and> R y)"
    using 1 2 by (intro exI [of _ "o1 @ o2"]) (auto simp: then_output_def)
qed

lemma succeeds_given: "(\<And>s. v = Some s \<Longrightarrow> succeeds (a s) (Q s)) \<Longrightarrow> succeeds (when_given v a) (\<lambda>outs. \<forall>s. v = Some s \<longrightarrow> Q s outs)"
  by (cases v) (auto simp: succeeds_def when_given_def)

lemma succeeds_mono: "succeeds a Q \<Longrightarrow> (\<And>outs. Q outs \<Longrightarrow> R outs) \<Longrightarrow> succeeds a R"
  unfolding succeeds_def by meson

text \<open>The system does what the program asks of it.\<close>

definition system_works :: "output_world \<Rightarrow> bool" where
  "system_works w \<longleftrightarrow> unicode_total (ow_html w) \<and> (\<forall>p. ow_open w p = Inr ()) \<and> (\<forall>cmd s. ow_pipe w cmd s = Inr ())"

lemma open_succeeds: "system_works w \<Longrightarrow> succeeds (open_output w p) (\<lambda>_. True)"
  by (simp add: succeeds_def open_output_def system_works_def)

lemma write_succeeds: "succeeds (write_output p s) (\<lambda>outs. written p s \<in> outs)"
  by (simp add: succeeds_def write_output_def written_def)

lemma output_html_succeeds:
  assumes "system_works w" "document_ok d"
  shows "succeeds (output_html w d p) (\<lambda>outs. \<exists>s. markup s \<and> written p s \<in> outs)"
proof -
  obtain s im where s: "document_renderHtml (ow_html w) d None = Some (Inr (s, im))" "markup s"
    using document_is_markup [OF _ assms(2), of "ow_html w" None] assms(1) by (auto simp: system_works_def)
  have "succeeds (then_output (open_output w p) (write_output p s)) (\<lambda>outs. \<exists>s. markup s \<and> written p s \<in> outs)"
    by (rule succeeds_mono [OF succeeds_then [OF open_succeeds [OF assms(1)] write_succeeds]]) (use s(2) in blast)
  moreover have "output_html w d p = then_output (open_output w p) (write_output p s)"
    by (rule ext) (simp add: output_html_def html_rendered_def s(1))
  ultimately show ?thesis by simp
qed

lemma output_text_succeeds:
  assumes "system_works w" "document_ok d"
  shows "succeeds (output_text w d p) (\<lambda>outs. \<exists>width s. document_renderText width d = Inr s \<and> written p s \<in> outs)"
proof -
  define width where "width = (if ow_width w p \<noteq> 0 then ow_width w p else DEFAULT_TEXT_WIDTH)"
  obtain s where s: "document_renderText width d = Inr s" using document_text [OF assms(2)] by blast
  have "text_rendered width d (write_output p) = write_output p s" by (rule ext) (simp add: text_rendered_def s)
  then have "output_text w d p = then_output (open_output w p) (write_output p s)" by (simp add: output_text_def width_def)
  moreover have "succeeds (then_output (open_output w p) (write_output p s))
      (\<lambda>outs. \<exists>width s. document_renderText width d = Inr s \<and> written p s \<in> outs)"
    by (rule succeeds_mono [OF succeeds_then [OF open_succeeds [OF assms(1)] write_succeeds]]) (use s in blast)
  ultimately show ?thesis by simp
qed

lemma output_email_succeeds:
  assumes "system_works w" "document_ok d"
  shows "succeeds (output_email w c d k a) (\<lambda>outs. \<exists>t h im. markup h \<and> document_renderText DEFAULT_TEXT_WIDTH d = Inr t \<and>
    PipeTo (sendmail_command c) (email_message (ow_version w) (report_email (ow_html w) a d k t h im)) \<in> outs)"
proof -
  obtain h im where h: "document_renderHtml (ow_html w) d (Some []) = Some (Inr (h, im))" "markup h"
    using document_is_markup [OF _ assms(2), of "ow_html w" "Some []"] assms(1) by (auto simp: system_works_def)
  obtain t where t: "document_renderText DEFAULT_TEXT_WIDTH d = Inr t" using document_text [OF assms(2)] by blast
  let ?e = "report_email (ow_html w) a d k t h (case im of None \<Rightarrow> [] | Some is \<Rightarrow> is)"
  have "em_to ?e \<noteq> []" by (simp add: report_email_def addTo_def setSubject_def setType_def setContent_def)
  then have "output_email w c d k a outs = Some (Inr (), outs @ [PipeTo (sendmail_command c) (email_message (ow_version w) ?e)])" for outs
    using assms(1) by (simp add: output_email_def html_rendered_def text_rendered_def h(1) t Let_def send_email_def system_works_def)
  then show ?thesis using h(2) t unfolding succeeds_def by fastforce
qed


text \<open>A report of a title, the warnings and a paragraph.\<close>

definition written_conf :: conf where
  "written_conf = reported_conf\<lparr>c_report := [''title:Backups'', ''h1:Backups'', ''warnings?warnings'', ''p:<done>'']\<rparr>"

definition sample_output_world :: output_world where
  "sample_output_world = \<lparr>ow_html = ascii_env, ow_read = (\<lambda>_. Inl (IOError ''opening'' 2)), ow_open = (\<lambda>_. Inr ()), ow_width = (\<lambda>_. 0),
     ow_pipe = (\<lambda>_ _. Inr ()), ow_version = ''10.0''\<rparr>"

definition sample_report_world :: report_world where
  "sample_report_world = \<lparr>rw_machine = sample_machine, rw_ctime = (\<lambda>_. ''now''), rw_path = ''/bin'', rw_executable = (\<lambda>_. False),
     rw_run_graph = (\<lambda>_. Inr []), rw_config_path = ''/etc/rsbackup/config'', rw_database_path = ''/var/lib/backups.db'', rw_debug = False,
     rw_verbosity = Failures\<rparr>"

definition written_command :: command where
  "written_command = (new_command ''/etc/rsbackup/config'')\<lparr>cmd_html := Some ''/tmp/report'', cmd_email := Some ''root''\<rparr>"

definition written_report :: "(document \<times> counters) result \<times> database" where
  "written_report = report_generate sample_report_world written_conf
     (new_document\<lparr>doc_htmlStyleSheet := stylesheet @ user_colors written_conf\<rparr>) (sample_database [])"

lemma simple_section:
  assumes "fst (split_at CHR '':'' (fst (split_at CHR ''?'' n))) \<in> {''warnings'', ''h1'', ''p'', ''title''}"
    "snd (split_at CHR ''?'' n) \<in> {None, Some ''warnings''}"
  shows "\<exists>d'. report_section w env c k d n db = (Inr d', db)"
  using assms by (cases "split_at CHR ''?'' n") (auto simp: report_section_def section_body_def Let_def)

lemma written_sections: "\<exists>d'. report_sections w env written_conf k (c_report written_conf) d db = (Inr d', db)"
proof -
  have sections: "\<exists>d'. report_sections w env written_conf k ns d db = (Inr d', db)"
    if "list_all (\<lambda>n. fst (split_at CHR '':'' (fst (split_at CHR ''?'' n))) \<in> {''warnings'', ''h1'', ''p'', ''title''} \<and>
      snd (split_at CHR ''?'' n) \<in> {None, Some ''warnings''}) ns" for ns
    using that
  proof (induction ns arbitrary: d)
    case (Cons n ns)
    then obtain d1 where "report_section w env written_conf k d n db = (Inr d1, db)" using simple_section [of n w env written_conf k d db] by auto
    then show ?case using Cons by simp
  qed simp
  show ?thesis by (rule sections) code_simp
qed

lemma written_generated: "\<exists>d k. report_generate sample_report_world written_conf d0 db = (Inr (d, k), db)"
proof -
  have "\<not> isl (report_environment sample_report_world)" "\<not> isl (report_compute sample_machine written_conf)" by code_simp+
  then obtain env k where e: "report_environment sample_report_world = Inr env" "report_compute (rw_machine sample_report_world) written_conf = Inr k"
    by (auto simp: isl_def sample_report_world_def) (metis sum.exhaust)
  then show ?thesis using written_sections [of sample_report_world env k d0 db] by (auto simp: report_generate_def rbind_def)
qed

lemma written_document: "report_document sample_output_world written_conf = Inr (new_document\<lparr>doc_htmlStyleSheet := stylesheet @ user_colors written_conf\<rparr>)"
proof -
  have "c_stylesheet written_conf = []"
    by (simp add: written_conf_def reported_conf_def sample_conf_def new_conf_def conf_base.defs Let_def)
  then show ?thesis by (simp add: report_document_def rbind_def)
qed



end
