(* ===== verification/Render.thy ===== *)
theory Render
  imports Documents Directives
begin

text \<open>
  The placement of widgets (\<^verbatim>\<open>src/Render.h\<close> and \<^verbatim>\<open>src/Render.cc\<close>): containers, grids, texts and rectangles.  The calls of
  Cairo are a list of drawings in the coordinates of the whole picture, each with the colour that is set; the extents of a
  text in a font, from Pango, are an argument.  Doubles are real numbers.
\<close>

section \<open>Drawings\<close>

text \<open>A path of rectangles that is filled, and a text at a position.\<close>

datatype drawing = Fill color "(real \<times> real \<times> real \<times> real) list" | ShowText color string string real real

type_synonym extent = "real \<times> real"
type_synonym text_extents = "string \<Rightarrow> string \<Rightarrow> int \<times> int"

datatype simple_widget = TextWidget string color string | RectangleWidget real real color

definition simple_extent :: "text_extents \<Rightarrow> simple_widget \<Rightarrow> extent" where
  "simple_extent te w =
     (case w of
        TextWidget t c f \<Rightarrow> (of_int (fst (te f t)), of_int (snd (te f t)))
      | RectangleWidget w h c \<Rightarrow> (w, h))"

definition simple_render :: "simple_widget \<Rightarrow> real \<Rightarrow> real \<Rightarrow> drawing list" where
  "simple_render w x y =
     (case w of
        TextWidget t c f \<Rightarrow> [ShowText c f t x y]
      | RectangleWidget w h c \<Rightarrow> [Fill c [(x, y, w, h)]])"

section \<open>Containers\<close>

text \<open>Children with their positions.\<close>

type_synonym 'w container = "('w \<times> real \<times> real) list"

definition container_extent :: "('w \<Rightarrow> extent) \<Rightarrow> 'w container \<Rightarrow> extent" where
  "container_extent ext cs =
     (of_int \<lceil>foldl (\<lambda>m (w, x, y). max (x + fst (ext w)) m) 0 cs\<rceil>, of_int \<lceil>foldl (\<lambda>m (w, x, y). max (y + snd (ext w)) m) 0 cs\<rceil>)"

definition container_render :: "('w \<Rightarrow> real \<Rightarrow> real \<Rightarrow> drawing list) \<Rightarrow> 'w container \<Rightarrow> real \<Rightarrow> real \<Rightarrow> drawing list" where
  "container_render draw cs x y = concat (map (\<lambda>(w, cx, cy). draw w (x + cx) (y + cy)) cs)"

section \<open>Grids\<close>

record 'w grid_child =
  gc_widget :: 'w
  gc_column :: nat
  gc_row :: nat
  gc_hj :: int
  gc_vj :: int

record 'w grid =
  g_xpadding :: real
  g_ypadding :: real
  g_force_width :: real
  g_force_height :: real
  g_children :: "'w grid_child list"

definition new_grid :: "'w grid" where
  "new_grid = \<lparr>g_xpadding = 0, g_ypadding = 0, g_force_width = 0, g_force_height = 0, g_children = []\<rparr>"

definition grid_add :: "'w \<Rightarrow> nat \<Rightarrow> nat \<Rightarrow> int \<Rightarrow> int \<Rightarrow> 'w grid \<Rightarrow> 'w grid" where
  "grid_add w column row hj vj g =
     g\<lparr>g_children := g_children g @ [\<lparr>gc_widget = w, gc_column = column, gc_row = row, gc_hj = hj, gc_vj = vj\<rparr>]\<rparr>"

definition set_padding :: "real \<Rightarrow> real \<Rightarrow> 'w grid \<Rightarrow> 'w grid" where
  "set_padding xp yp g = g\<lparr>g_xpadding := xp, g_ypadding := yp\<rparr>"

definition set_minimum :: "real \<Rightarrow> real \<Rightarrow> 'w grid \<Rightarrow> 'w grid" where
  "set_minimum w h g = g\<lparr>g_force_width := w, g_force_height := h\<rparr>"

text \<open>An entry of \<open>column_widths\<close> or \<open>row_heights\<close> is made where there is none, and is at least the size of the child.\<close>

definition widen_to :: "nat \<Rightarrow> real \<Rightarrow> real list \<Rightarrow> real list" where
  "widen_to n least sizes =
     (let sizes = (if length sizes \<le> n then sizes @ replicate (n + 1 - length sizes) 0 else sizes)
      in sizes[n := max least (sizes ! n)])"

definition column_widths :: "('w \<Rightarrow> extent) \<Rightarrow> 'w grid \<Rightarrow> real list" where
  "column_widths ext g =
     map (\<lambda>w. max w (g_force_width g)) (foldl (\<lambda>ws c. widen_to (gc_column c) (fst (ext (gc_widget c))) ws) [] (g_children g))"

definition row_heights :: "('w \<Rightarrow> extent) \<Rightarrow> 'w grid \<Rightarrow> real list" where
  "row_heights ext g =
     map (\<lambda>h. max h (g_force_height g)) (foldl (\<lambda>hs c. widen_to (gc_row c) (snd (ext (gc_widget c))) hs) [] (g_children g))"

text \<open>The size of the vector is unsigned, so that with no entry one less is the largest size there is.\<close>

definition grid_total :: "real \<Rightarrow> real list \<Rightarrow> real" where
  "grid_total padding sizes = padding * real (size_minus (length sizes) 1) + sum_list sizes"

definition grid_extent :: "('w \<Rightarrow> extent) \<Rightarrow> 'w grid \<Rightarrow> extent" where
  "grid_extent ext g = (grid_total (g_xpadding g) (column_widths ext g), grid_total (g_ypadding g) (row_heights ext g))"

text \<open>\<open>max_element\<close> of an empty vector is its end.\<close>

definition get_maximum :: "real list \<Rightarrow> real result" where
  "get_maximum sizes = (if sizes = [] then Inl UndefinedBehaviour else Inr (Max (set sizes)))"

definition justify :: "real \<Rightarrow> real \<Rightarrow> real \<Rightarrow> int \<Rightarrow> real" where
  "justify x cell_width child_width justification =
     x + of_int \<lfloor>(cell_width - child_width) * of_int (justification + 1) / 2\<rfloor>"

definition grid_offset :: "real \<Rightarrow> real list \<Rightarrow> nat \<Rightarrow> real" where
  "grid_offset padding sizes n = sum_list (map (\<lambda>w. w + padding) (take n sizes))"

text \<open>
  The position of a child, by the columns and rows that the last \<open>set_extent\<close> left; the size of the child itself may have
  been changed since.
\<close>

definition child_position :: "('w \<Rightarrow> extent) \<Rightarrow> real list \<Rightarrow> real list \<Rightarrow> 'w grid \<Rightarrow> 'w grid_child \<Rightarrow> real \<times> real" where
  "child_position ext widths heights g c =
     (justify (grid_offset (g_xpadding g) widths (gc_column c)) (widths ! gc_column c) (fst (ext (gc_widget c))) (gc_hj c),
      justify (grid_offset (g_ypadding g) heights (gc_row c)) (heights ! gc_row c) (snd (ext (gc_widget c))) (gc_vj c))"

definition grid_render ::
    "('w \<Rightarrow> extent) \<Rightarrow> ('w \<Rightarrow> real \<Rightarrow> real \<Rightarrow> drawing list) \<Rightarrow> real list \<Rightarrow> real list \<Rightarrow> 'w grid \<Rightarrow> real \<Rightarrow> real \<Rightarrow> drawing list" where
  "grid_render ext draw widths heights g x y =
     concat (map (\<lambda>c. case child_position ext widths heights g c of (cx, cy) \<Rightarrow> draw (gc_widget c) (x + cx) (y + cy)) (g_children g))"

section \<open>Children stay in their cells\<close>

lemma length_widen_to: "length (widen_to n least sizes) = max (length sizes) (n + 1)"
  by (simp add: widen_to_def Let_def)

lemma widen_to_size: "least \<le> widen_to n least sizes ! n"
  by (simp add: widen_to_def Let_def nth_append)

lemma widen_to_mono: "i < length sizes \<Longrightarrow> sizes ! i \<le> widen_to n least sizes ! i"
  by (auto simp: widen_to_def Let_def nth_append nth_list_update)

lemma foldl_widen_to:
  fixes sizes :: "real list"
  shows "length sizes \<le> length (foldl (\<lambda>ws c. widen_to (k c) (s c) ws) sizes cs) \<and>
    (\<forall>i < length sizes. sizes ! i \<le> foldl (\<lambda>ws c. widen_to (k c) (s c) ws) sizes cs ! i) \<and>
    (\<forall>c \<in> set cs. k c < length (foldl (\<lambda>ws c. widen_to (k c) (s c) ws) sizes cs) \<and>
       s c \<le> foldl (\<lambda>ws c. widen_to (k c) (s c) ws) sizes cs ! k c)"
proof (induction cs arbitrary: sizes)
  case (Cons c cs)
  let ?w = "widen_to (k c) (s c) sizes"
  have k: "k c < length ?w" "length sizes \<le> length ?w" by (simp_all add: length_widen_to)
  have "sizes ! i \<le> foldl (\<lambda>ws c. widen_to (k c) (s c) ws) ?w cs ! i" if "i < length sizes" for i
    using Cons [of ?w] widen_to_mono [OF that, of "k c" "s c"] that k(2) by (meson order_less_le_trans order_trans)
  moreover have "s c \<le> foldl (\<lambda>ws c. widen_to (k c) (s c) ws) ?w cs ! k c"
    using Cons [of ?w] widen_to_size [of "s c" "k c" sizes] k(1) by (meson order_trans)
  ultimately show ?case using Cons [of ?w] k by (auto intro: order_trans order_less_le_trans)
qed simp

lemma grid_sizes_fit:
  assumes "c \<in> set (g_children g)"
  shows "gc_column c < length (column_widths ext g)" "fst (ext (gc_widget c)) \<le> column_widths ext g ! gc_column c"
    "gc_row c < length (row_heights ext g)" "snd (ext (gc_widget c)) \<le> row_heights ext g ! gc_row c"
  using assms foldl_widen_to [of "[]" gc_column "\<lambda>c. fst (ext (gc_widget c))" "g_children g"]
    foldl_widen_to [of "[]" gc_row "\<lambda>c. snd (ext (gc_widget c))" "g_children g"]
  by (auto simp: column_widths_def row_heights_def le_max_iff_disj)

lemma justify_within:
  assumes "child \<le> cell" "j \<in> {-1, 0, 1}"
  shows "x \<le> justify x cell child j" "justify x cell child j + child \<le> x + cell"
proof -
  have "0 \<le> (cell - child) * of_int (j + 1) / 2" "(cell - child) * of_int (j + 1) / 2 \<le> cell - child"
    using assms by auto
  then have "0 \<le> \<lfloor>(cell - child) * of_int (j + 1) / 2\<rfloor>" "of_int \<lfloor>(cell - child) * of_int (j + 1) / 2\<rfloor> \<le> cell - child"
    by (simp, linarith)
  then show "x \<le> justify x cell child j" "justify x cell child j + child \<le> x + cell" by (simp_all add: justify_def)
qed

text \<open>The columns lie beside each other.\<close>

lemma grid_offset_step: "n < length sizes \<Longrightarrow> grid_offset padding sizes (Suc n) = grid_offset padding sizes n + sizes ! n + padding"
  by (simp add: grid_offset_def take_Suc_conv_app_nth)

lemma grid_offset_later:
  assumes "0 \<le> padding" "\<forall>w \<in> set sizes. 0 \<le> w" "n < m" "m \<le> length sizes"
  shows "grid_offset padding sizes n + sizes ! n + padding \<le> grid_offset padding sizes m"
  using assms(3,4)
proof (induction m)
  case (Suc m)
  have s: "grid_offset padding sizes (Suc m) = grid_offset padding sizes m + sizes ! m + padding" using Suc.prems by (simp add: grid_offset_step)
  show ?case
  proof (cases "n = m")
    case False
    then have "grid_offset padding sizes n + sizes ! n + padding \<le> grid_offset padding sizes m" using Suc by simp
    moreover have "0 \<le> sizes ! m" using assms(2) Suc.prems by simp
    ultimately show ?thesis using s assms(1) by linarith
  qed (simp add: s)
qed simp

lemma grid_offset_end:
  assumes "sizes \<noteq> []"
  shows "grid_offset padding sizes (length sizes) = grid_total padding sizes + padding"
proof -
  have s: "sum_list (map (\<lambda>w. w + padding) sizes) = sum_list sizes + padding * real (length sizes)"
    by (induction sizes) (simp_all add: algebra_simps)
  obtain n where n: "length sizes = Suc n" using assms by (cases sizes) simp_all
  then have "size_minus (length sizes) 1 = n" by (simp add: size_minus_def)
  then show ?thesis using n by (simp add: grid_offset_def grid_total_def s distrib_left)
qed

end
