(* ===== verification/HistoryGraph.thy ===== *)
theory HistoryGraph
  imports Render Volumes
begin

text \<open>
  The history graph (\<^verbatim>\<open>src/HistoryGraph.h\<close>, \<^verbatim>\<open>src/HistoryGraph.cc\<close> and \<^verbatim>\<open>src/rsbackup-graph.cc\<close>): its parts, their extents,
  and what is drawn.  The time zone, the extents of texts and \<open>strftime\<close> are arguments.
\<close>

section \<open>The parts\<close>

definition selected_volumes :: "host \<Rightarrow> (string \<times> volume) list" where
  "selected_volumes h = filter (\<lambda>(_, v). volume_selected v PurposeGraph) (h_volumes h)"

definition graph_hosts :: "conf \<Rightarrow> (string \<times> host) list" where
  "graph_hosts c = filter (\<lambda>(_, h). host_selected h PurposeGraph) (c_hosts c)"

definition padded :: "conf \<Rightarrow> 'w grid \<Rightarrow> 'w grid" where
  "padded c g = set_padding (c_horizontalPadding c) (c_verticalPadding c) g"

text \<open>The name of a host is in the row of its first volume.\<close>

definition HostLabels :: "conf \<Rightarrow> simple_widget grid result" where
  "HostLabels c =
     (if c_hosts c = [] then Inl (RuntimeError ''no hosts found in configuration'')
      else Inr (padded c (snd (foldl (\<lambda>(row, g) (n, h).
             (row + length (selected_volumes h), grid_add (TextWidget n (c_colorGraphForeground c) (c_hostNameFont c)) 0 row (-1) (-1) g))
           (0, new_grid) (graph_hosts c)))))"

definition VolumeLabels :: "conf \<Rightarrow> simple_widget grid" where
  "VolumeLabels c =
     padded c (snd (foldl (\<lambda>s (_, h). foldl (\<lambda>(row, g) (n, v).
         (row + 1, grid_add (TextWidget n (c_colorGraphForeground c) (c_volumeNameFont c)) 0 row (-1) (-1) g)) s (selected_volumes h))
       (0, new_grid) (graph_hosts c)))"

definition device_color :: "conf \<Rightarrow> nat \<Rightarrow> color result" where
  "device_color c row =
     (case strategy_color (c_deviceColorStrategy c) (int row) (int (length (c_devices c))) of
        None \<Rightarrow> Inl UndefinedBehaviour
      | Some color \<Rightarrow> Inr color)"

text \<open>The key, with the height of the indicators; \<open>device_rows\<close> is the position of a device.\<close>

definition DeviceKey :: "conf \<Rightarrow> real \<Rightarrow> simple_widget grid result" where
  "DeviceKey c indicator_height =
     rbind (fold_result (\<lambda>(row, g) (n, d). rbind (device_color c row) (\<lambda>color.
         Inr (row + 1, grid_add (RectangleWidget (c_backupIndicatorKeyWidth c) indicator_height color) 1 row (-1) 0
           (grid_add (TextWidget n (c_colorGraphForeground c) (c_deviceNameFont c)) 0 row (-1) (-1) g))))
       (0, new_grid) (c_devices c))
     (\<lambda>(_, g). Inr (padded c g))"

definition device_row :: "conf \<Rightarrow> backup \<Rightarrow> nat result" where
  "device_row c b =
     (case map_of (zip (map fst (c_devices c)) [0..<length (c_devices c)]) (b_deviceName b) of
        None \<Rightarrow> Inl UndefinedBehaviour
      | Some row \<Rightarrow> Inr row)"

section \<open>The content\<close>

record graph_content =
  ct_earliest :: date
  ct_latest :: date
  ct_rows :: nat

definition content_backup :: "machine \<Rightarrow> graph_content \<Rightarrow> backup \<Rightarrow> graph_content result" where
  "content_backup m ct b =
     (if b_status b = COMPLETE
      then rbind (date_at m (b_time b)) (\<lambda>d.
             Inr (ct\<lparr>ct_earliest := (if date_less d (ct_earliest ct) then d else ct_earliest ct),
                     ct_latest := (if date_less (ct_latest ct) d then d else ct_latest ct)\<rparr>))
      else Inr ct)"

definition content_host :: "machine \<Rightarrow> graph_content \<Rightarrow> string \<times> host \<Rightarrow> graph_content result" where
  "content_host m ct nh =
     fold_result (\<lambda>ct (_, v). rbind (fold_result (content_backup m) ct (v_backups v)) (\<lambda>ct. Inr (ct\<lparr>ct_rows := ct_rows ct + 1\<rparr>)))
       ct (selected_volumes (snd nh))"

definition HistoryGraphContent :: "machine \<Rightarrow> conf \<Rightarrow> graph_content result" where
  "HistoryGraphContent m c =
     rbind (date_at m 0) (\<lambda>epoch.
       rbind (fold_result (content_host m) \<lparr>ct_earliest = Date INT_MAX 1 0, ct_latest = epoch, ct_rows = 0\<rparr> (graph_hosts c)) (\<lambda>ct.
         if ct_rows ct = 0 then Inl (CommandError ''no volumes selected'') else Inr ct))"

text \<open>
  The columns; when there is no backup, \<open>earliest\<close> is after \<open>latest\<close>, and the number, which does not fit an \<open>int\<close> then, is
  not used.
\<close>

definition content_columns :: "graph_content \<Rightarrow> int" where
  "content_columns ct = date_toNumber (ct_latest ct) - date_toNumber (ct_earliest ct) + 1"

definition content_extent :: "conf \<Rightarrow> graph_content \<Rightarrow> real \<Rightarrow> extent" where
  "content_extent c ct row_height =
     (if date_less (ct_latest ct) (ct_earliest ct) then 0 else c_backupIndicatorWidth c * of_int (content_columns ct),
      if ct_rows ct \<noteq> 0 then row_height * real (ct_rows ct) + c_verticalPadding c * real (ct_rows ct - 1) else 0)"

text \<open>Every other month has a guide, from the second one.\<close>

definition days_width :: "conf \<Rightarrow> date \<Rightarrow> date \<Rightarrow> real" where
  "days_width c a b = of_int (date_minus a b) * c_backupIndicatorWidth c"

definition month_after :: "date \<Rightarrow> date" where
  "month_after d = addMonth (d\<lparr>date_d := 1\<rparr>)"

definition months_left :: "date \<Rightarrow> date \<Rightarrow> nat" where
  "months_left end_date d = (if date_less end_date d then 0 else nat (date_y end_date + 1 - date_y d))"

lemma later_month:
  assumes "\<not> date_less e d" "date_y d < date_y t \<or> date_y t = date_y d \<and> date_m d < date_m t \<and> date_m d < 13"
  shows "months_left e t < months_left e d \<or> months_left e t = months_left e d \<and> nat (13 - date_m t) < nat (13 - date_m d)"
proof -
  have "date_y d \<le> date_y e" using assms(1) by (auto simp: date_less_def split: if_splits)
  moreover have "date_y t \<le> date_y e" if "\<not> date_less e t" using that by (auto simp: date_less_def split: if_splits)
  ultimately show ?thesis using assms by (auto simp: months_left_def)
qed

lemma addMonth_fields:
  "date_y (addMonth t) = (if 11 < date_m t then date_y t + 1 else date_y t)" "date_m (addMonth t) = (if 11 < date_m t then date_m t - 11 else date_m t + 1)"
  by (simp_all add: addMonth_def Let_def)

lemma month_after_later:
  "date_y d < date_y (month_after d) \<or> date_y (month_after d) = date_y d \<and> date_m d < date_m (month_after d) \<and> date_m d < 13"
  "date_y d < date_y (addMonth (month_after d)) \<or>
   date_y (addMonth (month_after d)) = date_y d \<and> date_m d < date_m (addMonth (month_after d)) \<and> date_m d < 13"
  by (auto simp: month_after_def addMonth_fields)

function month_guides :: "conf \<Rightarrow> graph_content \<Rightarrow> real \<Rightarrow> date \<Rightarrow> (real \<times> real) list" where
  "month_guides c ct width d =
     (if date_less (ct_latest ct) d then []
      else let d = month_after d; following = addMonth d; x = days_width c d (ct_earliest ct);
               w = min (days_width c following d) (width - x)
           in (x, w) # month_guides c ct width (addMonth d))"
  by auto
termination
  by (relation "measures [\<lambda>(c, ct, width, d). months_left (ct_latest ct) d, \<lambda>(c, ct, width, d). nat (13 - date_m d)]")
    (use later_month [OF _ month_after_later(2)] in \<open>force simp: Let_def\<close>)+

declare month_guides.simps [simp del]

definition render_vertical_guides :: "conf \<Rightarrow> graph_content \<Rightarrow> extent \<Rightarrow> real \<Rightarrow> real \<Rightarrow> drawing list" where
  "render_vertical_guides c ct whole x0 y0 =
     [Fill (c_colorMonthGuide c) (map (\<lambda>(x, w). (x0 + x, y0, w, snd whole)) (month_guides c ct (fst whole) (ct_earliest ct)))]"

definition row_top :: "conf \<Rightarrow> real \<Rightarrow> nat \<Rightarrow> real" where
  "row_top c row_height row = real row * (row_height + c_verticalPadding c)"

definition render_horizontal_guides :: "conf \<Rightarrow> real \<Rightarrow> extent \<Rightarrow> real \<Rightarrow> real \<Rightarrow> drawing list" where
  "render_horizontal_guides c row_height whole x0 y0 =
     (let (row, ds) = foldl (\<lambda>(row, ds) (_, h). (row + length (selected_volumes h), ds @ map (\<lambda>i.
              Fill (if i = 0 then c_colorHostGuide c else c_colorVolumeGuide c) [(x0, y0 + row_top c row_height (row + i), fst whole, 1)])
            [0..<length (selected_volumes h)])) (0, []) (graph_hosts c)
      in ds @ [Fill (c_colorVolumeGuide c) [(x0, y0 + (row_top c row_height row - c_verticalPadding c), fst whole, 1)]])"

text \<open>The place of a device's indicator in a row.\<close>

definition indicator_offset :: "conf \<Rightarrow> real \<Rightarrow> real \<Rightarrow> nat \<Rightarrow> real" where
  "indicator_offset c row_height indicator_height row =
     of_int \<lfloor>(row_height + c_verticalPadding c - 1 - indicator_height * real (length (c_devices c))) / 2\<rfloor> + 1 + real row * indicator_height"

definition backup_indicator ::
    "machine \<Rightarrow> conf \<Rightarrow> graph_content \<Rightarrow> real \<Rightarrow> real \<Rightarrow> real \<Rightarrow> real \<Rightarrow> real \<Rightarrow> backup \<Rightarrow> drawing result" where
  "backup_indicator m c ct row_height indicator_height x0 y0 y b =
     rbind (date_at m (b_time b)) (\<lambda>d. rbind (device_row c b) (\<lambda>row. rbind (device_color c row) (\<lambda>color.
       Inr (Fill color [(x0 + days_width c d (ct_earliest ct), y0 + (y + indicator_offset c row_height indicator_height row),
              c_backupIndicatorWidth c, indicator_height)]))))"

definition render_volume ::
    "machine \<Rightarrow> conf \<Rightarrow> graph_content \<Rightarrow> real \<Rightarrow> real \<Rightarrow> real \<Rightarrow> real \<Rightarrow> real \<times> drawing list \<Rightarrow> volume \<Rightarrow> (real \<times> drawing list) result" where
  "render_volume m c ct row_height indicator_height x0 y0 s v =
     (let (y, ds) = s
      in rbind (fold_result (\<lambda>ds b. rbind (backup_indicator m c ct row_height indicator_height x0 y0 y b) (\<lambda>r. Inr (ds @ [r]))) ds
             (filter (\<lambda>b. b_status b = COMPLETE) (v_backups v)))
           (\<lambda>ds. Inr (y + (row_height + c_verticalPadding c), ds)))"

definition render_data :: "machine \<Rightarrow> conf \<Rightarrow> graph_content \<Rightarrow> real \<Rightarrow> real \<Rightarrow> real \<Rightarrow> real \<Rightarrow> drawing list result" where
  "render_data m c ct row_height indicator_height x0 y0 =
     rbind (fold_result (\<lambda>s (_, h). fold_result (\<lambda>s (_, v). render_volume m c ct row_height indicator_height x0 y0 s v) s (selected_volumes h))
       (0, []) (graph_hosts c)) (\<lambda>(_, ds). Inr ds)"

definition content_render ::
    "machine \<Rightarrow> conf \<Rightarrow> graph_content \<Rightarrow> real \<Rightarrow> real \<Rightarrow> real \<Rightarrow> real \<Rightarrow> drawing list result" where
  "content_render m c ct row_height indicator_height x0 y0 =
     rbind (render_data m c ct row_height indicator_height x0 y0) (\<lambda>ds.
       Inr (render_vertical_guides c ct (content_extent c ct row_height) x0 y0 @
            render_horizontal_guides c row_height (content_extent c ct row_height) x0 y0 @ ds))"

section \<open>The labels of the time axis\<close>

definition time_formats :: "string list" where
  "time_formats = [''%B %Y'', ''%b %Y'', ''%b %y'', ''%B'', ''%b'']"

text \<open>The first format that fits, at its place; at the right edge it is pushed back.\<close>

definition fitting_label ::
    "(string \<Rightarrow> date \<Rightarrow> string) \<Rightarrow> text_extents \<Rightarrow> conf \<Rightarrow> graph_content \<Rightarrow> real \<Rightarrow> int \<Rightarrow> real \<Rightarrow> date \<Rightarrow> (real \<times> string) option" where
  "fitting_label fmt te c ct width year limit d =
     (let place = (\<lambda>f. let s = fmt f d in (min (days_width c d (ct_earliest ct)) (width - of_int (fst (te (c_timeLabelFont c) s))), s));
          next_x = days_width c (month_after d) (ct_earliest ct)
      in find (\<lambda>(x, s). limit \<le> x \<and> x + of_int (fst (te (c_timeLabelFont c) s)) < next_x)
           (map place (drop (if date_y d \<noteq> year then 0 else 3) time_formats)))"

function time_labels ::
    "(string \<Rightarrow> date \<Rightarrow> string) \<Rightarrow> text_extents \<Rightarrow> conf \<Rightarrow> graph_content \<Rightarrow> real \<Rightarrow> int \<Rightarrow> real \<Rightarrow> date \<Rightarrow> (real \<times> string) list" where
  "time_labels fmt te c ct width year limit d =
     (if date_less (ct_latest ct) d then []
      else case fitting_label fmt te c ct width year limit d of
             None \<Rightarrow> time_labels fmt te c ct width year limit (month_after d)
           | Some (x, s) \<Rightarrow>
               (x, s) # time_labels fmt te c ct width (date_y d) (x + of_int (fst (te (c_timeLabelFont c) s))) (month_after d))"
  by auto
termination
  by (relation "measures [\<lambda>(fmt, te, c, ct, width, year, limit, d). months_left (ct_latest ct) d,
        \<lambda>(fmt, te, c, ct, width, year, limit, d). nat (13 - date_m d)]")
    (use later_month [OF _ month_after_later(1)] in \<open>force simp: Let_def\<close>)+

declare time_labels.simps [simp del]

definition TimeLabels ::
    "(string \<Rightarrow> date \<Rightarrow> string) \<Rightarrow> text_extents \<Rightarrow> conf \<Rightarrow> graph_content \<Rightarrow> real \<Rightarrow> simple_widget container" where
  "TimeLabels fmt te c ct width =
     map (\<lambda>(x, s). (TextWidget s (c_colorGraphForeground c) (c_timeLabelFont c), x, 0))
       (time_labels fmt te c ct width (-1) 0 (ct_earliest ct))"

section \<open>The graph\<close>

datatype graph_part = HostLabelsPart | VolumeLabelsPart | ContentPart | TimeLabelsPart | DeviceKeyPart

text \<open>The regular expression of \<open>addPart\<close>: the name, the column, the row, and how the part is justified.\<close>

definition match_partspec :: "string \<Rightarrow> (string \<times> string \<times> string \<times> (char \<times> char) option) option" where
  "match_partspec s =
     (let name = takeWhile (\<lambda>c. c \<noteq> CHR '':'') s; s = dropWhile (\<lambda>c. c \<noteq> CHR '':'') s;
          column = takeWhile c_isdigit (tl s); s' = dropWhile c_isdigit (tl s);
          row = takeWhile c_isdigit (tl s'); rest = dropWhile c_isdigit (tl s')
      in if name = [] \<or> s = [] \<or> column = [] \<or> s' = [] \<or> hd s' \<noteq> CHR '','' \<or> row = [] then None
         else case rest of
                [] \<Rightarrow> Some (name, column, row, None)
              | [a, h, v] \<Rightarrow>
                  if a = CHR '':'' \<and> h \<in> set ''LCR'' \<and> v \<in> set ''TCB'' then Some (name, column, row, Some (h, v)) else None
              | _ \<Rightarrow> None)"

definition justification :: "char \<Rightarrow> int" where
  "justification ch = (if ch \<in> set ''LT'' then -1 else if ch = CHR ''C'' then 0 else 1)"

definition justifications :: "(char \<times> char) option \<Rightarrow> int \<times> int" where
  "justifications how = (case how of None \<Rightarrow> (-1, -1) | Some (h, v) \<Rightarrow> (justification h, justification v))"

definition part_named :: "string \<Rightarrow> graph_part option" where
  "part_named =
     map_of [(''host-labels'', HostLabelsPart), (''volume-labels'', VolumeLabelsPart), (''content'', ContentPart),
       (''time-labels'', TimeLabelsPart), (''device-key'', DeviceKeyPart)]"

definition addPart :: "graph_part grid \<Rightarrow> string \<Rightarrow> graph_part grid result" where
  "addPart g partspec =
     (case match_partspec partspec of
        None \<Rightarrow> Inl (SyntaxError (''invalid graph component specification '' @ quoted partspec))
      | Some (name, column, row, how) \<Rightarrow>
          rbind (parseInteger column 0 INT_MAX 0) (\<lambda>column. rbind (parseInteger row 0 INT_MAX 0) (\<lambda>row.
            case part_named name of
              None \<Rightarrow> Inl (SyntaxError (''unrecognized graph component '' @ quoted name))
            | Some p \<Rightarrow> Inr (grid_add p (nat column) (nat row) (fst (justifications how)) (snd (justifications how)) g))))"

definition addParts :: "conf \<Rightarrow> graph_part grid result" where
  "addParts c = fold_result addPart (padded c new_grid) (c_graphLayout c)"

text \<open>
  What \<open>set_extent\<close> computes.  The key keeps the extent that it has with indicators of height 1, and its indicators keep
  that height when there is no height for them.  Without devices the
  height of an indicator is a division by zero; a row without height fails an assertion.
\<close>

record graph_layout =
  gl_content :: graph_content
  gl_parts :: "graph_part grid"
  gl_hosts :: "simple_widget grid"
  gl_volumes :: "simple_widget grid"
  gl_key0 :: "simple_widget grid"
  gl_key :: "simple_widget grid"
  gl_times :: "simple_widget container"
  gl_row_height :: real
  gl_indicator_height :: real

record graph_world =
  gw_machine :: machine
  gw_format :: "string \<Rightarrow> date \<Rightarrow> string"
  gw_text :: text_extents

definition indicator_height :: "conf \<Rightarrow> real \<Rightarrow> real result" where
  "indicator_height c row_height =
     (if c_devices c = [] \<or> row_height \<le> 0 then Inl UndefinedBehaviour
      else Inr (of_int \<lfloor>row_height / real (length (c_devices c))\<rfloor>))"

definition lay_out :: "graph_world \<Rightarrow> conf \<Rightarrow> graph_layout result" where
  "lay_out w c =
     (let ext = simple_extent (gw_text w)
      in rbind (HostLabels c) (\<lambda>hosts. rbind (DeviceKey c 1) (\<lambda>key0. rbind (HistoryGraphContent (gw_machine w) c) (\<lambda>ct.
           rbind (addParts c) (\<lambda>parts.
             rbind (get_maximum (row_heights ext hosts)) (\<lambda>host_height. rbind (get_maximum (row_heights ext (VolumeLabels c))) (\<lambda>volume_height.
               let row_height = max (max host_height volume_height) (c_backupIndicatorHeight c * real (length (c_devices c)))
               in rbind (indicator_height c row_height) (\<lambda>ih. rbind (DeviceKey c (if 0 < ih then ih else 1)) (\<lambda>key.
                    Inr \<lparr>gl_content = ct, gl_parts = parts, gl_hosts = set_minimum 0 row_height hosts,
                         gl_volumes = set_minimum 0 row_height (VolumeLabels c), gl_key0 = key0, gl_key = key,
                         gl_times = TimeLabels (gw_format w) (gw_text w) c ct (fst (content_extent c ct row_height)),
                         gl_row_height = row_height, gl_indicator_height = ih\<rparr>)))))))))"

definition part_extent :: "graph_world \<Rightarrow> conf \<Rightarrow> graph_layout \<Rightarrow> graph_part \<Rightarrow> extent" where
  "part_extent w c gl p =
     (let ext = simple_extent (gw_text w)
      in case p of
           HostLabelsPart \<Rightarrow> grid_extent ext (gl_hosts gl)
         | VolumeLabelsPart \<Rightarrow> grid_extent ext (gl_volumes gl)
         | ContentPart \<Rightarrow> content_extent c (gl_content gl) (gl_row_height gl)
         | TimeLabelsPart \<Rightarrow> container_extent ext (gl_times gl)
         | DeviceKeyPart \<Rightarrow> grid_extent ext (gl_key0 gl))"

definition graph_extent :: "graph_world \<Rightarrow> conf \<Rightarrow> graph_layout \<Rightarrow> extent" where
  "graph_extent w c gl = grid_extent (part_extent w c gl) (gl_parts gl)"

text \<open>The parts are drawn over the background, in the order of the configuration.\<close>

definition simple_grid_render :: "graph_world \<Rightarrow> simple_widget grid \<Rightarrow> simple_widget grid \<Rightarrow> real \<Rightarrow> real \<Rightarrow> drawing list" where
  "simple_grid_render w sized g x y =
     (let ext = simple_extent (gw_text w) in grid_render ext simple_render (column_widths ext sized) (row_heights ext sized) g x y)"

definition part_render :: "graph_world \<Rightarrow> conf \<Rightarrow> graph_layout \<Rightarrow> graph_part \<Rightarrow> real \<Rightarrow> real \<Rightarrow> drawing list result" where
  "part_render w c gl p x y =
     (case p of
        HostLabelsPart \<Rightarrow> Inr (simple_grid_render w (gl_hosts gl) (gl_hosts gl) x y)
      | VolumeLabelsPart \<Rightarrow> Inr (simple_grid_render w (gl_volumes gl) (gl_volumes gl) x y)
      | ContentPart \<Rightarrow> content_render (gw_machine w) c (gl_content gl) (gl_row_height gl) (gl_indicator_height gl) x y
      | TimeLabelsPart \<Rightarrow> Inr (container_render simple_render (gl_times gl) x y)
      | DeviceKeyPart \<Rightarrow> Inr (simple_grid_render w (gl_key0 gl) (gl_key gl) x y))"

definition graph_render :: "graph_world \<Rightarrow> conf \<Rightarrow> graph_layout \<Rightarrow> drawing list result" where
  "graph_render w c gl =
     (let ext = part_extent w c gl; g = gl_parts gl; (width, height) = graph_extent w c gl
      in fold_result (\<lambda>ds ch. case child_position ext (column_widths ext g) (row_heights ext g) g ch of (x, y) \<Rightarrow>
             rbind (part_render w c gl (gc_widget ch) x y) (\<lambda>part. Inr (ds @ part)))
           [Fill (c_colorGraphBackground c) [(0, 0, width, height)]] (g_children g))"

text \<open>The width of the indicators is adjusted to the width that is wanted.\<close>

definition adjustConfig :: "real \<Rightarrow> real \<Rightarrow> graph_content \<Rightarrow> conf \<Rightarrow> conf" where
  "adjustConfig width content_width ct c =
     (if content_width = 0 then c
      else let max_content = of_int \<lfloor>c_graphTargetWidth c - (width - content_width)\<rfloor>;
               max_indicator = max_content / of_int (content_columns ct);
               max_indicator = (if 1 \<le> max_indicator then of_int \<lfloor>max_indicator\<rfloor> else max_indicator)
           in if width < c_graphTargetWidth c then c\<lparr>c_backupIndicatorWidth := max (c_backupIndicatorWidth c) max_indicator\<rparr>
              else if 0 < c_graphTargetWidth c \<and> c_graphTargetWidth c < width
              then if max_content \<le> 0 then c else c\<lparr>c_backupIndicatorWidth := max_indicator\<rparr>
              else c)"

text \<open>The first graph is only measured; the second one is drawn, on a surface of its size.\<close>

definition adjusted_conf :: "graph_world \<Rightarrow> conf \<Rightarrow> conf result" where
  "adjusted_conf w c =
     rbind (lay_out w c) (\<lambda>gl.
       Inr (adjustConfig (fst (graph_extent w c gl)) (fst (content_extent c (gl_content gl) (gl_row_height gl))) (gl_content gl) c))"

definition draw_graph :: "graph_world \<Rightarrow> conf \<Rightarrow> (int \<times> int \<times> drawing list) result" where
  "draw_graph w c =
     rbind (adjusted_conf w c) (\<lambda>c. rbind (lay_out w c) (\<lambda>gl. rbind (graph_render w c gl) (\<lambda>ds.
       Inr (\<lceil>fst (graph_extent w c gl)\<rceil>, \<lceil>snd (graph_extent w c gl)\<rceil>, ds))))"

end
