(* ===== verification/GraphSafety.thy ===== *)
theory GraphSafety
  imports HistoryGraph
begin

text \<open>
  The parts of the history graph lie beside each other, the labels of its time axis do not overlap, and every backup is
  drawn inside the row of its volume.
\<close>

section \<open>A small graph\<close>

text \<open>One host with one volume that has one backup, on one device.\<close>

definition graph_machine :: machine where
  "graph_machine = \<lparr>localtime = (\<lambda>t. Some (Date 2020 1 (1 + t mod 28))), getenv = (\<lambda>_. None), strptime = (\<lambda>_. None), clock = 0\<rparr>"

definition graph_volume :: volume where
  "graph_volume = sample_volume\<lparr>v_backups := [sample_backup 1 3 ''dev''], v_selected := [PurposeGraph]\<rparr>"

definition graph_conf :: conf where
  "graph_conf = (let c = new_conf ''/usr/sbin/sendmail'' in c\<lparr>
     c_hosts := [(''h'', (new_host c ''h'')\<lparr>h_volumes := [(''v'', graph_volume)]\<rparr>)],
     c_devices := [(''dev'', new_device ''dev'')], c_deviceColorStrategy := EquidistantHue 0 1 1\<rparr>)"

definition graph_sample :: graph_world where
  "graph_sample = \<lparr>gw_machine = graph_machine, gw_format = (\<lambda>f d. f), gw_text = (\<lambda>f s. (10, 12))\<rparr>"

definition sample_content :: graph_content where
  "sample_content = \<lparr>ct_earliest = Date 2020 1 4, ct_latest = Date 2020 1 4, ct_rows = 1\<rparr>"

lemma content_sample: "HistoryGraphContent graph_machine graph_conf = Inr sample_content"
  by code_simp

lemma parts_sample:
  "\<exists>g. addParts graph_conf = Inr g" "addParts graph_conf = Inr g \<Longrightarrow> ContentPart \<in> gc_widget ` set (g_children g)"
proof -
  have "map_sum (\<lambda>_. True) (\<lambda>g. map gc_widget (g_children g)) (addParts graph_conf) = Inr [HostLabelsPart, VolumeLabelsPart, ContentPart, TimeLabelsPart, DeviceKeyPart]"
    by code_simp
  then show "\<exists>g. addParts graph_conf = Inr g" "addParts graph_conf = Inr g \<Longrightarrow> ContentPart \<in> gc_widget ` set (g_children g)"
    by (cases "addParts graph_conf"; simp flip: set_map)+
qed

definition graph_host :: host where
  "graph_host = snd (hd (c_hosts graph_conf))"

lemma graph_hosts_sample: "graph_hosts graph_conf = [(''h'', graph_host)]" "c_hosts graph_conf = [(''h'', graph_host)]"
  "selected_volumes graph_host = [(''v'', graph_volume)]"
proof -
  show hs: "c_hosts graph_conf = [(''h'', graph_host)]" by (simp add: graph_host_def graph_conf_def Let_def)
  show vs: "selected_volumes graph_host = [(''v'', graph_volume)]"
    by (simp add: graph_host_def graph_conf_def Let_def selected_volumes_def volume_selected_def graph_volume_def)
  show "graph_hosts graph_conf = [(''h'', graph_host)]"
    unfolding graph_hosts_def hs by (simp add: graph_host_def graph_conf_def Let_def host_selected_def volume_selected_def graph_volume_def)
qed

lemma devices_sample: "c_devices graph_conf = [(''dev'', new_device ''dev'')]"  "c_deviceColorStrategy graph_conf = EquidistantHue 0 1 1"
  "c_backupIndicatorHeight graph_conf = 2" "c_verticalPadding graph_conf = 2" "c_horizontalPadding graph_conf = 8"
  "c_backupIndicatorWidth graph_conf = 4"
  by (simp_all add: graph_conf_def new_conf_def conf_base.defs Let_def)

lemma key_sample: "\<exists>g. DeviceKey graph_conf h = Inr g"
  by (simp add: DeviceKey_def devices_sample device_color_def strategy_color_def rbind_def)

lemma labels_sample: "\<exists>g. HostLabels graph_conf = Inr g \<and> row_heights (simple_extent (gw_text graph_sample)) g = [12]"
  "row_heights (simple_extent (gw_text graph_sample)) (VolumeLabels graph_conf) = [12]"
  by (simp_all add: HostLabels_def VolumeLabels_def graph_hosts_sample padded_def set_padding_def grid_add_def new_grid_def
      row_heights_def widen_to_def simple_extent_def graph_sample_def)

lemma sample_lay_out: "\<exists>gl. lay_out graph_sample graph_conf = Inr gl \<and> gl_content gl = sample_content \<and> gl_row_height gl = 12 \<and> gl_indicator_height gl = 12"
proof -
  obtain hosts where hosts: "HostLabels graph_conf = Inr hosts" "row_heights (simple_extent (gw_text graph_sample)) hosts = [12]" using labels_sample(1) by blast
  obtain g where g: "addParts graph_conf = Inr g" using parts_sample by blast
  obtain key0 key where keys: "DeviceKey graph_conf 1 = Inr key0" "DeviceKey graph_conf 12 = Inr key" using key_sample by blast
  have m: "gw_machine graph_sample = graph_machine" by (simp add: graph_sample_def)
  show ?thesis
    by (simp add: lay_out_def Let_def hosts g keys m content_sample labels_sample(2) get_maximum_def indicator_height_def devices_sample rbind_def)
qed

lemma sample_data: "\<exists>color. render_data graph_machine graph_conf sample_content 12 12 0 0 = Inr [Fill color [(0, 1, 4, 12)]]"
  by (simp add: render_data_def graph_hosts_sample render_volume_def graph_volume_def sample_backup_def backup_indicator_def
      date_at_def graph_machine_def device_row_def devices_sample device_color_def strategy_color_def rbind_def sample_content_def
      days_width_def date_minus_def date_of_time_def indicator_offset_def)

lemma sample_times: "0 \<le> fst (gw_text graph_sample f s)"
  by (simp add: graph_sample_def)

section \<open>The labels of the time axis\<close>

lemma fitting_labelD:
  assumes "fitting_label fmt te c ct width year limit d = Some (x, s)"
  shows "limit \<le> x" "x + of_int (fst (te (c_timeLabelFont c) s)) \<le> width"
    "x + of_int (fst (te (c_timeLabelFont c) s)) < days_width c (month_after d) (ct_earliest ct)"
  using assms by (auto simp: fitting_label_def Let_def find_Some_iff dest!: nth_mem)

lemma time_labels_ordered:
  assumes "\<And>f s. 0 \<le> fst (te f s)"
  shows "(\<forall>(x, s) \<in> set (time_labels fmt te c ct width year limit d). limit \<le> x \<and> x + of_int (fst (te (c_timeLabelFont c) s)) \<le> width) \<and>
    sorted_wrt (\<lambda>(x, s) (x', s'). x + of_int (fst (te (c_timeLabelFont c) s)) \<le> x') (time_labels fmt te c ct width year limit d)"
  using assms
proof (induction fmt te c ct width year limit d rule: time_labels.induct)
  case (1 fmt te c ct width year limit d)
  show ?case
  proof (cases "date_less (ct_latest ct) d")
    case True
    then show ?thesis by (simp add: time_labels.simps [of fmt te c ct width year limit d])
  next
    case open_end: False
    show ?thesis
    proof (cases "fitting_label fmt te c ct width year limit d")
      case None
      then show ?thesis using 1(1) [OF open_end None 1(3)] open_end by (simp add: time_labels.simps [of fmt te c ct width year limit d])
    next
      case (Some xs)
      obtain x s where xs: "xs = (x, s)" by (cases xs)
      let ?w = "real_of_int (fst (te (c_timeLabelFont c) s))"
      have label: "limit \<le> x" "x + ?w \<le> width" using fitting_labelD Some xs by blast+
      have "0 \<le> ?w" using 1(3) by simp
      then have "limit \<le> x + ?w" using label(1) by linarith
      moreover note 1(2) [OF open_end Some [unfolded xs] refl 1(3)]
      moreover have "time_labels fmt te c ct width year limit d = (x, s) # time_labels fmt te c ct width (date_y d) (x + ?w) (month_after d)"
        using open_end Some xs by (simp add: time_labels.simps [of fmt te c ct width year limit d])
      ultimately show ?thesis using label by (fastforce intro: order_trans)
    qed
  qed
qed

text \<open>
  The labels of the time axis stand one after the other without overlap, inside the width of the content, whatever their
  widths in the font are.
\<close>

theorem time_labels_disjoint:
  assumes "\<And>f s. 0 \<le> fst (te f s)"
  shows "(\<forall>(w, x, y) \<in> set (TimeLabels fmt te c ct width). 0 \<le> x \<and> x + fst (simple_extent te w) \<le> width \<and> y = 0) \<and>
    sorted_wrt (\<lambda>(w, x, y) (w', x', y'). x + fst (simple_extent te w) \<le> x') (TimeLabels fmt te c ct width)"
proof
  let ?labels = "time_labels fmt te c ct width (-1) 0 (ct_earliest ct)"
  note ordered = time_labels_ordered [of te fmt c ct width "-1" 0 "ct_earliest ct", OF assms]
  show "\<forall>(w, x, y) \<in> set (TimeLabels fmt te c ct width). 0 \<le> x \<and> x + fst (simple_extent te w) \<le> width \<and> y = 0"
    using ordered by (auto simp: TimeLabels_def simple_extent_def)
  show "sorted_wrt (\<lambda>(w, x, y) (w', x', y'). x + fst (simple_extent te w) \<le> x') (TimeLabels fmt te c ct width)"
    unfolding TimeLabels_def sorted_wrt_map
    by (rule sorted_wrt_mono_rel [OF _ conjunct2 [OF ordered]]) (auto simp: simple_extent_def)
qed

lemma time_labels_disjoint_witness:
  "sorted_wrt (\<lambda>(w, x, y) (w', x', y'). x + fst (simple_extent (gw_text graph_sample) w) \<le> x')
     (TimeLabels (\<lambda>f d. f) (gw_text graph_sample) graph_conf \<lparr>ct_earliest = Date 2020 1 4, ct_latest = Date 2020 5 4, ct_rows = 1\<rparr> 200)"
  using time_labels_disjoint [of "gw_text graph_sample", OF sample_times] by blast

section \<open>The parts\<close>

lemma foldl_widen_to_nonneg:
  fixes sizes :: "real list"
  assumes "\<forall>w \<in> set sizes. 0 \<le> w"
  shows "\<forall>w \<in> set (foldl (\<lambda>ws c. widen_to (k c) (s c) ws) sizes cs). 0 \<le> w"
  using assms
proof (induction cs arbitrary: sizes)
  case (Cons c cs)
  have "0 \<le> w" if "w \<in> set (widen_to (k c) (s c) sizes)" for w
    using that Cons.prems set_update_subset_insert [of "if length sizes \<le> k c then sizes @ replicate (k c + 1 - length sizes) 0 else sizes"]
    by (auto simp: widen_to_def Let_def nth_append le_max_iff_disj split: if_splits dest!: subsetD [OF set_update_subset_insert])
  then show ?case using Cons.IH [of "widen_to (k c) (s c) sizes"] by simp
qed simp

lemma grid_sizes_nonneg: "w \<in> set (column_widths ext g) \<or> w \<in> set (row_heights ext g) \<Longrightarrow> 0 \<le> w"
  using foldl_widen_to_nonneg [of "[]" gc_column "\<lambda>c. fst (ext (gc_widget c))" "g_children g"]
    foldl_widen_to_nonneg [of "[]" gc_row "\<lambda>c. snd (ext (gc_widget c))" "g_children g"]
  by (auto simp: column_widths_def row_heights_def le_max_iff_disj)

text \<open>A child is inside its column, and the column is inside the grid.\<close>

lemma placed_within:
  assumes "0 \<le> padding" "\<forall>w \<in> set sizes. 0 \<le> w" "n < length sizes" "child \<le> sizes ! n" "j \<in> {-1, 0, 1}"
  defines "x \<equiv> justify (grid_offset padding sizes n) (sizes ! n) child j"
  shows "0 \<le> x" "x + child \<le> grid_total padding sizes" "m < n \<Longrightarrow> grid_offset padding sizes m + sizes ! m + padding \<le> x"
    "n < m \<Longrightarrow> m < length sizes \<Longrightarrow> x + child + padding \<le> grid_offset padding sizes m"
proof -
  have x: "grid_offset padding sizes n \<le> x" "x + child \<le> grid_offset padding sizes n + sizes ! n"
    using justify_within [OF assms(4,5)] by (simp_all add: x_def)
  have "0 \<le> grid_offset padding sizes n"
    unfolding grid_offset_def using assms(1,2) by (intro sum_list_nonneg) (auto dest: in_set_takeD)
  then show "0 \<le> x" using x(1) by simp
  have "grid_offset padding sizes n + sizes ! n + padding \<le> grid_offset padding sizes (length sizes)"
    using assms(3) grid_offset_later [OF assms(1,2), of n "length sizes"] by simp
  also have "\<dots> = grid_total padding sizes + padding" using assms(3) by (intro grid_offset_end) auto
  finally show "x + child \<le> grid_total padding sizes" using x(2) by simp
  show "grid_offset padding sizes m + sizes ! m + padding \<le> x" if "m < n"
    using grid_offset_later [OF assms(1,2) that] assms(3) x(1) by simp
  show "x + child + padding \<le> grid_offset padding sizes m" if "n < m" "m < length sizes"
    using grid_offset_later [OF assms(1,2) that(1)] that(2) x(2) by simp
qed

text \<open>The parts of the graph are justified in one of the three ways.\<close>

definition parts_ok :: "conf \<Rightarrow> graph_part grid \<Rightarrow> bool" where
  "parts_ok c g \<longleftrightarrow> g_xpadding g = c_horizontalPadding c \<and> g_ypadding g = c_verticalPadding c \<and>
     (\<forall>ch \<in> set (g_children g). gc_hj ch \<in> {-1, 0, 1} \<and> gc_vj ch \<in> {-1, 0, 1})"

lemma justifications_range: "fst (justifications how) \<in> {-1, 0, 1}" "snd (justifications how) \<in> {-1, 0, 1}"
  by (simp_all add: justifications_def justification_def split: option.split prod.split)

lemma addPart_ok: "addPart g s = Inr g' \<Longrightarrow> parts_ok c g \<Longrightarrow> parts_ok c g'"
proof -
  assume a: "addPart g s = Inr g'" "parts_ok c g"
  obtain p col row how where "g' = grid_add p col row (fst (justifications how)) (snd (justifications how)) g"
    using a(1) by (auto simp: addPart_def rbind_def split: option.splits sum.splits)
  then show "parts_ok c g'" using a(2) justifications_range [of how] by (simp add: parts_ok_def grid_add_def)
qed

lemma addParts_ok: "addParts c = Inr g \<Longrightarrow> parts_ok c g"
proof -
  have keeps: "parts_ok c g" if "fold_result addPart g0 ss = Inr g" "parts_ok c g0" for g0 ss
    using that
  proof (induction ss arbitrary: g0)
    case (Cons s ss)
    then obtain g1 where g1: "addPart g0 s = Inr g1" "fold_result addPart g1 ss = Inr g" by (auto simp: rbind_def split: sum.splits)
    from Cons.IH [OF g1(2) addPart_ok [OF g1(1) Cons.prems(2)]] show ?case .
  qed simp
  assume "addParts c = Inr g"
  moreover have "parts_ok c (padded c new_grid)" by (simp add: padded_def set_padding_def new_grid_def parts_ok_def)
  ultimately show "parts_ok c g" unfolding addParts_def by (rule keeps)
qed

lemma lay_out_parts: "lay_out w c = Inr gl \<Longrightarrow> addParts c = Inr (gl_parts gl)"
  by (auto simp: lay_out_def Let_def result_simps)

text \<open>
  The parts of the graph lie inside the picture, and a part in a column further to the right begins behind every part
  of the columns before, wherever they are justified; the same holds of the rows.
\<close>

theorem graph_parts_disjoint:
  assumes "lay_out w c = Inr gl" "0 \<le> c_horizontalPadding c" "0 \<le> c_verticalPadding c"
    and "a \<in> set (g_children (gl_parts gl))"
  defines "pos \<equiv> child_position (part_extent w c gl) (column_widths (part_extent w c gl) (gl_parts gl))
       (row_heights (part_extent w c gl) (gl_parts gl)) (gl_parts gl)"
    and "wide \<equiv> \<lambda>ch. fst (part_extent w c gl (gc_widget ch))" and "high \<equiv> \<lambda>ch. snd (part_extent w c gl (gc_widget ch))"
  shows "0 \<le> fst (pos a) \<and> fst (pos a) + wide a \<le> fst (graph_extent w c gl) \<and>
    0 \<le> snd (pos a) \<and> snd (pos a) + high a \<le> snd (graph_extent w c gl) \<and>
    (\<forall>b \<in> set (g_children (gl_parts gl)).
       (gc_column a < gc_column b \<longrightarrow> fst (pos a) + wide a + c_horizontalPadding c \<le> fst (pos b)) \<and>
       (gc_row a < gc_row b \<longrightarrow> snd (pos a) + high a + c_verticalPadding c \<le> snd (pos b)))"
proof -
  let ?ext = "part_extent w c gl" and ?g = "gl_parts gl"
  let ?ws = "column_widths ?ext ?g" and ?hs = "row_heights ?ext ?g"
  have ok: "parts_ok c ?g" using addParts_ok lay_out_parts [OF assms(1)] by blast
  then have pad: "g_xpadding ?g = c_horizontalPadding c" "g_ypadding ?g = c_verticalPadding c" by (simp_all add: parts_ok_def)
  have j: "gc_hj ch \<in> {-1, 0, 1}" "gc_vj ch \<in> {-1, 0, 1}" if "ch \<in> set (g_children ?g)" for ch using ok that by (auto simp: parts_ok_def)
  have nonneg: "\<forall>x \<in> set ?ws. 0 \<le> x" "\<forall>x \<in> set ?hs. 0 \<le> x" using grid_sizes_nonneg by blast+
  have x: "fst (pos ch) = justify (grid_offset (c_horizontalPadding c) ?ws (gc_column ch)) (?ws ! gc_column ch) (wide ch) (gc_hj ch)"
    and y: "snd (pos ch) = justify (grid_offset (c_verticalPadding c) ?hs (gc_row ch)) (?hs ! gc_row ch) (high ch) (gc_vj ch)" for ch
    by (simp_all add: pos_def wide_def high_def child_position_def pad)
  note fit = grid_sizes_fit [of _ ?g ?ext]
  note column = placed_within [OF assms(2) nonneg(1) fit(1) fit(2) j(1)]
  note row = placed_within [OF assms(3) nonneg(2) fit(3) fit(4) j(2)]
  have total: "graph_extent w c gl = (grid_total (c_horizontalPadding c) ?ws, grid_total (c_verticalPadding c) ?hs)"
    by (simp add: graph_extent_def grid_extent_def pad)
  have "fst (pos a) + wide a + c_horizontalPadding c \<le> fst (pos b)" if "b \<in> set (g_children ?g)" "gc_column a < gc_column b" for b
  proof -
    have "grid_offset (c_horizontalPadding c) ?ws (gc_column b) \<le> fst (pos b)"
      using justify_within(1) [OF fit(2) [OF that(1)] j(1) [OF that(1)]] by (simp add: x wide_def)
    then show ?thesis using column(4) [OF assms(4) assms(4) assms(4) that(2) fit(1) [OF that(1)]] by (simp add: x wide_def)
  qed
  moreover have "snd (pos a) + high a + c_verticalPadding c \<le> snd (pos b)" if "b \<in> set (g_children ?g)" "gc_row a < gc_row b" for b
  proof -
    have "grid_offset (c_verticalPadding c) ?hs (gc_row b) \<le> snd (pos b)"
      using justify_within(1) [OF fit(4) [OF that(1)] j(2) [OF that(1)]] by (simp add: y high_def)
    then show ?thesis using row(4) [OF assms(4) assms(4) assms(4) that(2) fit(3) [OF that(1)]] by (simp add: y high_def)
  qed
  ultimately show ?thesis using column(1,2) [OF assms(4) assms(4) assms(4)] row(1,2) [OF assms(4) assms(4) assms(4)]
    unfolding total by (simp add: x y wide_def high_def)
qed

lemma graph_parts_disjoint_witness:
  "\<exists>gl a. lay_out graph_sample graph_conf = Inr gl \<and> a \<in> set (g_children (gl_parts gl)) \<and> gc_widget a = ContentPart \<and>
     fst (child_position (part_extent graph_sample graph_conf gl) (column_widths (part_extent graph_sample graph_conf gl) (gl_parts gl))
         (row_heights (part_extent graph_sample graph_conf gl) (gl_parts gl)) (gl_parts gl) a) + fst (part_extent graph_sample graph_conf gl ContentPart)
       \<le> fst (graph_extent graph_sample graph_conf gl)"
proof -
  obtain gl where gl: "lay_out graph_sample graph_conf = Inr gl" using sample_lay_out by blast
  then obtain a where a: "a \<in> set (g_children (gl_parts gl))" "gc_widget a = ContentPart"
    using parts_sample(2) lay_out_parts [OF gl] by auto
  show ?thesis using graph_parts_disjoint [OF gl _ _ a(1)] gl a by (auto simp: devices_sample)
qed

section \<open>Backups\<close>

text \<open>The dates that the content covers.\<close>

definition covers :: "graph_content \<Rightarrow> date \<Rightarrow> bool" where
  "covers ct d \<longleftrightarrow> \<not> date_less d (ct_earliest ct) \<and> \<not> date_less (ct_latest ct) d"

definition covers_backup :: "machine \<Rightarrow> graph_content \<Rightarrow> backup \<Rightarrow> bool" where
  "covers_backup m ct b \<longleftrightarrow> (b_status b = COMPLETE \<longrightarrow> (\<forall>d. date_at m (b_time b) = Inr d \<longrightarrow> covers ct d))"

definition grows :: "graph_content \<Rightarrow> graph_content \<Rightarrow> bool" where
  "grows ct ct' \<longleftrightarrow> (\<forall>d. covers ct d \<longrightarrow> covers ct' d)"

definition dates_valid :: "machine \<Rightarrow> bool" where
  "dates_valid m \<longleftrightarrow> (\<forall>t d. date_at m t = Inr d \<longrightarrow> valid_date d \<and> date_y d < INT_MAX)"

definition content_ok :: "graph_content \<Rightarrow> bool" where
  "content_ok ct \<longleftrightarrow> (valid_date (ct_earliest ct) \<or> ct_earliest ct = Date INT_MAX 1 0) \<and> valid_date (ct_latest ct)"

lemma grows_refl: "grows ct ct"
  by (simp add: grows_def)

lemma grows_trans: "grows a b \<Longrightarrow> grows b c \<Longrightarrow> grows a c"
  by (simp add: grows_def)

lemma covers_backup_grows: "covers_backup m ct b \<Longrightarrow> grows ct ct' \<Longrightarrow> covers_backup m ct' b"
  by (simp add: covers_backup_def grows_def)

lemma content_backup_step:
  assumes "content_backup m ct b = Inr ct'"
  shows "grows ct ct'" "covers_backup m ct' b" "ct_rows ct' = ct_rows ct" "dates_valid m \<Longrightarrow> content_ok ct \<Longrightarrow> content_ok ct'"
proof -
  show "ct_rows ct' = ct_rows ct" using assms by (auto simp: content_backup_def result_simps split: if_splits)
  show "dates_valid m \<Longrightarrow> content_ok ct \<Longrightarrow> content_ok ct'"
    using assms by (auto simp: content_backup_def result_simps content_ok_def dates_valid_def split: if_splits)
  have "covers_backup m ct' b \<and> grows ct ct'"
  proof (cases "b_status b = COMPLETE")
    case True
    obtain d where d: "date_at m (b_time b) = Inr d"
      and ct': "ct' = ct\<lparr>ct_earliest := (if date_less d (ct_earliest ct) then d else ct_earliest ct),
                  ct_latest := (if date_less (ct_latest ct) d then d else ct_latest ct)\<rparr>"
      using assms True unfolding content_backup_def by (simp only: if_True rbind_Inr_iff sum.inject simp_thms) blast
    have e: "ct_earliest ct' = (if date_less d (ct_earliest ct) then d else ct_earliest ct)"
      "ct_latest ct' = (if date_less (ct_latest ct) d then d else ct_latest ct)" by (simp_all add: ct')
    show ?thesis using date_less_trans by (auto simp: covers_backup_def grows_def covers_def e d)
  next
    case False
    then show ?thesis using assms by (simp add: content_backup_def covers_backup_def grows_refl)
  qed
  then show "covers_backup m ct' b" "grows ct ct'" by blast+
qed

text \<open>A fold whose steps do something for their element that lasts.\<close>

lemma fold_lasting:
  assumes "\<And>s x s'. f s x = Inr s' \<Longrightarrow> x \<in> set xs \<Longrightarrow> I s \<Longrightarrow> I s' \<and> R s s' \<and> Q x s'"
    and "\<And>s. R s s" "\<And>a b c. R a b \<Longrightarrow> R b c \<Longrightarrow> R a c" "\<And>x s s'. Q x s \<Longrightarrow> R s s' \<Longrightarrow> Q x s'"
    and "fold_result f s xs = Inr s'" "I s"
  shows "I s' \<and> R s s' \<and> (\<forall>x \<in> set xs. Q x s')"
  using assms(1,5,6)
proof (induction xs arbitrary: s)
  case (Cons x xs)
  obtain s1 where s1: "f s x = Inr s1" "fold_result f s1 xs = Inr s'" using Cons.prems(2) by (auto simp: result_simps)
  have 1: "I s1" "R s s1" "Q x s1" using Cons.prems(1) [OF s1(1)] Cons.prems(3) by auto
  have 2: "I s' \<and> R s1 s' \<and> (\<forall>x \<in> set xs. Q x s')" using Cons.IH [OF _ s1(2) 1(1)] Cons.prems(1) by simp
  then show ?case using 1 assms(3,4) by (metis set_ConsD)
qed (simp add: assms(2))

definition graph_covers :: "machine \<Rightarrow> graph_content \<Rightarrow> string \<times> volume \<Rightarrow> bool" where
  "graph_covers m ct nv \<longleftrightarrow> (\<forall>b \<in> set (v_backups (snd nv)). covers_backup m ct b)"

lemma graph_covers_grows: "graph_covers m ct nv \<Longrightarrow> grows ct ct' \<Longrightarrow> graph_covers m ct' nv"
  using covers_backup_grows unfolding graph_covers_def by blast

lemma content_backups_covered:
  assumes "dates_valid m" "fold_result (content_backup m) ct bs = Inr ct'" "content_ok ct"
  shows "content_ok ct' \<and> grows ct ct' \<and> (\<forall>b \<in> set bs. covers_backup m ct' b)"
  by (rule fold_lasting [where I = content_ok and R = grows, OF _ grows_refl grows_trans covers_backup_grows assms(2,3)])
    (use content_backup_step assms(1) in blast)+

lemma content_backups_rows: "fold_result (content_backup m) ct bs = Inr ct' \<Longrightarrow> ct_rows ct' = ct_rows ct"
  by (induction bs arbitrary: ct) (auto simp: result_simps dest: content_backup_step(3))

lemma content_host_step:
  assumes "dates_valid m" "content_host m ct nh = Inr ct'" "content_ok ct"
  shows "content_ok ct' \<and> grows ct ct' \<and> (\<forall>nv \<in> set (selected_volumes (snd nh)). graph_covers m ct' nv)"
proof (rule fold_lasting [where I = content_ok and R = grows, OF _ grows_refl grows_trans graph_covers_grows
      assms(2) [unfolded content_host_def] assms(3)])
  fix ct ct' :: graph_content and nv :: "string \<times> volume"
  assume "(case nv of (_, v) \<Rightarrow> rbind (fold_result (content_backup m) ct (v_backups v)) (\<lambda>ct. Inr (ct\<lparr>ct_rows := ct_rows ct + 1\<rparr>))) = Inr ct'"
    and ok: "content_ok ct"
  then obtain ct1 where 1: "fold_result (content_backup m) ct (v_backups (snd nv)) = Inr ct1" "ct' = ct1\<lparr>ct_rows := ct_rows ct1 + 1\<rparr>"
    by (cases nv) (auto simp: result_simps)
  have same: "content_ok ct' = content_ok ct1" "covers ct' = covers ct1" by (simp_all add: 1(2) content_ok_def covers_def fun_eq_iff)
  then show "content_ok ct' \<and> grows ct ct' \<and> graph_covers m ct' nv"
    using content_backups_covered [OF assms(1) 1(1) ok] by (simp add: grows_def graph_covers_def covers_backup_def)
qed

lemma content_host_rows: "content_host m ct nh = Inr ct' \<Longrightarrow> ct_rows ct' = ct_rows ct + length (selected_volumes (snd nh))"
proof -
  have "fold_result (\<lambda>ct (_, v). rbind (fold_result (content_backup m) ct (v_backups v)) (\<lambda>ct. Inr (ct\<lparr>ct_rows := ct_rows ct + 1\<rparr>))) ct nvs = Inr ct' \<Longrightarrow>
      ct_rows ct' = ct_rows ct + length nvs" for nvs :: "(string \<times> volume) list"
  proof (induction nvs arbitrary: ct)
    case (Cons nv nvs)
    then obtain ct1 where "fold_result (content_backup m) ct (v_backups (snd nv)) = Inr ct1"
      "ct_rows ct' = ct_rows (ct1\<lparr>ct_rows := ct_rows ct1 + 1\<rparr>) + length nvs" by (cases nv) (auto simp: result_simps)
    then show ?case using content_backups_rows by fastforce
  qed simp
  then show "content_host m ct nh = Inr ct' \<Longrightarrow> ct_rows ct' = ct_rows ct + length (selected_volumes (snd nh))"
    unfolding content_host_def .
qed

definition graph_rows :: "(string \<times> host) list \<Rightarrow> nat" where
  "graph_rows hs = (\<Sum>(_, h) \<leftarrow> hs. length (selected_volumes h))"

lemma content_hosts_rows: "fold_result (content_host m) ct hs = Inr ct' \<Longrightarrow> ct_rows ct' = ct_rows ct + graph_rows hs"
  by (induction hs arbitrary: ct) (auto simp: result_simps graph_rows_def dest!: content_host_rows)

lemma content_covers:
  assumes "HistoryGraphContent m c = Inr ct" "dates_valid m"
  shows "content_ok ct" "\<And>nh nv b. nh \<in> set (graph_hosts c) \<Longrightarrow> nv \<in> set (selected_volumes (snd nh)) \<Longrightarrow> b \<in> set (v_backups (snd nv)) \<Longrightarrow> covers_backup m ct b"
    "ct_rows ct = graph_rows (graph_hosts c)"
proof -
  obtain epoch where e: "date_at m 0 = Inr epoch"
    "fold_result (content_host m) \<lparr>ct_earliest = Date INT_MAX 1 0, ct_latest = epoch, ct_rows = 0\<rparr> (graph_hosts c) = Inr ct"
    using assms(1) by (auto simp: HistoryGraphContent_def result_simps split: if_splits)
  have ok: "content_ok \<lparr>ct_earliest = Date INT_MAX 1 0, ct_latest = epoch, ct_rows = 0\<rparr>"
    using e(1) assms(2) by (simp add: content_ok_def dates_valid_def)
  have "content_ok ct \<and> grows \<lparr>ct_earliest = Date INT_MAX 1 0, ct_latest = epoch, ct_rows = 0\<rparr> ct \<and>
      (\<forall>nh \<in> set (graph_hosts c). \<forall>nv \<in> set (selected_volumes (snd nh)). graph_covers m ct nv)"
    by (rule fold_lasting [where I = content_ok and R = grows, OF _ grows_refl grows_trans _ e(2) ok])
      (use content_host_step [OF assms(2)] graph_covers_grows in blast)+
  then show "content_ok ct" "\<And>nh nv b. nh \<in> set (graph_hosts c) \<Longrightarrow> nv \<in> set (selected_volumes (snd nh)) \<Longrightarrow> b \<in> set (v_backups (snd nv)) \<Longrightarrow> covers_backup m ct b"
    unfolding graph_covers_def by blast+
  show "ct_rows ct = graph_rows (graph_hosts c)" using content_hosts_rows [OF e(2)] by simp
qed

text \<open>The place of a date between the earliest and the latest one.\<close>

lemma toNumber_mono:
  assumes "valid_date a" "valid_date b" "\<not> date_less b a"
  shows "date_toNumber a \<le> date_toNumber b"
proof (cases "a = b")
  case False
  then have "date_less a b" using assms(3) date_less_total by blast
  then have "day_count a < day_count b" using date_less_day_count assms(1,2) by blast
  then show ?thesis using date_toNumber_eq [OF assms(1)] date_toNumber_eq [OF assms(2)] by auto
qed simp

lemma covered_days:
  assumes "content_ok ct" "covers ct d" "valid_date d" "date_y d < INT_MAX" "0 \<le> c_backupIndicatorWidth c"
  shows "0 \<le> days_width c d (ct_earliest ct)"
    "days_width c d (ct_earliest ct) + c_backupIndicatorWidth c \<le> fst (content_extent c ct row_height)"
proof -
  have "ct_earliest ct \<noteq> Date INT_MAX 1 0" using assms(2,4) by (auto simp: covers_def date_less_def)
  then have v: "valid_date (ct_earliest ct)" "valid_date (ct_latest ct)" using assms(1) by (auto simp: content_ok_def)
  have n: "date_toNumber (ct_earliest ct) \<le> date_toNumber d" "date_toNumber d \<le> date_toNumber (ct_latest ct)"
    using assms(2) toNumber_mono v assms(3) by (auto simp: covers_def)
  have "\<not> date_less (ct_latest ct) (ct_earliest ct)"
    using assms(2) date_less_trans date_less_total unfolding covers_def by metis
  then have w: "fst (content_extent c ct row_height) = c_backupIndicatorWidth c * of_int (content_columns ct)" by (simp add: content_extent_def)
  show "0 \<le> days_width c d (ct_earliest ct)" using n(1) assms(5) by (simp add: days_width_def date_minus_def)
  have "of_int (date_minus d (ct_earliest ct)) * c_backupIndicatorWidth c + c_backupIndicatorWidth c =
      c_backupIndicatorWidth c * of_int (date_minus d (ct_earliest ct) + 1)" by (simp add: algebra_simps)
  also have "\<dots> \<le> c_backupIndicatorWidth c * of_int (content_columns ct)"
    using n(2) assms(5) by (intro mult_left_mono) (simp_all add: date_minus_def content_columns_def)
  finally show "days_width c d (ct_earliest ct) + c_backupIndicatorWidth c \<le> fst (content_extent c ct row_height)"
    by (simp add: w days_width_def)
qed

text \<open>The indicators of all devices fit a row.\<close>

lemma half_floor: "0 \<le> s \<Longrightarrow> 0 \<le> of_int \<lfloor>(s - 1) / 2\<rfloor> + (1 :: real) \<and> of_int \<lfloor>(s - 1) / 2\<rfloor> + 1 \<le> s"
  for s :: real
proof (cases "s < 1")
  assume s: "0 \<le> s"
  case True
  then have "\<lfloor>(s - 1) / 2\<rfloor> = -1" using s by (intro floor_unique) simp_all
  then show ?thesis using s by simp
next
  assume s: "0 \<le> s"
  case False
  then have "0 \<le> \<lfloor>(s - 1) / 2\<rfloor>" by simp
  moreover have "of_int \<lfloor>(s - 1) / 2\<rfloor> \<le> (s - 1) / 2" by (rule of_int_floor_le)
  ultimately show ?thesis using False by simp
qed

lemma indicator_in_row:
  assumes "indicator_height c rh = Inr ih" "0 \<le> c_verticalPadding c" "row < length (c_devices c)"
  shows "0 \<le> indicator_offset c rh ih row" "indicator_offset c rh ih row + ih \<le> rh + c_verticalPadding c" "0 < rh"
proof -
  define n where "n = real (length (c_devices c))"
  have n: "0 < n" using assms(3) by (cases "c_devices c") (simp_all add: n_def)
  have ih: "0 < rh" "ih = of_int \<lfloor>rh / n\<rfloor>" using assms(1) by (auto simp: indicator_height_def n_def split: if_splits)
  have "0 \<le> rh / n" using ih(1) n by simp
  then have ih0: "0 \<le> ih" by (simp add: ih(2))
  have "ih \<le> rh / n" by (simp add: ih(2))
  then have all: "ih * n \<le> rh" using n by (simp add: pos_le_divide_eq)
  define s where "s = rh + c_verticalPadding c - ih * n"
  have "0 \<le> s" using all assms(2) by (simp add: s_def)
  note base = half_floor [OF this]
  have e: "rh + c_verticalPadding c - 1 - ih * real (length (c_devices c)) = s - 1" by (simp add: s_def n_def)
  have offset: "indicator_offset c rh ih row = of_int \<lfloor>(s - 1) / 2\<rfloor> + 1 + real row * ih"
    unfolding indicator_offset_def e ..
  have "real row + 1 \<le> n" using assms(3) by (simp add: n_def)
  then have "(real row + 1) * ih \<le> n * ih" using ih0 by (rule mult_right_mono)
  then have rows: "real row * ih + ih \<le> ih * n" by (simp add: algebra_simps)
  show "0 \<le> indicator_offset c rh ih row" using base ih0 by (simp add: offset)
  show "indicator_offset c rh ih row + ih \<le> rh + c_verticalPadding c" using base rows by (simp add: offset s_def)
  show "0 < rh" by (fact ih(1))
qed

lemma device_row_less: "device_row c b = Inr row \<Longrightarrow> row < length (c_devices c)"
  by (auto simp: device_row_def dest!: map_of_SomeD set_zip_rightD split: option.splits)

text \<open>Drawings inside the first rows.\<close>

definition drawn_inside :: "conf \<Rightarrow> graph_content \<Rightarrow> real \<Rightarrow> real \<Rightarrow> nat \<Rightarrow> drawing \<Rightarrow> bool" where
  "drawn_inside c ct rh ih rows dr \<longleftrightarrow>
     (\<exists>color x y. dr = Fill color [(x, y, c_backupIndicatorWidth c, ih)] \<and>
        0 \<le> x \<and> x + c_backupIndicatorWidth c \<le> fst (content_extent c ct rh) \<and> 0 \<le> y \<and> y + ih \<le> row_top c rh rows)"

text \<open>What is known where the data is drawn.\<close>

definition drawable :: "machine \<Rightarrow> conf \<Rightarrow> graph_content \<Rightarrow> real \<Rightarrow> real \<Rightarrow> bool" where
  "drawable m c ct rh ih \<longleftrightarrow> dates_valid m \<and> content_ok ct \<and> indicator_height c rh = Inr ih \<and>
     0 \<le> c_verticalPadding c \<and> 0 \<le> c_backupIndicatorWidth c"

lemma drawn_inside_more:
  assumes "drawable m c ct rh ih" "drawn_inside c ct rh ih i dr" "i \<le> j"
  shows "drawn_inside c ct rh ih j dr"
proof -
  have "0 < rh" "0 \<le> c_verticalPadding c" using assms(1) by (auto simp: drawable_def indicator_height_def split: if_splits)
  then have "row_top c rh i \<le> row_top c rh j" using assms(3) unfolding row_top_def by (intro mult_right_mono) simp_all
  then show ?thesis using assms(2) by (fastforce simp: drawn_inside_def)
qed

lemma indicator_inside:
  assumes "drawable m c ct rh ih"
    and "backup_indicator m c ct rh ih 0 0 (row_top c rh i) b = Inr dr" "b_status b = COMPLETE" "covers_backup m ct b"
  shows "drawn_inside c ct rh ih (i + 1) dr"
proof -
  have known: "dates_valid m" "content_ok ct" "indicator_height c rh = Inr ih" "0 \<le> c_verticalPadding c" "0 \<le> c_backupIndicatorWidth c"
    using assms(1) by (simp_all add: drawable_def)
  obtain d row color where d: "date_at m (b_time b) = Inr d" "device_row c b = Inr row"
    "dr = Fill color [(days_width c d (ct_earliest ct), row_top c rh i + indicator_offset c rh ih row, c_backupIndicatorWidth c, ih)]"
    using assms(2) by (auto simp: backup_indicator_def result_simps)
  have "covers ct d" using assms(3,4) d(1) by (simp add: covers_backup_def)
  moreover have "valid_date d" "date_y d < INT_MAX" using known(1) d(1) by (auto simp: dates_valid_def)
  ultimately have x: "0 \<le> days_width c d (ct_earliest ct)"
    "days_width c d (ct_earliest ct) + c_backupIndicatorWidth c \<le> fst (content_extent c ct rh)"
    using covered_days [OF known(2) _ _ _ known(5)] by blast+
  note y = indicator_in_row [OF known(3,4) device_row_less [OF d(2)]]
  have "row_top c rh (i + 1) = row_top c rh i + (rh + c_verticalPadding c)" by (simp add: row_top_def algebra_simps)
  moreover have "0 \<le> row_top c rh i" using y(3) known(4) by (simp add: row_top_def)
  ultimately have "0 \<le> row_top c rh i + indicator_offset c rh ih row"
    "row_top c rh i + indicator_offset c rh ih row + ih \<le> row_top c rh (i + 1)" using y by linarith+
  then show ?thesis using x unfolding drawn_inside_def d(3) by blast
qed

lemma volume_inside:
  assumes "drawable m c ct rh ih" and "render_volume m c ct rh ih 0 0 (row_top c rh i, ds) v = Inr s" "list_all (drawn_inside c ct rh ih i) ds"
    "\<forall>b \<in> set (v_backups v). covers_backup m ct b"
  shows "\<exists>ds'. s = (row_top c rh (i + 1), ds') \<and> list_all (drawn_inside c ct rh ih (i + 1)) ds'"
proof -
  obtain ds' where ds': "fold_result (\<lambda>ds b. rbind (backup_indicator m c ct rh ih 0 0 (row_top c rh i) b) (\<lambda>r. Inr (ds @ [r]))) ds
      (filter (\<lambda>b. b_status b = COMPLETE) (v_backups v)) = Inr ds'" "s = (row_top c rh i + (rh + c_verticalPadding c), ds')"
    using assms(2) by (auto simp: render_volume_def result_simps)
  have "list_all (drawn_inside c ct rh ih (i + 1)) ds0 \<Longrightarrow>
      fold_result (\<lambda>ds b. rbind (backup_indicator m c ct rh ih 0 0 (row_top c rh i) b) (\<lambda>r. Inr (ds @ [r]))) ds0 bs = Inr ds' \<Longrightarrow>
      \<forall>b \<in> set bs. b_status b = COMPLETE \<and> covers_backup m ct b \<Longrightarrow> list_all (drawn_inside c ct rh ih (i + 1)) ds'" for ds0 bs
  proof (induction bs arbitrary: ds0)
    case (Cons b bs)
    obtain r where r: "backup_indicator m c ct rh ih 0 0 (row_top c rh i) b = Inr r"
      "fold_result (\<lambda>ds b. rbind (backup_indicator m c ct rh ih 0 0 (row_top c rh i) b) (\<lambda>r. Inr (ds @ [r]))) (ds0 @ [r]) bs = Inr ds'"
      using Cons.prems(2) by (auto simp: result_simps)
    have "drawn_inside c ct rh ih (i + 1) r" using indicator_inside [OF assms(1) r(1)] Cons.prems(3) by simp
    then show ?case using Cons.IH [OF _ r(2)] Cons.prems(1,3) by simp
  qed simp
  from this [OF _ ds'(1)] have "list_all (drawn_inside c ct rh ih (i + 1)) ds'"
    using assms(3,4) drawn_inside_more [OF assms(1), where i = i and j = "i + 1"] by (auto simp: list_all_iff)
  then show ?thesis using ds'(2) by (simp add: row_top_def algebra_simps)
qed

definition data_inside :: "conf \<Rightarrow> graph_content \<Rightarrow> real \<Rightarrow> real \<Rightarrow> nat \<Rightarrow> real \<times> drawing list \<Rightarrow> bool" where
  "data_inside c ct rh ih i s \<longleftrightarrow> fst s = row_top c rh i \<and> list_all (drawn_inside c ct rh ih i) (snd s)"

lemma volumes_inside:
  assumes "drawable m c ct rh ih" "data_inside c ct rh ih i s"
    and "fold_result (\<lambda>s (_, v). render_volume m c ct rh ih 0 0 s v) s nvs = Inr s'" "\<forall>nv \<in> set nvs. graph_covers m ct nv"
  shows "data_inside c ct rh ih (i + length nvs) s'"
  using assms(2-)
proof (induction nvs arbitrary: s i)
  case (Cons nv nvs)
  obtain y ds where s: "s = (y, ds)" by (cases s)
  obtain s1 where s1: "render_volume m c ct rh ih 0 0 s (snd nv) = Inr s1"
    "fold_result (\<lambda>s (_, v). render_volume m c ct rh ih 0 0 s v) s1 nvs = Inr s'"
    using Cons.prems(2) by (cases nv) (auto simp: result_simps)
  have "data_inside c ct rh ih (i + 1) s1"
    using volume_inside [OF assms(1), of i ds "snd nv" s1] s1(1) Cons.prems(1,3) by (auto simp: data_inside_def s graph_covers_def)
  from Cons.IH [OF this s1(2)] show ?case using Cons.prems(3) by simp
qed simp

lemma hosts_inside:
  assumes "drawable m c ct rh ih" "data_inside c ct rh ih i s"
    and "fold_result (\<lambda>s (_, h). fold_result (\<lambda>s (_, v). render_volume m c ct rh ih 0 0 s v) s (selected_volumes h)) s hs = Inr s'"
    and "\<forall>nh \<in> set hs. \<forall>nv \<in> set (selected_volumes (snd nh)). graph_covers m ct nv"
  shows "data_inside c ct rh ih (i + graph_rows hs) s'"
  using assms(2-)
proof (induction hs arbitrary: s i)
  case (Cons nh hs)
  obtain s1 where s1: "fold_result (\<lambda>s (_, v). render_volume m c ct rh ih 0 0 s v) s (selected_volumes (snd nh)) = Inr s1"
    "fold_result (\<lambda>s (_, h). fold_result (\<lambda>s (_, v). render_volume m c ct rh ih 0 0 s v) s (selected_volumes h)) s1 hs = Inr s'"
    using Cons.prems(2) by (cases nh) (auto simp: result_simps)
  have "data_inside c ct rh ih (i + length (selected_volumes (snd nh))) s1"
    using volumes_inside [OF assms(1) Cons.prems(1) s1(1)] Cons.prems(3) by simp
  from Cons.IH [OF this s1(2)] show ?case using Cons.prems(3) by (cases nh) (simp add: graph_rows_def add.assoc)
qed (simp add: graph_rows_def)

lemma lay_out_fields:
  "lay_out w c = Inr gl \<Longrightarrow> HistoryGraphContent (gw_machine w) c = Inr (gl_content gl) \<and>
     indicator_height c (gl_row_height gl) = Inr (gl_indicator_height gl)"
  by (auto simp: lay_out_def Let_def result_simps)

lemma sample_dates_valid: "dates_valid graph_machine"
  by (auto simp: dates_valid_def date_at_def date_of_time_def graph_machine_def valid_date_def monthLength_def mday_def INT_MAX_def Let_def split: if_splits)

text \<open>
  C31: Every backup that is drawn is a rectangle of the width and height of an indicator, inside the width of the content and
  inside the rows of the volumes; with the padding between the rows, since the indicators of a row reach into the padding
  below it.
\<close>

theorem backups_drawn_inside:
  assumes "lay_out w c = Inr gl" "dates_valid (gw_machine w)" "0 \<le> c_verticalPadding c" "0 \<le> c_backupIndicatorWidth c"
    and "render_data (gw_machine w) c (gl_content gl) (gl_row_height gl) (gl_indicator_height gl) 0 0 = Inr ds" "dr \<in> set ds"
  shows "\<exists>color x y. dr = Fill color [(x, y, c_backupIndicatorWidth c, gl_indicator_height gl)] \<and>
    0 \<le> x \<and> x + c_backupIndicatorWidth c \<le> fst (content_extent c (gl_content gl) (gl_row_height gl)) \<and>
    0 \<le> y \<and> y + gl_indicator_height gl \<le> real (ct_rows (gl_content gl)) * (gl_row_height gl + c_verticalPadding c)"
proof -
  let ?ct = "gl_content gl" and ?rh = "gl_row_height gl" and ?ih = "gl_indicator_height gl"
  note layout = lay_out_fields [OF assms(1)]
  note content = content_covers [OF conjunct1 [OF layout] assms(2)]
  have drawable: "drawable (gw_machine w) c ?ct ?rh ?ih" using layout content(1) assms(2-4) by (simp add: drawable_def)
  obtain y where "fold_result (\<lambda>s (_, h). fold_result (\<lambda>s (_, v). render_volume (gw_machine w) c ?ct ?rh ?ih 0 0 s v) s (selected_volumes h))
      (0, []) (graph_hosts c) = Inr (y, ds)" using assms(5) by (auto simp: render_data_def result_simps)
  from hosts_inside [OF drawable _ this, of 0] content(2)
  have "data_inside c ?ct ?rh ?ih (graph_rows (graph_hosts c)) (y, ds)"
    by (fastforce simp: data_inside_def row_top_def graph_covers_def)
  then have "drawn_inside c ?ct ?rh ?ih (ct_rows ?ct) dr" using assms(6) by (simp add: data_inside_def list_all_iff content(3))
  then show ?thesis by (simp add: drawn_inside_def row_top_def)
qed

lemma backups_drawn_inside_witness:
  "\<exists>gl ds. lay_out graph_sample graph_conf = Inr gl \<and>
     render_data graph_machine graph_conf (gl_content gl) (gl_row_height gl) (gl_indicator_height gl) 0 0 = Inr ds \<and> ds \<noteq> [] \<and>
     (\<exists>color x y. hd ds = Fill color [(x, y, c_backupIndicatorWidth graph_conf, gl_indicator_height gl)] \<and>
        0 \<le> x \<and> x + c_backupIndicatorWidth graph_conf \<le> fst (content_extent graph_conf (gl_content gl) (gl_row_height gl)))"
proof -
  obtain gl where gl: "lay_out graph_sample graph_conf = Inr gl" "gl_content gl = sample_content" "gl_row_height gl = 12" "gl_indicator_height gl = 12"
    using sample_lay_out by blast
  obtain color where ds: "render_data graph_machine graph_conf (gl_content gl) (gl_row_height gl) (gl_indicator_height gl) 0 0 = Inr [Fill color [(0, 1, 4, 12)]]"
    using sample_data by (auto simp: gl)
  have m: "gw_machine graph_sample = graph_machine" by (simp add: graph_sample_def)
  note inside = backups_drawn_inside [OF gl(1) sample_dates_valid [folded m] _ _ ds [folded m], of "Fill color [(0, 1, 4, 12)]"]
  show ?thesis by (rule exI [of _ gl], rule exI [of _ "[Fill color [(0, 1, 4, 12)]]"]) (use gl(1) ds inside in \<open>simp add: devices_sample m\<close>)
qed

end
