(* ===== verification/Events.thy ===== *)
theory Events
  imports OrdMap
begin

text \<open>
  The event loop (\<^verbatim>\<open>src/EventLoop.h\<close>, \<^verbatim>\<open>src/EventLoop.cc\<close>) with the times of \<^verbatim>\<open>src/Utils.h\<close>.  \<open>wait\<close> is a machine with a
  phase for each of its inner loops; a step is one iteration of the loop it is in.  What the system calls answer in a
  step, and what the reactors do, are arguments.
\<close>

section \<open>Times\<close>

record timespec =
  tv_sec :: int
  tv_nsec :: int

definition compare_timespec :: "timespec \<Rightarrow> timespec \<Rightarrow> int" where
  "compare_timespec a b =
     (if tv_sec a < tv_sec b then -1 else if tv_sec a > tv_sec b then 1
      else if tv_nsec a < tv_nsec b then -1 else if tv_nsec a > tv_nsec b then 1 else 0)"

definition timespec_less :: "timespec \<Rightarrow> timespec \<Rightarrow> bool" where
  "timespec_less a b \<longleftrightarrow> compare_timespec a b < 0"

definition timespec_ge :: "timespec \<Rightarrow> timespec \<Rightarrow> bool" where
  "timespec_ge a b \<longleftrightarrow> 0 \<le> compare_timespec a b"

definition timespec_minus :: "timespec \<Rightarrow> timespec \<Rightarrow> timespec" where
  "timespec_minus a b =
     (let s = tv_sec a - tv_sec b; n = tv_nsec a - tv_nsec b
      in if n < 0 then \<lparr>tv_sec = s - 1, tv_nsec = n + 1000000000\<rparr> else \<lparr>tv_sec = s, tv_nsec = n\<rparr>)"

section \<open>The loop and what it waits for\<close>

record 'r event_loop =
  el_readers :: "(int \<times> 'r) list"
  el_writers :: "(int \<times> 'r) list"
  el_timeouts :: "(timespec \<times> 'r) list"
  el_waiters :: "(int \<times> 'r) list"
  el_reconf :: bool

definition new_event_loop :: "'r event_loop" where
  "new_event_loop = \<lparr>el_readers = [], el_writers = [], el_timeouts = [], el_waiters = [], el_reconf = False\<rparr>"

definition whenReadable :: "int \<Rightarrow> 'r \<Rightarrow> 'r event_loop \<Rightarrow> 'r event_loop" where
  "whenReadable fd r e = e\<lparr>el_readers := om_put (<) fd r (el_readers e), el_reconf := True\<rparr>"

definition cancelRead :: "int \<Rightarrow> 'r event_loop \<Rightarrow> 'r event_loop" where
  "cancelRead fd e = e\<lparr>el_readers := om_erase (<) fd (el_readers e), el_reconf := True\<rparr>"

definition whenWritable :: "int \<Rightarrow> 'r \<Rightarrow> 'r event_loop \<Rightarrow> 'r event_loop" where
  "whenWritable fd r e = e\<lparr>el_writers := om_put (<) fd r (el_writers e), el_reconf := True\<rparr>"

definition cancelWrite :: "int \<Rightarrow> 'r event_loop \<Rightarrow> 'r event_loop" where
  "cancelWrite fd e = e\<lparr>el_writers := om_erase (<) fd (el_writers e), el_reconf := True\<rparr>"

text \<open>A \<open>multimap\<close> inserts after the entries that are not later.\<close>

definition whenTimeout :: "timespec \<Rightarrow> 'r \<Rightarrow> 'r event_loop \<Rightarrow> 'r event_loop" where
  "whenTimeout t r e =
     e\<lparr>el_timeouts := takeWhile (\<lambda>(t', _). \<not> timespec_less t t') (el_timeouts e) @ (t, r) #
          dropWhile (\<lambda>(t', _). \<not> timespec_less t t') (el_timeouts e), el_reconf := True\<rparr>"

definition whenWaited :: "int \<Rightarrow> 'r \<Rightarrow> 'r event_loop \<Rightarrow> 'r event_loop" where
  "whenWaited pid r e = e\<lparr>el_waiters := om_put (<) pid r (el_waiters e), el_reconf := True\<rparr>"

definition terminateSubprocesses :: "'r event_loop \<Rightarrow> int list" where
  "terminateSubprocesses e = map fst (el_waiters e)"

section \<open>Waiting\<close>

text \<open>What the reactors do, with a state \<open>'s\<close> of their own.\<close>

record ('r, 's) reactors =
  onReadable :: "'r \<Rightarrow> int \<Rightarrow> string \<Rightarrow> 's \<times> 'r event_loop \<Rightarrow> ('s \<times> 'r event_loop) result"
  onReadError :: "'r \<Rightarrow> int \<Rightarrow> int \<Rightarrow> 's \<times> 'r event_loop \<Rightarrow> ('s \<times> 'r event_loop) result"
  onWritable :: "'r \<Rightarrow> int \<Rightarrow> 's \<times> 'r event_loop \<Rightarrow> ('s \<times> 'r event_loop) result"
  onTimeout :: "'r \<Rightarrow> timespec \<Rightarrow> 's \<times> 'r event_loop \<Rightarrow> ('s \<times> 'r event_loop) result"
  onWait :: "'r \<Rightarrow> int \<Rightarrow> int \<Rightarrow> 's \<times> 'r event_loop \<Rightarrow> ('s \<times> 'r event_loop) result"

text \<open>A reactor that is asked for what it does not override.\<close>

definition default_reactors :: "('r, 's) reactors" where
  "default_reactors =
     \<lparr>onReadable = (\<lambda>_ _ _ _. Inl (LogicError ''Reactor::onReadable'')),
      onReadError = (\<lambda>_ _ _ _. Inl (LogicError ''Reactor::onReadError'')),
      onWritable = (\<lambda>_ _ _. Inl (LogicError ''Reactor::onWritable'')),
      onTimeout = (\<lambda>_ _ _. Inl (LogicError ''Reactor::onTimeout'')),
      onWait = (\<lambda>_ _ _ _. Inl (LogicError ''Reactor::onWait''))\<rparr>"

text \<open>
  The answers of the system in a step: the clock, the descriptors that are ready (no descriptor when \<open>pselect\<close> timed out),
  \<open>read\<close>, and \<open>wait4\<close> with the status of a process that is gone.  An error is its number.
\<close>

record answers =
  an_now :: timespec
  an_select :: "int + int list \<times> int list"
  an_read :: "int \<Rightarrow> int + string"
  an_wait :: "int \<Rightarrow> int + int option"

definition EINTR :: int where "EINTR = 4"
definition EAGAIN :: int where "EAGAIN = 11"

text \<open>
  Where \<open>wait\<close> is: at the test of its loop; in the loop over readers, with those that are left, or over writers; in the loop
  over processes, at the next one.
\<close>

datatype 'r phase =
    AtTest
  | AtReaders "int list" "int list" "(int \<times> 'r) list"
  | AtWriters "int list" "(int \<times> 'r) list"
  | AtWaiters "int option"

type_synonym ('r, 's) loop_state = "'r phase \<times> 's \<times> 'r event_loop"

definition waiting :: "bool \<Rightarrow> 'r event_loop \<Rightarrow> bool" where
  "waiting wait_for_timeouts e \<longleftrightarrow>
     el_readers e \<noteq> [] \<or> el_writers e \<noteq> [] \<or> el_waiters e \<noteq> [] \<or> wait_for_timeouts \<and> el_timeouts e \<noteq> []"

text \<open>How long \<open>pselect\<close> may take; without a time, for ever.\<close>

definition select_timeout :: "timespec \<Rightarrow> 'r event_loop \<Rightarrow> timespec option" where
  "select_timeout t0 e =
     (let ts = (case el_timeouts e of
                  [] \<Rightarrow> None
                | (first, _) # _ \<Rightarrow> (let t = timespec_minus first t0 in Some (if 10 \<le> tv_sec t then t\<lparr>tv_sec := 10\<rparr> else t)));
          poll = \<lparr>tv_sec = 0, tv_nsec = 100000000\<rparr>
      in if el_waiters e \<noteq> []
         then case ts of
                None \<Rightarrow> Some poll
              | Some t \<Rightarrow> Some (if 0 < tv_sec t \<or> 100000000 < tv_nsec t then poll else t)
         else ts)"

text \<open>The entry of a map after a key.\<close>

definition next_key :: "int \<Rightarrow> (int \<times> 'r) list \<Rightarrow> int option" where
  "next_key p m = (case filter (\<lambda>q. p < q) (map fst m) of [] \<Rightarrow> None | q # _ \<Rightarrow> Some q)"

definition first_waiter :: "'r event_loop \<Rightarrow> 'r phase" where
  "first_waiter e = AtWaiters (map_option fst (find (\<lambda>_. True) (el_waiters e)))"

definition poll_step :: "answers \<Rightarrow> 's \<times> 'r event_loop \<Rightarrow> ('r, 's) loop_state result" where
  "poll_step k se =
     (let (s, e) = se
      in case an_select k of
           Inl errno \<Rightarrow> if errno \<noteq> EINTR then Inl (IOError ''pselect'' errno) else Inr (first_waiter e, s, e)
         | Inr (rd, wr) \<Rightarrow>
             if rd = [] \<and> wr = [] then Inr (first_waiter e, s, e)
             else Inr (AtReaders rd wr (el_readers e), s, e\<lparr>el_reconf := False\<rparr>))"

definition test_step :: "('r, 's) reactors \<Rightarrow> answers \<Rightarrow> 's \<times> 'r event_loop \<Rightarrow> ('r, 's) loop_state result" where
  "test_step h k se =
     (let (s, e) = se
      in case el_timeouts e of
           (first, r) # later \<Rightarrow>
             if timespec_ge (an_now k) first
             then rbind (onTimeout h r (an_now k) (s, e\<lparr>el_timeouts := later\<rparr>)) (\<lambda>se. Inr (AtTest, se))
             else poll_step k se
         | [] \<Rightarrow> poll_step k se)"

text \<open>After a callback that changed the loop, the iterators are not used again.\<close>

definition reader_step ::
    "('r, 's) reactors \<Rightarrow> answers \<Rightarrow> int list \<Rightarrow> int list \<Rightarrow> int \<times> 'r \<Rightarrow> (int \<times> 'r) list \<Rightarrow> 's \<times> 'r event_loop \<Rightarrow>
     ('r, 's) loop_state result" where
  "reader_step h k rd wr fr rest se =
     (let (fd, r) = fr;
          goes_on = (\<lambda>se. Inr (if el_reconf (snd se) then AtWriters wr (el_writers (snd se)) else AtReaders rd wr rest, se))
      in if fd \<notin> set rd then Inr (AtReaders rd wr rest, se)
         else case an_read k fd of
                Inl errno \<Rightarrow>
                  if errno = EINTR \<or> errno = EAGAIN then Inr (AtReaders rd wr rest, se)
                  else rbind (onReadError h r fd errno se) goes_on
              | Inr s \<Rightarrow> rbind (onReadable h r fd s se) goes_on)"

definition writer_step ::
    "('r, 's) reactors \<Rightarrow> int list \<Rightarrow> int \<times> 'r \<Rightarrow> (int \<times> 'r) list \<Rightarrow> 's \<times> 'r event_loop \<Rightarrow> ('r, 's) loop_state result" where
  "writer_step h wr fr rest se =
     (let (fd, r) = fr
      in if fd \<notin> set wr then Inr (AtWriters wr rest, se)
         else rbind (onWritable h r fd se) (\<lambda>se.
                Inr (if el_reconf (snd se) then first_waiter (snd se) else AtWriters wr rest, se)))"

text \<open>
  \<open>wait4\<close> that is interrupted gives a process \<open>-1\<close>, which the code takes for one that is gone, with a status that is not
  set.
\<close>

definition waiter_step :: "('r, 's) reactors \<Rightarrow> answers \<Rightarrow> int \<Rightarrow> 's \<times> 'r event_loop \<Rightarrow> ('r, 's) loop_state result" where
  "waiter_step h k pid se =
     (let (s, e) = se
      in case an_wait k pid of
           Inl errno \<Rightarrow> if errno \<noteq> EINTR then Inl (SystemError ''wait4'') else Inl UndefinedBehaviour
         | Inr None \<Rightarrow> Inr (AtWaiters (next_key pid (el_waiters e)), s, e)
         | Inr (Some status) \<Rightarrow>
             (case om_find (<) pid (el_waiters e) of
                None \<Rightarrow> Inl UndefinedBehaviour
              | Some r \<Rightarrow>
                  rbind (onWait h r pid status (s, e\<lparr>el_waiters := om_erase (<) pid (el_waiters e)\<rparr>)) (\<lambda>se.
                    Inr (AtWaiters (next_key pid (el_waiters e)), se))))"

definition loop_step :: "('r, 's) reactors \<Rightarrow> answers \<Rightarrow> ('r, 's) loop_state \<Rightarrow> ('r, 's) loop_state result" where
  "loop_step h k st =
     (case st of
        (AtTest, se) \<Rightarrow> test_step h k se
      | (AtReaders rd wr [], se) \<Rightarrow> Inr (AtWriters wr (el_writers (snd se)), se)
      | (AtReaders rd wr (fr # rest), se) \<Rightarrow> reader_step h k rd wr fr rest se
      | (AtWriters wr [], se) \<Rightarrow> Inr (first_waiter (snd se), se)
      | (AtWriters wr (fr # rest), se) \<Rightarrow> writer_step h wr fr rest se
      | (AtWaiters None, se) \<Rightarrow> Inr (AtTest, se)
      | (AtWaiters (Some pid), se) \<Rightarrow> waiter_step h k pid se)"

definition loop_finished :: "bool \<Rightarrow> ('r, 's) loop_state \<Rightarrow> bool" where
  "loop_finished wait_for_timeouts st \<longleftrightarrow> fst st = AtTest \<and> \<not> waiting wait_for_timeouts (snd (snd st))"

text \<open>\<open>wait\<close> along a list of answers: \<open>None\<close> when it has not returned at their end.\<close>

fun event_wait :: "bool \<Rightarrow> ('r, 's) reactors \<Rightarrow> answers list \<Rightarrow> ('r, 's) loop_state \<Rightarrow> ('r, 's) loop_state result option" where
  "event_wait wt h [] st = (if loop_finished wt st then Some (Inr st) else None)"
| "event_wait wt h (k # ks) st =
     (if loop_finished wt st then Some (Inr st)
      else case loop_step h k st of Inl e \<Rightarrow> Some (Inl e) | Inr st \<Rightarrow> event_wait wt h ks st)"

text \<open>A process that is waited for is looked at again after a tenth of a second at the latest.\<close>

lemma select_polls:
  "el_waiters e \<noteq> [] \<Longrightarrow> \<exists>t. select_timeout t0 e = Some t \<and> (tv_sec t < 0 \<or> tv_sec t = 0 \<and> tv_nsec t \<le> 100000000)"
  by (auto simp: select_timeout_def Let_def split: list.split)

end
