(* ===== verification/Processes.thy ===== *)
theory Processes
  imports Events Subproc
begin

text \<open>
  Child processes (\<^verbatim>\<open>src/Subprocess.h\<close>, \<^verbatim>\<open>src/Subprocess.cc\<close>): the file descriptors of the child and of the parent, the
  capture of output, and the process as a reactor of the event loop.  The descriptors of a process are a map to what
  they refer to; \<open>dup2\<close>, \<open>close\<close>, \<open>pipe\<close> and \<open>fork\<close> act on it as POSIX says.
\<close>

section \<open>File descriptors\<close>

datatype endpoint = PipeRead nat | PipeWrite nat | DevNull | OtherFile nat

type_synonym fd_table = "int \<Rightarrow> endpoint option"

definition sys_dup2 :: "int \<Rightarrow> int \<Rightarrow> fd_table \<Rightarrow> fd_table option" where
  "sys_dup2 old new t = (case t old of None \<Rightarrow> None | Some x \<Rightarrow> Some (t(new \<mapsto> x)))"

definition sys_close :: "int \<Rightarrow> fd_table \<Rightarrow> fd_table option" where
  "sys_close fd t = (case t fd of None \<Rightarrow> None | Some _ \<Rightarrow> Some (t(fd := None)))"

definition need :: "err \<Rightarrow> 'a option \<Rightarrow> 'a result" where
  "need e r = (case r of None \<Rightarrow> Inl e | Some x \<Rightarrow> Inr x)"

section \<open>The process\<close>

record child_fd =
  cf_child :: int
  cf_pipe :: int
  cf_close :: int
  cf_other :: int

text \<open>A captured descriptor appends to a string; strings are named by their addresses.\<close>

record subprocess =
  sp_name :: string
  sp_cmd :: "string list"
  sp_env :: "(string \<times> string) list"
  sp_fds :: "child_fd list"
  sp_captures :: "(int \<times> nat) list"
  sp_timeout :: int
  sp_pid :: int
  sp_status :: int
  sp_reported :: bool
  sp_reportNeeded :: bool

definition new_subprocess :: "string \<Rightarrow> string list \<Rightarrow> subprocess" where
  "new_subprocess n cmd =
     \<lparr>sp_name = n, sp_cmd = cmd, sp_env = [], sp_fds = [], sp_captures = [], sp_timeout = 0, sp_pid = -1, sp_status = -1,
      sp_reported = False, sp_reportNeeded = False\<rparr>"

definition setCommand :: "string list \<Rightarrow> subprocess \<Rightarrow> subprocess" where
  "setCommand cmd sp = sp\<lparr>sp_cmd := cmd\<rparr>"

definition sp_setenv :: "string \<Rightarrow> string \<Rightarrow> subprocess \<Rightarrow> subprocess" where
  "sp_setenv n v sp = sp\<lparr>sp_env := om_put (<) n v (sp_env sp)\<rparr>"

definition setTimeout :: "int \<Rightarrow> subprocess \<Rightarrow> subprocess" where
  "setTimeout seconds sp = sp\<lparr>sp_timeout := seconds\<rparr>"

definition addChildFD :: "int \<Rightarrow> int \<Rightarrow> int \<Rightarrow> int \<Rightarrow> subprocess \<Rightarrow> subprocess" where
  "addChildFD childFD pipeFD closeFD otherChildFD sp =
     sp\<lparr>sp_fds := sp_fds sp @ [\<lparr>cf_child = childFD, cf_pipe = pipeFD, cf_close = closeFD, cf_other = otherChildFD\<rparr>]\<rparr>"

definition nullChildFD :: "int \<Rightarrow> subprocess \<Rightarrow> subprocess" where
  "nullChildFD childFD sp = addChildFD childFD (-1) (-1) (-1) sp"

text \<open>The parent: its process, the captured strings, its descriptors, the signals it sends and the lines it prints.\<close>

record parent =
  pa_sub :: subprocess
  pa_strings :: "nat \<Rightarrow> string"
  pa_fds :: fd_table
  pa_killed :: "(int \<times> int) list"
  pa_output :: "string list"

text \<open>\<open>pipe\<close> answers with an error number, or with two descriptors and the name of the new pipe.\<close>

definition open_pipe :: "int \<Rightarrow> int \<Rightarrow> nat \<Rightarrow> fd_table \<Rightarrow> fd_table" where
  "open_pipe p0 p1 n t = t(p0 \<mapsto> PipeRead n, p1 \<mapsto> PipeWrite n)"

definition capture :: "int + int \<times> int \<times> nat \<Rightarrow> int \<Rightarrow> nat \<Rightarrow> int \<Rightarrow> parent \<Rightarrow> parent result" where
  "capture pipe childFD s otherChildFD pa =
     (case pipe of
        Inl errno \<Rightarrow> Inl (IOError ''creating pipe'' errno)
      | Inr (p0, p1, n) \<Rightarrow>
          (let sp = addChildFD childFD p1 p0 otherChildFD (pa_sub pa)
           in Inr (pa\<lparr>pa_fds := open_pipe p0 p1 n (pa_fds pa), pa_sub := sp\<lparr>sp_captures := om_put (<) p0 s (sp_captures sp)\<rparr>\<rparr>)))"

text \<open>How the program prepares the descriptors of its children.\<close>

definition subprocessIO :: "int + int \<times> int \<times> nat \<Rightarrow> nat \<Rightarrow> bool \<Rightarrow> parent \<Rightarrow> parent result" where
  "subprocessIO pipe s outputToo pa = capture pipe 2 s (if outputToo then 1 else -1) pa"

definition pre_volume_hook_io ::
    "int + int \<times> int \<times> nat \<Rightarrow> int + int \<times> int \<times> nat \<Rightarrow> nat \<Rightarrow> nat \<Rightarrow> parent \<Rightarrow> parent result" where
  "pre_volume_hook_io pipe pipe' out hookLog pa = rbind (capture pipe 1 out (-1) pa) (capture pipe' 2 hookLog 0)"

definition post_volume_hook_io :: "int + int \<times> int \<times> nat \<Rightarrow> nat \<Rightarrow> parent \<Rightarrow> parent result" where
  "post_volume_hook_io pipe hookLog pa = capture pipe 2 hookLog 1 pa"

definition invoke_io :: "(int + int \<times> int \<times> nat) \<Rightarrow> nat option \<Rightarrow> parent \<Rightarrow> parent result" where
  "invoke_io pipe captured pa =
     (case captured of
        Some s \<Rightarrow> capture pipe 1 s (-1) pa
      | None \<Rightarrow> Inr (pa\<lparr>pa_sub := nullChildFD 2 (nullChildFD 1 (pa_sub pa))\<rparr>))"

datatype pipe_direction = ReadFromPipe | WriteToPipe

text \<open>A pipe to or from a command that the parent itself reads or writes (\<open>popen\<close>); the result is its descriptor.\<close>

definition popen_io :: "int + int \<times> int \<times> nat \<Rightarrow> pipe_direction \<Rightarrow> parent \<Rightarrow> (int \<times> parent) result" where
  "popen_io pipe d pa =
     (case pipe of
        Inl errno \<Rightarrow> Inl (IOError (''creating pipe for '' @ hd (sp_cmd (pa_sub pa))) errno)
      | Inr (p0, p1, n) \<Rightarrow>
          (let pa = pa\<lparr>pa_fds := open_pipe p0 p1 n (pa_fds pa)\<rparr>
           in Inr (case d of
                     ReadFromPipe \<Rightarrow> (p0, pa\<lparr>pa_sub := addChildFD 1 p1 p0 (-1) (pa_sub pa)\<rparr>)
                   | WriteToPipe \<Rightarrow> (p1, pa\<lparr>pa_sub := addChildFD 0 p0 p1 (-1) (pa_sub pa)\<rparr>))))"

section \<open>Starting it\<close>

definition sp_report :: "parent \<Rightarrow> parent" where
  "sp_report pa =
     (let sp = pa_sub pa
      in if sp_reported sp then pa
         else pa\<lparr>pa_output := pa_output pa @
                (if sp_env sp \<noteq> [] then ''> # environment for next command'' # map (\<lambda>(n, v). ''> '' @ n @ ''='' @ v) (sp_env sp) else []) @
                [''> '' @ concat (map (\<lambda>(i, a). (if i \<noteq> 0 then [SP] else []) @ a) (enumerate 0 (sp_cmd sp)))],
              pa_sub := sp\<lparr>sp_reported := True\<rparr>\<rparr>)"

definition reporting :: "bool \<Rightarrow> bool \<Rightarrow> parent \<Rightarrow> parent" where
  "reporting reportCommand reportNow pa =
     (let pa = pa\<lparr>pa_sub := (pa_sub pa)\<lparr>sp_reportNeeded := reportCommand\<rparr>\<rparr>
      in if reportCommand \<and> reportNow then sp_report pa else pa)"

text \<open>
  The child, until it executes the command.  A call that fails prints its name and ends the child with status 255, which is
  an error here.  \<open>null\<close> is the descriptor that opening \<open>/dev/null\<close> gives, if it can be opened.
\<close>

definition dup_step :: "int option \<Rightarrow> fd_table \<times> int option \<Rightarrow> child_fd \<Rightarrow> (fd_table \<times> int option) result" where
  "dup_step null s c =
     (let (t, nullfd) = s
      in rbind (if 0 \<le> cf_pipe c then rbind (need (SystemError ''dup2'') (sys_dup2 (cf_pipe c) (cf_child c) t)) (\<lambda>t. Inr (t, nullfd))
                else rbind (case nullfd of
                              Some n \<Rightarrow> Inr (t, n)
                            | None \<Rightarrow> rbind (need (SystemError ''/dev/null'') null) (\<lambda>n. Inr (t(n \<mapsto> DevNull), n)))
                       (\<lambda>(t, n). rbind (need (SystemError ''dup2'') (sys_dup2 n (cf_child c) t)) (\<lambda>t. Inr (t, Some n))))
           (\<lambda>(t, nullfd).
              if 0 \<le> cf_other c then rbind (need (SystemError ''dup2'') (sys_dup2 (cf_child c) (cf_other c) t)) (\<lambda>t. Inr (t, nullfd))
              else Inr (t, nullfd)))"

definition forget_pipe :: "int \<Rightarrow> child_fd \<Rightarrow> child_fd" where
  "forget_pipe p c = (if cf_pipe c = p then c\<lparr>cf_pipe := -1\<rparr> else c)"

function close_leftovers :: "child_fd list \<Rightarrow> fd_table \<Rightarrow> fd_table result" where
  "close_leftovers [] t = Inr t"
| "close_leftovers (c # cs) t =
     rbind (if 0 \<le> cf_pipe c then need (SystemError ''close'') (sys_close (cf_pipe c) t) else Inr t) (\<lambda>t.
     rbind (if 0 \<le> cf_close c then need (SystemError ''close'') (sys_close (cf_close c) t) else Inr t) (\<lambda>t.
       close_leftovers (if 0 \<le> cf_pipe c then map (forget_pipe (cf_pipe c)) cs else cs) t))"
  by pat_completeness auto
termination by (relation "measure (length \<circ> fst)") auto

definition child_table :: "int option \<Rightarrow> child_fd list \<Rightarrow> fd_table \<Rightarrow> fd_table result" where
  "child_table null fds t =
     rbind (fold_result (dup_step null) (t, None) fds) (\<lambda>(t, nullfd).
     rbind (close_leftovers fds t) (\<lambda>t.
       case nullfd of None \<Rightarrow> Inr t | Some n \<Rightarrow> need (SystemError ''close'') (sys_close n t)))"

text \<open>The parent closes the child's ends; the list that it keeps is changed by that.\<close>

function close_pipes :: "string \<Rightarrow> child_fd list \<Rightarrow> fd_table \<Rightarrow> (fd_table \<times> child_fd list) result" where
  "close_pipes n [] t = Inr (t, [])"
| "close_pipes n (c # cs) t =
     rbind (if 0 \<le> cf_pipe c then need (IOError (''closing FD for '' @ n) 9) (sys_close (cf_pipe c) t) else Inr t) (\<lambda>t.
     rbind (close_pipes n (if 0 \<le> cf_pipe c then map (forget_pipe (cf_pipe c)) cs else cs) t) (\<lambda>(t, cs). Inr (t, c # cs)))"
  by pat_completeness auto
termination by (relation "measure (\<lambda>(n, cs, t). length cs)") auto

text \<open>
  \<open>launch\<close> in the parent; \<open>fork\<close> is the identifier of the child, or \<open>None\<close>.  The second component is what the child has
  when it executes the command.
\<close>

definition launch :: "int option \<Rightarrow> int option \<Rightarrow> parent \<Rightarrow> (parent \<times> fd_table result) result" where
  "launch fork null pa =
     (if 0 \<le> sp_pid (pa_sub pa) then Inl (LogicError ''Subprocess::launch but already running'')
      else let pa = (if sp_reportNeeded (pa_sub pa) then sp_report pa else pa); sp = pa_sub pa
           in if sp_cmd sp = [] then Inl (LogicError ''Subprocess::launch with no command'')
              else case fork of
                     None \<Rightarrow> Inl (SystemError (''creating subprocess for '' @ hd (sp_cmd sp)))
                   | Some pid \<Rightarrow>
                       rbind (close_pipes (hd (sp_cmd sp)) (sp_fds sp) (pa_fds pa)) (\<lambda>(t, fds).
                         Inr (pa\<lparr>pa_fds := t, pa_sub := sp\<lparr>sp_pid := pid, sp_fds := fds\<rparr>\<rparr>, child_table null (sp_fds sp) (pa_fds pa))))"

section \<open>The process as a reactor\<close>

definition TIME_MAX :: int where "TIME_MAX = 2 ^ 63 - 1"

definition sp_setup :: "timespec \<Rightarrow> 'r \<Rightarrow> subprocess \<Rightarrow> 'r event_loop \<Rightarrow> 'r event_loop result" where
  "sp_setup t0 r sp e =
     (if sp_pid sp < 0 then Inl (LogicError ''Subprocess::setup but not running'')
      else let e = foldl (\<lambda>e (fd, _). whenReadable fd r e) e (sp_captures sp);
               e = (if 0 < sp_timeout sp
                    then whenTimeout (t0\<lparr>tv_sec := (if tv_sec t0 \<le> TIME_MAX - sp_timeout sp then tv_sec t0 + sp_timeout sp
                           else TIME_MAX)\<rparr>) r e
                    else e)
           in Inr (whenWaited (sp_pid sp) r e))"

definition SIGKILL :: int where "SIGKILL = 9"

text \<open>\<open>captures[fd]\<close> of a descriptor that is not there is a null pointer.  The result of \<open>close\<close> is not used.\<close>

definition sp_onReadable :: "int \<Rightarrow> string \<Rightarrow> parent \<times> 'r event_loop \<Rightarrow> (parent \<times> 'r event_loop) result" where
  "sp_onReadable fd data pe =
     (let (pa, e) = pe; sp = pa_sub pa
      in if data \<noteq> []
         then case om_find (<) fd (sp_captures sp) of
                None \<Rightarrow> Inl UndefinedBehaviour
              | Some s \<Rightarrow> Inr (pa\<lparr>pa_strings := (pa_strings pa)(s := pa_strings pa s @ data)\<rparr>, e)
         else Inr (pa\<lparr>pa_fds := (pa_fds pa)(fd := None), pa_sub := sp\<lparr>sp_captures := om_erase (<) fd (sp_captures sp)\<rparr>\<rparr>,
                   cancelRead fd e))"

definition sp_onTimeout :: "parent \<times> 'r event_loop \<Rightarrow> (parent \<times> 'r event_loop) result" where
  "sp_onTimeout pe =
     (let (pa, e) = pe; sp = pa_sub pa
      in Inr (pa\<lparr>pa_output := pa_output pa @ [hd (sp_cmd sp) @ '' exceeded timeout of '' @ show_int (sp_timeout sp) @ '' seconds''],
                 pa_killed := (if 0 < sp_pid sp then pa_killed pa @ [(sp_pid sp, SIGKILL)] else pa_killed pa)\<rparr>, e))"

text \<open>The action list is told by \<open>completed\<close>; without an action list that does nothing.\<close>

definition sp_onWait ::
    "(bool \<Rightarrow> parent \<times> 'r event_loop \<Rightarrow> (parent \<times> 'r event_loop) result) \<Rightarrow> int \<Rightarrow> parent \<times> 'r event_loop \<Rightarrow> (parent \<times> 'r event_loop) result" where
  "sp_onWait completed status pe =
     (let (pa, e) = pe
      in completed (status = 0) (pa\<lparr>pa_sub := (pa_sub pa)\<lparr>sp_status := status, sp_pid := -1\<rparr>\<rparr>, e))"

definition sp_reactor :: "(bool \<Rightarrow> parent \<times> 'r event_loop \<Rightarrow> (parent \<times> 'r event_loop) result) \<Rightarrow> ('r, parent) reactors" where
  "sp_reactor completed =
     default_reactors\<lparr>onReadable := (\<lambda>_. sp_onReadable), onReadError := (\<lambda>_ _ errno _. Inl (IOError ''reading pipe'' errno)),
       onTimeout := (\<lambda>_ _. sp_onTimeout), onWait := (\<lambda>_ _. sp_onWait completed)\<rparr>"

text \<open>\<open>wait\<close> with an event loop of its own.\<close>

definition sp_wait :: "wait_behavior list \<Rightarrow> timespec \<Rightarrow> answers list \<Rightarrow> parent \<Rightarrow> (int \<times> parent) result option" where
  "sp_wait behavior t0 ks pa =
     (case sp_setup t0 () (pa_sub pa) new_event_loop of
        Inl err \<Rightarrow> Some (Inl err)
      | Inr e \<Rightarrow>
          map_option (\<lambda>r. rbind r (\<lambda>(_, pa, e).
              let pa = pa\<lparr>pa_sub := (pa_sub pa)\<lparr>sp_pid := -1\<rparr>\<rparr>
              in rbind (subprocess_wait behavior (hd (sp_cmd (pa_sub pa))) (sp_status (pa_sub pa))) (\<lambda>status. Inr (status, pa))))
            (event_wait False (sp_reactor (\<lambda>_. Inr)) ks (AtTest, pa, e)))"

definition runAndWait ::
    "wait_behavior list \<Rightarrow> int option \<Rightarrow> int option \<Rightarrow> timespec \<Rightarrow> answers list \<Rightarrow> parent \<Rightarrow> (int \<times> parent) result option" where
  "runAndWait behavior fork null t0 ks pa =
     (case launch fork null pa of
        Inl err \<Rightarrow> Some (Inl err)
      | Inr (pa, _) \<Rightarrow> sp_wait behavior t0 ks pa)"

text \<open>\<open>go\<close>, with the event loop of an action list.\<close>

definition sp_go :: "int option \<Rightarrow> int option \<Rightarrow> timespec \<Rightarrow> 'r \<Rightarrow> parent \<times> 'r event_loop \<Rightarrow> (parent \<times> 'r event_loop) result" where
  "sp_go fork null t0 r pe =
     (let (pa, e) = pe
      in rbind (launch fork null pa) (\<lambda>(pa, _). rbind (sp_setup t0 r (pa_sub pa) e) (\<lambda>e. Inr (pa, e))))"

end
