(* ===== verification/ProcessFds.thy ===== *)
theory ProcessFds
  imports Processes
begin

text \<open>
  What a child process finds in its descriptors, and what is left in the parent.
\<close>

section \<open>A small process\<close>

definition sample_fds :: fd_table where
  "sample_fds = (\<lambda>_. None)(0 \<mapsto> OtherFile 0, 1 \<mapsto> OtherFile 1, 2 \<mapsto> OtherFile 2)"

definition sample_parent :: "(int \<times> nat) list \<Rightarrow> int \<Rightarrow> parent" where
  "sample_parent c pid =
     \<lparr>pa_sub = (new_subprocess ''x'' [''true''])\<lparr>sp_captures := c, sp_pid := pid\<rparr>, pa_strings = (\<lambda>_. []), pa_fds = sample_fds, pa_killed = [],
      pa_output = []\<rparr>"

definition sample_prepared :: parent where
  "sample_prepared = (case capture (Inr (3, 4, 0)) 1 0 (-1) (sample_parent [] (-1)) of
     Inr pa \<Rightarrow> pa\<lparr>pa_sub := nullChildFD 2 (pa_sub pa)\<rparr> | Inl _ \<Rightarrow> sample_parent [] (-1))"

section \<open>The descriptors of the child\<close>

definition targets :: "child_fd \<Rightarrow> int list" where
  "targets c = cf_child c # (if 0 \<le> cf_other c then [cf_other c] else [])"

definition pipe_ends :: "child_fd list \<Rightarrow> int set" where
  "pipe_ends cs = {p. 0 \<le> p \<and> p \<in> cf_pipe ` set cs}"

definition other_ends :: "child_fd list \<Rightarrow> int list" where
  "other_ends cs = filter (\<lambda>p. 0 \<le> p) (map cf_close cs)"

text \<open>
  The descriptors of the pipes are open, and are not among the ones that the child is to have; so is the one for
  \<^verbatim>\<open>/dev/null\<close>.
\<close>

definition child_fds_ok :: "int option \<Rightarrow> child_fd list \<Rightarrow> fd_table \<Rightarrow> bool" where
  "child_fds_ok null cs t \<longleftrightarrow>
     distinct (concat (map targets cs)) \<and> distinct (other_ends cs) \<and> pipe_ends cs \<inter> set (other_ends cs) = {} \<and>
     (\<forall>p \<in> pipe_ends cs \<union> set (other_ends cs). t p \<noteq> None \<and> p \<notin> set (concat (map targets cs))) \<and>
     ((\<exists>c \<in> set cs. cf_pipe c < 0) \<longrightarrow> (\<exists>n. null = Some n \<and> t n = None \<and> n \<notin> set (concat (map targets cs))))"

text \<open>What a descriptor of the child refers to: its pipe, \<^verbatim>\<open>/dev/null\<close>, nothing, or what the parent has there.\<close>

definition child_view :: "child_fd list \<Rightarrow> fd_table \<Rightarrow> fd_table" where
  "child_view cs t fd =
     (case find (\<lambda>c. fd \<in> set (targets c)) cs of
        Some c \<Rightarrow> if 0 \<le> cf_pipe c then t (cf_pipe c) else Some DevNull
      | None \<Rightarrow> if fd \<in> pipe_ends cs \<union> set (other_ends cs) then None else t fd)"

lemma ends_simps [simp]:
  "pipe_ends [] = {}" "pipe_ends (c # cs) = (if 0 \<le> cf_pipe c then insert (cf_pipe c) (pipe_ends cs) else pipe_ends cs)"
  "other_ends [] = []" "other_ends (c # cs) = (if 0 \<le> cf_close c then [cf_close c] else []) @ other_ends cs"
  by (auto simp: pipe_ends_def other_ends_def)

lemma forget_ends:
  "0 \<le> p \<Longrightarrow> pipe_ends (map (forget_pipe p) cs) = pipe_ends cs - {p}" "other_ends (map (forget_pipe p) cs) = other_ends cs"
  by (induction cs) (auto simp: forget_pipe_def)

lemma close_leftovers_closes:
  assumes "distinct (other_ends cs)" "pipe_ends cs \<inter> set (other_ends cs) = {}" "\<forall>p \<in> pipe_ends cs \<union> set (other_ends cs). t p \<noteq> None"
  shows "close_leftovers cs t = Inr (\<lambda>fd. if fd \<in> pipe_ends cs \<union> set (other_ends cs) then None else t fd)"
  using assms
proof (induction cs t rule: close_leftovers.induct)
  case (2 c cs t)
  define t1 where "t1 = (if 0 \<le> cf_pipe c then t(cf_pipe c := None) else t)"
  define t2 where "t2 = (if 0 \<le> cf_close c then t1(cf_close c := None) else t1)"
  define cs' where "cs' = (if 0 \<le> cf_pipe c then map (forget_pipe (cf_pipe c)) cs else cs)"
  have 1: "(if 0 \<le> cf_pipe c then need (SystemError ''close'') (sys_close (cf_pipe c) t) else Inr t) = Inr t1"
    using "2.prems"(3) by (auto simp: t1_def need_def sys_close_def)
  have 2: "(if 0 \<le> cf_close c then need (SystemError ''close'') (sys_close (cf_close c) t1) else Inr t1) = Inr t2"
    using "2.prems"(2,3) by (auto simp: t1_def t2_def need_def sys_close_def)
  have ends: "pipe_ends cs' = (if 0 \<le> cf_pipe c then pipe_ends cs - {cf_pipe c} else pipe_ends cs)" "other_ends cs' = other_ends cs"
    by (simp_all add: cs'_def forget_ends)
  have "close_leftovers cs' t2 = Inr (\<lambda>fd. if fd \<in> pipe_ends cs' \<union> set (other_ends cs') then None else t2 fd)"
    by (rule "2.IH" [folded cs'_def]) (use "2.prems" ends in \<open>auto simp: t1_def t2_def split: if_splits\<close>)
  moreover have "close_leftovers (c # cs) t = close_leftovers cs' t2" using 1 2 by (simp add: cs'_def)
  ultimately show ?case using ends by (auto simp: t1_def t2_def fun_eq_iff)
qed simp

lemma dup_step_view:
  assumes "0 \<le> cf_pipe c \<Longrightarrow> t (cf_pipe c) \<noteq> None" "cf_pipe c < 0 \<Longrightarrow> nf \<noteq> None \<or> null \<noteq> None" "\<And>n. nf = Some n \<Longrightarrow> t n = Some DevNull"
  defines "nf1 \<equiv> if nf = None \<and> cf_pipe c < 0 then null else nf"
  shows "dup_step null (t, nf) c =
    Inr (\<lambda>fd. if fd \<in> set (targets c) then (if 0 \<le> cf_pipe c then t (cf_pipe c) else Some DevNull)
              else if nf1 = Some fd then Some DevNull else t fd, nf1)"
proof (cases "0 \<le> cf_pipe c")
  case True
  then obtain x where "t (cf_pipe c) = Some x" using assms(1) by blast
  then show ?thesis using True by (simp add: dup_step_def need_def sys_dup2_def targets_def nf1_def fun_eq_iff assms(3))
next
  case False
  then obtain n where n: "nf1 = Some n" using assms(2) by (cases nf) (auto simp: nf1_def)
  have "dup_step null (t, nf) c = dup_step null (t(n \<mapsto> DevNull), Some n) c"
    using False n assms(3) by (cases nf) (simp_all add: dup_step_def need_def nf1_def fun_upd_idem)
  also have "\<dots> = Inr (\<lambda>fd. if fd \<in> set (targets c) then Some DevNull else (t(n \<mapsto> DevNull)) fd, Some n)"
    using False by (simp add: dup_step_def need_def sys_dup2_def targets_def fun_eq_iff)
  also have "(\<lambda>fd. if fd \<in> set (targets c) then Some DevNull else (t(n \<mapsto> DevNull)) fd) =
      (\<lambda>fd. if fd \<in> set (targets c) then Some DevNull else if Some n = Some fd then Some DevNull else t fd)" by (simp add: fun_eq_iff)
  finally show ?thesis unfolding n using False by simp
qed

definition null_used :: "int option \<Rightarrow> int option \<Rightarrow> child_fd list \<Rightarrow> int option" where
  "null_used null nf cs = (if nf = None \<and> (\<exists>c \<in> set cs. cf_pipe c < 0) then null else nf)"

lemma dups_view:
  assumes "distinct (concat (map targets cs))" "\<forall>p \<in> pipe_ends cs. t p \<noteq> None \<and> p \<notin> set (concat (map targets cs))"
    and "\<forall>c \<in> set cs. cf_pipe c < 0 \<longrightarrow> nf \<noteq> None \<or> null \<noteq> None" "\<And>n. nf = Some n \<Longrightarrow> t n = Some DevNull"
    and "\<And>n. null_used null nf cs = Some n \<Longrightarrow> n \<notin> set (concat (map targets cs)) \<and> n \<notin> pipe_ends cs"
  shows "fold_result (dup_step null) (t, nf) cs =
    Inr (\<lambda>fd. case find (\<lambda>c. fd \<in> set (targets c)) cs of
               Some c \<Rightarrow> if 0 \<le> cf_pipe c then t (cf_pipe c) else Some DevNull
             | None \<Rightarrow> if null_used null nf cs = Some fd then Some DevNull else t fd, null_used null nf cs)"
  using assms
proof (induction cs arbitrary: t nf)
  case Nil
  then show ?case by (auto simp: null_used_def fun_eq_iff)
next
  case (Cons c cs)
  define nf1 where "nf1 = (if nf = None \<and> cf_pipe c < 0 then null else nf)"
  define t1 where "t1 = (\<lambda>fd. if fd \<in> set (targets c) then (if 0 \<le> cf_pipe c then t (cf_pipe c) else Some DevNull)
              else if nf1 = Some fd then Some DevNull else t fd)"
  have step: "dup_step null (t, nf) c = Inr (t1, nf1)"
    unfolding t1_def nf1_def by (rule dup_step_view) (use Cons.prems(2,3,4) in auto)
  have used: "null_used null nf1 cs = null_used null nf (c # cs)" by (auto simp: null_used_def nf1_def)
  have nf1: "n \<notin> set (targets c) \<and> n \<notin> set (concat (map targets cs)) \<and> n \<notin> pipe_ends cs" if "nf1 = Some n" for n
    using Cons.prems(5) [of n] that used by (auto simp: null_used_def split: if_splits)
  have same: "t1 p = t p" if "p \<in> pipe_ends cs" for p
    using that Cons.prems(2) nf1 by (auto simp: t1_def)
  have source: "t1 (cf_pipe d) = t (cf_pipe d)" if "d \<in> set cs" "0 \<le> cf_pipe d" for d
    by (rule same) (use that in \<open>simp add: pipe_ends_def\<close>)
  have "fold_result (dup_step null) (t1, nf1) cs =
    Inr (\<lambda>fd. case find (\<lambda>c. fd \<in> set (targets c)) cs of
               Some c \<Rightarrow> if 0 \<le> cf_pipe c then t1 (cf_pipe c) else Some DevNull
             | None \<Rightarrow> if null_used null nf1 cs = Some fd then Some DevNull else t1 fd, null_used null nf1 cs)"
  proof (rule Cons.IH)
    show "\<forall>p \<in> pipe_ends cs. t1 p \<noteq> None \<and> p \<notin> set (concat (map targets cs))"
      using Cons.prems(2) same by simp
    show "t1 n = Some DevNull" if "nf1 = Some n" for n using that nf1 [OF that] by (simp add: t1_def)
    show "n \<notin> set (concat (map targets cs)) \<and> n \<notin> pipe_ends cs" if "null_used null nf1 cs = Some n" for n
      using Cons.prems(5) [of n] that used by (auto split: if_splits)
    show "distinct (concat (map targets cs))" using Cons.prems(1) by simp
    show "\<forall>c \<in> set cs. cf_pipe c < 0 \<longrightarrow> nf1 \<noteq> None \<or> null \<noteq> None" using Cons.prems(3) by (auto simp: nf1_def)
  qed
  moreover have "(case find (\<lambda>c. fd \<in> set (targets c)) cs of
               Some c \<Rightarrow> if 0 \<le> cf_pipe c then t1 (cf_pipe c) else Some DevNull
             | None \<Rightarrow> if null_used null nf1 cs = Some fd then Some DevNull else t1 fd) =
      (case find (\<lambda>c. fd \<in> set (targets c)) (c # cs) of
               Some c \<Rightarrow> if 0 \<le> cf_pipe c then t (cf_pipe c) else Some DevNull
             | None \<Rightarrow> if null_used null nf (c # cs) = Some fd then Some DevNull else t fd)" for fd
  proof (cases "fd \<in> set (targets c)")
    case True
    then have "find (\<lambda>c. fd \<in> set (targets c)) cs = None" using Cons.prems(1) by (auto simp: find_None_iff)
    moreover have "null_used null nf (c # cs) \<noteq> Some fd" using Cons.prems(5) [of fd] True by auto
    ultimately show ?thesis using True used by (simp add: t1_def)
  next
    case False
    have kept: "nf1 = Some fd \<Longrightarrow> null_used null nf1 cs = Some fd" by (simp add: null_used_def)
    show ?thesis
    proof (cases "find (\<lambda>c. fd \<in> set (targets c)) cs")
      case None
      then show ?thesis using False used kept by (auto simp: t1_def)
    next
      case (Some d)
      then have "d \<in> set cs" by (auto simp: find_Some_iff)
      then show ?thesis using False Some source by simp
    qed
  qed
  ultimately show ?case using step used by simp
qed

lemma concat_map_find: "find (\<lambda>c. x \<in> set (f c)) cs = None \<longleftrightarrow> x \<notin> set (concat (map f cs))"
  by (auto simp: find_None_iff)

lemma child_table_view:
  assumes "child_fds_ok null cs t"
  shows "child_table null cs t = Inr (child_view cs t)"
proof -
  define nf where "nf = null_used null None cs"
  define t1 where "t1 = (\<lambda>fd. case find (\<lambda>c. fd \<in> set (targets c)) cs of
               Some c \<Rightarrow> if 0 \<le> cf_pipe c then t (cf_pipe c) else Some DevNull
             | None \<Rightarrow> if nf = Some fd then Some DevNull else t fd)"
  have ok: "distinct (concat (map targets cs))" "distinct (other_ends cs)" "pipe_ends cs \<inter> set (other_ends cs) = {}"
    "\<forall>p \<in> pipe_ends cs \<union> set (other_ends cs). t p \<noteq> None \<and> p \<notin> set (concat (map targets cs))"
    using assms by (auto simp: child_fds_ok_def)
  have nf: "t n = None \<and> n \<notin> set (concat (map targets cs))" if "nf = Some n" for n
    using that assms by (auto simp: nf_def null_used_def child_fds_ok_def split: if_splits)
  have dups: "fold_result (dup_step null) (t, None) cs = Inr (t1, nf)"
    unfolding t1_def nf_def
  proof (rule dups_view)
    show "\<forall>c \<in> set cs. cf_pipe c < 0 \<longrightarrow> None \<noteq> None \<or> null \<noteq> None" using assms by (auto simp: child_fds_ok_def)
    show "n \<notin> set (concat (map targets cs)) \<and> n \<notin> pipe_ends cs" if "null_used null None cs = Some n" for n
      using nf [of n] that ok(4) unfolding nf_def by (metis UnI1)
  qed (use ok(1,4) in auto)
  have kept: "t1 p = t p" if "p \<in> pipe_ends cs \<union> set (other_ends cs)" for p
  proof -
    have "find (\<lambda>c. p \<in> set (targets c)) cs = None" using ok(4) that by (auto simp: find_None_iff)
    moreover have "nf \<noteq> Some p" using nf [of p] ok(4) that by metis
    ultimately show ?thesis by (simp add: t1_def)
  qed
  have closed: "close_leftovers cs t1 = Inr (\<lambda>fd. if fd \<in> pipe_ends cs \<union> set (other_ends cs) then None else t1 fd)"
    by (rule close_leftovers_closes) (use ok kept in auto)
  have last: "(case nf of None \<Rightarrow> Inr t2 | Some n \<Rightarrow> need (SystemError ''close'') (sys_close n t2)) = Inr (\<lambda>fd. if nf = Some fd then None else t2 fd)"
    if "\<And>n. nf = Some n \<Longrightarrow> t2 n \<noteq> None" for t2 :: fd_table
    using that by (cases nf) (auto simp: need_def sys_close_def fun_eq_iff)
  have "find (\<lambda>c. n \<in> set (targets c)) cs = None" if "nf = Some n" for n
    by (rule concat_map_find [THEN iffD2]) (use nf [OF that] in simp)
  moreover have "n \<notin> pipe_ends cs \<union> set (other_ends cs)" if "nf = Some n" for n
    using nf [OF that] ok(4) by metis
  ultimately have "(if n \<in> pipe_ends cs \<union> set (other_ends cs) then None else t1 n) \<noteq> None" if "nf = Some n" for n
    using that by (simp add: t1_def)
  note nulled = last [of "\<lambda>fd. if fd \<in> pipe_ends cs \<union> set (other_ends cs) then None else t1 fd", OF this]
  have "child_table null cs t = Inr (\<lambda>fd. if nf = Some fd then None else
      if fd \<in> pipe_ends cs \<union> set (other_ends cs) then None else t1 fd)"
    unfolding child_table_def dups rbind_simps prod.case closed by (rule nulled)
  moreover have "\<dots> = Inr (child_view cs t)"
  proof (rule arg_cong [of _ _ Inr], rule ext)
    fix fd
    show "(if nf = Some fd then None else if fd \<in> pipe_ends cs \<union> set (other_ends cs) then None else t1 fd) = child_view cs t fd"
    proof (cases "find (\<lambda>c. fd \<in> set (targets c)) cs")
      case None
      then show ?thesis using nf [of fd] by (auto simp: child_view_def t1_def)
    next
      case (Some c)
      then have here: "fd \<in> set (concat (map targets cs))" using concat_map_find [of fd targets cs] by auto
      then have "fd \<notin> pipe_ends cs \<union> set (other_ends cs)" "nf \<noteq> Some fd" using nf [of fd] ok(4) by metis+
      then show ?thesis using Some by (simp add: child_view_def t1_def)
    qed
  qed
  ultimately show ?thesis by simp
qed

lemma close_pipes_closes:
  assumes "\<forall>p \<in> pipe_ends cs. t p \<noteq> None"
  shows "\<exists>cs'. close_pipes n cs t = Inr (\<lambda>fd. if fd \<in> pipe_ends cs then None else t fd, cs')"
  using assms
proof (induction n cs t rule: close_pipes.induct)
  case (2 n c cs t)
  define t1 where "t1 = (if 0 \<le> cf_pipe c then t(cf_pipe c := None) else t)"
  define cs' where "cs' = (if 0 \<le> cf_pipe c then map (forget_pipe (cf_pipe c)) cs else cs)"
  have 1: "(if 0 \<le> cf_pipe c then need (IOError (''closing FD for '' @ n) 9) (sys_close (cf_pipe c) t) else Inr t) = Inr t1"
    using "2.prems" by (auto simp: t1_def need_def sys_close_def)
  have ends: "pipe_ends cs' = (if 0 \<le> cf_pipe c then pipe_ends cs - {cf_pipe c} else pipe_ends cs)" by (simp add: cs'_def forget_ends)
  have "\<forall>p \<in> pipe_ends cs'. t1 p \<noteq> None" using "2.prems" ends by (auto simp: t1_def split: if_splits)
  from "2.IH" [folded cs'_def, OF this] obtain r where r: "close_pipes n cs' t1 = Inr (\<lambda>fd. if fd \<in> pipe_ends cs' then None else t1 fd, r)" by blast
  have "close_pipes n (c # cs) t = Inr (\<lambda>fd. if fd \<in> pipe_ends cs' then None else t1 fd, c # r)"
    using 1 r by (simp add: cs'_def)
  moreover have "(\<lambda>fd. if fd \<in> pipe_ends cs' then None else t1 fd) = (\<lambda>fd. if fd \<in> pipe_ends (c # cs) then None else t fd)"
    using ends by (auto simp: t1_def fun_eq_iff)
  ultimately show ?case by auto
qed auto

lemma launched:
  assumes "child_fds_ok null (sp_fds (pa_sub pa)) (pa_fds pa)" "sp_pid (pa_sub pa) < 0" "sp_cmd (pa_sub pa) \<noteq> []"
  shows "\<exists>pa'. launch (Some pid) null pa = Inr (pa', Inr (child_view (sp_fds (pa_sub pa)) (pa_fds pa))) \<and>
    pa_fds pa' = (\<lambda>fd. if fd \<in> pipe_ends (sp_fds (pa_sub pa)) then None else pa_fds pa fd) \<and> sp_pid (pa_sub pa') = pid"
proof -
  let ?cs = "sp_fds (pa_sub pa)"
  have "\<forall>p \<in> pipe_ends ?cs. pa_fds pa p \<noteq> None" using assms(1) unfolding child_fds_ok_def by (metis UnI1)
  from close_pipes_closes [OF this, of "hd (sp_cmd (pa_sub pa))"] obtain cs' where
    "close_pipes (hd (sp_cmd (pa_sub pa))) ?cs (pa_fds pa) = Inr (\<lambda>fd. if fd \<in> pipe_ends ?cs then None else pa_fds pa fd, cs')" by blast
  then show ?thesis using assms(2,3) child_table_view [OF assms(1)] by (auto simp: launch_def sp_report_def Let_def)
qed

text \<open>
  C18: A child that is started with its descriptors prepared has, when its command is executed, the pipes and
  \<^verbatim>\<open>/dev/null\<close> exactly where they are to be, no other descriptor of these pipes, and everything else from its parent; the
  parent has only its own ends left.
\<close>

theorem child_descriptors:
  assumes "child_fds_ok null (sp_fds (pa_sub pa)) (pa_fds pa)" "sp_pid (pa_sub pa) < 0" "sp_cmd (pa_sub pa) \<noteq> []"
  shows "\<exists>pa'. launch (Some pid) null pa = Inr (pa', Inr (child_view (sp_fds (pa_sub pa)) (pa_fds pa))) \<and>
    pa_fds pa' = (\<lambda>fd. if fd \<in> pipe_ends (sp_fds (pa_sub pa)) then None else pa_fds pa fd) \<and> sp_pid (pa_sub pa') = pid"
  using assms by (rule launched)

lemma child_descriptors_witness:
  "\<exists>pa'. launch (Some 7) (Some 5) sample_prepared = Inr (pa', Inr (child_view (sp_fds (pa_sub sample_prepared)) (pa_fds sample_prepared)))"
proof -
  have "child_fds_ok (Some 5) (sp_fds (pa_sub sample_prepared)) (pa_fds sample_prepared)" "sp_pid (pa_sub sample_prepared) < 0"
    "sp_cmd (pa_sub sample_prepared) \<noteq> []"
    by (simp_all add: sample_prepared_def sample_parent_def sample_fds_def capture_def addChildFD_def nullChildFD_def open_pipe_def
        new_subprocess_def child_fds_ok_def targets_def)
  from child_descriptors [OF this, of 7] show ?thesis by blast
qed

text \<open>
  The pre-volume hook has the two pipes as its standard output and error, no other descriptor of them, and the pipe of
  its standard error as its standard input too; the parent keeps the two ends that it reads.
\<close>

theorem pre_volume_hook_descriptors:
  assumes "distinct [a, b, c, d]" "3 \<le> a" "3 \<le> b" "3 \<le> c" "3 \<le> d" "pa_fds pa a = None" "pa_fds pa b = None" "pa_fds pa c = None" "pa_fds pa d = None"
    and "sp_fds (pa_sub pa) = []" "sp_pid (pa_sub pa) < 0" "sp_cmd (pa_sub pa) \<noteq> []"
  shows "\<exists>pa1 pa2. pre_volume_hook_io (Inr (a, b, n)) (Inr (c, d, m)) s s' pa = Inr pa1 \<and>
    launch (Some pid) null pa1 = Inr (pa2, Inr ((pa_fds pa)(0 \<mapsto> PipeWrite m, 1 \<mapsto> PipeWrite n, 2 \<mapsto> PipeWrite m))) \<and>
    pa_fds pa2 = (pa_fds pa)(a \<mapsto> PipeRead n, c \<mapsto> PipeRead m)"
proof -
  obtain pa1 where io: "pre_volume_hook_io (Inr (a, b, n)) (Inr (c, d, m)) s s' pa = Inr pa1"
    and fds: "sp_fds (pa_sub pa1) = [\<lparr>cf_child = 1, cf_pipe = b, cf_close = a, cf_other = -1\<rparr>, \<lparr>cf_child = 2, cf_pipe = d, cf_close = c, cf_other = 0\<rparr>]"
    and t: "pa_fds pa1 = (pa_fds pa)(a \<mapsto> PipeRead n, b \<mapsto> PipeWrite n, c \<mapsto> PipeRead m, d \<mapsto> PipeWrite m)"
    and more: "sp_pid (pa_sub pa1) < 0" "sp_cmd (pa_sub pa1) \<noteq> []"
    using assms(10-12) by (simp add: pre_volume_hook_io_def capture_def addChildFD_def open_pipe_def Let_def)
  have ok: "child_fds_ok null (sp_fds (pa_sub pa1)) (pa_fds pa1)"
    using assms(1-5) by (auto simp: child_fds_ok_def fds t targets_def)
  have view: "child_view (sp_fds (pa_sub pa1)) (pa_fds pa1) = (pa_fds pa)(0 \<mapsto> PipeWrite m, 1 \<mapsto> PipeWrite n, 2 \<mapsto> PipeWrite m)"
    using assms(1-9) by (auto simp: child_view_def fds t targets_def fun_eq_iff)
  have left: "(\<lambda>fd. if fd \<in> pipe_ends (sp_fds (pa_sub pa1)) then None else pa_fds pa1 fd) = (pa_fds pa)(a \<mapsto> PipeRead n, c \<mapsto> PipeRead m)"
    using assms(1-9) by (auto simp: fds t fun_eq_iff)
  show ?thesis using io launched [OF ok more, of pid] unfolding view left by blast
qed

lemma pre_volume_hook_descriptors_witness:
  "\<exists>pa1 pa2 child. pre_volume_hook_io (Inr (3, 4, 0)) (Inr (5, 6, 1)) 0 1 (sample_parent [] (-1)) = Inr pa1 \<and>
     launch (Some 7) None pa1 = Inr (pa2, Inr child) \<and> child 0 = Some (PipeWrite 1) \<and> child 6 = None"
proof -
  have "\<exists>pa1 pa2. pre_volume_hook_io (Inr (3, 4, 0)) (Inr (5, 6, 1)) 0 1 (sample_parent [] (-1)) = Inr pa1 \<and>
    launch (Some 7) None pa1 = Inr (pa2, Inr ((pa_fds (sample_parent [] (-1)))(0 \<mapsto> PipeWrite 1, 1 \<mapsto> PipeWrite 0, 2 \<mapsto> PipeWrite 1))) \<and>
    pa_fds pa2 = (pa_fds (sample_parent [] (-1)))(3 \<mapsto> PipeRead 0, 5 \<mapsto> PipeRead 1)"
    by (rule pre_volume_hook_descriptors) (simp_all add: sample_parent_def sample_fds_def new_subprocess_def)
  then show ?thesis by (force simp: sample_parent_def sample_fds_def)
qed

end
