(* ===== verification/ProcessOutput.thy ===== *)
theory ProcessOutput
  imports ProcessFds
begin

text \<open>
  What a child writes is captured to its end, and the parent's \<open>wait\<close> comes to an end once the child is gone.
\<close>

section \<open>The captured output\<close>

interpretation int_order: key_order "(<) :: int \<Rightarrow> int \<Rightarrow> bool" "\<lambda>_. True"
  by unfold_locales auto

lemma om_erase_filter: "int_order.sorted_keys m \<Longrightarrow> om_erase (<) (k::int) m = filter (\<lambda>(k', _). k' \<noteq> k) m"
proof (induction m)
  case (Cons p m)
  obtain k' v where p: "p = (k', v)" by force
  have "k \<le> k' \<Longrightarrow> filter (\<lambda>(k', _). k' \<noteq> k) m = m" by (rule filter_True) (use Cons.prems in \<open>auto simp: p\<close>)
  then show ?case using Cons by (auto simp: p)
qed simp

lemma om_erase_shorter: "int_order.sorted_keys m \<Longrightarrow> k \<in> fst ` set m \<Longrightarrow> length (om_erase (<) (k::int) m) < length m"
  by (auto simp: om_erase_filter intro!: length_filter_less)

text \<open>What is read from a descriptor while the loop runs.\<close>

definition step_reads :: "int \<Rightarrow> answers \<Rightarrow> ('r, 's) loop_state \<Rightarrow> string list" where
  "step_reads fd k st =
     (case st of
        (AtReaders rd wr ((fd', r) # rest), se) \<Rightarrow>
          if fd' = fd \<and> fd \<in> set rd then (case an_read k fd of Inl errno \<Rightarrow> [] | Inr s \<Rightarrow> [s]) else []
      | _ \<Rightarrow> [])"

fun loop_reads :: "('r, 's) reactors \<Rightarrow> int \<Rightarrow> answers list \<Rightarrow> ('r, 's) loop_state \<Rightarrow> string list" where
  "loop_reads h fd [] st = []"
| "loop_reads h fd (k # ks) st =
     (if loop_finished False st then []
      else step_reads fd k st @ (case loop_step h k st of Inl e \<Rightarrow> [] | Inr st \<Rightarrow> loop_reads h fd ks st))"

abbreviation alone :: "(unit, parent) reactors" where
  "alone \<equiv> sp_reactor (\<lambda>_. Inr)"

definition phase_ok :: "unit phase \<Rightarrow> unit event_loop \<Rightarrow> bool" where
  "phase_ok ph e \<longleftrightarrow>
     (case ph of
        AtReaders rd wr rest \<Rightarrow> set rest \<subseteq> set (el_readers e) \<and> length rest \<le> length (el_readers e)
      | AtWriters wr rest \<Rightarrow> rest = []
      | AtWaiters (Some p) \<Rightarrow> el_waiters e = [(p, ())]
      | _ \<Rightarrow> True)"

text \<open>
  The state after \<open>R\<close> has been read: a descriptor is read until its end, and its data are in its string.
\<close>

definition strings_hold :: "(int \<times> nat) list \<Rightarrow> (nat \<Rightarrow> string) \<Rightarrow> (int \<Rightarrow> string list) \<Rightarrow> parent \<Rightarrow> bool" where
  "strings_hold C S R pa \<longleftrightarrow>
     (\<forall>(fd, s) \<in> set C. pa_strings pa s = S s @ concat (R fd) \<and>
        ([] \<in> set (R fd) \<longrightarrow> pa_fds pa fd = None \<and> (\<exists>chunks. R fd = chunks @ [[]] \<and> [] \<notin> set chunks))) \<and>
     (\<forall>s. s \<notin> snd ` set C \<longrightarrow> pa_strings pa s = S s)"

definition capture_inv ::
    "(int \<Rightarrow> bool) \<Rightarrow> int \<Rightarrow> (int \<times> nat) list \<Rightarrow> (nat \<Rightarrow> string) \<Rightarrow> (int \<Rightarrow> string list) \<Rightarrow> (unit, parent) loop_state \<Rightarrow> bool" where
  "capture_inv P pid C S R st \<longleftrightarrow>
     (case st of (ph, pa, e) \<Rightarrow>
        sp_captures (pa_sub pa) = filter (\<lambda>(fd, _). [] \<notin> set (R fd)) C \<and>
        el_readers e = map (\<lambda>(fd, _). (fd, ())) (sp_captures (pa_sub pa)) \<and> el_writers e = [] \<and> strings_hold C S R pa \<and>
        (el_waiters e = [(pid, ())] \<and> sp_pid (pa_sub pa) = pid \<or>
         el_waiters e = [] \<and> sp_pid (pa_sub pa) = -1 \<and> P (sp_status (pa_sub pa))) \<and>
        length (el_timeouts e) \<le> 1 \<and> phase_ok ph e)"

lemma reader_sorted: "int_order.sorted_keys C \<Longrightarrow> int_order.sorted_keys (map (\<lambda>(fd, _). (fd, ())) (filter Q C))"
  by (induction C) auto

lemma sorted_filter: "int_order.sorted_keys C \<Longrightarrow> int_order.sorted_keys (filter Q C)"
  by (induction C) auto

lemma strings_hold_data:
  assumes "strings_hold C S R pa" "(fd, s) \<in> set C" "distinct (map fst C)" "distinct (map snd C)" "[] \<notin> set (R fd)" "data \<noteq> []"
  shows "strings_hold C S (\<lambda>x. R x @ (if x = fd then [data] else [])) (pa\<lparr>pa_strings := (pa_strings pa)(s := pa_strings pa s @ data)\<rparr>)"
proof -
  have same: "x = fd \<longleftrightarrow> s' = s" if "(x, s') \<in> set C" for x s'
    using that assms(2-4) by (metis eq_key_imp_eq_value distinct_map inj_onD prod.sel)
  have 1: "pa_strings pa s' = S s' @ concat (R x)" "[] \<in> set (R x) \<Longrightarrow> pa_fds pa x = None \<and> (\<exists>chunks. R x = chunks @ [[]] \<and> [] \<notin> set chunks)"
    if "(x, s') \<in> set C" for x s' using assms(1) that by (auto simp: strings_hold_def)
  have 2: "pa_strings pa s' = S s'" if "s' \<notin> snd ` set C" for s' using assms(1) that by (auto simp: strings_hold_def)
  have 3: "s \<in> snd ` set C" using assms(2) by force
  show ?thesis unfolding strings_hold_def
  proof (intro conjI ballI allI impI)
    fix c assume c: "c \<in> set C"
    obtain x s' where x: "c = (x, s')" by force
    show "case c of (x, s') \<Rightarrow> pa_strings (pa\<lparr>pa_strings := (pa_strings pa)(s := pa_strings pa s @ data)\<rparr>) s' = S s' @ concat (R x @ (if x = fd then [data] else [])) \<and>
        ([] \<in> set (R x @ (if x = fd then [data] else [])) \<longrightarrow> pa_fds (pa\<lparr>pa_strings := (pa_strings pa)(s := pa_strings pa s @ data)\<rparr>) x = None \<and>
          (\<exists>chunks. R x @ (if x = fd then [data] else []) = chunks @ [[]] \<and> [] \<notin> set chunks))"
      using 1 [of x s'] same [of x s'] c assms(5,6) by (auto simp: x)
  next
    fix s' assume "s' \<notin> snd ` set C"
    then show "pa_strings (pa\<lparr>pa_strings := (pa_strings pa)(s := pa_strings pa s @ data)\<rparr>) s' = S s'" using 2 3 by auto
  qed
qed

lemma strings_hold_end:
  assumes "strings_hold C S R pa" "[] \<notin> set (R fd)"
  shows "strings_hold C S (\<lambda>x. R x @ (if x = fd then [[]] else [])) (pa\<lparr>pa_fds := (pa_fds pa)(fd := None), pa_sub := sp\<rparr>)"
  using assms by (fastforce simp: strings_hold_def)

lemma strings_hold_other: "strings_hold C S R pa \<Longrightarrow> strings_hold C S R (pa\<lparr>pa_sub := sp\<rparr>)"
  "strings_hold C S R pa \<Longrightarrow> strings_hold C S R (pa\<lparr>pa_output := out, pa_killed := killed\<rparr>)"
  by (simp_all add: strings_hold_def)

lemma capture_inv_moved:
  assumes "capture_inv P pid C S R (ph, pa, e)" "phase_ok ph' e"
    and "el_readers e' = el_readers e" "el_writers e' = el_writers e" "el_waiters e' = el_waiters e"
    and "length (el_timeouts e') \<le> length (el_timeouts e)"
    and "pa_sub pa' = pa_sub pa" "pa_strings pa' = pa_strings pa" "pa_fds pa' = pa_fds pa"
  shows "capture_inv P pid C S R (ph', pa', e')"
proof -
  have "phase_ok ph' e'" using assms(2,3,5) by (cases ph') (simp_all add: phase_ok_def split: option.splits)
  moreover have "strings_hold C S R pa' = strings_hold C S R pa" by (simp add: strings_hold_def assms(8,9))
  ultimately show ?thesis using assms(1,6) unfolding capture_inv_def prod.case assms(3-5,7) by (blast intro: order_trans)
qed

lemma reader_step_inv:
  assumes "capture_inv P pid C S R (AtReaders rd wr ((fd, ()) # rest), pa, e)" "int_order.sorted_keys C" "distinct (map snd C)"
    and "reader_step alone k rd wr (fd, ()) rest (pa, e) = Inr st'"
  shows "capture_inv P pid C S (\<lambda>x. R x @ step_reads x k (AtReaders rd wr ((fd, ()) # rest), pa, e)) st'"
proof -
  have inv: "sp_captures (pa_sub pa) = filter (\<lambda>(fd, _). [] \<notin> set (R fd)) C" "el_readers e = map (\<lambda>(fd, _). (fd, ())) (sp_captures (pa_sub pa))"
    "el_writers e = []" "strings_hold C S R pa" "set rest \<subseteq> set (el_readers e)" "Suc (length rest) \<le> length (el_readers e)" "(fd, ()) \<in> set (el_readers e)"
    and waiters: "el_waiters e = [(pid, ())] \<and> sp_pid (pa_sub pa) = pid \<or> el_waiters e = [] \<and> sp_pid (pa_sub pa) = -1 \<and> P (sp_status (pa_sub pa))"
      "length (el_timeouts e) \<le> 1"
    using assms(1) unfolding capture_inv_def phase_ok_def prod.case phase.case list.set insert_subset list.size add_Suc_right add_0_right by blast+
  obtain s where s: "(fd, s) \<in> set C" "[] \<notin> set (R fd)" using inv(1,2,7) by auto
  consider (skip) "fd \<notin> set rd \<or> (\<exists>errno. an_read k fd = Inl errno)" | (data) data where "fd \<in> set rd" "an_read k fd = Inr data" by (cases "an_read k fd") auto
  then show ?thesis
  proof cases
    case skip
    then have st': "st' = (AtReaders rd wr rest, pa, e)"
      using assms(4) by (auto simp: reader_step_def sp_reactor_def default_reactors_def Let_def split: if_splits)
    have same: "(\<lambda>x. R x @ step_reads x k (AtReaders rd wr ((fd, ()) # rest), pa, e)) = R" using skip by (auto simp: step_reads_def fun_eq_iff)
    have "phase_ok (AtReaders rd wr rest) e" using inv(5,6) unfolding phase_ok_def phase.case by (blast intro: Suc_leD)
    then show ?thesis unfolding st' same using capture_inv_moved [OF assms(1)] by simp
  next
    case data
    have reads: "step_reads x k (AtReaders rd wr ((fd, ()) # rest), pa, e) = (if x = fd then [data] else [])" for x
      using data by (auto simp: step_reads_def)
    have sorted: "int_order.sorted_keys (sp_captures (pa_sub pa))" unfolding inv(1) by (rule sorted_filter [OF assms(2)])
    show ?thesis
    proof (cases "data = []")
      case True
      have end_read: "step_reads x k (AtReaders rd wr ((fd, ()) # rest), pa, e) = (if x = fd then [[]] else [])" for x
        unfolding reads True ..
      define pa' where "pa' = pa\<lparr>pa_fds := (pa_fds pa)(fd := None), pa_sub := (pa_sub pa)\<lparr>sp_captures := om_erase (<) fd (sp_captures (pa_sub pa))\<rparr>\<rparr>"
      have st': "st' = (AtWriters wr [], pa', cancelRead fd e)"
        using assms(4) data True inv(3) by (simp add: reader_step_def sp_reactor_def sp_onReadable_def cancelRead_def pa'_def Let_def)
      have "om_erase (<) fd (sp_captures (pa_sub pa)) = filter (\<lambda>(x, _). [] \<notin> set (R x @ (if x = fd then [[]] else []))) C"
        unfolding om_erase_filter [OF sorted] unfolding inv(1) filter_filter by (rule filter_cong) auto
      moreover have "el_readers (cancelRead fd e) = map (\<lambda>(x, _). (x, ())) (om_erase (<) fd (sp_captures (pa_sub pa)))"
        using om_erase_filter [OF reader_sorted [OF assms(2)], of fd "\<lambda>(x, _). [] \<notin> set (R x)"] om_erase_filter [OF sorted, of fd]
        by (simp add: cancelRead_def inv(1,2) filter_map comp_def split_beta)
      moreover have "strings_hold C S (\<lambda>x. R x @ (if x = fd then [[]] else [])) pa'"
        unfolding pa'_def by (rule strings_hold_end [OF inv(4) s(2)])
      ultimately show ?thesis using waiters inv(3)
        by (simp add: capture_inv_def st' end_read pa'_def phase_ok_def cancelRead_def)
    next
      case False
      have "om_find (<) fd (sp_captures (pa_sub pa)) = Some s"
        using int_order.om_find_map_of [OF sorted, of fd] s assms(2)
        by (simp add: inv(1) map_of_eq_Some_iff int_order.sorted_keys_def strict_sorted_iff distinct_map_filter)
      then have st': "st' = (if el_reconf e then AtWriters wr [] else AtReaders rd wr rest, pa\<lparr>pa_strings := (pa_strings pa)(s := pa_strings pa s @ data)\<rparr>, e)"
        using assms(4) data False inv(3) by (auto simp: reader_step_def sp_reactor_def sp_onReadable_def Let_def)
      have "strings_hold C S (\<lambda>x. R x @ (if x = fd then [data] else [])) (pa\<lparr>pa_strings := (pa_strings pa)(s := pa_strings pa s @ data)\<rparr>)"
        using strings_hold_data [OF inv(4) s(1) _ assms(3) s(2) False] assms(2) by (simp add: int_order.sorted_keys_def strict_sorted_iff)
      moreover have "filter (\<lambda>(x, _). [] \<notin> set (R x @ (if x = fd then [data] else []))) C = filter (\<lambda>(x, _). [] \<notin> set (R x)) C"
        using False by (intro filter_cong) auto
      ultimately show ?thesis using waiters inv(1,2,3,5,6)
        by (simp add: capture_inv_def st' reads phase_ok_def)
    qed
  qed
qed

text \<open>The other steps read nothing.\<close>

lemma first_waiter_ok: "capture_inv P pid C S R (ph, pa, e) \<Longrightarrow> phase_ok (first_waiter e) e"
  by (auto simp: capture_inv_def first_waiter_def phase_ok_def)

lemma test_step_inv:
  assumes inv: "capture_inv P pid C S R (AtTest, pa, e)" and "test_step alone k (pa, e) = Inr st'"
  shows "capture_inv P pid C S R st'"
proof -
  have poll: "capture_inv P pid C S R st'" if "poll_step k (pa, e) = Inr st'" for st'
  proof -
    from that consider "st' = (first_waiter e, pa, e)" | rd wr where "st' = (AtReaders rd wr (el_readers e), pa, e\<lparr>el_reconf := False\<rparr>)"
      by (auto simp: poll_step_def split: sum.splits if_splits)
    then show ?thesis using capture_inv_moved [OF inv] first_waiter_ok [OF inv] by cases (simp_all add: phase_ok_def)
  qed
  show ?thesis
  proof (cases "el_timeouts e")
    case Nil
    then show ?thesis using poll assms(2) by (simp add: test_step_def)
  next
    case (Cons t later)
    show ?thesis
    proof (cases "timespec_ge (an_now k) (fst t)")
      case True
      then obtain pa' where "st' = (AtTest, pa', e\<lparr>el_timeouts := later\<rparr>)" "pa_sub pa' = pa_sub pa" "pa_strings pa' = pa_strings pa" "pa_fds pa' = pa_fds pa"
        using assms(2) Cons by (cases t) (auto simp: test_step_def sp_reactor_def sp_onTimeout_def Let_def)
      then show ?thesis using capture_inv_moved [OF inv] Cons by (simp add: phase_ok_def)
    next
      case False
      then show ?thesis using poll assms(2) Cons by (cases t) (simp add: test_step_def)
    qed
  qed
qed

lemma waiter_step_inv:
  assumes inv: "capture_inv P pid C S R (AtWaiters (Some p), pa, e)" and "waiter_step alone k p (pa, e) = Inr st'"
    and "\<And>s. an_wait k pid = Inr (Some s) \<Longrightarrow> P s"
  shows "capture_inv P pid C S R st'"
proof -
  have p: "p = pid" and waiters: "el_waiters e = [(pid, ())]" using inv by (auto simp: capture_inv_def phase_ok_def)
  show ?thesis
  proof (cases "\<exists>s. an_wait k p = Inr (Some s)")
    case True
    then obtain s where s: "an_wait k pid = Inr (Some s)" using p by blast
    have st': "st' = (AtWaiters None, pa\<lparr>pa_sub := (pa_sub pa)\<lparr>sp_status := s, sp_pid := -1\<rparr>\<rparr>, e\<lparr>el_waiters := []\<rparr>)"
      using assms(2) s waiters by (simp add: waiter_step_def p sp_reactor_def sp_onWait_def next_key_def)
    have "strings_hold C S R pa" using inv by (simp add: capture_inv_def)
    from strings_hold_other(1) [OF this] show ?thesis using inv assms(3) [OF s] by (simp add: st' capture_inv_def phase_ok_def)
  next
    case False
    then have "st' = (AtWaiters None, pa, e)"
      using assms(2) waiters by (auto simp: waiter_step_def p next_key_def split: sum.splits option.splits if_splits)
    then show ?thesis using capture_inv_moved [OF inv] by (simp add: phase_ok_def)
  qed
qed

lemma loop_step_inv:
  assumes "capture_inv P pid C S R st" "int_order.sorted_keys C" "distinct (map snd C)" "loop_step alone k st = Inr st'"
    and "\<And>s. an_wait k pid = Inr (Some s) \<Longrightarrow> P s"
  shows "capture_inv P pid C S (\<lambda>x. R x @ step_reads x k st) st'"
proof -
  obtain ph pa e where st: "st = (ph, pa, e)" by (cases st)
  note inv = assms(1) [unfolded st] and step = assms(4) [unfolded st loop_step_def]
  note moved = capture_inv_moved [OF inv]
  show ?thesis
  proof (cases ph)
    case AtTest
    then show ?thesis using test_step_inv inv step by (simp add: st step_reads_def)
  next
    case (AtReaders rd wr readers)
    show ?thesis
    proof (cases readers)
      case Nil
      have "el_writers e = []" using inv by (simp add: capture_inv_def)
      then show ?thesis using AtReaders Nil step moved [of "AtWriters wr []" e pa] by (auto simp: st step_reads_def phase_ok_def)
    next
      case (Cons fr rest)
      then obtain fd where ph: "ph = AtReaders rd wr ((fd, ()) # rest)" using AtReaders by (cases fr) simp
      show ?thesis unfolding st ph by (rule reader_step_inv [OF inv [unfolded ph] assms(2,3)]) (use step in \<open>simp add: ph\<close>)
    qed
  next
    case (AtWriters wr writers)
    then have "writers = []" using inv by (simp add: capture_inv_def phase_ok_def)
    then show ?thesis using AtWriters step moved [OF first_waiter_ok [OF inv], of e pa] by (auto simp: st step_reads_def)
  next
    case (AtWaiters p)
    then show ?thesis using waiter_step_inv [where k = k] inv step assms(5) moved [of AtTest e pa] by (cases p) (auto simp: st step_reads_def phase_ok_def)
  qed
qed

text \<open>Steps with answers that are not errors return.\<close>

definition answers_ok :: "int \<Rightarrow> (int \<times> nat) list \<Rightarrow> answers \<Rightarrow> bool" where
  "answers_ok pid C k \<longleftrightarrow>
     (\<forall>errno. an_select k = Inl errno \<longrightarrow> errno = EINTR) \<and>
     (\<forall>fd \<in> fst ` set C. \<forall>errno. an_read k fd = Inl errno \<longrightarrow> errno = EINTR \<or> errno = EAGAIN) \<and> \<not> isl (an_wait k pid)"

lemma poll_step_returns: "answers_ok pid C k \<Longrightarrow> \<exists>st'. poll_step k (pa, e) = Inr st'"
  by (auto simp: answers_ok_def poll_step_def split: sum.split prod.split)

lemma loop_step_returns:
  assumes "capture_inv P pid C S R st" "int_order.sorted_keys C" "answers_ok pid C k"
  shows "\<exists>st'. loop_step alone k st = Inr st'"
proof -
  obtain ph pa e where st: "st = (ph, pa, e)" by (cases st)
  have inv: "sp_captures (pa_sub pa) = filter (\<lambda>(fd, _). [] \<notin> set (R fd)) C" "el_readers e = map (\<lambda>(fd, _). (fd, ())) (sp_captures (pa_sub pa))"
    "phase_ok ph e" "el_waiters e = [(pid, ())] \<or> el_waiters e = []"
    using assms(1) unfolding st capture_inv_def prod.case by blast+
  show ?thesis
  proof (cases ph)
    case AtTest
    then show ?thesis using poll_step_returns [OF assms(3)]
      by (auto simp: st loop_step_def test_step_def sp_reactor_def sp_onTimeout_def Let_def split: list.split)
  next
    case (AtReaders rd wr readers)
    show ?thesis
    proof (cases readers)
      case (Cons fr rest)
      obtain fd where fr: "fr = (fd, ())" by (cases fr) simp
      then have "(fd, ()) \<in> set (el_readers e)" using inv(3) AtReaders Cons by (simp add: phase_ok_def)
      then have fd: "fd \<in> fst ` set (sp_captures (pa_sub pa))" "fd \<in> fst ` set C" by (force simp: inv(2), force simp: inv(1,2))
      have "int_order.sorted_keys (sp_captures (pa_sub pa))" unfolding inv(1) by (rule sorted_filter [OF assms(2)])
      then obtain s where "om_find (<) fd (sp_captures (pa_sub pa)) = Some s"
        using int_order.om_find_map_of fd(1) by (metis map_of_eq_None_iff not_None_eq)
      moreover have "an_read k fd = Inl errno \<Longrightarrow> errno = EINTR \<or> errno = EAGAIN" for errno
        using assms(3) fd(2) by (auto simp: answers_ok_def)
      ultimately show ?thesis
        by (auto simp: st AtReaders Cons fr loop_step_def reader_step_def sp_reactor_def sp_onReadable_def Let_def split: sum.split)
    qed (simp add: st AtReaders loop_step_def)
  next
    case (AtWriters wr writers)
    then show ?thesis using inv(3) by (simp add: st loop_step_def phase_ok_def)
  next
    case (AtWaiters p)
    then show ?thesis using inv(3,4) assms(3)
      by (cases p) (auto simp: st loop_step_def phase_ok_def waiter_step_def answers_ok_def sp_reactor_def sp_onWait_def split: sum.split option.split)
  qed
qed

lemma event_wait_inv:
  assumes "capture_inv P pid C S R st" "int_order.sorted_keys C" "distinct (map snd C)" "event_wait False alone ks st = Some (Inr st')"
    and "\<And>k s. k \<in> set ks \<Longrightarrow> an_wait k pid = Inr (Some s) \<Longrightarrow> P s"
  shows "capture_inv P pid C S (\<lambda>x. R x @ loop_reads alone x ks st) st' \<and> loop_finished False st'"
  using assms(1,4,5)
proof (induction ks arbitrary: R st)
  case Nil
  then show ?case by (auto split: if_splits)
next
  case (Cons k ks)
  show ?case
  proof (cases "loop_finished False st")
    case False
    then obtain st1 where st1: "loop_step alone k st = Inr st1" "event_wait False alone ks st1 = Some (Inr st')"
      using Cons.prems(2) by (auto split: sum.splits)
    have "capture_inv P pid C S (\<lambda>x. R x @ step_reads x k st) st1"
      by (rule loop_step_inv [OF Cons.prems(1) assms(2,3) st1(1)]) (use Cons.prems(3) in auto)
    moreover have "\<And>k s. k \<in> set ks \<Longrightarrow> an_wait k pid = Inr (Some s) \<Longrightarrow> P s" using Cons.prems(3) by auto
    ultimately have "capture_inv P pid C S (\<lambda>x. (R x @ step_reads x k st) @ loop_reads alone x ks st1) st' \<and> loop_finished False st'"
      using Cons.IH st1(2) by blast
    then show ?thesis using False st1(1) by simp
  qed (use Cons.prems in simp)
qed

text \<open>The state after \<open>setup\<close>.\<close>

lemma setup_readers:
  assumes "int_order.sorted_keys (c :: (int \<times> nat) list)" "\<forall>(fd, _) \<in> set (el_readers e). \<forall>(fd', _) \<in> set c. fd < fd'"
  shows "foldl (\<lambda>e (fd, _). whenReadable fd () e) e c = e\<lparr>el_readers := el_readers e @ map (\<lambda>(fd, _). (fd, ())) c, el_reconf := c \<noteq> [] \<or> el_reconf e\<rparr>"
  using assms
proof (induction c arbitrary: e)
  case (Cons x c)
  obtain fd s where x: "x = (fd, s)" by force
  have put: "om_put (<) fd () (el_readers e) = el_readers e @ [(fd, ())]" by (rule conjunct1 [OF om_put_last]) (use Cons.prems(2) in \<open>auto simp: x\<close>)
  have "foldl (\<lambda>e (fd, _). whenReadable fd () e) (whenReadable fd () e) c =
    (whenReadable fd () e)\<lparr>el_readers := el_readers (whenReadable fd () e) @ map (\<lambda>(fd, _). (fd, ())) c, el_reconf := c \<noteq> [] \<or> el_reconf (whenReadable fd () e)\<rparr>"
    by (rule Cons.IH) (use Cons.prems in \<open>auto simp: x whenReadable_def put\<close>)
  then show ?case by (simp add: x whenReadable_def put)
qed simp

lemma setup_inv:
  assumes "0 \<le> sp_pid (pa_sub pa)" "int_order.sorted_keys (sp_captures (pa_sub pa))" "sp_setup t0 () (pa_sub pa) new_event_loop = Inr e"
  shows "capture_inv P (sp_pid (pa_sub pa)) (sp_captures (pa_sub pa)) (pa_strings pa) (\<lambda>_. []) (AtTest, pa, e)"
  using assms(1,3) setup_readers [OF assms(2), of new_event_loop]
  by (auto simp: sp_setup_def capture_inv_def phase_ok_def strings_hold_def new_event_loop_def whenTimeout_def whenWaited_def Let_def)

text \<open>
  C19: When \<open>wait\<close> returns, the string of every captured descriptor has grown by all that was read from it, in order, up
  to the end of the file, which has been read once; the descriptor is closed, no other string has changed, and the status
  is the one that \<open>wait4\<close> gave for the process.
\<close>

theorem captured_output:
  assumes "0 \<le> sp_pid (pa_sub pa)" "sorted_wrt (<) (map fst (sp_captures (pa_sub pa)))" "distinct (map snd (sp_captures (pa_sub pa)))"
    and "sp_setup t0 () (pa_sub pa) new_event_loop = Inr e" "event_wait False (sp_reactor (\<lambda>_. Inr)) ks (AtTest, pa, e) = Some (Inr (ph, pa', e'))"
  shows "(\<forall>(fd, s) \<in> set (sp_captures (pa_sub pa)). pa_fds pa' fd = None \<and>
      (\<exists>chunks. loop_reads (sp_reactor (\<lambda>_. Inr)) fd ks (AtTest, pa, e) = chunks @ [[]] \<and> [] \<notin> set chunks \<and>
         pa_strings pa' s = pa_strings pa s @ concat chunks)) \<and>
    (\<forall>s. s \<notin> snd ` set (sp_captures (pa_sub pa)) \<longrightarrow> pa_strings pa' s = pa_strings pa s) \<and>
    (\<exists>k \<in> set ks. an_wait k (sp_pid (pa_sub pa)) = Inr (Some (sp_status (pa_sub pa'))))"
proof -
  let ?C = "sp_captures (pa_sub pa)" and ?pid = "sp_pid (pa_sub pa)" and ?R = "\<lambda>x. loop_reads alone x ks (AtTest, pa, e)"
  have sorted: "int_order.sorted_keys ?C" using assms(2) by (simp add: int_order.sorted_keys_def list_all_iff)
  define P where "P = (\<lambda>s. \<exists>k \<in> set ks. an_wait k ?pid = Inr (Some s))"
  have "capture_inv P ?pid ?C (pa_strings pa) ?R (ph, pa', e') \<and> loop_finished False (ph, pa', e')"
    using event_wait_inv [OF setup_inv [OF assms(1) sorted assms(4)] sorted assms(3,5), of P] by (auto simp: P_def)
  then have inv: "filter (\<lambda>(fd, _). [] \<notin> set (?R fd)) ?C = []" "strings_hold ?C (pa_strings pa) ?R pa'" "P (sp_status (pa_sub pa'))"
    by (auto simp: capture_inv_def loop_finished_def waiting_def)
  have "pa_fds pa' fd = None \<and> (\<exists>chunks. ?R fd = chunks @ [[]] \<and> [] \<notin> set chunks \<and> pa_strings pa' s = pa_strings pa s @ concat chunks)"
    if "(fd, s) \<in> set ?C" for fd s
  proof -
    have "[] \<in> set (?R fd)" using inv(1) that by (auto simp: filter_empty_conv)
    then show ?thesis using inv(2) that by (fastforce simp: strings_hold_def)
  qed
  then show ?thesis using inv(2,3) by (auto simp: strings_hold_def P_def)
qed

definition sample_writing :: answers where
  "sample_writing = \<lparr>an_now = \<lparr>tv_sec = 0, tv_nsec = 0\<rparr>, an_select = Inr ([3], []), an_read = (\<lambda>_. Inr ''hi''), an_wait = (\<lambda>_. Inr None)\<rparr>"

definition sample_gone :: answers where
  "sample_gone = \<lparr>an_now = \<lparr>tv_sec = 0, tv_nsec = 0\<rparr>, an_select = Inr ([3], []), an_read = (\<lambda>_. Inr []), an_wait = (\<lambda>_. Inr (Some 0))\<rparr>"

definition sample_answers :: "answers list" where
  "sample_answers = replicate 7 sample_writing @ replicate 4 sample_gone"

definition sample_loop :: "unit event_loop" where
  "sample_loop = whenWaited 7 () (whenReadable 3 () new_event_loop)"

lemma sample_setup: "sp_setup t0 () (pa_sub (sample_parent [(3, 0)] 7)) new_event_loop = Inr sample_loop"
  by (simp add: sp_setup_def sample_parent_def new_subprocess_def sample_loop_def)

lemma sample_child_run: "\<exists>pa' e'. event_wait False alone sample_answers (AtTest, sample_parent [(3, 0)] 7, sample_loop) = Some (Inr (AtTest, pa', e'))"
  by (simp add: sample_answers_def numeral_eq_Suc loop_finished_def waiting_def loop_step_def test_step_def poll_step_def reader_step_def
      writer_step_def waiter_step_def sample_writing_def sample_gone_def sample_loop_def sample_parent_def new_subprocess_def
      new_event_loop_def whenWaited_def whenReadable_def cancelRead_def sp_reactor_def sp_onReadable_def sp_onWait_def first_waiter_def next_key_def)

lemma captured_output_witness:
  "\<exists>pa' e' chunks. event_wait False (sp_reactor (\<lambda>_. Inr)) sample_answers (AtTest, sample_parent [(3, 0)] 7, sample_loop) = Some (Inr (AtTest, pa', e')) \<and>
     loop_reads (sp_reactor (\<lambda>_. Inr)) 3 sample_answers (AtTest, sample_parent [(3, 0)] 7, sample_loop) = chunks @ [[]] \<and>
     pa_strings pa' 0 = concat chunks \<and> pa_fds pa' 3 = None"
proof -
  obtain pa' e' where 1: "event_wait False alone sample_answers (AtTest, sample_parent [(3, 0)] 7, sample_loop) = Some (Inr (AtTest, pa', e'))"
    using sample_child_run by blast
  have 2: "sp_captures (pa_sub (sample_parent [(3, 0)] 7)) = [(3, 0)]" "sp_pid (pa_sub (sample_parent [(3, 0)] 7)) = 7"
    "pa_strings (sample_parent [(3, 0)] 7) 0 = []" by (simp_all add: sample_parent_def)
  have "\<exists>chunks. loop_reads alone 3 sample_answers (AtTest, sample_parent [(3, 0)] 7, sample_loop) = chunks @ [[]] \<and>
      pa_strings pa' 0 = concat chunks \<and> pa_fds pa' 3 = None"
    using captured_output [OF _ _ _ sample_setup 1] by (auto simp: 2)
  then show ?thesis using 1 by blast
qed

section \<open>Waiting comes to an end\<close>

text \<open>The answers when the child is gone: its pipes are at their end, and it can be waited for.\<close>

definition child_gone :: "int \<Rightarrow> (int \<times> nat) list \<Rightarrow> answers \<Rightarrow> bool" where
  "child_gone pid C k \<longleftrightarrow>
     (\<exists>rd wr. an_select k = Inr (rd, wr) \<and> fst ` set C \<subseteq> set rd) \<and> (\<forall>fd \<in> fst ` set C. an_read k fd = Inr []) \<and>
     (\<exists>s. an_wait k pid = Inr (Some s))"

definition phase_left :: "nat \<Rightarrow> unit phase \<Rightarrow> unit event_loop \<Rightarrow> nat" where
  "phase_left n ph e =
     (case ph of
        AtTest \<Rightarrow> n + 5
      | AtReaders rd wr rest \<Rightarrow>
          length rest + (if el_waiters e \<noteq> [] \<or> (case rest of [] \<Rightarrow> False | (fd, _) # _ \<Rightarrow> fd \<in> set rd) then 3 else n + 8)
      | AtWriters wr rest \<Rightarrow> if el_waiters e \<noteq> [] then 2 else n + 7
      | AtWaiters None \<Rightarrow> n + 6
      | AtWaiters (Some p) \<Rightarrow> 1)"

definition loop_left :: "nat \<Rightarrow> (unit, parent) loop_state \<Rightarrow> nat" where
  "loop_left n st =
     (case st of (ph, pa, e) \<Rightarrow> (2 * n + 20) * (length (el_readers e) + length (el_waiters e) + length (el_timeouts e)) + phase_left n ph e)"

lemma weighted_less: "a < b \<Longrightarrow> x < w \<Longrightarrow> w * a + x < w * b + (y :: nat)"
proof -
  assume "a < b" "x < w"
  then have "w * a + w \<le> w * b" using mult_le_mono2 [of "Suc a" b w] by simp
  then show ?thesis using \<open>x < w\<close> by linarith
qed

lemma phase_left_bound: "phase_ok ph e \<Longrightarrow> (\<forall>rd wr rest. ph = AtReaders rd wr rest \<longrightarrow> length rest \<le> n) \<Longrightarrow> phase_left n ph e \<le> 2 * n + 8"
  by (cases ph) (auto simp: phase_left_def split: option.splits list.splits)

lemma loop_left_less:
  assumes "capture_inv P pid C S R st" "child_gone pid C k" "\<not> loop_finished False st" "loop_step alone k st = Inr st'"
    and "int_order.sorted_keys C"
  shows "loop_left (length C) st' < loop_left (length C) st"
proof -
  obtain ph pa e where st: "st = (ph, pa, e)" by (cases st)
  have inv: "sp_captures (pa_sub pa) = filter (\<lambda>(fd, _). [] \<notin> set (R fd)) C" "el_readers e = map (\<lambda>(fd, _). (fd, ())) (sp_captures (pa_sub pa))"
    "el_writers e = []" "phase_ok ph e" "el_waiters e = [(pid, ())] \<or> el_waiters e = []"
    using assms(1) unfolding st capture_inv_def prod.case by blast+
  have readers: "length (el_readers e) \<le> length C" "fst ` set (el_readers e) \<subseteq> fst ` set C" by (simp add: inv(1,2)) (force simp: inv(1,2))
  obtain rd0 wr0 status where gone: "an_select k = Inr (rd0, wr0)" "fst ` set C \<subseteq> set rd0" "\<forall>fd \<in> fst ` set C. an_read k fd = Inr []"
    "an_wait k pid = Inr (Some status)" using assms(2) by (auto simp: child_gone_def)
  show ?thesis
  proof (cases ph)
    case AtTest
    have active: "el_readers e \<noteq> [] \<or> el_waiters e \<noteq> []" using assms(3) inv(3) AtTest by (auto simp: st loop_finished_def waiting_def)
    have poll: "phase_left (length C) (fst st') (snd (snd st')) < length C + 5 \<and> el_readers (snd (snd st')) = el_readers e \<and>
        el_waiters (snd (snd st')) = el_waiters e \<and> el_timeouts (snd (snd st')) = el_timeouts e"
      if "poll_step k (pa, e) = Inr st'" for st'
    proof (cases "rd0 = [] \<and> wr0 = []")
      case True
      then have "el_readers e = []" using gone(2) inv(1,2) by simp
      then show ?thesis using that active True inv(5) gone(1) by (auto simp: poll_step_def first_waiter_def phase_left_def)
    next
      case False
      then have st': "st' = (AtReaders rd0 wr0 (el_readers e), pa, e\<lparr>el_reconf := False\<rparr>)" using that gone(1) by (auto simp: poll_step_def)
      have "el_waiters e \<noteq> [] \<or> (case el_readers e of [] \<Rightarrow> False | (fd, _) # _ \<Rightarrow> fd \<in> set rd0)"
        using active readers(2) gone(2) by (cases "el_readers e") auto
      then show ?thesis using readers(1) by (simp add: st' phase_left_def)
    qed
    show ?thesis
    proof (cases "poll_step k (pa, e) = Inr st'")
      case True
      then show ?thesis using poll [OF True] by (cases st') (simp add: st AtTest loop_left_def phase_left_def)
    next
      case False
      then obtain t r later pa' where "el_timeouts e = (t, r) # later" "st' = (AtTest, pa', e\<lparr>el_timeouts := later\<rparr>)"
        using assms(4) by (auto simp: st AtTest loop_step_def test_step_def sp_reactor_def sp_onTimeout_def Let_def split: list.splits if_splits)
      then show ?thesis by (simp add: st AtTest loop_left_def phase_left_def)
    qed
  next
    case (AtReaders rd wr rest)
    show ?thesis
    proof (cases rest)
      case Nil
      then show ?thesis using AtReaders assms(4) by (auto simp: st loop_step_def loop_left_def phase_left_def)
    next
      case (Cons fr rest')
      obtain fd where fr: "fr = (fd, ())" by (cases fr) simp
      have here: "(fd, ()) \<in> set (el_readers e)" using inv(4) AtReaders Cons fr by (simp add: phase_ok_def)
      show ?thesis
      proof (cases "fd \<in> set rd")
        case False
        then have "st' = (AtReaders rd wr rest', pa, e)" using assms(4) AtReaders Cons fr by (simp add: st loop_step_def reader_step_def)
        then show ?thesis using False by (auto simp: st AtReaders Cons fr loop_left_def phase_left_def)
      next
        case True
        have "an_read k fd = Inr []" using gone(3) readers(2) here by force
        then obtain pa' where st': "st' = (AtWriters wr [], pa', cancelRead fd e)"
          using assms(4) AtReaders Cons fr True inv(3)
          by (auto simp: st loop_step_def reader_step_def sp_reactor_def sp_onReadable_def cancelRead_def Let_def)
        have "length (om_erase (<) fd (el_readers e)) < length (el_readers e)" using om_erase_shorter [of "el_readers e" fd] here reader_sorted [OF assms(5)] by (force simp: inv(1,2))
        then show ?thesis unfolding st' st loop_left_def prod.case
          by (intro weighted_less) (simp_all add: cancelRead_def phase_left_def)
      qed
    qed
  next
    case (AtWriters wr rest)
    then show ?thesis using inv(4,5) assms(4) by (auto simp: st loop_step_def phase_ok_def first_waiter_def loop_left_def phase_left_def)
  next
    case (AtWaiters p)
    show ?thesis
    proof (cases p)
      case None
      then show ?thesis using AtWaiters assms(4) by (auto simp: st loop_step_def loop_left_def phase_left_def)
    next
      case (Some q)
      then show ?thesis using AtWaiters assms(4) inv(4,5) gone(4)
        by (auto simp: st loop_step_def waiter_step_def phase_ok_def sp_reactor_def sp_onWait_def next_key_def loop_left_def phase_left_def)
    qed
  qed
qed

lemma wait_ends:
  assumes "capture_inv (\<lambda>_. True) pid C S R st" "int_order.sorted_keys C" "distinct (map snd C)" "\<forall>k \<in> set ks. child_gone pid C k"
    and "loop_left (length C) st \<le> length ks"
  shows "\<exists>st'. event_wait False alone ks st = Some (Inr st')"
  using assms(1,4,5)
proof (induction ks arbitrary: R st)
  case Nil
  obtain ph pa e where "st = (ph, pa, e)" by (cases st)
  then have False using Nil.prems(3) by (cases ph) (auto simp: loop_left_def phase_left_def split: option.splits if_splits)
  then show ?case ..
next
  case (Cons k ks)
  show ?case
  proof (cases "loop_finished False st")
    case False
    have gone: "child_gone pid C k" using Cons.prems(2) by simp
    then have "answers_ok pid C k" by (auto simp: child_gone_def answers_ok_def)
    from loop_step_returns [OF Cons.prems(1) assms(2) this] obtain st1 where st1: "loop_step alone k st = Inr st1" ..
    have "capture_inv (\<lambda>_. True) pid C S (\<lambda>x. R x @ step_reads x k st) st1" by (rule loop_step_inv [OF Cons.prems(1) assms(2,3) st1]) simp
    moreover have "loop_left (length C) st1 \<le> length ks"
      using loop_left_less [OF Cons.prems(1) gone False st1 assms(2)] Cons.prems(3) by simp
    ultimately have "\<exists>st'. event_wait False alone ks st1 = Some (Inr st')" using Cons.IH Cons.prems(2) by simp
    then show ?thesis using False st1 by simp
  qed (cases st, simp)
qed

lemma loop_left_bound:
  assumes "capture_inv P pid C S R st"
  shows "loop_left (length C) st \<le> (2 * length C + 20) * (length C + 3)"
proof -
  obtain ph pa e where st: "st = (ph, pa, e)" by (cases st)
  have inv: "sp_captures (pa_sub pa) = filter (\<lambda>(fd, _). [] \<notin> set (R fd)) C" "el_readers e = map (\<lambda>(fd, _). (fd, ())) (sp_captures (pa_sub pa))"
    "phase_ok ph e" "el_waiters e = [(pid, ())] \<or> el_waiters e = []" "length (el_timeouts e) \<le> 1"
    using assms unfolding st capture_inv_def prod.case by blast+
  have "length (el_readers e) \<le> length C" by (simp add: inv(1,2))
  then have "length (el_readers e) + length (el_waiters e) + length (el_timeouts e) \<le> length C + 2"
    using inv(4,5) by auto
  from mult_le_mono2 [OF this, of "2 * length C + 20"]
  have "(2 * length C + 20) * (length (el_readers e) + length (el_waiters e) + length (el_timeouts e)) \<le> (2 * length C + 20) * (length C + 2)" .
  moreover have "phase_left (length C) ph e \<le> 2 * length C + 8"
    by (rule phase_left_bound [OF inv(3)]) (use inv(3) \<open>length (el_readers e) \<le> length C\<close> in \<open>auto simp: phase_ok_def\<close>)
  ultimately show ?thesis by (simp add: st loop_left_def algebra_simps)
qed

text \<open>
  C20: Once the child is gone and its pipes are at their end, \<open>wait\<close> returns after a bounded number of steps, whatever
  answers that are not errors there were before and wherever in its loops it is.
\<close>

theorem wait_returns:
  assumes "0 \<le> sp_pid (pa_sub pa)" "sorted_wrt (<) (map fst (sp_captures (pa_sub pa)))" "distinct (map snd (sp_captures (pa_sub pa)))"
    and "\<forall>k \<in> set ks. answers_ok (sp_pid (pa_sub pa)) (sp_captures (pa_sub pa)) k"
    and "\<forall>k \<in> set ks'. child_gone (sp_pid (pa_sub pa)) (sp_captures (pa_sub pa)) k"
    and "(2 * length (sp_captures (pa_sub pa)) + 20) * (length (sp_captures (pa_sub pa)) + 3) \<le> length ks'"
  shows "\<exists>e st'. sp_setup t0 () (pa_sub pa) new_event_loop = Inr e \<and>
    event_wait False (sp_reactor (\<lambda>_. Inr)) (ks @ ks') (AtTest, pa, e) = Some (Inr st')"
proof -
  let ?C = "sp_captures (pa_sub pa)" and ?pid = "sp_pid (pa_sub pa)"
  have sorted: "int_order.sorted_keys ?C" using assms(2) by (simp add: int_order.sorted_keys_def list_all_iff)
  obtain e where e: "sp_setup t0 () (pa_sub pa) new_event_loop = Inr e" using assms(1) by (simp add: sp_setup_def Let_def)
  have "\<exists>st'. event_wait False alone (ks @ ks') st = Some (Inr st')"
    if "capture_inv (\<lambda>_. True) ?pid ?C (pa_strings pa) R st" for R st
    using that assms(4)
  proof (induction ks arbitrary: R st)
    case Nil
    have "\<exists>st'. event_wait False alone ks' st = Some (Inr st')"
      by (rule wait_ends [OF Nil.prems(1) sorted assms(3,5)]) (use loop_left_bound [OF Nil.prems(1)] assms(6) in linarith)
    then show ?case by simp
  next
    case (Cons k ks)
    have "answers_ok ?pid ?C k" using Cons.prems(2) by simp
    from loop_step_returns [OF Cons.prems(1) sorted this] obtain st1 where st1: "loop_step alone k st = Inr st1" ..
    have "capture_inv (\<lambda>_. True) ?pid ?C (pa_strings pa) (\<lambda>x. R x @ step_reads x k st) st1" by (rule loop_step_inv [OF Cons.prems(1) sorted assms(3) st1]) simp
    then have "\<exists>st'. event_wait False alone (ks @ ks') st1 = Some (Inr st')" using Cons.IH Cons.prems(2) by simp
    then show ?case using st1 by (cases st) simp
  qed
  from this [OF setup_inv [OF assms(1) sorted e]] e show ?thesis by blast
qed

lemma wait_returns_witness:
  "\<exists>e st'. sp_setup \<lparr>tv_sec = 0, tv_nsec = 0\<rparr> () (pa_sub (sample_parent [(3, 0)] 7)) new_event_loop = Inr e \<and>
     event_wait False (sp_reactor (\<lambda>_. Inr)) (replicate 3 sample_writing @ replicate 88 sample_gone) (AtTest, sample_parent [(3, 0)] 7, e) = Some (Inr st')"
  by (rule wait_returns) (simp_all add: sample_parent_def new_subprocess_def answers_ok_def child_gone_def sample_writing_def sample_gone_def)

end
