(* ===== verification/Statements.thy ===== *)
theory Statements
  imports DB
begin

text \<open>
  The statements that the program sends to SQLite: how \<^verbatim>\<open>src/Database.cc\<close> prepares them and binds their parameters, and
  the texts and parameters of \<^verbatim>\<open>src/Backup.cc\<close>, \<^verbatim>\<open>src/Conf.cc\<close>, \<^verbatim>\<open>src/Prune.cc\<close>, \<^verbatim>\<open>src/RetireDevices.cc\<close>,
  \<^verbatim>\<open>src/RetireVolumes.cc\<close> and \<^verbatim>\<open>src/Report.cc\<close>.  SQLite is an argument; what the statements do to the table is in \<^verbatim>\<open>DB\<close>.
\<close>

section \<open>Preparing and binding\<close>

datatype sql_param = SqlInt int | SqlInt64 int | SqlString string | SqlCString string | SqlBlob string

datatype sql_value = IntegerValue int | TextValue string | BlobValue string

text \<open>A text ends at its length or, for \<open>SQL_CSTRING\<close>, at its first null.\<close>

definition sql_value_of :: "sql_param \<Rightarrow> sql_value" where
  "sql_value_of p =
     (case p of
        SqlInt i \<Rightarrow> IntegerValue (to_int32 i)
      | SqlInt64 i \<Rightarrow> IntegerValue i
      | SqlString s \<Rightarrow> TextValue s
      | SqlCString s \<Rightarrow> TextValue (c_str s)
      | SqlBlob s \<Rightarrow> BlobValue s)"

definition sql_bind_name :: "sql_param \<Rightarrow> string" where
  "sql_bind_name p =
     (case p of SqlInt _ \<Rightarrow> ''sqlite3_bind_int'' | SqlInt64 _ \<Rightarrow> ''sqlite3_bind_int64'' | _ \<Rightarrow> ''sqlite3_bind_text'')"

text \<open>
  SQLite: preparing a text gives a code and what is left of the text, binding the value of a parameter gives a code, and a
  step gives a code; \<open>sq_errmsg\<close> is the message for a code.
\<close>

record sqlite =
  sq_prepare :: "string \<Rightarrow> int \<times> string"
  sq_bind :: "string \<Rightarrow> nat \<Rightarrow> sql_value \<Rightarrow> int"
  sq_step :: "string \<Rightarrow> sql_value list \<Rightarrow> int"
  sq_errmsg :: "int \<Rightarrow> string"

definition SQLITE_OK :: int where "SQLITE_OK = 0"
definition SQLITE_BUSY :: int where "SQLITE_BUSY = 5"
definition SQLITE_ROW :: int where "SQLITE_ROW = 100"
definition SQLITE_DONE :: int where "SQLITE_DONE = 101"

definition sql_error :: "sqlite \<Rightarrow> string \<Rightarrow> int \<Rightarrow> err" where
  "sql_error q description rc =
     (if rc = SQLITE_BUSY then DatabaseBusy (description @ '': '' @ sq_errmsg q rc)
      else DatabaseError (description @ '': '' @ sq_errmsg q rc))"

fun vbind :: "sqlite \<Rightarrow> string \<Rightarrow> nat \<Rightarrow> sql_param list \<Rightarrow> sql_value list result" where
  "vbind q cmd n [] = Inr []"
| "vbind q cmd n (p # ps) =
     (let rc = sq_bind q cmd n (sql_value_of p)
      in if rc \<noteq> SQLITE_OK then Inl (sql_error q (sql_bind_name p) rc)
         else rbind (vbind q cmd (n + 1) ps) (\<lambda>vs. Inr (sql_value_of p # vs)))"

definition vprepare :: "sqlite \<Rightarrow> string \<Rightarrow> sql_param list \<Rightarrow> sql_value list result" where
  "vprepare q cmd ps =
     (let (rc, rest) = sq_prepare q cmd
      in if rc \<noteq> SQLITE_OK then Inl (sql_error q (''sqlite3_prepare_v2: '' @ cmd) rc)
         else if rest \<noteq> [] then Inl (LogicError (''Database::Statement::vprepare: trailing junk: '' @ [CHR 0x22] @ rest @ [CHR 0x22]))
         else vbind q cmd 1 ps)"

definition statement_next :: "sqlite \<Rightarrow> string \<Rightarrow> sql_value list \<Rightarrow> bool result" where
  "statement_next q cmd vs =
     (let rc = sq_step q cmd vs
      in if rc = SQLITE_ROW then Inr True
         else if rc = SQLITE_DONE then Inr False
         else if rc = SQLITE_OK then Inl (LogicError ''Database::Statement::next: sqlite3_step returned SQLITE_OK'')
         else Inl (sql_error q ''sqlite3_step'' rc))"

definition execute :: "sqlite \<Rightarrow> string \<times> sql_param list \<Rightarrow> bool result" where
  "execute q st = rbind (vprepare q (fst st) (snd st)) (statement_next q (fst st))"

section \<open>The statements of the program\<close>

definition hasTable_statement :: "string \<Rightarrow> string \<times> sql_param list" where
  "hasTable_statement n = (''SELECT name FROM sqlite_master WHERE type = '' @ quoted ''table'' @ '' AND name = ?'', [SqlString n])"

definition insert_statement :: "int \<Rightarrow> string \<Rightarrow> string \<Rightarrow> bool \<Rightarrow> backup \<Rightarrow> string \<times> sql_param list" where
  "insert_statement version host volume replace b =
     (let command = (if replace then ''INSERT OR REPLACE'' else ''INSERT'');
          fields = [SqlString host, SqlString volume, SqlString (b_deviceName b), SqlString (b_id b), SqlInt64 (b_time b),
            SqlInt64 (b_pruned b), SqlInt (b_waitStatus b), SqlInt (status_number (b_status b)), SqlString (b_contents b)]
      in if version < 11
         then (command @ '' INTO backup (host,volume,device,id,time,pruned,rc,status,log) VALUES (?,?,?,?,?,?,?,?,?)'', fields)
         else (command @ '' INTO backup (host,volume,device,id,time,pruned,rc,status,log,finishTime) VALUES (?,?,?,?,?,?,?,?,?,?)'',
               fields @ [SqlInt64 (b_finishTime b)]))"

definition update_statement :: "int \<Rightarrow> string \<Rightarrow> string \<Rightarrow> backup \<Rightarrow> string \<times> sql_param list" where
  "update_statement version host volume b =
     (let fields = [SqlInt (b_waitStatus b), SqlInt (status_number (b_status b)), SqlString (b_contents b), SqlInt64 (b_time b), SqlInt64 (b_pruned b)];
          key = [SqlString host, SqlString volume, SqlString (b_deviceName b), SqlString (b_id b)]
      in if version < 11
         then (''UPDATE backup SET rc=?,status=?,log=?,time=?,pruned=? WHERE host=? AND volume=? AND device=? AND id=?'', fields @ key)
         else (''UPDATE backup SET rc=?,status=?,log=?,time=?,pruned=?,finishTime=? WHERE host=? AND volume=? AND device=? AND id=?'',
               fields @ [SqlInt64 (b_finishTime b)] @ key))"

definition remove_statement :: "string \<Rightarrow> string \<Rightarrow> string \<Rightarrow> string \<Rightarrow> string \<times> sql_param list" where
  "remove_statement host volume device i =
     (''DELETE FROM backup WHERE host=? AND volume=? AND device=? AND id=?'', [SqlString host, SqlString volume, SqlString device, SqlString i])"

definition expire_statement :: "int \<Rightarrow> string \<times> sql_param list" where
  "expire_statement before = (''DELETE FROM backup WHERE status=? AND pruned < ?'', [SqlInt (status_number PRUNED), SqlInt64 before])"

definition retire_device_statement :: "string \<Rightarrow> string \<times> sql_param list" where
  "retire_device_statement device = (''DELETE FROM backup WHERE device=?'', [SqlString device])"

definition retire_select_statement :: "string \<Rightarrow> string \<Rightarrow> string \<times> sql_param list" where
  "retire_select_statement host volume =
     (if volume = ''*''
      then (''SELECT volume,device,id FROM backup WHERE host=? AND status!=?'', [SqlString host, SqlInt (status_number PRUNED)])
      else (''SELECT volume,device,id FROM backup WHERE host=? AND volume=? AND status!=?'',
            [SqlString host, SqlString volume, SqlInt (status_number PRUNED)]))"

definition state_statement :: "int \<Rightarrow> string \<times> sql_param list" where
  "state_statement version =
     (if version < 11 then ''SELECT host,volume,device,id,time,pruned,rc,status,log FROM backup''
      else ''SELECT host,volume,device,id,time,pruned,rc,status,log,finishtime FROM backup'', [])"

definition prune_log_statement :: "int \<Rightarrow> string \<times> sql_param list" where
  "prune_log_statement cutoff =
     (''SELECT host,volume,device,time,pruned,log FROM backup WHERE (status=? OR status=?) AND pruned >= ? ORDER BY pruned DESC'',
      [SqlInt (status_number PRUNING), SqlInt (status_number PRUNED), SqlInt64 cutoff])"

definition create_statement :: "int \<Rightarrow> string \<times> sql_param list" where
  "create_statement version =
     (''CREATE TABLE backup ('' @ [LF] @
      concat (map (\<lambda>(n, t, v). if v \<le> version then ''  '' @ n @ [SP] @ t @ '','' @ [LF] else []) backup_columns) @
      ''  PRIMARY KEY (host,volume,device,id)'' @ [LF] @ '')'', [])"

definition columns_statement :: "string \<times> sql_param list" where
  "columns_statement = (''SELECT name FROM pragma_table_info('' @ quoted ''backup'' @ '');'', [])"

definition add_column_statement :: "string \<times> string \<times> int \<Rightarrow> string \<times> sql_param list" where
  "add_column_statement c = (case c of (n, t, v) \<Rightarrow> (''ALTER TABLE backup ADD COLUMN '' @ n @ [SP] @ t @ '';'', []))"

section \<open>What the texts say\<close>

text \<open>The parameters of a text, the columns of an insertion, and the columns that parameters are compared with or given to.\<close>

definition placeholders :: "string \<Rightarrow> nat" where
  "placeholders s = length (filter (\<lambda>c. c = CHR ''?'') s)"

fun comma_list :: "string \<Rightarrow> string list" where
  "comma_list [] = [[]]"
| "comma_list (c # s) = (if c = CHR '','' then [] # comma_list s else case comma_list s of w # ws \<Rightarrow> (c # w) # ws | [] \<Rightarrow> [[c]])"

definition insert_columns :: "string \<Rightarrow> string list" where
  "insert_columns s = comma_list (takeWhile (\<lambda>c. c \<noteq> CHR '')'') (tl (dropWhile (\<lambda>c. c \<noteq> CHR ''('') s)))"

fun compared_columns :: "bool \<Rightarrow> string \<Rightarrow> string \<Rightarrow> string list" where
  "compared_columns inside word [] = []"
| "compared_columns inside word (c # s) =
     (if c = CHR ''?'' then word # compared_columns False word s
      else if c_isalnum c then compared_columns True (if inside then word @ [c] else [c]) s
      else compared_columns False word s)"

text \<open>The values of a row, by column.\<close>

definition row_values :: "int \<Rightarrow> db_key \<Rightarrow> db_row \<Rightarrow> (string \<times> sql_value) list" where
  "row_values version k r =
     (case k of (host, volume, device, i) \<Rightarrow>
        [(''host'', TextValue host), (''volume'', TextValue volume), (''device'', TextValue device), (''id'', TextValue i),
         (''time'', IntegerValue (r_time r)), (''pruned'', IntegerValue (r_pruned r)), (''rc'', IntegerValue (to_int32 (r_rc r))),
         (''status'', IntegerValue (status_number (r_status r))), (''log'', TextValue (r_log r))] @
        (if version < 11 then [] else [(''finishTime'', IntegerValue (r_finishTime r))]))"

lemma insert_statement_parts:
  "insert_columns (fst (insert_statement version host volume replace b)) =
     [''host'', ''volume'', ''device'', ''id'', ''time'', ''pruned'', ''rc'', ''status'', ''log''] @ (if version < 11 then [] else [''finishTime''])"
  "snd (insert_statement version host volume replace b) =
     [SqlString host, SqlString volume, SqlString (b_deviceName b), SqlString (b_id b), SqlInt64 (b_time b),
      SqlInt64 (b_pruned b), SqlInt (b_waitStatus b), SqlInt (status_number (b_status b)), SqlString (b_contents b)] @
     (if version < 11 then [] else [SqlInt64 (b_finishTime b)])"
proof -
  show "insert_columns (fst (insert_statement version host volume replace b)) =
     [''host'', ''volume'', ''device'', ''id'', ''time'', ''pruned'', ''rc'', ''status'', ''log''] @ (if version < 11 then [] else [''finishTime''])"
    by (cases "version < 11"; cases replace; simp only: insert_statement_def Let_def if_True if_False fst_conv; code_simp)
  show "snd (insert_statement version host volume replace b) =
     [SqlString host, SqlString volume, SqlString (b_deviceName b), SqlString (b_id b), SqlInt64 (b_time b),
      SqlInt64 (b_pruned b), SqlInt (b_waitStatus b), SqlInt (status_number (b_status b)), SqlString (b_contents b)] @
     (if version < 11 then [] else [SqlInt64 (b_finishTime b)])"
    by (cases "version < 11"; simp only: insert_statement_def Let_def if_True if_False snd_conv append_Nil2)
qed

lemma update_statement_parts:
  "compared_columns False [] (fst (update_statement version host volume b)) =
     [''rc'', ''status'', ''log'', ''time'', ''pruned''] @ (if version < 11 then [] else [''finishTime'']) @ [''host'', ''volume'', ''device'', ''id'']"
  "snd (update_statement version host volume b) =
     [SqlInt (b_waitStatus b), SqlInt (status_number (b_status b)), SqlString (b_contents b), SqlInt64 (b_time b), SqlInt64 (b_pruned b)] @
     (if version < 11 then [] else [SqlInt64 (b_finishTime b)]) @ [SqlString host, SqlString volume, SqlString (b_deviceName b), SqlString (b_id b)]"
proof -
  show "compared_columns False [] (fst (update_statement version host volume b)) =
     [''rc'', ''status'', ''log'', ''time'', ''pruned''] @ (if version < 11 then [] else [''finishTime'']) @ [''host'', ''volume'', ''device'', ''id'']"
    by (cases "version < 11"; simp only: update_statement_def Let_def if_True if_False fst_conv; code_simp)
  show "snd (update_statement version host volume b) =
     [SqlInt (b_waitStatus b), SqlInt (status_number (b_status b)), SqlString (b_contents b), SqlInt64 (b_time b), SqlInt64 (b_pruned b)] @
     (if version < 11 then [] else [SqlInt64 (b_finishTime b)]) @ [SqlString host, SqlString volume, SqlString (b_deviceName b), SqlString (b_id b)]"
    by (cases "version < 11"; simp only: update_statement_def Let_def if_True if_False snd_conv append_Nil append_assoc)
qed

lemma remove_statement_parts:
  "compared_columns False [] (fst (remove_statement host volume device i)) = [''host'', ''volume'', ''device'', ''id'']"
  "snd (remove_statement host volume device i) = [SqlString host, SqlString volume, SqlString device, SqlString i]"
proof -
  show "compared_columns False [] (fst (remove_statement host volume device i)) = [''host'', ''volume'', ''device'', ''id'']"
    by (simp only: remove_statement_def fst_conv; code_simp)
qed (simp add: remove_statement_def)

text \<open>A statement that is prepared has its parameters bound in their order.\<close>

lemma vbind_values: "vbind q cmd n ps = Inr vs \<Longrightarrow> vs = map sql_value_of ps \<and> (\<forall>i < length ps. sq_bind q cmd (n + i) (vs ! i) = SQLITE_OK)"
proof (induction ps arbitrary: n vs)
  case (Cons p ps)
  from Cons.prems obtain ws where ws: "vs = sql_value_of p # ws" "vbind q cmd (n + 1) ps = Inr ws" "sq_bind q cmd n (sql_value_of p) = SQLITE_OK"
    by (auto simp: Let_def result_simps split: if_splits)
  show ?case using Cons.IH [OF ws(2)] ws(1,3) by (auto simp: nth_Cons split: nat.split)
qed simp

lemma vprepare_values: "vprepare q cmd ps = Inr vs \<Longrightarrow> vs = map sql_value_of ps \<and> (\<forall>i < length ps. sq_bind q cmd (i + 1) (vs ! i) = SQLITE_OK)"
  using vbind_values [of q cmd 1 ps vs] by (auto simp: vprepare_def split: prod.splits if_splits)


definition sample_sqlite :: sqlite where
  "sample_sqlite = \<lparr>sq_prepare = (\<lambda>_. (0, [])), sq_bind = (\<lambda>_ _ _. 0), sq_step = (\<lambda>_ _. 101), sq_errmsg = (\<lambda>_. [])\<rparr>"

lemma sample_prepares: "vprepare sample_sqlite cmd ps = Inr (map sql_value_of ps)"
proof -
  have "vbind sample_sqlite cmd n ps = Inr (map sql_value_of ps)" for n by (induction ps arbitrary: n) (simp_all add: sample_sqlite_def SQLITE_OK_def)
  then show ?thesis by (simp add: vprepare_def sample_sqlite_def SQLITE_OK_def)
qed


text \<open>Every statement has as many parameters as its text has places for them.\<close>

definition parameters_fit :: "string \<times> sql_param list \<Rightarrow> bool" where
  "parameters_fit st \<longleftrightarrow> placeholders (fst st) = length (snd st)"

lemma statement_parameters:
  "parameters_fit (insert_statement version host volume replace b)" "parameters_fit (update_statement version host volume b)"
  "parameters_fit (remove_statement host volume device i)" "parameters_fit (expire_statement before)"
  "parameters_fit (retire_device_statement device)" "parameters_fit (retire_select_statement host volume)"
  "parameters_fit (state_statement version)" "parameters_fit (prune_log_statement cutoff)"
  "parameters_fit (hasTable_statement n)" "parameters_fit columns_statement"
  by (simp_all add: parameters_fit_def placeholders_def insert_statement_def update_statement_def remove_statement_def expire_statement_def
      retire_device_statement_def retire_select_statement_def state_statement_def prune_log_statement_def hasTable_statement_def
      columns_statement_def quoted_def Let_def)

end
