(* ===== verification/Spec2Isabelle.thy ===== *)
theory Spec2Isabelle
  imports Concurrency ConfSafety Commands Stores Checks HostReadBack Colors HtmlSafety CompressTable EmailSafety GraphSafety ProcessOutput Statements
begin

text \<open>
  \<^bold>\<open>rsbackup\<close> backs up volumes of hosts with \<^verbatim>\<open>rsync\<close> onto removable devices, keeps a database of the backups,
  prunes old ones and reports.  This library models the program in \<^verbatim>\<open>src/\<close> of the repository and proves what
  makes its parts correct.

  \<^bold>\<open>The program and its theories.\<close>  The configuration file is read into a tree of hosts and volumes with
  inherited settings; the backups known to the database are attached to the volumes; the command line selects
  volumes and tasks; the devices are identified on their stores; backups are made by threads under a global lock;
  old backups are chosen by policies, marked in the database, removed by a scheduler of actions and recorded.

  \<^item> \<^verbatim>\<open>Prelude\<close>: the exceptions of \<^verbatim>\<open>Errors.h\<close> as the datatype \<open>err\<close>, results as sums with \<open>rbind\<close> and
    \<open>fold_result\<close>, C characters, integers and decimal output.
  \<^item> \<^verbatim>\<open>Numbers\<close>, \<^verbatim>\<open>ConfText\<close>, \<^verbatim>\<open>Names\<close>, \<^verbatim>\<open>Dates\<close>: parsing of integers, intervals and times of day, splitting and
    quoting of lines, \<open>namelt\<close> (the order of host, volume, store and device names), calendar dates and the clock.
  \<^item> \<^verbatim>\<open>OrdMap\<close>: \<open>std::map\<close> and \<open>std::set\<close> as lists in the order of their comparison; the locales \<open>key_order\<close>
    and \<open>keyed_set\<close> state what they promise, and are interpreted for the comparisons of the program.
  \<^item> \<^verbatim>\<open>ConfTypes\<close>, \<^verbatim>\<open>Subproc\<close>, \<^verbatim>\<open>Volumes\<close>: the records of the configuration (\<^verbatim>\<open>Conf.h\<close>, \<^verbatim>\<open>ConfBase.h\<close>, \<^verbatim>\<open>Host.h\<close>,
    \<^verbatim>\<open>Volume.h\<close>, \<^verbatim>\<open>Backup.h\<close>, \<^verbatim>\<open>Device.h\<close>, \<^verbatim>\<open>Store.h\<close>), wait statuses and commands on hosts, the set of backups of a
    volume and its figures.
  \<^item> \<^verbatim>\<open>Policies\<close>: the backup policies (always, daily, interval) and pruning policies (age, decay, exec, never).
  \<^item> \<^verbatim>\<open>Directives\<close>, \<^verbatim>\<open>ConfRead\<close>: indentation, every directive of \<^verbatim>\<open>ConfDirective.cc\<close>, and the reading of lines, files
    and directories of \<^verbatim>\<open>Conf.cc\<close>.  \<^verbatim>\<open>DirectiveSafety\<close> and \<^verbatim>\<open>ConfSafety\<close> prove that reading keeps the configuration in
    order, never follows a missing pointer, and ends unless files include each other in a circle.
  \<^item> \<^verbatim>\<open>Actions\<close>: the scheduler of \<^verbatim>\<open>Action.cc\<close> as functions, and the event loop around it as the step relation
    \<open>al_step\<close>: resources are exclusive, predecessors come first, \<open>trigger\<close> returns.
  \<^item> \<^verbatim>\<open>DB\<close>: the table \<open>backup\<close> under transactions and busy errors, the statements of the program on it, its versions, and
    \<open>readState\<close> with what it loads; \<^verbatim>\<open>Statements\<close>: how the statements are prepared and their parameters bound, the texts of
    the statements, and that they write the rows of \<^verbatim>\<open>DB\<close>.
  \<^item> \<^verbatim>\<open>Prune\<close>: choosing, marking, removing and recording obsolete backups (\<^verbatim>\<open>Prune.cc\<close>, \<^verbatim>\<open>BulkRemove.cc\<close>).
  \<^item> \<^verbatim>\<open>MakeBackup\<close>: one attempt to back up a volume to a device, from the hooks to the record of its outcome;
    \<^verbatim>\<open>Concurrency\<close>: the threads of \<open>makeBackups\<close> under the limits per device and group, as a step relation with
    mutual exclusion, absence of deadlock, an end, and the database knowing what runs.
  \<^item> \<^verbatim>\<open>Selections\<close>, \<^verbatim>\<open>Commands\<close>: the selectors and options of the command line, what an accepted one satisfies, and
    which volumes and stores it selects.
  \<^item> \<^verbatim>\<open>Stores\<close>: the identification of devices on stores and the device hooks (\<^verbatim>\<open>Store.cc\<close>, \<^verbatim>\<open>DeviceAccess.cc\<close>,
    \<open>identifyDevices\<close>); the locale \<open>device_invariant\<close> carries invariants over all of it.
  \<^item> \<^verbatim>\<open>Events\<close>, \<^verbatim>\<open>Processes\<close>: the event loop (\<^verbatim>\<open>EventLoop.cc\<close>) as a machine that the answers of the system drive, and child
    processes (\<^verbatim>\<open>Subprocess.cc\<close>) with their descriptors.  \<^verbatim>\<open>ProcessFds\<close> gives the descriptors of the child and of the
    parent, \<^verbatim>\<open>ProcessOutput\<close> shows that captured output is complete and that \<open>wait\<close> returns.
  \<^item> \<^verbatim>\<open>Retire\<close>, \<^verbatim>\<open>Checks\<close>: questions to the user, \<open>--retire\<close> and \<open>--retire-device\<close> (\<^verbatim>\<open>RetireVolumes.cc\<close>,
    \<^verbatim>\<open>RetireDevices.cc\<close>, \<^verbatim>\<open>Check.cc\<close>) with exactly the rows they delete, the search for unexpected files (\<^verbatim>\<open>CheckBackups.cc\<close>)
    and \<open>--latest\<close>.
  \<^item> \<^verbatim>\<open>ConfWrite\<close>: the writing of the configuration by \<open>--dump-config\<close> (\<^verbatim>\<open>Conf.cc\<close>, \<^verbatim>\<open>ConfBase.cc\<close>, \<^verbatim>\<open>Host.cc\<close>, \<^verbatim>\<open>Volume.cc\<close>);
    \<^verbatim>\<open>ConfReadBack\<close> and \<^verbatim>\<open>HostReadBack\<close> prove that the reader restores a host with its volumes from what is written.
  \<^item> \<^verbatim>\<open>Colors\<close>: colours and the strategies that give devices their colours.
  \<^item> \<^verbatim>\<open>Documents\<close>, \<^verbatim>\<open>TextLayout\<close>, \<^verbatim>\<open>Html\<close>, \<^verbatim>\<open>HtmlSafety\<close>, \<^verbatim>\<open>Base64\<close>, \<^verbatim>\<open>CompressTable\<close>: the document tree of \<^verbatim>\<open>Document.cc\<close>,
    its rendering as text (\<^verbatim>\<open>Text.cc\<close>: word wrap, tables whose rows line up) and as HTML (\<^verbatim>\<open>HTML.cc\<close>: balanced tags and
    quoted text), base64, and the merging of rows of the compressable table.
  \<^item> \<^verbatim>\<open>Report\<close>: the counters and sections of \<^verbatim>\<open>Report.cc\<close>.  \<^verbatim>\<open>ReportSafety\<close> gives the meaning of the counters,
    \<^verbatim>\<open>ReportTables\<close> lays out the tables of a report, \<^verbatim>\<open>ReportRender\<close> shows that a report can be rendered.
  \<^item> \<^verbatim>\<open>Email\<close>, \<^verbatim>\<open>EmailSafety\<close>: the message of \<^verbatim>\<open>Email.cc\<close>, its MIME body, and where \<^verbatim>\<open>rsbackup.cc\<close> writes the report;
    the parts of the message can be separated again, and every output that is asked for is written.
  \<^item> \<^verbatim>\<open>Render\<close>, \<^verbatim>\<open>HistoryGraph\<close>, \<^verbatim>\<open>GraphSafety\<close>: the layout of widgets (\<^verbatim>\<open>Render.cc\<close>), the history graph (\<^verbatim>\<open>HistoryGraph.cc\<close>)
    and the steps of \<^verbatim>\<open>rsbackup-graph.cc\<close> that draw it, as a list of drawings; parts and labels do not overlap, and
    backups are drawn inside the rows.

  \<^bold>\<open>How the code is read.\<close>  Classes are records and the objects that pointers link form a tree; a backup's address is
  its field \<open>b_addr\<close>, the pointers between devices and stores are names and paths.  A function that may throw gives
  \<open>err + 'a\<close>; undefined behaviour (a null pointer, an index out of range) is the error \<open>UndefinedBehaviour\<close>.  Integers are
  \<open>int\<close> with the conversion to 32 bits (\<open>to_int32\<close>) written out where the code narrows, the warning mask is a
  32-bit word, and a \<open>double\<close> is a real number.  What the program asks of the system (files, children, the clock,
  \<open>strtod\<close>, \<open>fnmatch\<close>) is an argument, with what is used of it as a named hypothesis.

  \<^bold>\<open>Loops that may not end.\<close>  \<open>split_words\<close> (a vertical tab is never consumed), \<open>retry_busy\<close> (the database stays busy) and
  \<open>trigger\<close> are \<open>partial_function (option)\<close>, so that not returning is \<open>None\<close>; reading included files has fuel, the depth of
  nesting, and \<open>configuration_read_returns\<close> shows that one more than the rank of the file is enough when the files do not
  include each other in a circle.  Interleavings of threads and children are step relations with explicit event lists; the event loop is run along a list
  of answers, is \<open>None\<close> when it has not returned at their end, and \<open>wait_returns\<close> says how many are enough.

  \<^bold>\<open>Not modelled.\<close>  The system calls behind the arguments: locks,
  globbing, the opening of the database.  What other libraries do is an argument too:
  \<open>iconv\<close>, UUIDs, \<open>strftime\<close>, the extents of texts from Pango; the calls of Cairo are data.  Left out are the parsing of the
  options of \<^verbatim>\<open>rsbackup-graph\<close>, help texts, the progress bar, debug output, messages that are only printed, the freeing
  of objects, and the test programs.
\<close>

end
